(* ===== verification/Prelude.thy ===== *)
theory Prelude
  imports
    Main
    "HOL-Library.AList"
    "HOL-Library.Word"
    "HOL-Library.List_Lexorder"
    "HOL-Library.Char_ord"
    "HOL-Library.Product_Lexorder"
    "HOL-Library.Option_ord"
begin

text \<open>
  Shared ground of the development: the names of the model's basic types, hash maps with
  their iteration order, the string routines of the Rust standard library that the sources
  use, and two interfaces as locales (finite maps, operation systems).

  A Rust \<open>String\<close> is its UTF-8 byte sequence, one \<open>char\<close> per byte: the sources only
  search, split and compare at ASCII delimiters, for which bytes and code points agree, and
  the order of strings in Rust is the order of their bytes.
\<close>

section \<open>Basic types\<close>

type_synonym u64 = "64 word"
type_synonym uuid = "128 word"
type_synonym datetime = int \<comment> \<open>UTC, in nanoseconds since the epoch\<close>

named_theorems hm_simps \<open>lookup, update and key facts of hash maps\<close>
named_theorems str_simps \<open>facts on string routines\<close>

section \<open>Hash maps\<close>

text \<open>
  A hash map is the list of its bindings in the order an iteration visits them. No key
  occurs twice (\<open>hm_wf\<close>). The order of a real hash map is arbitrary, so theorems range
  over all lists.
\<close>

type_synonym ('k, 'v) hmap = "('k \<times> 'v) list"

definition hget :: "('k, 'v) hmap \<Rightarrow> 'k \<Rightarrow> 'v option" where
  "hget m k = map_of m k"

definition hput :: "'k \<Rightarrow> 'v \<Rightarrow> ('k, 'v) hmap \<Rightarrow> ('k, 'v) hmap" where
  "hput k v m = AList.update k v m"

definition hdel :: "'k \<Rightarrow> ('k, 'v) hmap \<Rightarrow> ('k, 'v) hmap" where
  "hdel k m = AList.delete k m"

definition hkeys :: "('k, 'v) hmap \<Rightarrow> 'k list" where
  "hkeys m = map fst m"

definition hm_wf :: "('k, 'v) hmap \<Rightarrow> bool" where
  "hm_wf m = distinct (map fst m)"

definition hhas :: "('k, 'v) hmap \<Rightarrow> 'k \<Rightarrow> bool" where
  "hhas m k = (hget m k \<noteq> None)"

lemma hget_Nil [simp]: "hget [] k = None"
  by (simp add: hget_def)

lemma hget_hput [hm_simps]: "hget (hput k v m) k' = (if k' = k then Some v else hget m k')"
  by (simp add: hget_def hput_def update_conv')

lemma hget_hdel [hm_simps]: "hget (hdel k m) k' = (if k' = k then None else hget m k')"
  by (simp add: hget_def hdel_def delete_conv')

lemma hget_hput_fun: "hget (hput k v m) = (hget m)(k \<mapsto> v)"
  by (auto simp: hm_simps)

lemma hget_hdel_fun: "hget (hdel k m) = (hget m)(k := None)"
  by (auto simp: hm_simps)

lemma hm_wf_Nil [simp]: "hm_wf []"
  by (simp add: hm_wf_def)

lemma hm_wf_hput [hm_simps]: "hm_wf m \<Longrightarrow> hm_wf (hput k v m)"
  by (simp add: hm_wf_def hput_def distinct_update)

lemma hm_wf_hdel [hm_simps]: "hm_wf m \<Longrightarrow> hm_wf (hdel k m)"
  by (simp add: hm_wf_def hdel_def distinct_delete)

lemma set_hkeys [hm_simps]: "set (hkeys m) = {k. hget m k \<noteq> None}"
  unfolding hkeys_def hget_def by (auto simp: map_of_eq_None_iff)

lemma hget_eq_Some_iff: "hm_wf m \<Longrightarrow> hget m k = Some v \<longleftrightarrow> (k, v) \<in> set m"
  by (simp add: hget_def hm_wf_def)

lemma hget_SomeD: "hget m k = Some v \<Longrightarrow> (k, v) \<in> set m"
  by (simp add: hget_def map_of_SomeD)

lemma hkeys_hput: "set (hkeys (hput k v m)) = insert k (set (hkeys m))"
  by (auto simp: set_hkeys hget_hput split: if_splits)


lemma hm_wf_filter [hm_simps]: "hm_wf m \<Longrightarrow> hm_wf (filter P m)"
  by (simp add: hm_wf_def distinct_map_filter)

lemma hget_filter:
  assumes "hm_wf m"
  shows "hget (filter P m) k = (case hget m k of Some v \<Rightarrow> if P (k, v) then Some v else None | None \<Rightarrow> None)"
proof -
  have "hget (filter P m) k = Some v \<longleftrightarrow> hget m k = Some v \<and> P (k, v)" for v
    using assms by (simp add: hget_eq_Some_iff hm_wf_filter)
  note filtered = this
  show ?thesis
  proof (cases "hget (filter P m) k")
    case None
    then have "\<not> (hget m k = Some v \<and> P (k, v))" for v using filtered [of v] by auto
    then show ?thesis using None by (auto split: option.split)
  next
    case (Some v)
    then show ?thesis using filtered [of v] by simp
  qed
qed

lemma length_hkeys: "hm_wf m \<Longrightarrow> length m = card {k. hget m k \<noteq> None}"
  by (metis distinct_card hkeys_def hm_wf_def length_map set_hkeys)

lemma hget_append: "hget (xs @ ys) k = (case hget xs k of None \<Rightarrow> hget ys k | Some v \<Rightarrow> Some v)"
  by (simp add: hget_def map_add_def split: option.split)

lemma hput_new: "hget m k = None \<Longrightarrow> hput k v m = m @ [(k, v)]"
  by (induction m) (auto simp: hget_def hput_def split: if_splits)

text \<open>
  The interface of a finite map: what the version store, the content store and the graph
  rely on. A client may only use these laws.
\<close>

locale finite_map =
  fixes lookup :: "'m \<Rightarrow> 'k \<Rightarrow> 'v option"
    and upd :: "'k \<Rightarrow> 'v \<Rightarrow> 'm \<Rightarrow> 'm"
    and del :: "'k \<Rightarrow> 'm \<Rightarrow> 'm"
    and wf :: "'m \<Rightarrow> bool"
  assumes lookup_upd: "lookup (upd k v m) k' = (if k' = k then Some v else lookup m k')"
    and lookup_del: "lookup (del k m) k' = (if k' = k then None else lookup m k')"
    and wf_upd: "wf m \<Longrightarrow> wf (upd k v m)"
    and wf_del: "wf m \<Longrightarrow> wf (del k m)"
begin

text \<open>Writing a target value, \<open>None\<close> being a removal, is the code's recurring
  \<open>match value { Some(v) => insert, None => remove }\<close>.\<close>

definition assign :: "'k \<Rightarrow> 'v option \<Rightarrow> 'm \<Rightarrow> 'm" where
  "assign k ov m = (case ov of Some v \<Rightarrow> upd k v m | None \<Rightarrow> del k m)"

lemma lookup_assign: "lookup (assign k ov m) k' = (if k' = k then ov else lookup m k')"
  by (simp add: assign_def lookup_upd lookup_del split: option.split)

lemma wf_assign: "wf m \<Longrightarrow> wf (assign k ov m)"
  by (simp add: assign_def wf_upd wf_del split: option.split)

lemma lookup_fold_assign:
  "lookup (fold (\<lambda>k. assign k (f k)) ks m) k = (if k \<in> set ks then f k else lookup m k)"
  by (induction ks arbitrary: m) (auto simp: lookup_assign)

lemma wf_fold_assign: "wf m \<Longrightarrow> wf (fold (\<lambda>k. assign k (f k)) ks m)"
  by (induction ks arbitrary: m) (auto simp: wf_assign)

end

interpretation hm: finite_map hget hput hdel hm_wf
  by unfold_locales (simp_all add: hm_simps)

section \<open>Lists\<close>

lemma last_take: "n \<noteq> 0 \<Longrightarrow> n \<le> length xs \<Longrightarrow> last (take n xs) = xs ! (n - 1)"
  by (subst last_conv_nth) (auto simp: min_def)

section \<open>Operation systems\<close>

text \<open>
  A component with state: one operation takes the state to the next one, whatever it
  returns. An invariant that every operation keeps holds after every sequence of
  operations.
\<close>

locale op_system =
  fixes step :: "'o \<Rightarrow> 's \<Rightarrow> 's"
    and inv :: "'s \<Rightarrow> bool"
    and ok :: "'o \<Rightarrow> 's \<Rightarrow> bool"
  assumes step_inv: "inv s \<Longrightarrow> ok oper s \<Longrightarrow> inv (step oper s)"
begin

fun run :: "'o list \<Rightarrow> 's \<Rightarrow> 's" where
  "run [] s = s"
| "run (x # xs) s = run xs (step x s)"

fun ok_run :: "'o list \<Rightarrow> 's \<Rightarrow> bool" where
  "ok_run [] s = True"
| "ok_run (x # xs) s = (ok x s \<and> ok_run xs (step x s))"

lemma run_append: "run (xs @ ys) s = run ys (run xs s)"
  by (induction xs arbitrary: s) auto

lemma run_inv: "inv s \<Longrightarrow> ok_run xs s \<Longrightarrow> inv (run xs s)"
  by (induction xs arbitrary: s) (auto intro: step_inv)

end

end
