(* ===== verification/Rust_Text.thy ===== *)
theory Rust_Text
  imports Rust_Strings
begin

text \<open>
  The routines of \<open>str\<close> that work on white space and lines, on UTF-8 bytes: splitting into
  words, trimming, lines, ASCII classes and ASCII case.
\<close>

section \<open>White space\<close>

text \<open>The UTF-8 forms of the code points with the Unicode property White_Space.\<close>

definition ws_chars :: "string list" where
  "ws_chars =
     [[CHR 0x09], [CHR 0x0A], [CHR 0x0B],
      [CHR 0x0C], [CHR 0x0D], [CHR 0x20],
      [CHR 0xC2, CHR 0x85], [CHR 0xC2, CHR 0xA0], [CHR 0xE1, CHR 0x9A, CHR 0x80],
      [CHR 0xE2, CHR 0x80, CHR 0x80], [CHR 0xE2, CHR 0x80, CHR 0x81], [CHR 0xE2, CHR 0x80, CHR 0x82],
      [CHR 0xE2, CHR 0x80, CHR 0x83], [CHR 0xE2, CHR 0x80, CHR 0x84], [CHR 0xE2, CHR 0x80, CHR 0x85],
      [CHR 0xE2, CHR 0x80, CHR 0x86], [CHR 0xE2, CHR 0x80, CHR 0x87], [CHR 0xE2, CHR 0x80, CHR 0x88],
      [CHR 0xE2, CHR 0x80, CHR 0x89], [CHR 0xE2, CHR 0x80, CHR 0x8A], [CHR 0xE2, CHR 0x80, CHR 0xA8],
      [CHR 0xE2, CHR 0x80, CHR 0xA9], [CHR 0xE2, CHR 0x80, CHR 0xAF], [CHR 0xE2, CHR 0x81, CHR 0x9F],
      [CHR 0xE3, CHR 0x80, CHR 0x80]]"

text \<open>The length of the white space character a text starts with, 0 when it starts with none.\<close>

definition ws_len :: "string \<Rightarrow> nat" where
  "ws_len s = (case find (starts_with s) ws_chars of Some w \<Rightarrow> length w | None \<Rightarrow> 0)"

definition word_cons :: "string \<Rightarrow> string list \<Rightarrow> string list" where
  "word_cons cur ws = (if cur = [] then ws else rev cur # ws)"

function split_ws :: "string \<Rightarrow> string \<Rightarrow> string list" where
  "split_ws cur [] = word_cons cur []"
| "split_ws cur (c # cs) =
     (if ws_len (c # cs) = 0 then split_ws (c # cur) cs
      else word_cons cur (split_ws [] (drop (ws_len (c # cs)) (c # cs))))"
  by pat_completeness auto
termination
  by (relation "measure (\<lambda>(cur, s). length s)") auto

definition split_whitespace :: "string \<Rightarrow> string list" where
  "split_whitespace s = split_ws [] s"

definition ends_with :: "string \<Rightarrow> string \<Rightarrow> bool" where
  "ends_with s p = starts_with (rev s) (rev p)"

function trim_end :: "string \<Rightarrow> string" where
  "trim_end s =
     (case find (ends_with s) ws_chars of
        Some w \<Rightarrow> if w = [] \<or> s = [] then s else trim_end (take (length s - length w) s)
      | None \<Rightarrow> s)"
  by pat_completeness auto
termination
  by (relation "measure length") auto

declare trim_end.simps [simp del]

definition trim_matches :: "(char \<Rightarrow> bool) \<Rightarrow> string \<Rightarrow> string" where
  "trim_matches P s = rev (dropWhile P (rev (dropWhile P s)))"

text \<open>\<open>str::lines\<close>: the pieces between line feeds, without a carriage return before the line
  feed, and without the empty piece after a final line feed.\<close>

definition strip_cr :: "string \<Rightarrow> string" where
  "strip_cr l = (if l \<noteq> [] \<and> last l = CHR 0x0D then butlast l else l)"

definition text_lines :: "string \<Rightarrow> string list" where
  "text_lines s =
     (let ps = split_on CHR 0x0A s
      in map strip_cr (butlast ps) @ (if last ps = [] then [] else [last ps]))"

section \<open>ASCII\<close>

definition byte :: "char \<Rightarrow> nat" where
  "byte c = of_char c"

definition is_ascii_punct :: "char \<Rightarrow> bool" where
  "is_ascii_punct c =
     (let n = byte c
      in (33 \<le> n \<and> n \<le> 47) \<or> (58 \<le> n \<and> n \<le> 64) \<or> (91 \<le> n \<and> n \<le> 96) \<or> (123 \<le> n \<and> n \<le> 126))"

definition is_ascii_alnum :: "char \<Rightarrow> bool" where
  "is_ascii_alnum c =
     (let n = byte c in (48 \<le> n \<and> n \<le> 57) \<or> (65 \<le> n \<and> n \<le> 90) \<or> (97 \<le> n \<and> n \<le> 122))"

definition ascii_lower :: "string \<Rightarrow> string" where
  "ascii_lower = map (\<lambda>c. if 65 \<le> byte c \<and> byte c \<le> 90 then char_of (byte c + 32) else c)"

section \<open>Words\<close>

text \<open>A text with no white space character anywhere.\<close>

definition ws_free :: "string \<Rightarrow> bool" where
  "ws_free s \<longleftrightarrow> (\<forall>a b. s = a @ b \<longrightarrow> ws_len b = 0)"

lemma ws_len_0_iff: "ws_len s = 0 \<longleftrightarrow> (\<forall>w\<in>set ws_chars. \<not> starts_with s w)"
proof -
  have "\<forall>w\<in>set ws_chars. w \<noteq> []" by (simp add: ws_chars_def)
  then show ?thesis
    by (auto simp: ws_len_def find_None_iff find_Some_iff split: option.split)
qed

lemma ws_len_prefix: "ws_len (a @ b) = 0 \<Longrightarrow> ws_len a = 0"
  by (auto simp: ws_len_0_iff starts_with_iff)

text \<open>A white space character is one ASCII byte, or starts with a byte above 127.\<close>

lemma ws_char_shape:
  "w \<in> set ws_chars \<Longrightarrow> \<exists>c cs. w = c # cs \<and> (cs = [] \<and> byte c \<in> {9, 10, 11, 12, 13, 32} \<or> 127 < byte c)"
  by (simp add: ws_chars_def byte_def) (elim disjE; simp)

lemma ws_char_no_blank: "w \<in> set ws_chars \<Longrightarrow> w = c # cs \<Longrightarrow> CHR '' '' \<notin> set cs"
  by (simp add: ws_chars_def) (elim disjE; simp)

definition plain_char :: "char \<Rightarrow> bool" where
  "plain_char c \<longleftrightarrow> byte c \<le> 127 \<and> byte c \<notin> {9, 10, 11, 12, 13, 32}"

lemma plain_ws_free: "list_all plain_char s \<Longrightarrow> ws_free s"
  unfolding ws_free_def ws_len_0_iff
  by (force simp: starts_with_iff plain_char_def list_all_iff dest: ws_char_shape)

lemma ws_free_single: "ws_free w \<Longrightarrow> w = a @ b \<Longrightarrow> ws_len b = 0"
  by (simp add: ws_free_def)

lemma split_ws_tokens:
  assumes "\<forall>a b. rev cur = a @ b \<longrightarrow> b \<noteq> [] \<longrightarrow> ws_len (b @ s) = 0"
  shows "\<forall>w\<in>set (split_ws cur s). w \<noteq> [] \<and> ws_free w"
  using assms
proof (induction cur s rule: split_ws.induct)
  case (1 cur)
  have "ws_len [] = 0" by (simp add: ws_len_0_iff ws_chars_def starts_with_iff)
  then have "ws_len b = 0" if "rev cur = a @ b" for a b
    using 1 that by (cases "b = []") auto
  then show ?case by (auto simp: word_cons_def ws_free_def)
next
  case (2 cur c cs)
  show ?case
  proof (cases "ws_len (c # cs) = 0")
    case True
    have "ws_len (b @ cs) = 0" if "rev (c # cur) = a @ b" "b \<noteq> []" for a b
    proof -
      from that obtain b' where b: "b = b' @ [c]" "rev cur = a @ b'"
        by (cases b rule: rev_cases) auto
      show ?thesis using 2(3) b True by (cases "b' = []") auto
    qed
    then show ?thesis using 2(1) True by simp
  next
    case False
    have "ws_len [] = 0" by (simp add: ws_len_0_iff ws_chars_def starts_with_iff)
    then have "ws_len b = 0" if "rev cur = a @ b" for a b
      using 2(3) [rule_format, OF that] ws_len_prefix [of b "c # cs"] by (cases "b = []") auto
    then have "ws_free (rev cur)" by (simp add: ws_free_def)
    moreover have "\<forall>w\<in>set (split_ws [] (drop (ws_len (c # cs)) (c # cs))). w \<noteq> [] \<and> ws_free w"
      using 2(2) [OF False] by simp
    ultimately show ?thesis using False by (simp add: word_cons_def)
  qed
qed

lemma split_whitespace_tokens:
  "w \<in> set (split_whitespace s) \<Longrightarrow> w \<noteq> [] \<and> ws_free w"
  unfolding split_whitespace_def using split_ws_tokens [of "[]" s] by auto

text \<open>A blank after a text without white space is where its white space starts.\<close>

lemma ws_len_before_blank:
  assumes "ws_len b = 0" "b \<noteq> []"
  shows "ws_len (b @ CHR '' '' # s) = 0"
  unfolding ws_len_0_iff
proof (intro ballI notI)
  fix w assume w: "w \<in> set ws_chars" and "starts_with (b @ CHR '' '' # s) w"
  then obtain r where r: "b @ CHR '' '' # s = w @ r" by (auto simp: starts_with_iff)
  then consider t where "b = w @ t" | t where "w = b @ t" "t @ r = CHR '' '' # s" "t \<noteq> []"
    unfolding append_eq_append_conv2 by (metis append.right_neutral)
  then show False
  proof cases
    case 1
    then show ?thesis using assms(1) w by (auto simp: ws_len_0_iff starts_with_iff)
  next
    case 2
    then obtain c cs where "w = c # cs" "CHR '' '' \<in> set cs"
      using assms(2) by (cases b) (auto simp: Cons_eq_append_conv append_eq_Cons_conv)
    then show ?thesis using ws_char_no_blank [OF w] by blast
  qed
qed

lemma split_ws_free:
  "ws_free w \<Longrightarrow> \<forall>a b. w = a @ b \<longrightarrow> b \<noteq> [] \<longrightarrow> ws_len (b @ s) = 0 \<Longrightarrow>
   split_ws cur (w @ s) = split_ws (rev w @ cur) s"
proof (induction w arbitrary: cur)
  case (Cons c w)
  have "ws_len (c # w @ s) = 0" using Cons.prems(2) [rule_format, of "[]" "c # w"] by simp
  moreover have "ws_free w" using Cons.prems(1) unfolding ws_free_def by (metis append_Cons)
  moreover have "\<forall>a b. w = a @ b \<longrightarrow> b \<noteq> [] \<longrightarrow> ws_len (b @ s) = 0"
    using Cons.prems(2) by (metis append_Cons)
  ultimately show ?case using Cons.IH by simp
qed simp

lemma ws_len_blank: "ws_len (CHR '' '' # s) = 1"
  by (simp add: ws_len_def ws_chars_def starts_with_def)

lemma split_ws_join:
  "\<forall>w\<in>set ws. w \<noteq> [] \<and> ws_free w \<Longrightarrow> split_ws [] (join '' '' ws) = ws"
proof (induction "'' ''" ws rule: join.induct)
  case (2 w)
  then have "split_ws [] (w @ []) = split_ws (rev w @ []) []"
    by (intro split_ws_free) (auto simp: ws_free_def)
  then show ?case using 2 by (simp add: word_cons_def)
next
  case (3 w v vs)
  let ?rest = "CHR '' '' # join '' '' (v # vs)"
  have "split_ws [] (w @ ?rest) = split_ws (rev w @ []) ?rest"
    using 3(2) by (intro split_ws_free) (auto simp: ws_free_def intro!: ws_len_before_blank)
  also have "\<dots> = w # split_ws [] (join '' '' (v # vs))"
    using 3(2) by (simp add: ws_len_blank word_cons_def)
  finally show ?case using 3 by simp
qed (simp add: word_cons_def)

lemma split_whitespace_join:
  "\<forall>w\<in>set ws. w \<noteq> [] \<and> ws_free w \<Longrightarrow> split_whitespace (join '' '' ws) = ws"
  unfolding split_whitespace_def by (rule split_ws_join)

end
