(* ===== verification/Context_Uri.thy ===== *)
theory Context_Uri
  imports Rust_Strings
begin

text \<open>
  The error type of the core crate and the typed \<open>uwu://\<close> addresses of
  crates/context-db-core/src/uri.rs: parsing, navigation, the query string. The parser and
  the printer of RFC 3339 timestamps belong to the chrono crate; they are the parameters
  \<open>pt\<close> and \<open>rfc\<close>.
\<close>

section \<open>Errors and content levels\<close>

datatype context_error =
    NotFound string
  | InvalidUri string
  | Storage string
  | Llm string
  | VersionConflict string
  | PermissionDenied string
  | Serialization string
  | Io string
  | Unsupported string
  | TrustPolicy string

fun context_error_display :: "context_error \<Rightarrow> string" where
  "context_error_display (NotFound m) = ''not found: '' @ m"
| "context_error_display (InvalidUri m) = ''invalid uri: '' @ m"
| "context_error_display (Storage m) = ''storage: '' @ m"
| "context_error_display (Llm m) = ''LLM: '' @ m"
| "context_error_display (VersionConflict m) = ''version conflict: '' @ m"
| "context_error_display (PermissionDenied m) = ''permission denied: '' @ m"
| "context_error_display (Serialization m) = ''serialization: '' @ m"
| "context_error_display (Io m) = ''IO: '' @ m"
| "context_error_display (Unsupported m) = ''unsupported: '' @ m"
| "context_error_display (TrustPolicy m) = ''trust policy violation: '' @ m"

datatype content_level = L0 | L1 | L2

fun content_level_as_str :: "content_level \<Rightarrow> string" where
  "content_level_as_str L0 = ''l0''"
| "content_level_as_str L1 = ''l1''"
| "content_level_as_str L2 = ''l2''"

fun level_rank :: "content_level \<Rightarrow> nat" where
  "level_rank L0 = 0"
| "level_rank L1 = 1"
| "level_rank L2 = 2"

text \<open>The derived order of the enum: by position of the variant.\<close>

instantiation content_level :: linorder
begin

definition less_eq_content_level :: "content_level \<Rightarrow> content_level \<Rightarrow> bool" where
  "less_eq_content_level a b = (level_rank a \<le> level_rank b)"

definition less_content_level :: "content_level \<Rightarrow> content_level \<Rightarrow> bool" where
  "less_content_level a b = (level_rank a < level_rank b)"

instance
proof
  fix a b :: content_level
  assume "a \<le> b" "b \<le> a"
  then show "a = b"
    by (cases a; cases b) (simp_all add: less_eq_content_level_def)
qed (auto simp: less_eq_content_level_def less_content_level_def)

end

section \<open>Data\<close>

datatype as_of_time = AsOfCommit string | AsOfTimestamp datetime | AsOfLatest

record query_params =
  qp_as_of :: "as_of_time option"
  qp_level :: "content_level option"
  qp_branch :: "string option"
  qp_limit :: "nat option"

record context_uri =
  u_tenant :: string
  u_path :: "string list"
  u_query :: "query_params option"
  u_canonical :: string

definition SCHEME :: string where
  "SCHEME = ''uwu://''"

definition default_query_params :: query_params where
  "default_query_params = \<lparr>qp_as_of = None, qp_level = None, qp_branch = None, qp_limit = None\<rparr>"

section \<open>Parsing\<close>

definition parse_as_of :: "(string \<Rightarrow> datetime option) \<Rightarrow> string \<Rightarrow> as_of_time" where
  "parse_as_of pt val =
     (if val = [] \<or> val = ''latest'' then AsOfLatest
      else case pt val of Some ts \<Rightarrow> AsOfTimestamp ts | None \<Rightarrow> AsOfCommit val)"

text \<open>One round of the loop over the pairs: \<open>splitn(2, '=')\<close> and the match on the key.\<close>

definition apply_query_pair ::
    "(string \<Rightarrow> datetime option) \<Rightarrow> string \<Rightarrow> query_params \<Rightarrow> query_params" where
  "apply_query_pair pt pair params =
     (let (key, val) = (case split_once CHR ''='' pair of Some (k, v) \<Rightarrow> (k, v) | None \<Rightarrow> (pair, []))
      in if key = ''as_of'' then params\<lparr>qp_as_of := Some (parse_as_of pt val)\<rparr>
         else if key = ''level'' then
           params\<lparr>qp_level :=
             (if val = ''l0'' then Some L0
              else if val = ''l1'' then Some L1
              else if val = ''l2'' then Some L2
              else None)\<rparr>
         else if key = ''branch'' then
           (if val \<noteq> [] then params\<lparr>qp_branch := Some val\<rparr> else params)
         else if key = ''limit'' then
           (case parse_usize val of Some n \<Rightarrow> params\<lparr>qp_limit := Some n\<rparr> | None \<Rightarrow> params)
         else params)"

definition parse_query_string ::
    "(string \<Rightarrow> datetime option) \<Rightarrow> string \<Rightarrow> query_params option" where
  "parse_query_string pt qs =
     (if qs = [] then None
      else Some (fold (apply_query_pair pt) (split_on CHR ''&'' qs) default_query_params))"

definition path_segments :: "string \<Rightarrow> string list" where
  "path_segments path_part = filter (\<lambda>seg. seg \<noteq> []) (split_on CHR ''/'' path_part)"

definition from_string ::
    "(string \<Rightarrow> datetime option) \<Rightarrow> string \<Rightarrow> context_error + context_uri" where
  "from_string pt s =
     (if \<not> starts_with s SCHEME
      then Inl (InvalidUri (''missing `'' @ SCHEME @ ''` scheme: '' @ s))
      else
        let rest = drop (length SCHEME) s in
        if rest = [] then Inl (InvalidUri (''empty path: '' @ s))
        else
          let (path_part, query_str) =
                (case split_once CHR ''?'' rest of
                   Some (p, q) \<Rightarrow> (p, Some q)
                 | None \<Rightarrow> (rest, None));
              path = path_segments path_part
          in if path = [] then Inl (InvalidUri (''empty path: '' @ s))
             else Inr \<lparr>u_tenant = hd path, u_path = path,
                       u_query = Option.bind query_str (parse_query_string pt),
                       u_canonical = s\<rparr>)"

definition parse :: "(string \<Rightarrow> datetime option) \<Rightarrow> string \<Rightarrow> context_error + context_uri" where
  "parse pt s = from_string pt s"

section \<open>Navigation\<close>

definition segments :: "context_uri \<Rightarrow> string list" where
  "segments u = u_path u"

definition tenant_segment :: "context_uri \<Rightarrow> string option" where
  "tenant_segment u = (case u_path u of [] \<Rightarrow> None | s # _ \<Rightarrow> Some s)"

text \<open>\<open>path[0]\<close> is only reached when the path has at least two segments.\<close>

definition parent :: "context_uri \<Rightarrow> context_uri option" where
  "parent u =
     (let path = u_path u in
      if length path \<le> 1 then None
      else
        let parent_path = take (length path - 1) path in
        Some \<lparr>u_tenant = hd path, u_path = parent_path, u_query = None,
              u_canonical = SCHEME @ join ''/'' parent_path\<rparr>)"

definition uri_join :: "context_uri \<Rightarrow> string \<Rightarrow> context_uri" where
  "uri_join u seg =
     \<lparr>u_tenant = u_tenant u, u_path = u_path u @ [seg], u_query = None,
      u_canonical = trim_end_matches CHR ''/'' (u_canonical u) @ ''/'' @ seg\<rparr>"

definition depth :: "context_uri \<Rightarrow> nat" where
  "depth u = length (u_path u)"

datatype uri_category =
    User | Agent | Resources | Skills | Wiki | Sessions | State | Persona | Metacog | Character
  | Unknown

definition category :: "context_uri \<Rightarrow> uri_category" where
  "category u =
     (let cat = (if 1 < length (u_path u) then u_path u ! 1 else [])
      in if cat = ''user'' then User
         else if cat = ''agent'' then Agent
         else if cat = ''resources'' then Resources
         else if cat = ''skills'' then Skills
         else if cat = ''wiki'' then Wiki
         else if cat = ''sessions'' then Sessions
         else if cat = ''state'' then State
         else if cat = ''persona'' then Persona
         else if cat = ''metacog'' then Metacog
         else if cat = ''character'' then Character
         else Unknown)"

definition as_of :: "context_uri \<Rightarrow> as_of_time option" where
  "as_of u = Option.bind (u_query u) qp_as_of"

definition uri_level :: "context_uri \<Rightarrow> content_level option" where
  "uri_level u = Option.bind (u_query u) qp_level"

section \<open>The query string\<close>

definition query_to_string :: "(datetime \<Rightarrow> string) \<Rightarrow> query_params \<Rightarrow> string" where
  "query_to_string rfc q =
     join ''&''
       ((case qp_as_of q of
           None \<Rightarrow> []
         | Some AsOfLatest \<Rightarrow> [''as_of=latest'']
         | Some (AsOfCommit h) \<Rightarrow> [''as_of='' @ h]
         | Some (AsOfTimestamp ts) \<Rightarrow> [''as_of='' @ rfc ts])
        @ (case qp_level q of None \<Rightarrow> [] | Some l \<Rightarrow> [''level='' @ content_level_as_str l])
        @ (case qp_branch q of None \<Rightarrow> [] | Some b \<Rightarrow> [''branch='' @ b])
        @ (case qp_limit q of None \<Rightarrow> [] | Some n \<Rightarrow> [''limit='' @ show_nat n]))"

definition uri_base :: "context_uri \<Rightarrow> string" where
  "uri_base u = hd (split_on CHR ''?'' (u_canonical u))"

definition with_query ::
    "(datetime \<Rightarrow> string) \<Rightarrow> context_uri \<Rightarrow> query_params \<Rightarrow> context_uri" where
  "with_query rfc u q =
     \<lparr>u_tenant = u_tenant u, u_path = u_path u, u_query = Some q,
      u_canonical = uri_base u @ ''?'' @ query_to_string rfc q\<rparr>"

definition without_query :: "(string \<Rightarrow> datetime option) \<Rightarrow> context_uri \<Rightarrow> context_uri" where
  "without_query pt u =
     (if u_query u = None then u
      else case parse pt (uri_base u) of Inl _ \<Rightarrow> u | Inr v \<Rightarrow> v)"

definition uri_as_str :: "context_uri \<Rightarrow> string" where
  "uri_as_str u = u_canonical u"

text \<open>The derived order: tenant, then path, then query, then canonical text.\<close>

fun as_of_key :: "as_of_time \<Rightarrow> nat \<times> string \<times> datetime" where
  "as_of_key (AsOfCommit h) = (0, h, 0)"
| "as_of_key (AsOfTimestamp t) = (1, [], t)"
| "as_of_key AsOfLatest = (2, [], 0)"

definition query_key ::
    "query_params \<Rightarrow> (nat \<times> string \<times> datetime) option \<times> content_level option \<times>
       string option \<times> nat option" where
  "query_key q = (map_option as_of_key (qp_as_of q), qp_level q, qp_branch q, qp_limit q)"

definition uri_key ::
    "context_uri \<Rightarrow> string \<times> string list \<times>
       ((nat \<times> string \<times> datetime) option \<times> content_level option \<times> string option \<times>
         nat option) option \<times> string" where
  "uri_key u = (u_tenant u, u_path u, map_option query_key (u_query u), u_canonical u)"


section \<open>Well-formed addresses\<close>

definition clean_segment :: "string \<Rightarrow> bool" where
  "clean_segment seg = (seg \<noteq> [] \<and> CHR ''/'' \<notin> set seg \<and> CHR ''?'' \<notin> set seg)"

definition uri_wf :: "context_uri \<Rightarrow> bool" where
  "uri_wf u =
     (u_path u \<noteq> [] \<and> u_tenant u = hd (u_path u) \<and> list_all clean_segment (u_path u))"

lemma scheme_chars [simp]: "CHR ''?'' \<notin> set SCHEME" "SCHEME \<noteq> []"
  by (simp_all add: SCHEME_def)

lemma path_segments_append_sep:
  "path_segments (a @ CHR ''/'' # b) = path_segments a @ path_segments b"
  by (simp add: path_segments_def split_on_append_sep)

lemma path_segments_Nil [simp]: "path_segments [] = []"
  by (simp add: path_segments_def)

lemma path_segments_single: "clean_segment seg \<Longrightarrow> path_segments seg = [seg]"
  by (simp add: path_segments_def clean_segment_def split_on_no_sep)

lemma path_segments_clean:
  "CHR ''?'' \<notin> set p \<Longrightarrow> seg \<in> set (path_segments p) \<Longrightarrow> clean_segment seg"
  unfolding path_segments_def clean_segment_def
  using split_on_pieces split_on_chars by fastforce

lemma path_segments_join:
  assumes "list_all clean_segment xs"
  shows "path_segments (join ''/'' xs) = xs"
proof (cases "xs = []")
  case False
  moreover have "filter (\<lambda>seg. seg \<noteq> []) xs = xs"
    using assms by (intro filter_True) (auto simp: list_all_iff clean_segment_def)
  ultimately show ?thesis
    using assms by (simp add: path_segments_def split_on_join list_all_iff clean_segment_def)
qed simp

lemma join_clean:
  assumes "list_all clean_segment xs"
  shows "CHR ''?'' \<notin> set (join ''/'' xs)"
  using set_join [of "''/''" xs] assms
  by (auto simp: list_all_iff clean_segment_def dest!: subsetD)

text \<open>The two shapes of an accepted string: a path, or a path and a query string.\<close>

lemma from_string_plain:
  assumes "CHR ''?'' \<notin> set p" "path_segments p \<noteq> []"
  shows "from_string pt (SCHEME @ p) =
    Inr \<lparr>u_tenant = hd (path_segments p), u_path = path_segments p, u_query = None,
         u_canonical = SCHEME @ p\<rparr>"
proof -
  have "p \<noteq> []" using assms(2) by auto
  moreover have "split_once CHR ''?'' p = None" using assms(1) by (simp add: split_once_None_iff)
  ultimately show ?thesis using assms(2) by (simp add: from_string_def Let_def)
qed

lemma from_string_query:
  assumes "CHR ''?'' \<notin> set p" "path_segments p \<noteq> []"
  shows "from_string pt (SCHEME @ p @ CHR ''?'' # q) =
    Inr \<lparr>u_tenant = hd (path_segments p), u_path = path_segments p,
         u_query = parse_query_string pt q, u_canonical = SCHEME @ p @ CHR ''?'' # q\<rparr>"
proof -
  have "split_once CHR ''?'' (p @ CHR ''?'' # q) = Some (p, q)"
    using assms(1) by (rule split_once_append)
  then show ?thesis using assms(2) by (simp add: from_string_def Let_def)
qed

lemma from_string_cases:
  assumes "from_string pt s = Inr u"
  obtains (plain) p where "s = SCHEME @ p" "CHR ''?'' \<notin> set p" "path_segments p \<noteq> []"
      "u = \<lparr>u_tenant = hd (path_segments p), u_path = path_segments p, u_query = None,
            u_canonical = s\<rparr>"
  | (query) p q where "s = SCHEME @ p @ CHR ''?'' # q" "CHR ''?'' \<notin> set p"
      "path_segments p \<noteq> []"
      "u = \<lparr>u_tenant = hd (path_segments p), u_path = path_segments p,
            u_query = parse_query_string pt q, u_canonical = s\<rparr>"
proof -
  from assms have "starts_with s SCHEME" by (auto simp: from_string_def split: if_splits)
  then obtain r where r: "s = SCHEME @ r" by (rule starts_withE)
  show thesis
  proof (cases "split_once CHR ''?'' r")
    case None
    then have "CHR ''?'' \<notin> set r" by (simp add: split_once_None_iff)
    with None assms r show thesis
      by (intro plain [of r]) (auto simp: from_string_def Let_def split: if_splits)
  next
    case (Some pq)
    then obtain p q where pq: "split_once CHR ''?'' r = Some (p, q)" by (cases pq) auto
    with split_once_SomeD [OF pq] assms r show thesis
      by (intro query [of p q]) (auto simp: from_string_def Let_def split: if_splits)
  qed
qed

lemma uri_base_parsed:
  assumes "from_string pt s = Inr u"
  obtains p where "uri_base u = SCHEME @ p" "CHR ''?'' \<notin> set p"
    "path_segments p = u_path u" "u_path u \<noteq> []" "u_tenant u = hd (u_path u)"
    "u_query u = None \<or> u_canonical u \<noteq> SCHEME @ p"
  using assms
proof (cases rule: from_string_cases)
  case (plain p)
  then have "uri_base u = SCHEME @ p" by (simp add: uri_base_def split_on_no_sep)
  with plain show thesis by (intro that [of p]) auto
next
  case (query p q)
  have "split_on CHR ''?'' ((SCHEME @ p) @ CHR ''?'' # q) = (SCHEME @ p) # split_on CHR ''?'' q"
    using query(2) by (intro split_on_append) auto
  with query have "uri_base u = SCHEME @ p" by (simp add: uri_base_def)
  with query show thesis by (intro that [of p]) auto
qed

lemma parse_uri_wf: "from_string pt s = Inr u \<Longrightarrow> uri_wf u"
  by (erule from_string_cases) (auto simp: uri_wf_def list_all_iff path_segments_clean)

lemma parse_canonical: "from_string pt s = Inr u \<Longrightarrow> u_canonical u = s"
  by (erule from_string_cases) auto

lemma parent_SomeD:
  assumes "parent u = Some v"
  shows "u_path v = butlast (u_path u)" "2 \<le> length (u_path u)"
    "u_tenant v = hd (u_path u)" "u_query v = None"
    "u_canonical v = SCHEME @ join ''/'' (butlast (u_path u))"
  using assms by (auto simp: parent_def Let_def butlast_conv_take split: if_splits)

lemma parent_wf:
  assumes "uri_wf u" "parent u = Some v"
  shows "uri_wf v"
proof -
  have "u_path u = butlast (u_path u) @ [last (u_path u)]"
    using assms(1) by (simp add: uri_wf_def)
  then have "list_all clean_segment (butlast (u_path u))"
    using assms(1) by (metis list_all_append uri_wf_def)
  moreover have "butlast (u_path u) \<noteq> []" "hd (butlast (u_path u)) = hd (u_path u)"
    using parent_SomeD(2) [OF assms(2)] by (cases "u_path u"; auto)+
  ultimately show ?thesis by (simp add: uri_wf_def parent_SomeD [OF assms(2)])
qed


section \<open>Trailing slashes and joining\<close>

lemma path_segments_slashes [simp]: "path_segments (replicate n CHR ''/'') = []"
  by (induction n) (auto simp: path_segments_def)

lemma trim_end_split:
  obtains n where "s = trim_end_matches c s @ replicate n c"
proof -
  have "s = rev (dropWhile (\<lambda>x. x = c) (rev s)) @ rev (takeWhile (\<lambda>x. x = c) (rev s))"
    by (metis rev_append rev_rev_ident takeWhile_dropWhile_id)
  moreover have "takeWhile (\<lambda>x. x = c) (rev s) = replicate (length (takeWhile (\<lambda>x. x = c) (rev s))) c"
    by (rule replicate_length_same [symmetric]) (auto dest: set_takeWhileD)
  ultimately show thesis
    using that by (metis rev_replicate trim_end_matches_def)
qed

lemma path_segments_trailing: "path_segments (a @ replicate n CHR ''/'') = path_segments a"
proof (cases n)
  case (Suc m)
  then show ?thesis by (simp add: path_segments_append_sep)
qed simp

lemma trim_canonical:
  assumes "path_segments p \<noteq> []"
  obtains q where "trim_end_matches CHR ''/'' (SCHEME @ p) = SCHEME @ q"
    "path_segments q = path_segments p" "set q \<subseteq> set p"
proof -
  obtain n where n: "p = trim_end_matches CHR ''/'' p @ replicate n CHR ''/''"
    by (rule trim_end_split)
  let ?q = "trim_end_matches CHR ''/'' p"
  have seg: "path_segments ?q = path_segments p"
    by (metis n path_segments_trailing)
  have "\<exists>x\<in>set (rev p). x \<noteq> CHR ''/''"
  proof (rule ccontr)
    assume "\<not> ?thesis"
    then have "p = replicate (length p) CHR ''/''"
      by (intro replicate_length_same [symmetric]) auto
    with assms show False by (metis path_segments_slashes)
  qed
  then obtain x where "x \<in> set (rev p)" "\<not> x = CHR ''/''" by blast
  then have "dropWhile (\<lambda>x. x = CHR ''/'') (rev p @ rev SCHEME) =
      dropWhile (\<lambda>x. x = CHR ''/'') (rev p) @ rev SCHEME"
    by (rule dropWhile_append1)
  then have "trim_end_matches CHR ''/'' (SCHEME @ p) = SCHEME @ ?q"
    by (simp add: trim_end_matches_def)
  moreover have "set ?q \<subseteq> set p" by (subst n) auto
  ultimately show thesis using seg that by blast
qed

section \<open>The query string round trip\<close>

text \<open>The parameter values that survive printing: no separator inside a value, no empty or
  reserved text where the parser gives it another meaning, at least one parameter.\<close>

definition plain_value :: "string \<Rightarrow> bool" where
  "plain_value v = (v \<noteq> [] \<and> CHR ''&'' \<notin> set v)"

definition clean_query ::
    "(string \<Rightarrow> datetime option) \<Rightarrow> (datetime \<Rightarrow> string) \<Rightarrow> query_params \<Rightarrow> bool" where
  "clean_query pt rfc q =
     ((case qp_as_of q of
         None \<Rightarrow> True
       | Some AsOfLatest \<Rightarrow> True
       | Some (AsOfCommit h) \<Rightarrow> plain_value h \<and> h \<noteq> ''latest'' \<and> pt h = None
       | Some (AsOfTimestamp t) \<Rightarrow>
           plain_value (rfc t) \<and> rfc t \<noteq> ''latest'' \<and> pt (rfc t) = Some t)
      \<and> (case qp_branch q of None \<Rightarrow> True | Some b \<Rightarrow> plain_value b)
      \<and> (case qp_limit q of None \<Rightarrow> True | Some n \<Rightarrow> n < 2 ^ 64)
      \<and> q \<noteq> default_query_params)"

definition query_parts :: "(datetime \<Rightarrow> string) \<Rightarrow> query_params \<Rightarrow> string list" where
  "query_parts rfc q =
     (case qp_as_of q of
        None \<Rightarrow> []
      | Some AsOfLatest \<Rightarrow> [''as_of=latest'']
      | Some (AsOfCommit h) \<Rightarrow> [''as_of='' @ h]
      | Some (AsOfTimestamp ts) \<Rightarrow> [''as_of='' @ rfc ts])
     @ (case qp_level q of None \<Rightarrow> [] | Some l \<Rightarrow> [''level='' @ content_level_as_str l])
     @ (case qp_branch q of None \<Rightarrow> [] | Some b \<Rightarrow> [''branch='' @ b])
     @ (case qp_limit q of None \<Rightarrow> [] | Some n \<Rightarrow> [''limit='' @ show_nat n])"

lemma apply_pair_simps:
  "apply_query_pair pt (''as_of='' @ v) p = p\<lparr>qp_as_of := Some (parse_as_of pt v)\<rparr>"
  "apply_query_pair pt (''level='' @ content_level_as_str l) p = p\<lparr>qp_level := Some l\<rparr>"
  "v \<noteq> [] \<Longrightarrow> apply_query_pair pt (''branch='' @ v) p = p\<lparr>qp_branch := Some v\<rparr>"
  "n < 2 ^ 64 \<Longrightarrow> apply_query_pair pt (''limit='' @ show_nat n) p = p\<lparr>qp_limit := Some n\<rparr>"
proof -
  show "apply_query_pair pt (''level='' @ content_level_as_str l) p = p\<lparr>qp_level := Some l\<rparr>"
    by (cases l) (auto simp: apply_query_pair_def)
qed (auto simp: apply_query_pair_def parse_show_usize)

lemma show_nat_no_amp: "CHR ''&'' \<notin> set (show_nat n)"
  using show_nat_digits [of "CHR ''&''" n] by (auto simp: is_digit_def)

lemma level_no_amp: "CHR ''&'' \<notin> set (content_level_as_str l)"
  by (cases l) auto

lemma query_parts_no_amp:
  "clean_query pt rfc q \<Longrightarrow> x \<in> set (query_parts rfc q) \<Longrightarrow> CHR ''&'' \<notin> set x"
  unfolding query_parts_def
  by (auto simp: clean_query_def plain_value_def show_nat_no_amp level_no_amp
      split: option.splits as_of_time.splits)

lemma query_parts_not_Nil: "clean_query pt rfc q \<Longrightarrow> query_parts rfc q \<noteq> []"
  unfolding query_parts_def
  by (cases q) (auto simp: clean_query_def default_query_params_def
      split: option.splits as_of_time.splits)

lemma fold_query_parts:
  assumes "clean_query pt rfc q"
  shows "fold (apply_query_pair pt) (query_parts rfc q) default_query_params = q"
proof -
  let ?f = "fold (apply_query_pair pt)"
  have latest: "''as_of=latest'' = ''as_of='' @ ''latest''" by simp
  have "?f (case qp_as_of q of None \<Rightarrow> [] | Some AsOfLatest \<Rightarrow> [''as_of=latest'']
        | Some (AsOfCommit h) \<Rightarrow> [''as_of='' @ h] | Some (AsOfTimestamp ts) \<Rightarrow> [''as_of='' @ rfc ts]) p
      = (if qp_as_of q = None then p else p\<lparr>qp_as_of := qp_as_of q\<rparr>)" for p
    using assms unfolding clean_query_def plain_value_def latest
    by (auto simp: apply_pair_simps parse_as_of_def simp del: append_Cons
        split: option.splits as_of_time.splits)
  moreover have "?f (case qp_level q of None \<Rightarrow> [] | Some l \<Rightarrow> [''level='' @ content_level_as_str l]) p
      = (if qp_level q = None then p else p\<lparr>qp_level := qp_level q\<rparr>)" for p
    by (auto simp: apply_pair_simps simp del: append_Cons split: option.splits)
  moreover have "?f (case qp_branch q of None \<Rightarrow> [] | Some b \<Rightarrow> [''branch='' @ b]) p
      = (if qp_branch q = None then p else p\<lparr>qp_branch := qp_branch q\<rparr>)" for p
    using assms unfolding clean_query_def plain_value_def
    by (auto simp: apply_pair_simps simp del: append_Cons split: option.splits)
  moreover have "?f (case qp_limit q of None \<Rightarrow> [] | Some n \<Rightarrow> [''limit='' @ show_nat n]) p
      = (if qp_limit q = None then p else p\<lparr>qp_limit := qp_limit q\<rparr>)" for p
    using assms unfolding clean_query_def
    by (auto simp: apply_pair_simps simp del: append_Cons split: option.splits)
  ultimately show ?thesis
    unfolding query_parts_def by (simp only: fold_append comp_apply)
      (cases q, simp add: default_query_params_def)
qed

lemma parse_query_to_string:
  assumes "clean_query pt rfc q"
  shows "parse_query_string pt (query_to_string rfc q) = Some q"
proof -
  let ?ps = "query_parts rfc q"
  have str: "query_to_string rfc q = join ''&'' ?ps"
    by (simp add: query_to_string_def query_parts_def)
  have "split_on CHR ''&'' (join ''&'' ?ps) = ?ps"
    using assms by (intro split_on_join) (auto simp: query_parts_not_Nil dest: query_parts_no_amp)
  moreover have "join ''&'' ?ps \<noteq> []"
    using query_parts_not_Nil [OF assms]
    by (auto simp: join_eq_Nil_iff query_parts_def split: option.splits as_of_time.splits)
  ultimately show ?thesis by (simp add: parse_query_string_def str fold_query_parts [OF assms])
qed


section \<open>Properties\<close>

text \<open>An accepted URI string is kept as the canonical text, and the address it yields has a
  non-empty path whose first segment is the tenant and whose segments are non-empty and contain
  neither a slash nor a question mark; \<open>parent\<close> keeps all of this and removes the last segment,
  and its canonical text parses back to the very same parent address.\<close>

theorem parent_reparses:
  assumes "parse pt s = Inr u" and "parent u = Some v"
  shows "u_canonical u = s \<and> uri_wf u \<and> uri_wf v \<and> u_path v = butlast (u_path u)
    \<and> u_tenant v = u_tenant u \<and> parse pt (u_canonical v) = Inr v"
proof -
  from assms(1) have u: "from_string pt s = Inr u" by (simp add: parse_def)
  note wf = parse_uri_wf [OF u]
  note v = parent_SomeD [OF assms(2)]
  have wfv: "uri_wf v" by (rule parent_wf [OF wf assms(2)])
  let ?p = "join ''/'' (u_path v)"
  have seg: "path_segments ?p = u_path v"
    using wfv by (intro path_segments_join) (simp add: uri_wf_def)
  have "from_string pt (SCHEME @ ?p) = Inr \<lparr>u_tenant = hd (u_path v), u_path = u_path v,
      u_query = None, u_canonical = SCHEME @ ?p\<rparr>"
    using wfv seg from_string_plain [OF join_clean, of "u_path v" pt] by (simp add: uri_wf_def)
  with v wfv have "parse pt (u_canonical v) = Inr v"
    by (cases v) (simp add: parse_def uri_wf_def)
  with u wf wfv v show ?thesis by (auto simp: parse_canonical uri_wf_def)
qed

theorem parent_reparses_witness:
  "\<exists>u v. parse (\<lambda>_. None) ''uwu://t1/agent/a1?level=l0'' = Inr u \<and> parent u = Some v
    \<and> u_canonical v = ''uwu://t1/agent'' \<and> parse (\<lambda>_. None) ''uwu://t1/agent'' = Inr v"
proof -
  let ?s = "''uwu://t1/agent/a1?level=l0''"
  obtain u where u: "parse (\<lambda>_. None) ?s = Inr u" "u_path u = [''t1'', ''agent'', ''a1'']"
    by (simp add: parse_def from_string_def SCHEME_def starts_with_def path_segments_def Let_def)
  then obtain v where v: "parent u = Some v" "u_canonical v = ''uwu://t1/agent''"
    by (simp add: parent_def SCHEME_def)
  from parent_reparses [OF u(1) v(1)] u v show ?thesis by auto
qed

text \<open>Joining a clean segment to an address whose text has no query part appends it to the path
  and the result's canonical text parses back to exactly the joined address, trailing slashes of
  the base notwithstanding.\<close>

theorem join_reparses:
  assumes "parse pt s = Inr u" and "CHR ''?'' \<notin> set s" and "clean_segment seg"
  shows "parse pt (u_canonical (uri_join u seg)) = Inr (uri_join u seg)
    \<and> u_path (uri_join u seg) = u_path u @ [seg] \<and> parent (uri_join u seg) \<noteq> None"
proof -
  from assms(1) have u: "from_string pt s = Inr u" by (simp add: parse_def)
  then obtain p where p: "s = SCHEME @ p" "path_segments p \<noteq> []" "u_canonical u = s"
      "u_path u = path_segments p" "u_tenant u = hd (path_segments p)" "CHR ''?'' \<notin> set p"
    using assms(2) by (cases rule: from_string_cases) auto
  obtain q where q: "trim_end_matches CHR ''/'' (SCHEME @ p) = SCHEME @ q"
      "path_segments q = path_segments p" "set q \<subseteq> set p"
    using p(2) by (rule trim_canonical)
  have seg: "path_segments (q @ CHR ''/'' # seg) = u_path u @ [seg]"
    by (simp add: path_segments_append_sep path_segments_single assms(3) q(2) p(4))
  have "CHR ''?'' \<notin> set (q @ CHR ''/'' # seg)"
    using q(3) p(6) assms(3) by (auto simp: clean_segment_def)
  from from_string_plain [OF this] seg p q show ?thesis
    by (auto simp: parse_def uri_join_def parent_def Let_def)
qed

theorem join_reparses_witness:
  "\<exists>u. parse (\<lambda>_. None) ''uwu://t1/agent//'' = Inr u
    \<and> parse (\<lambda>_. None) ''uwu://t1/agent/a'' = Inr (uri_join u ''a'')"
proof -
  obtain u where u: "parse (\<lambda>_. None) ''uwu://t1/agent//'' = Inr u"
    by (simp add: parse_def from_string_def SCHEME_def starts_with_def path_segments_def Let_def)
  moreover have "u_canonical u = ''uwu://t1/agent//''"
    using u by (simp add: parse_def parse_canonical)
  ultimately show ?thesis
    using join_reparses [OF u, of "''a''"]
    by (auto simp: clean_segment_def uri_join_def trim_end_matches_def)
qed

text \<open>Setting query parameters and parsing the printed address gives back the same address with
  the same parameters, whenever the values are printable (no separator inside a value, the
  timestamp printer inverts its parser) and at least one parameter is set; stripping the query
  again leaves the path and the tenant.\<close>

theorem with_query_roundtrip:
  assumes "parse pt s = Inr u" and "clean_query pt rfc q"
  shows "parse pt (u_canonical (with_query rfc u q)) = Inr (with_query rfc u q)
    \<and> u_path (without_query pt (with_query rfc u q)) = u_path u
    \<and> u_query (without_query pt (with_query rfc u q)) = None"
proof -
  from assms(1) have "from_string pt s = Inr u" by (simp add: parse_def)
  then obtain p where p: "uri_base u = SCHEME @ p" "CHR ''?'' \<notin> set p"
      "path_segments p = u_path u" "u_path u \<noteq> []" "u_tenant u = hd (u_path u)"
    by (rule uri_base_parsed)
  let ?w = "with_query rfc u q"
  have "split_on CHR ''?'' ((SCHEME @ p) @ CHR ''?'' # query_to_string rfc q) =
      (SCHEME @ p) # split_on CHR ''?'' (query_to_string rfc q)"
    using p(2) by (intro split_on_append) auto
  then have base: "uri_base ?w = SCHEME @ p"
    unfolding with_query_def p(1) by (simp add: uri_base_def)
  have "parse pt (u_canonical ?w) = Inr ?w"
    using from_string_query [OF p(2), of pt "query_to_string rfc q"] p
    by (simp add: parse_def with_query_def parse_query_to_string [OF assms(2)])
  moreover have "without_query pt ?w = \<lparr>u_tenant = hd (u_path u), u_path = u_path u,
      u_query = None, u_canonical = SCHEME @ p\<rparr>"
    using from_string_plain [OF p(2), of pt] p base
    by (simp add: without_query_def parse_def) (simp add: with_query_def)
  ultimately show ?thesis by simp
qed

theorem with_query_roundtrip_witness:
  "\<exists>u. parse (\<lambda>_. None) ''uwu://t1/wiki?level=l2'' = Inr u
    \<and> (let q = \<lparr>qp_as_of = Some AsOfLatest, qp_level = Some L1, qp_branch = Some ''dev'',
               qp_limit = Some 5\<rparr>
       in parse (\<lambda>_. None) (u_canonical (with_query (\<lambda>_. []) u q)) = Inr (with_query (\<lambda>_. []) u q))"
proof -
  obtain u where u: "parse (\<lambda>_. None) ''uwu://t1/wiki?level=l2'' = Inr u"
    by (simp add: parse_def from_string_def SCHEME_def starts_with_def path_segments_def Let_def)
  have "clean_query (\<lambda>_. None) (\<lambda>_. []) \<lparr>qp_as_of = Some AsOfLatest, qp_level = Some L1,
      qp_branch = Some ''dev'', qp_limit = Some 5\<rparr>"
    by (simp add: clean_query_def plain_value_def default_query_params_def)
  from with_query_roundtrip [OF u this] u show ?thesis by auto
qed

text \<open>Joining below an address that carries a query string does not give an address of the
  child: the query stays in the middle of the canonical text, which then parses to the base's
  path with a broken query, so the text and the path of the joined address disagree.\<close>

theorem join_with_query_diverges:
  "\<exists>u v. parse (\<lambda>_. None) ''uwu://t1/wiki?level=l0'' = Inr u
    \<and> u_canonical (uri_join u ''p'') = ''uwu://t1/wiki?level=l0/p''
    \<and> depth (uri_join u ''p'') = 3
    \<and> parse (\<lambda>_. None) (u_canonical (uri_join u ''p'')) = Inr v \<and> depth v = 2
    \<and> uri_level v = None"
  by (simp add: parse_def from_string_def SCHEME_def starts_with_def path_segments_def Let_def
      uri_join_def depth_def trim_end_matches_def parse_query_string_def apply_query_pair_def
      default_query_params_def uri_level_def)

end
