(* ===== verification/Content_Model.thy ===== *)
theory Content_Model
  imports Context_Uri
begin

text \<open>
  The core data model of crates/context-db-core/src/model.rs: layered payloads, content
  types, metadata and entries, with the index projection, the budgeted decoding and the
  custom metadata fields. Floating point fields are kept as their IEEE bit patterns; no
  operation here computes with them. The JSON printer and the tokenizer are parameters
  (\<open>js\<close>, \<open>ct\<close>).
\<close>

section \<open>Identifiers and payloads\<close>

type_synonym f32_bits = "32 word"
type_synonym f64_bits = "64 word"

datatype mvcc_version = MvccVersion u64
datatype tenant_id = TenantId uuid
datatype content_hash = ContentHash string

record blob_ref =
  br_hash :: content_hash
  br_size :: nat
  br_mime_type :: string

record schema_ref =
  sr_format :: string
  sr_blob :: "blob_ref option"

definition json_schema :: "blob_ref \<Rightarrow> schema_ref" where
  "json_schema blob = \<lparr>sr_format = ''json-schema'', sr_blob = Some blob\<rparr>"

datatype media_type = MT_Text | MT_Image | MT_Audio | MT_Video | MT_Binary

datatype embedding_normalization = NormNone | NormL2

record embedding_space_id =
  es_model :: string
  es_checkpoint :: string
  es_preprocess :: string
  es_dim :: nat
  es_normalization :: embedding_normalization

record encoded_embedding =
  ee_space :: embedding_space_id
  ee_values :: "f32_bits list"

text \<open>A JSON value; numbers are kept as their text, objects as maps in iteration order.\<close>

datatype json =
    JNull
  | JBool bool
  | JNumber string
  | JString string
  | JArray "json list"
  | JObject "(string \<times> json) list"

datatype content_payload =
    Text string string string \<comment> \<open>sparse, dense, full\<close>
  | Image string encoded_embedding blob_ref \<comment> \<open>thumbnail bytes, features, raw\<close>
  | Audio string encoded_embedding blob_ref \<comment> \<open>transcript, embedding, raw\<close>
  | Structured string "schema_ref option" json \<comment> \<open>summary, schema, data\<close>
  | Composite string "content_part list" \<comment> \<open>summary, parts\<close>
and content_part =
    PartText content_payload
  | PartImage content_payload
  | PartAudio content_payload
  | PartReference context_uri

section \<open>Index projection and decoding\<close>

record content_index_projection =
  ip_l0 :: string
  ip_l1 :: "string option"
  ip_l2 :: string

definition append_text :: "string \<Rightarrow> string \<Rightarrow> string" where
  "append_text target val =
     (if val \<noteq> [] then (if target \<noteq> [] then target @ [CHR 0x0A] else target) @ val
      else target)"

definition append_optional :: "string option \<Rightarrow> string \<Rightarrow> string option" where
  "append_optional target val =
     (if val = [] then target
      else Some (append_text (case target of None \<Rightarrow> [] | Some t \<Rightarrow> t) val))"

definition put_l0 :: "string \<Rightarrow> content_index_projection \<Rightarrow> content_index_projection" where
  "put_l0 v out = out\<lparr>ip_l0 := append_text (ip_l0 out) v\<rparr>"

definition put_l1 :: "string \<Rightarrow> content_index_projection \<Rightarrow> content_index_projection" where
  "put_l1 v out = out\<lparr>ip_l1 := append_optional (ip_l1 out) v\<rparr>"

definition put_l2 :: "string \<Rightarrow> content_index_projection \<Rightarrow> content_index_projection" where
  "put_l2 v out = out\<lparr>ip_l2 := append_text (ip_l2 out) v\<rparr>"

fun show_hash :: "content_hash \<Rightarrow> string" where
  "show_hash (ContentHash h) = h"

definition show_blob :: "string \<Rightarrow> blob_ref \<Rightarrow> string" where
  "show_blob kind r =
     ''['' @ kind @ '' blob='' @ show_hash (br_hash r) @ '' size='' @ show_nat (br_size r)
      @ '' mime='' @ br_mime_type r @ '']''"

fun append_index_projection ::
      "(json \<Rightarrow> string) \<Rightarrow> content_payload \<Rightarrow> content_index_projection \<Rightarrow> content_index_projection"
  and append_part ::
      "(json \<Rightarrow> string) \<Rightarrow> content_part \<Rightarrow> content_index_projection \<Rightarrow> content_index_projection"
where
  "append_index_projection js (Text s d f) out = put_l2 f (put_l1 d (put_l0 s out))"
| "append_index_projection js (Image t feat r) out =
     put_l2 (show_blob ''image'' r)
       (put_l1 (''[image feature_dimensions='' @ show_nat (length (ee_values feat)) @ '']'')
         (put_l0 (''[image thumbnail_bytes='' @ show_nat (length t) @ '']'') out))"
| "append_index_projection js (Audio t emb r) out =
     put_l2 (t @ [CHR 0x0A] @ show_blob ''audio'' r)
       (put_l1 (''[audio embedding_dimensions='' @ show_nat (length (ee_values emb)) @ '']'')
         (put_l0 t out))"
| "append_index_projection js (Structured s sch d) out =
     put_l2 (js d)
       (put_l1 (js d)
         ((case sch of None \<Rightarrow> (\<lambda>x. x)
           | Some sc \<Rightarrow> put_l1 (''[schema format='' @ sr_format sc @ '']''))
           (put_l0 s out)))"
| "append_index_projection js (Composite s ps) out =
     fold (append_part js) ps (put_l2 s (put_l0 s out))"
| "append_part js (PartText p) out = append_index_projection js p out"
| "append_part js (PartImage p) out = append_index_projection js p out"
| "append_part js (PartAudio p) out = append_index_projection js p out"
| "append_part js (PartReference u) out =
     put_l2 (''[reference '' @ u_canonical u @ '']'')
       (put_l1 (''[reference '' @ u_canonical u @ '']'') out)"

definition index_projection :: "(json \<Rightarrow> string) \<Rightarrow> content_payload \<Rightarrow> content_index_projection" where
  "index_projection js p = append_index_projection js p \<lparr>ip_l0 = [], ip_l1 = None, ip_l2 = []\<rparr>"

fun sparse_text :: "content_payload \<Rightarrow> string" where
  "sparse_text (Text s d f) = s"
| "sparse_text (Image t feat r) = ''[image]''"
| "sparse_text (Audio t emb r) = t"
| "sparse_text (Structured s sch d) = s"
| "sparse_text (Composite s ps) = s"

datatype decoded_content =
    DText string "string option" "string option"
  | DBinary string

text \<open>\<open>ct\<close> is \<open>count_tokens(..).ok()\<close>.\<close>

definition within_budget :: "(string \<Rightarrow> nat option) \<Rightarrow> nat \<Rightarrow> string \<Rightarrow> string option" where
  "within_budget ct budget s =
     (case ct s of None \<Rightarrow> None | Some tokens \<Rightarrow> if tokens \<le> budget then Some s else None)"

lemma within_budget_Some_iff [simp]:
  "within_budget ct budget s = Some x \<longleftrightarrow> x = s \<and> (\<exists>n. ct s = Some n \<and> n \<le> budget)"
  by (auto simp: within_budget_def split: option.splits if_splits)

fun decode_within_budget ::
    "(string \<Rightarrow> nat option) \<Rightarrow> (json \<Rightarrow> string) \<Rightarrow> content_payload \<Rightarrow> nat \<Rightarrow> decoded_content" where
  "decode_within_budget ct js (Text s d f) budget =
     DText s (within_budget ct budget d) (within_budget ct budget f)"
| "decode_within_budget ct js (Image t feat r) budget = DBinary t"
| "decode_within_budget ct js (Audio t emb r) budget = DText t None None"
| "decode_within_budget ct js (Structured s sch d) budget = DText s (Some (js d)) None"
| "decode_within_budget ct js (Composite s ps) budget = DText s None None"

section \<open>Content types\<close>

datatype content_type =
    CT_Fact | CT_Belief | CT_Hypothesis | CT_Heuristic | CT_Procedure
  | CT_Preference | CT_Profile | CT_Goal
  | CT_Skill | CT_Reflection | CT_Evidence | CT_Error | CT_Meta

fun as_path_segment :: "content_type \<Rightarrow> string" where
  "as_path_segment CT_Fact = ''fact''"
| "as_path_segment CT_Belief = ''belief''"
| "as_path_segment CT_Hypothesis = ''hypothesis''"
| "as_path_segment CT_Heuristic = ''heuristic''"
| "as_path_segment CT_Procedure = ''procedure''"
| "as_path_segment CT_Preference = ''preference''"
| "as_path_segment CT_Profile = ''profile''"
| "as_path_segment CT_Goal = ''goal''"
| "as_path_segment CT_Skill = ''skill''"
| "as_path_segment CT_Reflection = ''reflection''"
| "as_path_segment CT_Evidence = ''evidence''"
| "as_path_segment CT_Error = ''error''"
| "as_path_segment CT_Meta = ''meta''"

definition from_path_segment :: "string \<Rightarrow> content_type option" where
  "from_path_segment s =
     (if s = ''fact'' then Some CT_Fact
      else if s = ''belief'' then Some CT_Belief
      else if s = ''hypothesis'' then Some CT_Hypothesis
      else if s = ''heuristic'' then Some CT_Heuristic
      else if s = ''procedure'' then Some CT_Procedure
      else if s = ''preference'' then Some CT_Preference
      else if s = ''profile'' then Some CT_Profile
      else if s = ''goal'' then Some CT_Goal
      else if s = ''skill'' then Some CT_Skill
      else if s = ''reflection'' then Some CT_Reflection
      else if s = ''evidence'' then Some CT_Evidence
      else if s = ''error'' then Some CT_Error
      else if s = ''meta'' then Some CT_Meta
      else None)"

fun mergeable :: "content_type \<Rightarrow> bool" where
  "mergeable CT_Fact = True"
| "mergeable CT_Belief = True"
| "mergeable CT_Preference = True"
| "mergeable CT_Profile = True"
| "mergeable CT_Skill = True"
| "mergeable CT_Procedure = True"
| "mergeable CT_Heuristic = True"
| "mergeable _ = False"

datatype epistemic_type = ET_Fact | ET_Belief | ET_Hypothesis | ET_Heuristic | ET_Procedure

section \<open>Metadata and entries\<close>

record validity_record =
  vr_valid_from :: datetime
  vr_valid_until :: "datetime option"
  vr_invalidated_by :: "context_uri option"
  vr_invalidation_reason :: "string option"

datatype half_life = HL_Infinite | HL_Finite f64_bits

datatype consolidation_status = CS_Pending | CS_InProgress | CS_Converged | CS_Stale

record lineage_entry =
  le_version :: mvcc_version
  le_timestamp :: datetime
  le_change_summary :: string

record consolidation_meta =
  cm_source :: string
  cm_generation :: nat
  cm_status :: consolidation_status
  cm_patch_count :: nat
  cm_lineage :: "lineage_entry list"
  cm_evidence_uris :: "context_uri list"
  cm_corroboration :: nat
  cm_half_life :: "half_life option"
  cm_entangled_with :: "context_uri list"

datatype derivation_rule =
    RuleLlm string string
  | RuleExtractive string
  | RuleManual

record derivation_chain =
  dc_full_source :: content_hash
  dc_dense_rule :: derivation_rule
  dc_sparse_rule :: derivation_rule
  dc_last_recomputed :: datetime

datatype state_scope = ScopeShort | ScopeMid | ScopeLong

datatype meta_kind = MK_Memory content_type | MK_State state_scope | MK_System

record context_meta =
  m_content_type :: "content_type option"
  m_state_scope :: "state_scope option"
  m_tags :: "string list"
  m_epistemic_type :: "epistemic_type option"
  m_quality_score :: "f32_bits option"
  m_validity :: "validity_record option"
  m_consolidation :: "consolidation_meta option"
  m_custom :: json

definition default_meta :: context_meta where
  "default_meta =
     \<lparr>m_content_type = None, m_state_scope = None, m_tags = [], m_epistemic_type = None,
      m_quality_score = None, m_validity = None, m_consolidation = None, m_custom = JNull\<rparr>"

definition epistemic_type :: "context_meta \<Rightarrow> epistemic_type option" where
  "epistemic_type m =
     (case m_epistemic_type m of
        Some e \<Rightarrow> Some e
      | None \<Rightarrow>
          (case m_content_type m of
             Some CT_Fact \<Rightarrow> Some ET_Fact
           | Some CT_Belief \<Rightarrow> Some ET_Belief
           | Some CT_Hypothesis \<Rightarrow> Some ET_Hypothesis
           | Some CT_Heuristic \<Rightarrow> Some ET_Heuristic
           | Some CT_Procedure \<Rightarrow> Some ET_Procedure
           | _ \<Rightarrow> None))"

text \<open>The typed accessors convert through serde; \<open>to_val\<close> and \<open>from_val\<close> are that
  conversion for the type at hand.\<close>

definition set_custom :: "('a \<Rightarrow> string + json) \<Rightarrow> 'a \<Rightarrow> context_meta \<Rightarrow> string + context_meta" where
  "set_custom to_val x m =
     (case to_val x of Inl e \<Rightarrow> Inl e | Inr v \<Rightarrow> Inr (m\<lparr>m_custom := v\<rparr>))"

definition custom_as :: "(json \<Rightarrow> string + 'a) \<Rightarrow> context_meta \<Rightarrow> string + 'a" where
  "custom_as from_val m = from_val (m_custom m)"

definition custom_field :: "(json \<Rightarrow> string + 'a) \<Rightarrow> string \<Rightarrow> context_meta \<Rightarrow> 'a option" where
  "custom_field from_val key m =
     (case m_custom m of
        JObject obj \<Rightarrow>
          (case hget obj key of
             None \<Rightarrow> None
           | Some v \<Rightarrow> (case from_val v of Inl _ \<Rightarrow> None | Inr x \<Rightarrow> Some x))
      | _ \<Rightarrow> None)"

definition set_custom_field ::
    "('a \<Rightarrow> string + json) \<Rightarrow> string \<Rightarrow> 'a \<Rightarrow> context_meta \<Rightarrow> string + context_meta" where
  "set_custom_field to_val key x m =
     (case to_val x of
        Inl e \<Rightarrow> Inl e
      | Inr v \<Rightarrow>
          (let obj = (case m_custom m of JObject obj \<Rightarrow> obj | _ \<Rightarrow> [])
           in Inr (m\<lparr>m_custom := JObject (hput key v obj)\<rparr>)))"

record context_entry =
  e_uri :: context_uri
  e_tenant :: tenant_id
  e_payload :: content_payload
  e_media_type :: media_type
  e_metadata :: context_meta
  e_mvcc_version :: mvcc_version
  e_created_at :: datetime
  e_updated_at :: datetime
  e_derivation :: "derivation_chain option"

text \<open>\<open>uuid_parse\<close> and \<open>uuid_display\<close> are the uuid crate's text forms.\<close>

definition validate_tenant_binding ::
    "(string \<Rightarrow> uuid option) \<Rightarrow> (uuid \<Rightarrow> string) \<Rightarrow> context_entry \<Rightarrow> context_error + unit" where
  "validate_tenant_binding uuid_parse uuid_display e =
     (case uuid_parse (u_tenant (e_uri e)) of
        Some t \<Rightarrow>
          (case e_tenant e of TenantId own \<Rightarrow>
             if t \<noteq> own
             then Inl (InvalidUri (''URI tenant '' @ u_tenant (e_uri e)
                    @ '' does not match entry tenant '' @ uuid_display own))
             else Inr ())
      | None \<Rightarrow> Inr ())"

definition new_text :: "datetime \<Rightarrow> context_uri \<Rightarrow> tenant_id \<Rightarrow> string \<Rightarrow> context_entry" where
  "new_text now uri tenant txt =
     \<lparr>e_uri = uri, e_tenant = tenant, e_payload = Text txt txt txt, e_media_type = MT_Text,
      e_metadata = default_meta, e_mvcc_version = MvccVersion 0, e_created_at = now,
      e_updated_at = now, e_derivation = None\<rparr>"

definition l0_text :: "context_entry \<Rightarrow> string" where
  "l0_text e = sparse_text (e_payload e)"

definition entry_content_type :: "context_entry \<Rightarrow> content_type option" where
  "entry_content_type e = m_content_type (e_metadata e)"

section \<open>Results of the file system operations\<close>

record dir_entry =
  de_uri :: context_uri
  de_is_dir :: bool
  de_abstract :: string
  de_content_type :: "content_type option"

record find_pattern =
  fp_scope :: "context_uri option"
  fp_name_glob :: "string option"
  fp_content_type :: "content_type option"
  fp_max_depth :: "nat option"

record grep_hit =
  gh_uri :: context_uri
  gh_line :: string
  gh_level :: content_level

datatype tree_node = TreeNode context_uri bool "tree_node list"

record version_entry =
  ve_version :: mvcc_version
  ve_message :: string
  ve_ts :: datetime


section \<open>What the index sees\<close>

text \<open>The payloads inside a payload, itself included.\<close>

inductive nested :: "content_payload \<Rightarrow> content_payload \<Rightarrow> bool" where
  nested_self: "nested p p"
| nested_text: "PartText q \<in> set ps \<Longrightarrow> nested r q \<Longrightarrow> nested r (Composite s ps)"
| nested_image: "PartImage q \<in> set ps \<Longrightarrow> nested r q \<Longrightarrow> nested r (Composite s ps)"
| nested_audio: "PartAudio q \<in> set ps \<Longrightarrow> nested r q \<Longrightarrow> nested r (Composite s ps)"

text \<open>One projection extends another when each of its texts only grew.\<close>

definition opt_text :: "string option \<Rightarrow> string" where
  "opt_text t = (case t of None \<Rightarrow> [] | Some s \<Rightarrow> s)"

definition extends :: "content_index_projection \<Rightarrow> content_index_projection \<Rightarrow> bool" where
  "extends a b =
     (starts_with (ip_l0 b) (ip_l0 a) \<and> starts_with (opt_text (ip_l1 b)) (opt_text (ip_l1 a))
      \<and> starts_with (ip_l2 b) (ip_l2 a))"

lemma starts_with_trans: "starts_with b a \<Longrightarrow> starts_with c b \<Longrightarrow> starts_with c a"
  by (auto simp: starts_with_iff)

lemma extends_refl [simp]: "extends a a"
  by (simp add: extends_def starts_with_def)

lemma extends_trans: "extends a b \<Longrightarrow> extends b c \<Longrightarrow> extends a c"
  unfolding extends_def by (blast intro: starts_with_trans)

lemma extends_put [simp]:
  "extends a (put_l0 v a)" "extends a (put_l1 v a)" "extends a (put_l2 v a)"
  by (auto simp: extends_def put_l0_def put_l1_def put_l2_def append_text_def append_optional_def
      opt_text_def starts_with_iff split: option.splits)

lemma extends_puts [simp]:
  "extends a b \<Longrightarrow> extends a (put_l0 v b)"
  "extends a b \<Longrightarrow> extends a (put_l1 v b)"
  "extends a b \<Longrightarrow> extends a (put_l2 v b)"
  by (auto intro: extends_trans)

lemma extends_fold:
  assumes "\<And>x out. x \<in> set xs \<Longrightarrow> extends out (f x out)"
  shows "extends out (fold f xs out)"
  using assms by (induction xs arbitrary: out) (auto intro: extends_trans)

lemma append_extends:
  "extends out (append_index_projection js p out)"
  "extends out (append_part js c out)"
proof (induction js p out and js c out rule: append_index_projection_append_part.induct)
  case (5 js s ps out)
  then show ?case
    by (auto intro!: extends_trans [OF _ extends_fold] extends_puts)
qed (auto split: option.split)

text \<open>The index text contains a payload's own texts.\<close>

definition covers :: "content_index_projection \<Rightarrow> content_payload \<Rightarrow> bool" where
  "covers out p =
     (case p of
        Text s d f \<Rightarrow>
          contains_str (ip_l0 out) s \<and> contains_str (opt_text (ip_l1 out)) d
          \<and> contains_str (ip_l2 out) f
      | Image t feat r \<Rightarrow> contains_str (ip_l2 out) (show_blob ''image'' r)
      | Audio t emb r \<Rightarrow>
          contains_str (ip_l0 out) t \<and> contains_str (ip_l2 out) (show_blob ''audio'' r)
      | Structured s sch d \<Rightarrow> contains_str (ip_l0 out) s
      | Composite s ps \<Rightarrow> contains_str (ip_l0 out) s \<and> contains_str (ip_l2 out) s)"

lemma contains_starts: "contains_str a x \<Longrightarrow> starts_with b a \<Longrightarrow> contains_str b x"
  unfolding contains_str_iff starts_with_iff by (metis append.assoc)

lemma contains_trans: "contains_str a b \<Longrightarrow> contains_str b c \<Longrightarrow> contains_str a c"
  unfolding contains_str_iff by (metis append.assoc)

lemma covers_extends: "covers a p \<Longrightarrow> extends a b \<Longrightarrow> covers b p"
  unfolding covers_def extends_def
  by (auto intro: contains_starts split: content_payload.splits)

lemma contains_append_text [simp]: "contains_str (append_text t v) v"
proof (cases "v = []")
  case True
  then show ?thesis by (cases "append_text t v") (auto simp: contains_str_iff)
qed (simp add: append_text_def)

lemma contains_Nil [simp]: "contains_str s []"
  by (auto simp: contains_str_iff)

lemma contains_put [simp]:
  "contains_str (ip_l0 (put_l0 v out)) v"
  "contains_str (opt_text (ip_l1 (put_l1 v out))) v"
  "contains_str (ip_l2 (put_l2 v out)) v"
  by (simp_all add: put_l0_def put_l1_def put_l2_def append_optional_def opt_text_def)

lemma put_frame [simp]:
  "ip_l0 (put_l1 v out) = ip_l0 out" "ip_l0 (put_l2 v out) = ip_l0 out"
  "ip_l1 (put_l0 v out) = ip_l1 out" "ip_l1 (put_l2 v out) = ip_l1 out"
  "ip_l2 (put_l0 v out) = ip_l2 out" "ip_l2 (put_l1 v out) = ip_l2 out"
  by (simp_all add: put_l0_def put_l1_def put_l2_def)

lemma append_covers_self: "covers (append_index_projection js p out) p"
proof (cases p)
  case (Audio t emb r)
  let ?b = "show_blob ''audio'' r"
  have "contains_str (ip_l2 (append_index_projection js p out)) ((t @ [CHR 0x0A]) @ ?b)"
    unfolding Audio append_index_projection.simps append_assoc by (rule contains_put)
  then have "contains_str (ip_l2 (append_index_projection js p out)) ?b"
    by (rule contains_trans) (rule contains_str_self)
  then show ?thesis by (simp add: covers_def Audio)
next
  case (Structured s sch d)
  then show ?thesis by (auto simp: covers_def split: option.split)
next
  case (Composite s ps)
  let ?base = "put_l2 s (put_l0 s out)"
  have "covers ?base p" by (simp add: covers_def Composite)
  moreover have "extends ?base (fold (append_part js) ps ?base)"
    by (rule extends_fold) (rule append_extends)
  ultimately show ?thesis using covers_extends Composite by simp
qed (simp_all add: covers_def)

lemma fold_part_covers:
  assumes "c \<in> set ps" "\<And>out. covers (append_part js c out) q"
  shows "covers (fold (append_part js) ps out) q"
  using assms(1)
proof (induction ps arbitrary: out)
  case (Cons x ps)
  show ?case
  proof (cases "x = c")
    case True
    have "extends (append_part js x out) (fold (append_part js) ps (append_part js x out))"
      by (rule extends_fold) (rule append_extends)
    with True assms(2) show ?thesis using covers_extends by auto
  qed (use Cons in auto)
qed simp

lemma append_covers_nested:
  "nested q p \<Longrightarrow> covers (append_index_projection js p out) q"
proof (induction arbitrary: out rule: nested.induct)
  case (nested_self p)
  show ?case by (rule append_covers_self)
next
  case (nested_text q ps r s)
  then show ?case using fold_part_covers [of "PartText q"] by simp
next
  case (nested_image q ps r s)
  then show ?case using fold_part_covers [of "PartImage q"] by simp
next
  case (nested_audio q ps r s)
  then show ?case using fold_part_covers [of "PartAudio q"] by simp
qed

section \<open>Properties\<close>

text \<open>The index projection of a payload contains, at the level where it belongs, every text of
  every payload nested in it at any depth (summaries and transcripts in L0, overviews in L1,
  full texts and blob references in L2), so nothing a composite holds is invisible to search.\<close>

theorem index_projection_covers:
  assumes "nested q p"
  shows "covers (index_projection js p) q"
  using append_covers_nested [OF assms] by (simp add: index_projection_def)

theorem index_projection_covers_witness:
  "let p = Composite ''trip'' [PartText (Composite ''day'' [PartText (Text ''a'' ''bb'' ''ccc'')])]
   in nested (Text ''a'' ''bb'' ''ccc'') p
      \<and> covers (index_projection (\<lambda>_. []) p) (Text ''a'' ''bb'' ''ccc'')
      \<and> ip_l2 (index_projection (\<lambda>_. []) p) = ''trip'' @ [CHR 0x0A] @ ''day'' @ [CHR 0x0A] @ ''ccc''"
proof -
  let ?t = "Text ''a'' ''bb'' ''ccc''"
  let ?p = "Composite ''trip'' [PartText (Composite ''day'' [PartText ?t])]"
  have "nested ?t ?p"
    by (rule nested_text, simp, rule nested_text, simp, rule nested_self)
  with index_projection_covers [OF this, of "\<lambda>_. []"] show ?thesis
    by (simp add: index_projection_def put_l0_def put_l1_def put_l2_def append_text_def
        append_optional_def)
qed

text \<open>Decoding within a token budget never returns a level whose token count exceeds the budget
  or is unknown, and a text that does fit is returned unchanged; the sparse level is always
  there.\<close>

theorem decode_respects_budget:
  assumes "decode_within_budget ct js (Text s d f) budget = DText l0 l1 l2"
  shows "l0 = s
    \<and> (\<forall>x. l1 = Some x \<longleftrightarrow> x = d \<and> (\<exists>n. ct d = Some n \<and> n \<le> budget))
    \<and> (\<forall>x. l2 = Some x \<longleftrightarrow> x = f \<and> (\<exists>n. ct f = Some n \<and> n \<le> budget))"
  using assms by auto

theorem decode_respects_budget_witness:
  "decode_within_budget (\<lambda>s. Some (length s)) (\<lambda>_. []) (Text ''a'' ''bb'' ''cccc'') 3
     = DText ''a'' (Some ''bb'') None"
  using decode_respects_budget [of "\<lambda>s. Some (length s)" "\<lambda>_. []" "''a''" "''bb''" "''cccc''" 3
      "''a''" "Some ''bb''" None]
  by (simp add: within_budget_def)

text \<open>The path segment of a content type determines it, and a segment is accepted exactly when
  it is the segment of some content type.\<close>

theorem path_segment_roundtrip:
  "from_path_segment (as_path_segment c) = Some c
   \<and> (from_path_segment s = Some c \<longleftrightarrow> s = as_path_segment c)"
  by (cases c) (auto simp: from_path_segment_def)

text \<open>Writing a custom field makes it readable under its key through the inverse conversion and
  keeps every other field of an object; metadata that was no object becomes one with this single
  field; a failing conversion changes nothing.\<close>

theorem custom_field_after_set:
  assumes "to_val x = Inr v" and "from_val v = Inr x"
  shows "\<exists>m'. set_custom_field to_val k x m = Inr m'
    \<and> custom_field from_val k m' = Some x
    \<and> (\<forall>k'. k' \<noteq> k \<longrightarrow> custom_field from_val k' m' = custom_field from_val k' m)
    \<and> m_content_type m' = m_content_type m"
  using assms
  by (auto simp: set_custom_field_def custom_field_def hm_simps split: json.split)

theorem custom_field_after_set_witness:
  "\<exists>m'. set_custom_field (\<lambda>s. Inr (JString s)) ''k'' ''v'' default_meta = Inr m'
    \<and> custom_field (\<lambda>j. case j of JString s \<Rightarrow> Inr s | _ \<Rightarrow> Inl []) ''k'' m' = Some ''v''"
  using custom_field_after_set [of "\<lambda>s. Inr (JString s)" "''v''" "JString ''v''"
      "\<lambda>j. case j of JString s \<Rightarrow> Inr s | _ \<Rightarrow> Inl []" "''k''" default_meta]
  by auto

end
