(* ===== verification/Worklist.thy ===== *)
theory Worklist
  imports Prelude
begin

text \<open>
  Reachability in a graph given by a hash map of successor lists, and the invariant that
  the worklist loops of the version DAG share: the stack or queue loops of
  \<open>is_ancestor\<close>, \<open>merge_base\<close>, \<open>root_causes\<close> and \<open>effects\<close> all pop a node, skip it
  when visited and push its successors.
\<close>

text \<open>The successors a map of adjacency records gives; an unknown node has none.\<close>

definition adjacent :: "('v \<Rightarrow> 'k list) \<Rightarrow> ('k, 'v) hmap \<Rightarrow> 'k \<Rightarrow> 'k list" where
  "adjacent f m k = (case hget m k of Some v \<Rightarrow> f v | None \<Rightarrow> [])"

lemma adjacent_unknown: "k \<notin> set (hkeys m) \<Longrightarrow> adjacent f m k = []"
  by (simp add: adjacent_def set_hkeys)

text \<open>A finite graph: finitely many nodes have successors.\<close>

locale finite_graph =
  fixes succs :: "'n \<Rightarrow> 'n list"
    and nodes :: "'n list"
  assumes succs_outside: "n \<notin> set nodes \<Longrightarrow> succs n = []"
begin

definition edges :: "('n \<times> 'n) set" where
  "edges = {(a, b). b \<in> set (succs a)}"

definition reach :: "'n \<Rightarrow> 'n set" where
  "reach a = {b. (a, b) \<in> edges\<^sup>*}"

definition pending :: "'n set \<Rightarrow> 'n set \<Rightarrow> bool" where
  "pending vis todo \<longleftrightarrow> (\<forall>a\<in>vis. set (succs a) \<subseteq> vis \<union> todo)"

lemma reach_self [simp, intro]: "a \<in> reach a"
  by (simp add: reach_def)

lemma reach_step: "b \<in> set (succs a) \<Longrightarrow> c \<in> reach b \<Longrightarrow> c \<in> reach a"
  unfolding reach_def edges_def by (auto intro: converse_rtrancl_into_rtrancl)

lemma reach_trans: "b \<in> reach a \<Longrightarrow> c \<in> reach b \<Longrightarrow> c \<in> reach a"
  unfolding reach_def by (auto intro: rtrancl_trans)

lemma reach_succs: "b \<in> reach a \<Longrightarrow> c \<in> set (succs b) \<Longrightarrow> c \<in> reach a"
  by (rule reach_trans [OF _ reach_step]) auto

lemma reach_unfold: "reach a = insert a (\<Union>b\<in>set (succs a). reach b)"
  unfolding reach_def edges_def by (auto elim: converse_rtranclE intro: converse_rtrancl_into_rtrancl)

lemma pending_visit: "pending vis (insert a todo) \<Longrightarrow> pending (insert a vis) (set (succs a) \<union> todo)"
  by (auto simp: pending_def)

lemma pending_skip: "pending vis (insert a todo) \<Longrightarrow> a \<in> vis \<Longrightarrow> pending vis todo"
  by (auto simp: pending_def)

text \<open>From a pending state, everything reachable from a visited node is visited or
  reachable from the rest of the work.\<close>

lemma pending_reach:
  assumes "pending vis todo" "a \<in> vis" "b \<in> reach a"
  shows "b \<in> vis \<or> (\<exists>c\<in>todo. b \<in> reach c)"
proof -
  from assms(3) have "(a, b) \<in> edges\<^sup>*" by (simp add: reach_def)
  then show ?thesis
  proof (induction rule: rtrancl_induct)
    case base
    then show ?case using assms(2) by simp
  next
    case (step y z)
    then have z: "z \<in> set (succs y)" by (simp add: edges_def)
    from step.IH show ?case
    proof
      assume "y \<in> vis"
      with z assms(1) show ?thesis by (auto simp: pending_def)
    next
      assume "\<exists>c\<in>todo. y \<in> reach c"
      with z show ?thesis by (blast intro: reach_succs)
    qed
  qed
qed

lemma pending_closed: "pending vis {} \<Longrightarrow> a \<in> vis \<Longrightarrow> reach a \<subseteq> vis"
  using pending_reach by blast

text \<open>Visiting a fresh node shrinks the unvisited part of the graph, or pushes nothing.\<close>

lemma visit_decreases:
  assumes "a \<notin> vis"
  shows "card (set nodes - insert a vis) < card (set nodes - vis)
    \<or> (card (set nodes - insert a vis) = card (set nodes - vis) \<and> succs a = [])"
proof (cases "a \<in> set nodes")
  case True
  then have "set nodes - insert a vis \<subset> set nodes - vis" using assms by auto
  then show ?thesis by (simp add: psubset_card_mono)
next
  case False
  then have "set nodes - insert a vis = set nodes - vis" by auto
  with False show ?thesis by (simp add: succs_outside)
qed

lemma finite_reach [simp]: "finite (reach a)"
proof -
  have "reach a \<subseteq> insert a (\<Union>n\<in>set nodes. set (succs n))"
  proof
    fix b assume "b \<in> reach a"
    then have "(a, b) \<in> edges\<^sup>*" by (simp add: reach_def)
    then show "b \<in> insert a (\<Union>n\<in>set nodes. set (succs n))"
    proof (cases rule: rtranclE)
      case (step y)
      then have "b \<in> set (succs y)" by (simp add: edges_def)
      moreover from this have "y \<in> set nodes" using succs_outside by force
      ultimately show ?thesis by auto
    qed simp
  qed
  then show ?thesis by (rule finite_subset) simp
qed

end

interpretation adj: finite_graph "adjacent f m" "hkeys m" for f :: "'v \<Rightarrow> 'k list" and m
  by unfold_locales (rule adjacent_unknown)

end
