(* ===== verification/Context_Store.thy ===== *)
theory Context_Store
  imports Write_Security Worklist
begin

text \<open>
  The in-memory content store, crates/context-db-testkit/src/lib.rs, with the page types of
  crates/context-db-core/src/store.rs: versioned entries, listings by keyset pages, the typed
  graph. An operation takes the store to its result and the next store; the clock is an
  argument. Unicode lower case and the text form of a uuid are parameters.
\<close>

section \<open>Pages\<close>

definition MAX_PAGE_SIZE :: nat where
  "MAX_PAGE_SIZE = 1000"

record page_request =
  pr_after :: "string option"
  pr_limit :: nat

record 'a page =
  pg_items :: "'a list"
  pg_next_cursor :: "string option"

definition page_request_new :: "nat \<Rightarrow> page_request" where
  "page_request_new limit = \<lparr>pr_after = None, pr_limit = max 1 (min limit MAX_PAGE_SIZE)\<rparr>"

definition page_after :: "string \<Rightarrow> page_request \<Rightarrow> page_request" where
  "page_after cursor p = p\<lparr>pr_after := Some cursor\<rparr>"

definition effective_limit :: "page_request \<Rightarrow> nat" where
  "effective_limit p = max 1 (min (pr_limit p) MAX_PAGE_SIZE)"

text \<open>One item more than the limit is taken, to see whether a next page exists.\<close>

definition keyset_page :: "'a list \<Rightarrow> page_request \<Rightarrow> ('a \<Rightarrow> string) \<Rightarrow> 'a page" where
  "keyset_page items page key =
     (let limit = effective_limit page;
          selected = take (limit + 1)
            (filter (\<lambda>x. case pr_after page of None \<Rightarrow> True | Some after \<Rightarrow> key x > after) items);
          has_more = length selected > limit;
          sel = (if has_more then butlast selected else selected)
      in \<lparr>pg_items = sel,
          pg_next_cursor = (if has_more then (if sel = [] then None else Some (key (last sel))) else None)\<rparr>)"

section \<open>State\<close>

datatype graph_relation =
    EvolvedFrom | EvolvedTo | EvidenceOf | EntangledWith | Contradicts | Corroborates
  | DerivedFrom | Supersedes | DrivesPolicy

record cstore =
  entries :: "(string, context_entry list) hmap"
  l2_blobs :: "(string, string) hmap"
  graph_edges :: "(string, (string \<times> graph_relation) list) hmap"
  graph_revisions :: "(string, u64) hmap"

type_synonym 'a cresult = "(context_error + 'a) \<times> cstore"

definition cstore_new :: cstore where
  "cstore_new = \<lparr>entries = [], l2_blobs = [], graph_edges = [], graph_revisions = []\<rparr>"

definition versions_of :: "cstore \<Rightarrow> string \<Rightarrow> context_entry list" where
  "versions_of s uri = (case hget (entries s) uri of Some l \<Rightarrow> l | None \<Rightarrow> [])"

definition last_entry :: "context_entry list \<Rightarrow> context_entry option" where
  "last_entry l = (if l = [] then None else Some (last l))"

definition latest :: "cstore \<Rightarrow> string \<Rightarrow> context_entry option" where
  "latest s uri = Option.bind (hget (entries s) uri) last_entry"

definition put_l2_blob :: "string \<Rightarrow> string \<Rightarrow> cstore \<Rightarrow> cstore" where
  "put_l2_blob uri bytes s = s\<lparr>l2_blobs := hput uri bytes (l2_blobs s)\<rparr>"

section \<open>Content\<close>

definition next_version :: "context_entry list \<Rightarrow> mvcc_version" where
  "next_version l = MvccVersion (of_nat (length l) + 1)"

definition write_entry :: "datetime \<Rightarrow> context_entry \<Rightarrow> cstore \<Rightarrow> mvcc_version cresult" where
  "write_entry now e s =
     (case sanitize_entry_for_write e of
        Inl err \<Rightarrow> (Inl err, s)
      | Inr entry \<Rightarrow>
          (let uri = u_canonical (e_uri entry); l = versions_of s uri; v = next_version l
           in (Inr v, s\<lparr>entries := hput uri
                 (l @ [entry\<lparr>e_mvcc_version := v, e_updated_at := now\<rparr>]) (entries s)\<rparr>)))"

definition delete_entry :: "context_uri \<Rightarrow> cstore \<Rightarrow> unit cresult" where
  "delete_entry uri s = (Inr (), s\<lparr>entries := hdel (u_canonical uri) (entries s)\<rparr>)"

definition rename_entry :: "context_uri \<Rightarrow> context_uri \<Rightarrow> cstore \<Rightarrow> unit cresult" where
  "rename_entry from to s =
     (case hget (entries s) (u_canonical from) of
        None \<Rightarrow> (Inl (NotFound (u_canonical from)), s)
      | Some l \<Rightarrow>
          (Inr (), s\<lparr>entries := hput (u_canonical to) l (hdel (u_canonical from) (entries s))\<rparr>))"

text \<open>The batch stops at the first error; what it wrote before stays. One clock reading per
  entry.\<close>

fun batch_write :: "(datetime \<times> context_entry) list \<Rightarrow> cstore \<Rightarrow> mvcc_version list cresult" where
  "batch_write [] s = (Inr [], s)"
| "batch_write ((now, e) # es) s =
     (case write_entry now e s of
        (Inl err, s1) \<Rightarrow> (Inl err, s1)
      | (Inr v, s1) \<Rightarrow>
          (case batch_write es s1 of
             (Inl err, s2) \<Rightarrow> (Inl err, s2)
           | (Inr vs, s2) \<Rightarrow> (Inr (v # vs), s2)))"

section \<open>Reading\<close>

text \<open>Well-formed UTF-8, as \<open>String::from_utf8\<close> checks it.\<close>

definition cont :: "char \<Rightarrow> bool" where
  "cont c = (128 \<le> byte c \<and> byte c < 192)"

fun utf8_valid :: "string \<Rightarrow> bool" where
  "utf8_valid [] = True"
| "utf8_valid (a # s) =
     (if byte a < 128 then utf8_valid s
      else if 194 \<le> byte a \<and> byte a \<le> 223
      then (case s of b # t \<Rightarrow> cont b \<and> utf8_valid t | [] \<Rightarrow> False)
      else if 224 \<le> byte a \<and> byte a \<le> 239
      then (case s of
              b # c # t \<Rightarrow> cont b \<and> cont c \<and> (byte a = 224 \<longrightarrow> 160 \<le> byte b)
                \<and> (byte a = 237 \<longrightarrow> byte b < 160) \<and> utf8_valid t
            | _ \<Rightarrow> False)
      else if 240 \<le> byte a \<and> byte a \<le> 244
      then (case s of
              b # c # d # t \<Rightarrow> cont b \<and> cont c \<and> cont d \<and> (byte a = 240 \<longrightarrow> 144 \<le> byte b)
                \<and> (byte a = 244 \<longrightarrow> byte b < 144) \<and> utf8_valid t
            | _ \<Rightarrow> False)
      else False)"

definition read_entry :: "context_uri \<Rightarrow> content_level \<Rightarrow> cstore \<Rightarrow> context_error + content_payload" where
  "read_entry uri level s =
     (case latest s (u_canonical uri) of
        None \<Rightarrow> Inl (NotFound (u_canonical uri))
      | Some e \<Rightarrow>
          (let l0 = l0_text e;
               l1 = (case e_payload e of Text _ dense _ \<Rightarrow> dense | _ \<Rightarrow> [])
           in Inr (case level of
                L0 \<Rightarrow> Text l0 l1 l0
              | L1 \<Rightarrow> Text l0 l1 l0
              | L2 \<Rightarrow>
                  (case hget (l2_blobs s) (u_canonical uri) of
                     Some (b # bs) \<Rightarrow> Text l0 l1 (if utf8_valid (b # bs) then b # bs else [])
                   | _ \<Rightarrow>
                       (case e_payload e of Text _ _ full \<Rightarrow> Text l0 l1 full | other \<Rightarrow> other)))))"

section \<open>Listing\<close>

text \<open>\<open>ContextUri::parse(..).ok()\<close>.\<close>

definition parsed :: "(string \<Rightarrow> datetime option) \<Rightarrow> string \<Rightarrow> context_uri option" where
  "parsed pt s = (case parse pt s of Inr u \<Rightarrow> Some u | Inl _ \<Rightarrow> None)"

definition list_prefix :: "context_uri \<Rightarrow> string" where
  "list_prefix dir = trim_end_matches CHR ''/'' (u_canonical dir) @ ''/''"

definition ls ::
    "(string \<Rightarrow> datetime option) \<Rightarrow> context_uri \<Rightarrow> page_request \<Rightarrow> cstore \<Rightarrow> dir_entry page" where
  "ls pt dir page s =
     (let out = List.map_filter (\<lambda>(uri, versions).
            Option.bind (strip_prefix uri (list_prefix dir)) (\<lambda>rest.
            Option.bind (last_entry versions) (\<lambda>e.
              map_option (\<lambda>u. \<lparr>de_uri = u, de_is_dir = CHR ''/'' \<in> set rest, de_abstract = l0_text e,
                               de_content_type = m_content_type (e_metadata e)\<rparr>) (parsed pt uri))))
          (entries s)
      in keyset_page (sort_key (\<lambda>d. uri_key (de_uri d)) out) page (\<lambda>d. u_canonical (de_uri d)))"

definition find_entries ::
    "(string \<Rightarrow> datetime option) \<Rightarrow> find_pattern \<Rightarrow> page_request \<Rightarrow> cstore \<Rightarrow> context_uri page" where
  "find_entries pt pattern page s =
     (let scope = (case fp_scope pattern of Some u \<Rightarrow> u_canonical u | None \<Rightarrow> []);
          hits = filter (\<lambda>(uri, versions).
            starts_with uri scope
            \<and> (case fp_content_type pattern of
                 Some ct \<Rightarrow>
                   (case Option.bind (last_entry versions) (\<lambda>e. m_content_type (e_metadata e)) of
                      Some c \<Rightarrow> c = ct | None \<Rightarrow> False)
               | None \<Rightarrow> True)) (entries s);
          uris = List.map_filter (\<lambda>(uri, _). parsed pt uri) hits
      in keyset_page (sort_key uri_key uris) page u_canonical)"

definition grep ::
    "(string \<Rightarrow> string) \<Rightarrow> (string \<Rightarrow> datetime option) \<Rightarrow> string \<Rightarrow> context_uri \<Rightarrow> cstore \<Rightarrow> grep_hit list"
where
  "grep lower pt regex scope s =
     List.map_filter (\<lambda>(uri, versions).
       if \<not> starts_with uri (u_canonical scope) then None
       else Option.bind (last_entry versions) (\<lambda>e.
         let l0 = l0_text e
         in if contains_str (lower l0) (lower regex)
            then map_option (\<lambda>u. \<lparr>gh_uri = u, gh_line = l0, gh_level = L0\<rparr>) (parsed pt uri)
            else None)) (entries s)"

text \<open>One level of the tree: the names below the prefix, each with the flag of the address that
  named it first, in the order of a \<open>BTreeMap\<close>.\<close>

fun see_names :: "string \<Rightarrow> string list \<Rightarrow> (string \<times> bool) list \<Rightarrow> (string \<times> bool) list" where
  "see_names prefix [] seen = seen"
| "see_names prefix (uri # uris) seen =
     (case strip_prefix uri prefix of
        None \<Rightarrow> see_names prefix uris seen
      | Some rest \<Rightarrow>
          (if rest = [] then see_names prefix uris seen
           else
             let (name, is_dir) =
                   (case split_once CHR ''/'' rest of Some (d, _) \<Rightarrow> (d, True) | None \<Rightarrow> (rest, False))
             in see_names prefix uris (if hhas seen name then seen else hput name is_dir seen)))"

function build_memory_tree ::
    "(string \<Rightarrow> datetime option) \<Rightarrow> string \<Rightarrow> string list \<Rightarrow> nat \<Rightarrow> nat \<Rightarrow> tree_node list" where
  "build_memory_tree pt prefix uris current max_depth =
     (if max_depth \<le> current then []
      else
        concat (map (\<lambda>(name, is_dir).
          case parsed pt (prefix @ name) of
            None \<Rightarrow> []
          | Some child \<Rightarrow>
              [TreeNode child is_dir
                 (if is_dir
                  then build_memory_tree pt (prefix @ name @ ''/'') uris (current + 1) max_depth
                  else [])])
          (sort_key fst (see_names prefix uris []))))"
  by pat_completeness auto
termination
  by (relation "measure (\<lambda>(pt, prefix, uris, current, max_depth). max_depth - current)") auto

declare build_memory_tree.simps [simp del]

fun node_uri :: "tree_node \<Rightarrow> context_uri" where
  "node_uri (TreeNode u _ _) = u"

definition tree ::
    "(string \<Rightarrow> datetime option) \<Rightarrow> context_uri \<Rightarrow> nat \<Rightarrow> page_request \<Rightarrow> cstore \<Rightarrow> tree_node page" where
  "tree pt root max_depth page s =
     (let prefix = list_prefix root;
          uris = filter (\<lambda>k. starts_with k prefix) (hkeys (entries s))
      in keyset_page [TreeNode root True (build_memory_tree pt prefix uris 0 max_depth)] page
           (\<lambda>n. u_canonical (node_uri n)))"

definition scan_by_prefix :: "string \<Rightarrow> page_request \<Rightarrow> cstore \<Rightarrow> context_entry page" where
  "scan_by_prefix prefix page s =
     (let hits = List.map_filter (\<lambda>(_, versions). last_entry versions)
            (filter (\<lambda>(uri, _). starts_with uri prefix) (entries s))
      in keyset_page (sort_key (\<lambda>e. uri_key (e_uri e)) hits) page (\<lambda>e. u_canonical (e_uri e)))"

definition scan_by_type ::
    "string \<Rightarrow> content_type \<Rightarrow> page_request \<Rightarrow> cstore \<Rightarrow> context_entry page" where
  "scan_by_type prefix ct page s =
     (let hits = filter (\<lambda>e. m_content_type (e_metadata e) = Some ct)
            (List.map_filter (\<lambda>(_, versions). last_entry versions)
              (filter (\<lambda>(uri, _). starts_with uri prefix) (entries s)))
      in keyset_page (sort_key (\<lambda>e. uri_key (e_uri e)) hits) page (\<lambda>e. u_canonical (e_uri e)))"

section \<open>Versions and tenants\<close>

fun version_no :: "mvcc_version \<Rightarrow> u64" where
  "version_no (MvccVersion n) = n"

text \<open>\<open>{:020}\<close>\<close>

definition pad20 :: "string \<Rightarrow> string" where
  "pad20 s = replicate (20 - length s) CHR ''0'' @ s"

definition version_history :: "context_uri \<Rightarrow> page_request \<Rightarrow> cstore \<Rightarrow> version_entry page" where
  "version_history uri page s =
     keyset_page
       (map (\<lambda>e. \<lparr>ve_version = e_mvcc_version e, ve_message = l0_text e, ve_ts = e_updated_at e\<rparr>)
         (versions_of s (u_canonical uri)))
       page (\<lambda>v. pad20 (show_nat (unat (version_no (ve_version v)))))"

definition debug_version :: "mvcc_version \<Rightarrow> string" where
  "debug_version v = ''MvccVersion('' @ show_nat (unat (version_no v)) @ '')''"

definition rollback :: "context_uri \<Rightarrow> mvcc_version \<Rightarrow> cstore \<Rightarrow> unit cresult" where
  "rollback uri to s =
     (case hget (entries s) (u_canonical uri) of
        None \<Rightarrow> (Inl (NotFound (u_canonical uri)), s)
      | Some l \<Rightarrow>
          (case find (\<lambda>e. e_mvcc_version e = to) l of
             None \<Rightarrow> (Inl (VersionConflict (''no version '' @ debug_version to)), s)
           | Some target \<Rightarrow>
               (Inr (), s\<lparr>entries := hput (u_canonical uri)
                  (l @ [target\<lparr>e_mvcc_version := next_version l\<rparr>]) (entries s)\<rparr>)))"

fun tenant_uuid :: "tenant_id \<Rightarrow> uuid" where
  "tenant_uuid (TenantId t) = t"

definition list_tenants :: "(uuid \<Rightarrow> string) \<Rightarrow> page_request \<Rightarrow> cstore \<Rightarrow> tenant_id page" where
  "list_tenants uuid_display page s =
     (let ts = List.map_filter (\<lambda>(_, l). map_option e_tenant (last_entry l)) (entries s)
      in keyset_page (remdups_adj (sort_key tenant_uuid ts)) page (\<lambda>t. uuid_display (tenant_uuid t)))"

section \<open>The graph\<close>

definition bump_revision :: "string \<Rightarrow> cstore \<Rightarrow> cstore" where
  "bump_revision t s =
     s\<lparr>graph_revisions :=
         hput t ((case hget (graph_revisions s) t of Some n \<Rightarrow> n | None \<Rightarrow> 0) + 1) (graph_revisions s)\<rparr>"

definition edges_from :: "cstore \<Rightarrow> string \<Rightarrow> (string \<times> graph_relation) list" where
  "edges_from s k = (case hget (graph_edges s) k of Some l \<Rightarrow> l | None \<Rightarrow> [])"

definition add_edge :: "context_uri \<Rightarrow> context_uri \<Rightarrow> graph_relation \<Rightarrow> cstore \<Rightarrow> cstore" where
  "add_edge from to kind s =
     (let k = u_canonical from; l = edges_from s k; edge = (u_canonical to, kind)
      in if edge \<notin> set l
         then bump_revision (u_tenant from) (s\<lparr>graph_edges := hput k (l @ [edge]) (graph_edges s)\<rparr>)
         else s\<lparr>graph_edges := hput k l (graph_edges s)\<rparr>)"

definition remove_edge :: "context_uri \<Rightarrow> context_uri \<Rightarrow> cstore \<Rightarrow> cstore" where
  "remove_edge from to s =
     (case hget (graph_edges s) (u_canonical from) of
        None \<Rightarrow> s
      | Some l \<Rightarrow>
          (let l' = filter (\<lambda>(target, _). target \<noteq> u_canonical to) l;
               s' = s\<lparr>graph_edges := hput (u_canonical from) l' (graph_edges s)\<rparr>
           in if length l' \<noteq> length l then bump_revision (u_tenant from) s' else s'))"

definition of_kind :: "graph_relation option \<Rightarrow> graph_relation \<Rightarrow> bool" where
  "of_kind kind r = (case kind of None \<Rightarrow> True | Some k \<Rightarrow> k = r)"

definition outgoing_neighbors ::
    "(string \<Rightarrow> datetime option) \<Rightarrow> context_uri \<Rightarrow> graph_relation option \<Rightarrow> cstore \<Rightarrow> context_uri list" where
  "outgoing_neighbors pt uri kind s =
     List.map_filter (\<lambda>(target, _). parsed pt target)
       (filter (\<lambda>(_, r). of_kind kind r) (edges_from s (u_canonical uri)))"

definition incoming_neighbors ::
    "(string \<Rightarrow> datetime option) \<Rightarrow> context_uri \<Rightarrow> graph_relation option \<Rightarrow> cstore \<Rightarrow> context_uri list" where
  "incoming_neighbors pt uri kind s =
     concat (map (\<lambda>(source, out).
       List.map_filter (\<lambda>(target, r).
         if target = u_canonical uri \<and> of_kind kind r then parsed pt source else None) out)
       (graph_edges s))"

text \<open>The degree over 16, at most 1, in sixteenths: below the cap the quotient by a power of two
  is exact in \<open>f32\<close>.\<close>

definition centrality_sixteenths :: "context_uri \<Rightarrow> cstore \<Rightarrow> nat" where
  "centrality_sixteenths uri s =
     (let out_degree = length (edges_from s (u_canonical uri));
          in_degree = length (filter (\<lambda>(target, _). target = u_canonical uri)
            (concat (map snd (graph_edges s))))
      in min (out_degree + in_degree) 16)"

definition graph_revision :: "context_uri \<Rightarrow> cstore \<Rightarrow> u64" where
  "graph_revision scope s =
     (case hget (graph_revisions s) (u_tenant scope) of Some n \<Rightarrow> n | None \<Rightarrow> 0)"

text \<open>Breadth-first traversal: an edge is reported each time its source is expanded, a target is
  queued once. \<open>expand\<close> is the loop over the edges of one source.\<close>

type_synonym edge_out = "context_uri \<times> context_uri \<times> graph_relation"

fun expand ::
    "(string \<Rightarrow> datetime option) \<Rightarrow> graph_relation list \<Rightarrow> context_uri \<Rightarrow> nat \<Rightarrow> (string \<times> graph_relation) list
     \<Rightarrow> edge_out list \<times> string list \<times> (context_uri \<times> nat) list
     \<Rightarrow> edge_out list \<times> string list \<times> (context_uri \<times> nat) list" where
  "expand pt allowed from d [] acc = acc"
| "expand pt allowed from d ((target, r) # next_edges) (out, visited, queue) =
     (if allowed \<noteq> [] \<and> r \<notin> set allowed then expand pt allowed from d next_edges (out, visited, queue)
      else case parsed pt target of
        None \<Rightarrow> expand pt allowed from d next_edges (out, visited, queue)
      | Some to \<Rightarrow>
          expand pt allowed from d next_edges
            (out @ [(from, to, r)],
             if target \<in> set visited then visited else target # visited,
             if target \<in> set visited then queue else queue @ [(to, d + 1)]))"

definition all_targets :: "cstore \<Rightarrow> string set" where
  "all_targets s = set (map fst (concat (map snd (graph_edges s))))"

lemma targets_of_edges: "fst ` set (edges_from s k) \<subseteq> all_targets s"
proof (cases "hget (graph_edges s) k")
  case (Some l)
  then have "l \<in> set (map snd (graph_edges s))" using hget_SomeD [OF Some] by force
  then show ?thesis using Some by (auto simp: edges_from_def all_targets_def intro!: image_eqI)
qed (simp add: edges_from_def)

lemma expand_visits:
  assumes "expand pt allowed from d es (out, visited, queue) = (out', visited', queue')"
    and "fst ` set es \<subseteq> T" "finite T"
  shows "(visited' = visited \<and> queue' = queue) \<or> card (T - set visited') < card (T - set visited)"
  using assms
proof (induction es arbitrary: out visited queue)
  case (Cons e es)
  obtain target r where e: "e = (target, r)" by (cases e)
  have step: ?case if "expand pt allowed from d es (out1, visited1, queue1) = (out', visited', queue')"
    "(visited1 = visited \<and> queue1 = queue) \<or> (target \<notin> set visited \<and> visited1 = target # visited)"
    for out1 visited1 queue1
  proof -
    have IH: "(visited' = visited1 \<and> queue' = queue1) \<or> card (T - set visited') < card (T - set visited1)"
      using Cons.IH [OF that(1)] Cons.prems(2,3) by simp
    have "card (T - set (target # visited)) < card (T - set visited)" if "target \<notin> set visited"
      using that Cons.prems(2,3) e by (intro psubset_card_mono) auto
    then show ?thesis using IH that(2) by (elim disjE conjE) simp_all
  qed
  show ?case
  proof (cases "allowed \<noteq> [] \<and> r \<notin> set allowed \<or> parsed pt target = None")
    case True
    then have "expand pt allowed from d es (out, visited, queue) = (out', visited', queue')"
      using Cons.prems(1) e by (auto split: if_splits)
    then show ?thesis by (rule step) simp
  next
    case False
    then obtain to where "parsed pt target = Some to" by auto
    then have "expand pt allowed from d es (out @ [(from, to, r)],
        if target \<in> set visited then visited else target # visited,
        if target \<in> set visited then queue else queue @ [(to, d + 1)]) = (out', visited', queue')"
      using Cons.prems(1) e False by (auto split: if_splits)
    then show ?thesis by (rule step) simp
  qed
qed simp

function traverse ::
    "(string \<Rightarrow> datetime option) \<Rightarrow> cstore \<Rightarrow> graph_relation list \<Rightarrow> nat \<Rightarrow> edge_out list \<Rightarrow> string list
     \<Rightarrow> (context_uri \<times> nat) list \<Rightarrow> edge_out list" where
  "traverse pt s allowed max_hops out visited [] = out"
| "traverse pt s allowed max_hops out visited ((from, d) # queue) =
     (if max_hops \<le> d then traverse pt s allowed max_hops out visited queue
      else
        let (out', visited', queue') =
              expand pt allowed from d (edges_from s (u_canonical from)) (out, visited, queue)
        in traverse pt s allowed max_hops out' visited' queue')"
  by pat_completeness auto
termination
proof (relation "measures
    [\<lambda>(pt, s, allowed, max_hops, out, visited, queue). card (all_targets s - set visited),
     \<lambda>(pt, s, allowed, max_hops, out, visited, queue). length queue]", goal_cases)
  case (3 pt s allowed max_hops out visited "from" d queue x out' xa visited' queue')
  then have "expand pt allowed from d (edges_from s (u_canonical from)) (out, visited, queue) =
      (out', visited', queue')" by simp
  from expand_visits [OF this targets_of_edges] show ?case by (auto simp: all_targets_def)
qed auto

definition batch_traverse ::
    "(string \<Rightarrow> datetime option) \<Rightarrow> context_uri list \<Rightarrow> graph_relation list \<Rightarrow> nat \<Rightarrow> cstore \<Rightarrow> edge_out list" where
  "batch_traverse pt seeds kinds max_hops s =
     traverse pt s kinds max_hops [] (remdups (map u_canonical seeds)) (map (\<lambda>u. (u, 0)) seeds)"

end
