(* ===== verification/Context_Facts.thy ===== *)
theory Context_Facts
  imports Context_Store
begin

text \<open>
  Facts on the content store: the numbering of versions as an invariant of every operation
  (an instance of \<open>op_system\<close>), what writing, rolling back and reading do, and keyset
  pagination, which is complete on keys in string order and loses entries on the order of
  addresses.
\<close>

section \<open>Operations and the invariant\<close>

datatype cop =
    CWrite datetime context_entry
  | CBatch "(datetime \<times> context_entry) list"
  | CDelete context_uri
  | CRename context_uri context_uri
  | CRollback context_uri mvcc_version
  | CPutBlob string string
  | CAddEdge context_uri context_uri graph_relation
  | CRemoveEdge context_uri context_uri

fun cstep :: "cop \<Rightarrow> cstore \<Rightarrow> cstore" where
  "cstep (CWrite now e) s = snd (write_entry now e s)"
| "cstep (CBatch es) s = snd (batch_write es s)"
| "cstep (CDelete u) s = snd (delete_entry u s)"
| "cstep (CRename a b) s = snd (rename_entry a b s)"
| "cstep (CRollback u v) s = snd (rollback u v s)"
| "cstep (CPutBlob u b) s = put_l2_blob u b s"
| "cstep (CAddEdge a b k) s = add_edge a b k s"
| "cstep (CRemoveEdge a b) s = remove_edge a b s"

text \<open>The versions of an address are numbered 1, 2, ... in the order they were appended.\<close>

definition numbered :: "context_entry list \<Rightarrow> bool" where
  "numbered l \<longleftrightarrow> map e_mvcc_version l = map (\<lambda>i. MvccVersion (of_nat i + 1)) [0..<length l]"

definition cs_inv :: "cstore \<Rightarrow> bool" where
  "cs_inv s \<longleftrightarrow> hm_wf (entries s) \<and>
     (\<forall>uri l. hget (entries s) uri = Some l \<longrightarrow> l \<noteq> [] \<and> numbered l)"

lemma numbered_snoc:
  "numbered l \<Longrightarrow> e_mvcc_version e = next_version l \<Longrightarrow> numbered (l @ [e])"
  by (simp add: numbered_def next_version_def)

lemma cs_inv_put:
  "cs_inv s \<Longrightarrow> l \<noteq> [] \<Longrightarrow> numbered l \<Longrightarrow> cs_inv (s\<lparr>entries := hput uri l (entries s)\<rparr>)"
  by (auto simp: cs_inv_def hm_simps split: if_splits)

lemma cs_inv_del: "cs_inv s \<Longrightarrow> cs_inv (s\<lparr>entries := hdel uri (entries s)\<rparr>)"
  by (auto simp: cs_inv_def hm_simps split: if_splits)

lemma cs_inv_fields [simp]:
  "cs_inv (s\<lparr>l2_blobs := b\<rparr>) = cs_inv s" "cs_inv (s\<lparr>graph_edges := g\<rparr>) = cs_inv s"
  "cs_inv (s\<lparr>graph_revisions := r\<rparr>) = cs_inv s" "cs_inv (bump_revision t s) = cs_inv s"
  by (simp_all add: cs_inv_def bump_revision_def)

lemma cs_inv_get: "cs_inv s \<Longrightarrow> hget (entries s) uri = Some l \<Longrightarrow> l \<noteq> [] \<and> numbered l"
  by (simp add: cs_inv_def)

lemma numbered_versions_of: "cs_inv s \<Longrightarrow> numbered (versions_of s uri)"
  by (auto simp: versions_of_def cs_inv_get numbered_def split: option.split dest: cs_inv_get)

lemma write_inv: "cs_inv s \<Longrightarrow> cs_inv (snd (write_entry now e s))"
  by (auto simp: write_entry_def Let_def split: sum.split
      intro!: cs_inv_put numbered_snoc numbered_versions_of)

lemma batch_inv: "cs_inv s \<Longrightarrow> cs_inv (snd (batch_write es s))"
proof (induction es s rule: batch_write.induct)
  case (2 now e es s)
  then show ?case using write_inv [OF 2(2), of now e]
    by (auto split: prod.splits sum.splits)
qed simp

lemma rename_inv: "cs_inv s \<Longrightarrow> cs_inv (snd (rename_entry a b s))"
  using cs_inv_put [OF cs_inv_del, of s]
  by (auto simp: rename_entry_def cs_inv_get split: option.split dest: cs_inv_get)

lemma rollback_inv: "cs_inv s \<Longrightarrow> cs_inv (snd (rollback u v s))"
  by (auto simp: rollback_def split: option.split dest: cs_inv_get
      intro!: cs_inv_put numbered_snoc)

lemma cstep_inv: "cs_inv s \<Longrightarrow> cs_inv (cstep x s)"
  by (cases x)
    (auto simp: write_inv batch_inv rename_inv rollback_inv delete_entry_def cs_inv_del
      put_l2_blob_def add_edge_def remove_edge_def Let_def split: option.split)

interpretation cs: op_system cstep cs_inv "\<lambda>_ _. True"
  by unfold_locales (rule cstep_inv)

lemma cs_inv_new: "cs_inv cstore_new"
  by (simp add: cs_inv_def cstore_new_def)

lemma cs_ok_run [simp]: "cs.ok_run xs s"
  by (induction xs arbitrary: s) auto

section \<open>Versions\<close>

text \<open>On a numbered history the version \<open>v\<close> is the \<open>v\<close>-th entry.\<close>

lemma numbered_nth:
  assumes "numbered l" "i < length l"
  shows "e_mvcc_version (l ! i) = MvccVersion (of_nat i + 1)"
proof -
  have "map e_mvcc_version l ! i = map (\<lambda>i. MvccVersion (of_nat i + 1)) [0..<length l] ! i"
    using assms(1) by (simp add: numbered_def)
  then show ?thesis using assms(2) by simp
qed

lemma version_number_inj:
  assumes "i < 2 ^ 64" "j < 2 ^ 64" "MvccVersion (of_nat i + 1) = MvccVersion (of_nat j + 1)"
  shows "i = j"
proof -
  have "(of_nat i :: u64) = of_nat j" using assms(3) by simp
  then have "unat (of_nat i :: u64) = unat (of_nat j :: u64)" by simp
  then show ?thesis using assms(1,2) by (simp add: unat_of_nat take_bit_eq_mod)
qed

lemma find_numbered:
  assumes "numbered l" "length l < 2 ^ 64" "i < length l"
  shows "find (\<lambda>e. e_mvcc_version e = MvccVersion (of_nat i + 1)) l = Some (l ! i)"
proof -
  have other: "e_mvcc_version (l ! j) \<noteq> MvccVersion (of_nat i + 1)" if "j < i" for j
    using that assms numbered_nth [OF assms(1), of j] version_number_inj [of j i] by auto
  show ?thesis
    using assms(3) numbered_nth [OF assms(1,3)] other
    by (auto simp: find_Some_iff)
qed

text \<open>After any operations, rolling an address back to its version \<open>v\<close> appends a copy of
  the \<open>v\<close>-th entry under the next number: reading then gives that entry's payload again, the
  earlier versions stay as they are, and no other address changes.\<close>

theorem rollback_restores:
  assumes "hget (entries (cs.run ops cstore_new)) (u_canonical u) = Some l"
    and "i < length l" "length l < 2 ^ 64"
  shows "let s = cs.run ops cstore_new;
      (r, s') = rollback u (MvccVersion (of_nat i + 1)) s
    in r = Inr () \<and>
       hget (entries s') (u_canonical u) = Some (l @ [(l ! i)\<lparr>e_mvcc_version := next_version l\<rparr>]) \<and>
       map_option e_payload (latest s' (u_canonical u)) = Some (e_payload (l ! i)) \<and>
       hget (entries s') = (hget (entries s))(u_canonical u := hget (entries s') (u_canonical u))"
proof -
  have "cs_inv (cs.run ops cstore_new)" by (rule cs.run_inv [OF cs_inv_new]) simp
  then have "numbered l" using cs_inv_get assms(1) by blast
  then show ?thesis
    using find_numbered [OF _ assms(3,2)] assms(1)
    by (auto simp: rollback_def latest_def last_entry_def hm_simps Let_def)
qed

definition note_uri :: "string list \<Rightarrow> context_uri" where
  "note_uri p = \<lparr>u_tenant = hd p, u_path = p, u_query = None, u_canonical = SCHEME @ join ''/'' p\<rparr>"

definition note_entry :: "string list \<Rightarrow> string \<Rightarrow> context_entry" where
  "note_entry p txt = new_text 0 (note_uri p) (TenantId 1) txt"

theorem rollback_restores_witness:
  "let u = note_uri [''t'', ''a''];
       s = cs.run [CWrite 1 (note_entry [''t'', ''a''] ''one''), CWrite 2 (note_entry [''t'', ''a''] ''two'')] cstore_new;
       (r, s') = rollback u (MvccVersion 1) s
   in r = Inr () \<and> map_option e_payload (latest s' (u_canonical u)) = Some (Text ''one'' ''one'' ''one'')"
proof -
  let ?ops = "[CWrite 1 (note_entry [''t'', ''a''] ''one''), CWrite 2 (note_entry [''t'', ''a''] ''two'')]"
  let ?u = "note_uri [''t'', ''a'']"
  have run: "cs.run ?ops cstore_new = fold cstep ?ops cstore_new" by simp
  have "map_option (map e_payload) (hget (entries (fold cstep ?ops cstore_new)) (u_canonical ?u)) =
      Some [Text ''one'' ''one'' ''one'', Text ''two'' ''two'' ''two'']"
    by code_simp
  then obtain l where l: "hget (entries (cs.run ?ops cstore_new)) (u_canonical ?u) = Some l"
    "map e_payload l = [Text ''one'' ''one'' ''one'', Text ''two'' ''two'' ''two'']"
    unfolding run by auto
  then have "length l = 2" "e_payload (l ! 0) = Text ''one'' ''one'' ''one''"
    by (auto simp: map_eq_Cons_conv)
  with rollback_restores [OF l(1), of 0] show ?thesis
    by (simp add: Let_def case_prod_beta del: cs.run.simps)
qed

section \<open>Writing and reading\<close>

lemma sanitize_uri: "sanitize_entry_for_write e = Inr clean \<Longrightarrow> e_uri clean = e_uri e"
  by (auto simp: sanitize_entry_for_write_def redact_sensitive_entry_def
      set_security_redactions_def set_custom_field_def Let_def split: prod.splits if_splits)

text \<open>A write makes the sanitized entry the newest version of its address, numbered one above
  the versions kept before, which stay; reading the address at full level then gives the
  sanitized payload when no raw bytes are stored for it; other addresses read as before.\<close>

theorem write_then_read:
  assumes "sanitize_entry_for_write e = Inr clean" "hget (l2_blobs s) (u_canonical (e_uri e)) = None"
    and "\<exists>a b c. e_payload clean = Text a b c"
  shows "let (r, s') = write_entry now e s; k = u_canonical (e_uri e)
    in r = Inr (next_version (versions_of s k)) \<and>
       butlast (versions_of s' k) = versions_of s k \<and>
       read_entry (e_uri e) L2 s' = Inr (e_payload clean) \<and>
       (\<forall>u. u_canonical u = k \<or> read_entry u L2 s' = read_entry u L2 s)"
proof -
  note k = sanitize_uri [OF assms(1)]
  show ?thesis
    using assms k
    by (auto simp: write_entry_def Let_def versions_of_def read_entry_def latest_def last_entry_def
        hm_simps l0_text_def split: option.splits)
qed

theorem write_then_read_witness:
  "let u = note_uri [''t'', ''a'']
   in read_entry u L2 (snd (write_entry 5 (note_entry [''t'', ''a''] ''mail me@x.org'') cstore_new)) =
        Inr (Text ''mail [REDACTED_EMAIL]'' ''mail [REDACTED_EMAIL]'' ''mail [REDACTED_EMAIL]'')"
proof -
  let ?e = "note_entry [''t'', ''a''] ''mail me@x.org''"
  have "(case sanitize_entry_for_write ?e of
      Inr c \<Rightarrow> e_payload c = Text ''mail [REDACTED_EMAIL]'' ''mail [REDACTED_EMAIL]'' ''mail [REDACTED_EMAIL]''
    | Inl _ \<Rightarrow> False)" by code_simp
  then obtain c where c: "sanitize_entry_for_write ?e = Inr c"
    "e_payload c = Text ''mail [REDACTED_EMAIL]'' ''mail [REDACTED_EMAIL]'' ''mail [REDACTED_EMAIL]''"
    by (auto split: sum.splits)
  have "hget (l2_blobs cstore_new) (u_canonical (e_uri ?e)) = None" by (simp add: cstore_new_def)
  from write_then_read [OF c(1) this, of 5] c(2) show ?thesis
    by (simp add: Let_def case_prod_beta note_entry_def new_text_def)
qed

section \<open>Pages\<close>

text \<open>A client that follows the cursors: the pages it gets, at most \<open>fuel\<close> of them.\<close>

fun follow :: "nat \<Rightarrow> 'a list \<Rightarrow> page_request \<Rightarrow> ('a \<Rightarrow> string) \<Rightarrow> 'a list" where
  "follow 0 items page key = []"
| "follow (Suc fuel) items page key =
     (let p = keyset_page items page key
      in pg_items p @ (case pg_next_cursor p of None \<Rightarrow> [] | Some c \<Rightarrow> follow fuel items (page_after c page) key))"

lemma limit_pos: "0 < effective_limit p"
  by (simp add: effective_limit_def)

lemma limit_after [simp]: "effective_limit (page_after c p) = effective_limit p"
  by (simp add: effective_limit_def page_after_def)

abbreviation beyond :: "page_request \<Rightarrow> ('a \<Rightarrow> string) \<Rightarrow> 'a list \<Rightarrow> 'a list" where
  "beyond page key \<equiv> filter (\<lambda>x. case pr_after page of None \<Rightarrow> True | Some after \<Rightarrow> key x > after)"

lemma filter_above:
  fixes key :: "'a \<Rightarrow> string"
  assumes "sorted_wrt (<) (map key b)" "0 < n" "n < length b"
  shows "filter (\<lambda>x. key x > key (b ! (n - 1))) b = drop n b"
proof -
  have less: "key (b ! i) < key (b ! j)" if "i < j" "j < length b" for i j
    using sorted_wrt_nth_less [OF assms(1) that(1)] that by simp
  have above: "key (b ! i) > key (b ! (n - 1)) \<longleftrightarrow> n \<le> i" if "i < length b" for i
  proof (cases "n \<le> i")
    case True
    then show ?thesis using less [of "n - 1" i] assms(2) that by simp
  next
    case False
    then have "i = n - 1 \<or> i < n - 1" by linarith
    then have "\<not> key (b ! (n - 1)) < key (b ! i)"
    proof
      assume "i < n - 1"
      then have "key (b ! i) < key (b ! (n - 1))" using less assms(3) by simp
      then show ?thesis by (rule less_not_sym)
    qed simp
    with False show ?thesis by simp
  qed
  have "filter (\<lambda>x. key x > key (b ! (n - 1))) (take n b) = []"
    unfolding filter_empty_conv
  proof
    fix x assume "x \<in> set (take n b)"
    then obtain i where "i < n" "x = b ! i" using assms(3) by (auto simp: in_set_conv_nth)
    then show "\<not> key (b ! (n - 1)) < key x" using above [of i] assms(3) by simp
  qed
  moreover have "filter (\<lambda>x. key x > key (b ! (n - 1))) (drop n b) = drop n b"
    unfolding filter_id_conv
  proof
    fix x assume "x \<in> set (drop n b)"
    then obtain i where "i < length b - n" "x = b ! (n + i)" by (auto simp: in_set_conv_nth)
    then show "key (b ! (n - 1)) < key x" using above [of "n + i"] by simp
  qed
  ultimately show ?thesis by (metis append_Nil append_take_drop_id filter_append)
qed

lemma keyset_page_short:
  assumes "length (beyond page key items) \<le> effective_limit page"
  shows "keyset_page items page key = \<lparr>pg_items = beyond page key items, pg_next_cursor = None\<rparr>"
  using assms by (simp add: keyset_page_def Let_def)

lemma keyset_page_long:
  assumes "effective_limit page < length (beyond page key items)"
  defines "n \<equiv> effective_limit page"
  shows "keyset_page items page key =
    \<lparr>pg_items = take n (beyond page key items),
     pg_next_cursor = Some (key (beyond page key items ! (n - 1)))\<rparr>"
proof -
  let ?b = "beyond page key items"
  have n: "0 < n" "n < length ?b" using assms limit_pos by auto
  have "length (take (n + 1) ?b) = n + 1" using n by simp
  moreover have "butlast (take (n + 1) ?b) = take n ?b" using n by (simp add: butlast_take)
  moreover have "take n ?b \<noteq> []" "last (take n ?b) = ?b ! (n - 1)"
    using n last_take [of n ?b] by auto
  ultimately show ?thesis by (simp add: keyset_page_def Let_def n_def)
qed

text \<open>On keys in strictly ascending order the entries above the cursor are the rest of the list.\<close>

lemma beyond_next:
  assumes "sorted_wrt (<) (map key (beyond page key items))" "n < length (beyond page key items)" "0 < n"
  shows "beyond (page_after (key (beyond page key items ! (n - 1))) page) key items =
    drop n (beyond page key items)"
proof -
  let ?b = "beyond page key items" and ?c = "key (beyond page key items ! (n - 1))"
  have rest: "filter (\<lambda>x. key x > ?c) ?b = drop n ?b"
    by (rule filter_above [OF assms(1,3,2)])
  have "?c > after" if "pr_after page = Some after" for after
  proof -
    have "?b ! (n - 1) \<in> set ?b" using assms(2) by (intro nth_mem) simp
    then show ?thesis using that unfolding set_filter by simp
  qed
  then have "filter (\<lambda>x. key x > ?c) items = filter (\<lambda>x. key x > ?c) ?b"
    by (cases "pr_after page") (auto intro!: filter_cong dest: less_trans)
  with rest show ?thesis by (simp add: page_after_def)
qed

lemma follow_beyond:
  "sorted_wrt (<) (map key (beyond page key items)) \<Longrightarrow> length (beyond page key items) < fuel \<Longrightarrow>
   follow fuel items page key = beyond page key items"
proof (induction fuel arbitrary: page)
  case (Suc fuel)
  let ?b = "beyond page key items" and ?n = "effective_limit page"
  show ?case
  proof (cases "length ?b \<le> ?n")
    case True
    then show ?thesis by (simp add: keyset_page_short)
  next
    case False
    let ?p = "page_after (key (?b ! (?n - 1))) page"
    have next_page: "beyond ?p key items = drop ?n ?b"
      using beyond_next [OF Suc.prems(1)] False limit_pos by simp
    have "sorted_wrt (<) (map key (drop ?n ?b))"
      using sorted_wrt_drop [OF Suc.prems(1), of ?n] by (simp add: drop_map)
    moreover have "length (drop ?n ?b) < fuel" using Suc.prems(2) limit_pos [of page] False by simp
    ultimately have "follow fuel items ?p key = drop ?n ?b"
      using Suc.IH [of ?p] unfolding next_page by blast
    then show ?thesis using False by (simp add: keyset_page_long)
  qed
qed simp

text \<open>Keyset pagination is complete on keys in strictly ascending string order: a client that
  follows the cursors from the first page gets every item once, in order, whatever the page
  size.\<close>

theorem pages_complete:
  assumes "sorted_wrt (<) (map key items)" "pr_after page = None"
  shows "follow (length items + 1) items page key = items"
proof -
  have "beyond page key items = items" using assms(2) by simp
  then show ?thesis using follow_beyond [of key page items "length items + 1"] assms(1) by simp
qed

theorem pages_complete_witness:
  "follow (length [''a'', ''b'', ''c''] + 1) [''a'', ''b'', ''c''] (page_request_new 2) (\<lambda>x. x) =
     [''a'', ''b'', ''c'']"
proof (rule pages_complete)
  show "sorted_wrt (<) (map (\<lambda>x. x) [''a'', ''b'', ''c''])" by code_simp
  show "pr_after (page_request_new 2) = None" by (simp add: page_request_new_def)
qed

text \<open>Listings are sorted by address, segment by segment, but cut by the text of the cursor: with
  one entry per page a client that follows the cursors misses an entry whose text order
  differs from its address order.\<close>

theorem listing_loses_entries:
  "let s = fold cstep [CWrite 1 (note_entry [''t'', ''a'', ''c''] ''x''), CWrite 2 (note_entry [''t'', ''a-b''] ''y'')]
             cstore_new;
       p = find_entries (\<lambda>_. None) \<lparr>fp_scope = None, fp_name_glob = None, fp_content_type = None, fp_max_depth = None\<rparr>;
       p1 = p (page_request_new 1) s
   in map u_canonical (pg_items p1) = [''uwu://t/a/c''] \<and> pg_next_cursor p1 = Some ''uwu://t/a/c'' \<and>
      pg_items (p (page_after ''uwu://t/a/c'' (page_request_new 1)) s) = []"
  by code_simp

text \<open>A scan below a prefix is documented to stay in the subtree of the prefix; it returns
  entries of any address whose text starts with it, another tenant's included.\<close>

theorem prefix_scan_crosses_tenants:
  "let s = fold cstep [CWrite 1 (note_entry [''acme'', ''a''] ''x''), CWrite 2 (note_entry [''acme2'', ''a''] ''y'')] cstore_new
   in map (u_tenant \<circ> e_uri) (pg_items (scan_by_prefix ''uwu://acme'' (page_request_new 10) s)) = [''acme'', ''acme2'']"
  by code_simp

end
