(* ===== verification/Version_Model.thy ===== *)
theory Version_Model
  imports Content_Model Worklist
begin

text \<open>
  The data of the version layer, crates/context-db-version/src/model.rs and the types of
  src/lib.rs beside it: commits, branches, tags, references, options and results; the
  validated branch and tag names; the causal index over the commit DAG; the temporal index.
\<close>

section \<open>Errors, commits, branches and tags\<close>

datatype version_error =
    VNotFound string
  | BranchExists string
  | MergeConflict string
  | ConflictSessionUnavailable string
  | ConflictSessionIncomplete string
  | VStorage string
  | InvalidConfig string

fun version_error_display :: "version_error \<Rightarrow> string" where
  "version_error_display (VNotFound m) = ''not found: '' @ m"
| "version_error_display (BranchExists m) = ''branch exists: '' @ m"
| "version_error_display (MergeConflict m) = ''merge conflict: '' @ m"
| "version_error_display (ConflictSessionUnavailable m) = ''conflict session not available: '' @ m"
| "version_error_display (ConflictSessionIncomplete m) = ''conflict session incomplete: '' @ m"
| "version_error_display (VStorage m) = ''storage: '' @ m"
| "version_error_display (InvalidConfig m) = ''invalid configuration: '' @ m"

datatype commit_id = CommitId uuid

fun uuid_of :: "commit_id \<Rightarrow> uuid" where
  "uuid_of (CommitId u) = u"

record author =
  agent_id :: "string option"
  user_id :: "string option"
  system :: bool

datatype branch_name = BranchName string
datatype tag_name = TagName string

fun branch_str :: "branch_name \<Rightarrow> string" where
  "branch_str (BranchName s) = s"

fun tag_str :: "tag_name \<Rightarrow> string" where
  "tag_str (TagName s) = s"

datatype provenance_relation =
    DerivedFrom | ExtractedFrom | MergedFrom | ForkedFrom | TriggeredBy

record provenance_link =
  pl_source_uri :: context_uri
  pl_source_commit :: commit_id
  pl_relation :: provenance_relation

record uri_change =
  uc_uri :: context_uri
  uc_old_hash :: "content_hash option"
  uc_new_hash :: content_hash
  uc_diff_summary :: string
  uc_entry :: context_entry

record rename_op =
  rn_from :: context_uri
  rn_to :: context_uri

record change_set =
  cs_adds :: "context_entry list"
  cs_updates :: "uri_change list"
  cs_deletes :: "context_uri list"
  cs_renames :: "rename_op list"

definition default_change_set :: change_set where
  "default_change_set = \<lparr>cs_adds = [], cs_updates = [], cs_deletes = [], cs_renames = []\<rparr>"

datatype commit_trigger =
    AutoConsolidation
  | SessionCommit uuid u64
  | AgentWrite string string
  | ForkPromotion string
  | MergeOf "branch_name list"
  | UserExplicit

record commit_meta =
  cm_trigger :: commit_trigger
  cm_changes :: change_set
  cm_provenance :: "provenance_link list"

definition default_commit_meta :: commit_meta where
  "default_commit_meta =
     \<lparr>cm_trigger = AutoConsolidation, cm_changes = default_change_set, cm_provenance = []\<rparr>"

record commit =
  c_id :: commit_id
  c_parents :: "commit_id list"
  c_tree_hash :: content_hash
  c_author :: author
  c_message :: string
  c_timestamp :: datetime
  c_metadata :: commit_meta

datatype branch_type = Main | StateFork | Experiment | Collaboration | Staging

datatype branch_lifecycle = Active | Merged branch_name commit_id | Abandoned | Archived

record branch =
  b_name :: branch_name
  b_head :: commit_id
  b_created_from :: commit_id
  b_created_at :: datetime
  b_branch_type :: branch_type
  b_lifecycle :: branch_lifecycle

record semantic_condition =
  sc_expr :: string

datatype tag_type = Immutable | Mutable | Semantic semantic_condition

record tag =
  t_name :: tag_name
  t_target :: commit_id
  t_tag_type :: tag_type
  t_message :: string
  t_created_by :: author
  t_created_at :: datetime

datatype version_ref =
    RefCommit commit_id | RefBranch branch_name | RefTag tag_name | RefHead

datatype as_of_point = AtTimestamp datetime | AtCommit commit_id

record log_opts =
  lo_max_count :: "nat option"
  lo_branch :: "branch_name option"

record tree_diff =
  td_adds :: "context_uri list"
  td_updates :: "context_uri list"
  td_deletes :: "context_uri list"

datatype merge_strategy = FastForward | ThreeWay | Ours | Theirs

datatype conflict_strategy = CFail | COurs | CTheirs

record merge_result =
  mr_commit :: commit_id
  mr_conflicts :: "context_uri list"

record squash_result =
  sq_new_commit :: commit_id
  sq_squashed_count :: nat

record gc_policy =
  gp_keep_recent :: nat
  gp_max_age_days :: int

record gc_report =
  gr_removed_commits :: nat
  gr_freed_snapshots :: nat

record provenance_graph =
  pg_root_uri :: context_uri
  pg_nodes :: "provenance_link list"
  pg_depth :: nat

record impact_analysis =
  ia_commit :: commit_id
  ia_downstream_uris :: "context_uri list"
  ia_affected_branches :: "branch_name list"

record version_analysis_config =
  max_commits :: nat

definition validate_analysis_config :: "version_analysis_config \<Rightarrow> version_error + unit" where
  "validate_analysis_config c =
     (if max_commits c = 0 \<or> 2 ^ 63 - 1 < max_commits c
      then Inl (InvalidConfig ''version analysis max_commits must be in 1..=i64::MAX'')
      else Inr ())"

section \<open>Names\<close>

definition ascii_alphanumeric :: "char \<Rightarrow> bool" where
  "ascii_alphanumeric c =
     (let n = (of_char c :: nat)
      in (48 \<le> n \<and> n \<le> 57) \<or> (65 \<le> n \<and> n \<le> 90) \<or> (97 \<le> n \<and> n \<le> 122))"

definition name_char :: "char \<Rightarrow> bool" where
  "name_char c = (ascii_alphanumeric c \<or> c \<in> {CHR ''.'', CHR ''_'', CHR ''/'', CHR ''-''})"

definition validate_name :: "string \<Rightarrow> string \<Rightarrow> version_error + unit" where
  "validate_name kind s =
     (if s = [] then Inl (VStorage (kind @ '' must not be empty''))
      else if 255 < length s
      then Inl (VStorage (kind @ '' too long ('' @ show_nat (length s) @ '' > 255)''))
      else if \<not> list_all name_char s
      then Inl (VStorage (kind @ '' contains illegal chars (allowed: [A-Za-z0-9._/-]): '' @ s))
      else Inr ())"

definition branch_name_parse :: "string \<Rightarrow> version_error + branch_name" where
  "branch_name_parse s =
     (case validate_name ''BranchName'' s of Inl e \<Rightarrow> Inl e | Inr _ \<Rightarrow> Inr (BranchName s))"

definition tag_name_parse :: "string \<Rightarrow> version_error + tag_name" where
  "tag_name_parse s =
     (case validate_name ''TagName'' s of Inl e \<Rightarrow> Inl e | Inr _ \<Rightarrow> Inr (TagName s))"

section \<open>The causal index\<close>

record causal_dag =
  dag_parents :: "(commit_id, commit_id list) hmap"
  dag_children :: "(commit_id, commit_id list) hmap"

definition dag_new :: causal_dag where
  "dag_new = \<lparr>dag_parents = [], dag_children = []\<rparr>"

text \<open>\<open>entry(k).or_default()\<close>: the list stored under a key, the empty one when absent.\<close>

definition or_default :: "(commit_id, commit_id list) hmap \<Rightarrow> commit_id \<Rightarrow> commit_id list" where
  "or_default m k = (case hget m k of Some l \<Rightarrow> l | None \<Rightarrow> [])"

definition dag_link_child ::
    "commit_id \<Rightarrow> commit_id \<Rightarrow> (commit_id, commit_id list) hmap \<Rightarrow> (commit_id, commit_id list) hmap"
where
  "dag_link_child cid p m =
     (let entry = or_default m p
      in hput p (if cid \<in> set entry then entry else entry @ [cid]) m)"

definition dag_add :: "commit \<Rightarrow> causal_dag \<Rightarrow> causal_dag" where
  "dag_add c dag =
     (let cid = c_id c;
          ps = hput cid (or_default (dag_parents dag) cid @ c_parents c) (dag_parents dag);
          ch = fold (dag_link_child cid) (c_parents c) (dag_children dag);
          ch' = hput cid (or_default ch cid) ch
      in \<lparr>dag_parents = ps, dag_children = ch'\<rparr>)"

definition dag_from_commits :: "commit list \<Rightarrow> causal_dag" where
  "dag_from_commits cs = fold dag_add cs dag_new"

definition parents_of :: "causal_dag \<Rightarrow> commit_id \<Rightarrow> commit_id list" where
  "parents_of dag c = adjacent (\<lambda>l. l) (dag_parents dag) c"

definition children_of :: "causal_dag \<Rightarrow> commit_id \<Rightarrow> commit_id list" where
  "children_of dag c = adjacent (\<lambda>l. l) (dag_children dag) c"

text \<open>The stack is a list with its top first: pushing a list puts its last element on top.\<close>

function root_causes_loop ::
    "causal_dag \<Rightarrow> commit_id list \<Rightarrow> commit_id list \<Rightarrow> commit_id list \<Rightarrow> commit_id list" where
  "root_causes_loop dag roots visited [] = roots"
| "root_causes_loop dag roots visited (node # stack) =
     (if node \<in> set visited then root_causes_loop dag roots visited stack
      else
        let ps = parents_of dag node
        in if ps = [] then root_causes_loop dag (roots @ [node]) (node # visited) stack
           else root_causes_loop dag roots (node # visited) (rev ps @ stack))"
  by pat_completeness auto
termination
proof (relation "measures
    [\<lambda>(dag, roots, visited, stack). card (set (hkeys (dag_parents dag)) - set visited),
     \<lambda>(dag, roots, visited, stack). length stack]", goal_cases)
  case (3 dag roots visited node stack ps)
  then show ?case
    using adj.visit_decreases [of node "set visited" "dag_parents dag" "\<lambda>l. l"]
    by (auto simp: parents_of_def)
next
  case (4 dag roots visited node stack ps)
  then show ?case
    using adj.visit_decreases [of node "set visited" "dag_parents dag" "\<lambda>l. l"]
    by (auto simp: parents_of_def)
qed auto

definition root_causes :: "causal_dag \<Rightarrow> commit_id \<Rightarrow> commit_id list" where
  "root_causes dag c = root_causes_loop dag [] [] [c]"

function effects_loop ::
    "causal_dag \<Rightarrow> commit_id list \<Rightarrow> commit_id list \<Rightarrow> commit_id list \<Rightarrow> commit_id list" where
  "effects_loop dag effs visited [] = effs"
| "effects_loop dag effs visited (node # stack) =
     (if node \<in> set visited then effects_loop dag effs visited stack
      else effects_loop dag (effs @ [node]) (node # visited) (rev (children_of dag node) @ stack))"
  by pat_completeness auto
termination
proof (relation "measures
    [\<lambda>(dag, effs, visited, stack). card (set (hkeys (dag_children dag)) - set visited),
     \<lambda>(dag, effs, visited, stack). length stack]", goal_cases)
  case (3 dag effs visited node stack)
  then show ?case
    using adj.visit_decreases [of node "set visited" "dag_children dag" "\<lambda>l. l"]
    by (auto simp: children_of_def)
qed auto

definition effects :: "causal_dag \<Rightarrow> commit_id \<Rightarrow> commit_id list" where
  "effects dag c = effects_loop dag [] [] (rev (children_of dag c))"

definition is_descendant_of :: "causal_dag \<Rightarrow> commit_id \<Rightarrow> commit_id \<Rightarrow> bool" where
  "is_descendant_of dag ancestor node =
     (if ancestor = node then False else node \<in> set (effects dag ancestor))"


section \<open>The causal index is exact\<close>

text \<open>\<open>causes dag c\<close>: everything from which \<open>c\<close> descends, itself included;
  \<open>parent_edge\<close>: the pairs of a commit and one of its parents in the index.\<close>

abbreviation causes :: "causal_dag \<Rightarrow> commit_id \<Rightarrow> commit_id set" where
  "causes dag \<equiv> finite_graph.reach (parents_of dag)"

definition parent_edge :: "causal_dag \<Rightarrow> (commit_id \<times> commit_id) set" where
  "parent_edge dag = {(c, p). p \<in> set (parents_of dag c)}"

interpretation par: finite_graph "parents_of dag" "hkeys (dag_parents dag)" for dag
  by unfold_locales (simp add: parents_of_def adjacent_unknown)

interpretation chi: finite_graph "children_of dag" "hkeys (dag_children dag)" for dag
  by unfold_locales (simp add: children_of_def adjacent_unknown)

lemma root_causes_loop_set:
  "par.pending dag (set vis) (set stk) \<Longrightarrow>
   set (root_causes_loop dag roots vis stk) =
     set roots \<union> {x. x \<notin> set vis \<and> (\<exists>s\<in>set stk. x \<in> causes dag s) \<and> parents_of dag x = []}"
proof (induction dag roots vis stk rule: root_causes_loop.induct)
  case (2 dag roots vis node stk)
  note unfold = par.reach_unfold [of dag node]
  show ?case
  proof (cases "node \<in> set vis")
    case True
    have pen: "par.pending dag (set vis) (set stk)"
      using par.pending_skip [of dag "set vis" node "set stk"] 2(4) True by auto
    moreover have "\<exists>s\<in>set stk. x \<in> causes dag s" if "x \<notin> set vis" "x \<in> causes dag node" for x
      using par.pending_reach [OF pen True that(2)] that(1) by blast
    ultimately show ?thesis using 2(1) True by auto
  next
    case False
    have pen: "par.pending dag (insert node (set vis)) (set (parents_of dag node) \<union> set stk)"
      using par.pending_visit [of dag "set vis" node "set stk"] 2(4) by auto
    show ?thesis
    proof (cases "parents_of dag node = []")
      case True
      with pen False 2(2) unfold show ?thesis by auto
    next
      case nonroot: False
      with pen False 2(3) unfold show ?thesis by auto
    qed
  qed
qed simp

lemma root_causes_loop_distinct:
  "distinct roots \<Longrightarrow> set roots \<subseteq> set vis \<Longrightarrow> distinct (root_causes_loop dag roots vis stk)"
proof (induction dag roots vis stk rule: root_causes_loop.induct)
  case (2 dag roots vis node stk)
  show ?case
  proof (cases "node \<in> set vis")
    case False
    then have "node \<notin> set roots" using 2(5) by auto
    with 2 False show ?thesis by (auto simp: Let_def subset_insertI2)
  qed (use 2 in auto)
qed simp

lemma effects_loop_set:
  "chi.pending dag (set vis) (set stk) \<Longrightarrow> set vis = set effs \<Longrightarrow>
   set (effects_loop dag effs vis stk) =
     set effs \<union> {x. \<exists>s\<in>set stk. x \<in> finite_graph.reach (children_of dag) s}"
proof (induction dag effs vis stk rule: effects_loop.induct)
  case (2 dag effs vis node stk)
  note unfold = chi.reach_unfold [of dag node]
  show ?case
  proof (cases "node \<in> set vis")
    case True
    have pen: "chi.pending dag (set vis) (set stk)"
      using chi.pending_skip [of dag "set vis" node "set stk"] 2(3) True by auto
    moreover have "x \<in> set vis \<or> (\<exists>s\<in>set stk. x \<in> finite_graph.reach (children_of dag) s)"
      if "x \<in> finite_graph.reach (children_of dag) node" for x
      using chi.pending_reach [OF pen True that] by blast
    ultimately show ?thesis using 2(1) 2(4) True by auto
  next
    case False
    have pen: "chi.pending dag (insert node (set vis)) (set (children_of dag node) \<union> set stk)"
      using chi.pending_visit [of dag "set vis" node "set stk"] 2(3) by auto
    with False 2(2) 2(4) unfold show ?thesis by auto
  qed
qed simp

lemma effects_loop_distinct:
  "distinct effs \<Longrightarrow> set effs = set vis \<Longrightarrow> distinct (effects_loop dag effs vis stk)"
  by (induction dag effs vis stk rule: effects_loop.induct) auto

text \<open>Both directions of the index record the same edges.\<close>

definition dag_dual :: "causal_dag \<Rightarrow> bool" where
  "dag_dual dag = (\<forall>c p. c \<in> set (children_of dag p) \<longleftrightarrow> p \<in> set (parents_of dag c))"

lemma or_default_hput:
  "or_default (hput k v m) k' = (if k' = k then v else or_default m k')"
  by (simp add: or_default_def hm_simps)

lemma or_default_link_fold:
  "set (or_default (fold (dag_link_child cid) ps m) p) =
     set (or_default m p) \<union> (if p \<in> set ps then {cid} else {})"
  by (induction ps arbitrary: m) (auto simp: dag_link_child_def Let_def or_default_hput)

lemma adjacent_or_default: "adjacent (\<lambda>l. l) m k = or_default m k"
  by (simp add: adjacent_def or_default_def)

lemma dag_add_dual:
  assumes "dag_dual dag"
  shows "dag_dual (dag_add c dag)"
  using assms
  by (auto simp: dag_dual_def dag_add_def Let_def parents_of_def children_of_def
      adjacent_or_default or_default_hput or_default_link_fold split: if_splits)

lemma dag_from_commits_dual: "dag_dual (dag_from_commits cs)"
proof -
  have "dag_dual dag \<Longrightarrow> dag_dual (fold dag_add cs dag)" for dag
    by (induction cs arbitrary: dag) (auto intro: dag_add_dual)
  moreover have "dag_dual dag_new"
    by (simp add: dag_dual_def dag_new_def parents_of_def children_of_def adjacent_def)
  ultimately show ?thesis by (simp add: dag_from_commits_def)
qed

lemma effects_trancl:
  assumes "dag_dual dag"
  shows "set (effects dag c) = {x. (x, c) \<in> (parent_edge dag)\<^sup>+}"
proof -
  have conv: "chi.edges dag = (parent_edge dag)\<inverse>"
    using assms by (auto simp: chi.edges_def parent_edge_def dag_dual_def)
  have "x \<in> set (effects dag c) \<longleftrightarrow>
      (\<exists>s. s \<in> set (children_of dag c) \<and> (s, x) \<in> (chi.edges dag)\<^sup>*)" for x
    unfolding effects_def
    by (subst effects_loop_set) (auto simp: chi.pending_def chi.reach_def)
  also have "\<dots> x \<longleftrightarrow> (c, x) \<in> (chi.edges dag)\<^sup>+" for x
    by (auto simp: chi.edges_def trancl_unfold_left)
  finally show ?thesis by (auto simp: conv trancl_converse)
qed


lemma dag_edges:
  "(c, p) \<in> parent_edge (dag_from_commits cs) \<longleftrightarrow> (\<exists>k\<in>set cs. c_id k = c \<and> p \<in> set (c_parents k))"
proof -
  have "(c, p) \<in> parent_edge (fold dag_add cs dag) \<longleftrightarrow>
      (c, p) \<in> parent_edge dag \<or> (\<exists>k\<in>set cs. c_id k = c \<and> p \<in> set (c_parents k))" for dag
  proof (induction cs arbitrary: dag)
    case (Cons k cs)
    have "(c, p) \<in> parent_edge (dag_add k dag) \<longleftrightarrow>
        (c, p) \<in> parent_edge dag \<or> (c_id k = c \<and> p \<in> set (c_parents k))"
      by (auto simp: parent_edge_def parents_of_def adjacent_or_default dag_add_def Let_def
          or_default_hput)
    with Cons show ?case by auto
  qed simp
  moreover have "parent_edge dag_new = {}"
    by (simp add: parent_edge_def dag_new_def parents_of_def adjacent_def)
  ultimately show ?thesis by (simp add: dag_from_commits_def)
qed

lemma root_causes_set:
  "set (root_causes dag c) = {r. (c, r) \<in> (parent_edge dag)\<^sup>* \<and> parents_of dag r = []}"
proof -
  have "par.edges dag = parent_edge dag"
    by (simp add: par.edges_def parent_edge_def)
  then show ?thesis
    unfolding root_causes_def
    by (subst root_causes_loop_set) (auto simp: par.pending_def par.reach_def)
qed

text \<open>The causal index built from any commits records exactly their parent edges; the root causes
  of a commit are, without repetition, its ancestors (itself included) that have no parent, its
  effects are exactly the commits that descend from it through at least one edge, and the
  descendant test is strict descent. Cycles in the input do not make the traversals loop.\<close>

theorem causal_index_exact:
  "let dag = dag_from_commits cs
   in (\<forall>c p. (c, p) \<in> parent_edge dag \<longleftrightarrow> (\<exists>k\<in>set cs. c_id k = c \<and> p \<in> set (c_parents k)))
    \<and> distinct (root_causes dag c)
    \<and> set (root_causes dag c) = {r. (c, r) \<in> (parent_edge dag)\<^sup>* \<and> parents_of dag r = []}
    \<and> distinct (effects dag c)
    \<and> set (effects dag c) = {x. (x, c) \<in> (parent_edge dag)\<^sup>+}
    \<and> (is_descendant_of dag c n \<longleftrightarrow> c \<noteq> n \<and> (n, c) \<in> (parent_edge dag)\<^sup>+)"
proof -
  let ?dag = "dag_from_commits cs"
  note eff = effects_trancl [OF dag_from_commits_dual, of cs c]
  have "distinct (root_causes ?dag c)"
    unfolding root_causes_def by (rule root_causes_loop_distinct) auto
  moreover have "distinct (effects ?dag c)"
    unfolding effects_def by (rule effects_loop_distinct) auto
  moreover have "is_descendant_of ?dag c n \<longleftrightarrow> c \<noteq> n \<and> (n, c) \<in> (parent_edge ?dag)\<^sup>+"
    using eff by (auto simp: is_descendant_of_def)
  ultimately show ?thesis by (simp add: Let_def dag_edges root_causes_set eff)
qed

text \<open>Adding a commit to the index a second time is not idempotent, although the builder is
  documented to be: the list of direct parents gets every parent twice.\<close>

theorem dag_add_twice_duplicates:
  assumes "c_parents c \<noteq> []" and "hget (dag_parents dag) (c_id c) = None"
  shows "parents_of (dag_add c dag) (c_id c) = c_parents c
    \<and> parents_of (dag_add c (dag_add c dag)) (c_id c) = c_parents c @ c_parents c
    \<and> dag_add c (dag_add c dag) \<noteq> dag_add c dag"
proof -
  have one: "parents_of (dag_add c dag) (c_id c) = c_parents c"
    using assms(2) by (simp add: parents_of_def dag_add_def Let_def adjacent_def or_default_def hm_simps)
  moreover have two: "parents_of (dag_add c (dag_add c dag)) (c_id c) = c_parents c @ c_parents c"
    using assms(2) by (simp add: parents_of_def dag_add_def Let_def adjacent_def or_default_def hm_simps)
  ultimately show ?thesis using assms(1) by (metis append_self_conv)
qed

theorem dag_add_twice_duplicates_witness:
  "\<exists>c. parents_of (dag_add c (dag_add c dag_new)) (c_id c) = [CommitId 1, CommitId 1]"
proof -
  let ?c = "\<lparr>c_id = CommitId 2, c_parents = [CommitId 1], c_tree_hash = ContentHash [],
      c_author = \<lparr>agent_id = None, user_id = None, system = True\<rparr>, c_message = [],
      c_timestamp = 0, c_metadata = default_commit_meta\<rparr>"
  show ?thesis
    using dag_add_twice_duplicates [of ?c dag_new] by (intro exI [of _ ?c]) (simp add: dag_new_def)
qed

end
