(* ===== verification/Version_Store.thy ===== *)
theory Version_Store
  imports Version_Model
begin

text \<open>
  The in-memory commit store, crates/context-db-testkit/src/version.rs: state, commits,
  branches, tags, history reading. Each operation runs atomically on the record of the
  store's maps and returns its result with the new state. The identity an operation draws
  from \<open>CommitId::new()\<close> and the clock reading are arguments.
\<close>

section \<open>State and environment\<close>

type_synonym snapshot = "(string, string) hmap" \<comment> \<open>uri text to serialized entry\<close>

record vstore =
  commits :: "(commit_id, commit) hmap"
  entry_snapshots :: "(commit_id, snapshot) hmap"
  branches :: "(string \<times> string, branch) hmap"
  tags :: "(string \<times> string, tag) hmap"
  heads :: "(string, commit_id) hmap"
  attached_branches :: "(string, branch_name) hmap"
  analysis_config :: version_analysis_config

text \<open>What the store takes from other crates: the text forms of uuid and chrono, the JSON
  codec of entries, the debug text of a trigger.\<close>

record version_env =
  uuid_display :: "uuid \<Rightarrow> string"
  datetime_display :: "datetime \<Rightarrow> string"
  trigger_debug :: "commit_trigger \<Rightarrow> string"
  entry_to_json :: "context_entry \<Rightarrow> string + string"
  entry_of_json :: "string \<Rightarrow> string + context_entry"
  parse_datetime :: "string \<Rightarrow> datetime option"

type_synonym 'a vresult = "(version_error + 'a) \<times> vstore"

definition show_id :: "version_env \<Rightarrow> commit_id \<Rightarrow> string" where
  "show_id env c = uuid_display env (uuid_of c)"

definition debug_id :: "version_env \<Rightarrow> commit_id \<Rightarrow> string" where
  "debug_id env c = ''CommitId('' @ show_id env c @ '')''"

definition vstore_new :: "version_analysis_config \<Rightarrow> version_error + vstore" where
  "vstore_new config =
     (case validate_analysis_config config of
        Inl e \<Rightarrow> Inl e
      | Inr _ \<Rightarrow> Inr \<lparr>commits = [], entry_snapshots = [], branches = [], tags = [], heads = [],
                    attached_branches = [], analysis_config = config\<rparr>)"

definition head_of :: "vstore \<Rightarrow> string \<Rightarrow> commit_id option" where
  "head_of s scope = hget (heads s) scope"

definition set_head :: "string \<Rightarrow> commit_id \<Rightarrow> vstore \<Rightarrow> vstore" where
  "set_head scope c s = s\<lparr>heads := hput scope c (heads s)\<rparr>"

definition scope_key :: "context_uri \<Rightarrow> string" where
  "scope_key scope = u_canonical scope"

text \<open>\<open>get(..).cloned().unwrap_or_default()\<close> on the snapshots.\<close>

definition snapshot_at :: "vstore \<Rightarrow> commit_id \<Rightarrow> snapshot" where
  "snapshot_at s c = (case hget (entry_snapshots s) c of Some m \<Rightarrow> m | None \<Rightarrow> [])"

text \<open>Storing a new commit with its snapshot.\<close>

definition store_commit :: "commit \<Rightarrow> snapshot \<Rightarrow> vstore \<Rightarrow> vstore" where
  "store_commit c snap s =
     s\<lparr>commits := hput (c_id c) c (commits s),
       entry_snapshots := hput (c_id c) snap (entry_snapshots s)\<rparr>"

definition system_author :: "bool \<Rightarrow> author" where
  "system_author sys = \<lparr>agent_id = None, user_id = None, system = sys\<rparr>"

section \<open>Commits\<close>

definition commit_record ::
    "version_env \<Rightarrow> commit_id \<Rightarrow> commit_id list \<Rightarrow> datetime \<Rightarrow> commit_meta \<Rightarrow> commit" where
  "commit_record env cid par now meta =
     \<lparr>c_id = cid, c_parents = par, c_tree_hash = ContentHash (''tree-'' @ show_id env cid),
      c_author = system_author (cm_trigger meta = AutoConsolidation),
      c_message = trigger_debug env (cm_trigger meta), c_timestamp = now, c_metadata = meta\<rparr>"

definition commit_on_parent ::
    "version_env \<Rightarrow> uuid \<Rightarrow> datetime \<Rightarrow> commit_id \<Rightarrow> commit_meta \<Rightarrow> vstore \<Rightarrow> commit_id \<times> vstore"
where
  "commit_on_parent env fresh now par meta s =
     (let cid = CommitId fresh
      in (cid, store_commit (commit_record env cid [par] now meta) (snapshot_at s par) s))"

text \<open>\<open>unwrap_or_default\<close>: an entry that does not serialize is stored as the empty text.\<close>

definition put_entry_version ::
    "version_env \<Rightarrow> commit_id \<Rightarrow> context_uri \<Rightarrow> context_entry \<Rightarrow> vstore \<Rightarrow> vstore" where
  "put_entry_version env c uri entry s =
     (let txt = (case entry_to_json env entry of Inl _ \<Rightarrow> [] | Inr j \<Rightarrow> j)
      in s\<lparr>entry_snapshots :=
             hput c (hput (u_canonical uri) txt (snapshot_at s c)) (entry_snapshots s)\<rparr>)"

fun apply_adds ::
    "version_env \<Rightarrow> context_entry list \<Rightarrow> snapshot \<Rightarrow> version_error + snapshot" where
  "apply_adds env [] snap = Inr snap"
| "apply_adds env (e # es) snap =
     (case entry_to_json env e of
        Inl err \<Rightarrow> Inl (VStorage (''serialize added entry: '' @ err))
      | Inr j \<Rightarrow> apply_adds env es (hput (u_canonical (e_uri e)) j snap))"

fun apply_updates ::
    "version_env \<Rightarrow> uri_change list \<Rightarrow> snapshot \<Rightarrow> version_error + snapshot" where
  "apply_updates env [] snap = Inr snap"
| "apply_updates env (upd # us) snap =
     (if uc_uri upd \<noteq> e_uri (uc_entry upd)
      then Inl (VStorage (''update URI '' @ u_canonical (uc_uri upd)
                 @ '' does not match entry URI '' @ u_canonical (e_uri (uc_entry upd))))
      else case entry_to_json env (uc_entry upd) of
             Inl err \<Rightarrow> Inl (VStorage (''serialize updated entry: '' @ err))
           | Inr j \<Rightarrow> apply_updates env us (hput (u_canonical (uc_uri upd)) j snap))"

definition apply_deletes :: "context_uri list \<Rightarrow> snapshot \<Rightarrow> snapshot" where
  "apply_deletes dels snap = fold (\<lambda>d. hdel (u_canonical d)) dels snap"

definition apply_rename :: "rename_op \<Rightarrow> snapshot \<Rightarrow> snapshot" where
  "apply_rename r snap =
     (case hget snap (u_canonical (rn_from r)) of
        Some v \<Rightarrow> hput (u_canonical (rn_to r)) v (hdel (u_canonical (rn_from r)) snap)
      | None \<Rightarrow> snap)"

definition apply_changes ::
    "version_env \<Rightarrow> change_set \<Rightarrow> snapshot \<Rightarrow> version_error + snapshot" where
  "apply_changes env ch snap =
     (case apply_adds env (cs_adds ch) snap of
        Inl e \<Rightarrow> Inl e
      | Inr snap1 \<Rightarrow>
          (case apply_updates env (cs_updates ch) snap1 of
             Inl e \<Rightarrow> Inl e
           | Inr snap2 \<Rightarrow> Inr (fold apply_rename (cs_renames ch) (apply_deletes (cs_deletes ch) snap2))))"

text \<open>Only the branch that is checked out moves with the commit.\<close>

definition first_parent :: "commit \<Rightarrow> commit_id option" where
  "first_parent c = (case c_parents c of p # _ \<Rightarrow> Some p | [] \<Rightarrow> None)"

definition advance_attached ::
    "string \<Rightarrow> commit_id list \<Rightarrow> commit_id \<Rightarrow> vstore \<Rightarrow> version_error + vstore" where
  "advance_attached scope par cid s =
     (case hget (attached_branches s) scope of
        None \<Rightarrow> Inr s
      | Some attached \<Rightarrow>
          (let key = (scope, branch_str attached)
           in case hget (branches s) key of
                None \<Rightarrow> Inl (VNotFound (''attached branch '' @ branch_str attached))
              | Some b \<Rightarrow>
                  (if (case par of [] \<Rightarrow> None | p # _ \<Rightarrow> Some p) \<noteq> Some (b_head b)
                   then Inl (VStorage (''HEAD and attached branch '' @ branch_str attached
                          @ '' diverged''))
                   else Inr (s\<lparr>branches := hput key (b\<lparr>b_head := cid\<rparr>) (branches s)\<rparr>))))"

definition make_commit ::
    "version_env \<Rightarrow> uuid \<Rightarrow> datetime \<Rightarrow> context_uri \<Rightarrow> change_set \<Rightarrow> commit_meta \<Rightarrow> vstore
     \<Rightarrow> commit_id vresult" where
  "make_commit env fresh now scope ch meta s =
     (let skey = scope_key scope;
          par = (case head_of s skey of Some h \<Rightarrow> [h] | None \<Rightarrow> []);
          cid = CommitId fresh;
          base = (case par of p # _ \<Rightarrow> snapshot_at s p | [] \<Rightarrow> [])
      in case apply_changes env ch base of
           Inl e \<Rightarrow> (Inl e, s)
         | Inr snap \<Rightarrow>
             (case advance_attached skey par cid s of
                Inl e \<Rightarrow> (Inl e, s)
              | Inr s1 \<Rightarrow>
                  (Inr cid,
                   set_head skey cid
                     (store_commit (commit_record env cid par now meta) snap s1))))"

section \<open>Branches and tags\<close>

definition create_branch ::
    "version_env \<Rightarrow> datetime \<Rightarrow> context_uri \<Rightarrow> branch_name \<Rightarrow> commit_id \<Rightarrow> branch_type \<Rightarrow> vstore
     \<Rightarrow> branch vresult" where
  "create_branch env now scope name from bt s =
     (let key = (scope_key scope, branch_str name)
      in if hhas (branches s) key then (Inl (BranchExists (branch_str name)), s)
         else if \<not> hhas (commits s) from then (Inl (VNotFound (''commit '' @ show_id env from)), s)
         else
           let b = \<lparr>b_name = name, b_head = from, b_created_from = from, b_created_at = now,
                    b_branch_type = bt, b_lifecycle = Active\<rparr>
           in (Inr b, s\<lparr>branches := hput key b (branches s)\<rparr>))"

definition list_branches :: "context_uri \<Rightarrow> vstore \<Rightarrow> branch list" where
  "list_branches scope s = map snd (filter (\<lambda>((sc, _), _). sc = scope_key scope) (branches s))"

definition delete_branch :: "context_uri \<Rightarrow> branch_name \<Rightarrow> vstore \<Rightarrow> unit vresult" where
  "delete_branch scope name s =
     (let key = (scope_key scope, branch_str name)
      in case hget (branches s) key of
           None \<Rightarrow> (Inl (VNotFound (''branch '' @ branch_str name)), s)
         | Some _ \<Rightarrow> (Inr (), s\<lparr>branches := hdel key (branches s)\<rparr>))"

definition create_tag :: "context_uri \<Rightarrow> tag \<Rightarrow> vstore \<Rightarrow> unit vresult" where
  "create_tag scope t s =
     (Inr (), s\<lparr>tags := hput (scope_key scope, tag_str (t_name t)) t (tags s)\<rparr>)"

definition list_tags :: "context_uri \<Rightarrow> vstore \<Rightarrow> tag list" where
  "list_tags scope s = map snd (filter (\<lambda>((sc, _), _). sc = scope_key scope) (tags s))"

definition switch_head :: "context_uri \<Rightarrow> branch_name \<Rightarrow> vstore \<Rightarrow> unit vresult" where
  "switch_head scope name s =
     (let skey = scope_key scope
      in case hget (branches s) (skey, branch_str name) of
           None \<Rightarrow> (Inl (VNotFound (''branch '' @ branch_str name)), s)
         | Some b \<Rightarrow>
             (Inr (), (set_head skey (b_head b) s)
                \<lparr>attached_branches := hput skey name (attached_branches s)\<rparr>))"

section \<open>History\<close>

fun log_walk :: "(commit_id, commit) hmap \<Rightarrow> nat \<Rightarrow> commit_id \<Rightarrow> commit list" where
  "log_walk cs 0 cur = []"
| "log_walk cs (Suc n) cur =
     (case hget cs cur of
        None \<Rightarrow> []
      | Some c \<Rightarrow> c # (case c_parents c of [] \<Rightarrow> [] | p # _ \<Rightarrow> log_walk cs n p))"

text \<open>A missing start is \<open>unwrap_or_default()\<close>, which draws a new random identity \<open>fresh\<close>.\<close>

definition store_log :: "uuid \<Rightarrow> context_uri \<Rightarrow> log_opts \<Rightarrow> vstore \<Rightarrow> commit list" where
  "store_log fresh scope opts s =
     (let skey = scope_key scope;
          start =
            (case lo_branch opts of
               Some name \<Rightarrow>
                 (case hget (branches s) (skey, branch_str name) of
                    Some b \<Rightarrow> b_head b | None \<Rightarrow> CommitId fresh)
             | None \<Rightarrow> (case head_of s skey of Some h \<Rightarrow> h | None \<Rightarrow> CommitId fresh));
          max = (case lo_max_count opts of Some n \<Rightarrow> n | None \<Rightarrow> 20)
      in log_walk (commits s) max start)"

text \<open>The candidate scopes of an address for the head reference, longest first.\<close>

definition head_candidates :: "string \<Rightarrow> string list" where
  "head_candidates uri_str =
     (let segs = split_on CHR ''/'' uri_str
      in map (\<lambda>i. join ''/'' (take i segs)) (rev [2..<Suc (length segs)]))"

fun first_head :: "vstore \<Rightarrow> string list \<Rightarrow> commit_id option" where
  "first_head s [] = None"
| "first_head s (c # cs) = (case head_of s c of Some h \<Rightarrow> Some h | None \<Rightarrow> first_head s cs)"

definition at_level :: "content_level \<Rightarrow> context_entry \<Rightarrow> content_payload" where
  "at_level level entry =
     (case level of
        L0 \<Rightarrow> Text (l0_text entry) (l0_text entry) (l0_text entry)
      | L1 \<Rightarrow>
          (let dense = (case e_payload entry of Text _ d _ \<Rightarrow> d | _ \<Rightarrow> [])
           in Text (l0_text entry) dense dense)
      | L2 \<Rightarrow> e_payload entry)"

definition read_commit ::
    "version_env \<Rightarrow> context_uri \<Rightarrow> commit_id \<Rightarrow> content_level \<Rightarrow> vstore \<Rightarrow> version_error + content_payload"
where
  "read_commit env uri cid level s =
     (case Option.bind (hget (entry_snapshots s) cid) (\<lambda>snap. hget snap (u_canonical uri)) of
        Some txt \<Rightarrow>
          (case entry_of_json env txt of
             Inl e \<Rightarrow> Inl (VStorage (''deserialize entry: '' @ e))
           | Inr entry \<Rightarrow> Inr (at_level level entry))
      | None \<Rightarrow> Inl (VNotFound (''uri '' @ u_canonical uri @ '' not found at commit '' @ debug_id env cid)))"

definition unsupported_ref :: "string \<Rightarrow> version_error" where
  "unsupported_ref d = VNotFound (''unsupported VersionRef for read_at: '' @ d)"

definition read_at ::
    "version_env \<Rightarrow> context_uri \<Rightarrow> version_ref \<Rightarrow> content_level \<Rightarrow> vstore \<Rightarrow> version_error + content_payload"
where
  "read_at env uri r level s =
     (case r of
        RefCommit cid \<Rightarrow> read_commit env uri cid level s
      | RefHead \<Rightarrow>
          (case first_head s (head_candidates (u_canonical uri)) of
             Some cid \<Rightarrow> read_commit env uri cid level s
           | None \<Rightarrow> Inl (VNotFound (''Head ref could not resolve from uri: '' @ u_canonical uri)))
      | RefBranch b \<Rightarrow> Inl (unsupported_ref (''Branch(BranchName('' @ [CHR 0x22] @ branch_str b
                              @ [CHR 0x22] @ ''))''))
      | RefTag t \<Rightarrow> Inl (unsupported_ref (''Tag(TagName('' @ [CHR 0x22] @ tag_str t
                              @ [CHR 0x22] @ ''))'')))"

text \<open>The scan over the commits in iteration order keeps the first of the latest.\<close>

definition better_commit ::
    "datetime \<Rightarrow> commit_id \<times> commit \<Rightarrow> (datetime \<times> commit_id) option \<Rightarrow> (datetime \<times> commit_id) option"
where
  "better_commit ts = (\<lambda>(cid, c) best.
     if c_timestamp c \<le> ts \<and> (case best of None \<Rightarrow> True | Some (t, _) \<Rightarrow> t < c_timestamp c)
     then Some (c_timestamp c, cid) else best)"

definition asof_read ::
    "version_env \<Rightarrow> context_uri \<Rightarrow> as_of_point \<Rightarrow> content_level \<Rightarrow> vstore \<Rightarrow> version_error + content_payload"
where
  "asof_read env uri at level s =
     (case at of
        AtCommit cid \<Rightarrow> read_at env uri (RefCommit cid) level s
      | AtTimestamp ts \<Rightarrow>
          (case map_option snd (fold (better_commit ts) (commits s) None) of
             Some cid \<Rightarrow> read_at env uri (RefCommit cid) level s
           | None \<Rightarrow> Inl (VNotFound (''no commit before '' @ datetime_display env ts))))"

end
