(* ===== verification/Rust_Slices.thy ===== *)
theory Rust_Slices
  imports Prelude
begin

text \<open>
  The searches of the Rust standard library on sorted slices, in the branch-free form the
  library has since 1.82: \<open>binary_search_by\<close> keeps a base and a len and halves the len.
\<close>

datatype ordering = Less | Equal | Greater

fun ord_rank :: "ordering \<Rightarrow> nat" where
  "ord_rank Less = 0"
| "ord_rank Equal = 1"
| "ord_rank Greater = 2"

definition cmp_of :: "'a::linorder \<Rightarrow> 'a \<Rightarrow> ordering" where
  "cmp_of a b = (if a < b then Less else if a = b then Equal else Greater)"

lemma cmp_of_iff [simp]:
  "cmp_of a b = Less \<longleftrightarrow> a < b" "cmp_of a b = Equal \<longleftrightarrow> a = b" "cmp_of a b = Greater \<longleftrightarrow> b < a"
  by (auto simp: cmp_of_def)

function bs_loop :: "('a \<Rightarrow> ordering) \<Rightarrow> 'a list \<Rightarrow> nat \<Rightarrow> nat \<Rightarrow> nat" where
  "bs_loop cmp xs base len =
     (if 1 < len then
        let half = len div 2; mid = base + half
        in bs_loop cmp xs (if cmp (xs ! mid) = Greater then base else mid) (len - half)
      else base)"
  by pat_completeness auto
termination
  by (relation "measure (\<lambda>(cmp, xs, base, len). len)") auto

declare bs_loop.simps [simp del]

text \<open>\<open>Inr i\<close> is \<open>Ok(i)\<close>, a match; \<open>Inl i\<close> is \<open>Err(i)\<close>, the insertion point.\<close>

definition binary_search_by :: "('a \<Rightarrow> ordering) \<Rightarrow> 'a list \<Rightarrow> nat + nat" where
  "binary_search_by cmp xs =
     (if xs = [] then Inl 0
      else
        let b = bs_loop cmp xs 0 (length xs)
        in case cmp (xs ! b) of Equal \<Rightarrow> Inr b | Less \<Rightarrow> Inl (b + 1) | Greater \<Rightarrow> Inl b)"

definition partition_point :: "('a \<Rightarrow> bool) \<Rightarrow> 'a list \<Rightarrow> nat" where
  "partition_point pred xs =
     (case binary_search_by (\<lambda>x. if pred x then Less else Greater) xs of Inl i \<Rightarrow> i | Inr i \<Rightarrow> i)"

definition ordered_by :: "('a \<Rightarrow> ordering) \<Rightarrow> 'a list \<Rightarrow> bool" where
  "ordered_by cmp xs = sorted (map (\<lambda>x. ord_rank (cmp x)) xs)"

lemma ordered_byD:
  "ordered_by cmp xs \<Longrightarrow> i \<le> j \<Longrightarrow> j < length xs \<Longrightarrow> ord_rank (cmp (xs ! i)) \<le> ord_rank (cmp (xs ! j))"
  by (auto simp: ordered_by_def sorted_iff_nth_mono)

lemma bs_loop_inv:
  assumes "ordered_by cmp xs" "0 < len" "base + len \<le> length xs"
    "base = 0 \<or> cmp (xs ! base) \<noteq> Greater"
    "\<And>i. base + len \<le> i \<Longrightarrow> i < length xs \<Longrightarrow> cmp (xs ! i) = Greater"
  shows "bs_loop cmp xs base len < length xs
    \<and> (bs_loop cmp xs base len = 0 \<or> cmp (xs ! bs_loop cmp xs base len) \<noteq> Greater)
    \<and> (\<forall>i. bs_loop cmp xs base len < i \<and> i < length xs \<longrightarrow> cmp (xs ! i) = Greater)"
  using assms
proof (induction cmp xs base len rule: bs_loop.induct)
  case (1 cmp xs base len)
  show ?case
  proof (cases "1 < len")
    case False
    then have "len = 1" using 1(3) by simp
    moreover have "bs_loop cmp xs base len = base"
      using False by (simp add: bs_loop.simps [of cmp xs base len])
    ultimately show ?thesis using 1(4,5,6) by auto
  next
    case True
    let ?half = "len div 2"
    let ?mid = "base + ?half"
    have mid: "?mid < length xs" "0 < ?half" "?half < len" using True 1(4) by auto
    have above: "cmp (xs ! i) = Greater"
      if "cmp (xs ! ?mid) = Greater" "?mid \<le> i" "i < length xs" for i
      using ordered_byD [OF 1(2) that(2,3)] that(1) by (cases "cmp (xs ! i)") auto
    let ?base = "if cmp (xs ! ?mid) = Greater then base else ?mid"
    have eq: "bs_loop cmp xs base len = bs_loop cmp xs ?base (len - ?half)"
      using True by (simp add: bs_loop.simps [of cmp xs base len] Let_def)
    show ?thesis
      unfolding eq
    proof (rule 1(1) [OF True refl refl 1(2)])
      show "0 < len - ?half" "?base + (len - ?half) \<le> length xs"
        using mid 1(4) by auto
      show "?base = 0 \<or> cmp (xs ! ?base) \<noteq> Greater" using 1(5) by auto
      show "cmp (xs ! i) = Greater" if "?base + (len - ?half) \<le> i" "i < length xs" for i
      proof (cases "cmp (xs ! ?mid) = Greater")
        case True
        then show ?thesis using above that mid by auto
      next
        case False
        then show ?thesis using that 1(6) mid by simp
      qed
    qed
  qed
qed

text \<open>The documented contract of the search: a match is a match, an insertion point separates
  the smaller from the larger elements.\<close>

theorem binary_search_spec:
  assumes "ordered_by cmp xs"
  shows "case binary_search_by cmp xs of
      Inr i \<Rightarrow> i < length xs \<and> cmp (xs ! i) = Equal
    | Inl i \<Rightarrow> i \<le> length xs \<and> (\<forall>j<i. cmp (xs ! j) = Less)
        \<and> (\<forall>j. i \<le> j \<and> j < length xs \<longrightarrow> cmp (xs ! j) = Greater)"
proof (cases "xs = []")
  case False
  let ?b = "bs_loop cmp xs 0 (length xs)"
  have b: "?b < length xs" "?b = 0 \<or> cmp (xs ! ?b) \<noteq> Greater"
    "\<And>i. ?b < i \<Longrightarrow> i < length xs \<Longrightarrow> cmp (xs ! i) = Greater"
    using bs_loop_inv [OF assms, of "length xs" 0] False by auto
  have below: "cmp (xs ! j) = Less" if "cmp (xs ! ?b) = Less" "j \<le> ?b" for j
    using ordered_byD [OF assms that(2) b(1)] that(1) by (cases "cmp (xs ! j)") auto
  show ?thesis
  proof (cases "cmp (xs ! ?b)")
    case Less
    then show ?thesis using False b below
      by (auto simp: binary_search_by_def Let_def)
  next
    case Greater
    then have "?b = 0" using b(2) by simp
    with Greater False b(3) show ?thesis
      by (auto simp: binary_search_by_def Let_def) (metis Greater neq0_conv)
  qed (use False b in \<open>auto simp: binary_search_by_def Let_def\<close>)
qed (simp add: binary_search_by_def)

lemma partition_point_takeWhile:
  assumes "\<And>i j. i \<le> j \<Longrightarrow> j < length xs \<Longrightarrow> pred (xs ! j) \<Longrightarrow> pred (xs ! i)"
  shows "partition_point pred xs = length (takeWhile pred xs)"
proof -
  let ?cmp = "\<lambda>x. if pred x then Less else Greater"
  have "ordered_by ?cmp xs"
    unfolding ordered_by_def sorted_iff_nth_mono using assms by auto
  from binary_search_spec [OF this] obtain i where
    i: "binary_search_by ?cmp xs = Inl i" "i \<le> length xs"
      "\<And>j. j < i \<Longrightarrow> pred (xs ! j)" "\<And>j. i \<le> j \<Longrightarrow> j < length xs \<Longrightarrow> \<not> pred (xs ! j)"
    by (auto split: sum.splits if_splits)
  have "takeWhile pred xs = take i xs"
    using i(3,4) by (intro takeWhile_eq_take_P_nth) auto
  then have "length (takeWhile pred xs) = i" using i(2) by simp
  with i(1) show ?thesis by (simp add: partition_point_def)
qed

end
