(* ===== verification/Temporal_Index.thy ===== *)
theory Temporal_Index
  imports Version_Model Rust_Slices "HOL-Library.Multiset"
begin

text \<open>
  The bitemporal index of crates/context-db-version/src/model.rs: per address a timeline of
  versions ordered by transaction time, with valid-time intervals. Queries find positions
  by binary search.
\<close>

record temporal_version =
  tv_commit_id :: commit_id
  tv_timestamp :: datetime
  tv_content_hash :: content_hash
  tv_valid_from :: datetime
  tv_valid_until :: "datetime option"

record bitemporal_query =
  bq_valid_at :: datetime
  bq_transaction_at :: datetime

record bitemporal_range =
  br_valid_from :: datetime
  br_valid_to :: datetime
  br_transaction_from :: datetime
  br_transaction_to :: datetime

definition tv_valid_at :: "temporal_version \<Rightarrow> datetime \<Rightarrow> bool" where
  "tv_valid_at v at =
     (tv_valid_from v \<le> at \<and> (case tv_valid_until v of None \<Rightarrow> True | Some until \<Rightarrow> at < until))"

definition valid_overlaps :: "temporal_version \<Rightarrow> datetime \<Rightarrow> datetime \<Rightarrow> bool" where
  "valid_overlaps v from to =
     (tv_valid_from v \<le> to \<and> (case tv_valid_until v of None \<Rightarrow> True | Some until \<Rightarrow> from \<le> until))"

type_synonym temporal_index = "(string, temporal_version list) hmap"

definition timeline :: "temporal_index \<Rightarrow> context_uri \<Rightarrow> temporal_version list" where
  "timeline idx uri = (case hget idx (u_canonical uri) of Some t \<Rightarrow> t | None \<Rightarrow> [])"

definition insert_at :: "nat \<Rightarrow> 'a \<Rightarrow> 'a list \<Rightarrow> 'a list" where
  "insert_at i x xs = take i xs @ x # drop i xs"

definition record_version ::
    "context_uri \<Rightarrow> temporal_version \<Rightarrow> temporal_index \<Rightarrow> temporal_index" where
  "record_version uri v idx =
     (let key = u_canonical uri;
          vs = (case hget idx key of Some t \<Rightarrow> t | None \<Rightarrow> []);
          pos = (case binary_search_by (\<lambda>w. cmp_of (tv_timestamp w) (tv_timestamp v)) vs of
                   Inr i \<Rightarrow> i | Inl i \<Rightarrow> i)
      in hput key (insert_at pos v vs) idx)"

definition transaction_as_of ::
    "temporal_index \<Rightarrow> context_uri \<Rightarrow> datetime \<Rightarrow> temporal_version option" where
  "transaction_as_of idx uri at =
     (case hget idx (u_canonical uri) of
        None \<Rightarrow> None
      | Some vs \<Rightarrow>
          (let pos = partition_point (\<lambda>v. tv_timestamp v \<le> at) vs
           in if pos = 0 then None
              else if pos - 1 < length vs then Some (vs ! (pos - 1)) else None))"

definition index_as_of ::
    "temporal_index \<Rightarrow> context_uri \<Rightarrow> datetime \<Rightarrow> temporal_version option" where
  "index_as_of idx uri at = transaction_as_of idx uri at"

definition bitemporal_as_of ::
    "temporal_index \<Rightarrow> context_uri \<Rightarrow> bitemporal_query \<Rightarrow> temporal_version option" where
  "bitemporal_as_of idx uri q =
     (case hget idx (u_canonical uri) of
        None \<Rightarrow> None
      | Some vs \<Rightarrow>
          (let pos = partition_point (\<lambda>v. tv_timestamp v \<le> bq_transaction_at q) vs
           in find (\<lambda>v. tv_valid_at v (bq_valid_at q)) (rev (take pos vs))))"

definition between ::
    "temporal_index \<Rightarrow> context_uri \<Rightarrow> datetime \<Rightarrow> datetime \<Rightarrow> temporal_version list" where
  "between idx uri from to =
     (case hget idx (u_canonical uri) of
        None \<Rightarrow> []
      | Some vs \<Rightarrow> filter (\<lambda>v. from \<le> tv_timestamp v \<and> tv_timestamp v \<le> to) vs)"

definition bitemporal_between ::
    "temporal_index \<Rightarrow> context_uri \<Rightarrow> bitemporal_range \<Rightarrow> temporal_version list" where
  "bitemporal_between idx uri r =
     (case hget idx (u_canonical uri) of
        None \<Rightarrow> []
      | Some vs \<Rightarrow>
          (let start = partition_point (\<lambda>v. tv_timestamp v < br_transaction_from r) vs
           in filter (\<lambda>v. valid_overlaps v (br_valid_from r) (br_valid_to r))
                (takeWhile (\<lambda>v. tv_timestamp v \<le> br_transaction_to r) (drop start vs))))"

definition index_evolution :: "temporal_index \<Rightarrow> context_uri \<Rightarrow> temporal_version list" where
  "index_evolution idx uri =
     (case hget idx (u_canonical uri) of Some t \<Rightarrow> t | None \<Rightarrow> [])"

section \<open>Timelines stay sorted\<close>

definition timeline_sorted :: "temporal_version list \<Rightarrow> bool" where
  "timeline_sorted vs = sorted (map tv_timestamp vs)"

definition index_wf :: "temporal_index \<Rightarrow> bool" where
  "index_wf idx = (\<forall>k vs. hget idx k = Some vs \<longrightarrow> timeline_sorted vs)"

lemma timeline_sortedD:
  "timeline_sorted vs \<Longrightarrow> i \<le> j \<Longrightarrow> j < length vs \<Longrightarrow> tv_timestamp (vs ! i) \<le> tv_timestamp (vs ! j)"
  by (auto simp: timeline_sorted_def sorted_iff_nth_mono)

lemma timeline_sorted_append:
  "timeline_sorted (xs @ ys) \<longleftrightarrow> timeline_sorted xs \<and> timeline_sorted ys
     \<and> (\<forall>x\<in>set xs. \<forall>y\<in>set ys. tv_timestamp x \<le> tv_timestamp y)"
  by (auto simp: timeline_sorted_def sorted_append)

lemma timeline_sorted_Cons:
  "timeline_sorted (x # xs) \<longleftrightarrow> (\<forall>y\<in>set xs. tv_timestamp x \<le> tv_timestamp y) \<and> timeline_sorted xs"
  by (auto simp: timeline_sorted_def)

lemma ordered_by_timestamp:
  assumes "timeline_sorted vs"
  shows "ordered_by (\<lambda>w. cmp_of (tv_timestamp w) t) vs"
  unfolding ordered_by_def sorted_iff_nth_mono
proof (intro allI impI)
  fix i j
  assume ij: "i \<le> j" "j < length (map (\<lambda>w. ord_rank (cmp_of (tv_timestamp w) t)) vs)"
  then have "tv_timestamp (vs ! i) \<le> tv_timestamp (vs ! j)"
    using timeline_sortedD [OF assms] by simp
  with ij show "map (\<lambda>w. ord_rank (cmp_of (tv_timestamp w) t)) vs ! i
      \<le> map (\<lambda>w. ord_rank (cmp_of (tv_timestamp w) t)) vs ! j"
    by (auto simp: cmp_of_def)
qed

lemma insert_position:
  assumes "timeline_sorted vs"
    and pos: "pos = (case binary_search_by (\<lambda>w. cmp_of (tv_timestamp w) t) vs of
      Inr i \<Rightarrow> i | Inl i \<Rightarrow> i)"
  shows "(\<forall>x\<in>set (take pos vs). tv_timestamp x \<le> t) \<and> (\<forall>x\<in>set (drop pos vs). t \<le> tv_timestamp x)"
proof (cases "binary_search_by (\<lambda>w. cmp_of (tv_timestamp w) t) vs")
  case (Inl i)
  with binary_search_spec [OF ordered_by_timestamp [OF assms(1)], of t] pos
  have "pos = i" "i \<le> length vs" "\<And>j. j < i \<Longrightarrow> tv_timestamp (vs ! j) < t"
    "\<And>j. i \<le> j \<Longrightarrow> j < length vs \<Longrightarrow> t < tv_timestamp (vs ! j)"
    by auto
  then show ?thesis by (auto simp: all_set_conv_all_nth less_imp_le)
next
  case (Inr i)
  with binary_search_spec [OF ordered_by_timestamp [OF assms(1)], of t] pos
  have "pos = i" "i < length vs" "tv_timestamp (vs ! i) = t"
    by auto
  moreover from this have "\<And>j. j < i \<Longrightarrow> tv_timestamp (vs ! j) \<le> t"
    "\<And>j. i \<le> j \<Longrightarrow> j < length vs \<Longrightarrow> t \<le> tv_timestamp (vs ! j)"
    using timeline_sortedD [OF assms(1)] by (metis less_imp_le, metis)
  ultimately show ?thesis by (simp add: all_set_conv_all_nth)
qed

lemma insert_at_sorted:
  assumes "timeline_sorted vs" "\<forall>x\<in>set (take pos vs). tv_timestamp x \<le> tv_timestamp v"
    "\<forall>x\<in>set (drop pos vs). tv_timestamp v \<le> tv_timestamp x"
  shows "timeline_sorted (insert_at pos v vs)"
proof -
  have "timeline_sorted (take pos vs @ drop pos vs)" using assms(1) by simp
  with assms show ?thesis
    unfolding insert_at_def timeline_sorted_append timeline_sorted_Cons by fastforce
qed

lemma record_version_wf:
  assumes "index_wf idx"
  shows "index_wf (record_version uri v idx)"
proof -
  let ?vs = "case hget idx (u_canonical uri) of Some t \<Rightarrow> t | None \<Rightarrow> []"
  have "timeline_sorted ?vs"
    using assms by (auto simp: index_wf_def timeline_sorted_def split: option.split)
  from insert_at_sorted [OF this] insert_position [OF this refl, of "tv_timestamp v"] assms
  show ?thesis by (auto simp: record_version_def index_wf_def Let_def hget_hput)
qed

lemma partition_timestamp:
  assumes "timeline_sorted vs"
  shows "partition_point (\<lambda>v. tv_timestamp v \<le> t) vs = length (takeWhile (\<lambda>v. tv_timestamp v \<le> t) vs)"
    "partition_point (\<lambda>v. tv_timestamp v < t) vs = length (takeWhile (\<lambda>v. tv_timestamp v < t) vs)"
  by (rule partition_point_takeWhile, use timeline_sortedD [OF assms] in force)+

lemma takeWhile_sorted:
  assumes "timeline_sorted vs"
  shows "takeWhile (\<lambda>v. tv_timestamp v \<le> t) vs = filter (\<lambda>v. tv_timestamp v \<le> t) vs"
    "dropWhile (\<lambda>v. tv_timestamp v < t) vs = filter (\<lambda>v. t \<le> tv_timestamp v) vs"
  using assms
  by (induction vs) (auto simp: timeline_sorted_Cons not_le intro!: filter_False [symmetric] filter_True [symmetric])


lemma find_rev_last:
  "find P (rev xs) = (if filter P xs = [] then None else Some (last (filter P xs)))"
  by (induction xs rule: rev_induct) auto

lemma partition_le: "timeline_sorted vs \<Longrightarrow> partition_point (\<lambda>v. tv_timestamp v \<le> t) vs \<le> length vs"
  by (simp add: partition_timestamp length_takeWhile_le)

lemma take_partition:
  "timeline_sorted vs \<Longrightarrow>
   take (partition_point (\<lambda>v. tv_timestamp v \<le> t) vs) vs = filter (\<lambda>v. tv_timestamp v \<le> t) vs"
  using takeWhile_sorted(1) partition_timestamp(1) takeWhile_eq_take by metis

section \<open>Properties\<close>

text \<open>Recording versions in any order keeps every timeline ordered by transaction time, adds
  exactly the recorded version to its own timeline and leaves the other timelines alone.\<close>

theorem record_keeps_order:
  assumes "index_wf idx"
  shows "index_wf (record_version uri v idx)
    \<and> mset (index_evolution (record_version uri v idx) uri) = add_mset v (mset (index_evolution idx uri))
    \<and> (u_canonical other \<noteq> u_canonical uri \<longrightarrow>
        index_evolution (record_version uri v idx) other = index_evolution idx other)"
proof -
  have "mset (insert_at pos v xs) = add_mset v (mset xs)" for pos and xs :: "temporal_version list"
    by (simp add: insert_at_def) (metis append_take_drop_id mset_append)
  then show ?thesis
    using record_version_wf [OF assms]
    by (auto simp: record_version_def index_evolution_def Let_def hget_hput split: option.split)
qed

theorem record_keeps_order_witness:
  "\<exists>u v. index_wf (record_version u (v (3::int)) (record_version u (v 5) []))
     \<and> map tv_timestamp (index_evolution (record_version u (v (3::int)) (record_version u (v 5) [])) u) = [3, 5]"
proof -
  let ?v = "\<lambda>t. \<lparr>tv_commit_id = CommitId 0, tv_timestamp = t, tv_content_hash = ContentHash [],
              tv_valid_from = 0, tv_valid_until = None\<rparr>"
  let ?u = "\<lparr>u_tenant = ''t'', u_path = [''t''], u_query = None, u_canonical = ''uwu://t''\<rparr>"
  have e: "index_wf []" by (simp add: index_wf_def)
  have "index_wf (record_version ?u (?v 5) [])"
    by (rule record_keeps_order [OF e, THEN conjunct1])
  from record_keeps_order [OF this, of ?u "?v 3", THEN conjunct1]
  have "index_wf (record_version ?u (?v 3) (record_version ?u (?v 5) []))" .
  moreover have "map tv_timestamp
      (index_evolution (record_version ?u (?v 3) (record_version ?u (?v 5) [])) ?u) = [3, 5]"
    by code_simp
  ultimately show ?thesis by (intro exI [of _ ?u] exI [of _ ?v] conjI)
qed

text \<open>On an ordered index the AS OF query answers with a version known at that transaction time
  after which no other one known at that time was recorded, and answers nothing exactly when no
  version was known; the bitemporal query does the same among the versions valid at the asked
  time.\<close>

theorem as_of_latest_known:
  assumes "index_wf idx"
  shows "index_as_of idx uri at =
      (let known = filter (\<lambda>v. tv_timestamp v \<le> at) (index_evolution idx uri)
       in if known = [] then None else Some (last known))
    \<and> bitemporal_as_of idx uri q =
      (let known = filter (\<lambda>v. tv_timestamp v \<le> bq_transaction_at q \<and> tv_valid_at v (bq_valid_at q))
                     (index_evolution idx uri)
       in if known = [] then None else Some (last known))"
proof (cases "hget idx (u_canonical uri)")
  case None
  then show ?thesis
    by (simp add: index_as_of_def transaction_as_of_def bitemporal_as_of_def index_evolution_def)
next
  case (Some vs)
  then have sorted: "timeline_sorted vs" using assms by (auto simp: index_wf_def)
  note pos = take_partition [OF sorted]
  have "vs ! (partition_point (\<lambda>v. tv_timestamp v \<le> at) vs - 1) = last (filter (\<lambda>v. tv_timestamp v \<le> at) vs)"
    if "partition_point (\<lambda>v. tv_timestamp v \<le> at) vs \<noteq> 0"
    using last_take [OF that partition_le [OF sorted]] pos [of at] by simp
  moreover have "partition_point (\<lambda>v. tv_timestamp v \<le> at) vs = 0 \<longleftrightarrow>
      filter (\<lambda>v. tv_timestamp v \<le> at) vs = []"
    using pos [of at] partition_le [OF sorted, of at] by (metis le_zero_eq list.size(3) take_eq_Nil)
  ultimately show ?thesis
    using Some pos partition_le [OF sorted, of at]
    by (auto simp: index_as_of_def transaction_as_of_def bitemporal_as_of_def index_evolution_def
        Let_def find_rev_last conj_commute)
qed


theorem as_of_latest_known_witness:
  "\<exists>idx u v. index_wf idx \<and> index_as_of idx u 4 = Some v \<and> tv_timestamp v = 3"
proof -
  let ?v = "\<lambda>t. \<lparr>tv_commit_id = CommitId 0, tv_timestamp = t, tv_content_hash = ContentHash [],
              tv_valid_from = 0, tv_valid_until = None\<rparr>"
  let ?u = "\<lparr>u_tenant = ''t'', u_path = [''t''], u_query = None, u_canonical = ''uwu://t''\<rparr>"
  have wf: "index_wf [(''uwu://t'', [?v 1, ?v 3, ?v 5])]"
    by (auto simp: index_wf_def hget_def timeline_sorted_def split: if_splits)
  have "index_as_of [(''uwu://t'', [?v 1, ?v 3, ?v 5])] ?u 4 = Some (?v 3)"
    using as_of_latest_known [OF wf, of ?u 4] by (simp add: index_evolution_def hget_def Let_def)
  with wf show ?thesis
    by (intro exI [of _ "[(''uwu://t'', [?v 1, ?v 3, ?v 5])]"] exI [of _ ?u] exI [of _ "?v 3"]) simp
qed

text \<open>On an ordered index the range query returns exactly the versions of the address whose
  transaction time lies in the window and whose validity meets the valid-time window, in
  transaction order.\<close>

theorem bitemporal_between_exact:
  assumes "index_wf idx"
  shows "bitemporal_between idx uri r =
    filter (\<lambda>v. br_transaction_from r \<le> tv_timestamp v \<and> tv_timestamp v \<le> br_transaction_to r
              \<and> valid_overlaps v (br_valid_from r) (br_valid_to r)) (index_evolution idx uri)"
proof (cases "hget idx (u_canonical uri)")
  case None
  then show ?thesis by (simp add: bitemporal_between_def index_evolution_def)
next
  case (Some vs)
  then have sorted: "timeline_sorted vs" using assms by (auto simp: index_wf_def)
  let ?from = "br_transaction_from r"
  have "drop (partition_point (\<lambda>v. tv_timestamp v < ?from) vs) vs = filter (\<lambda>v. ?from \<le> tv_timestamp v) vs"
    using takeWhile_sorted(2) [OF sorted] partition_timestamp(2) [OF sorted] dropWhile_eq_drop
    by metis
  moreover have "timeline_sorted (filter (\<lambda>v. ?from \<le> tv_timestamp v) vs)"
    using sorted by (simp add: timeline_sorted_def sorted_filter)
  ultimately show ?thesis
    using Some takeWhile_sorted(1)
    by (simp add: bitemporal_between_def index_evolution_def Let_def conj_commute conj_left_commute)
qed

theorem bitemporal_between_exact_witness:
  "\<exists>idx u r. index_wf idx \<and> map tv_timestamp (bitemporal_between idx u r) = [3]"
proof -
  let ?v = "\<lambda>t. \<lparr>tv_commit_id = CommitId 0, tv_timestamp = t, tv_content_hash = ContentHash [],
              tv_valid_from = t, tv_valid_until = None\<rparr>"
  let ?u = "\<lparr>u_tenant = ''t'', u_path = [''t''], u_query = None, u_canonical = ''uwu://t''\<rparr>"
  let ?r = "\<lparr>br_valid_from = 0, br_valid_to = 3, br_transaction_from = 2, br_transaction_to = 9\<rparr>"
  have wf: "index_wf [(''uwu://t'', [?v 1, ?v 3, ?v 5])]"
    by (auto simp: index_wf_def hget_def timeline_sorted_def split: if_splits)
  have "bitemporal_between [(''uwu://t'', [?v 1, ?v 3, ?v 5])] ?u ?r = [?v 3]"
    using bitemporal_between_exact [OF wf, of ?u ?r]
    by (simp add: index_evolution_def hget_def valid_overlaps_def)
  with wf show ?thesis
    by (intro exI [of _ "[(''uwu://t'', [?v 1, ?v 3, ?v 5])]"] exI [of _ ?u] exI [of _ ?r]) simp
qed

end
