(* ===== verification/Version_Merge.thy ===== *)
theory Version_Merge
  imports Version_Store Temporal_Index
begin

text \<open>
  The rewriting half of crates/context-db-testkit/src/version.rs: ancestry, merge bases,
  merging, diffs, cherry-pick, rebase, squash, garbage collection and the analyses.
\<close>

section \<open>Ancestry\<close>

definition parents_in :: "(commit_id, commit) hmap \<Rightarrow> commit_id \<Rightarrow> commit_id list" where
  "parents_in cs c = adjacent c_parents cs c"

text \<open>A stack has its top first; pushing a list puts its last element on top.\<close>

function is_ancestor_loop ::
    "(commit_id, commit) hmap \<Rightarrow> commit_id \<Rightarrow> commit_id list \<Rightarrow> commit_id list \<Rightarrow> bool" where
  "is_ancestor_loop cs anc visited [] = False"
| "is_ancestor_loop cs anc visited (x # stack) =
     (if x = anc then True
      else if x \<in> set visited then is_ancestor_loop cs anc visited stack
      else is_ancestor_loop cs anc (x # visited) (rev (parents_in cs x) @ stack))"
  by pat_completeness auto
termination
proof (relation "measures
    [\<lambda>(cs, anc, visited, stack). card (set (hkeys cs) - set visited),
     \<lambda>(cs, anc, visited, stack). length stack]", goal_cases)
  case (3 cs anc visited x stack)
  then show ?case
    using adj.visit_decreases [of x "set visited" cs c_parents] by (auto simp: parents_in_def)
qed auto

definition is_ancestor :: "vstore \<Rightarrow> commit_id \<Rightarrow> commit_id \<Rightarrow> bool" where
  "is_ancestor s ancestor candidate =
     (if ancestor = candidate then True else is_ancestor_loop (commits s) ancestor [] [candidate])"

function collect_ancestors ::
    "(commit_id, commit) hmap \<Rightarrow> commit_id list \<Rightarrow> commit_id list \<Rightarrow> commit_id list" where
  "collect_ancestors cs visited [] = visited"
| "collect_ancestors cs visited (x # stack) =
     (if x \<in> set visited then collect_ancestors cs visited stack
      else collect_ancestors cs (x # visited) (rev (parents_in cs x) @ stack))"
  by pat_completeness auto
termination
proof (relation "measures
    [\<lambda>(cs, visited, stack). card (set (hkeys cs) - set visited),
     \<lambda>(cs, visited, stack). length stack]", goal_cases)
  case (3 cs visited x stack)
  then show ?case
    using adj.visit_decreases [of x "set visited" cs c_parents] by (auto simp: parents_in_def)
qed auto

function first_common ::
    "(commit_id, commit) hmap \<Rightarrow> commit_id list \<Rightarrow> commit_id list \<Rightarrow> commit_id list \<Rightarrow> commit_id option"
where
  "first_common cs ancestors visited [] = None"
| "first_common cs ancestors visited (x # queue) =
     (if x \<in> set ancestors then Some x
      else if x \<in> set visited then first_common cs ancestors visited queue
      else first_common cs ancestors (x # visited) (queue @ parents_in cs x))"
  by pat_completeness auto
termination
proof (relation "measures
    [\<lambda>(cs, ancestors, visited, queue). card (set (hkeys cs) - set visited),
     \<lambda>(cs, ancestors, visited, queue). length queue]", goal_cases)
  case (3 cs ancestors visited x queue)
  then show ?case
    using adj.visit_decreases [of x "set visited" cs c_parents] by (auto simp: parents_in_def)
qed auto

definition merge_base :: "vstore \<Rightarrow> commit_id \<Rightarrow> commit_id \<Rightarrow> commit_id option" where
  "merge_base s a b = first_common (commits s) (collect_ancestors (commits s) [] [a]) [] [b]"

section \<open>Merging\<close>

definition put_opt :: "string \<Rightarrow> string option \<Rightarrow> snapshot \<Rightarrow> snapshot" where
  "put_opt k ov m = (case ov of Some v \<Rightarrow> hput k v m | None \<Rightarrow> hdel k m)"

text \<open>The loop over the keys of the three snapshots. The keys come from a hash set, in any
  order; \<open>merge_keys\<close> fixes one.\<close>

definition merge_keys :: "snapshot \<Rightarrow> snapshot \<Rightarrow> snapshot \<Rightarrow> string list" where
  "merge_keys base from into = remdups (hkeys base @ hkeys from @ hkeys into)"

fun merge_loop ::
    "version_env \<Rightarrow> merge_strategy \<Rightarrow> snapshot \<Rightarrow> snapshot \<Rightarrow> snapshot \<Rightarrow> string list
     \<Rightarrow> snapshot \<Rightarrow> context_uri list \<Rightarrow> version_error + snapshot \<times> context_uri list" where
  "merge_loop env strategy base into from [] merged conflicts = Inr (merged, conflicts)"
| "merge_loop env strategy base into from (uri # keys) merged conflicts =
     (let b = hget base uri; ours = hget into uri; theirs = hget from uri
      in if theirs = b then merge_loop env strategy base into from keys merged conflicts
         else if ours = b \<or> ours = theirs
         then merge_loop env strategy base into from keys (put_opt uri theirs merged) conflicts
         else case strategy of
                Theirs \<Rightarrow>
                  merge_loop env strategy base into from keys (put_opt uri theirs merged) conflicts
              | Ours \<Rightarrow> merge_loop env strategy base into from keys merged conflicts
              | _ \<Rightarrow>
                  (case parse (parse_datetime env) uri of
                     Inl e \<Rightarrow> Inl (VStorage (''invalid snapshot URI: '' @ context_error_display e))
                   | Inr u \<Rightarrow>
                       merge_loop env strategy base into from keys merged (conflicts @ [u])))"

definition set_branch_head ::
    "string \<times> string \<Rightarrow> commit_id \<Rightarrow> (string \<times> string, branch) hmap \<Rightarrow> (string \<times> string, branch) hmap"
where
  "set_branch_head key c bs =
     (case hget bs key of Some b \<Rightarrow> hput key (b\<lparr>b_head := c\<rparr>) bs | None \<Rightarrow> bs)"

definition is_attached :: "vstore \<Rightarrow> string \<Rightarrow> branch_name \<Rightarrow> bool" where
  "is_attached s skey name = (hget (attached_branches s) skey = Some name)"

text \<open>Moving the target branch, and the scope head with it when the branch is checked out.\<close>

definition move_branch :: "string \<Rightarrow> branch_name \<Rightarrow> commit_id \<Rightarrow> vstore \<Rightarrow> vstore" where
  "move_branch skey into c s =
     (let att = is_attached s skey into;
          s1 = s\<lparr>branches := set_branch_head (skey, branch_str into) c (branches s)\<rparr>
      in if att then set_head skey c s1 else s1)"

definition activate_branch :: "string \<Rightarrow> branch_name \<Rightarrow> vstore \<Rightarrow> vstore" where
  "activate_branch skey into s =
     (case hget (branches s) (skey, branch_str into) of
        Some b \<Rightarrow> s\<lparr>branches := hput (skey, branch_str into) (b\<lparr>b_lifecycle := Active\<rparr>) (branches s)\<rparr>
      | None \<Rightarrow> s)"

definition base_snapshot_of :: "vstore \<Rightarrow> commit_id \<Rightarrow> commit_id \<Rightarrow> snapshot" where
  "base_snapshot_of s from_head into_head =
     (case merge_base s from_head into_head of Some c \<Rightarrow> snapshot_at s c | None \<Rightarrow> [])"

definition merge_commit ::
    "version_env \<Rightarrow> commit_id \<Rightarrow> datetime \<Rightarrow> branch_name \<Rightarrow> branch_name \<Rightarrow> commit_id \<Rightarrow> commit_id
     \<Rightarrow> commit" where
  "merge_commit env mid now from into from_head into_head =
     \<lparr>c_id = mid, c_parents = [into_head, from_head],
      c_tree_hash = ContentHash (''merge-'' @ show_id env mid),
      c_author = system_author True,
      c_message = ''merge '' @ branch_str from @ '' into '' @ branch_str into,
      c_timestamp = now,
      c_metadata = \<lparr>cm_trigger = MergeOf [from, into], cm_changes = default_change_set,
                    cm_provenance = []\<rparr>\<rparr>"

definition merge_diverged ::
    "version_env \<Rightarrow> uuid \<Rightarrow> datetime \<Rightarrow> string \<Rightarrow> branch_name \<Rightarrow> branch_name \<Rightarrow> merge_strategy
     \<Rightarrow> commit_id \<Rightarrow> commit_id \<Rightarrow> vstore \<Rightarrow> merge_result vresult" where
  "merge_diverged env fresh now skey from into strategy from_head into_head s =
     (let mid = CommitId fresh;
          c = merge_commit env mid now from into from_head into_head;
          base = base_snapshot_of s from_head into_head;
          into_snap = snapshot_at s into_head;
          from_snap = snapshot_at s from_head
      in case merge_loop env strategy base into_snap from_snap
                (merge_keys base from_snap into_snap) into_snap [] of
           Inl e \<Rightarrow> (Inl e, s)
         | Inr (merged, conflicts) \<Rightarrow>
             (Inr \<lparr>mr_commit = mid, mr_conflicts = conflicts\<rparr>,
              move_branch skey into mid (store_commit c merged s)))"

definition merge_branches ::
    "version_env \<Rightarrow> uuid \<Rightarrow> datetime \<Rightarrow> context_uri \<Rightarrow> branch_name \<Rightarrow> branch_name \<Rightarrow> merge_strategy
     \<Rightarrow> vstore \<Rightarrow> merge_result vresult" where
  "merge_branches env fresh now scope from into strategy s =
     (let skey = scope_key scope
      in case hget (branches s) (skey, branch_str from) of
           None \<Rightarrow> (Inl (VNotFound (''branch '' @ branch_str from)), s)
         | Some fb \<Rightarrow>
             (case hget (branches s) (skey, branch_str into) of
                None \<Rightarrow> (Inl (VNotFound (''branch '' @ branch_str into)), s)
              | Some ib \<Rightarrow>
                  (let from_head = b_head fb; into_head = b_head ib;
                       anc = is_ancestor s into_head from_head;
                       ff = \<lparr>mr_commit = from_head, mr_conflicts = []\<rparr>
                   in case strategy of
                        FastForward \<Rightarrow>
                          (if \<not> anc
                           then (Inl (MergeConflict ''cannot fast-forward: branches have diverged''), s)
                           else (Inr ff, activate_branch skey into (move_branch skey into from_head s)))
                      | _ \<Rightarrow>
                          (if anc then (Inr ff, move_branch skey into from_head s)
                           else merge_diverged env fresh now skey from into strategy
                                  from_head into_head s))))"

section \<open>Diff\<close>

definition parsed_uris :: "version_env \<Rightarrow> string list \<Rightarrow> context_uri list" where
  "parsed_uris env ks =
     concat (map (\<lambda>k. case parse (parse_datetime env) k of Inr u \<Rightarrow> [u] | Inl _ \<Rightarrow> []) ks)"

definition diff_commits :: "version_env \<Rightarrow> commit_id \<Rightarrow> commit_id \<Rightarrow> vstore \<Rightarrow> tree_diff" where
  "diff_commits env a b s =
     (let ma = snapshot_at s a; mb = snapshot_at s b
      in \<lparr>td_adds = parsed_uris env (filter (\<lambda>k. \<not> hhas ma k) (hkeys mb)),
          td_updates = parsed_uris env
            (map fst (filter (\<lambda>(k, vb). case hget ma k of Some va \<Rightarrow> va \<noteq> vb | None \<Rightarrow> False) mb)),
          td_deletes = parsed_uris env (filter (\<lambda>k. \<not> hhas mb k) (hkeys ma))\<rparr>)"

section \<open>Cherry-pick and rebase\<close>

definition changed_uris :: "snapshot \<Rightarrow> snapshot \<Rightarrow> string list" where
  "changed_uris source base =
     filter (\<lambda>u. hget source u \<noteq> hget base u) (remdups (hkeys source @ hkeys base))"

definition pick_conflicts :: "snapshot \<Rightarrow> snapshot \<Rightarrow> snapshot \<Rightarrow> string list" where
  "pick_conflicts source base target =
     filter (\<lambda>u. hget target u \<noteq> hget base u \<and> hget target u \<noteq> hget source u)
       (changed_uris source base)"

definition pick_snapshot ::
    "conflict_strategy \<Rightarrow> snapshot \<Rightarrow> snapshot \<Rightarrow> snapshot \<Rightarrow> snapshot" where
  "pick_snapshot strategy source base target =
     (let skip = (if strategy = COurs then pick_conflicts source base target else [])
      in fold (\<lambda>u m. if u \<in> set skip then m else put_opt u (hget source u) m)
           (changed_uris source base) target)"

definition cherry_commit ::
    "version_env \<Rightarrow> commit_id \<Rightarrow> datetime \<Rightarrow> commit_id \<Rightarrow> commit_id option \<Rightarrow> commit \<Rightarrow> commit" where
  "cherry_commit env nid now cid target_head src =
     \<lparr>c_id = nid, c_parents = (case target_head of Some h \<Rightarrow> [h] | None \<Rightarrow> [cid]),
      c_tree_hash = ContentHash (''cherry-'' @ show_id env nid),
      c_author = c_author src, c_message = ''cherry-pick: '' @ c_message src,
      c_timestamp = now, c_metadata = c_metadata src\<rparr>"

definition cherry_pick ::
    "version_env \<Rightarrow> uuid \<Rightarrow> datetime \<Rightarrow> context_uri \<Rightarrow> commit_id \<Rightarrow> branch_name \<Rightarrow> conflict_strategy
     \<Rightarrow> vstore \<Rightarrow> commit_id vresult" where
  "cherry_pick env fresh now scope cid onto strategy s =
     (let skey = scope_key scope; key = (skey, branch_str onto)
      in case hget (commits s) cid of
           None \<Rightarrow> (Inl (VNotFound (''commit '' @ debug_id env cid)), s)
         | Some src \<Rightarrow>
             (let source = snapshot_at s cid;
                  base = (case c_parents src of p # _ \<Rightarrow> snapshot_at s p | [] \<Rightarrow> []);
                  target_head = map_option b_head (hget (branches s) key);
                  target = (case target_head of Some h \<Rightarrow> snapshot_at s h | None \<Rightarrow> []);
                  conflicts = (if strategy = CFail then pick_conflicts source base target else [])
              in if conflicts \<noteq> []
                 then (Inl (MergeConflict (''cherry-pick '' @ debug_id env cid @ '' onto ''
                              @ branch_str onto @ '': '' @ show_nat (length conflicts)
                              @ '' URI(s) conflicted: '' @ join '', '' conflicts)), s)
                 else
                   let nid = CommitId fresh;
                       c = cherry_commit env nid now cid target_head src;
                       s1 = store_commit c (pick_snapshot strategy source base target) s;
                       s2 = s1\<lparr>branches := set_branch_head key nid (branches s1)\<rparr>
                   in (Inr nid, set_head skey nid s2)))"

definition rebase ::
    "version_env \<Rightarrow> uuid \<Rightarrow> datetime \<Rightarrow> context_uri \<Rightarrow> branch_name \<Rightarrow> branch_name \<Rightarrow> conflict_strategy
     \<Rightarrow> vstore \<Rightarrow> commit_id list vresult" where
  "rebase env fresh now scope name onto strategy s =
     (let skey = scope_key scope; key = (skey, branch_str name)
      in case hget (branches s) key of
           None \<Rightarrow> (Inl (VNotFound (''branch '' @ branch_str name)), s)
         | Some b \<Rightarrow>
             (case hget (branches s) (skey, branch_str onto) of
                None \<Rightarrow> (Inl (VNotFound (''branch '' @ branch_str onto)), s)
              | Some _ \<Rightarrow>
                  (case cherry_pick env fresh now scope (b_head b) onto strategy s of
                     (Inl e, s1) \<Rightarrow> (Inl e, s1)
                   | (Inr tip, s1) \<Rightarrow>
                       (case hget (branches s1) key of
                          None \<Rightarrow> (Inl (VNotFound (''branch '' @ branch_str name)), s1)
                        | Some rb \<Rightarrow>
                            (if b_head rb \<noteq> b_head b
                             then (Inl (VStorage ''rebase branch CAS failed''), s1)
                             else
                               let s2 = s1\<lparr>branches := hput key (rb\<lparr>b_head := tip\<rparr>) (branches s1)\<rparr>
                               in (Inr [tip],
                                   if is_attached s2 skey name then set_head skey tip s2 else s2))))))"

section \<open>Squash and garbage collection\<close>

fun consecutive :: "(commit_id, commit) hmap \<Rightarrow> commit_id list \<Rightarrow> bool" where
  "consecutive cs (a # b # rest) =
     (Option.bind (hget cs b) first_parent = Some a
      \<and> consecutive cs (b # rest))"
| "consecutive cs _ = True"

fun first_missing :: "(commit_id, commit) hmap \<Rightarrow> commit_id list \<Rightarrow> commit_id option" where
  "first_missing cs [] = None"
| "first_missing cs (x # xs) = (if hhas cs x then first_missing cs xs else Some x)"

definition retarget ::
    "commit_id \<Rightarrow> commit_id \<Rightarrow> (string \<times> string, branch) hmap \<Rightarrow> (string \<times> string, branch) hmap" where
  "retarget old new bs = map (\<lambda>(k, b). (k, if b_head b = old then b\<lparr>b_head := new\<rparr> else b)) bs"

text \<open>The list has at least two elements where its first and last are taken.\<close>

definition squash_commit ::
    "version_env \<Rightarrow> commit_id \<Rightarrow> datetime \<Rightarrow> commit_id option \<Rightarrow> string \<Rightarrow> commit" where
  "squash_commit env nid now parent_id message =
     \<lparr>c_id = nid, c_parents = (case parent_id of Some p \<Rightarrow> [p] | None \<Rightarrow> []),
      c_tree_hash = ContentHash (''squash-'' @ show_id env nid),
      c_author = system_author True, c_message = message,
      c_timestamp = now, c_metadata = default_commit_meta\<rparr>"

definition squash ::
    "version_env \<Rightarrow> uuid \<Rightarrow> datetime \<Rightarrow> context_uri \<Rightarrow> commit_id list \<Rightarrow> string \<Rightarrow> vstore
     \<Rightarrow> squash_result vresult" where
  "squash env fresh now scope ids message s =
     (if length ids < 2 then (Inl (VStorage ''squash needs >= 2 commits''), s)
      else case first_missing (commits s) ids of
        Some m \<Rightarrow> (Inl (VNotFound (''commit '' @ show_id env m)), s)
      | None \<Rightarrow>
          (if \<not> consecutive (commits s) ids
           then (Inl (VStorage (''squash commits must be a consecutive first-parent range ''
                  @ ''ordered oldest to newest'')), s)
           else
             let skey = scope_key scope;
                 newest = last ids;
                 parent_id = Option.bind (hget (commits s) (hd ids)) first_parent;
                 snap = snapshot_at s newest
             in if \<not> (head_of s skey = Some newest
                       \<or> list_ex (\<lambda>(_, b). b_head b = newest) (branches s))
                then (Inl (VStorage ''squash tip is not referenced by a branch or HEAD''), s)
                else
                  let nid = CommitId fresh;
                      c = squash_commit env nid now parent_id message;
                      s1 = store_commit c snap s;
                      s2 = s1\<lparr>branches := retarget newest nid (branches s1)\<rparr>;
                      s3 = (if head_of s2 skey = Some newest then set_head skey nid s2 else s2)
                  in (Inr \<lparr>sq_new_commit = nid, sq_squashed_count = length ids\<rparr>, s3)))"

fun gc_loop :: "commit list \<Rightarrow> vstore \<Rightarrow> gc_report \<Rightarrow> gc_report \<times> vstore" where
  "gc_loop [] s r = (r, s)"
| "gc_loop (c # cs) s r =
     gc_loop cs
       (s\<lparr>commits := hdel (c_id c) (commits s),
          entry_snapshots := hdel (c_id c) (entry_snapshots s)\<rparr>)
       \<lparr>gr_removed_commits = gr_removed_commits r + 1,
        gr_freed_snapshots =
          gr_freed_snapshots r + (if hhas (entry_snapshots s) (c_id c) then 1 else 0)\<rparr>"

definition gc :: "uuid \<Rightarrow> context_uri \<Rightarrow> gc_policy \<Rightarrow> vstore \<Rightarrow> gc_report vresult" where
  "gc fresh scope policy s =
     (let l = store_log fresh scope \<lparr>lo_max_count = None, lo_branch = None\<rparr> s;
          (r, s1) = gc_loop (drop (gp_keep_recent policy) l) s
                      \<lparr>gr_removed_commits = 0, gr_freed_snapshots = 0\<rparr>
      in (Inr r, s1))"

section \<open>Analyses\<close>

definition evaluate_semantic_tags :: "context_uri \<Rightarrow> vstore \<Rightarrow> (tag_name \<times> commit_id) list" where
  "evaluate_semantic_tags scope s =
     concat (map (\<lambda>t. case t_tag_type t of Semantic _ \<Rightarrow> [(t_name t, t_target t)] | _ \<Rightarrow> [])
       (list_tags scope s))"

definition provenance :: "context_uri \<Rightarrow> vstore \<Rightarrow> provenance_graph" where
  "provenance uri s =
     \<lparr>pg_root_uri = uri,
      pg_nodes = concat (map (\<lambda>(_, c). filter (\<lambda>l. pl_source_uri l = uri) (cm_provenance (c_metadata c)))
        (commits s)),
      pg_depth = 0\<rparr>"

fun parse_names :: "string list \<Rightarrow> version_error + branch_name list" where
  "parse_names [] = Inr []"
| "parse_names (n # ns) =
     (case branch_name_parse n of
        Inl e \<Rightarrow> Inl e
      | Inr b \<Rightarrow> (case parse_names ns of Inl e \<Rightarrow> Inl e | Inr bs \<Rightarrow> Inr (b # bs)))"

definition analyse_impact ::
    "version_env \<Rightarrow> commit_id \<Rightarrow> vstore \<Rightarrow> version_error + impact_analysis" where
  "analyse_impact env cid s =
     (let recent = sort_key (\<lambda>(_, c). - c_timestamp c) (commits s);
          downstream =
            parsed_uris env
              (map (\<lambda>(i, _). ''commit-'' @ show_id env i)
                (filter (\<lambda>(_, c). cid \<in> set (c_parents c))
                  (take (max_commits (analysis_config s)) recent)))
      in case parse_names (map (\<lambda>((_, n), _). n) (filter (\<lambda>(_, b). b_head b = cid) (branches s))) of
           Inl e \<Rightarrow> Inl e
         | Inr affected \<Rightarrow>
             Inr \<lparr>ia_commit = cid, ia_downstream_uris = downstream, ia_affected_branches = affected\<rparr>)"

definition evolution :: "version_env \<Rightarrow> context_uri \<Rightarrow> vstore \<Rightarrow> temporal_version list" where
  "evolution env uri s =
     sort_key tv_timestamp
       (map (\<lambda>(cid, c). \<lparr>tv_commit_id = cid, tv_timestamp = c_timestamp c,
                         tv_content_hash = ContentHash (''hash-'' @ show_id env cid),
                         tv_valid_from = c_timestamp c, tv_valid_until = None\<rparr>)
         (filter (\<lambda>(cid, _).
            case hget (entry_snapshots s) cid of
              Some m \<Rightarrow> hhas m (u_canonical uri) | None \<Rightarrow> False) (commits s)))"

end
