(* ===== verification/Version_Ancestry.thy ===== *)
theory Version_Ancestry
  imports Version_Merge
begin

text \<open>
  Ancestry in the commit graph: \<open>is_ancestor\<close> decides reachability along parents, and
  \<open>merge_base\<close> finds a common ancestor that is nearest to its second argument, whatever
  the shape of the graph, cycles and dangling parents included.
\<close>

definition parent_rel :: "vstore \<Rightarrow> (commit_id \<times> commit_id) set" where
  "parent_rel s = {(c, p). \<exists>k. hget (commits s) c = Some k \<and> p \<in> set (c_parents k)}"

interpretation anc: finite_graph "parents_in cs" "hkeys cs" for cs
  by unfold_locales (simp add: parents_in_def adjacent_unknown)

abbreviation ancestors :: "(commit_id, commit) hmap \<Rightarrow> commit_id \<Rightarrow> commit_id set" where
  "ancestors cs \<equiv> finite_graph.reach (parents_in cs)"

lemma edges_parent_rel: "anc.edges (commits s) = parent_rel s"
  by (auto simp: anc.edges_def parent_rel_def parents_in_def adjacent_def
    split: option.splits dest: sym)

lemma ancestors_rtrancl: "x \<in> ancestors (commits s) c \<longleftrightarrow> (c, x) \<in> (parent_rel s)\<^sup>*"
  by (simp add: anc.reach_def edges_parent_rel)

section \<open>The ancestor test\<close>

lemma is_ancestor_loop_iff:
  "anc.pending cs (set vis) (set stk) \<Longrightarrow> a \<notin> set vis \<Longrightarrow>
   is_ancestor_loop cs a vis stk \<longleftrightarrow> (\<exists>x\<in>set stk. a \<in> ancestors cs x)"
proof (induction cs a vis stk rule: is_ancestor_loop.induct)
  case (2 cs a vis x stk)
  consider "x = a" | "x \<noteq> a" "x \<in> set vis" | "x \<noteq> a" "x \<notin> set vis" by blast
  then show ?case
  proof cases
    case 1
    then show ?thesis by auto
  next
    case 2
    have pen: "anc.pending cs (set vis) (set stk)"
      using anc.pending_skip [of cs "set vis" x "set stk"] \<open>anc.pending cs (set vis) _\<close> 2(2) by simp
    have "\<exists>y\<in>set stk. a \<in> ancestors cs y" if "a \<in> ancestors cs x"
      using anc.pending_reach [OF pen 2(2) that] \<open>a \<notin> set vis\<close> by blast
    then show ?thesis using "2.IH"(1) pen 2 \<open>a \<notin> set vis\<close> by auto
  next
    case 3
    have "anc.pending cs (insert x (set vis)) (set (parents_in cs x) \<union> set stk)"
      using anc.pending_visit [of cs "set vis" x "set stk"] \<open>anc.pending cs (set vis) _\<close> by simp
    then show ?thesis
      using "2.IH"(2) 3 \<open>a \<notin> set vis\<close> anc.reach_unfold [of cs x] by auto
  qed
qed simp

lemma is_ancestor_loop_from: "is_ancestor_loop cs a [] [c] \<longleftrightarrow> a \<in> ancestors cs c"
  by (subst is_ancestor_loop_iff) (auto simp: anc.pending_def)

text \<open>The ancestor test answers exactly whether the first commit can be reached from the
  second one along parent links, on every store.\<close>

theorem is_ancestor_exact: "is_ancestor s a c = ((c, a) \<in> (parent_rel s)\<^sup>*)"
  by (auto simp: is_ancestor_def is_ancestor_loop_from ancestors_rtrancl
    simp del: is_ancestor_loop.simps)

section \<open>The merge base\<close>

lemma collect_ancestors_set:
  "anc.pending cs (set vis) (set stk) \<Longrightarrow>
   set (collect_ancestors cs vis stk) = set vis \<union> (\<Union>x\<in>set stk. ancestors cs x)"
proof (induction cs vis stk rule: collect_ancestors.induct)
  case (2 cs vis x stk)
  show ?case
  proof (cases "x \<in> set vis")
    case True
    have pen: "anc.pending cs (set vis) (set stk)"
      using anc.pending_skip [of cs "set vis" x "set stk"] "2.prems" True by simp
    have "ancestors cs x \<subseteq> set vis \<union> (\<Union>y\<in>set stk. ancestors cs y)"
      using anc.pending_reach [OF pen True] by blast
    then show ?thesis using "2.IH"(1) pen True by auto
  next
    case False
    have "anc.pending cs (insert x (set vis)) (set (parents_in cs x) \<union> set stk)"
      using anc.pending_visit [of cs "set vis" x "set stk"] "2.prems" by simp
    then show ?thesis using "2.IH"(2) False anc.reach_unfold [of cs x] by auto
  qed
qed simp

lemma collect_ancestors_from: "set (collect_ancestors cs [] [a]) = ancestors cs a"
  by (subst collect_ancestors_set) (auto simp: anc.pending_def)

text \<open>The breadth-first search: the queue holds first nodes at distance \<open>n\<close> of the start,
  then nodes at distance \<open>n + 1\<close>; everything nearer has been visited.\<close>

abbreviation layer :: "(commit_id, commit) hmap \<Rightarrow> commit_id \<Rightarrow> nat \<Rightarrow> commit_id set" where
  "layer cs b n \<equiv> {x. (b, x) \<in> finite_graph.edges (parents_in cs) ^^ n}"

definition bfs_inv ::
  "(commit_id, commit) hmap \<Rightarrow> commit_id \<Rightarrow> commit_id set \<Rightarrow> commit_id set \<Rightarrow> nat
   \<Rightarrow> commit_id list \<Rightarrow> commit_id list \<Rightarrow> bool" where
  "bfs_inv cs b common vis n near far \<longleftrightarrow>
     set near \<subseteq> layer cs b n \<and> set far \<subseteq> layer cs b (Suc n) \<and> vis \<inter> common = {} \<and>
     (\<forall>k<n. layer cs b k \<subseteq> vis) \<and> layer cs b n \<subseteq> vis \<union> set near \<and>
     anc.pending cs vis (set near \<union> set far)"

lemma layer_Suc: "layer cs b (Suc n) = (\<Union>x\<in>layer cs b n. set (parents_in cs x))"
  by (auto simp: anc.edges_def)

lemma bfs_next_layer:
  assumes inv: "bfs_inv cs b common vis n [] far"
  shows "bfs_inv cs b common vis (Suc n) far []"
proof -
  have near: "layer cs b n \<subseteq> vis" and pen: "anc.pending cs vis (set far)"
    using inv by (auto simp: bfs_inv_def)
  from near pen have "layer cs b (Suc n) \<subseteq> vis \<union> set far"
    unfolding layer_Suc anc.pending_def by blast
  moreover have "layer cs b k \<subseteq> vis" if "k < Suc n" for k
    using that near inv by (cases "k = n") (auto simp: bfs_inv_def)
  ultimately show ?thesis using inv by (simp add: bfs_inv_def)
qed

lemma bfs_skip:
  assumes "bfs_inv cs b common vis n (x # near) far" "x \<in> vis"
  shows "bfs_inv cs b common vis n near far"
  using assms by (auto simp: bfs_inv_def anc.pending_def)

lemma bfs_visit:
  assumes "bfs_inv cs b common vis n (x # near) far" "x \<notin> common"
  shows "bfs_inv cs b common (insert x vis) n near (far @ parents_in cs x)"
proof -
  have x: "x \<in> layer cs b n" using assms(1) by (simp add: bfs_inv_def)
  have "set (parents_in cs x) \<subseteq> layer cs b (Suc n)" using x unfolding layer_Suc by blast
  then show ?thesis using assms by (auto simp: bfs_inv_def anc.pending_def)
qed

definition nearest :: "(commit_id, commit) hmap \<Rightarrow> commit_id \<Rightarrow> commit_id set \<Rightarrow> commit_id \<Rightarrow> bool" where
  "nearest cs b common m \<longleftrightarrow>
     (\<exists>n. m \<in> common \<and> m \<in> layer cs b n \<and> (\<forall>k<n. layer cs b k \<inter> common = {}))"

lemma bfs_found:
  assumes "bfs_inv cs b common vis n (x # near) far" "x \<in> common"
  shows "nearest cs b common x"
proof -
  have "x \<in> layer cs b n" and "\<forall>k<n. layer cs b k \<subseteq> vis" and "vis \<inter> common = {}"
    using assms(1) by (simp_all add: bfs_inv_def)
  then show ?thesis unfolding nearest_def using assms(2) by blast
qed

lemma bfs_exhausted:
  assumes inv: "bfs_inv cs b common vis n [] []"
  shows "ancestors cs b \<inter> common = {}"
proof -
  have pen: "anc.pending cs vis {}" and here: "layer cs b n \<subseteq> vis" and vis: "vis \<inter> common = {}"
    and below: "\<And>k. k < n \<Longrightarrow> layer cs b k \<subseteq> vis"
    using inv by (auto simp: bfs_inv_def)
  have "b \<in> vis" using here below [of 0] by (cases n) auto
  then show ?thesis using anc.pending_closed [OF pen] vis by blast
qed

lemma first_common_bfs:
  "bfs_inv cs b (set common) (set vis) n near far \<Longrightarrow>
   (case first_common cs common vis (near @ far) of
      Some m \<Rightarrow> nearest cs b (set common) m
    | None \<Rightarrow> ancestors cs b \<inter> set common = {})"
proof (induction cs common vis "near @ far" arbitrary: n near far rule: first_common.induct)
  case (1 cs common vis)
  then show ?case using bfs_exhausted by auto
next
  case (2 cs common vis x queue)
  have step: ?case if "bfs_inv cs b (set common) (set vis) m (x # ns) fs" "queue = ns @ fs" for m ns fs
  proof -
    consider "x \<in> set common" | "x \<notin> set common" "x \<in> set vis" | "x \<notin> set common" "x \<notin> set vis"
      by blast
    then show ?thesis
    proof cases
      case 1
      then show ?thesis using bfs_found that(1) "2.hyps"(3) [symmetric] by simp
    next
      case 2
      then show ?thesis
        using "2.hyps"(1) [OF 2 that(2) bfs_skip [OF that(1) 2(2)]] \<open>x # queue = near @ far\<close> [symmetric]
          that(2) by simp
    next
      case 3
      have "queue @ parents_in cs x = ns @ (fs @ parents_in cs x)" using that(2) by simp
      moreover have "bfs_inv cs b (set common) (set (x # vis)) m ns (fs @ parents_in cs x)"
        using bfs_visit [OF that(1) 3(1)] by simp
      ultimately show ?thesis
        using "2.hyps"(2) [OF 3] \<open>x # queue = near @ far\<close> [symmetric] 3 by simp
    qed
  qed
  show ?case
  proof (cases near)
    case Nil
    then have "bfs_inv cs b (set common) (set vis) (Suc n) (x # queue) []"
      using bfs_next_layer "2.prems" "2.hyps"(3) by simp
    then show ?thesis by (rule step) simp
  next
    case (Cons y ns)
    then show ?thesis using step "2.prems" "2.hyps"(3) by simp
  qed
qed

lemma merge_base_bfs:
  "case merge_base s a b of
     Some m \<Rightarrow> nearest (commits s) b (ancestors (commits s) a) m
   | None \<Rightarrow> ancestors (commits s) b \<inter> ancestors (commits s) a = {}"
proof -
  have "bfs_inv (commits s) b (set (collect_ancestors (commits s) [] [a])) (set []) 0 [b] []"
    by (auto simp: bfs_inv_def anc.pending_def)
  from first_common_bfs [OF this] show ?thesis
    unfolding merge_base_def collect_ancestors_from by (simp only: append_Nil2)
qed

text \<open>C16: a merge base is a common ancestor of both commits with no common ancestor at fewer
  parent links from the second one, and the search fails only when the histories are disjoint.\<close>

theorem merge_base_nearest:
  "case merge_base s a b of
     Some m \<Rightarrow> (a, m) \<in> (parent_rel s)\<^sup>* \<and>
       (\<exists>n. (b, m) \<in> parent_rel s ^^ n \<and>
         (\<Union>k<n. (parent_rel s ^^ k) `` {b}) \<inter> (parent_rel s)\<^sup>* `` {a} = {})
   | None \<Rightarrow> (parent_rel s)\<^sup>* `` {a} \<inter> (parent_rel s)\<^sup>* `` {b} = {}"
proof (cases "merge_base s a b")
  case None
  then show ?thesis
    using merge_base_bfs [where s = s and a = a and b = b] by (auto simp: ancestors_rtrancl)
next
  case (Some m)
  then obtain n where n: "(b, m) \<in> parent_rel s ^^ n" "(a, m) \<in> (parent_rel s)\<^sup>*"
    and below: "\<forall>k<n. layer (commits s) b k \<inter> ancestors (commits s) a = {}"
    using merge_base_bfs [where s = s and a = a and b = b]
    by (auto simp: nearest_def edges_parent_rel ancestors_rtrancl)
  have "(\<Union>k<n. (parent_rel s ^^ k) `` {b}) \<inter> (parent_rel s)\<^sup>* `` {a} = {}"
    using below unfolding edges_parent_rel by (force simp: ancestors_rtrancl disjoint_iff)
  with n Some show ?thesis by auto
qed

end
