(* ===== verification/Version_Safety.thy ===== *)
theory Version_Safety
  imports Version_Ancestry
begin

text \<open>
  The commit store as a system of operations: what every operation keeps. Two instances of
  the interface \<open>op_system\<close> rest on the same primitive steps (storing a commit, moving a
  branch, moving HEAD): referential integrity with an acyclic history, and immutability of
  what is committed. A third one, over fewer operations, is the agreement of HEAD with the
  branch that is checked out.
\<close>

section \<open>Operations\<close>

datatype vop =
    OpCommit uuid datetime context_uri change_set commit_meta
  | OpCommitOnParent uuid datetime commit_id commit_meta
  | OpPutEntryVersion commit_id context_uri context_entry
  | OpCreateBranch datetime context_uri branch_name commit_id branch_type
  | OpDeleteBranch context_uri branch_name
  | OpCreateTag context_uri tag
  | OpSwitchHead context_uri branch_name
  | OpMerge uuid datetime context_uri branch_name branch_name merge_strategy
  | OpCherryPick uuid datetime context_uri commit_id branch_name conflict_strategy
  | OpRebase uuid datetime context_uri branch_name branch_name conflict_strategy
  | OpSquash uuid datetime context_uri "commit_id list" string
  | OpGc uuid context_uri gc_policy

fun vstep :: "version_env \<Rightarrow> vop \<Rightarrow> vstore \<Rightarrow> vstore" where
  "vstep env (OpCommit f now sc ch m) s = snd (make_commit env f now sc ch m s)"
| "vstep env (OpCommitOnParent f now p m) s = snd (commit_on_parent env f now p m s)"
| "vstep env (OpPutEntryVersion c u e) s = put_entry_version env c u e s"
| "vstep env (OpCreateBranch now sc n c bt) s = snd (create_branch env now sc n c bt s)"
| "vstep env (OpDeleteBranch sc n) s = snd (delete_branch sc n s)"
| "vstep env (OpCreateTag sc t) s = snd (create_tag sc t s)"
| "vstep env (OpSwitchHead sc n) s = snd (switch_head sc n s)"
| "vstep env (OpMerge f now sc a b st) s = snd (merge_branches env f now sc a b st s)"
| "vstep env (OpCherryPick f now sc c n st) s = snd (cherry_pick env f now sc c n st s)"
| "vstep env (OpRebase f now sc a b st) s = snd (rebase env f now sc a b st s)"
| "vstep env (OpSquash f now sc ids m) s = snd (squash env f now sc ids m s)"
| "vstep env (OpGc f sc p) s = snd (gc f sc p s)"

section \<open>Integrity\<close>

definition known :: "vstore \<Rightarrow> commit_id \<Rightarrow> bool" where
  "known s c = hhas (commits s) c"

definition vs_inv :: "vstore \<Rightarrow> bool" where
  "vs_inv s \<longleftrightarrow>
     hm_wf (commits s) \<and> hm_wf (entry_snapshots s) \<and> hm_wf (branches s) \<and>
     (\<forall>c. hhas (entry_snapshots s) c = known s c) \<and>
     (\<forall>c k. hget (commits s) c = Some k \<longrightarrow> c_id k = c \<and> list_all (known s) (c_parents k)) \<and>
     (\<forall>key b. hget (branches s) key = Some b \<longrightarrow> known s (b_head b)) \<and>
     (\<forall>sc c. hget (heads s) sc = Some c \<longrightarrow> known s c) \<and>
     acyclic (parent_rel s)"

text \<open>An identity that is drawn is new, and the two test helpers are given a known commit.\<close>

fun vop_ok :: "vop \<Rightarrow> vstore \<Rightarrow> bool" where
  "vop_ok (OpCommit f now sc ch m) s = (\<not> known s (CommitId f))"
| "vop_ok (OpCommitOnParent f now p m) s = (\<not> known s (CommitId f) \<and> known s p)"
| "vop_ok (OpPutEntryVersion c u e) s = known s c"
| "vop_ok (OpMerge f now sc a b st) s = (\<not> known s (CommitId f))"
| "vop_ok (OpCherryPick f now sc c n st) s = (\<not> known s (CommitId f))"
| "vop_ok (OpRebase f now sc a b st) s = (\<not> known s (CommitId f))"
| "vop_ok (OpSquash f now sc ids m) s = (\<not> known s (CommitId f))"
| "vop_ok (OpGc f sc p) s = False"
| "vop_ok _ s = True"

lemma vs_inv_knows:
  assumes "vs_inv s"
  shows "hget (branches s) key = Some b \<Longrightarrow> known s (b_head b)"
    and "hget (heads s) sc = Some c \<Longrightarrow> known s c"
    and "hget (commits s) c = Some k \<Longrightarrow> p \<in> set (c_parents k) \<Longrightarrow> known s p"
  using assms by (cases key; auto simp: vs_inv_def list_all_iff)+

lemma known_store_commit [simp]: "known (store_commit k m s) c = (c = c_id k \<or> known s c)"
  by (simp add: known_def hhas_def store_commit_def hm_simps)

lemma known_fields [simp]:
  "known (s\<lparr>branches := bs\<rparr>) = known s" "known (s\<lparr>heads := h\<rparr>) = known s"
  "known (s\<lparr>attached_branches := a\<rparr>) = known s" "known (s\<lparr>tags := t\<rparr>) = known s"
  "known (s\<lparr>entry_snapshots := e\<rparr>) = known s" "known (set_head sc c s) = known s"
  by (simp_all add: known_def set_head_def fun_eq_iff)

lemma parent_rel_fields [simp]:
  "parent_rel (s\<lparr>branches := bs\<rparr>) = parent_rel s" "parent_rel (s\<lparr>heads := h\<rparr>) = parent_rel s"
  "parent_rel (s\<lparr>attached_branches := a\<rparr>) = parent_rel s" "parent_rel (s\<lparr>tags := t\<rparr>) = parent_rel s"
  "parent_rel (s\<lparr>entry_snapshots := e\<rparr>) = parent_rel s"
  by (simp_all add: parent_rel_def)

text \<open>Storing a fresh commit adds edges from a node that nothing points to.\<close>

lemma parent_rel_store:
  assumes "\<not> known s (c_id k)"
  shows "parent_rel (store_commit k m s) = parent_rel s \<union> {c_id k} \<times> set (c_parents k)"
  using assms by (auto simp: parent_rel_def store_commit_def hm_simps known_def hhas_def split: if_splits)

lemma acyclic_add_source:
  assumes "acyclic R" "x \<notin> Range R" "x \<notin> Y"
  shows "acyclic (R \<union> {x} \<times> Y)"
proof -
  have R: "(a, b) \<in> R\<^sup>+" "b \<noteq> x" if "(a, b) \<in> (R \<union> {x} \<times> Y)\<^sup>+" "a \<noteq> x" for a b
  proof -
    from that have "(a, b) \<in> R\<^sup>+ \<and> b \<noteq> x"
    proof (induction rule: trancl_induct)
      case (base y)
      then show ?case using assms(2) by (auto simp: Range_iff)
    next
      case (step y z)
      then show ?case using assms(2) by (auto simp: Range_iff intro: trancl_into_trancl)
    qed
    then show "(a, b) \<in> R\<^sup>+" "b \<noteq> x" by auto
  qed
  show ?thesis
  proof (rule acyclicI, intro allI notI)
    fix a assume loop: "(a, a) \<in> (R \<union> {x} \<times> Y)\<^sup>+"
    show False
    proof (cases "a = x")
      case True
      from loop obtain y where "(y, a) \<in> R \<union> {x} \<times> Y" by (auto elim: tranclE)
      with True assms(2,3) show ?thesis by (auto simp: Range_iff)
    next
      case False
      with R(1) [OF loop] assms(1) show ?thesis by (auto simp: acyclic_def)
    qed
  qed
qed

lemma inv_store_commit:
  assumes "vs_inv s" "\<not> known s (c_id k)" "list_all (known s) (c_parents k)"
  shows "vs_inv (store_commit k m s)"
proof -
  have "c_id k \<notin> Range (parent_rel s)"
    using assms(1,2) by (auto simp: parent_rel_def dest: vs_inv_knows(3))
  then have "acyclic (parent_rel (store_commit k m s))"
    using assms unfolding parent_rel_store [OF assms(2)]
    by (intro acyclic_add_source) (auto simp: vs_inv_def list_all_iff)
  then show ?thesis
    using assms unfolding vs_inv_def
    by (auto simp: store_commit_def hm_simps known_def hhas_def list_all_iff split: if_splits)
qed

lemma inv_set_head: "vs_inv s \<Longrightarrow> known s c \<Longrightarrow> vs_inv (set_head sc c s)"
  by (auto simp: vs_inv_def set_head_def hm_simps)

lemma inv_put_branch:
  "vs_inv s \<Longrightarrow> known s (b_head b) \<Longrightarrow> vs_inv (s\<lparr>branches := hput key b (branches s)\<rparr>)"
  by (auto simp: vs_inv_def hm_simps)

lemma inv_del_branch: "vs_inv s \<Longrightarrow> vs_inv (s\<lparr>branches := hdel key (branches s)\<rparr>)"
  by (auto simp: vs_inv_def hm_simps)

lemma inv_attach: "vs_inv s \<Longrightarrow> vs_inv (s\<lparr>attached_branches := a\<rparr>)"
  by (auto simp: vs_inv_def)

lemma inv_tags: "vs_inv s \<Longrightarrow> vs_inv (s\<lparr>tags := t\<rparr>)"
  by (auto simp: vs_inv_def)

lemma inv_set_branch_head:
  "vs_inv s \<Longrightarrow> known s c \<Longrightarrow> vs_inv (s\<lparr>branches := set_branch_head key c (branches s)\<rparr>)"
  by (auto simp: set_branch_head_def inv_put_branch split: option.split)

lemma hget_retarget:
  "hget (retarget old new bs) key =
     map_option (\<lambda>b. if b_head b = old then b\<lparr>b_head := new\<rparr> else b) (hget bs key)"
  by (simp add: retarget_def hget_def map_of_map)

lemma hm_wf_retarget: "hm_wf (retarget old new bs) = hm_wf bs"
proof -
  have "map fst (retarget old new bs) = map fst bs" by (simp add: retarget_def case_prod_beta)
  then show ?thesis by (simp add: hm_wf_def)
qed

lemma inv_retarget:
  "vs_inv s \<Longrightarrow> known s new \<Longrightarrow> vs_inv (s\<lparr>branches := retarget old new (branches s)\<rparr>)"
  by (auto simp: vs_inv_def hget_retarget hm_wf_retarget)

section \<open>Primitive steps\<close>

text \<open>What an operation may do to the store: every operation is a sequence of these.\<close>

inductive prim :: "vstore \<Rightarrow> vstore \<Rightarrow> bool" where
  prim_store: "\<not> known s (c_id k) \<Longrightarrow> list_all (known s) (c_parents k) \<Longrightarrow> prim s (store_commit k m s)"
| prim_head: "known s c \<Longrightarrow> prim s (set_head sc c s)"
| prim_branch: "known s (b_head b) \<Longrightarrow> prim s (s\<lparr>branches := hput key b (branches s)\<rparr>)"
| prim_delete: "prim s (s\<lparr>branches := hdel key (branches s)\<rparr>)"
| prim_retarget: "known s new \<Longrightarrow> prim s (s\<lparr>branches := retarget old new (branches s)\<rparr>)"
| prim_attach: "prim s (s\<lparr>attached_branches := a\<rparr>)"
| prim_tag: "prim s (s\<lparr>tags := t\<rparr>)"

abbreviation prims :: "vstore \<Rightarrow> vstore \<Rightarrow> bool" where
  "prims \<equiv> prim\<^sup>*\<^sup>*"

lemma prim_inv: "prim s s' \<Longrightarrow> vs_inv s \<Longrightarrow> vs_inv s'"
  by (erule prim.cases)
    (simp_all add: inv_store_commit inv_set_head inv_put_branch inv_del_branch inv_retarget
      inv_attach inv_tags)

lemma prims_inv: "prims s s' \<Longrightarrow> vs_inv s \<Longrightarrow> vs_inv s'"
  by (induction rule: rtranclp_induct) (auto intro: prim_inv)

text \<open>\<open>history_kept s0 s\<close>: what was committed in \<open>s0\<close> is in \<open>s\<close> as it was.\<close>

definition history_kept :: "vstore \<Rightarrow> vstore \<Rightarrow> bool" where
  "history_kept s0 s \<longleftrightarrow>
     (\<forall>c. known s0 c \<longrightarrow> known s c \<and> hget (commits s) c = hget (commits s0) c \<and>
        hget (entry_snapshots s) c = hget (entry_snapshots s0) c)"

lemma prim_kept: "prim s s' \<Longrightarrow> history_kept s s'"
  by (induction rule: prim.induct)
    (auto simp: history_kept_def store_commit_def set_head_def hm_simps known_def hhas_def)

lemma kept_trans: "history_kept s0 s \<Longrightarrow> history_kept s s' \<Longrightarrow> history_kept s0 s'"
  by (auto simp: history_kept_def)

lemma kept_refl [simp]: "history_kept s s"
  by (simp add: history_kept_def)

lemma prims_kept: "prims s s' \<Longrightarrow> history_kept s s'"
  by (induction rule: rtranclp_induct) (auto intro: prim_kept kept_trans)

text \<open>The primitive steps, appended to a sequence.\<close>

lemma prims_store:
  "prims s0 s \<Longrightarrow> \<not> known s (c_id k) \<Longrightarrow> list_all (known s) (c_parents k) \<Longrightarrow>
   prims s0 (store_commit k m s)"
  by (erule rtranclp.rtrancl_into_rtrancl) (rule prim_store)

lemma prims_head: "prims s0 s \<Longrightarrow> known s c \<Longrightarrow> prims s0 (set_head sc c s)"
  by (erule rtranclp.rtrancl_into_rtrancl) (rule prim_head)

lemma prims_branch:
  "prims s0 s \<Longrightarrow> known s (b_head b) \<Longrightarrow> bs = branches s \<Longrightarrow>
   prims s0 (s\<lparr>branches := hput key b bs\<rparr>)"
  by (erule rtranclp.rtrancl_into_rtrancl) (simp add: prim_branch)

lemma prims_set_branch_head:
  assumes "prims s0 s" "known s c" "bs = branches s"
  shows "prims s0 (s\<lparr>branches := set_branch_head key c bs\<rparr>)"
  using assms prims_branch [of s0 s "_\<lparr>b_head := c\<rparr>"]
  by (simp add: set_branch_head_def split: option.split)

lemma prims_retarget:
  "prims s0 s \<Longrightarrow> known s new \<Longrightarrow> bs = branches s \<Longrightarrow>
   prims s0 (s\<lparr>branches := retarget old new bs\<rparr>)"
  by (erule rtranclp.rtrancl_into_rtrancl) (simp add: prim_retarget)

lemma prims_attach: "prims s0 s \<Longrightarrow> prims s0 (s\<lparr>attached_branches := a\<rparr>)"
  by (erule rtranclp.rtrancl_into_rtrancl) (rule prim_attach)

lemmas prims_intros = prims_store prims_head prims_branch prims_set_branch_head prims_retarget
  prims_attach

lemma store_commit_branches:
  "store_commit k m (s\<lparr>branches := bs\<rparr>) = (store_commit k m s)\<lparr>branches := bs\<rparr>"
  by (simp add: store_commit_def)

lemma branches_store_commit [simp]: "branches (store_commit k m s) = branches s"
  by (simp add: store_commit_def)

lemma heads_store_commit [simp]: "heads (store_commit k m s) = heads s"
  by (simp add: store_commit_def)

lemma attached_store_commit [simp]: "attached_branches (store_commit k m s) = attached_branches s"
  by (simp add: store_commit_def)

lemma prims_move_branch:
  assumes "prims s0 s" "known s c"
  shows "prims s0 (move_branch sk n c s)"
  using prims_set_branch_head [OF assms refl] assms(2)
  by (auto simp: move_branch_def Let_def intro: prims_head)

lemma known_move_branch [simp]: "known (move_branch sk n c s) = known s"
  by (auto simp: move_branch_def Let_def)

lemma prims_activate_branch:
  "vs_inv s \<Longrightarrow> prims s0 s \<Longrightarrow> prims s0 (activate_branch sk n s)"
  by (auto simp: activate_branch_def vs_inv_knows(1) intro!: prims_branch split: option.split)

lemma advance_attached_Inr:
  assumes "advance_attached sk par c s = Inr s1"
  obtains "s1 = s" "hget (attached_branches s) sk = None"
  | n b where "hget (attached_branches s) sk = Some n" "hget (branches s) (sk, branch_str n) = Some b"
      "par \<noteq> []" "hd par = b_head b"
      "s1 = s\<lparr>branches := hput (sk, branch_str n) (b\<lparr>b_head := c\<rparr>) (branches s)\<rparr>"
  using assms unfolding advance_attached_def Let_def
  by (fastforce split: option.splits if_splits list.splits)

lemma commit_record_simps [simp]:
  "c_id (commit_record env c ps now m) = c" "c_parents (commit_record env c ps now m) = ps"
  by (simp_all add: commit_record_def)

lemma merge_commit_simps [simp]:
  "c_id (merge_commit env c now a b fh ih) = c"
  "c_parents (merge_commit env c now a b fh ih) = [ih, fh]"
  by (simp_all add: merge_commit_def)

lemma cherry_commit_simps [simp]:
  "c_id (cherry_commit env c now p t k) = c"
  "c_parents (cherry_commit env c now p t k) = (case t of Some h \<Rightarrow> [h] | None \<Rightarrow> [p])"
  by (simp_all add: cherry_commit_def)

lemma squash_commit_simps [simp]:
  "c_id (squash_commit env c now p m) = c"
  "c_parents (squash_commit env c now p m) = (case p of Some h \<Rightarrow> [h] | None \<Rightarrow> [])"
  by (simp_all add: squash_commit_def)

lemma prims_commit:
  assumes "vs_inv s" "\<not> known s (CommitId f)"
  shows "prims s (snd (make_commit env f now sc ch m s))"
proof -
  let ?par = "case head_of s (scope_key sc) of Some h \<Rightarrow> [h] | None \<Rightarrow> []"
  let ?k = "commit_record env (CommitId f) ?par now m"
  have st: "prims s (store_commit ?k snap s)" for snap
    using assms by (intro prims_store) (auto simp: head_of_def vs_inv_knows split: option.split)
  have "prims s (store_commit ?k snap s1)"
    if "advance_attached (scope_key sc) ?par (CommitId f) s = Inr s1" for s1 snap
    using that
  proof (cases rule: advance_attached_Inr)
    case 1
    then show ?thesis using st by simp
  next
    case (2 n b)
    then show ?thesis
      using prims_branch [OF st, where b = "b\<lparr>b_head := CommitId f\<rparr>"] by (simp add: store_commit_branches)
  qed
  then show ?thesis
    unfolding make_commit_def Let_def
    by (auto intro!: prims_head split: sum.split)
qed

lemma prims_refl [simp]: "prims s s"
  by simp

lemma prims_merge_diverged:
  assumes "\<not> known s (CommitId f)" "known s fh" "known s ih"
  shows "prims s (snd (merge_diverged env f now sk a b st fh ih s))"
  using assms unfolding merge_diverged_def Let_def
  by (auto intro!: prims_move_branch prims_store split: sum.split prod.split)

lemma prims_merge:
  assumes "vs_inv s" "\<not> known s (CommitId f)"
  shows "prims s (snd (merge_branches env f now sc a b st s))"
proof -
  have act: "prims s (activate_branch sk n (move_branch sk n c s))" if "known s c" for sk n c
    using prims_move_branch [of s s c sk n] prims_inv [of s "move_branch sk n c s"] assms(1) that
    by (intro prims_activate_branch) simp_all
  show ?thesis
    using assms act unfolding merge_branches_def Let_def
    by (auto simp: vs_inv_knows intro!: prims_merge_diverged prims_move_branch
        split: option.split merge_strategy.split)
qed

lemma knownI: "hget (commits s) c = Some k \<Longrightarrow> known s c"
  by (simp add: known_def hhas_def)

lemma prims_cherry_pick:
  assumes "vs_inv s" "\<not> known s (CommitId f)"
  shows "prims s (snd (cherry_pick env f now sc c n st s))"
  using assms unfolding cherry_pick_def Let_def
  by (auto simp: vs_inv_knows(1) intro!: prims_head prims_set_branch_head prims_store
      split: option.split intro: knownI)

lemma cherry_pick_result:
  assumes "cherry_pick env f now sc c n st s = (Inr tip, s1)"
  shows "known s1 tip \<and> tip = CommitId f"
  using assms unfolding cherry_pick_def Let_def
  by (auto split: option.splits if_splits)

lemma prims_rebase:
  assumes "vs_inv s" "\<not> known s (CommitId f)"
  shows "prims s (snd (rebase env f now sc a b st s))"
proof -
  have "prims s s1" if "cherry_pick env f now sc c n st s = (r, s1)" for c n r s1
    using prims_cherry_pick [OF assms, of env now sc c n st] that by simp
  then show ?thesis
    unfolding rebase_def Let_def
    by (auto dest: cherry_pick_result intro!: prims_head prims_branch
        split: option.split sum.split prod.split)
qed

lemma first_parent_in: "first_parent k = Some p \<Longrightarrow> p \<in> set (c_parents k)"
  by (auto simp: first_parent_def split: list.splits)

lemma prims_squash:
  assumes "vs_inv s" "\<not> known s (CommitId f)"
  shows "prims s (snd (squash env f now sc ids m s))"
proof -
  have "known s p" if "Option.bind (hget (commits s) i) first_parent = Some p" for i p
    using that by (auto simp: bind_eq_Some_conv intro: vs_inv_knows(3) [OF assms(1)] first_parent_in)
  then show ?thesis
    using assms(2) unfolding squash_def Let_def
    by (auto intro!: prims_head prims_retarget prims_store split: option.split)
qed

lemma prims_vstep:
  assumes "vs_inv s" "vop_ok x s" "\<And>c u e. x \<noteq> OpPutEntryVersion c u e"
  shows "prims s (vstep env x s)"
proof (cases x)
  case (OpCommitOnParent f now p m)
  then show ?thesis using assms(2) by (auto simp: commit_on_parent_def Let_def intro!: prims_store)
next
  case (OpCreateBranch now sc n c bt)
  then show ?thesis
    by (auto simp: create_branch_def Let_def known_def intro: prims_branch)
next
  case (OpDeleteBranch sc n)
  then show ?thesis
    by (auto simp: delete_branch_def Let_def split: option.split intro: prim_delete)
next
  case (OpCreateTag sc t)
  then show ?thesis by (auto simp: create_tag_def intro: prim_tag)
next
  case (OpSwitchHead sc n)
  then show ?thesis using assms(1)
    by (auto simp: switch_head_def Let_def vs_inv_knows split: option.split
        intro!: prims_attach prims_head)
qed (use assms in \<open>auto intro: prims_commit prims_merge prims_cherry_pick prims_rebase prims_squash\<close>)

lemma inv_put_entry:
  "vs_inv s \<Longrightarrow> known s c \<Longrightarrow> vs_inv (put_entry_version env c u e s)"
  by (auto simp: vs_inv_def put_entry_version_def Let_def hm_simps hhas_def)

lemma vstep_inv: "vs_inv s \<Longrightarrow> vop_ok x s \<Longrightarrow> vs_inv (vstep env x s)"
  using prims_vstep [of s x env] prims_inv [of s "vstep env x s"]
  by (cases x) (auto intro: inv_put_entry)

interpretation vs: op_system "vstep env" vs_inv vop_ok for env
  by unfold_locales (rule vstep_inv)

lemma vs_inv_new: "vstore_new cfg = Inr s \<Longrightarrow> vs_inv s"
  by (auto simp: vstore_new_def vs_inv_def known_def hhas_def parent_rel_def acyclic_def
      split: sum.splits)

section \<open>A sample run\<close>

text \<open>An environment and a short history on which the hypotheses below hold: two commits on a
  branch that is checked out, and a third on a fork.\<close>

definition demo_env :: version_env where
  "demo_env = \<lparr>uuid_display = (\<lambda>_. ''u''), datetime_display = (\<lambda>_. ''t''),
     trigger_debug = (\<lambda>_. ''m''), entry_to_json = (\<lambda>e. Inr (l0_text e)),
     entry_of_json = (\<lambda>_. Inl ''json''), parse_datetime = (\<lambda>_. None)\<rparr>"

definition demo_uri :: "string \<Rightarrow> context_uri" where
  "demo_uri p = \<lparr>u_tenant = ''t'', u_path = split_on CHR ''/'' p, u_query = None, u_canonical = ''uwu://t/'' @ p\<rparr>"

definition demo_entry :: "string \<Rightarrow> string \<Rightarrow> context_entry" where
  "demo_entry p txt = new_text 0 (demo_uri p) (TenantId 7) txt"

definition demo_add :: "string \<Rightarrow> string \<Rightarrow> change_set" where
  "demo_add p txt = default_change_set\<lparr>cs_adds := [demo_entry p txt]\<rparr>"

definition demo_store :: vstore where
  "demo_store = \<lparr>commits = [], entry_snapshots = [], branches = [], tags = [], heads = [],
     attached_branches = [], analysis_config = \<lparr>max_commits = 100\<rparr>\<rparr>"

definition demo_past :: "vop list" where
  "demo_past =
     [OpCommit 1 10 (demo_uri ''s'') (demo_add ''s/a'' ''x'') default_commit_meta,
      OpCreateBranch 11 (demo_uri ''s'') (BranchName ''main'') (CommitId 1) Main,
      OpCreateBranch 11 (demo_uri ''s'') (BranchName ''exp'') (CommitId 1) Experiment,
      OpSwitchHead (demo_uri ''s'') (BranchName ''main''),
      OpCommit 2 12 (demo_uri ''s'') (demo_add ''s/b'' ''y'') default_commit_meta]"

definition demo_future :: "vop list" where
  "demo_future =
     [OpSwitchHead (demo_uri ''s'') (BranchName ''exp''),
      OpCommit 3 13 (demo_uri ''s'') (demo_add ''s/c'' ''z'') default_commit_meta,
      OpMerge 4 14 (demo_uri ''s'') (BranchName ''main'') (BranchName ''exp'') ThreeWay]"

definition demo_state :: vstore where
  "demo_state = vs.run demo_env demo_past demo_store"

lemma demo_new: "vstore_new \<lparr>max_commits = 100\<rparr> = Inr demo_store"
  by (simp add: vstore_new_def validate_analysis_config_def demo_store_def)

lemma demo_past_ok: "vs.ok_run demo_env demo_past demo_store"
  unfolding demo_past_def vs.ok_run.simps by code_simp

lemma demo_state_unfold: "demo_state = fold (vstep demo_env) demo_past demo_store"
  unfolding demo_state_def demo_past_def by simp

lemma demo_inv: "vs_inv demo_state"
  unfolding demo_state_def by (rule vs.run_inv [OF vs_inv_new [OF demo_new] demo_past_ok])

section \<open>Integrity, immutability\<close>

text \<open>C1: on a store that starts empty, whatever sequence of commits, branchings, switches,
  merges, cherry-picks, rebases, squashes and tag or branch edits has run: commits and
  snapshots have the same identities, parents, branch heads and HEADs name existing commits,
  and the parent relation has no cycle.\<close>

theorem store_integrity:
  assumes "vstore_new cfg = Inr s0" "vs.ok_run env ops s0"
  shows "vs_inv (vs.run env ops s0)"
  using vs.run_inv [OF vs_inv_new [OF assms(1)] assms(2)] .

theorem store_integrity_witness: "vs_inv (vs.run demo_env demo_past demo_store)"
  by (rule store_integrity [OF demo_new demo_past_ok])

text \<open>Without the test helper that rewrites a snapshot, history only grows.\<close>

fun vop_append_only :: "vop \<Rightarrow> vstore \<Rightarrow> bool" where
  "vop_append_only (OpPutEntryVersion c u e) s = False"
| "vop_append_only x s = vop_ok x s"

lemma append_only_ok: "vop_append_only x s \<Longrightarrow> vop_ok x s \<and> (\<forall>c u e. x \<noteq> OpPutEntryVersion c u e)"
  by (cases x) auto

interpretation hist: op_system "vstep env" "\<lambda>s. vs_inv s \<and> history_kept s0 s" vop_append_only for env s0
proof unfold_locales
  fix s x
  assume "vs_inv s \<and> history_kept s0 s" "vop_append_only x s"
  then show "vs_inv (vstep env x s) \<and> history_kept s0 (vstep env x s)"
    using prims_vstep [of s x env] append_only_ok [of x s]
    by (auto intro: prims_inv prims_kept kept_trans)
qed

lemma kept_commit:
  "history_kept s0 s \<Longrightarrow> known s0 c \<Longrightarrow> hget (commits s) c = hget (commits s0) c"
  by (simp add: history_kept_def)

lemma kept_read:
  "vs_inv s0 \<Longrightarrow> history_kept s0 s \<Longrightarrow> known s0 c \<Longrightarrow>
   read_at env u (RefCommit c) l s = read_at env u (RefCommit c) l s0"
  by (simp add: history_kept_def read_at_def read_commit_def)

text \<open>C3: a commit never changes after it was made: in any later state reached by operations other than
  garbage collection and the test helper \<open>put_entry_version\<close>, which rewrites what an address has at a
  commit, with new identities for new commits, the commit record is the same and reading any address
  at that commit, at any level, gives the same answer.\<close>

theorem committed_is_immutable:
  assumes "vs_inv s" "hist.ok_run env ops s" "hget (commits s) c = Some k"
  shows "hget (commits (hist.run env ops s)) c = Some k \<and>
    read_at env u (RefCommit c) l (hist.run env ops s) = read_at env u (RefCommit c) l s"
proof -
  have "history_kept s (hist.run env ops s)"
    using hist.run_inv [of s s env ops] assms(1,2) by simp
  note later = this knownI [OF assms(3)]
  show ?thesis
    using kept_commit [OF later] kept_read [OF assms(1) later, of env u l] assms(3) by simp
qed

theorem committed_is_immutable_witness:
  "\<exists>k. hget (commits (hist.run demo_env demo_future demo_state)) (CommitId 1) = Some k \<and>
     read_at demo_env (demo_uri ''s/a'') (RefCommit (CommitId 1)) L0
       (hist.run demo_env demo_future demo_state) =
     read_at demo_env (demo_uri ''s/a'') (RefCommit (CommitId 1)) L0 demo_state"
proof -
  have ok: "hist.ok_run demo_env demo_future demo_state"
    unfolding demo_state_unfold demo_future_def hist.ok_run.simps by code_simp
  have "hget (commits demo_state) (CommitId 1) \<noteq> None"
    unfolding demo_state_unfold by code_simp
  then obtain k where "hget (commits demo_state) (CommitId 1) = Some k" by blast
  from committed_is_immutable [OF demo_inv ok this] show ?thesis by blast
qed

section \<open>HEAD and the branch that is checked out\<close>

text \<open>When a branch is checked out in a scope it exists, and HEAD is its head. This is what a
  commit needs. Cherry-pick and rebase move HEAD whatever is checked out, squash retargets
  the branches of every scope but one HEAD, and a branch can be deleted while it is checked
  out: these are left out (see \<open>cherry_pick_blocks_commits\<close>).\<close>

definition on_branch :: "vstore \<Rightarrow> bool" where
  "on_branch s \<longleftrightarrow>
     (\<forall>sk n. hget (attached_branches s) sk = Some n \<longrightarrow>
        (\<exists>b. hget (branches s) (sk, branch_str n) = Some b \<and> hget (heads s) sk = Some (b_head b)))"

fun vop_tracks :: "vop \<Rightarrow> vstore \<Rightarrow> bool" where
  "vop_tracks (OpCherryPick f now sc c n st) s = False"
| "vop_tracks (OpRebase f now sc a b st) s = False"
| "vop_tracks (OpSquash f now sc ids m) s = False"
| "vop_tracks (OpDeleteBranch sc n) s = (\<not> is_attached s (scope_key sc) n)"
| "vop_tracks _ s = True"

lemma branch_str_inj: "branch_str a = branch_str b \<longleftrightarrow> a = b"
  by (cases a; cases b) simp

lemma on_branchD:
  assumes "on_branch s" "hget (attached_branches s) sk = Some n"
  obtains b where "hget (branches s) (sk, branch_str n) = Some b" "hget (heads s) sk = Some (b_head b)"
  using assms unfolding on_branch_def by blast

lemma on_branch_store [simp]: "on_branch (store_commit k m s) = on_branch s"
  by (simp add: on_branch_def)

lemma on_branch_move:
  assumes "on_branch s" "hget (branches s) (sk, branch_str n) = Some b0"
  shows "on_branch (move_branch sk n c s)"
  using assms unfolding on_branch_def move_branch_def is_attached_def set_branch_head_def Let_def
  by (auto simp: set_head_def hm_simps branch_str_inj)

lemma on_branch_activate: "on_branch s \<Longrightarrow> on_branch (activate_branch sk n s)"
  unfolding on_branch_def activate_branch_def
  by (fastforce simp: hm_simps split: option.split)

lemma on_branch_commit:
  assumes "on_branch s"
  shows "on_branch (snd (make_commit env f now sc ch m s))"
proof -
  let ?par = "case head_of s (scope_key sc) of Some h \<Rightarrow> [h] | None \<Rightarrow> []"
  have "on_branch (set_head (scope_key sc) (CommitId f) (store_commit k snap s1))"
    if "advance_attached (scope_key sc) ?par (CommitId f) s = Inr s1" for s1 k snap
    using that
  proof (cases rule: advance_attached_Inr)
    case 1
    then show ?thesis using assms by (auto simp: on_branch_def set_head_def hm_simps)
  next
    case (2 n b)
    then show ?thesis using assms
      by (auto simp: on_branch_def set_head_def hm_simps branch_str_inj)
  qed
  then show ?thesis
    unfolding make_commit_def Let_def using assms by (auto split: sum.split)
qed

lemma on_branch_merge:
  assumes "on_branch s"
  shows "on_branch (snd (merge_branches env f now sc a b st s))"
  using assms unfolding merge_branches_def merge_diverged_def Let_def
  by (auto intro!: on_branch_move on_branch_activate split: option.split merge_strategy.split sum.split)

lemma vstep_on_branch:
  assumes "on_branch s" "vop_ok x s \<and> vop_tracks x s"
  shows "on_branch (vstep env x s)"
proof (cases x)
  case (OpCommitOnParent f now p m)
  then show ?thesis using assms by (simp add: commit_on_parent_def Let_def)
next
  case (OpPutEntryVersion c u e)
  then show ?thesis using assms by (simp add: put_entry_version_def Let_def on_branch_def)
next
  case (OpCreateBranch now sc n c bt)
  then show ?thesis using assms
    by (fastforce simp: create_branch_def Let_def on_branch_def hm_simps hhas_def branch_str_inj)
next
  case (OpDeleteBranch sc n)
  then show ?thesis using assms
    by (auto simp: delete_branch_def Let_def on_branch_def hm_simps is_attached_def branch_str_inj
        split: option.split)
next
  case (OpCreateTag sc t)
  then show ?thesis using assms by (simp add: create_tag_def on_branch_def)
next
  case (OpSwitchHead sc n)
  then show ?thesis using assms
    by (auto simp: switch_head_def Let_def on_branch_def set_head_def hm_simps split: option.split)
qed (use assms in \<open>auto intro: on_branch_commit on_branch_merge\<close>)

interpretation att: op_system "vstep env" on_branch "\<lambda>x s. vop_ok x s \<and> vop_tracks x s" for env
  by unfold_locales (rule vstep_on_branch)

lemma commit_when_on_branch:
  assumes "on_branch s" "apply_changes env ch
      (case head_of s (scope_key sc) of Some h \<Rightarrow> snapshot_at s h | None \<Rightarrow> []) = Inr snap"
  shows "fst (make_commit env f now sc ch m s) = Inr (CommitId f)"
proof (cases "hget (attached_branches s) (scope_key sc)")
  case None
  then show ?thesis using assms(2)
    by (cases "head_of s (scope_key sc)") (simp_all add: make_commit_def advance_attached_def Let_def)
next
  case (Some n)
  then obtain b where "hget (branches s) (scope_key sc, branch_str n) = Some b"
    "hget (heads s) (scope_key sc) = Some (b_head b)"
    using assms(1) by (elim on_branchD)
  then show ?thesis using assms(2) Some
    by (simp add: make_commit_def advance_attached_def head_of_def Let_def)
qed

text \<open>As long as only commits, branchings, switches, merges, tag edits and deletions of
  branches that are not checked out have run, a commit whose entries serialize is never
  refused: HEAD cannot diverge from the branch that is checked out.\<close>

theorem commit_never_refused:
  assumes "on_branch s" "att.ok_run env ops s"
    and "apply_changes env ch
      (case head_of (att.run env ops s) (scope_key sc) of
         Some h \<Rightarrow> snapshot_at (att.run env ops s) h | None \<Rightarrow> []) = Inr snap"
  shows "fst (make_commit env f now sc ch m (att.run env ops s)) = Inr (CommitId f)"
  by (rule commit_when_on_branch [OF att.run_inv [OF assms(1,2)] assms(3)])

theorem commit_never_refused_witness:
  "fst (make_commit demo_env 9 20 (demo_uri ''s'') (demo_add ''s/d'' ''w'') default_commit_meta
     (att.run demo_env (demo_past @ demo_future) demo_store)) = Inr (CommitId 9)"
proof -
  have ok: "att.ok_run demo_env (demo_past @ demo_future) demo_store"
    unfolding demo_past_def demo_future_def append.simps att.ok_run.simps by code_simp
  have run: "att.run demo_env (demo_past @ demo_future) demo_store =
      fold (vstep demo_env) (demo_past @ demo_future) demo_store"
    unfolding demo_past_def demo_future_def by simp
  have "on_branch demo_store" by (simp add: on_branch_def demo_store_def)
  then show ?thesis
    by (rule commit_never_refused [OF _ ok])
      (unfold run, simp add: apply_changes_def demo_add_def demo_env_def default_change_set_def)
qed

text \<open>Cherry-picking onto a branch that is not checked out moves HEAD of the scope with it,
  and from then on every commit in the scope is refused as diverged.\<close>

theorem cherry_pick_blocks_commits:
  "let s = snd (cherry_pick demo_env 5 15 (demo_uri ''s'') (CommitId 2) (BranchName ''exp'') CFail
             (fold (vstep demo_env) demo_past demo_store))
   in fst (make_commit demo_env 9 20 (demo_uri ''s'') default_change_set default_commit_meta s) =
        Inl (VStorage ''HEAD and attached branch main diverged'')"
  by code_simp

text \<open>Garbage collection removes commits that a branch still points to, so the branch can
  no longer be read or forked from.\<close>

theorem gc_drops_branch_heads:
  "let s = fold (vstep demo_env) demo_past demo_store;
       s' = snd (gc 77 (demo_uri ''s'') \<lparr>gp_keep_recent = 1, gp_max_age_days = 0\<rparr> s)
   in map_option b_head (hget (branches s') (''uwu://t/s'', ''exp'')) = Some (CommitId 1) \<and>
      \<not> known s' (CommitId 1)"
  by code_simp

end
