(* ===== verification/Version_Merging.thy ===== *)
theory Version_Merging
  imports Version_Safety
begin

text \<open>
  What commits, merges, cherry-picks, squashes, logs and diffs do to the content: each
  operation's snapshot is described address by address, through the map interface
  \<open>hm\<close> only.
\<close>

section \<open>Three-way merging\<close>

text \<open>The value of an address after a merge, from its values in the base, in the target and
  in the source; \<open>clash\<close> is a change on both sides to different values.\<close>

definition clash :: "'v option \<Rightarrow> 'v option \<Rightarrow> 'v option \<Rightarrow> bool" where
  "clash b ours theirs \<longleftrightarrow> theirs \<noteq> b \<and> ours \<noteq> b \<and> ours \<noteq> theirs"

definition merged_value ::
    "merge_strategy \<Rightarrow> 'v option \<Rightarrow> 'v option \<Rightarrow> 'v option \<Rightarrow> 'v option" where
  "merged_value strategy b ours theirs =
     (if theirs = b then ours
      else if clash b ours theirs then (if strategy = Theirs then theirs else ours)
      else theirs)"

definition clashes :: "snapshot \<Rightarrow> snapshot \<Rightarrow> snapshot \<Rightarrow> string list \<Rightarrow> string list" where
  "clashes base into from ks =
     filter (\<lambda>k. clash (hget base k) (hget into k) (hget from k)) ks"

lemma put_opt_assign: "put_opt = hm.assign"
  by (simp add: put_opt_def hm.assign_def fun_eq_iff)

text \<open>The loop writes the merged value of each key, and reports the clashing keys in order
  when the strategy does not settle them.\<close>

definition reports :: "merge_strategy \<Rightarrow> bool" where
  "reports st \<longleftrightarrow> st \<noteq> Ours \<and> st \<noteq> Theirs"

lemma merge_loop_Inr:
  assumes "merge_loop env st base into from ks m cs = Inr (m', cs')" "distinct ks"
    and "\<forall>k\<in>set ks. hget m k = hget into k"
  shows "hget m' k = (if k \<in> set ks then merged_value st (hget base k) (hget into k) (hget from k)
      else hget m k) \<and>
    map u_canonical cs' = map u_canonical cs @ (if reports st then clashes base into from ks else [])"
  using assms
proof (induction ks arbitrary: m cs)
  case (Cons x ks)
  let ?b = "hget base x" and ?o = "hget into x" and ?t = "hget from x"
  have put: "\<forall>k\<in>set ks. hget (put_opt x ?t m) k = hget into k"
    using Cons.prems(2,3) by (auto simp: put_opt_assign hm.lookup_assign)
  have keep: "\<forall>k\<in>set ks. hget m k = hget into k" using Cons.prems(3) by simp
  note keep_step = Cons.IH [OF _ _ keep] and put_step = Cons.IH [OF _ _ put]
  have x: "x \<notin> set ks" "distinct ks" "hget m x = ?o" using Cons.prems by auto
  show ?case
  proof (cases "clash ?b ?o ?t \<and> reports st")
    case True
    then have "\<exists>u. parse (parse_datetime env) x = Inr u \<and>
        merge_loop env st base into from ks m (cs @ [u]) = Inr (m', cs')"
      using Cons.prems(1) by (cases st) (auto simp: clash_def reports_def Let_def split: sum.splits)
    then obtain u where u: "u_canonical u = x"
      "merge_loop env st base into from ks m (cs @ [u]) = Inr (m', cs')"
      using parse_canonical unfolding parse_def by blast
    from keep_step [OF u(2) x(2)] show ?thesis using True x u(1)
      by (auto simp: merged_value_def clashes_def reports_def)
  next
    case False
    show ?thesis
    proof (cases "?t = ?b \<or> (clash ?b ?o ?t \<and> st = Ours)")
      case True
      then have "merge_loop env st base into from ks m cs = Inr (m', cs')"
        using Cons.prems(1) by (auto simp: clash_def Let_def)
      from keep_step [OF this x(2)] show ?thesis using True x
        by (auto simp: merged_value_def clashes_def clash_def reports_def)
    next
      case other: False
      then have "merge_loop env st base into from ks (put_opt x ?t m) cs = Inr (m', cs')"
        using Cons.prems(1) False by (cases st) (auto simp: clash_def Let_def reports_def split: if_splits)
      from put_step [OF this x(2)] show ?thesis using other False x
        by (auto simp: merged_value_def clashes_def reports_def put_opt_assign hm.lookup_assign)
    qed
  qed
qed (simp add: clashes_def)

lemma merge_loop_total:
  assumes "reports st \<longrightarrow> (\<forall>k\<in>set (clashes base into from ks). \<exists>u. parse (parse_datetime env) k = Inr u)"
  shows "\<exists>r. merge_loop env st base into from ks m cs = Inr r"
  using assms
proof (induction ks arbitrary: m cs)
  case (Cons x ks)
  then have IH: "\<And>m cs. \<exists>r. merge_loop env st base into from ks m cs = Inr r"
    by (auto simp: clashes_def)
  have "\<exists>u. parse (parse_datetime env) x = Inr u"
    if "clash (hget base x) (hget into x) (hget from x)" "reports st"
    using Cons.prems that by (auto simp: clashes_def)
  then show ?case using IH
    by (cases st) (auto simp: Let_def clash_def reports_def)
qed simp

lemma merge_keys_all:
  "distinct (merge_keys base from into)"
  "k \<notin> set (merge_keys base from into) \<Longrightarrow> hget base k = None \<and> hget from k = None \<and> hget into k = None"
  by (auto simp: merge_keys_def set_hkeys)

lemma merged_value_None [simp]: "merged_value st None None None = None"
  by (simp add: merged_value_def)

lemma merge_snapshot:
  assumes "merge_loop env st base into from (merge_keys base from into) into [] = Inr (m, cs)"
  shows "hget m k = merged_value st (hget base k) (hget into k) (hget from k)"
    and "map u_canonical cs =
      (if reports st then clashes base into from (merge_keys base from into) else [])"
  using merge_loop_Inr [OF assms merge_keys_all(1), of k] merge_keys_all(2) [of k base "from" into]
  by (auto split: if_splits)

lemma snapshot_store [simp]:
  "snapshot_at (store_commit k m s) c = (if c = c_id k then m else snapshot_at s c)"
  by (simp add: snapshot_at_def store_commit_def hm_simps)

lemma snapshot_fields [simp]:
  "snapshot_at (s\<lparr>branches := bs\<rparr>) = snapshot_at s" "snapshot_at (set_head sk c s) = snapshot_at s"
  "snapshot_at (move_branch sk n c s) = snapshot_at s"
  by (simp_all add: snapshot_at_def set_head_def move_branch_def Let_def fun_eq_iff)

lemma commits_fields [simp]:
  "commits (set_head sk c s) = commits s" "commits (move_branch sk n c s) = commits s"
  "hget (commits (store_commit k m s)) c = (if c = c_id k then Some k else hget (commits s) c)"
  by (simp_all add: set_head_def move_branch_def Let_def store_commit_def hm_simps)

lemma branches_set_head [simp]: "branches (set_head sk c s) = branches s"
  by (simp add: set_head_def)

lemma branches_move:
  "hget (branches (move_branch sk n c s)) key =
     (if key = (sk, branch_str n) then map_option (\<lambda>b. b\<lparr>b_head := c\<rparr>) (hget (branches s) key)
      else hget (branches s) key)"
  by (simp add: move_branch_def Let_def set_branch_head_def hm_simps split: option.split)

text \<open>C2: merging diverged branches makes one commit with both heads as parents whose content is,
  address by address, the three-way merge against the merge base, deletions included; the
  conflicts reported are exactly the addresses both sides changed to different values, none
  under the strategies that choose a side; only the target branch moves.\<close>

theorem merge_is_three_way:
  assumes fb: "hget (branches s) (scope_key sc, branch_str a) = Some fb"
    and ib: "hget (branches s) (scope_key sc, branch_str b) = Some ib"
    and diverged: "\<not> is_ancestor s (b_head ib) (b_head fb)"
    and ok: "merge_branches env f now sc a b st s = (Inr r, s')"
  shows "mr_commit r = CommitId f \<and>
    map_option c_parents (hget (commits s') (CommitId f)) = Some [b_head ib, b_head fb] \<and>
    (let base = base_snapshot_of s (b_head fb) (b_head ib);
         ours = snapshot_at s (b_head ib); theirs = snapshot_at s (b_head fb)
     in hget (snapshot_at s' (CommitId f)) k =
          merged_value st (hget base k) (hget ours k) (hget theirs k) \<and>
        map u_canonical (mr_conflicts r) =
          (if st = ThreeWay then clashes base ours theirs (merge_keys base theirs ours) else [])) \<and>
    map_option b_head (hget (branches s') key) =
      (if key = (scope_key sc, branch_str b) then Some (CommitId f)
       else map_option b_head (hget (branches s) key))"
proof -
  let ?base = "base_snapshot_of s (b_head fb) (b_head ib)"
  let ?ours = "snapshot_at s (b_head ib)" and ?theirs = "snapshot_at s (b_head fb)"
  have st: "st \<noteq> FastForward"
    using ok fb ib diverged by (auto simp: merge_branches_def)
  then have "merge_diverged env f now (scope_key sc) a b st (b_head fb) (b_head ib) s = (Inr r, s')"
    using ok fb ib diverged by (cases st) (auto simp: merge_branches_def Let_def)
  then obtain m cs where loop: "merge_loop env st ?base ?ours ?theirs
      (merge_keys ?base ?theirs ?ours) ?ours [] = Inr (m, cs)"
    and r: "r = \<lparr>mr_commit = CommitId f, mr_conflicts = cs\<rparr>"
    and s': "s' = move_branch (scope_key sc) b (CommitId f)
      (store_commit (merge_commit env (CommitId f) now a b (b_head fb) (b_head ib)) m s)"
    by (auto simp: merge_diverged_def Let_def split: sum.splits)
  have "reports st \<longleftrightarrow> st = ThreeWay" using st by (cases st) (auto simp: reports_def)
  then show ?thesis
    using merge_snapshot(1) [OF loop, of k] merge_snapshot(2) [OF loop] r s' ib by (simp add: branches_move Let_def)
qed

theorem merge_is_three_way_witness:
  "\<exists>r s'. merge_branches demo_env 4 14 (demo_uri ''s'') (BranchName ''exp'') (BranchName ''main'') ThreeWay
       (fold (vstep demo_env) (demo_past @ take 2 demo_future) demo_store) = (Inr r, s') \<and>
     mr_commit r = CommitId 4"
proof -
  let ?s = "fold (vstep demo_env) (demo_past @ take 2 demo_future) demo_store"
  let ?m = "merge_branches demo_env 4 14 (demo_uri ''s'') (BranchName ''exp'') (BranchName ''main'') ThreeWay ?s"
  have heads: "map_option b_head (hget (branches ?s) (scope_key (demo_uri ''s''), ''exp'')) = Some (CommitId 3)"
    "map_option b_head (hget (branches ?s) (scope_key (demo_uri ''s''), ''main'')) = Some (CommitId 2)"
    by code_simp+
  have anc: "\<not> is_ancestor ?s (CommitId 2) (CommitId 3)" by code_simp
  have "(case fst ?m of Inr r \<Rightarrow> True | Inl e \<Rightarrow> False)" by code_simp
  then obtain r s' where m: "?m = (Inr r, s')" by (cases ?m) (auto split: sum.splits)
  obtain fb ib where b: "hget (branches ?s) (scope_key (demo_uri ''s''), branch_str (BranchName ''exp'')) = Some fb"
    "hget (branches ?s) (scope_key (demo_uri ''s''), branch_str (BranchName ''main'')) = Some ib"
    "b_head fb = CommitId 3" "b_head ib = CommitId 2"
    using heads by (auto simp del: fold.simps)
  have "mr_commit r = CommitId 4"
    using merge_is_three_way [OF b(1,2) _ m] anc b(3,4) by simp
  with m show ?thesis by blast
qed

text \<open>On sides that do not clash, merging is symmetric: merging the one into the other or
  the other into the one, under any strategies, gives the same content and no conflicts.\<close>

theorem merge_symmetric:
  assumes "\<forall>k. \<not> clash (hget base k) (hget x k) (hget y k)"
    and "merge_loop env st base x y (merge_keys base y x) x [] = Inr (m1, c1)"
    and "merge_loop env st' base y x (merge_keys base x y) y [] = Inr (m2, c2)"
  shows "hget m1 = hget m2 \<and> c1 = [] \<and> c2 = []"
proof -
  have sym: "\<not> clash (hget base k) (hget y k) (hget x k)" for k
    using assms(1) by (auto simp: clash_def)
  have "hget m1 k = hget m2 k" for k
    using merge_snapshot(1) [OF assms(2), of k] merge_snapshot(1) [OF assms(3), of k] assms(1) sym [of k]
    by (auto simp: merged_value_def clash_def)
  moreover have "map u_canonical c1 = []" "map u_canonical c2 = []"
    using merge_snapshot(2) [OF assms(2)] merge_snapshot(2) [OF assms(3)] assms(1) sym
    by (auto simp: clashes_def)
  ultimately show ?thesis by auto
qed

theorem merge_symmetric_witness:
  "hget [(''a'', ''1''), (''b'', ''2'')] = hget [(''b'', ''2''), (''a'', ''1''::string)] \<and>
     ([]::context_uri list) = [] \<and> ([]::context_uri list) = []"
  by (rule merge_symmetric [of "[]" "[(''a'', ''1'')]" "[(''b'', ''2'')]" demo_env ThreeWay _ _ Theirs])
    (simp_all add: clash_def hget_def merge_keys_def hkeys_def put_opt_def hput_def)

section \<open>Commits\<close>

text \<open>The content of a commit, specified on partial functions.\<close>

type_synonym tree = "string \<Rightarrow> string option"

definition spec_put :: "version_env \<Rightarrow> context_entry \<Rightarrow> tree \<Rightarrow> tree" where
  "spec_put env e t =
     (case entry_to_json env e of Inr j \<Rightarrow> t(u_canonical (e_uri e) \<mapsto> j) | Inl _ \<Rightarrow> t)"

definition spec_rename :: "rename_op \<Rightarrow> tree \<Rightarrow> tree" where
  "spec_rename r t =
     (let a = u_canonical (rn_from r); b = u_canonical (rn_to r)
      in if t a = None then t else t(a := None, b := t a))"

definition spec_changes :: "version_env \<Rightarrow> change_set \<Rightarrow> tree \<Rightarrow> tree" where
  "spec_changes env ch t =
     fold spec_rename (cs_renames ch)
       ((fold (spec_put env) (map uc_entry (cs_updates ch)) (fold (spec_put env) (cs_adds ch) t))
          |` (- (u_canonical ` set (cs_deletes ch))))"

lemma apply_adds_spec:
  "apply_adds env es m = Inr m' \<Longrightarrow> hget m' = fold (spec_put env) es (hget m)"
  by (induction es arbitrary: m) (auto simp: spec_put_def hget_hput_fun split: sum.splits)

lemma apply_updates_spec:
  "apply_updates env us m = Inr m' \<Longrightarrow> hget m' = fold (spec_put env) (map uc_entry us) (hget m)"
  by (induction us arbitrary: m) (auto simp: spec_put_def hget_hput_fun split: sum.splits if_splits)

lemma apply_deletes_spec:
  "hget (apply_deletes ds m) = hget m |` (- (u_canonical ` set ds))"
  unfolding apply_deletes_def
  by (induction ds arbitrary: m) (auto simp: hget_hdel_fun restrict_map_def fun_eq_iff)

lemma apply_rename_spec: "hget (apply_rename r m) = spec_rename r (hget m)"
  by (auto simp: apply_rename_def spec_rename_def hget_hput_fun hget_hdel_fun Let_def
      split: option.split)

lemma apply_renames_spec: "hget (fold apply_rename rs m) = fold spec_rename rs (hget m)"
  by (induction rs arbitrary: m) (simp_all add: apply_rename_spec)

lemma apply_changes_spec:
  assumes "apply_changes env ch m = Inr m'"
  shows "hget m' = spec_changes env ch (hget m)"
proof -
  obtain m1 m2 where "apply_adds env (cs_adds ch) m = Inr m1"
    "apply_updates env (cs_updates ch) m1 = Inr m2"
    "m' = fold apply_rename (cs_renames ch) (apply_deletes (cs_deletes ch) m2)"
    using assms by (auto simp: apply_changes_def split: sum.splits)
  then show ?thesis
    by (simp add: spec_changes_def apply_renames_spec apply_deletes_spec
        apply_adds_spec apply_updates_spec)
qed

lemma make_commit_Inr:
  assumes "make_commit env f now sc ch m s = (Inr c, s')"
  obtains par snap s1 where "c = CommitId f"
    "par = (case head_of s (scope_key sc) of Some h \<Rightarrow> [h] | None \<Rightarrow> [])"
    "apply_changes env ch (case par of p # _ \<Rightarrow> snapshot_at s p | [] \<Rightarrow> []) = Inr snap"
    "advance_attached (scope_key sc) par c s = Inr s1"
    "s' = set_head (scope_key sc) c (store_commit (commit_record env c par now m) snap s1)"
  using assms by (auto simp: make_commit_def Let_def split: sum.splits)

lemma advance_branches:
  assumes "advance_attached sk par c s = Inr s1"
  shows "hget (branches s1) key =
      (if fst key = sk \<and> map_option branch_str (hget (attached_branches s) sk) = Some (snd key)
       then map_option (\<lambda>b. b\<lparr>b_head := c\<rparr>) (hget (branches s) key) else hget (branches s) key)"
    and "heads s1 = heads s" "snapshot_at s1 = snapshot_at s"
  using assms by (cases rule: advance_attached_Inr; cases key; auto simp: hm_simps)+

lemma head_of_simps [simp]:
  "head_of (set_head sk c s) k = (if k = sk then Some c else head_of s k)"
  "head_of (store_commit kk m s) k = head_of s k"
  by (simp_all add: head_of_def set_head_def hm_simps)

lemma commit_effect_content:
  assumes "make_commit env f now sc ch m s = (Inr c, s')"
  shows "hget (snapshot_at s' c) = spec_changes env ch
    (hget (case head_of s (scope_key sc) of Some h \<Rightarrow> snapshot_at s h | None \<Rightarrow> []))"
  using assms
proof (cases rule: make_commit_Inr)
  case (1 par snap s1)
  have "hget snap = spec_changes env ch (hget (case par of p # _ \<Rightarrow> snapshot_at s p | [] \<Rightarrow> []))"
    using 1(3) by (rule apply_changes_spec)
  then show ?thesis using 1(2,5) by (simp split: option.splits)
qed

text \<open>C4: a commit stores the changes, in the order adds, updates, deletes, renames, over the
  content of the scope's HEAD, makes that HEAD its only parent and the new commit the HEAD;
  the HEADs of other scopes and every branch but the one that is checked out stay.\<close>

theorem commit_effect:
  assumes "make_commit env f now sc ch m s = (Inr c, s')"
  shows "hget (snapshot_at s' c) =
      spec_changes env ch
        (hget (case head_of s (scope_key sc) of Some h \<Rightarrow> snapshot_at s h | None \<Rightarrow> [])) \<and>
    map_option c_parents (hget (commits s') c) =
      Some (case head_of s (scope_key sc) of Some h \<Rightarrow> [h] | None \<Rightarrow> []) \<and>
    head_of s' sk = (if sk = scope_key sc then Some c else head_of s sk) \<and>
    hget (branches s') (sk, n) =
      (if sk = scope_key sc \<and> map_option branch_str (hget (attached_branches s) sk) = Some n
       then map_option (\<lambda>b. b\<lparr>b_head := c\<rparr>) (hget (branches s) (sk, n))
       else hget (branches s) (sk, n))"
  using assms
proof (cases rule: make_commit_Inr)
  case (1 par snap s1)
  note adv = advance_branches [OF 1(4)]
  have "head_of s1 k = head_of s k" for k
    using adv(2) by (simp add: head_of_def)
  then show ?thesis
    using 1(2,5) adv(1) [of "(sk, n)"] commit_effect_content [OF assms] by auto
qed

theorem commit_effect_witness:
  "\<exists>s'. make_commit demo_env 9 20 (demo_uri ''s'') (demo_add ''s/d'' ''w'') default_commit_meta
       demo_store = (Inr (CommitId 9), s') \<and>
     hget (snapshot_at s' (CommitId 9)) ''uwu://t/s/d'' = Some ''w''"
proof -
  let ?c = "make_commit demo_env 9 20 (demo_uri ''s'') (demo_add ''s/d'' ''w'') default_commit_meta demo_store"
  have "fst ?c = Inr (CommitId 9)" by code_simp
  then obtain s' where c: "?c = (Inr (CommitId 9), s')" by (cases ?c) auto
  have "hget (snapshot_at s' (CommitId 9)) ''uwu://t/s/d'' = Some ''w''"
    using commit_effect [OF c]
    by (simp add: spec_changes_def spec_put_def demo_add_def demo_entry_def demo_env_def demo_uri_def
        default_change_set_def new_text_def l0_text_def head_of_def demo_store_def)
  with c show ?thesis by blast
qed

text \<open>What a commit adds last under an address, and neither updates, deletes nor renames, is
  what the commit holds there.\<close>

lemma fold_put_other:
  "\<forall>e\<in>set es. u_canonical (e_uri e) \<noteq> k \<Longrightarrow> fold (spec_put env) es t k = t k"
  by (induction es arbitrary: t) (auto simp: spec_put_def split: sum.split)

lemma fold_rename_other:
  "\<forall>r\<in>set rs. u_canonical (rn_from r) \<noteq> k \<and> u_canonical (rn_to r) \<noteq> k \<Longrightarrow> fold spec_rename rs t k = t k"
  by (induction rs arbitrary: t) (auto simp: spec_rename_def Let_def)

definition untouched :: "change_set \<Rightarrow> context_entry list \<Rightarrow> string \<Rightarrow> bool" where
  "untouched ch later k \<longleftrightarrow>
     list_all (\<lambda>e. u_canonical (e_uri e) \<noteq> k) (later @ map uc_entry (cs_updates ch)) \<and>
     list_all (\<lambda>d. u_canonical d \<noteq> k) (cs_deletes ch) \<and>
     list_all (\<lambda>r. u_canonical (rn_from r) \<noteq> k \<and> u_canonical (rn_to r) \<noteq> k) (cs_renames ch)"

lemma spec_changes_added:
  assumes "cs_adds ch = earlier @ e # later" "entry_to_json env e = Inr j"
    and "untouched ch later (u_canonical (e_uri e))"
  shows "spec_changes env ch t (u_canonical (e_uri e)) = Some j"
  using assms
  by (auto simp: spec_changes_def untouched_def list_all_iff fold_rename_other fold_put_other
      spec_put_def restrict_map_def)

text \<open>What is added in a commit reads back: when the entry codec inverts itself on the entry
  and the same commit does not touch its address again, reading the address at the commit at
  full level gives the entry's payload.\<close>

theorem commit_reads_back:
  assumes "make_commit env f now sc ch m s = (Inr c, s')"
    and "cs_adds ch = earlier @ e # later" "untouched ch later (u_canonical (e_uri e))"
    and "entry_to_json env e = Inr j" "entry_of_json env j = Inr e"
  shows "read_at env (e_uri e) (RefCommit c) L2 s' = Inr (e_payload e)"
proof -
  have "\<exists>snap. hget (entry_snapshots s') c = Some snap"
    using assms(1) by (cases rule: make_commit_Inr)
      (auto simp: set_head_def store_commit_def hm_simps)
  then obtain snap where snap: "hget (entry_snapshots s') c = Some snap" by blast
  have "hget (snapshot_at s' c) (u_canonical (e_uri e)) = Some j"
    using commit_effect_content [OF assms(1)] spec_changes_added [OF assms(2,4,3)] by simp
  then show ?thesis
    using snap assms(5) by (simp add: read_at_def read_commit_def snapshot_at_def at_level_def)
qed

theorem commit_reads_back_witness:
  "let env = demo_env\<lparr>entry_of_json := \<lambda>_. Inr (demo_entry ''s/d'' ''w'')\<rparr>
   in read_at env (demo_uri ''s/d'') (RefCommit (CommitId 9)) L2
        (snd (make_commit env 9 20 (demo_uri ''s'') (demo_add ''s/d'' ''w'') default_commit_meta demo_store))
      = Inr (Text ''w'' ''w'' ''w'')"
proof -
  let ?env = "demo_env\<lparr>entry_of_json := \<lambda>_. Inr (demo_entry ''s/d'' ''w'')\<rparr>"
  let ?c = "make_commit ?env 9 20 (demo_uri ''s'') (demo_add ''s/d'' ''w'') default_commit_meta demo_store"
  have "fst ?c = Inr (CommitId 9)" by code_simp
  then have "?c = (Inr (CommitId 9), snd ?c)" by (cases ?c) simp
  from commit_reads_back [OF this, of "[]" "demo_entry ''s/d'' ''w''" "[]" "''w''"] show ?thesis
    by (simp add: untouched_def demo_add_def default_change_set_def demo_env_def demo_entry_def
        new_text_def l0_text_def)
qed

end
