(* ===== verification/Version_History.thy ===== *)
theory Version_History
  imports Version_Merging
begin

text \<open>
  Rewriting and reading history: cherry-pick as a three-way merge against the parent of the
  picked commit, squash, the log as the first-parent chain, and the diff of two commits.
\<close>

section \<open>Cherry-pick\<close>

definition as_merge :: "conflict_strategy \<Rightarrow> merge_strategy" where
  "as_merge st = (case st of CFail \<Rightarrow> ThreeWay | COurs \<Rightarrow> Ours | CTheirs \<Rightarrow> Theirs)"

lemma changed_uris_set: "set (changed_uris source base) = {k. hget source k \<noteq> hget base k}"
  by (auto simp: changed_uris_def set_hkeys)

lemma pick_conflicts_set:
  "set (pick_conflicts source base target) =
     {k. clash (hget base k) (hget target k) (hget source k)}"
  by (auto simp: pick_conflicts_def changed_uris_set clash_def)

lemma lookup_fold_unless:
  "hget (fold (\<lambda>u m. if u \<in> S then m else put_opt u (f u) m) ks m) k =
     (if k \<in> set ks \<and> k \<notin> S then f k else hget m k)"
  by (induction ks arbitrary: m) (auto simp: put_opt_assign hm.lookup_assign)

lemma pick_snapshot_value:
  "hget (pick_snapshot st source base target) k =
     (if clash (hget base k) (hget target k) (hget source k) \<and> st = CFail then hget source k
      else merged_value (as_merge st) (hget base k) (hget target k) (hget source k))"
  unfolding pick_snapshot_def Let_def lookup_fold_unless
  by (cases st) (auto simp: changed_uris_set pick_conflicts_set merged_value_def as_merge_def clash_def)

definition pick_base :: "vstore \<Rightarrow> commit \<Rightarrow> snapshot" where
  "pick_base s src = (case first_parent src of Some p \<Rightarrow> snapshot_at s p | None \<Rightarrow> [])"

lemma pick_base_cases:
  "(case c_parents src of p # _ \<Rightarrow> snapshot_at s p | [] \<Rightarrow> []) = pick_base s src"
  by (simp add: pick_base_def first_parent_def split: list.split)

text \<open>C17: cherry-picking onto an existing branch is a three-way merge of the branch with the
  picked commit, its first parent being the base: it is refused exactly when the strategy is
  to fail and some address clashes, and then changes nothing; else the new commit on top of
  the branch holds, address by address, the merged value.\<close>

theorem cherry_pick_is_merge:
  assumes "hget (commits s) cid = Some src"
    and "hget (branches s) (scope_key sc, branch_str n) = Some b"
  shows "let base = pick_base s src; source = snapshot_at s cid; target = snapshot_at s (b_head b);
      clashing = {k. clash (hget base k) (hget target k) (hget source k)}
    in case cherry_pick env f now sc cid n st s of
         (Inl e, s') \<Rightarrow> st = CFail \<and> clashing \<noteq> {} \<and> s' = s
       | (Inr c, s') \<Rightarrow> (st \<noteq> CFail \<or> clashing = {}) \<and> c = CommitId f \<and>
           hget (snapshot_at s' c) = (\<lambda>k. merged_value (as_merge st) (hget base k) (hget target k) (hget source k)) \<and>
           map_option c_parents (hget (commits s') c) = Some [b_head b] \<and>
           map_option b_head (hget (branches s') (scope_key sc, branch_str n)) = Some c"
proof -
  let ?base = "pick_base s src" and ?source = "snapshot_at s cid" and ?target = "snapshot_at s (b_head b)"
  have empty: "pick_conflicts ?source ?base ?target = [] \<longleftrightarrow>
      {k. clash (hget ?base k) (hget ?target k) (hget ?source k)} = {}"
    unfolding set_empty [symmetric] pick_conflicts_set ..
  show ?thesis
  proof (cases "st = CFail \<and> pick_conflicts ?source ?base ?target \<noteq> []")
    case True
    then show ?thesis using assms empty
      by (simp add: cherry_pick_def Let_def pick_base_cases)
  next
    case False
    then have "hget (pick_snapshot st ?source ?base ?target) k =
        merged_value (as_merge st) (hget ?base k) (hget ?target k) (hget ?source k)" for k
      using pick_snapshot_value [of st ?source ?base ?target k] empty by auto
    then show ?thesis using False assms empty
      by (auto simp: cherry_pick_def Let_def pick_base_cases set_branch_head_def hm_simps)
  qed
qed

theorem cherry_pick_is_merge_witness:
  "\<exists>src b. hget (commits demo_state) (CommitId 2) = Some src \<and>
     hget (branches demo_state) (scope_key (demo_uri ''s''), ''exp'') = Some b \<and>
     (case cherry_pick demo_env 5 15 (demo_uri ''s'') (CommitId 2) (BranchName ''exp'') CTheirs demo_state of
        (Inl e, s') \<Rightarrow> False | (Inr c, s') \<Rightarrow> c = CommitId 5)"
proof -
  have "hget (commits demo_state) (CommitId 2) \<noteq> None"
    "hget (branches demo_state) (scope_key (demo_uri ''s''), ''exp'') \<noteq> None"
    unfolding demo_state_unfold by code_simp+
  then obtain src b where *: "hget (commits demo_state) (CommitId 2) = Some src"
    "hget (branches demo_state) (scope_key (demo_uri ''s''), branch_str (BranchName ''exp'')) = Some b"
    by auto
  from cherry_pick_is_merge [OF *, where env = demo_env and f = 5 and now = 15 and st = CTheirs] * show ?thesis
    by (auto simp: Let_def split: prod.splits sum.splits)
qed

section \<open>The log\<close>

text \<open>A first-parent line of stored commits, newest first.\<close>

fun parent_line :: "commit list \<Rightarrow> bool" where
  "parent_line (a # b # rest) = (first_parent a = Some (c_id b) \<and> parent_line (b # rest))"
| "parent_line _ = True"

definition stored :: "vstore \<Rightarrow> commit \<Rightarrow> bool" where
  "stored s k \<longleftrightarrow> hget (commits s) (c_id k) = Some k"

lemma inv_stored: "vs_inv s \<Longrightarrow> hget (commits s) c = Some k \<Longrightarrow> stored s k \<and> c_id k = c"
  by (auto simp: vs_inv_def stored_def)

lemma log_walk_step:
  "log_walk cs (Suc n) c =
     (case hget cs c of None \<Rightarrow> []
      | Some k \<Rightarrow> k # (case first_parent k of None \<Rightarrow> [] | Some p \<Rightarrow> log_walk cs n p))"
  by (simp add: first_parent_def split: option.split list.split)

lemma log_walk_length: "length (log_walk cs n c) \<le> n"
  by (induction n arbitrary: c) (auto simp: log_walk_step simp del: log_walk.simps(2) split: option.split)

lemma log_walk_hd:
  "log_walk cs n c = [] \<or> hget cs c = Some (hd (log_walk cs n c))"
  by (cases n) (auto split: option.split)

lemma log_walk_line:
  assumes "vs_inv s"
  shows "parent_line (log_walk (commits s) n c) \<and> list_all (stored s) (log_walk (commits s) n c)"
proof (induction n arbitrary: c)
  case (Suc n)
  have "parent_line (k # log_walk (commits s) n p) \<and> list_all (stored s) (k # log_walk (commits s) n p)"
    if "hget (commits s) c = Some k" "first_parent k = Some p" for k p
  proof (cases "log_walk (commits s) n p")
    case Nil
    then show ?thesis using inv_stored [OF assms that(1)] by simp
  next
    case (Cons k' rest)
    then have "c_id k' = p"
      using log_walk_hd [of "commits s" n p] inv_stored [OF assms, of p k'] by simp
    then show ?thesis using inv_stored [OF assms that(1)] that(2) Suc.IH [of p] Cons by simp
  qed
  then show ?case using inv_stored [OF assms, of c]
    by (auto simp: log_walk_step simp del: log_walk.simps(2) split: option.split)
qed simp

text \<open>A walk that stops before its bound has reached a commit with no stored parent.\<close>

lemma log_walk_end:
  assumes "length (log_walk cs n c) < n" "log_walk cs n c \<noteq> []"
  shows "Option.bind (first_parent (last (log_walk cs n c))) (hget cs) = None"
  using assms
proof (induction n arbitrary: c)
  case (Suc n)
  from Suc.prems obtain k where k: "hget cs c = Some k"
    by (auto split: option.splits)
  show ?case
  proof (cases "first_parent k")
    case None
    then show ?thesis using k by (simp add: log_walk_step del: log_walk.simps(2))
  next
    case (Some p)
    show ?thesis
    proof (cases "log_walk cs n p = []")
      case True
      then have "hget cs p = None"
        using Suc.prems k Some by (cases n) (auto simp: log_walk_step simp del: log_walk.simps(2)
          split: option.splits)
      then show ?thesis using k Some True by (simp add: log_walk_step del: log_walk.simps(2))
    next
      case False
      then show ?thesis using Suc.IH [OF _ False] Suc.prems k Some
        by (simp add: log_walk_step del: log_walk.simps(2))
    qed
  qed
qed simp

definition log_bound :: "log_opts \<Rightarrow> nat" where
  "log_bound opts = (case lo_max_count opts of Some n \<Rightarrow> n | None \<Rightarrow> 20)"

text \<open>The log is a line of stored commits, each the first parent of the one before it,
  starting at the branch head or HEAD, at most as long as the bound (20 when not given), and
  it ends before the bound only at a commit without a stored first parent.\<close>

theorem log_is_parent_line:
  assumes "vs_inv s"
    and "(case lo_branch opts of Some n \<Rightarrow> map_option b_head (hget (branches s) (scope_key sc, branch_str n))
          | None \<Rightarrow> head_of s (scope_key sc)) = Some h"
  shows "let l = store_log f sc opts s
    in parent_line l \<and> list_all (stored s) l \<and> length l \<le> log_bound opts \<and>
       (log_bound opts = 0 \<or> (l \<noteq> [] \<and> c_id (hd l) = h \<and>
         (length l = log_bound opts \<or> Option.bind (first_parent (last l)) (hget (commits s)) = None)))"
proof -
  have l: "store_log f sc opts s = log_walk (commits s) (log_bound opts) h"
    using assms(2) by (auto simp: store_log_def Let_def log_bound_def split: option.splits)
  have "known s h"
    using assms vs_inv_knows(1,2) by (fastforce simp: head_of_def split: option.splits)
  then obtain k where k: "hget (commits s) h = Some k" by (auto simp: known_def hhas_def)
  have start: "log_walk (commits s) (log_bound opts) h \<noteq> [] \<and>
      c_id (hd (log_walk (commits s) (log_bound opts) h)) = h" if "log_bound opts \<noteq> 0"
    using that k inv_stored [OF assms(1) k] by (cases "log_bound opts") auto
  show ?thesis
    unfolding l Let_def
    using log_walk_line [OF assms(1)] log_walk_length [of "commits s" "log_bound opts" h] start
      log_walk_end [of "commits s" "log_bound opts" h] by (auto simp: le_less)
qed

theorem log_is_parent_line_witness:
  "let l = store_log 77 (demo_uri ''s'') \<lparr>lo_max_count = None, lo_branch = None\<rparr> demo_state
   in parent_line l \<and> c_id (hd l) = CommitId 2"
proof -
  have "head_of demo_state (scope_key (demo_uri ''s'')) = Some (CommitId 2)"
    unfolding demo_state_unfold by code_simp
  then show ?thesis
    using log_is_parent_line [OF demo_inv, where opts = "\<lparr>lo_max_count = None, lo_branch = None\<rparr>"
        and sc = "demo_uri ''s''" and h = "CommitId 2" and f = 77]
    by (simp add: Let_def log_bound_def)
qed

section \<open>Squash\<close>

lemma squash_Inr:
  assumes "squash env f now sc ids msg s = (Inr r, s')"
  obtains "2 \<le> length ids" "consecutive (commits s) ids" "first_missing (commits s) ids = None"
    "r = \<lparr>sq_new_commit = CommitId f, sq_squashed_count = length ids\<rparr>"
    "s' = (let s1 = store_commit (squash_commit env (CommitId f) now
                (Option.bind (hget (commits s) (hd ids)) first_parent) msg) (snapshot_at s (last ids)) s;
              s2 = s1\<lparr>branches := retarget (last ids) (CommitId f) (branches s1)\<rparr>
          in if head_of s2 (scope_key sc) = Some (last ids) then set_head (scope_key sc) (CommitId f) s2 else s2)"
  using assms unfolding squash_def Let_def
  by (auto split: if_splits option.splits)

text \<open>Squashing replaces a consecutive first-parent range by one commit with the content of its
  newest commit and the parent of its oldest one; every branch that pointed to the newest
  commit, and HEAD if it did, now points to the new one, other branches stay.\<close>

theorem squash_keeps_content:
  assumes "squash env f now sc ids msg s = (Inr r, s')"
  shows "snapshot_at s' (sq_new_commit r) = snapshot_at s (last ids) \<and>
    sq_squashed_count r = length ids \<and>
    map_option c_parents (hget (commits s') (sq_new_commit r)) =
      Some (case Option.bind (hget (commits s) (hd ids)) first_parent of Some p \<Rightarrow> [p] | None \<Rightarrow> []) \<and>
    map_option b_head (hget (branches s') key) =
      map_option ((\<lambda>h. if h = last ids then sq_new_commit r else h) \<circ> b_head) (hget (branches s) key) \<and>
    head_of s' (scope_key sc) =
      map_option (\<lambda>h. if h = last ids then sq_new_commit r else h) (head_of s (scope_key sc))"
  using assms
proof (cases rule: squash_Inr)
  case 1
  then show ?thesis
    by (cases "head_of s (scope_key sc)"; cases "hget (branches s) key")
      (auto simp: Let_def hget_retarget head_of_def store_commit_def set_head_def hm_simps snapshot_at_def)
qed

theorem squash_keeps_content_witness:
  "\<exists>r s'. squash demo_env 6 16 (demo_uri ''s'') [CommitId 1, CommitId 2] ''sq'' demo_state = (Inr r, s') \<and>
     snapshot_at s' (sq_new_commit r) = snapshot_at demo_state (CommitId 2)"
proof -
  let ?q = "squash demo_env 6 16 (demo_uri ''s'') [CommitId 1, CommitId 2] ''sq'' demo_state"
  have "(case fst ?q of Inr r \<Rightarrow> True | Inl e \<Rightarrow> False)"
    unfolding demo_state_unfold by code_simp
  then obtain r s' where q: "?q = (Inr r, s')" by (cases ?q) (auto split: sum.splits)
  from squash_keeps_content [OF this, of "(''uwu://t/s'', ''main'')"] q show ?thesis by auto
qed

section \<open>Diff\<close>

lemma parsed_uris_mem:
  "u \<in> set (parsed_uris env ks) \<longleftrightarrow> u_canonical u \<in> set ks \<and> parse (parse_datetime env) (u_canonical u) = Inr u"
proof -
  have "u \<in> set (parsed_uris env ks) \<longleftrightarrow> (\<exists>k\<in>set ks. parse (parse_datetime env) k = Inr u)"
    unfolding parsed_uris_def by (induction ks) (auto split: sum.splits)
  then show ?thesis by (metis parse_canonical parse_def)
qed

text \<open>The diff of two commits lists exactly the parsable addresses that only the second one
  holds, that both hold with different content, and that only the first one holds.\<close>

theorem diff_exact:
  assumes "hm_wf (snapshot_at s b)"
  shows "let ma = hget (snapshot_at s a); mb = hget (snapshot_at s b);
      d = diff_commits env a b s; k = u_canonical u; ok = (parse (parse_datetime env) k = Inr u)
    in (u \<in> set (td_adds d)) = (ok \<and> ma k = None \<and> mb k \<noteq> None) \<and>
       (u \<in> set (td_updates d)) = (ok \<and> ma k \<noteq> None \<and> mb k \<noteq> None \<and> ma k \<noteq> mb k) \<and>
       (u \<in> set (td_deletes d)) = (ok \<and> ma k \<noteq> None \<and> mb k = None)"
proof -
  have upd: "k \<in> set (map fst (filter (\<lambda>(k, vb). case hget ma k of Some va \<Rightarrow> va \<noteq> vb | None \<Rightarrow> False)
        (snapshot_at s b))) \<longleftrightarrow> (\<exists>va vb. hget ma k = Some va \<and> hget (snapshot_at s b) k = Some vb \<and> va \<noteq> vb)"
    for k and ma :: snapshot
    by (force simp: hget_eq_Some_iff [OF assms] split: option.splits)
  have miss: "k \<in> set (filter (\<lambda>k. \<not> hhas m k) (hkeys m')) \<longleftrightarrow> hget m k = None \<and> hget m' k \<noteq> None"
    for k and m m' :: snapshot
    by (auto simp: set_hkeys hhas_def)
  show ?thesis
    unfolding diff_commits_def Let_def tree_diff.simps parsed_uris_mem upd miss by auto
qed

theorem diff_exact_witness:
  "let u = \<lparr>u_tenant = ''t'', u_path = [''t'', ''s'', ''b''], u_query = None, u_canonical = ''uwu://t/s/b''\<rparr>
   in u \<in> set (td_adds (diff_commits demo_env (CommitId 1) (CommitId 2) demo_state))"
proof -
  let ?u = "\<lparr>u_tenant = ''t'', u_path = [''t'', ''s'', ''b''], u_query = None, u_canonical = ''uwu://t/s/b''\<rparr>"
  have "hm_wf (snapshot_at demo_state (CommitId 2))" "parse (parse_datetime demo_env) (u_canonical ?u) = Inr ?u"
    "hget (snapshot_at demo_state (CommitId 1)) (u_canonical ?u) = None"
    "hget (snapshot_at demo_state (CommitId 2)) (u_canonical ?u) \<noteq> None"
    unfolding demo_state_unfold by code_simp+
  with diff_exact [OF this(1), of "CommitId 1" demo_env ?u] show ?thesis by (simp add: Let_def)
qed

end
