(* ===== verification/Policy_Gate.thy ===== *)
theory Policy_Gate
  imports Rust_Strings "HOL-Library.Multiset"
begin

text \<open>
  Execution requests and the rule gate in front of them, crates/context-db-core/src/execution.rs
  and policy.rs: rule matching, precedence, the decision with its audit, rewriting of requests
  and responses. The interface a client relies on is the locale \<open>execution_gate\<close>.
\<close>

section \<open>Requests\<close>

datatype execution_kind = KindLlm | KindTool string | KindSkill string

type_synonym attributes = "(string \<times> string) list"

record execution_context =
  ec_tenant_id :: string
  ec_actor_id :: string
  ec_session_id :: "string option"
  ec_request_id :: string
  ec_kind :: execution_kind
  ec_attributes :: attributes

record execution_request =
  er_operation :: string
  er_content :: string
  er_attributes :: attributes

record execution_response =
  ep_content :: string
  ep_attributes :: attributes

definition request_new :: "string \<Rightarrow> string \<Rightarrow> execution_request" where
  "request_new operation content = \<lparr>er_operation = operation, er_content = content, er_attributes = []\<rparr>"

definition response_new :: "string \<Rightarrow> execution_response" where
  "response_new content = \<lparr>ep_content = content, ep_attributes = []\<rparr>"

section \<open>Rules\<close>

datatype policy_effect = Allow | Deny | Require | RewriteRequest | RewriteResponse
datatype policy_strength = Soft | Hard
datatype policy_source = Persona | System | ExplicitUser

record policy_rule =
  pr_id :: string
  pr_effect :: policy_effect
  pr_strength :: policy_strength
  pr_source :: policy_source
  pr_priority :: int \<comment> \<open>an \<open>i32\<close>, only compared\<close>
  pr_operation :: "string option"
  pr_content_contains :: "string option"
  pr_replacement :: "string option"
  pr_reason :: string

definition rule_matches :: "policy_rule \<Rightarrow> execution_request \<Rightarrow> bool" where
  "rule_matches r req =
     ((case pr_operation r of None \<Rightarrow> True | Some v \<Rightarrow> v = er_operation req)
      \<and> (case pr_content_contains r of None \<Rightarrow> True | Some v \<Rightarrow> contains_str (er_content req) v))"

definition precedence :: "policy_rule \<Rightarrow> nat" where
  "precedence r =
     (if pr_strength r = Hard \<and> pr_effect r = Deny then 4
      else if pr_strength r = Hard \<and> pr_effect r = Require then 3
      else if pr_source r = ExplicitUser then 2
      else if pr_source r = Persona then 0
      else 1)"

definition rule_rank :: "policy_rule \<Rightarrow> nat \<times> int \<times> string" where
  "rule_rank r = (precedence r, pr_priority r, pr_id r)"

text \<open>A stable sort in descending rank. Rules of equal rank have equal identities, so the
  comparison of identities that breaks ties never decides.\<close>

definition by_rank :: "policy_rule list \<Rightarrow> policy_rule list" where
  "by_rank rs = rev (sort_key rule_rank (rev rs))"

section \<open>The gate\<close>

record policy_audit =
  pa_rule_id :: string
  pa_matched :: bool
  pa_selected :: bool
  pa_reason :: string

record policy_decision =
  pd_allowed :: bool
  pd_required :: bool
  pd_policy_version :: nat
  pd_request :: execution_request
  pd_response :: "execution_response option"
  pd_selected_rule :: "string option"
  pd_audit :: "policy_audit list"

datatype policy_error = Denied string | Requirement string | Evaluation string

record rule_gate =
  rg_version :: nat
  rg_rules :: "policy_rule list"

definition first_of :: "'a list \<Rightarrow> 'a option" where
  "first_of xs = (case xs of [] \<Rightarrow> None | x # _ \<Rightarrow> Some x)"

definition select_rule :: "rule_gate \<Rightarrow> execution_request \<Rightarrow> policy_rule option" where
  "select_rule g req = first_of (by_rank (filter (\<lambda>r. rule_matches r req) (rg_rules g)))"

definition rewritten :: "policy_rule \<Rightarrow> string \<Rightarrow> string" where
  "rewritten r txt =
     (case (pr_content_contains r, pr_replacement r) of
        (Some needle, Some replacement) \<Rightarrow> replace_str txt needle replacement
      | _ \<Rightarrow> txt)"

definition rewrite_request :: "policy_rule option \<Rightarrow> execution_request \<Rightarrow> execution_request" where
  "rewrite_request sel req =
     (case sel of
        Some r \<Rightarrow>
          (if pr_effect r = RewriteRequest then req\<lparr>er_content := rewritten r (er_content req)\<rparr> else req)
      | None \<Rightarrow> req)"

definition preflight ::
    "rule_gate \<Rightarrow> execution_context \<Rightarrow> execution_request \<Rightarrow> policy_error + policy_decision" where
  "preflight g ctx req =
     (let selected = select_rule g req;
          req' = rewrite_request selected req;
          effect = map_option pr_effect selected;
          selected_id = map_option pr_id selected;
          audit = map (\<lambda>r. \<lparr>pa_rule_id = pr_id r, pa_matched = rule_matches r req',
                            pa_selected = (selected_id = Some (pr_id r)), pa_reason = pr_reason r\<rparr>)
            (rg_rules g)
      in Inr \<lparr>pd_allowed = (effect \<noteq> Some Deny), pd_required = (effect = Some Require),
              pd_policy_version = rg_version g, pd_request = req', pd_response = None,
              pd_selected_rule = selected_id, pd_audit = audit\<rparr>)"

definition or_empty :: "string option \<Rightarrow> string" where
  "or_empty x = (case x of Some s \<Rightarrow> s | None \<Rightarrow> [])"

definition postflight ::
    "rule_gate \<Rightarrow> execution_context \<Rightarrow> policy_decision \<Rightarrow> execution_response
     \<Rightarrow> policy_error + execution_response" where
  "postflight g ctx d resp =
     (if \<not> pd_allowed d then Inl (Denied (or_empty (pd_selected_rule d)))
      else
        let rules = by_rank (filter (\<lambda>r. pr_effect r = RewriteResponse \<and> rule_matches r (pd_request d))
              (rg_rules g))
        in case first_of rules of
             Some r \<Rightarrow> Inr (resp\<lparr>ep_content := rewritten r (ep_content resp)\<rparr>)
           | None \<Rightarrow> Inr resp)"

definition authorize ::
    "rule_gate \<Rightarrow> execution_context \<Rightarrow> execution_request \<Rightarrow> policy_error + policy_decision" where
  "authorize g ctx req =
     (case preflight g ctx req of
        Inl e \<Rightarrow> Inl e
      | Inr d \<Rightarrow> if pd_allowed d then Inr d else Inl (Denied (or_empty (pd_selected_rule d))))"

definition finish ::
    "rule_gate \<Rightarrow> execution_context \<Rightarrow> policy_decision \<Rightarrow> execution_response
     \<Rightarrow> policy_error + execution_response" where
  "finish g ctx d resp = postflight g ctx d resp"

section \<open>Selection by rank\<close>

lemma by_rank_set [simp]: "set (by_rank rs) = set rs"
  by (simp add: by_rank_def)

lemma by_rank_first:
  assumes "by_rank rs = r # rest" "q \<in> set rs"
  shows "rule_rank q \<le> rule_rank r"
proof -
  have "sort_key rule_rank (rev rs) = rev rest @ [r]"
    using assms(1) by (metis by_rank_def rev.simps(2) rev_rev_ident)
  moreover have "sorted (map rule_rank (sort_key rule_rank (rev rs)))" by simp
  moreover have "q \<in> set (sort_key rule_rank (rev rs))" using assms(2) by simp
  ultimately show ?thesis by (auto simp: sorted_append)
qed

lemma select_rule_Some:
  "select_rule g req = Some r \<longleftrightarrow>
     (\<exists>rest. by_rank (filter (\<lambda>r. rule_matches r req) (rg_rules g)) = r # rest)"
  by (auto simp: select_rule_def first_of_def split: list.splits)

lemma select_rule_top:
  assumes "select_rule g req = Some r"
  shows "r \<in> set (rg_rules g) \<and> rule_matches r req \<and>
    (\<forall>q\<in>set (rg_rules g). rule_matches q req \<longrightarrow> rule_rank q \<le> rule_rank r)"
proof -
  obtain rest where b: "by_rank (filter (\<lambda>r. rule_matches r req) (rg_rules g)) = r # rest"
    using assms by (auto simp: select_rule_Some)
  then have "r \<in> set (filter (\<lambda>r. rule_matches r req) (rg_rules g))"
    by (metis by_rank_set list.set_intros(1))
  then show ?thesis using by_rank_first [OF b] by auto
qed

lemma select_rule_None: "select_rule g req = None \<longleftrightarrow> (\<forall>q\<in>set (rg_rules g). \<not> rule_matches q req)"
proof -
  have "by_rank rs = [] \<longleftrightarrow> rs = []" for rs by (metis by_rank_set set_empty)
  then have "by_rank (filter (\<lambda>r. rule_matches r req) (rg_rules g)) = [] \<longleftrightarrow>
      (\<forall>q\<in>set (rg_rules g). \<not> rule_matches q req)"
    by (simp add: filter_empty_conv)
  moreover have "select_rule g req = None \<longleftrightarrow> by_rank (filter (\<lambda>r. rule_matches r req) (rg_rules g)) = []"
    by (simp add: select_rule_def first_of_def split: list.split)
  ultimately show ?thesis by simp
qed

lemma rank_le_precedence: "rule_rank q \<le> rule_rank r \<Longrightarrow> precedence q \<le> precedence r"
  by (auto simp: rule_rank_def less_eq_prod_def)

lemma hard_deny_precedence: "precedence r = 4 \<longleftrightarrow> pr_strength r = Hard \<and> pr_effect r = Deny"
  by (simp add: precedence_def)

lemma precedence_le: "precedence r \<le> 4"
  by (simp add: precedence_def)

definition hard_denied :: "rule_gate \<Rightarrow> execution_request \<Rightarrow> bool" where
  "hard_denied g req \<longleftrightarrow>
     (\<exists>q\<in>set (rg_rules g). rule_matches q req \<and> pr_strength q = Hard \<and> pr_effect q = Deny)"

lemma hard_denied_selected:
  assumes "hard_denied g req"
  shows "\<exists>r. select_rule g req = Some r \<and> pr_strength r = Hard \<and> pr_effect r = Deny"
proof -
  obtain q where q: "q \<in> set (rg_rules g)" "rule_matches q req" "pr_strength q = Hard" "pr_effect q = Deny"
    using assms by (auto simp: hard_denied_def)
  then obtain r where r: "select_rule g req = Some r"
    using select_rule_None [of g req] by fastforce
  then have "precedence q \<le> precedence r"
    using select_rule_top [OF r] q rank_le_precedence by blast
  then show ?thesis
    using r hard_deny_precedence [of q] hard_deny_precedence [of r] precedence_le [of r] q by simp
qed

section \<open>The interface\<close>

text \<open>What a client relies on: a gate decides on every request, some requests it never allows, and
  a decision that does not allow the request lets no response pass.\<close>

locale execution_gate =
  fixes pre :: "execution_context \<Rightarrow> execution_request \<Rightarrow> policy_error + policy_decision"
    and post :: "execution_context \<Rightarrow> policy_decision \<Rightarrow> execution_response
      \<Rightarrow> policy_error + execution_response"
    and forbidden :: "execution_request \<Rightarrow> bool"
  assumes decided: "\<exists>d. pre ctx req = Inr d"
    and forbidden_denied: "forbidden req \<Longrightarrow> pre ctx req = Inr d \<Longrightarrow> \<not> pd_allowed d"
    and denied_final: "\<not> pd_allowed d \<Longrightarrow> \<exists>e. post ctx d resp = Inl e"
begin

lemma forbidden_decision: "forbidden req \<Longrightarrow> \<exists>d. pre ctx req = Inr d \<and> \<not> pd_allowed d"
  using decided forbidden_denied by blast

lemma forbidden_no_response:
  "forbidden req \<Longrightarrow> pre ctx req = Inr d \<Longrightarrow> \<exists>e. post ctx d resp = Inl e"
  using forbidden_denied denied_final by blast

end

interpretation rules: execution_gate "preflight g" "postflight g" "hard_denied g" for g
proof unfold_locales
  fix ctx req d
  assume "hard_denied g req" "preflight g ctx req = Inr d"
  then show "\<not> pd_allowed d"
    using hard_denied_selected [of g req] by (auto simp: preflight_def Let_def)
qed (simp_all add: preflight_def postflight_def Let_def)

section \<open>Properties\<close>

text \<open>C40: a matching hard deny wins over every other rule, whatever the priorities and the order
  of the rules: the request is not allowed, authorization is refused, and no response passes
  the gate.\<close>

theorem hard_deny_wins:
  assumes "q \<in> set (rg_rules g)" "rule_matches q req" "pr_strength q = Hard" "pr_effect q = Deny"
  shows "\<exists>r d. select_rule g req = Some r \<and> pr_strength r = Hard \<and> pr_effect r = Deny \<and>
    preflight g ctx req = Inr d \<and> \<not> pd_allowed d \<and>
    authorize g ctx req = Inl (Denied (pr_id r)) \<and> finish g ctx d resp = Inl (Denied (pr_id r))"
proof -
  have "hard_denied g req" using assms by (auto simp: hard_denied_def)
  then obtain r where "select_rule g req = Some r" "pr_strength r = Hard" "pr_effect r = Deny"
    using hard_denied_selected by blast
  then show ?thesis
    by (simp add: preflight_def authorize_def finish_def postflight_def Let_def or_empty_def rewrite_request_def)
qed

definition demo_rule :: "string \<Rightarrow> policy_effect \<Rightarrow> policy_strength \<Rightarrow> int \<Rightarrow> policy_rule" where
  "demo_rule i e st p =
     \<lparr>pr_id = i, pr_effect = e, pr_strength = st, pr_source = System, pr_priority = p, pr_operation = None,
      pr_content_contains = None, pr_replacement = None, pr_reason = i\<rparr>"

definition demo_context :: execution_context where
  "demo_context = \<lparr>ec_tenant_id = ''t'', ec_actor_id = ''a'', ec_session_id = None, ec_request_id = ''r'',
     ec_kind = KindTool ''x'', ec_attributes = []\<rparr>"

theorem hard_deny_wins_witness:
  "authorize \<lparr>rg_version = 1, rg_rules = [demo_rule ''user'' Allow Soft 9, demo_rule ''deny'' Deny Hard 0]\<rparr>
     demo_context (request_new ''run'' ''x'') = Inl (Denied ''deny'')"
proof -
  let ?g = "\<lparr>rg_version = 1, rg_rules = [demo_rule ''user'' Allow Soft 9, demo_rule ''deny'' Deny Hard 0]\<rparr>"
  have "\<exists>r d. select_rule ?g (request_new ''run'' ''x'') = Some r \<and> pr_strength r = Hard \<and> pr_effect r = Deny \<and>
    preflight ?g demo_context (request_new ''run'' ''x'') = Inr d \<and> \<not> pd_allowed d \<and>
    authorize ?g demo_context (request_new ''run'' ''x'') = Inl (Denied (pr_id r)) \<and>
    finish ?g demo_context d (response_new []) = Inl (Denied (pr_id r))"
    by (rule hard_deny_wins [of "demo_rule ''deny'' Deny Hard 0"])
      (simp_all add: demo_rule_def rule_matches_def)
  then obtain r where "select_rule ?g (request_new ''run'' ''x'') = Some r" "pr_effect r = Deny"
    "authorize ?g demo_context (request_new ''run'' ''x'') = Inl (Denied (pr_id r))" by blast
  moreover from this have "pr_id r = ''deny''"
    using select_rule_top [of ?g "request_new ''run'' ''x''" r] by (auto simp: demo_rule_def)
  ultimately show ?thesis by simp
qed

text \<open>The decision does not depend on the order of the rules: two gates of one version with the
  same rules, identities distinct, select the same rule and decide alike.\<close>

theorem decision_order_independent:
  assumes "mset (rg_rules g) = mset (rg_rules g')" "distinct (map pr_id (rg_rules g))"
    and "rg_version g = rg_version g'"
  shows "select_rule g req = select_rule g' req \<and>
    map_sum id (\<lambda>d. d\<lparr>pd_audit := []\<rparr>) (preflight g ctx req) =
    map_sum id (\<lambda>d. d\<lparr>pd_audit := []\<rparr>) (preflight g' ctx req)"
proof -
  have rules: "set (rg_rules g) = set (rg_rules g')" using assms(1) by (metis set_mset_mset)
  have "select_rule g req = select_rule g' req"
  proof (cases "select_rule g req")
    case None
    then show ?thesis using select_rule_None [of g req] select_rule_None [of g' req] rules by auto
  next
    case (Some r)
    then obtain r' where r': "select_rule g' req = Some r'"
      using select_rule_None [of g req] select_rule_None [of g' req] rules by (cases "select_rule g' req") auto
    have "rule_rank r = rule_rank r'"
      using select_rule_top [OF Some] select_rule_top [OF r'] rules by (auto intro: antisym)
    then have "pr_id r = pr_id r'" by (simp add: rule_rank_def)
    then have "r = r'"
      using select_rule_top [OF Some] select_rule_top [OF r'] rules assms(2)
      by (auto simp: distinct_map dest: inj_onD)
    then show ?thesis using Some r' by simp
  qed
  then show ?thesis using assms(3) by (simp add: preflight_def Let_def)
qed

theorem decision_order_independent_witness:
  "select_rule \<lparr>rg_version = 1, rg_rules = [demo_rule ''a'' Allow Soft 1, demo_rule ''b'' Deny Soft 2]\<rparr> (request_new ''o'' ''c'')
   = select_rule \<lparr>rg_version = 1, rg_rules = [demo_rule ''b'' Deny Soft 2, demo_rule ''a'' Allow Soft 1]\<rparr> (request_new ''o'' ''c'')"
  using decision_order_independent [of "\<lparr>rg_version = 1, rg_rules = [demo_rule ''a'' Allow Soft 1, demo_rule ''b'' Deny Soft 2]\<rparr>"
      "\<lparr>rg_version = 1, rg_rules = [demo_rule ''b'' Deny Soft 2, demo_rule ''a'' Allow Soft 1]\<rparr>"
      "request_new ''o'' ''c''" demo_context]
  by (simp add: demo_rule_def add_mset_commute)

text \<open>The audit of a rewritten request names the selected rule as not matching, because it
  matches the rules against the request after the rewrite.\<close>

theorem audit_after_rewrite:
  "let r = (demo_rule ''rw'' RewriteRequest Soft 0)\<lparr>pr_content_contains := Some ''secret'', pr_replacement := Some ''x''\<rparr>
   in case preflight \<lparr>rg_version = 1, rg_rules = [r]\<rparr> demo_context (request_new ''o'' ''a secret'') of
        Inr d \<Rightarrow> pd_selected_rule d = Some ''rw'' \<and> er_content (pd_request d) = ''a x'' \<and>
          map pa_selected (pd_audit d) = [True] \<and> map pa_matched (pd_audit d) = [False]
      | Inl _ \<Rightarrow> False"
  by code_simp

end
