(* ===== verification/Conflict_Sessions.thy ===== *)
theory Conflict_Sessions
  imports Version_Model
begin

text \<open>
  The bindings of conflict sessions to tenants, src/src/facade.rs (\<open>ConflictSessionBindings\<close>) and
  src/src/version_facade.rs (\<open>bind\<close>, \<open>owns\<close>, \<open>forget\<close>), with the session types of
  crates/context-db-version/src/lib.rs they bind: a map from sessions to the tenant and the
  instant of the last binding, with a time to live, and a queue meant to bound it. The eviction
  loop may not end; it is a partial function.
\<close>

section \<open>Model\<close>

datatype conflict_session_id = ConflictSessionId uuid

datatype interactive_operation =
    InteractiveCherryPick commit_id branch_name
  | InteractiveRebase branch_name branch_name

datatype conflict_value_op = OpSet | OpRemove

record conflict_item =
  ci_uri :: context_uri
  ci_base :: "content_payload option"
  ci_ours :: "content_payload option"
  ci_theirs :: "content_payload option"
  ci_op :: conflict_value_op

record conflict_session =
  cs_id :: conflict_session_id
  cs_scope :: context_uri
  cs_operation :: interactive_operation
  cs_base :: "commit_id option"
  cs_target :: commit_id
  cs_commits :: "commit_id list"
  cs_conflicts :: "conflict_item list"
  cs_clean_snapshot :: "(string \<times> content_payload) list"

datatype conflict_resolution =
    ResolveOurs | ResolveTheirs | ResolveDelete | ResolveManual content_payload

type_synonym conflict_resolution_set = "(string \<times> conflict_resolution) list"

datatype session_persistence = SessionDisabled | SessionEnabled

definition MAX_CONFLICT_SESSION_BINDINGS :: nat where
  "MAX_CONFLICT_SESSION_BINDINGS = 4096"

record session_bindings =
  sb_tenants :: "(conflict_session_id, string \<times> nat) hmap"
  sb_insertion_order :: "conflict_session_id list"

definition no_bindings :: session_bindings where
  "no_bindings = \<lparr>sb_tenants = [], sb_insertion_order = []\<rparr>"

partial_function (option) evict :: "session_bindings \<Rightarrow> session_bindings option" where
  "evict b =
     (if length (sb_tenants b) > MAX_CONFLICT_SESSION_BINDINGS
      then (case sb_insertion_order b of
              sid # rest \<Rightarrow>
                evict (b\<lparr>sb_insertion_order := rest, sb_tenants := hdel sid (sb_tenants b)\<rparr>)
            | [] \<Rightarrow> evict b)
      else Some b)"

text \<open>\<open>duration_since\<close> saturates at zero.\<close>

definition live_bindings ::
    "nat \<Rightarrow> nat \<Rightarrow> (conflict_session_id, string \<times> nat) hmap \<Rightarrow> (conflict_session_id, string \<times> nat) hmap" where
  "live_bindings ttl now m = filter (\<lambda>(_, _, seen). now - seen \<le> ttl) m"

definition bind_session ::
    "nat \<Rightarrow> string \<Rightarrow> nat \<Rightarrow> conflict_session_id \<Rightarrow> session_bindings \<Rightarrow> session_bindings option" where
  "bind_session ttl tenant now sid b =
     (let order = (if hhas (sb_tenants b) sid then sb_insertion_order b
                   else sb_insertion_order b @ [sid]);
          live = live_bindings ttl now (sb_tenants b)
      in evict \<lparr>sb_tenants = hput sid (tenant, now) live,
                sb_insertion_order = filter (hhas live) order\<rparr>)"

definition owns_session ::
    "nat \<Rightarrow> string \<Rightarrow> nat \<Rightarrow> conflict_session_id \<Rightarrow> session_bindings \<Rightarrow> bool" where
  "owns_session ttl tenant now sid b =
     (case hget (sb_tenants b) sid of
        Some (owner, seen) \<Rightarrow> owner = tenant \<and> now - seen \<le> ttl
      | None \<Rightarrow> False)"

definition forget_session :: "conflict_session_id \<Rightarrow> session_bindings \<Rightarrow> session_bindings" where
  "forget_session sid b = b\<lparr>sb_tenants := hdel sid (sb_tenants b)\<rparr>"

section \<open>The eviction loop\<close>

lemma evict_small: "length (sb_tenants b) \<le> MAX_CONFLICT_SESSION_BINDINGS \<Longrightarrow> evict b = Some b"
  by (subst evict.simps) simp

lemma evict_stuck:
  assumes "sb_insertion_order b = []" "length (sb_tenants b) > MAX_CONFLICT_SESSION_BINDINGS"
  shows "evict b = None"
proof -
  have "\<not> (sb_insertion_order x = [] \<and> length (sb_tenants x) > MAX_CONFLICT_SESSION_BINDINGS)"
    if "evict x = Some y" for x y
    by (rule evict.raw_induct [OF _ that]) (auto split: if_splits list.splits)
  then show ?thesis using assms by (cases "evict b") auto
qed

lemma evict_Nil:
  "sb_insertion_order b = [] \<Longrightarrow>
   evict b = (if length (sb_tenants b) \<le> MAX_CONFLICT_SESSION_BINDINGS then Some b else None)"
  using evict_small evict_stuck by (metis not_le)

section \<open>Histories of bindings\<close>

datatype session_op =
    BindSession string nat conflict_session_id
  | ForgetSession conflict_session_id

fun session_step :: "nat \<Rightarrow> session_op \<Rightarrow> session_bindings \<Rightarrow> session_bindings option" where
  "session_step ttl (BindSession tenant now sid) b = bind_session ttl tenant now sid b"
| "session_step ttl (ForgetSession sid) b = Some (forget_session sid b)"

fun run_sessions :: "nat \<Rightarrow> session_op list \<Rightarrow> session_bindings \<Rightarrow> session_bindings option" where
  "run_sessions ttl [] b = Some b"
| "run_sessions ttl (x # xs) b = Option.bind (session_step ttl x b) (run_sessions ttl xs)"

fun op_times :: "session_op list \<Rightarrow> nat list" where
  "op_times [] = []"
| "op_times (BindSession _ now _ # xs) = now # op_times xs"
| "op_times (ForgetSession _ # xs) = op_times xs"

text \<open>The abstract bindings: the last one of each session, nothing expires.\<close>

fun abs_step :: "session_op \<Rightarrow> (conflict_session_id \<Rightarrow> (string \<times> nat) option)
    \<Rightarrow> conflict_session_id \<Rightarrow> (string \<times> nat) option" where
  "abs_step (BindSession tenant now sid) m = m(sid \<mapsto> (tenant, now))"
| "abs_step (ForgetSession sid) m = m(sid := None)"

definition sb_inv :: "session_bindings \<Rightarrow> bool" where
  "sb_inv b \<longleftrightarrow> hm_wf (sb_tenants b) \<and> sb_insertion_order b = []"

text \<open>The concrete map differs from the abstract one only in what has expired by \<open>t\<close>.\<close>

definition agree ::
    "nat \<Rightarrow> nat \<Rightarrow> session_bindings \<Rightarrow> (conflict_session_id \<Rightarrow> (string \<times> nat) option) \<Rightarrow> bool" where
  "agree ttl t b m \<longleftrightarrow> (\<forall>sid. hget (sb_tenants b) sid = m sid \<or>
     hget (sb_tenants b) sid = None \<and> (\<exists>owner seen. m sid = Some (owner, seen) \<and> ttl < t - seen))"

lemma hget_live:
  "hm_wf m \<Longrightarrow> hget (live_bindings ttl now m) sid =
     (case hget m sid of Some (t, seen) \<Rightarrow> if now - seen \<le> ttl then Some (t, seen) else None | None \<Rightarrow> None)"
  by (auto simp: live_bindings_def hget_filter split: option.split)

lemma hm_wf_live: "hm_wf m \<Longrightarrow> hm_wf (live_bindings ttl now m)"
  by (simp add: live_bindings_def hm_wf_filter)

lemma bind_session_inv:
  assumes "sb_inv b"
  shows "bind_session ttl tenant now sid b =
    (let m = hput sid (tenant, now) (live_bindings ttl now (sb_tenants b))
     in if length m \<le> MAX_CONFLICT_SESSION_BINDINGS
        then Some \<lparr>sb_tenants = m, sb_insertion_order = []\<rparr> else None)"
proof -
  have "filter (hhas (live_bindings ttl now (sb_tenants b)))
      (if hhas (sb_tenants b) sid then sb_insertion_order b else sb_insertion_order b @ [sid]) = []"
    using assms by (auto simp: sb_inv_def hhas_def hget_live split: option.splits)
  then show ?thesis by (simp add: bind_session_def Let_def evict_Nil)
qed

lemma session_step_inv: "sb_inv b \<Longrightarrow> session_step ttl x b = Some b' \<Longrightarrow> sb_inv b'"
  by (cases x) (auto simp: bind_session_inv Let_def forget_session_def sb_inv_def hm_simps hm_wf_live
      split: if_splits)

lemma run_sessions_inv: "sb_inv b \<Longrightarrow> run_sessions ttl xs b = Some b' \<Longrightarrow> sb_inv b'"
  by (induction xs arbitrary: b) (auto simp: bind_eq_Some_conv dest: session_step_inv)

lemma session_step_agree:
  assumes "sb_inv b" "agree ttl t b m" "session_step ttl x b = Some b'"
    and "t \<le> t'" "\<forall>u\<in>set (op_times [x]). u = t'"
  shows "agree ttl t' b' (abs_step x m)"
proof (cases x)
  case (BindSession tenant now sid)
  have wf: "hm_wf (sb_tenants b)" using assms(1) by (simp add: sb_inv_def)
  have "now = t'" using assms(5) BindSession by simp
  moreover have "sb_tenants b' = hput sid (tenant, now) (live_bindings ttl now (sb_tenants b))"
    using assms(1,3) BindSession by (auto simp: bind_session_inv Let_def split: if_splits)
  ultimately show ?thesis
    using assms(2,4) BindSession wf
    by (auto simp: agree_def hm_simps hget_live split: option.splits prod.splits)
      (metis (no_types, lifting) diff_le_mono le_trans not_less option.discI option.inject prod.inject
        less_le_trans)+
next
  case (ForgetSession sid)
  then have "b' = forget_session sid b" using assms(3) by simp
  then show ?thesis
    using assms(2,4) ForgetSession by (auto simp: agree_def hm_simps forget_session_def)
qed

lemma run_sessions_agree:
  assumes "sb_inv b" "agree ttl t b m" "run_sessions ttl xs b = Some b'"
    and "sorted (op_times xs)" "\<forall>u\<in>set (op_times xs). t \<le> u \<and> u \<le> t'" "t \<le> t'"
  shows "agree ttl t' b' (fold abs_step xs m)"
  using assms
proof (induction xs arbitrary: b m t)
  case Nil
  then show ?case by (fastforce simp: agree_def)
next
  case (Cons x xs)
  obtain b1 where b1: "session_step ttl x b = Some b1" "run_sessions ttl xs b1 = Some b'"
    using Cons.prems(3) by (auto simp: bind_eq_Some_conv)
  define t1 where "t1 = (case x of BindSession _ now _ \<Rightarrow> now | ForgetSession _ \<Rightarrow> t)"
  have t1: "t \<le> t1" "t1 \<le> t'" "\<forall>u\<in>set (op_times [x]). u = t1" "\<forall>u\<in>set (op_times xs). t1 \<le> u \<and> u \<le> t'"
    "sorted (op_times xs)"
    using Cons.prems(4-6) by (cases x; simp add: t1_def)+
  have "agree ttl t1 b1 (abs_step x m)"
    by (rule session_step_agree [OF Cons.prems(1,2) b1(1) t1(1,3)])
  then show ?case
    using Cons.IH [OF session_step_inv [OF Cons.prems(1) b1(1)] _ b1(2) t1(5,4,2)] by simp
qed

lemma no_bindings_inv: "sb_inv no_bindings"
  by (simp add: sb_inv_def no_bindings_def)

section \<open>Properties\<close>

text \<open>The sessions live at a time, and a history in which every binding meets fewer than 4096 other live
  sessions.\<close>

definition live_at ::
    "nat \<Rightarrow> nat \<Rightarrow> (conflict_session_id \<Rightarrow> (string \<times> nat) option) \<Rightarrow> conflict_session_id set" where
  "live_at ttl now m = {sid. \<exists>owner seen. m sid = Some (owner, seen) \<and> now - seen \<le> ttl}"

fun roomy ::
    "nat \<Rightarrow> session_op list \<Rightarrow> (conflict_session_id \<Rightarrow> (string \<times> nat) option) \<Rightarrow> bool" where
  "roomy ttl [] m = True"
| "roomy ttl (BindSession owner now sid # xs) m =
     (card (live_at ttl now m - {sid}) < MAX_CONFLICT_SESSION_BINDINGS
      \<and> roomy ttl xs (abs_step (BindSession owner now sid) m))"
| "roomy ttl (ForgetSession sid # xs) m = roomy ttl xs (abs_step (ForgetSession sid) m)"

lemma bind_returns:
  assumes "sb_inv b" "agree ttl t b m" "t \<le> now"
  shows "bind_session ttl tenant now sid b \<noteq> None \<longleftrightarrow>
    card (live_at ttl now m - {sid}) < MAX_CONFLICT_SESSION_BINDINGS"
proof -
  let ?live = "live_bindings ttl now (sb_tenants b)"
  have wf: "hm_wf ?live" "hm_wf (hput sid (tenant, now) ?live)"
    using assms(1) by (simp_all add: sb_inv_def hm_simps hm_wf_live)
  have "hget ?live s \<noteq> None \<longleftrightarrow> s \<in> live_at ttl now m" for s
  proof -
    have late: "\<not> now - seen \<le> ttl" if "ttl < t - seen" for seen using that assms(3) by linarith
    consider "hget (sb_tenants b) s = m s"
      | owner seen where "hget (sb_tenants b) s = None" "m s = Some (owner, seen)" "ttl < t - seen"
      using assms(2) unfolding agree_def by blast
    then show ?thesis
      using assms(1) late by cases (auto simp: sb_inv_def hget_live live_at_def split: option.splits)
  qed
  then have keys: "{s. hget (hput sid (tenant, now) ?live) s \<noteq> None} = insert sid (live_at ttl now m - {sid})"
    by (auto simp: hm_simps split: if_splits)
  have "{s. hget (hput sid (tenant, now) ?live) s \<noteq> None} = set (hkeys (hput sid (tenant, now) ?live))"
    by (auto simp: set_hkeys)
  then have "finite {s. hget (hput sid (tenant, now) ?live) s \<noteq> None}" by (simp only: finite_set)
  then have "finite (live_at ttl now m - {sid})" unfolding keys by simp
  then have "card (insert sid (live_at ttl now m - {sid})) = Suc (card (live_at ttl now m - {sid}))"
    by (rule card_insert_disjoint) simp
  then have "length (hput sid (tenant, now) ?live) = Suc (card (live_at ttl now m - {sid}))"
    using length_hkeys [OF wf(2)] keys by simp
  then show ?thesis using bind_session_inv [OF assms(1)] by (simp add: Let_def Suc_le_eq)
qed

lemma run_returns:
  assumes "sb_inv b" "agree ttl t b m" "sorted (op_times xs)" "\<forall>u\<in>set (op_times xs). t \<le> u"
  shows "run_sessions ttl xs b \<noteq> None \<longleftrightarrow> roomy ttl xs m"
  using assms
proof (induction xs arbitrary: b m t)
  case (Cons x xs)
  define t1 where "t1 = (case x of BindSession _ now _ \<Rightarrow> now | ForgetSession _ \<Rightarrow> t)"
  have t1: "t \<le> t1" "\<forall>u\<in>set (op_times [x]). u = t1" "\<forall>u\<in>set (op_times xs). t1 \<le> u" "sorted (op_times xs)"
    using Cons.prems(3,4) by (cases x; simp add: t1_def)+
  have head: "session_step ttl x b \<noteq> None \<longleftrightarrow> roomy ttl [x] m"
    using bind_returns [OF Cons.prems(1,2)] t1(1) by (cases x) (auto simp: t1_def)
  have split: "roomy ttl (x # xs) m \<longleftrightarrow> roomy ttl [x] m \<and> roomy ttl xs (abs_step x m)"
    by (cases x) simp_all
  show ?case
  proof (cases "session_step ttl x b")
    case None
    then show ?thesis using head split by simp
  next
    case (Some b1)
    have "agree ttl t1 b1 (abs_step x m)"
      by (rule session_step_agree [OF Cons.prems(1,2) Some t1(1,2)])
    from Cons.IH [OF session_step_inv [OF Cons.prems(1) Some] this t1(4,3)] show ?thesis
      using head split Some by simp
  qed
qed simp

text \<open>C34: take any bindings and removals of sessions, in the order of the clock. If one of the bindings meets
  4096 or more other live sessions, it never returns: the queue that should name the session to evict is
  always empty, so the loop that evicts removes nothing and does not end, holding the lock. Otherwise
  all of them return, and afterwards a tenant owns a session exactly when the last binding of the session
  that was not followed by a \<open>forget\<close> was its own and is no older than the time to live: expiry
  removes only what is too old, and no live session is ever evicted.\<close>

theorem session_ownership_exact:
  assumes "sorted (op_times ops)" "\<forall>t\<in>set (op_times ops). t \<le> now"
  shows "case run_sessions ttl ops no_bindings of
      None \<Rightarrow> \<not> roomy ttl ops Map.empty
    | Some b \<Rightarrow> roomy ttl ops Map.empty \<and>
        (owns_session ttl tenant now sid b \<longleftrightarrow>
          (\<exists>seen. fold abs_step ops Map.empty sid = Some (tenant, seen) \<and> now - seen \<le> ttl))"
proof -
  have start: "agree ttl 0 no_bindings Map.empty" by (simp add: agree_def no_bindings_def)
  have returns: "run_sessions ttl ops no_bindings \<noteq> None \<longleftrightarrow> roomy ttl ops Map.empty"
    by (rule run_returns [OF no_bindings_inv start assms(1)]) simp
  show ?thesis
  proof (cases "run_sessions ttl ops no_bindings")
    case (Some b)
    then have "agree ttl now b (fold abs_step ops Map.empty)"
      using run_sessions_agree [OF no_bindings_inv start Some assms(1)] assms(2) by simp
    then have "hget (sb_tenants b) sid = fold abs_step ops Map.empty sid \<or>
        hget (sb_tenants b) sid = None \<and>
          (\<exists>owner seen. fold abs_step ops Map.empty sid = Some (owner, seen) \<and> ttl < now - seen)"
      unfolding agree_def by blast
    then show ?thesis
      using returns Some
      by (cases "fold abs_step ops Map.empty sid") (auto simp: owns_session_def split: option.split)
  qed (use returns in simp)
qed

theorem session_ownership_exact_witness:
  "let ops = [BindSession ''a'' 1 (ConflictSessionId 7), BindSession ''b'' 5 (ConflictSessionId 8)]
   in \<exists>b. run_sessions 10 ops no_bindings = Some b \<and>
     owns_session 10 ''a'' 11 (ConflictSessionId 7) b \<and> \<not> owns_session 10 ''b'' 11 (ConflictSessionId 7) b
     \<and> \<not> owns_session 10 ''a'' 12 (ConflictSessionId 7) b"
proof -
  let ?ops = "[BindSession ''a'' 1 (ConflictSessionId 7), BindSession ''b'' 5 (ConflictSessionId 8)]"
  have "run_sessions 10 ?ops no_bindings \<noteq> None"
    by (simp add: bind_session_def no_bindings_def live_bindings_def hput_def hhas_def evict_small
        MAX_CONFLICT_SESSION_BINDINGS_def)
  then obtain b where b: "run_sessions 10 ?ops no_bindings = Some b" by auto
  have own: "owns_session 10 tenant now (ConflictSessionId 7) b \<longleftrightarrow> tenant = ''a'' \<and> now - 1 \<le> 10"
    if "5 \<le> now" for tenant now
    using session_ownership_exact [of ?ops now 10 tenant "ConflictSessionId 7"] that b by auto
  show ?thesis using b own [of 11] own [of 12] by (auto simp: Let_def)
qed

end
