(* ===== verification/Facade.thy ===== *)
theory Facade
  imports Context_Store Policy_Gate Version_Merge Conflict_Sessions
begin

text \<open>
  The application facade, src/src/: request contexts (context.rs), errors (error.rs), limits
  (config.rs), the audit sink (ports.rs) and the guarded operations (facade.rs). The world is
  the state behind the facade: the in-memory content store and version store, the audit sink,
  the reactions emitted and the admission counters. What an operation observes of the clock and
  of the cancellation token is an argument (\<open>moment\<close>, \<open>run\<close>); a port is a function of the world
  that may not finish in time (\<open>None\<close>), and a future that is dropped before it has completed may
  have had its effect (\<open>progress\<close>).
\<close>

section \<open>Errors\<close>

datatype llm_error = LlmProvider string | LlmTimeout | LlmRateLimited

fun llm_error_display :: "llm_error \<Rightarrow> string" where
  "llm_error_display (LlmProvider m) = ''provider: '' @ m"
| "llm_error_display LlmTimeout = ''timeout''"
| "llm_error_display LlmRateLimited = ''rate limited''"

text \<open>The error of the retriever's configuration is carried as its text.\<close>

datatype facade_error =
    FacadeInvalidConfig string
  | TenantViolation string
  | Cancelled
  | DeadlineExceeded
  | NotConfigured string
  | PolicyDenied string
  | FacadeContext context_error
  | FacadeVersion version_error
  | FacadeRetrieveConfig string
  | FacadeLlm llm_error
  | FacadeWasm string
  | FacadeFederation string
  | FacadeAudit string
  | CommittedWithPostCommitFailure string
  | FacadeTimeout nat

text \<open>\<open>show_duration\<close> is the debug form of a duration.\<close>

fun facade_error_display :: "(nat \<Rightarrow> string) \<Rightarrow> facade_error \<Rightarrow> string" where
  "facade_error_display d (FacadeInvalidConfig m) = ''invalid configuration: '' @ m"
| "facade_error_display d (TenantViolation m) = ''tenant boundary violation: '' @ m"
| "facade_error_display d Cancelled = ''request cancelled''"
| "facade_error_display d DeadlineExceeded = ''request deadline exceeded''"
| "facade_error_display d (NotConfigured m) = ''capability not configured: '' @ m"
| "facade_error_display d (PolicyDenied m) = ''policy denied: '' @ m"
| "facade_error_display d (FacadeContext e) = ''context operation failed: '' @ context_error_display e"
| "facade_error_display d (FacadeVersion e) = ''version operation failed: '' @ version_error_display e"
| "facade_error_display d (FacadeRetrieveConfig m) = ''retrieval configuration failed: '' @ m"
| "facade_error_display d (FacadeLlm e) = ''LLM operation failed: '' @ llm_error_display e"
| "facade_error_display d (FacadeWasm m) = ''WASM operation failed: '' @ m"
| "facade_error_display d (FacadeFederation m) = ''federation operation failed: '' @ m"
| "facade_error_display d (FacadeAudit m) = ''audit sink rejected event: '' @ m"
| "facade_error_display d (CommittedWithPostCommitFailure m) =
     ''mutation committed but post-commit step failed: '' @ m"
| "facade_error_display d (FacadeTimeout n) = ''operation timed out after '' @ d n"

section \<open>Request contexts\<close>

record tenant_identity =
  ti_id :: tenant_id
  ti_name :: string

definition tenant_identity_new :: "tenant_id \<Rightarrow> string \<Rightarrow> facade_error + tenant_identity" where
  "tenant_identity_new i name =
     (if name = [] then Inl (FacadeInvalidConfig ''tenant name must be non-empty'')
      else Inr \<lparr>ti_id = i, ti_name = name\<rparr>)"

text \<open>Instants and durations are nanoseconds. The cancellation token is observed (\<open>moment\<close>).\<close>

record request_context =
  rc_tenant :: tenant_id
  rc_tenant_name :: string
  rc_actor :: string
  rc_request_id :: string
  rc_deadline :: nat

definition request_context_new ::
    "tenant_identity \<Rightarrow> string \<Rightarrow> string \<Rightarrow> nat \<Rightarrow> facade_error + request_context" where
  "request_context_new t actor req deadline =
     (if actor = [] \<or> req = []
      then Inl (FacadeInvalidConfig ''request identity fields must be non-empty'')
      else Inr \<lparr>rc_tenant = ti_id t, rc_tenant_name = ti_name t, rc_actor = actor,
                rc_request_id = req, rc_deadline = deadline\<rparr>)"

record moment =
  mo_cancelled :: bool
  mo_now :: nat

definition remaining :: "request_context \<Rightarrow> moment \<Rightarrow> facade_error + nat" where
  "remaining ctx m =
     (if mo_cancelled m then Inl Cancelled
      else if mo_now m < rc_deadline ctx then Inr (rc_deadline ctx - mo_now m)
      else Inl DeadlineExceeded)"

definition execution :: "request_context \<Rightarrow> execution_kind \<Rightarrow> execution_context" where
  "execution ctx kind =
     \<lparr>ec_tenant_id = rc_tenant_name ctx, ec_actor_id = rc_actor ctx, ec_session_id = None,
      ec_request_id = rc_request_id ctx, ec_kind = kind, ec_attributes = []\<rparr>"

section \<open>Limits\<close>

record facade_config =
  default_timeout :: nat
  max_batch_size :: nat
  max_tree_depth :: nat
  max_audit_detail_bytes :: nat
  max_wasm_module_bytes :: nat
  max_wasm_request_bytes :: nat
  max_wasm_output_bytes :: nat
  conflict_session_ttl :: nat

definition default_facade_config :: facade_config where
  "default_facade_config =
     \<lparr>default_timeout = 30 * 10 ^ 9, max_batch_size = 1000, max_tree_depth = 64,
      max_audit_detail_bytes = 4096, max_wasm_module_bytes = 16 * 1024 * 1024,
      max_wasm_request_bytes = 1024 * 1024, max_wasm_output_bytes = 1024 * 1024,
      conflict_session_ttl = 30 * 60 * 10 ^ 9\<rparr>"

definition validate_facade_config :: "facade_config \<Rightarrow> facade_error + unit" where
  "validate_facade_config c =
     (if default_timeout c = 0 \<or> max_batch_size c = 0 \<or> max_tree_depth c = 0
         \<or> max_audit_detail_bytes c = 0 \<or> max_wasm_module_bytes c = 0
         \<or> max_wasm_request_bytes c = 0 \<or> max_wasm_output_bytes c = 0
         \<or> conflict_session_ttl c = 0
      then Inl (FacadeInvalidConfig ''timeouts and resource limits must be non-zero'')
      else Inr ())"

section \<open>The audit sink\<close>

record audit_event =
  ae_tenant :: string
  ae_actor :: string
  ae_request_id :: string
  ae_operation :: string
  ae_allowed :: bool
  ae_detail :: string

text \<open>The bounded in-memory sink; a poisoned lock is a state of it.\<close>

record audit_sink =
  as_capacity :: nat
  as_events :: "audit_event list"
  as_poisoned :: bool

definition audit_sink_new :: "nat \<Rightarrow> string + audit_sink" where
  "audit_sink_new capacity =
     (if capacity = 0 then Inl ''audit capacity must be positive''
      else Inr \<lparr>as_capacity = capacity, as_events = [], as_poisoned = False\<rparr>)"

definition record_event :: "audit_event \<Rightarrow> audit_sink \<Rightarrow> (string + unit) \<times> audit_sink" where
  "record_event e s =
     (if as_poisoned s then (Inl ''audit buffer lock poisoned'', s)
      else
        let evs = (if length (as_events s) = as_capacity s then drop 1 (as_events s) else as_events s)
        in (Inr (), s\<lparr>as_events := evs @ [e]\<rparr>))"

text \<open>What a reaction carries of the operation; its random identities, the clock reading and the
  constant credits are left out. The outcome is the float 1 or 0.\<close>

record reaction =
  re_subject_id :: string
  re_execution_id :: string
  re_cause_id :: string
  re_success :: bool

definition reaction_with_context :: "request_context \<Rightarrow> string \<Rightarrow> string \<Rightarrow> bool \<Rightarrow> reaction" where
  "reaction_with_context ctx operation subject success =
     \<lparr>re_subject_id = subject, re_execution_id = rc_request_id ctx,
      re_cause_id = rc_actor ctx @ '':'' @ operation, re_success = success\<rparr>"

section \<open>World and ports\<close>

record world =
  w_content :: cstore
  w_versions :: vstore
  w_audit :: audit_sink
  w_reactions :: "reaction list option" \<comment> \<open>\<open>None\<close> when no sink is configured\<close>
  w_accepting :: bool
  w_in_flight :: nat
  w_sessions :: session_bindings
  w_shutdown_result :: "(string + unit) option"

type_synonym 'a outcome = "(facade_error + 'a) \<times> world"
type_synonym 'a port = "world \<Rightarrow> (facade_error + 'a) option \<times> world"

record lifecycle_port =
  lc_route_after_write :: "context_entry \<Rightarrow> unit port"
  lc_restore_before_read :: "context_uri \<Rightarrow> unit port"

record gate_port =
  gp_preflight :: "execution_context \<Rightarrow> execution_request \<Rightarrow> policy_error + policy_decision"
  gp_postflight :: "execution_context \<Rightarrow> policy_decision \<Rightarrow> execution_response
    \<Rightarrow> policy_error + execution_response"

type_synonym executor_port = "execution_context \<Rightarrow> execution_request \<Rightarrow> execution_response port"

text \<open>Modules, requests and outputs are byte strings; capability tokens and sandbox policies are
  opaque texts. Registration is awaited without a time limit.\<close>

record wasm_port =
  wp_register_tenant :: "execution_context \<Rightarrow> string \<Rightarrow> world \<Rightarrow> (string + unit) \<times> world"
  wp_install :: "execution_context \<Rightarrow> string \<Rightarrow> string \<Rightarrow> string port"
  wp_invoke :: "execution_context \<Rightarrow> string \<Rightarrow> string \<Rightarrow> string \<Rightarrow> string \<Rightarrow> string port"

text \<open>The language model with the call options inside; \<open>'v\<close> is its embedding vector.\<close>

record 'v llm_port =
  lp_complete :: "string \<Rightarrow> string port"
  lp_complete_json :: "string \<Rightarrow> string \<Rightarrow> string port"
  lp_embed :: "string \<Rightarrow> 'v port"

text \<open>\<open>pa_lower\<close> is Unicode lower case, \<open>pa_show_duration\<close> the debug form of a duration.\<close>

record 'v parts =
  pa_lifecycle :: "lifecycle_port option"
  pa_gate :: gate_port
  pa_tool_executor :: "executor_port option"
  pa_skill_executor :: "executor_port option"
  pa_llm :: "'v llm_port option"
  pa_federation :: "executor_port option"
  pa_wasm :: "wasm_port option"
  pa_versions :: version_env
  pa_lower :: "string \<Rightarrow> string"
  pa_show_duration :: "nat \<Rightarrow> string"

definition policy_error_display :: "policy_error \<Rightarrow> string" where
  "policy_error_display e =
     (case e of Denied m \<Rightarrow> ''policy denied execution: '' @ m
      | Requirement m \<Rightarrow> ''policy requirement not satisfied: '' @ m
      | Evaluation m \<Rightarrow> ''policy evaluation failed: '' @ m)"

text \<open>What the stores' operations do once their futures have run; how far a future gets before it is
  dropped is part of what a call observes (\<open>run\<close>).\<close>

definition content_call :: "(cstore \<Rightarrow> (context_error + 'a) \<times> cstore) \<Rightarrow> 'a port" where
  "content_call f w =
     (let (r, s) = f (w_content w) in (Some (map_sum FacadeContext id r), w\<lparr>w_content := s\<rparr>))"

definition version_call :: "(vstore \<Rightarrow> (version_error + 'a) \<times> vstore) \<Rightarrow> 'a port" where
  "version_call f w =
     (let (r, s) = f (w_versions w) in (Some (map_sum FacadeVersion id r), w\<lparr>w_versions := s\<rparr>))"

definition reading :: "('s \<Rightarrow> 'e + 'a) \<Rightarrow> 's \<Rightarrow> ('e + 'a) \<times> 's" where
  "reading f s = (f s, s)"

section \<open>Assembly\<close>

text \<open>\<open>ContextDbBuilder::build\<close>: the retriever is built from the ports, \<open>retriever\<close> is the outcome.\<close>

definition assemble :: "cstore \<Rightarrow> vstore \<Rightarrow> audit_sink \<Rightarrow> reaction list option \<Rightarrow> world" where
  "assemble cs vs sink reactions =
     \<lparr>w_content = cs, w_versions = vs, w_audit = sink, w_reactions = reactions, w_accepting = True,
      w_in_flight = 0, w_sessions = no_bindings, w_shutdown_result = None\<rparr>"

definition facade_build ::
    "facade_config \<Rightarrow> string + 'r \<Rightarrow> cstore \<Rightarrow> vstore \<Rightarrow> audit_sink \<Rightarrow> reaction list option
     \<Rightarrow> facade_error + 'r \<times> world" where
  "facade_build cfg retriever cs vs sink reactions =
     (case validate_facade_config cfg of
        Inl e \<Rightarrow> Inl e
      | Inr _ \<Rightarrow> (case retriever of
          Inl e \<Rightarrow> Inl (FacadeRetrieveConfig e)
        | Inr r \<Rightarrow> Inr (r, assemble cs vs sink reactions)))"

section \<open>Actions\<close>

text \<open>An action on the world with a fallible result; \<open>and_then\<close> is the operator \<open>?\<close>.\<close>

type_synonym 'a action = "world \<Rightarrow> 'a outcome"

definition give :: "facade_error + 'a \<Rightarrow> 'a action" where
  "give r w = (r, w)"

definition and_then :: "'a action \<Rightarrow> ('a \<Rightarrow> 'b action) \<Rightarrow> 'b action" where
  "and_then act f w = (case act w of (Inl e, w1) \<Rightarrow> (Inl e, w1) | (Inr x, w1) \<Rightarrow> f x w1)"

definition is_ok :: "'e + 'a \<Rightarrow> bool" where
  "is_ok r = (case r of Inr _ \<Rightarrow> True | Inl _ \<Rightarrow> False)"

definition admit :: "unit action" where
  "admit w =
     (if \<not> w_accepting w then (Inl (NotConfigured ''facade is shutting down''), w)
      else (Inr (), w\<lparr>w_in_flight := w_in_flight w + 1\<rparr>))"

definition release :: "world \<Rightarrow> world" where
  "release w = w\<lparr>w_in_flight := w_in_flight w - 1\<rparr>"

definition validate_uri :: "request_context \<Rightarrow> moment \<Rightarrow> context_uri \<Rightarrow> unit action" where
  "validate_uri ctx m uri =
     give (case remaining ctx m of
       Inl e \<Rightarrow> Inl e
     | Inr _ \<Rightarrow> if u_tenant uri \<noteq> rc_tenant_name ctx then Inl (TenantViolation (u_canonical uri))
                else Inr ())"

text \<open>\<open>String::pop\<close> removes the last character: its continuation bytes and its first byte.\<close>

fun pop_rev :: "string \<Rightarrow> string" where
  "pop_rev [] = []"
| "pop_rev (c # cs) = (if cont c then pop_rev cs else cs)"

definition pop_char :: "string \<Rightarrow> string" where
  "pop_char s = rev (pop_rev (rev s))"

lemma length_pop_rev: "length (pop_rev s) \<le> length s - 1"
  by (induction s) auto

lemma length_pop_char: "s \<noteq> [] \<Longrightarrow> length (pop_char s) < length s"
  using length_pop_rev [of "rev s"] by (cases s) (auto simp: pop_char_def)

function truncate_detail :: "nat \<Rightarrow> string \<Rightarrow> string" where
  "truncate_detail limit s = (if limit < length s then truncate_detail limit (pop_char s) else s)"
  by pat_completeness auto
termination
proof (relation "measure (\<lambda>(limit, s). length s)", goal_cases)
  case (2 limit s)
  then show ?case using length_pop_char [of s] by (cases s) auto
qed simp

declare truncate_detail.simps [simp del]

definition audit :: "facade_config \<Rightarrow> request_context \<Rightarrow> string \<Rightarrow> bool \<Rightarrow> string \<Rightarrow> unit action" where
  "audit cfg ctx operation allowed detail w =
     (let e = \<lparr>ae_tenant = rc_tenant_name ctx, ae_actor = rc_actor ctx,
               ae_request_id = rc_request_id ctx, ae_operation = operation, ae_allowed = allowed,
               ae_detail = truncate_detail (max_audit_detail_bytes cfg) detail\<rparr>;
          (r, sink) = record_event e (w_audit w);
          w1 = w\<lparr>w_audit := sink\<rparr>
      in case r of
           Inl m \<Rightarrow> (Inl (FacadeAudit m), w1)
         | Inr _ \<Rightarrow>
             (Inr (), w1\<lparr>w_reactions := map_option
                (\<lambda>rs. rs @ [reaction_with_context ctx operation operation allowed]) (w_reactions w1)\<rparr>))"

text \<open>How far the port's future gets: it completes, or it is still pending when it is dropped, after
  \<open>n\<close> of its steps. A single operation has had no effect after none of them and its effect after
  more; a batch has stored \<open>n\<close> of its entries.\<close>

datatype progress = Completes | Stalls nat

text \<open>What a guarded call observes: the moment of the deadline check, whether the token is
  cancelled when the call is first polled, how far the port gets and, should it not finish, whether
  cancellation comes before the timeout.\<close>

record run =
  ru_at :: moment
  ru_cancel_first :: bool
  ru_progress :: progress
  ru_cancel_late :: bool

definition polled :: "run \<Rightarrow> 'a port \<Rightarrow> 'a port" where
  "polled r port w =
     (case ru_progress r of
        Completes \<Rightarrow> port w
      | Stalls n \<Rightarrow> (None, if n = 0 then w else snd (port w)))"

definition raced :: "facade_config \<Rightarrow> request_context \<Rightarrow> run \<Rightarrow> 'a port \<Rightarrow> 'a action" where
  "raced cfg ctx r port w =
     (case remaining ctx (ru_at r) of
        Inl e \<Rightarrow> (Inl e, w)
      | Inr d \<Rightarrow>
          (let left = min d (default_timeout cfg)
           in if ru_cancel_first r then (Inl Cancelled, w)
              else case polled r port w of
                (Some x, w1) \<Rightarrow> (x, w1)
              | (None, w1) \<Rightarrow> (Inl (if ru_cancel_late r then Cancelled else FacadeTimeout left), w1)))"

definition timed :: "facade_config \<Rightarrow> request_context \<Rightarrow> run \<Rightarrow> 'a port \<Rightarrow> 'a action" where
  "timed cfg ctx r port =
     and_then admit (\<lambda>_ w. let (x, w1) = raced cfg ctx r port w in (x, release w1))"

text \<open>The result of an action is audited; it is only returned when the audit accepts it.\<close>

definition audited ::
    "facade_config \<Rightarrow> request_context \<Rightarrow> string \<Rightarrow> string \<Rightarrow> 'a action \<Rightarrow> 'a action" where
  "audited cfg ctx operation detail act w =
     (let (r, w1) = act w
      in and_then (audit cfg ctx operation (is_ok r) detail) (\<lambda>_. give r) w1)"

section \<open>Content\<close>

definition facade_read ::
    "facade_config \<Rightarrow> 'v parts \<Rightarrow> request_context \<Rightarrow> moment \<Rightarrow> run \<Rightarrow> run \<Rightarrow> context_uri \<Rightarrow> content_level
     \<Rightarrow> content_payload action" where
  "facade_read cfg parts ctx m r1 r2 uri level =
     and_then (validate_uri ctx m uri) (\<lambda>_.
     and_then (case pa_lifecycle parts of
                 Some lc \<Rightarrow> timed cfg ctx r1 (lc_restore_before_read lc uri)
               | None \<Rightarrow> give (Inr ())) (\<lambda>_.
     audited cfg ctx ''content.read'' (u_canonical uri)
       (timed cfg ctx r2 (content_call (reading (read_entry uri level))))))"

text \<open>The last step of a write: an audit that fails after the commit is reported as such.\<close>

definition write_audited ::
    "facade_config \<Rightarrow> 'v parts \<Rightarrow> request_context \<Rightarrow> facade_error + 'a \<Rightarrow> 'a action" where
  "write_audited cfg parts ctx r w =
     (case audit cfg ctx ''content.write'' (is_ok r) ''write'' w of
        (Inl err, w1) \<Rightarrow>
          (Inl (if is_ok r
                then CommittedWithPostCommitFailure (facade_error_display (pa_show_duration parts) err)
                else err), w1)
      | (Inr _, w1) \<Rightarrow> (r, w1))"

text \<open>After the entry is stored: a lifecycle step that fails is audited, whatever the sink says.\<close>

definition write_body ::
    "facade_config \<Rightarrow> 'v parts \<Rightarrow> request_context \<Rightarrow> run \<Rightarrow> run \<Rightarrow> datetime \<Rightarrow> context_entry
     \<Rightarrow> mvcc_version action" where
  "write_body cfg parts ctx r1 r2 now entry w =
     (let (r, w1) = timed cfg ctx r1 (content_call (write_entry now entry)) w
      in case (r, pa_lifecycle parts) of
           (Inr _, Some lc) \<Rightarrow>
             (case timed cfg ctx r2 (lc_route_after_write lc entry) w1 of
                (Inl err, w2) \<Rightarrow>
                  (Inl (CommittedWithPostCommitFailure (facade_error_display (pa_show_duration parts) err)),
                   snd (audit cfg ctx ''content.write'' False ''committed; lifecycle failed'' w2))
              | (Inr _, w2) \<Rightarrow> write_audited cfg parts ctx r w2)
         | _ \<Rightarrow> write_audited cfg parts ctx r w1)"

definition facade_write ::
    "facade_config \<Rightarrow> 'v parts \<Rightarrow> request_context \<Rightarrow> moment \<Rightarrow> run \<Rightarrow> run \<Rightarrow> datetime \<Rightarrow> context_entry
     \<Rightarrow> mvcc_version action" where
  "facade_write cfg parts ctx m r1 r2 now entry =
     and_then (validate_uri ctx m (e_uri entry)) (\<lambda>_.
       if e_tenant entry \<noteq> rc_tenant ctx then give (Inl (TenantViolation (u_canonical (e_uri entry))))
       else write_body cfg parts ctx r1 r2 now entry)"

definition facade_delete ::
    "facade_config \<Rightarrow> request_context \<Rightarrow> moment \<Rightarrow> run \<Rightarrow> context_uri \<Rightarrow> unit action" where
  "facade_delete cfg ctx m r uri =
     and_then (validate_uri ctx m uri) (\<lambda>_. timed cfg ctx r (content_call (delete_entry uri)))"

definition facade_rename ::
    "facade_config \<Rightarrow> request_context \<Rightarrow> moment \<Rightarrow> moment \<Rightarrow> run \<Rightarrow> context_uri \<Rightarrow> context_uri
     \<Rightarrow> unit action" where
  "facade_rename cfg ctx m1 m2 r from to =
     and_then (validate_uri ctx m1 from) (\<lambda>_.
     and_then (validate_uri ctx m2 to) (\<lambda>_.
     timed cfg ctx r (content_call (rename_entry from to))))"

text \<open>The entries of a batch, each with the moment of its check and the clock of its write.\<close>

fun check_batch :: "request_context \<Rightarrow> (moment \<times> datetime \<times> context_entry) list \<Rightarrow> unit action" where
  "check_batch ctx [] = give (Inr ())"
| "check_batch ctx ((m, now, e) # es) =
     and_then (validate_uri ctx m (e_uri e)) (\<lambda>_.
       if e_tenant e \<noteq> rc_tenant ctx then give (Inl (TenantViolation (u_canonical (e_uri e))))
       else check_batch ctx es)"

text \<open>The entries a batch gets to before its future is dropped.\<close>

definition reached :: "run \<Rightarrow> 'a list \<Rightarrow> 'a list" where
  "reached r es = (case ru_progress r of Completes \<Rightarrow> es | Stalls n \<Rightarrow> take n es)"

definition facade_batch_write ::
    "facade_config \<Rightarrow> request_context \<Rightarrow> run \<Rightarrow> (moment \<times> datetime \<times> context_entry) list
     \<Rightarrow> mvcc_version list action" where
  "facade_batch_write cfg ctx r es =
     (if length es > max_batch_size cfg
      then give (Inl (FacadeInvalidConfig ''batch exceeds configured limit''))
      else and_then (check_batch ctx es)
             (\<lambda>_. timed cfg ctx r (content_call (batch_write (map snd (reached r es))))))"

definition facade_list ::
    "facade_config \<Rightarrow> 'v parts \<Rightarrow> request_context \<Rightarrow> moment \<Rightarrow> run \<Rightarrow> context_uri \<Rightarrow> page_request
     \<Rightarrow> dir_entry page action" where
  "facade_list cfg parts ctx m r dir page =
     and_then (validate_uri ctx m dir) (\<lambda>_. timed cfg ctx r (content_call
       (reading (\<lambda>s. Inr (ls (parse_datetime (pa_versions parts)) dir page s)))))"

definition facade_find ::
    "facade_config \<Rightarrow> 'v parts \<Rightarrow> request_context \<Rightarrow> moment \<Rightarrow> run \<Rightarrow> find_pattern \<Rightarrow> page_request
     \<Rightarrow> context_uri page action" where
  "facade_find cfg parts ctx m r pattern page =
     (case fp_scope pattern of
        None \<Rightarrow> give (Inl (TenantViolation ''find requires tenant scope''))
      | Some scope \<Rightarrow>
          and_then (validate_uri ctx m scope) (\<lambda>_. timed cfg ctx r (content_call
            (reading (\<lambda>s. Inr (find_entries (parse_datetime (pa_versions parts)) pattern page s))))))"

definition facade_grep ::
    "facade_config \<Rightarrow> 'v parts \<Rightarrow> request_context \<Rightarrow> moment \<Rightarrow> run \<Rightarrow> string \<Rightarrow> context_uri
     \<Rightarrow> grep_hit list action" where
  "facade_grep cfg parts ctx m r pattern scope =
     and_then (validate_uri ctx m scope) (\<lambda>_. timed cfg ctx r (content_call
       (reading (\<lambda>s. Inr (grep (pa_lower parts) (parse_datetime (pa_versions parts)) pattern scope s)))))"

definition facade_tree ::
    "facade_config \<Rightarrow> 'v parts \<Rightarrow> request_context \<Rightarrow> moment \<Rightarrow> run \<Rightarrow> context_uri \<Rightarrow> nat \<Rightarrow> page_request
     \<Rightarrow> tree_node page action" where
  "facade_tree cfg parts ctx m r root tree_depth page =
     and_then (validate_uri ctx m root) (\<lambda>_.
       if tree_depth > max_tree_depth cfg then give (Inl (FacadeInvalidConfig ''tree depth exceeds limit''))
       else timed cfg ctx r (content_call
         (reading (\<lambda>s. Inr (tree (parse_datetime (pa_versions parts)) root tree_depth page s)))))"

definition facade_scan ::
    "facade_config \<Rightarrow> request_context \<Rightarrow> moment \<Rightarrow> run \<Rightarrow> context_uri \<Rightarrow> page_request
     \<Rightarrow> context_entry page action" where
  "facade_scan cfg ctx m r prefix page =
     and_then (validate_uri ctx m prefix) (\<lambda>_. timed cfg ctx r (content_call
       (reading (\<lambda>s. Inr (scan_by_prefix (u_canonical prefix) page s)))))"

definition facade_scan_by_type ::
    "facade_config \<Rightarrow> request_context \<Rightarrow> moment \<Rightarrow> run \<Rightarrow> context_uri \<Rightarrow> content_type \<Rightarrow> page_request
     \<Rightarrow> context_entry page action" where
  "facade_scan_by_type cfg ctx m r prefix ct page =
     and_then (validate_uri ctx m prefix) (\<lambda>_.
       audited cfg ctx ''content.scan_by_type'' (u_canonical prefix)
         (timed cfg ctx r (content_call
           (reading (\<lambda>s. Inr (scan_by_type (u_canonical prefix) ct page s))))))"

section \<open>Guarded execution\<close>

definition policy_denied :: "policy_error \<Rightarrow> facade_error" where
  "policy_denied e = PolicyDenied (policy_error_display e)"

definition gate_check :: "'v parts \<Rightarrow> execution_context \<Rightarrow> execution_request \<Rightarrow> facade_error + policy_decision" where
  "gate_check parts ex req = map_sum policy_denied id (gp_preflight (pa_gate parts) ex req)"

definition gate_finish ::
    "'v parts \<Rightarrow> execution_context \<Rightarrow> policy_decision \<Rightarrow> execution_response
     \<Rightarrow> facade_error + execution_response" where
  "gate_finish parts ex d resp = map_sum policy_denied id (gp_postflight (pa_gate parts) ex d resp)"

definition preflight_denied :: facade_error where
  "preflight_denied = PolicyDenied ''preflight denied''"

definition bind_sum :: "('e + 'a) \<Rightarrow> ('a \<Rightarrow> 'e + 'b) \<Rightarrow> 'e + 'b" where
  "bind_sum r f = (case r of Inl e \<Rightarrow> Inl e | Inr x \<Rightarrow> f x)"

definition mapping_error :: "(facade_error \<Rightarrow> facade_error) \<Rightarrow> 'a action \<Rightarrow> 'a action" where
  "mapping_error f act w = (let (r, w1) = act w in (map_sum f id r, w1))"

definition then_check :: "'a action \<Rightarrow> ('a \<Rightarrow> facade_error + 'b) \<Rightarrow> 'b action" where
  "then_check act f w = (let (r, w1) = act w in (bind_sum r f, w1))"

definition configured :: "string \<Rightarrow> 'p option \<Rightarrow> facade_error + 'p" where
  "configured name p = (case p of None \<Rightarrow> Inl (NotConfigured name) | Some x \<Rightarrow> Inr x)"

text \<open>The steps the three language model calls share: the deadline, the gate, whose denial is
  audited, the port. What follows the gate is \<open>call\<close>.\<close>

definition llm_guarded ::
    "facade_config \<Rightarrow> 'v parts \<Rightarrow> request_context \<Rightarrow> moment \<Rightarrow> string \<Rightarrow> string
     \<Rightarrow> ('v llm_port \<Rightarrow> 'a action) \<Rightarrow> 'a action" where
  "llm_guarded cfg parts ctx m operation prompt call =
     and_then (give (remaining ctx m)) (\<lambda>_.
     and_then (give (gate_check parts (execution ctx (KindTool operation)) (request_new operation prompt)))
       (\<lambda>decision.
        if \<not> pd_allowed decision
        then and_then (audit cfg ctx operation False ''gate denied'') (\<lambda>_. give (Inl preflight_denied))
        else and_then (give (configured ''llm'' (pa_llm parts))) call))"

text \<open>\<open>llm_complete\<close> races the model against the timeout without being admitted. The operator
  \<open>?\<close> in the arm of the race leaves the function: a timeout is not audited.\<close>

definition facade_llm_complete ::
    "facade_config \<Rightarrow> 'v parts \<Rightarrow> request_context \<Rightarrow> moment \<Rightarrow> run \<Rightarrow> string \<Rightarrow> string action" where
  "facade_llm_complete cfg parts ctx m r prompt =
     llm_guarded cfg parts ctx m ''llm.complete'' prompt (\<lambda>llm w.
       case remaining ctx (ru_at r) of
         Inl e \<Rightarrow> (Inl e, w)
       | Inr d \<Rightarrow>
           if ru_cancel_first r then audited cfg ctx ''llm.complete'' ''completion'' (give (Inl Cancelled)) w
           else case polled r (lp_complete llm prompt) w of
             (Some x, w1) \<Rightarrow> audited cfg ctx ''llm.complete'' ''completion'' (give x) w1
           | (None, w1) \<Rightarrow>
               if ru_cancel_late r
               then audited cfg ctx ''llm.complete'' ''completion'' (give (Inl Cancelled)) w1
               else (Inl (FacadeTimeout (min d (default_timeout cfg))), w1))"

definition facade_llm_complete_json ::
    "facade_config \<Rightarrow> 'v parts \<Rightarrow> request_context \<Rightarrow> moment \<Rightarrow> run \<Rightarrow> string \<Rightarrow> string \<Rightarrow> string action" where
  "facade_llm_complete_json cfg parts ctx m r prompt schema =
     llm_guarded cfg parts ctx m ''llm.complete_json'' prompt (\<lambda>llm.
       audited cfg ctx ''llm.complete_json'' ''structured completion''
         (timed cfg ctx r (lp_complete_json llm prompt schema)))"

definition facade_llm_embed ::
    "facade_config \<Rightarrow> 'v parts \<Rightarrow> request_context \<Rightarrow> moment \<Rightarrow> run \<Rightarrow> string \<Rightarrow> 'v action" where
  "facade_llm_embed cfg parts ctx m r txt =
     llm_guarded cfg parts ctx m ''llm.embed'' txt (\<lambda>llm.
       audited cfg ctx ''llm.embed'' ''embedding'' (timed cfg ctx r (lp_embed llm txt)))"

definition facade_federate ::
    "facade_config \<Rightarrow> 'v parts \<Rightarrow> request_context \<Rightarrow> moment \<Rightarrow> run \<Rightarrow> execution_request
     \<Rightarrow> execution_response action" where
  "facade_federate cfg parts ctx m r req =
     and_then (give (remaining ctx m)) (\<lambda>_.
     and_then (give (configured ''federation'' (pa_federation parts))) (\<lambda>gateway.
     let ex = execution ctx (KindTool ''federation'')
     in and_then (give (gate_check parts ex req)) (\<lambda>decision.
        if \<not> pd_allowed decision then give (Inl preflight_denied)
        else audited cfg ctx ''federation.execute'' ''tenant-bound federation''
          (then_check
            (mapping_error (\<lambda>e. FacadeFederation (facade_error_display (pa_show_duration parts) e))
              (timed cfg ctx r (gateway ex req)))
            (gate_finish parts ex decision)))))"

text \<open>\<open>execute\<close>: the executor gets the request as it was passed, not the decision's.\<close>

definition facade_execute ::
    "facade_config \<Rightarrow> 'v parts \<Rightarrow> request_context \<Rightarrow> run \<Rightarrow> execution_kind \<Rightarrow> execution_request
     \<Rightarrow> executor_port option \<Rightarrow> execution_response action" where
  "facade_execute cfg parts ctx r kind req executor =
     (let ex = execution ctx kind
      in and_then (give (gate_check parts ex req)) (\<lambda>decision.
         if \<not> pd_allowed decision
         then and_then (audit cfg ctx ''execute'' False ''gate denied'') (\<lambda>_. give (Inl preflight_denied))
         else
           and_then (give (configured ''executor'' executor)) (\<lambda>f.
           and_then (timed cfg ctx r (f ex req)) (\<lambda>response.
           audited cfg ctx ''execute'' ''tool or skill'' (give (gate_finish parts ex decision response))))))"

definition facade_execute_tool ::
    "facade_config \<Rightarrow> 'v parts \<Rightarrow> request_context \<Rightarrow> run \<Rightarrow> string \<Rightarrow> execution_request
     \<Rightarrow> execution_response action" where
  "facade_execute_tool cfg parts ctx r name req =
     facade_execute cfg parts ctx r (KindTool name) req (pa_tool_executor parts)"

definition facade_execute_skill ::
    "facade_config \<Rightarrow> 'v parts \<Rightarrow> request_context \<Rightarrow> run \<Rightarrow> string \<Rightarrow> execution_request
     \<Rightarrow> execution_response action" where
  "facade_execute_skill cfg parts ctx r name req =
     facade_execute cfg parts ctx r (KindSkill name) req (pa_skill_executor parts)"

definition facade_wasm_register_tenant ::
    "facade_config \<Rightarrow> 'v parts \<Rightarrow> request_context \<Rightarrow> moment \<Rightarrow> string \<Rightarrow> unit action" where
  "facade_wasm_register_tenant cfg parts ctx m policy =
     and_then (give (remaining ctx m)) (\<lambda>_.
     and_then (give (configured ''wasm'' (pa_wasm parts))) (\<lambda>gateway.
     audited cfg ctx ''wasm.register'' ''tenant-bound registration''
       (\<lambda>w. let (r, w1) = wp_register_tenant gateway (execution ctx (KindTool ''wasm.register'')) policy w
            in (map_sum FacadeWasm id r, w1))))"

definition wasm_error :: "'v parts \<Rightarrow> facade_error \<Rightarrow> facade_error" where
  "wasm_error parts e = FacadeWasm (facade_error_display (pa_show_duration parts) e)"

definition facade_wasm_install ::
    "facade_config \<Rightarrow> 'v parts \<Rightarrow> request_context \<Rightarrow> moment \<Rightarrow> run \<Rightarrow> string \<Rightarrow> string \<Rightarrow> string action" where
  "facade_wasm_install cfg parts ctx m r module bytes =
     and_then (give (remaining ctx m)) (\<lambda>_.
     if length bytes > max_wasm_module_bytes cfg
     then give (Inl (FacadeInvalidConfig ''WASM module exceeds configured limit''))
     else
       and_then (give (configured ''wasm'' (pa_wasm parts))) (\<lambda>gateway.
       let ex = execution ctx (KindTool ''wasm.install'')
       in and_then (give (gate_check parts ex (request_new ''wasm.install'' module))) (\<lambda>decision.
          if \<not> pd_allowed decision then give (Inl preflight_denied)
          else audited cfg ctx ''wasm.install'' module
            (then_check
              (mapping_error (wasm_error parts) (timed cfg ctx r (wp_install gateway ex module bytes)))
              (\<lambda>hash. bind_sum (gate_finish parts ex decision (response_new ''installed''))
                (\<lambda>_. Inr hash))))))"

definition facade_wasm_invoke ::
    "facade_config \<Rightarrow> 'v parts \<Rightarrow> request_context \<Rightarrow> moment \<Rightarrow> run \<Rightarrow> string \<Rightarrow> string \<Rightarrow> string \<Rightarrow> string
     \<Rightarrow> string action" where
  "facade_wasm_invoke cfg parts ctx m r token module func request =
     and_then (give (remaining ctx m)) (\<lambda>_.
     if length request > max_wasm_request_bytes cfg
     then give (Inl (FacadeInvalidConfig ''WASM request exceeds configured limit''))
     else
       and_then (give (configured ''wasm'' (pa_wasm parts))) (\<lambda>gateway.
       let ex = execution ctx (KindTool ''wasm.invoke''); target = module @ ''::'' @ func
       in and_then (give (gate_check parts ex (request_new ''wasm.invoke'' target))) (\<lambda>decision.
          if \<not> pd_allowed decision then give (Inl preflight_denied)
          else audited cfg ctx ''wasm.invoke'' target
            (then_check
              (mapping_error (wasm_error parts)
                (timed cfg ctx r (wp_invoke gateway ex token module func request)))
              (\<lambda>output.
                if length output > max_wasm_output_bytes cfg
                then Inl (FacadeWasm ''WASM output exceeds configured limit'')
                else bind_sum (gate_finish parts ex decision (response_new ''invoked''))
                  (\<lambda>_. Inr output))))))"

text \<open>\<open>retrieve\<close> runs the retriever, a port, under the same guard.\<close>

definition facade_retrieve ::
    "facade_config \<Rightarrow> request_context \<Rightarrow> moment \<Rightarrow> run \<Rightarrow> 'a port \<Rightarrow> 'a action" where
  "facade_retrieve cfg ctx m r retriever =
     and_then (give (remaining ctx m)) (\<lambda>_.
     audited cfg ctx ''retrieve'' ''query'' (timed cfg ctx r retriever))"

section \<open>Shutdown\<close>

type_synonym runtime_guard = "world \<Rightarrow> (context_error + unit) \<times> world"

text \<open>The guards in their order, up to the first that fails; the result is remembered.\<close>

fun close_guards :: "runtime_guard list \<Rightarrow> unit action" where
  "close_guards [] w = (Inr (), w\<lparr>w_shutdown_result := Some (Inr ())\<rparr>)"
| "close_guards (g # gs) w =
     (case g w of
        (Inl e, w1) \<Rightarrow> (Inl (FacadeContext e), w1\<lparr>w_shutdown_result := Some (Inl (context_error_display e))\<rparr>)
      | (Inr _, w1) \<Rightarrow> close_guards gs w1)"

text \<open>\<open>shutdown\<close> once no call is in flight (\<open>Facade_Admission\<close> models the wait).\<close>

definition shutdown_drained :: "runtime_guard list \<Rightarrow> unit action" where
  "shutdown_drained guards w =
     (if w_shutdown_result w = Some (Inr ()) then (Inr (), w) else close_guards guards w)"

definition stop_accepting :: "world \<Rightarrow> world" where
  "stop_accepting w = w\<lparr>w_accepting := False\<rparr>"

end
