(* ===== verification/Facade_Versions.thy ===== *)
theory Facade_Versions
  imports Facade
begin

text \<open>
  The tenant-guarded version API, src/src/version_facade.rs: each operation checks the tenant of
  the scope, runs the version store's operation under the facade's deadline and audits the
  result. Interactive conflict sessions are a port; the facade binds the sessions it hands out
  to the tenant. Binding may not return (\<open>Conflict_Sessions\<close>), so these operations yield an
  optional outcome.
\<close>

section \<open>Versions\<close>

definition version_finish ::
    "facade_config \<Rightarrow> request_context \<Rightarrow> run \<Rightarrow> string \<Rightarrow> string \<Rightarrow> 'a port \<Rightarrow> 'a action" where
  "version_finish cfg ctx r operation detail port =
     audited cfg ctx operation detail (timed cfg ctx r port)"

definition on_scope ::
    "facade_config \<Rightarrow> request_context \<Rightarrow> moment \<Rightarrow> run \<Rightarrow> string \<Rightarrow> context_uri
     \<Rightarrow> (vstore \<Rightarrow> (version_error + 'a) \<times> vstore) \<Rightarrow> 'a action" where
  "on_scope cfg ctx m r operation scope f =
     and_then (validate_uri ctx m scope)
       (\<lambda>_. version_finish cfg ctx r operation (u_canonical scope) (version_call f))"

definition v_commit ::
    "facade_config \<Rightarrow> 'v parts \<Rightarrow> request_context \<Rightarrow> moment \<Rightarrow> run
     \<Rightarrow> uuid \<Rightarrow> datetime \<Rightarrow> context_uri \<Rightarrow> change_set \<Rightarrow> commit_meta \<Rightarrow> commit_id action" where
  "v_commit cfg parts ctx m r fresh now s c meta =
     on_scope cfg ctx m r ''version.commit'' s
       (make_commit (pa_versions parts) fresh now s c meta)"

definition v_create_branch ::
    "facade_config \<Rightarrow> 'v parts \<Rightarrow> request_context \<Rightarrow> moment \<Rightarrow> run
     \<Rightarrow> datetime \<Rightarrow> context_uri \<Rightarrow> branch_name \<Rightarrow> commit_id \<Rightarrow> branch_type \<Rightarrow> branch action" where
  "v_create_branch cfg parts ctx m r now s n f bt =
     on_scope cfg ctx m r ''version.create_branch'' s
       (create_branch (pa_versions parts) now s n f bt)"

definition v_list_branches ::
    "facade_config \<Rightarrow> 'v parts \<Rightarrow> request_context \<Rightarrow> moment \<Rightarrow> run
     \<Rightarrow> context_uri \<Rightarrow> branch list action" where
  "v_list_branches cfg parts ctx m r s =
     on_scope cfg ctx m r ''version.list_branches'' s
       (reading (\<lambda>vs. Inr (list_branches s vs)))"

definition v_delete_branch ::
    "facade_config \<Rightarrow> 'v parts \<Rightarrow> request_context \<Rightarrow> moment \<Rightarrow> run
     \<Rightarrow> context_uri \<Rightarrow> branch_name \<Rightarrow> unit action" where
  "v_delete_branch cfg parts ctx m r s n =
     on_scope cfg ctx m r ''version.delete_branch'' s
       (delete_branch s n)"

definition v_create_tag ::
    "facade_config \<Rightarrow> 'v parts \<Rightarrow> request_context \<Rightarrow> moment \<Rightarrow> run
     \<Rightarrow> context_uri \<Rightarrow> tag \<Rightarrow> unit action" where
  "v_create_tag cfg parts ctx m r s t =
     on_scope cfg ctx m r ''version.create_tag'' s
       (create_tag s t)"

definition v_list_tags ::
    "facade_config \<Rightarrow> 'v parts \<Rightarrow> request_context \<Rightarrow> moment \<Rightarrow> run
     \<Rightarrow> context_uri \<Rightarrow> tag list action" where
  "v_list_tags cfg parts ctx m r s =
     on_scope cfg ctx m r ''version.list_tags'' s
       (reading (\<lambda>vs. Inr (list_tags s vs)))"

definition v_log ::
    "facade_config \<Rightarrow> 'v parts \<Rightarrow> request_context \<Rightarrow> moment \<Rightarrow> run
     \<Rightarrow> uuid \<Rightarrow> context_uri \<Rightarrow> log_opts \<Rightarrow> commit list action" where
  "v_log cfg parts ctx m r fresh s opts =
     on_scope cfg ctx m r ''version.log'' s
       (reading (\<lambda>vs. Inr (store_log fresh s opts vs)))"

definition v_read_at ::
    "facade_config \<Rightarrow> 'v parts \<Rightarrow> request_context \<Rightarrow> moment \<Rightarrow> run
     \<Rightarrow> context_uri \<Rightarrow> version_ref \<Rightarrow> content_level \<Rightarrow> content_payload action" where
  "v_read_at cfg parts ctx m r u vr l =
     on_scope cfg ctx m r ''version.read_at'' u
       (reading (read_at (pa_versions parts) u vr l))"

definition v_asof_read ::
    "facade_config \<Rightarrow> 'v parts \<Rightarrow> request_context \<Rightarrow> moment \<Rightarrow> run
     \<Rightarrow> context_uri \<Rightarrow> as_of_point \<Rightarrow> content_level \<Rightarrow> content_payload action" where
  "v_asof_read cfg parts ctx m r u at l =
     on_scope cfg ctx m r ''version.asof_read'' u
       (reading (asof_read (pa_versions parts) u at l))"

definition v_merge ::
    "facade_config \<Rightarrow> 'v parts \<Rightarrow> request_context \<Rightarrow> moment \<Rightarrow> run
     \<Rightarrow> uuid \<Rightarrow> datetime \<Rightarrow> context_uri \<Rightarrow> branch_name \<Rightarrow> branch_name \<Rightarrow> merge_strategy \<Rightarrow> merge_result action" where
  "v_merge cfg parts ctx m r fresh now s f i x =
     on_scope cfg ctx m r ''version.merge'' s
       (merge_branches (pa_versions parts) fresh now s f i x)"

definition v_diff_commits ::
    "facade_config \<Rightarrow> 'v parts \<Rightarrow> request_context \<Rightarrow> moment \<Rightarrow> run
     \<Rightarrow> context_uri \<Rightarrow> commit_id \<Rightarrow> commit_id \<Rightarrow> tree_diff action" where
  "v_diff_commits cfg parts ctx m r s a b =
     on_scope cfg ctx m r ''version.diff_commits'' s
       (reading (\<lambda>vs. Inr (diff_commits (pa_versions parts) a b vs)))"

definition v_switch_head ::
    "facade_config \<Rightarrow> 'v parts \<Rightarrow> request_context \<Rightarrow> moment \<Rightarrow> run
     \<Rightarrow> context_uri \<Rightarrow> branch_name \<Rightarrow> unit action" where
  "v_switch_head cfg parts ctx m r s b =
     on_scope cfg ctx m r ''version.switch_head'' s
       (switch_head s b)"

definition v_cherry_pick ::
    "facade_config \<Rightarrow> 'v parts \<Rightarrow> request_context \<Rightarrow> moment \<Rightarrow> run
     \<Rightarrow> uuid \<Rightarrow> datetime \<Rightarrow> context_uri \<Rightarrow> commit_id \<Rightarrow> branch_name \<Rightarrow> conflict_strategy \<Rightarrow> commit_id action" where
  "v_cherry_pick cfg parts ctx m r fresh now s c onto x =
     on_scope cfg ctx m r ''version.cherry_pick'' s
       (cherry_pick (pa_versions parts) fresh now s c onto x)"

definition v_rebase ::
    "facade_config \<Rightarrow> 'v parts \<Rightarrow> request_context \<Rightarrow> moment \<Rightarrow> run
     \<Rightarrow> uuid \<Rightarrow> datetime \<Rightarrow> context_uri \<Rightarrow> branch_name \<Rightarrow> branch_name \<Rightarrow> conflict_strategy \<Rightarrow> commit_id list action" where
  "v_rebase cfg parts ctx m r fresh now s b onto x =
     on_scope cfg ctx m r ''version.rebase'' s
       (rebase (pa_versions parts) fresh now s b onto x)"

definition v_squash ::
    "facade_config \<Rightarrow> 'v parts \<Rightarrow> request_context \<Rightarrow> moment \<Rightarrow> run
     \<Rightarrow> uuid \<Rightarrow> datetime \<Rightarrow> context_uri \<Rightarrow> commit_id list \<Rightarrow> string \<Rightarrow> squash_result action" where
  "v_squash cfg parts ctx m r fresh now s c msg =
     on_scope cfg ctx m r ''version.squash'' s
       (squash (pa_versions parts) fresh now s c msg)"

definition v_gc ::
    "facade_config \<Rightarrow> 'v parts \<Rightarrow> request_context \<Rightarrow> moment \<Rightarrow> run
     \<Rightarrow> uuid \<Rightarrow> context_uri \<Rightarrow> gc_policy \<Rightarrow> gc_report action" where
  "v_gc cfg parts ctx m r fresh s p =
     on_scope cfg ctx m r ''version.gc'' s
       (gc fresh s p)"

definition v_evaluate_semantic_tags ::
    "facade_config \<Rightarrow> 'v parts \<Rightarrow> request_context \<Rightarrow> moment \<Rightarrow> run
     \<Rightarrow> context_uri \<Rightarrow> (tag_name \<times> commit_id) list action" where
  "v_evaluate_semantic_tags cfg parts ctx m r s =
     on_scope cfg ctx m r ''version.evaluate_semantic_tags'' s
       (reading (\<lambda>vs. Inr (evaluate_semantic_tags s vs)))"

definition v_provenance ::
    "facade_config \<Rightarrow> 'v parts \<Rightarrow> request_context \<Rightarrow> moment \<Rightarrow> run
     \<Rightarrow> context_uri \<Rightarrow> provenance_graph action" where
  "v_provenance cfg parts ctx m r u =
     on_scope cfg ctx m r ''version.provenance'' u
       (reading (\<lambda>vs. Inr (provenance u vs)))"

definition v_evolution ::
    "facade_config \<Rightarrow> 'v parts \<Rightarrow> request_context \<Rightarrow> moment \<Rightarrow> run
     \<Rightarrow> context_uri \<Rightarrow> temporal_version list action" where
  "v_evolution cfg parts ctx m r u =
     on_scope cfg ctx m r ''version.evolution'' u
       (reading (\<lambda>vs. Inr (evolution (pa_versions parts) u vs)))"

text \<open>Commit identities carry no tenant: the addresses found are checked before release, each at a
  moment of its own.\<close>

fun check_uris :: "request_context \<Rightarrow> moment list \<Rightarrow> context_uri list \<Rightarrow> unit action" where
  "check_uris ctx (m # ms) (u # us) = and_then (validate_uri ctx m u) (\<lambda>_. check_uris ctx ms us)"
| "check_uris ctx _ _ = give (Inr ())"

definition v_impact_analysis ::
    "facade_config \<Rightarrow> 'v parts \<Rightarrow> request_context \<Rightarrow> run \<Rightarrow> (nat \<Rightarrow> moment) \<Rightarrow> commit_id
     \<Rightarrow> impact_analysis action" where
  "v_impact_analysis cfg parts ctx r clock c =
     and_then (version_finish cfg ctx r ''version.impact_analysis'' ''commit''
       (version_call (reading (analyse_impact (pa_versions parts) c)))) (\<lambda>a.
     and_then (check_uris ctx (map clock [0..<length (ia_downstream_uris a)]) (ia_downstream_uris a)) (\<lambda>_.
     give (Inr a)))"

section \<open>Conflict sessions\<close>

record interactive_port =
  ip_begin_cherry_pick ::
    "context_uri \<Rightarrow> commit_id \<Rightarrow> branch_name \<Rightarrow> session_persistence \<Rightarrow> conflict_session port"
  ip_begin_rebase ::
    "context_uri \<Rightarrow> branch_name \<Rightarrow> branch_name \<Rightarrow> session_persistence \<Rightarrow> conflict_session port"
  ip_continue :: "conflict_session \<Rightarrow> conflict_resolution_set \<Rightarrow> commit_id list port"
  ip_load :: "conflict_session_id \<Rightarrow> conflict_session port"
  ip_continue_by_id :: "conflict_session_id \<Rightarrow> conflict_resolution_set \<Rightarrow> commit_id list port"
  ip_abort :: "conflict_session_id \<Rightarrow> unit port"

text \<open>Binding a session checks its scope and its conflicts; \<open>now\<close> is read under the lock.\<close>

definition facade_bind ::
    "facade_config \<Rightarrow> request_context \<Rightarrow> (nat \<Rightarrow> moment) \<Rightarrow> nat \<Rightarrow> conflict_session \<Rightarrow> world
     \<Rightarrow> unit outcome option" where
  "facade_bind cfg ctx clock now s w =
     (let us = cs_scope s # map ci_uri (cs_conflicts s)
      in case check_uris ctx (map clock [0..<length us]) us w of
           (Inl e, w1) \<Rightarrow> Some (Inl e, w1)
         | (Inr _, w1) \<Rightarrow>
             map_option (\<lambda>b. (Inr (), w1\<lparr>w_sessions := b\<rparr>))
               (bind_session (conflict_session_ttl cfg) (rc_tenant_name ctx) now (cs_id s) (w_sessions w1)))"

definition facade_owns ::
    "facade_config \<Rightarrow> request_context \<Rightarrow> nat \<Rightarrow> conflict_session_id \<Rightarrow> unit action" where
  "facade_owns cfg ctx now sid w =
     (if owns_session (conflict_session_ttl cfg) (rc_tenant_name ctx) now sid (w_sessions w)
      then (Inr (), w) else (Inl (TenantViolation ''unbound conflict session''), w))"

definition facade_forget :: "conflict_session_id \<Rightarrow> world \<Rightarrow> world" where
  "facade_forget sid w = w\<lparr>w_sessions := forget_session sid (w_sessions w)\<rparr>"

definition session_finish ::
    "facade_config \<Rightarrow> request_context \<Rightarrow> run \<Rightarrow> string \<Rightarrow> 'a port \<Rightarrow> 'a action" where
  "session_finish cfg ctx r operation port =
     audited cfg ctx operation ''conflict session'' (timed cfg ctx r port)"

text \<open>A session the store hands out is bound before it is returned.\<close>

definition bound_session ::
    "facade_config \<Rightarrow> request_context \<Rightarrow> (nat \<Rightarrow> moment) \<Rightarrow> nat \<Rightarrow> conflict_session action \<Rightarrow> world
     \<Rightarrow> conflict_session outcome option" where
  "bound_session cfg ctx clock now act w =
     (case act w of
        (Inl e, w1) \<Rightarrow> Some (Inl e, w1)
      | (Inr s, w1) \<Rightarrow>
          map_option (\<lambda>(r, w2). (map_sum id (\<lambda>_. s) r, w2)) (facade_bind cfg ctx clock now s w1))"

definition i_begin_cherry_pick ::
    "facade_config \<Rightarrow> interactive_port \<Rightarrow> request_context \<Rightarrow> moment \<Rightarrow> run \<Rightarrow> (nat \<Rightarrow> moment) \<Rightarrow> nat
     \<Rightarrow> context_uri \<Rightarrow> commit_id \<Rightarrow> branch_name \<Rightarrow> session_persistence \<Rightarrow> world
     \<Rightarrow> conflict_session outcome option" where
  "i_begin_cherry_pick cfg ip ctx m r clock now s c onto p =
     bound_session cfg ctx clock now
       (and_then (validate_uri ctx m s) (\<lambda>_.
        session_finish cfg ctx r ''version.conflict.begin_cherry_pick'' (ip_begin_cherry_pick ip s c onto p)))"

definition i_begin_rebase ::
    "facade_config \<Rightarrow> interactive_port \<Rightarrow> request_context \<Rightarrow> moment \<Rightarrow> run \<Rightarrow> (nat \<Rightarrow> moment) \<Rightarrow> nat
     \<Rightarrow> context_uri \<Rightarrow> branch_name \<Rightarrow> branch_name \<Rightarrow> session_persistence \<Rightarrow> world
     \<Rightarrow> conflict_session outcome option" where
  "i_begin_rebase cfg ip ctx m r clock now s b onto p =
     bound_session cfg ctx clock now
       (and_then (validate_uri ctx m s) (\<lambda>_.
        session_finish cfg ctx r ''version.conflict.begin_rebase'' (ip_begin_rebase ip s b onto p)))"

definition i_load_conflict_session ::
    "facade_config \<Rightarrow> interactive_port \<Rightarrow> request_context \<Rightarrow> run \<Rightarrow> (nat \<Rightarrow> moment) \<Rightarrow> nat
     \<Rightarrow> conflict_session_id \<Rightarrow> world \<Rightarrow> conflict_session outcome option" where
  "i_load_conflict_session cfg ip ctx r clock now sid =
     bound_session cfg ctx clock now
       (session_finish cfg ctx r ''version.conflict.load'' (ip_load ip sid))"

text \<open>A session that was completed or aborted is forgotten.\<close>

definition forgetting :: "conflict_session_id \<Rightarrow> 'a action \<Rightarrow> 'a action" where
  "forgetting sid act w = (let (r, w1) = act w in (r, if is_ok r then facade_forget sid w1 else w1))"

definition i_continue_conflict_session ::
    "facade_config \<Rightarrow> interactive_port \<Rightarrow> request_context \<Rightarrow> moment \<Rightarrow> nat \<Rightarrow> run \<Rightarrow> conflict_session
     \<Rightarrow> conflict_resolution_set \<Rightarrow> commit_id list action" where
  "i_continue_conflict_session cfg ip ctx m now r s res =
     and_then (validate_uri ctx m (cs_scope s)) (\<lambda>_.
     and_then (facade_owns cfg ctx now (cs_id s)) (\<lambda>_.
     forgetting (cs_id s) (session_finish cfg ctx r ''version.conflict.continue'' (ip_continue ip s res))))"

definition i_continue_by_id ::
    "facade_config \<Rightarrow> interactive_port \<Rightarrow> request_context \<Rightarrow> nat \<Rightarrow> run \<Rightarrow> conflict_session_id
     \<Rightarrow> conflict_resolution_set \<Rightarrow> commit_id list action" where
  "i_continue_by_id cfg ip ctx now r sid res =
     and_then (facade_owns cfg ctx now sid) (\<lambda>_.
     forgetting sid (session_finish cfg ctx r ''version.conflict.continue_by_id'' (ip_continue_by_id ip sid res)))"

definition i_abort ::
    "facade_config \<Rightarrow> interactive_port \<Rightarrow> request_context \<Rightarrow> nat \<Rightarrow> run \<Rightarrow> conflict_session_id
     \<Rightarrow> unit action" where
  "i_abort cfg ip ctx now r sid =
     and_then (facade_owns cfg ctx now sid) (\<lambda>_.
     forgetting sid (session_finish cfg ctx r ''version.conflict.abort'' (ip_abort ip sid)))"

end
