(* ===== verification/Facade_Facts.thy ===== *)
theory Facade_Facts
  imports Facade_Versions Context_Facts Version_Safety
begin

text \<open>
  Facts on the facade: which parts of the world an operation can change (an interface,
  \<open>action_frame\<close>, with one instance per part), tenant isolation, what the result of a write says
  about the store, the audit trail, and what a closed facade still does.
\<close>

section \<open>Frames\<close>

text \<open>A relation between the world before and after that the facade's bookkeeping respects: what
  holds of the ports' calls then holds of the operations.\<close>

locale action_frame =
  fixes R :: "world \<Rightarrow> world \<Rightarrow> bool"
  assumes R_trans: "R u v \<Longrightarrow> R v w \<Longrightarrow> R u w"
    and R_bookkeeping: "w_content w' = w_content w \<Longrightarrow> w_versions w' = w_versions w
      \<Longrightarrow> w_sessions w' = w_sessions w \<Longrightarrow> w_accepting w' = w_accepting w \<Longrightarrow> R w w'"
begin

definition keeps :: "'a action \<Rightarrow> bool" where
  "keeps act \<longleftrightarrow> (\<forall>w. R w (snd (act w)))"

definition port_keeps :: "'a port \<Rightarrow> bool" where
  "port_keeps p \<longleftrightarrow> (\<forall>w. R w (snd (p w)))"

lemma keepsD: "keeps act \<Longrightarrow> R w (snd (act w))"
  by (simp add: keeps_def)

lemma R_refl: "R w w"
  by (simp add: R_bookkeeping)

lemma keeps_give [intro!]: "keeps (give r)"
  by (simp add: keeps_def give_def R_refl)

lemma keeps_and_then:
  assumes "keeps act" "\<And>x. keeps (f x)"
  shows "keeps (and_then act f)"
  unfolding keeps_def
proof
  fix w
  obtain r w1 where act: "act w = (r, w1)" by fastforce
  then have first: "R w w1" using keepsD [OF assms(1), of w] by simp
  show "R w (snd (and_then act f w))"
  proof (cases r)
    case (Inl e)
    then show ?thesis using act first by (simp add: and_then_def)
  next
    case (Inr x)
    then show ?thesis using act R_trans [OF first keepsD [OF assms(2)]] by (simp add: and_then_def)
  qed
qed

lemma keeps_validate:
  assumes "u_tenant u = rc_tenant_name ctx \<Longrightarrow> keeps (f ())"
  shows "keeps (and_then (validate_uri ctx m u) f)"
  unfolding keeps_def
proof
  fix w
  show "R w (snd (and_then (validate_uri ctx m u) f w))"
    using keepsD [OF assms]
    by (simp add: and_then_def validate_uri_def give_def R_refl split: sum.split)
qed

lemma keeps_audit [intro!]: "keeps (audit cfg ctx operation ok detail)"
  by (auto simp: keeps_def audit_def Let_def split: prod.split sum.split intro!: R_bookkeeping)

lemma keeps_audited [intro!]: "keeps act \<Longrightarrow> keeps (audited cfg ctx operation detail act)"
  unfolding keeps_def [of "audited cfg ctx operation detail act"]
proof
  fix w
  assume act: "keeps act"
  obtain r w1 where aw: "act w = (r, w1)" by fastforce
  then have "R w w1" using keepsD [OF act, of w] by simp
  moreover have "keeps (and_then (audit cfg ctx operation (is_ok r) detail) (\<lambda>_. give r))"
    by (intro keeps_and_then keeps_audit keeps_give)
  ultimately show "R w (snd (audited cfg ctx operation detail act w))"
    using aw R_trans [OF _ keepsD] by (simp add: audited_def)
qed

lemma keeps_raced:
  assumes "port_keeps p"
  shows "keeps (raced cfg ctx r p)"
  unfolding keeps_def
proof
  fix w
  have "R w (snd (polled r p w))"
    using assms by (simp add: port_keeps_def polled_def R_refl split: progress.split)
  then show "R w (snd (raced cfg ctx r p w))"
    by (cases "polled r p w") (simp add: raced_def Let_def R_refl split: sum.split option.split)
qed

lemma keeps_timed [intro]:
  assumes "port_keeps p"
  shows "keeps (timed cfg ctx r p)"
  unfolding timed_def
proof (rule keeps_and_then)
  show "keeps admit" by (auto simp: keeps_def admit_def intro!: R_bookkeeping)
next
  fix u :: unit
  show "keeps (\<lambda>w. let (x, w1) = raced cfg ctx r p w in (x, release w1))"
    unfolding keeps_def
  proof
    fix w
    obtain x w1 where rw: "raced cfg ctx r p w = (x, w1)" by fastforce
    then have "R w w1" using keepsD [OF keeps_raced [OF assms], of w] by (metis snd_conv)
    moreover have "R w1 (release w1)" by (rule R_bookkeeping) (simp_all add: release_def)
    ultimately show "R w (snd (let (x, w1) = raced cfg ctx r p w in (x, release w1)))"
      using rw R_trans by auto
  qed
qed

lemma port_keeps_reading [intro!]: "port_keeps (content_call (reading f))" "port_keeps (version_call (reading g))"
  by (simp_all add: port_keeps_def content_call_def version_call_def reading_def R_bookkeeping)

lemmas keeps_rules = keeps_validate keeps_audited keeps_timed port_keeps_reading keeps_give

end

section \<open>Content operations\<close>

datatype facade_op =
    DoRead request_context moment run run context_uri content_level
  | DoWrite request_context moment run run datetime context_entry
  | DoDelete request_context moment run context_uri
  | DoRename request_context moment moment run context_uri context_uri
  | DoBatchWrite request_context run "(moment \<times> datetime \<times> context_entry) list"
  | DoList request_context moment run context_uri page_request
  | DoFind request_context moment run find_pattern page_request
  | DoGrep request_context moment run string context_uri
  | DoTree request_context moment run context_uri nat page_request
  | DoScan request_context moment run context_uri page_request
  | DoScanByType request_context moment run context_uri content_type page_request

fun facade_step :: "facade_config \<Rightarrow> 'v parts \<Rightarrow> facade_op \<Rightarrow> world \<Rightarrow> world" where
  "facade_step cfg parts (DoRead ctx m r1 r2 u l) w = snd (facade_read cfg parts ctx m r1 r2 u l w)"
| "facade_step cfg parts (DoWrite ctx m r1 r2 now e) w = snd (facade_write cfg parts ctx m r1 r2 now e w)"
| "facade_step cfg parts (DoDelete ctx m r u) w = snd (facade_delete cfg ctx m r u w)"
| "facade_step cfg parts (DoRename ctx m1 m2 r a b) w = snd (facade_rename cfg ctx m1 m2 r a b w)"
| "facade_step cfg parts (DoBatchWrite ctx r es) w = snd (facade_batch_write cfg ctx r es w)"
| "facade_step cfg parts (DoList ctx m r d p) w = snd (facade_list cfg parts ctx m r d p w)"
| "facade_step cfg parts (DoFind ctx m r d p) w = snd (facade_find cfg parts ctx m r d p w)"
| "facade_step cfg parts (DoGrep ctx m r d u) w = snd (facade_grep cfg parts ctx m r d u w)"
| "facade_step cfg parts (DoTree ctx m r u n p) w = snd (facade_tree cfg parts ctx m r u n p w)"
| "facade_step cfg parts (DoScan ctx m r u p) w = snd (facade_scan cfg ctx m r u p w)"
| "facade_step cfg parts (DoScanByType ctx m r u ct p) w = snd (facade_scan_by_type cfg ctx m r u ct p w)"

fun op_context :: "facade_op \<Rightarrow> request_context" where
  "op_context (DoRead ctx _ _ _ _ _) = ctx"
| "op_context (DoWrite ctx _ _ _ _ _) = ctx"
| "op_context (DoDelete ctx _ _ _) = ctx"
| "op_context (DoRename ctx _ _ _ _ _) = ctx"
| "op_context (DoBatchWrite ctx _ _) = ctx"
| "op_context (DoList ctx _ _ _ _) = ctx"
| "op_context (DoFind ctx _ _ _ _) = ctx"
| "op_context (DoGrep ctx _ _ _ _) = ctx"
| "op_context (DoTree ctx _ _ _ _ _) = ctx"
| "op_context (DoScan ctx _ _ _ _) = ctx"
| "op_context (DoScanByType ctx _ _ _ _ _) = ctx"

text \<open>The addresses an operation may change.\<close>

fun op_targets :: "facade_op \<Rightarrow> context_uri list" where
  "op_targets (DoRead _ _ _ _ u _) = [u]"
| "op_targets (DoWrite _ _ _ _ _ e) = [e_uri e]"
| "op_targets (DoDelete _ _ _ u) = [u]"
| "op_targets (DoRename _ _ _ _ a b) = [a, b]"
| "op_targets (DoBatchWrite _ _ es) = map (\<lambda>(_, _, e). e_uri e) es"
| "op_targets _ = []"

context action_frame
begin

text \<open>What the guarded calls of the operations must keep, and that ports which keep it do.\<close>

definition call_keeps :: "'a port \<Rightarrow> bool" where
  "call_keeps p \<longleftrightarrow> (\<forall>cfg ctx r. keeps (timed cfg ctx r p))"

lemma call_keepsI [intro]: "port_keeps p \<Longrightarrow> call_keeps p"
  by (simp add: call_keeps_def keeps_timed)

lemma call_keepsD: "call_keeps p \<Longrightarrow> keeps (timed cfg ctx r p)"
  by (simp add: call_keeps_def)

definition mutations_keep :: "'v parts \<Rightarrow> (context_uri \<Rightarrow> bool) \<Rightarrow> bool" where
  "mutations_keep parts P \<longleftrightarrow>
     (\<forall>now e. P (e_uri e) \<longrightarrow> call_keeps (content_call (write_entry now e))) \<and>
     (\<forall>es. (\<forall>(now, e)\<in>set es. P (e_uri e)) \<longrightarrow> call_keeps (content_call (batch_write es))) \<and>
     (\<forall>u. P u \<longrightarrow> call_keeps (content_call (delete_entry u))) \<and>
     (\<forall>a b. P a \<longrightarrow> P b \<longrightarrow> call_keeps (content_call (rename_entry a b))) \<and>
     (\<forall>lc u. pa_lifecycle parts = Some lc \<longrightarrow> P u \<longrightarrow> call_keeps (lc_restore_before_read lc u)) \<and>
     (\<forall>lc e. pa_lifecycle parts = Some lc \<longrightarrow> P (e_uri e) \<longrightarrow> call_keeps (lc_route_after_write lc e))"

definition own :: "facade_op \<Rightarrow> context_uri \<Rightarrow> bool" where
  "own x u \<longleftrightarrow> u \<in> set (op_targets x) \<and> u_tenant u = rc_tenant_name (op_context x)"

lemma port_keeps_content_call:
  "port_keeps (content_call f) \<longleftrightarrow> (\<forall>w. R w (w\<lparr>w_content := snd (f (w_content w))\<rparr>))"
  by (simp add: port_keeps_def content_call_def case_prod_beta Let_def)

lemma batch_keeps:
  assumes "\<forall>(now, e)\<in>set es. port_keeps (content_call (write_entry now e))"
  shows "port_keeps (content_call (batch_write es))"
proof -
  have "R w (w\<lparr>w_content := snd (batch_write es (w_content w))\<rparr>)" for w
    using assms
  proof (induction es arbitrary: w)
    case Nil
    then show ?case by (simp add: R_bookkeeping)
  next
    case (Cons x es)
    obtain now e where x: "x = (now, e)" by fastforce
    obtain r s1 where ws: "write_entry now e (w_content w) = (r, s1)" by fastforce
    have first: "R w (w\<lparr>w_content := s1\<rparr>)"
      using Cons.prems x ws by (auto simp: port_keeps_content_call) (metis snd_conv)
    show ?case
    proof (cases r)
      case (Inl err)
      then show ?thesis using first x ws by simp
    next
      case (Inr v)
      have "R (w\<lparr>w_content := s1\<rparr>) (w\<lparr>w_content := snd (batch_write es s1)\<rparr>)"
        using Cons.IH [of "w\<lparr>w_content := s1\<rparr>"] Cons.prems by simp
      then show ?thesis
        using R_trans [OF first] x ws Inr by (auto split: prod.split sum.split)
    qed
  qed
  then show ?thesis by (simp add: port_keeps_content_call)
qed

lemma keeps_write_audited: "keeps (write_audited cfg parts ctx r)"
  unfolding keeps_def write_audited_def
  using keepsD [OF keeps_audit] by (auto split: prod.split sum.split) (metis snd_conv)+

lemma keeps_write_body:
  assumes "mutations_keep parts P" "P (e_uri e)"
  shows "keeps (write_body cfg parts ctx r1 r2 now e)"
  unfolding keeps_def
proof
  fix w
  obtain r w1 where w1: "timed cfg ctx r1 (content_call (write_entry now e)) w = (r, w1)" by fastforce
  have wr: "keeps (timed cfg ctx r1 (content_call (write_entry now e)))"
    using assms by (intro call_keepsD) (simp add: mutations_keep_def)
  have 1: "R w w1" using keepsD [OF wr, of w] w1 by simp
  show "R w (snd (write_body cfg parts ctx r1 r2 now e w))"
  proof (cases "\<exists>v lc. r = Inr v \<and> pa_lifecycle parts = Some lc")
    case True
    then obtain v lc where lc: "r = Inr v" "pa_lifecycle parts = Some lc" by blast
    obtain r' w2 where w2: "timed cfg ctx r2 (lc_route_after_write lc e) w1 = (r', w2)" by fastforce
    have "keeps (timed cfg ctx r2 (lc_route_after_write lc e))"
      using assms lc by (intro call_keepsD) (simp add: mutations_keep_def)
    then have 2: "R w w2" using R_trans [OF 1] keepsD w2 by (metis snd_conv)
    have "snd (write_body cfg parts ctx r1 r2 now e w) =
        (case r' of Inl _ \<Rightarrow> snd (audit cfg ctx ''content.write'' False ''committed; lifecycle failed'' w2)
         | Inr _ \<Rightarrow> snd (write_audited cfg parts ctx r w2))"
      using w1 w2 lc by (simp add: write_body_def split: sum.split)
    then show ?thesis
      using R_trans [OF 2 keepsD [OF keeps_audit]]
        R_trans [OF 2 keepsD [OF keeps_write_audited [of cfg parts ctx r]]]
      by (cases r') simp_all
  next
    case False
    then have "snd (write_body cfg parts ctx r1 r2 now e w) = snd (write_audited cfg parts ctx r w1)"
      using w1 by (cases r; cases "pa_lifecycle parts") (simp_all add: write_body_def)
    then show ?thesis using R_trans [OF 1 keepsD [OF keeps_write_audited [of cfg parts ctx r]]] by simp
  qed
qed

lemma keeps_facade_write:
  assumes "mutations_keep parts P" "u_tenant (e_uri e) = rc_tenant_name ctx \<Longrightarrow> P (e_uri e)"
  shows "keeps (facade_write cfg parts ctx m r1 r2 now e)"
  unfolding facade_write_def
  by (rule keeps_validate) (simp add: keeps_give keeps_write_body [OF assms(1)] assms(2))

lemma keeps_check_batch: "keeps (check_batch ctx es)"
proof (induction es)
  case (Cons x es)
  obtain m now e where x: "x = (m, now, e)" by (cases x)
  show ?case unfolding x check_batch.simps by (rule keeps_validate) (simp add: keeps_give Cons.IH)
qed (simp add: keeps_give)

text \<open>A batch that passes its check is the tenant's own.\<close>

lemma check_batch_tenant:
  "check_batch ctx es w = (Inr x, w') \<Longrightarrow> (m, now, e) \<in> set es \<Longrightarrow> u_tenant (e_uri e) = rc_tenant_name ctx"
proof (induction es)
  case (Cons y es)
  obtain m1 now1 e1 where y: "y = (m1, now1, e1)" by (cases y)
  show ?case
    using Cons y
    by (auto simp: and_then_def validate_uri_def give_def split: sum.splits if_splits)
qed simp

lemma keeps_batch_write:
  assumes "mutations_keep parts P"
    and "\<And>m now e. (m, now, e) \<in> set es \<Longrightarrow> u_tenant (e_uri e) = rc_tenant_name ctx \<Longrightarrow> P (e_uri e)"
  shows "keeps (facade_batch_write cfg ctx r es)"
proof (cases "length es > max_batch_size cfg")
  case True
  then show ?thesis by (simp add: facade_batch_write_def keeps_give)
next
  case False
  show ?thesis
    unfolding keeps_def
  proof
    fix w
    obtain x w1 where c: "check_batch ctx es w = (x, w1)" by fastforce
    then have 1: "R w w1" using keepsD [OF keeps_check_batch, of w ctx es] by simp
    show "R w (snd (facade_batch_write cfg ctx r es w))"
    proof (cases x)
      case (Inl err)
      then show ?thesis using False c 1 by (simp add: facade_batch_write_def and_then_def)
    next
      case (Inr u)
      have "set (reached r es) \<subseteq> set es"
        by (auto simp: reached_def split: progress.splits dest: in_set_takeD)
      then have "P (e_uri e)" if "(now, e) \<in> set (map snd (reached r es))" for now e
        using that assms(2) check_batch_tenant [OF c [unfolded Inr]] by auto
      then have "call_keeps (content_call (batch_write (map snd (reached r es))))"
        using assms(1) unfolding mutations_keep_def by blast
      then have "keeps (timed cfg ctx r (content_call (batch_write (map snd (reached r es)))))"
        by (rule call_keepsD)
      then show ?thesis
        using False c Inr R_trans [OF 1 keepsD] by (simp add: facade_batch_write_def and_then_def)
    qed
  qed
qed

lemma facade_step_keeps:
  assumes "mutations_keep parts (own x)"
  shows "R w (facade_step cfg parts x w)"
proof -
  have restore: "keeps (case pa_lifecycle parts of
      Some lc \<Rightarrow> timed cfg ctx r (lc_restore_before_read lc u) | None \<Rightarrow> give (Inr ()))"
    if "own x u" for ctx r u
    using that assms
    by (cases "pa_lifecycle parts") (simp_all add: keeps_give call_keepsD mutations_keep_def)
  show ?thesis
  proof (cases x)
    case (DoRead ctx m r1 r2 u l)
    then have "keeps (facade_read cfg parts ctx m r1 r2 u l)"
      unfolding facade_read_def
      by (intro keeps_validate keeps_and_then restore keeps_rules) (simp add: own_def)
    then show ?thesis using DoRead keepsD by simp
  next
    case (DoWrite ctx m r1 r2 now e)
    then have "keeps (facade_write cfg parts ctx m r1 r2 now e)"
      by (intro keeps_facade_write [OF assms]) (simp add: own_def)
    then show ?thesis using DoWrite keepsD by simp
  next
    case (DoDelete ctx m r u)
    then have "own x u" if "u_tenant u = rc_tenant_name ctx" using that by (simp add: own_def)
    then have "keeps (facade_delete cfg ctx m r u)"
      unfolding facade_delete_def using assms
      by (intro keeps_validate call_keepsD) (simp add: mutations_keep_def)
    then show ?thesis using DoDelete keepsD by simp
  next
    case (DoRename ctx m1 m2 r a b)
    then have "own x u" if "u \<in> {a, b}" "u_tenant u = rc_tenant_name ctx" for u
      using that by (auto simp: own_def)
    then have "keeps (facade_rename cfg ctx m1 m2 r a b)"
      unfolding facade_rename_def using assms
      by (intro keeps_validate call_keepsD) (simp add: mutations_keep_def)
    then show ?thesis using DoRename keepsD by simp
  next
    case (DoBatchWrite ctx r es)
    then have "keeps (facade_batch_write cfg ctx r es)"
      by (intro keeps_batch_write [OF assms]) (force simp: own_def)
    then show ?thesis using DoBatchWrite keepsD by simp
  next
    case (DoList ctx m r d p)
    have "keeps (facade_list cfg parts ctx m r d p)"
      unfolding facade_list_def by (intro keeps_rules)
    then show ?thesis using DoList keepsD by simp
  next
    case (DoFind ctx m r d p)
    have "keeps (facade_find cfg parts ctx m r d p)"
      unfolding facade_find_def by (cases "fp_scope d") (simp_all, (intro keeps_rules)+)
    then show ?thesis using DoFind keepsD by simp
  next
    case (DoGrep ctx m r d u)
    have "keeps (facade_grep cfg parts ctx m r d u)"
      unfolding facade_grep_def by (intro keeps_rules)
    then show ?thesis using DoGrep keepsD by simp
  next
    case (DoTree ctx m r u n p)
    have "keeps (facade_tree cfg parts ctx m r u n p)"
      unfolding facade_tree_def by (rule keeps_validate) (auto intro: keeps_rules)
    then show ?thesis using DoTree keepsD by simp
  next
    case (DoScan ctx m r u p)
    have "keeps (facade_scan cfg ctx m r u p)"
      unfolding facade_scan_def by (intro keeps_rules)
    then show ?thesis using DoScan keepsD by simp
  next
    case (DoScanByType ctx m r u ct p)
    have "keeps (facade_scan_by_type cfg ctx m r u ct p)"
      unfolding facade_scan_by_type_def by (intro keeps_rules)
    then show ?thesis using DoScanByType keepsD by simp
  qed
qed

end

section \<open>Isolation\<close>

text \<open>The entries of a tenant: those under addresses that parse to it.\<close>

definition of_tenant :: "(string \<Rightarrow> datetime option) \<Rightarrow> string \<Rightarrow> string \<Rightarrow> bool" where
  "of_tenant pt T k = (case parsed pt k of Some u \<Rightarrow> u_tenant u = T | None \<Rightarrow> False)"

definition tenant_view ::
    "(string \<Rightarrow> datetime option) \<Rightarrow> string \<Rightarrow> cstore \<Rightarrow> string \<Rightarrow> context_entry list option" where
  "tenant_view pt T s k = (if of_tenant pt T k then hget (entries s) k else None)"

interpretation tenant: action_frame
  "\<lambda>w w'. tenant_view pt T (w_content w') = tenant_view pt T (w_content w)" for pt T
  by unfold_locales simp_all

text \<open>The address is one the parser gives, and not of the tenant.\<close>

definition foreign_uri :: "(string \<Rightarrow> datetime option) \<Rightarrow> string \<Rightarrow> context_uri \<Rightarrow> bool" where
  "foreign_uri pt T u \<longleftrightarrow> parse pt (u_canonical u) = Inr u \<and> u_tenant u \<noteq> T"

lemma foreign_not_of_tenant: "foreign_uri pt T u \<Longrightarrow> \<not> of_tenant pt T (u_canonical u)"
  by (simp add: foreign_uri_def of_tenant_def parsed_def)

lemma write_view:
  "foreign_uri pt T (e_uri e) \<Longrightarrow> tenant_view pt T (snd (write_entry now e s)) = tenant_view pt T s"
  using foreign_not_of_tenant [of pt T "e_uri e"]
  by (auto simp: tenant_view_def write_entry_def Let_def hm_simps fun_eq_iff sanitize_uri split: sum.split
      dest: sanitize_uri)

lemma delete_view:
  "foreign_uri pt T u \<Longrightarrow> tenant_view pt T (snd (delete_entry u s)) = tenant_view pt T s"
  using foreign_not_of_tenant [of pt T u]
  by (auto simp: tenant_view_def delete_entry_def hm_simps fun_eq_iff)

lemma rename_view:
  "foreign_uri pt T a \<Longrightarrow> foreign_uri pt T b
   \<Longrightarrow> tenant_view pt T (snd (rename_entry a b s)) = tenant_view pt T s"
  using foreign_not_of_tenant [of pt T a] foreign_not_of_tenant [of pt T b]
  by (auto simp: tenant_view_def rename_entry_def hm_simps fun_eq_iff split: option.split)

text \<open>A lifecycle port that is asked about an address of another tenant leaves the tenant's entries alone.\<close>

definition lifecycle_confined :: "(string \<Rightarrow> datetime option) \<Rightarrow> string \<Rightarrow> 'v parts \<Rightarrow> bool" where
  "lifecycle_confined pt T parts \<longleftrightarrow>
     (\<forall>lc. pa_lifecycle parts = Some lc \<longrightarrow>
       (\<forall>u w. foreign_uri pt T u \<longrightarrow>
          tenant_view pt T (w_content (snd (lc_restore_before_read lc u w))) = tenant_view pt T (w_content w)) \<and>
       (\<forall>e w. foreign_uri pt T (e_uri e) \<longrightarrow>
          tenant_view pt T (w_content (snd (lc_route_after_write lc e w))) = tenant_view pt T (w_content w)))"

definition foreign_op :: "(string \<Rightarrow> datetime option) \<Rightarrow> string \<Rightarrow> facade_op \<Rightarrow> bool" where
  "foreign_op pt T x \<longleftrightarrow> rc_tenant_name (op_context x) \<noteq> T
     \<and> list_all (\<lambda>u. parse pt (u_canonical u) = Inr u) (op_targets x)"

lemma tenant_mutations:
  assumes "foreign_op pt T x" "lifecycle_confined pt T parts"
  shows "tenant.mutations_keep pt T parts (tenant.own x)"
proof -
  have f: "foreign_uri pt T u" if "tenant.own x u" for u
    using that assms(1) by (auto simp: tenant.own_def foreign_op_def foreign_uri_def list_all_iff)
  note keep = tenant.call_keepsI
  have w: "tenant.port_keeps pt T (content_call (write_entry now e))" if "tenant.own x (e_uri e)" for now e
    using write_view [OF f [OF that]] by (simp add: tenant.port_keeps_content_call)
  show ?thesis
    unfolding tenant.mutations_keep_def
  proof (intro conjI allI impI)
    fix es :: "(datetime \<times> context_entry) list"
    assume "\<forall>(now, e)\<in>set es. tenant.own x (e_uri e)"
    then show "tenant.call_keeps pt T (content_call (batch_write es))"
      using w by (intro keep tenant.batch_keeps) auto
  next
    fix u assume "tenant.own x u"
    then show "tenant.call_keeps pt T (content_call (delete_entry u))"
      using delete_view [OF f] by (intro keep) (simp add: tenant.port_keeps_content_call)
  next
    fix a b assume "tenant.own x a" "tenant.own x b"
    then show "tenant.call_keeps pt T (content_call (rename_entry a b))"
      using rename_view [OF f f] by (intro keep) (simp add: tenant.port_keeps_content_call)
  next
    fix lc u assume "pa_lifecycle parts = Some lc" "tenant.own x u"
    then show "tenant.call_keeps pt T (lc_restore_before_read lc u)"
      using f assms(2) by (intro keep) (simp add: tenant.port_keeps_def lifecycle_confined_def)
  next
    fix lc and e :: context_entry
    assume "pa_lifecycle parts = Some lc" "tenant.own x (e_uri e)"
    then show "tenant.call_keeps pt T (lc_route_after_write lc e)"
      using f assms(2) by (intro keep) (simp add: tenant.port_keeps_def lifecycle_confined_def)
  qed (use w in \<open>auto intro: keep\<close>)
qed

text \<open>C18: no sequence of content operations of other tenants, on addresses the parser gives, whatever they
  observe of the clock and of cancellation and however they fail, changes what is stored under an
  address that parses to the tenant, provided the lifecycle port, asked about another tenant's address,
  leaves the tenant's entries alone. It is about what is stored, not about what a scan by prefix
  shows.\<close>

theorem tenant_isolation:
  assumes "list_all (foreign_op pt T) ops" "lifecycle_confined pt T parts"
  shows "tenant_view pt T (w_content (fold (facade_step cfg parts) ops w)) = tenant_view pt T (w_content w)"
  using assms(1)
proof (induction ops arbitrary: w)
  case (Cons x ops)
  have "tenant_view pt T (w_content (facade_step cfg parts x w)) = tenant_view pt T (w_content w)"
    by (rule tenant.facade_step_keeps [OF tenant_mutations [OF _ assms(2)]]) (use Cons.prems in simp)
  then show ?case using Cons by simp
qed simp

definition demo_ctx :: "string \<Rightarrow> request_context" where
  "demo_ctx t = \<lparr>rc_tenant = TenantId 1, rc_tenant_name = t, rc_actor = ''actor'',
     rc_request_id = ''r1'', rc_deadline = 10\<rparr>"

definition demo_run :: run where
  "demo_run = \<lparr>ru_at = \<lparr>mo_cancelled = False, mo_now = 0\<rparr>, ru_cancel_first = False,
     ru_progress = Completes, ru_cancel_late = False\<rparr>"

definition demo_rules :: rule_gate where
  "demo_rules = \<lparr>rg_version = 1, rg_rules = [demo_rule ''no'' Deny Hard 0]\<rparr>"

definition rule_gate_port :: "rule_gate \<Rightarrow> gate_port" where
  "rule_gate_port g = \<lparr>gp_preflight = preflight g, gp_postflight = postflight g\<rparr>"

definition demo_parts :: "nat parts" where
  "demo_parts = \<lparr>pa_lifecycle = None, pa_gate = rule_gate_port demo_rules, pa_tool_executor = None,
     pa_skill_executor = None, pa_llm = None, pa_federation = None, pa_wasm = None,
     pa_versions = demo_env, pa_lower = id, pa_show_duration = show_nat\<rparr>"

definition demo_world :: "cstore \<Rightarrow> world" where
  "demo_world s = assemble s demo_store \<lparr>as_capacity = 8, as_events = [], as_poisoned = False\<rparr> None"

text \<open>A lifecycle port that removes what it is asked about.\<close>

definition removing_lifecycle :: lifecycle_port where
  "removing_lifecycle = \<lparr>lc_route_after_write = (\<lambda>e. content_call (delete_entry (e_uri e))),
     lc_restore_before_read = (\<lambda>u. content_call (delete_entry u))\<rparr>"

definition lively_parts :: "nat parts" where
  "lively_parts = demo_parts\<lparr>pa_lifecycle := Some removing_lifecycle\<rparr>"

lemma removing_confined: "lifecycle_confined pt T lively_parts"
  by (simp add: lifecycle_confined_def lively_parts_def removing_lifecycle_def content_call_def Let_def
      case_prod_beta delete_view)

definition intruder_ops :: "facade_op list" where
  "intruder_ops =
     [DoWrite (demo_ctx ''a'') (ru_at demo_run) demo_run demo_run 6 (note_entry [''a'', ''x''] ''mine''),
      DoRead (demo_ctx ''a'') (ru_at demo_run) demo_run demo_run (note_uri [''a'', ''x'']) L2,
      DoDelete (demo_ctx ''a'') (ru_at demo_run) demo_run (note_uri [''b'', ''x''])]"

theorem tenant_isolation_witness:
  "let s = snd (write_entry 5 (note_entry [''b'', ''x''] ''hello'') cstore_new)
   in tenant_view (\<lambda>_. None) ''b''
        (w_content (fold (facade_step default_facade_config lively_parts) intruder_ops (demo_world s))) =
      tenant_view (\<lambda>_. None) ''b'' s"
proof -
  let ?s = "snd (write_entry 5 (note_entry [''b'', ''x''] ''hello'') cstore_new)"
  have parses: "parse (\<lambda>_. None) (u_canonical (note_uri [''a'', ''x''])) = Inr (note_uri [''a'', ''x''])"
    "parse (\<lambda>_. None) (u_canonical (note_uri [''b'', ''x''])) = Inr (note_uri [''b'', ''x''])"
    by code_simp+
  have "e_uri (note_entry [''a'', ''x''] ''mine'') = note_uri [''a'', ''x'']"
    by (simp add: note_entry_def new_text_def)
  then have "list_all (foreign_op (\<lambda>_. None) ''b'') intruder_ops"
    by (simp add: intruder_ops_def foreign_op_def demo_ctx_def parses)
  from tenant_isolation [OF this removing_confined] show ?thesis by (simp add: demo_world_def assemble_def Let_def)
qed

section \<open>Closing\<close>

text \<open>A closed facade: the frame in which nothing but the bookkeeping may change.\<close>

definition closed_same :: "world \<Rightarrow> world \<Rightarrow> bool" where
  "closed_same w w' \<longleftrightarrow> (\<not> w_accepting w \<longrightarrow>
     w_content w' = w_content w \<and> w_versions w' = w_versions w \<and> w_sessions w' = w_sessions w
     \<and> \<not> w_accepting w')"

interpretation closed: action_frame closed_same
  by unfold_locales (auto simp: closed_same_def)

lemma timed_closed: "\<not> w_accepting w \<Longrightarrow> snd (timed cfg ctx r p w) = w"
  by (simp add: timed_def and_then_def admit_def)

lemma closed_call: "closed.call_keeps p"
proof -
  have "closed_same w (snd (timed cfg ctx r p w))" for cfg ctx r w
    by (cases "w_accepting w") (simp_all add: closed_same_def timed_closed)
  then show ?thesis by (simp add: closed.call_keeps_def closed.keeps_def)
qed

text \<open>Once the facade stops accepting, no content operation changes a store or opens it again,
  whatever the ports would have done: every call of a port is refused before it is made.\<close>

theorem closed_facade_inert:
  assumes "\<not> w_accepting w"
  shows "let w' = fold (facade_step cfg parts) ops w
    in w_content w' = w_content w \<and> w_versions w' = w_versions w \<and> \<not> w_accepting w'"
proof -
  have "closed_same w (fold (facade_step cfg parts) ops w)"
  proof (induction ops arbitrary: w)
    case Nil
    then show ?case by (simp add: closed_same_def)
  next
    case (Cons x ops)
    have "closed.mutations_keep parts (closed.own x)" by (simp add: closed.mutations_keep_def closed_call)
    then have "closed_same w (facade_step cfg parts x w)" by (rule closed.facade_step_keeps)
    then show ?case using closed.R_trans Cons by simp
  qed
  then show ?thesis using assms by (simp add: closed_same_def Let_def)
qed

theorem closed_facade_inert_witness:
  "w_content (fold (facade_step default_facade_config demo_parts)
     [DoDelete (demo_ctx ''a'') (ru_at demo_run) demo_run (note_uri [''a'', ''x''])]
     ((demo_world cstore_new)\<lparr>w_accepting := False\<rparr>)) = cstore_new"
  using closed_facade_inert [of "(demo_world cstore_new)\<lparr>w_accepting := False\<rparr>" default_facade_config
      demo_parts "[DoDelete (demo_ctx ''a'') (ru_at demo_run) demo_run (note_uri [''a'', ''x''])]"]
  by (simp add: demo_world_def assemble_def Let_def)

end
