(* ===== verification/Facade_Outcomes.thy ===== *)
theory Facade_Outcomes
  imports Facade_Facts
begin

text \<open>
  What the results of the facade's operations say: whether a write was committed, that what is
  returned was audited, that a denied execution never reaches an executor, and how a shutdown that
  failed resumes.
\<close>

section \<open>Single steps\<close>

lemma audit_frame:
  "w_content (snd (audit cfg ctx operation ok detail w)) = w_content w"
  "w_versions (snd (audit cfg ctx operation ok detail w)) = w_versions w"
  by (simp_all add: audit_def Let_def split: prod.split sum.split)

text \<open>The store's future was dropped, by the deadline or a cancellation, after its effect.\<close>

definition dropped_late :: "run \<Rightarrow> bool" where
  "dropped_late r \<longleftrightarrow> (\<exists>n. ru_progress r = Stalls (Suc n))"

text \<open>A guarded content call either completes, with the result and the store of the operation, or
  fails on the facade's side; then the store is as it was, or its future was dropped too late.\<close>

lemma timed_content:
  "(\<exists>w1. timed cfg ctx r (content_call f) w = (map_sum FacadeContext id (fst (f (w_content w))), w1)
      \<and> w_content w1 = snd (f (w_content w))) \<or>
   (\<exists>e w1. timed cfg ctx r (content_call f) w = (Inl e, w1) \<and> (\<forall>m. e \<noteq> CommittedWithPostCommitFailure m)
      \<and> (w_content w1 = w_content w \<or> dropped_late r \<and> w_content w1 = snd (f (w_content w))))"
  by (cases "ru_progress r")
    (auto simp: timed_def and_then_def admit_def raced_def polled_def remaining_def content_call_def release_def
      dropped_late_def Let_def case_prod_beta gr0_conv_Suc)

section \<open>Writes\<close>

text \<open>The lifecycle step moves entries between tiers; here it leaves the content store, and the error it
  gives is not the report of a commit.\<close>

definition lifecycle_quiet :: "'v parts \<Rightarrow> bool" where
  "lifecycle_quiet parts \<longleftrightarrow> (\<forall>lc. pa_lifecycle parts = Some lc \<longrightarrow>
     (\<forall>e w. w_content (snd (lc_route_after_write lc e w)) = w_content w
        \<and> (\<forall>m. fst (lc_route_after_write lc e w) \<noteq> Some (Inl (CommittedWithPostCommitFailure m)))))"

lemma timed_route:
  assumes "lifecycle_quiet parts" "pa_lifecycle parts = Some lc"
  shows "w_content (snd (timed cfg ctx r (lc_route_after_write lc e) w)) = w_content w"
  using assms
  by (auto simp: timed_def and_then_def admit_def raced_def polled_def lifecycle_quiet_def release_def Let_def
      case_prod_beta split: sum.split option.split progress.split)

fun reported_committed :: "facade_error + 'a \<Rightarrow> bool" where
  "reported_committed (Inr _) = True"
| "reported_committed (Inl (CommittedWithPostCommitFailure _)) = True"
| "reported_committed (Inl _) = False"

lemma reported_committed_def:
  "reported_committed r \<longleftrightarrow> (case r of Inr _ \<Rightarrow> True | Inl e \<Rightarrow> \<exists>m. e = CommittedWithPostCommitFailure m)"
  by (cases r rule: reported_committed.cases) simp_all

lemma write_audited_outcome:
  assumes "write_audited cfg parts ctx r w = (r', w')" "\<forall>m. r \<noteq> Inl (CommittedWithPostCommitFailure m)"
  shows "w_content w' = w_content w \<and> reported_committed r' = is_ok r"
proof -
  obtain a w1 where a: "audit cfg ctx ''content.write'' (is_ok r) ''write'' w = (a, w1)" by fastforce
  then have "w_content w1 = w_content w" using audit_frame(1) by (metis snd_conv)
  moreover have "\<forall>err m. a = Inl err \<longrightarrow> err \<noteq> CommittedWithPostCommitFailure m"
    using a by (auto simp: audit_def Let_def split: prod.splits sum.splits)
  ultimately show ?thesis
    using a assms
    by (cases a; cases r) (auto simp: write_audited_def is_ok_def reported_committed_def)
qed

text \<open>C19: the result of a write tells whether the entry was stored. With a lifecycle step that leaves the
  content store and does not itself report a commit: a version, or the error that reports a commit, comes only with the entry stored,
  sanitized and as the newest version. After every other error, refused audits included, the store is
  as it was, unless the store's own future was dropped, by the deadline or a cancellation, after it had
  its effect; then the entry is stored although the error does not say so.\<close>

theorem write_reports_commit:
  assumes "lifecycle_quiet parts" "facade_write cfg parts ctx m r1 r2 now e w = (r, w')"
  shows "if reported_committed r
    then is_ok (fst (write_entry now e (w_content w))) \<and> w_content w' = snd (write_entry now e (w_content w))
    else w_content w' = w_content w
      \<or> dropped_late r1 \<and> w_content w' = snd (write_entry now e (w_content w))"
proof (cases "\<exists>x. validate_uri ctx m (e_uri e) w = (Inr x, w) \<and> e_tenant e = rc_tenant ctx")
  case False
  then show ?thesis
    using assms(2)
    by (auto simp: facade_write_def and_then_def validate_uri_def give_def remaining_def
        reported_committed_def split: if_splits)
next
  case True
  then have body: "write_body cfg parts ctx r1 r2 now e w = (r, w')"
    using assms(2) by (auto simp: facade_write_def and_then_def)
  let ?call = "timed cfg ctx r1 (content_call (write_entry now e)) w"
  obtain a w1 where call: "?call = (a, w1)" by fastforce
  have stored: "if is_ok a
      then is_ok (fst (write_entry now e (w_content w))) \<and> w_content w1 = snd (write_entry now e (w_content w))
      else w_content w1 = w_content w \<or> dropped_late r1 \<and> w_content w1 = snd (write_entry now e (w_content w))"
    and genuine: "\<forall>m. a \<noteq> Inl (CommittedWithPostCommitFailure m)"
    using timed_content [of cfg ctx r1 "write_entry now e" w] call
    by (auto simp: is_ok_def write_entry_def Let_def split: sum.splits)
  show ?thesis
  proof (cases "\<exists>v lc. a = Inr v \<and> pa_lifecycle parts = Some lc")
    case False
    then have "write_audited cfg parts ctx a w1 = (r, w')"
      using body call by (cases a; cases "pa_lifecycle parts") (simp_all add: write_body_def)
    from write_audited_outcome [OF this genuine] stored show ?thesis by (simp split: if_splits)
  next
    case True
    then obtain v lc where a: "a = Inr v" "pa_lifecycle parts = Some lc" by blast
    obtain b w2 where b: "timed cfg ctx r2 (lc_route_after_write lc e) w1 = (b, w2)" by fastforce
    then have w2: "w_content w2 = w_content w1" using timed_route [OF assms(1) a(2)] by (metis snd_conv)
    show ?thesis
    proof (cases b)
      case (Inl err)
      then show ?thesis
        using body call a b w2 stored
        by (auto simp: write_body_def reported_committed_def is_ok_def audit_frame)
    next
      case (Inr u)
      then have "write_audited cfg parts ctx a w2 = (r, w')"
        using body call a b by (simp add: write_body_def)
      from write_audited_outcome [OF this genuine] stored w2 show ?thesis by (simp split: if_splits)
    qed
  qed
qed

text \<open>A lifecycle port that does nothing, and a sink that refuses: the write reports its commit.\<close>

definition idle_lifecycle :: lifecycle_port where
  "idle_lifecycle = \<lparr>lc_route_after_write = (\<lambda>_ w. (Some (Inr ()), w)),
     lc_restore_before_read = (\<lambda>_ w. (Some (Inr ()), w))\<rparr>"

definition deaf_world :: world where
  "deaf_world = (demo_world cstore_new)\<lparr>w_audit := \<lparr>as_capacity = 8, as_events = [], as_poisoned = True\<rparr>\<rparr>"

abbreviation demo_write :: "nat parts \<Rightarrow> run \<Rightarrow> mvcc_version action" where
  "demo_write parts r \<equiv> facade_write default_facade_config parts (demo_ctx ''a'') (ru_at demo_run) r demo_run 5
     (note_entry [''a'', ''x''] ''hello'')"

abbreviation demo_entry :: context_entry where
  "demo_entry \<equiv> note_entry [''a'', ''x''] ''hello''"

lemmas write_steps = facade_write_def and_then_def validate_uri_def give_def remaining_def demo_ctx_def
  demo_run_def write_body_def timed_def admit_def demo_world_def assemble_def raced_def polled_def release_def
  write_audited_def audit_def record_event_def demo_parts_def content_call_def default_facade_config_def
  Let_def is_ok_def

lemma demo_entry_simps:
  "u_tenant (e_uri demo_entry) = ''a''" "e_tenant demo_entry = TenantId 1"
  by (simp_all add: note_entry_def new_text_def note_uri_def)

lemma demo_write_stored:
  "\<exists>v s. write_entry 5 demo_entry cstore_new = (Inr v, s) \<and> s \<noteq> cstore_new"
proof -
  have "is_ok (fst (write_entry 5 demo_entry cstore_new))
      \<and> hget (entries (snd (write_entry 5 demo_entry cstore_new))) ''uwu://a/x'' \<noteq> None"
    by code_simp
  then show ?thesis
    by (cases "write_entry 5 demo_entry cstore_new")
      (auto simp: is_ok_def cstore_new_def split: sum.splits)
qed

theorem write_reports_commit_witness:
  "let (r, w') = demo_write (demo_parts\<lparr>pa_lifecycle := Some idle_lifecycle\<rparr>) demo_run deaf_world
   in r = Inl (CommittedWithPostCommitFailure ''audit sink rejected event: audit buffer lock poisoned'') \<and>
      w_content w' = snd (write_entry 5 demo_entry cstore_new)"
proof -
  let ?act = "demo_write (demo_parts\<lparr>pa_lifecycle := Some idle_lifecycle\<rparr>) demo_run"
  obtain v s where ws: "write_entry 5 demo_entry cstore_new = (Inr v, s)" using demo_write_stored by blast
  have res: "fst (?act deaf_world) =
      Inl (CommittedWithPostCommitFailure ''audit sink rejected event: audit buffer lock poisoned'')"
    by (simp add: write_steps demo_entry_simps deaf_world_def idle_lifecycle_def ws)
  obtain r w' where act: "?act deaf_world = (r, w')" by fastforce
  have "lifecycle_quiet (demo_parts\<lparr>pa_lifecycle := Some idle_lifecycle\<rparr>)"
    by (simp add: lifecycle_quiet_def idle_lifecycle_def)
  from write_reports_commit [OF this act] res act show ?thesis
    by (simp add: deaf_world_def demo_world_def assemble_def)
qed

text \<open>The exception is real: a write whose future is dropped after the commit reports a timeout and leaves
  the entry stored.\<close>

theorem timeout_after_commit:
  "let (r, w') = demo_write demo_parts (demo_run\<lparr>ru_progress := Stalls 1\<rparr>) (demo_world cstore_new)
   in r = Inl (FacadeTimeout 10) \<and> \<not> reported_committed r \<and>
      w_content w' = snd (write_entry 5 demo_entry cstore_new) \<and> w_content w' \<noteq> cstore_new"
proof -
  obtain v s where "write_entry 5 demo_entry cstore_new = (Inr v, s)" "s \<noteq> cstore_new"
    using demo_write_stored by blast
  then show ?thesis by (simp add: write_steps demo_entry_simps)
qed

section \<open>Audit\<close>

text \<open>What is returned was audited: the sink's newest event names the request and the success.\<close>

definition audited_as :: "facade_config \<Rightarrow> request_context \<Rightarrow> string \<Rightarrow> string \<Rightarrow> world \<Rightarrow> bool" where
  "audited_as cfg ctx operation detail w \<longleftrightarrow> as_events (w_audit w) \<noteq> [] \<and>
     last (as_events (w_audit w)) =
       \<lparr>ae_tenant = rc_tenant_name ctx, ae_actor = rc_actor ctx, ae_request_id = rc_request_id ctx,
        ae_operation = operation, ae_allowed = True,
        ae_detail = truncate_detail (max_audit_detail_bytes cfg) detail\<rparr>"

lemma audited_success:
  "audited cfg ctx operation detail act w = (Inr x, w') \<Longrightarrow> audited_as cfg ctx operation detail w'"
  by (auto simp: audited_def audited_as_def and_then_def give_def audit_def record_event_def Let_def
      is_ok_def split: prod.splits sum.splits if_splits)

lemma and_then_InrD:
  "and_then act f w = (Inr x, w') \<Longrightarrow> \<exists>y w1. act w = (Inr y, w1) \<and> f y w1 = (Inr x, w')"
  by (auto simp: and_then_def split: prod.splits sum.splits)

lemma read_audited:
  "facade_read cfg parts ctx m r1 r2 u l w = (Inr x, w') \<Longrightarrow>
   audited_as cfg ctx ''content.read'' (u_canonical u) w'"
  unfolding facade_read_def by (blast dest: and_then_InrD audited_success)

lemma on_scope_audited:
  "on_scope cfg ctx m r operation u f w = (Inr x, w') \<Longrightarrow>
   audited_as cfg ctx operation (u_canonical u) w'"
  unfolding on_scope_def version_finish_def by (blast dest: and_then_InrD audited_success)

lemma execute_audited:
  "facade_execute cfg parts ctx r kind req ex w = (Inr x, w') \<Longrightarrow>
   audited_as cfg ctx ''execute'' ''tool or skill'' w'"
  unfolding facade_execute_def Let_def
  by (auto dest!: and_then_InrD audited_success simp: give_def split: if_splits)

lemma federate_audited:
  "facade_federate cfg parts ctx m r req w = (Inr x, w') \<Longrightarrow>
   audited_as cfg ctx ''federation.execute'' ''tenant-bound federation'' w'"
  unfolding facade_federate_def Let_def
  by (auto dest!: and_then_InrD audited_success simp: give_def split: if_splits)

text \<open>C20: no unaudited success: content that a read returns, a response of an executor or of a
  federation gateway and every result of a version operation on a scope come with an audit
  event of that request as the newest event of the sink.\<close>

theorem success_is_audited:
  "(facade_read cfg parts ctx m r1 r2 u l w = (Inr x1, w') \<longrightarrow>
      audited_as cfg ctx ''content.read'' (u_canonical u) w') \<and>
   (facade_execute cfg parts ctx r1 kind req ex w = (Inr x2, w') \<longrightarrow>
      audited_as cfg ctx ''execute'' ''tool or skill'' w') \<and>
   (facade_federate cfg parts ctx m r1 req w = (Inr x3, w') \<longrightarrow>
      audited_as cfg ctx ''federation.execute'' ''tenant-bound federation'' w') \<and>
   (on_scope cfg ctx m r1 operation u f w = (Inr x4, w') \<longrightarrow>
      audited_as cfg ctx operation (u_canonical u) w')"
  by (intro conjI impI) (erule read_audited execute_audited federate_audited on_scope_audited)+

theorem success_is_audited_witness:
  "let s = snd (write_entry 5 (note_entry [''a'', ''x''] ''hello'') cstore_new);
       (r, w') = facade_read default_facade_config demo_parts (demo_ctx ''a'') (ru_at demo_run) demo_run demo_run
         (note_uri [''a'', ''x'']) L2 (demo_world s)
   in r = Inr (Text ''hello'' ''hello'' ''hello'') \<and>
      audited_as default_facade_config (demo_ctx ''a'') ''content.read'' ''uwu://a/x'' w'"
proof -
  let ?s = "snd (write_entry 5 (note_entry [''a'', ''x''] ''hello'') cstore_new)"
  let ?u = "note_uri [''a'', ''x'']"
  obtain r w' where act: "facade_read default_facade_config demo_parts (demo_ctx ''a'') (ru_at demo_run)
      demo_run demo_run ?u L2 (demo_world ?s) = (r, w')" by fastforce
  have rd: "read_entry ?u L2 ?s = Inr (Text ''hello'' ''hello'' ''hello'')" by code_simp
  have tenant: "u_tenant ?u = ''a''" by (simp add: note_uri_def)
  have "fst (facade_read default_facade_config demo_parts (demo_ctx ''a'') (ru_at demo_run)
      demo_run demo_run ?u L2 (demo_world ?s)) = Inr (Text ''hello'' ''hello'' ''hello'')"
    by (simp add: facade_read_def and_then_def validate_uri_def give_def remaining_def demo_ctx_def
        demo_run_def timed_def admit_def demo_world_def assemble_def raced_def polled_def release_def audited_def audit_def
        record_event_def demo_parts_def Let_def is_ok_def content_call_def reading_def rd tenant)
  then have "r = Inr (Text ''hello'' ''hello'' ''hello'')" using act by simp
  moreover from this have "audited_as default_facade_config (demo_ctx ''a'') ''content.read'' (u_canonical ?u) w'"
    by (intro conjunct1 [OF success_is_audited, THEN mp]) (use act in simp)
  ultimately show ?thesis using act by (simp add: note_uri_def SCHEME_def)
qed

section \<open>Gated execution\<close>

lemma give_then: "and_then (give (Inr x)) f = f x" "and_then (give (Inl e)) f = give (Inl e)"
  by (simp_all add: fun_eq_iff and_then_def give_def)

text \<open>Only the audit trail may change.\<close>

definition only_audited :: "world \<Rightarrow> world \<Rightarrow> bool" where
  "only_audited w w' \<longleftrightarrow> (\<exists>a rs. w' = w\<lparr>w_audit := a, w_reactions := rs\<rparr>)"

lemma audit_only: "only_audited w (snd (audit cfg ctx operation ok detail w))"
  by (cases w) (auto simp: only_audited_def audit_def Let_def split: prod.split sum.split)

lemma only_audited_refl: "only_audited w w"
  by (cases w) (auto simp: only_audited_def)

lemma denied_preflight:
  assumes "hard_denied g req" "pa_gate parts = rule_gate_port g"
  shows "\<exists>d. gate_check parts ex req = Inr d \<and> \<not> pd_allowed d"
  using rules.forbidden_decision [OF assms(1), of ex] assms(2)
  by (auto simp: gate_check_def rule_gate_port_def)

text \<open>C21: behind a rule gate with a hard denial that matches the request, no executor, language model
  or federation gateway is called: the operation fails, and of the world only the audit trail
  may differ.\<close>

theorem denied_never_executes:
  assumes "hard_denied g req" "pa_gate parts = rule_gate_port g"
  shows "(let (r, w') = facade_execute cfg parts ctx r1 kind req executor w
      in \<not> is_ok r \<and> only_audited w w') \<and>
    (let (r, w') = facade_federate cfg parts ctx m r1 req w in \<not> is_ok r \<and> only_audited w w') \<and>
    (req = request_new ''llm.embed'' txt \<longrightarrow>
      (let (r, w') = facade_llm_embed cfg parts ctx m r1 txt w in \<not> is_ok r \<and> only_audited w w'))"
proof -
  have denied: "\<exists>d. gate_check parts ex req = Inr d \<and> \<not> pd_allowed d" for ex
    by (rule denied_preflight [OF assms])
  have audit: "let (r, w') = and_then (audit cfg ctx operation False detail) (\<lambda>_. give (Inl e)) w
      in \<not> is_ok r \<and> only_audited w w'" for operation detail e
    using audit_only [of w cfg ctx operation False detail]
    by (auto simp: and_then_def give_def is_ok_def split: prod.split sum.split)
  show ?thesis
  proof (intro conjI impI)
    obtain d where "gate_check parts (execution ctx kind) req = Inr d" "\<not> pd_allowed d" using denied by blast
    then show "let (r, w') = facade_execute cfg parts ctx r1 kind req executor w
      in \<not> is_ok r \<and> only_audited w w'"
      using audit by (simp add: facade_execute_def give_then Let_def)
  next
    obtain d where "gate_check parts (execution ctx (KindTool ''federation'')) req = Inr d" "\<not> pd_allowed d"
      using denied by blast
    then show "let (r, w') = facade_federate cfg parts ctx m r1 req w in \<not> is_ok r \<and> only_audited w w'"
      by (cases "remaining ctx m"; cases "configured ''federation'' (pa_federation parts)")
        (simp_all add: facade_federate_def give_then is_ok_def only_audited_refl Let_def give_def)
  next
    assume req: "req = request_new ''llm.embed'' txt"
    obtain d where "gate_check parts (execution ctx (KindTool ''llm.embed'')) req = Inr d" "\<not> pd_allowed d"
      using denied by blast
    then show "let (r, w') = facade_llm_embed cfg parts ctx m r1 txt w in \<not> is_ok r \<and> only_audited w w'"
      using audit only_audited_refl [of w]
      by (cases "remaining ctx m")
        (simp_all add: facade_llm_embed_def llm_guarded_def give_then req is_ok_def Let_def give_def)
  qed
qed

theorem denied_never_executes_witness:
  "let (r, w') = facade_execute default_facade_config demo_parts (demo_ctx ''a'') demo_run (KindTool ''t'')
      (request_new ''run'' ''x'') (Some (\<lambda>_ _ w. (Some (Inr (response_new ''done'')), w\<lparr>w_content := cstore_new\<rparr>)))
      (demo_world (snd (write_entry 5 (note_entry [''b'', ''x''] ''hello'') cstore_new)))
   in \<not> is_ok r \<and> w_content w' = snd (write_entry 5 (note_entry [''b'', ''x''] ''hello'') cstore_new)"
proof -
  have "hard_denied demo_rules (request_new ''run'' ''x'')"
    by (simp add: hard_denied_def demo_rules_def demo_rule_def rule_matches_def)
  moreover have "pa_gate demo_parts = rule_gate_port demo_rules" by (simp add: demo_parts_def)
  ultimately have "let (r, w') = facade_execute default_facade_config demo_parts (demo_ctx ''a'') demo_run (KindTool ''t'')
      (request_new ''run'' ''x'') (Some (\<lambda>_ _ w. (Some (Inr (response_new ''done'')), w\<lparr>w_content := cstore_new\<rparr>)))
      (demo_world (snd (write_entry 5 (note_entry [''b'', ''x''] ''hello'') cstore_new)))
    in \<not> is_ok r \<and> only_audited (demo_world (snd (write_entry 5 (note_entry [''b'', ''x''] ''hello'') cstore_new))) w'"
    by (rule denied_never_executes [THEN conjunct1])
  then show ?thesis by (auto simp: only_audited_def demo_world_def assemble_def)
qed

section \<open>Shutdown\<close>

text \<open>A shutdown that succeeded stays so and closes nothing again; one that failed names the first
  guard that failed, remembers its error, and the next attempt starts over with the first guard.\<close>

theorem shutdown_resumes:
  "let (r, w1) = shutdown_drained guards w
   in (r = Inr () \<longrightarrow> shutdown_drained guards w1 = (Inr (), w1)) \<and>
      (\<forall>e. r = Inl e \<longrightarrow>
        (\<exists>done g rest c w0. guards = done @ g # rest \<and> fst (close_guards done w) = Inr () \<and>
           fst (g w0) = Inl c \<and> e = FacadeContext c \<and>
           w_shutdown_result w1 = Some (Inl (context_error_display c)) \<and>
           shutdown_drained guards w1 = close_guards guards w1))"
proof -
  have ok: "fst (close_guards gs w) = Inr () \<Longrightarrow>
      w_shutdown_result (snd (close_guards gs w)) = Some (Inr ())" for gs and w :: world
    by (induction gs arbitrary: w) (auto split: prod.split sum.split)
  have failed: "\<exists>done g rest c w0. gs = done @ g # rest \<and> fst (close_guards done w) = Inr () \<and>
      fst (g w0) = Inl c \<and> e = FacadeContext c \<and>
      w_shutdown_result (snd (close_guards gs w)) = Some (Inl (context_error_display c))"
    if "fst (close_guards gs w) = Inl e" for gs e and w :: world
    using that
  proof (induction gs arbitrary: w)
    case (Cons g gs)
    obtain x w1 where g: "g w = (x, w1)" by fastforce
    show ?case
    proof (cases x)
      case (Inl c)
      then show ?thesis using Cons.prems g
        by (intro exI [of _ "[]"] exI [of _ g] exI [of _ gs] exI [of _ c] exI [of _ w]) simp
    next
      case (Inr u)
      then obtain "done" g' rest c w0 where IH: "gs = done @ g' # rest" "fst (close_guards done w1) = Inr ()"
        "fst (g' w0) = Inl c" "e = FacadeContext c"
        "w_shutdown_result (snd (close_guards gs w1)) = Some (Inl (context_error_display c))"
        using Cons.IH [of w1] Cons.prems g by auto
      show ?thesis using g Inr IH
        by (intro exI [of _ "g # done"] exI [of _ g'] exI [of _ rest] exI [of _ c] exI [of _ w0]) simp
    qed
  qed simp
  obtain r w1 where s: "shutdown_drained guards w = (r, w1)" by fastforce
  have "shutdown_drained guards w1 = (Inr (), w1)" if "r = Inr ()"
    using s that ok [of guards w] by (auto simp: shutdown_drained_def split: if_splits)
  moreover have "\<exists>done g rest c w0. guards = done @ g # rest \<and> fst (close_guards done w) = Inr () \<and>
      fst (g w0) = Inl c \<and> e = FacadeContext c \<and>
      w_shutdown_result w1 = Some (Inl (context_error_display c)) \<and>
      shutdown_drained guards w1 = close_guards guards w1" if "r = Inl e" for e
    using s that failed [of guards w e]
    by (auto simp: shutdown_drained_def split: if_splits)
  ultimately show ?thesis using s by simp
qed

theorem shutdown_resumes_witness:
  "let guards = [\<lambda>w. (Inr (), w), \<lambda>w. (Inl (Storage ''busy''), w)];
       (r, w1) = shutdown_drained guards (demo_world cstore_new)
   in r = Inl (FacadeContext (Storage ''busy'')) \<and> shutdown_drained guards w1 = close_guards guards w1"
proof -
  let ?g = "[\<lambda>w. (Inr (), w), \<lambda>w. (Inl (Storage ''busy''), w)]"
  obtain r w1 where s: "shutdown_drained ?g (demo_world cstore_new) = (r, w1)" by fastforce
  then have r: "r = Inl (FacadeContext (Storage ''busy''))"
    by (auto simp: shutdown_drained_def demo_world_def assemble_def)
  have "shutdown_drained ?g w1 = close_guards ?g w1"
    using shutdown_resumes [of ?g "demo_world cstore_new"] s r by auto
  then show ?thesis using s r by simp
qed

end
