(* ===== verification/Facade_Refinement.thy ===== *)
theory Facade_Refinement
  imports Facade_Outcomes
begin

text \<open>
  The version API of the facade refines the version store: a run of guarded operations is, on the
  store, the run of exactly those that reach it, in their order; and what a guarded operation returns
  is what the store's operation gives, once it is audited. What the store keeps, its integrity and the
  immutability of what is committed, therefore holds behind the facade.
\<close>

section \<open>One guarded operation\<close>

text \<open>When a guarded operation reaches the store: the scope is the tenant's own, both deadline checks pass,
  the facade accepts calls, the token is not cancelled at the first poll, and the store's future gets to
  its effect.\<close>

definition in_time :: "request_context \<Rightarrow> moment \<Rightarrow> bool" where
  "in_time ctx m \<longleftrightarrow> \<not> mo_cancelled m \<and> mo_now m < rc_deadline ctx"

definition reaches_store :: "bool \<Rightarrow> request_context \<Rightarrow> moment \<Rightarrow> run \<Rightarrow> context_uri \<Rightarrow> bool" where
  "reaches_store accepting ctx m r u \<longleftrightarrow> u_tenant u = rc_tenant_name ctx \<and> in_time ctx m \<and> accepting
     \<and> in_time ctx (ru_at r) \<and> \<not> ru_cancel_first r \<and> ru_progress r \<noteq> Stalls 0"

text \<open>The result before it is audited: the store's, when its future completes.\<close>

definition guarded_result :: "facade_config \<Rightarrow> request_context \<Rightarrow> run \<Rightarrow> version_error + 'a \<Rightarrow> facade_error + 'a" where
  "guarded_result cfg ctx r y =
     (if ru_progress r = Completes then map_sum FacadeVersion id y
      else if ru_cancel_late r then Inl Cancelled
      else Inl (FacadeTimeout (min (rc_deadline ctx - mo_now (ru_at r)) (default_timeout cfg))))"

definition scope_event :: "facade_config \<Rightarrow> request_context \<Rightarrow> string \<Rightarrow> context_uri \<Rightarrow> bool \<Rightarrow> audit_event" where
  "scope_event cfg ctx operation u ok =
     \<lparr>ae_tenant = rc_tenant_name ctx, ae_actor = rc_actor ctx, ae_request_id = rc_request_id ctx,
      ae_operation = operation, ae_allowed = ok,
      ae_detail = truncate_detail (max_audit_detail_bytes cfg) (u_canonical u)\<rparr>"

lemma remaining_in_time:
  "in_time ctx m \<Longrightarrow> remaining ctx m = Inr (rc_deadline ctx - mo_now m)"
  "\<not> in_time ctx m \<Longrightarrow> \<exists>e. remaining ctx m = Inl e"
  by (auto simp: in_time_def remaining_def)

text \<open>What the audit of a result does.\<close>

lemma audited_outcome:
  assumes "act w = (y, w1)" "audited cfg ctx operation (u_canonical u) act w = (x, w')"
  shows "w_versions w' = w_versions w1 \<and> w_accepting w' = w_accepting w1
    \<and> (if as_poisoned (w_audit w1) then x = Inl (FacadeAudit ''audit buffer lock poisoned'')
       else x = y \<and> as_events (w_audit w') \<noteq> []
         \<and> last (as_events (w_audit w')) = scope_event cfg ctx operation u (is_ok x))"
  using assms
  by (auto simp: audited_def and_then_def give_def audit_def record_event_def scope_event_def Let_def
      split: if_splits)

lemma timed_version:
  assumes "w_accepting w" "in_time ctx (ru_at r)" "\<not> ru_cancel_first r" "ru_progress r \<noteq> Stalls 0"
    and "timed cfg ctx r (version_call f) w = (x, w')"
  shows "x = guarded_result cfg ctx r (fst (f (w_versions w))) \<and> w_versions w' = snd (f (w_versions w))
    \<and> w_accepting w' = w_accepting w \<and> w_audit w' = w_audit w"
  using assms
  by (cases "ru_progress r")
    (auto simp: timed_def and_then_def admit_def raced_def polled_def remaining_in_time version_call_def release_def
      guarded_result_def Let_def case_prod_beta)

lemma timed_stopped:
  assumes "\<not> (w_accepting w \<and> in_time ctx (ru_at r) \<and> \<not> ru_cancel_first r \<and> ru_progress r \<noteq> Stalls 0)"
    and "timed cfg ctx r (version_call f) w = (x, w')"
  shows "\<not> is_ok x \<and> w_versions w' = w_versions w \<and> w_accepting w' = w_accepting w"
proof (cases "in_time ctx (ru_at r)")
  case True
  then show ?thesis using assms
    by (cases "ru_progress r") (auto simp: timed_def and_then_def admit_def raced_def polled_def release_def
        is_ok_def remaining_in_time(1) Let_def split: if_splits)
next
  case False
  then obtain e where "remaining ctx (ru_at r) = Inl e" using remaining_in_time(2) by blast
  then show ?thesis using assms(2)
    by (auto simp: timed_def and_then_def admit_def raced_def release_def is_ok_def split: if_splits)
qed

lemma on_scope_checked:
  assumes "u_tenant u = rc_tenant_name ctx" "in_time ctx m"
  shows "on_scope cfg ctx m r operation u f w =
    audited cfg ctx operation (u_canonical u) (timed cfg ctx r (version_call f)) w"
  using assms by (simp add: on_scope_def version_finish_def and_then_def validate_uri_def give_def remaining_in_time)

lemma on_scope_reaches:
  assumes "reaches_store (w_accepting w) ctx m r u" "on_scope cfg ctx m r operation u f w = (x, w')"
  shows "w_versions w' = snd (f (w_versions w)) \<and> w_accepting w' = w_accepting w
    \<and> (if as_poisoned (w_audit w) then x = Inl (FacadeAudit ''audit buffer lock poisoned'')
       else x = guarded_result cfg ctx r (fst (f (w_versions w))) \<and> as_events (w_audit w') \<noteq> []
         \<and> last (as_events (w_audit w')) = scope_event cfg ctx operation u (is_ok x))"
proof -
  note r = assms(1) [unfolded reaches_store_def]
  obtain y w1 where t: "timed cfg ctx r (version_call f) w = (y, w1)" by fastforce
  have "audited cfg ctx operation (u_canonical u) (timed cfg ctx r (version_call f)) w = (x, w')"
    using assms(2) r by (simp add: on_scope_checked)
  from audited_outcome [where act = "timed cfg ctx r (version_call f)", OF t this] timed_version [OF _ _ _ _ t] r show ?thesis by (auto split: if_splits)
qed

lemma on_scope_stopped:
  assumes "\<not> reaches_store (w_accepting w) ctx m r u" "on_scope cfg ctx m r operation u f w = (x, w')"
  shows "\<not> is_ok x \<and> w_versions w' = w_versions w \<and> w_accepting w' = w_accepting w"
proof (cases "u_tenant u = rc_tenant_name ctx \<and> in_time ctx m")
  case True
  obtain y w1 where t: "timed cfg ctx r (version_call f) w = (y, w1)" by fastforce
  have "\<not> is_ok y \<and> w_versions w1 = w_versions w \<and> w_accepting w1 = w_accepting w"
    using timed_stopped [OF _ t] assms(1) True by (auto simp: reaches_store_def)
  moreover have "audited cfg ctx operation (u_canonical u) (timed cfg ctx r (version_call f)) w = (x, w')"
    using assms(2) True by (simp add: on_scope_checked)
  note audited_outcome [where act = "timed cfg ctx r (version_call f)", OF t this]
  ultimately show ?thesis by (auto simp: is_ok_def split: if_splits)
next
  case False
  then show ?thesis
    using assms(2) remaining_in_time(2) [of ctx m]
    by (auto simp: on_scope_def and_then_def validate_uri_def give_def is_ok_def split: sum.splits if_splits)
qed

section \<open>Runs\<close>

text \<open>The operations of the store that the facade exposes; the two test helpers are not among them.\<close>

fun version_step ::
    "facade_config \<Rightarrow> 'v parts \<Rightarrow> request_context \<times> moment \<times> run \<times> vop \<Rightarrow> world \<Rightarrow> world" where
  "version_step cfg parts (ctx, m, r, OpCommit f now sc ch meta) w =
     snd (v_commit cfg parts ctx m r f now sc ch meta w)"
| "version_step cfg parts (ctx, m, r, OpCreateBranch now sc n c bt) w =
     snd (v_create_branch cfg parts ctx m r now sc n c bt w)"
| "version_step cfg parts (ctx, m, r, OpDeleteBranch sc n) w =
     snd (v_delete_branch cfg parts ctx m r sc n w)"
| "version_step cfg parts (ctx, m, r, OpCreateTag sc t) w = snd (v_create_tag cfg parts ctx m r sc t w)"
| "version_step cfg parts (ctx, m, r, OpSwitchHead sc n) w = snd (v_switch_head cfg parts ctx m r sc n w)"
| "version_step cfg parts (ctx, m, r, OpMerge f now sc a b st) w =
     snd (v_merge cfg parts ctx m r f now sc a b st w)"
| "version_step cfg parts (ctx, m, r, OpCherryPick f now sc c n st) w =
     snd (v_cherry_pick cfg parts ctx m r f now sc c n st w)"
| "version_step cfg parts (ctx, m, r, OpRebase f now sc a b st) w =
     snd (v_rebase cfg parts ctx m r f now sc a b st w)"
| "version_step cfg parts (ctx, m, r, OpSquash f now sc ids msg) w =
     snd (v_squash cfg parts ctx m r f now sc ids msg w)"
| "version_step cfg parts (ctx, m, r, OpGc f sc p) w = snd (v_gc cfg parts ctx m r f sc p w)"
| "version_step cfg parts (ctx, m, r, _) w = w"

text \<open>The scope of an exposed operation.\<close>

fun vop_scope :: "vop \<Rightarrow> context_uri option" where
  "vop_scope (OpCommit _ _ sc _ _) = Some sc"
| "vop_scope (OpCreateBranch _ sc _ _ _) = Some sc"
| "vop_scope (OpDeleteBranch sc _) = Some sc"
| "vop_scope (OpCreateTag sc _) = Some sc"
| "vop_scope (OpSwitchHead sc _) = Some sc"
| "vop_scope (OpMerge _ _ sc _ _ _) = Some sc"
| "vop_scope (OpCherryPick _ _ sc _ _ _) = Some sc"
| "vop_scope (OpRebase _ _ sc _ _ _) = Some sc"
| "vop_scope (OpSquash _ _ sc _ _) = Some sc"
| "vop_scope (OpGc _ sc _) = Some sc"
| "vop_scope _ = None"

fun call_reaches :: "bool \<Rightarrow> request_context \<times> moment \<times> run \<times> vop \<Rightarrow> bool" where
  "call_reaches accepting (ctx, m, r, x) =
     (case vop_scope x of Some u \<Rightarrow> reaches_store accepting ctx m r u | None \<Rightarrow> False)"

lemma on_scope_store:
  "w_versions (snd (on_scope cfg ctx m r operation u f w)) =
     (if reaches_store (w_accepting w) ctx m r u then snd (f (w_versions w)) else w_versions w)
   \<and> w_accepting (snd (on_scope cfg ctx m r operation u f w)) = w_accepting w"
proof (cases "on_scope cfg ctx m r operation u f w")
  case (Pair x w')
  then show ?thesis
    using on_scope_reaches [OF _ Pair] on_scope_stopped [OF _ Pair]
    by (cases "reaches_store (w_accepting w) ctx m r u") simp_all
qed

lemma version_step_refines:
  "w_versions (version_step cfg parts c w) =
     (if call_reaches (w_accepting w) c then vstep (pa_versions parts) (snd (snd (snd c))) (w_versions w)
      else w_versions w)
   \<and> w_accepting (version_step cfg parts c w) = w_accepting w"
proof -
  obtain ctx m r x where "c = (ctx, m, r, x)" by (cases c)
  then show ?thesis
    by (cases x) (simp_all add: on_scope_store v_commit_def v_create_branch_def v_delete_branch_def v_create_tag_def
        v_switch_head_def v_merge_def v_cherry_pick_def v_rebase_def v_squash_def v_gc_def)
qed

lemma version_run_refines:
  "w_versions (fold (version_step cfg parts) xs w) =
     fold (vstep (pa_versions parts)) (map (\<lambda>(_, _, _, x). x) (filter (call_reaches (w_accepting w)) xs))
       (w_versions w)"
proof (induction xs arbitrary: w)
  case (Cons c xs)
  then show ?case using version_step_refines [of cfg parts c w] by (cases c) simp
qed simp

text \<open>C22: the version API of the facade is the version store behind a guard. A run of guarded operations
  has on the store exactly the effect of the operations that reach it, in their order: those on a scope
  of the tenant's own whose two deadline checks pass, while the facade accepts calls, not cancelled at
  the first poll, and whose future gets to its effect. A single guarded operation that reaches the
  store gives the store's result when its future completes, a cancellation or a timeout otherwise, with an
  audit event that says which as the newest one, or the sink's error when the sink refuses; one that
  does not reach the store fails and leaves it.\<close>

theorem facade_versions_refine:
  "w_versions (fold (version_step cfg parts) xs w) =
     fold (vstep (pa_versions parts)) (map (\<lambda>(_, _, _, x). x) (filter (call_reaches (w_accepting w)) xs))
       (w_versions w)
   \<and> (let (x, w') = on_scope cfg ctx m r operation u f w; (y, s) = f (w_versions w)
      in if reaches_store (w_accepting w) ctx m r u
         then w_versions w' = s
           \<and> (if as_poisoned (w_audit w) then x = Inl (FacadeAudit ''audit buffer lock poisoned'')
              else x = guarded_result cfg ctx r y \<and> as_events (w_audit w') \<noteq> []
                \<and> last (as_events (w_audit w')) = scope_event cfg ctx operation u (is_ok x))
         else \<not> is_ok x \<and> w_versions w' = w_versions w)"
proof (intro conjI version_run_refines)
  obtain x w' where call: "on_scope cfg ctx m r operation u f w = (x, w')" by fastforce
  show "let (x, w') = on_scope cfg ctx m r operation u f w; (y, s) = f (w_versions w)
      in if reaches_store (w_accepting w) ctx m r u
         then w_versions w' = s
           \<and> (if as_poisoned (w_audit w) then x = Inl (FacadeAudit ''audit buffer lock poisoned'')
              else x = guarded_result cfg ctx r y \<and> as_events (w_audit w') \<noteq> []
                \<and> last (as_events (w_audit w')) = scope_event cfg ctx operation u (is_ok x))
         else \<not> is_ok x \<and> w_versions w' = w_versions w"
    using on_scope_reaches [OF _ call] on_scope_stopped [OF _ call] by (simp add: call case_prod_beta)
qed

end
