(* ===== verification/Facade_Admission.thy ===== *)
theory Facade_Admission
  imports Prelude
begin

text \<open>
  Admission and shutdown of the facade as interleaved steps, src/src/facade.rs: \<open>admit\<close>, the drop of
  \<open>InFlightGuard\<close>, \<open>shutdown\<close>. Any number of callers share the flag \<open>accepting\<close> and the counter
  \<open>in_flight\<close> with one shutdown; each load, store, \<open>fetch_add\<close>, \<open>fetch_sub\<close> and notification is a
  step of its own. The memory is that of the orderings in the code, release and acquire: a load may
  give an old value that its thread has not seen overwritten; \<open>fetch_add\<close> and \<open>fetch_sub\<close> (\<open>AcqRel\<close>)
  change the newest value, take over what its writer had seen and pass it on; so does a wake-up. A
  notification wakes only a shutdown that already waits (\<open>Notify::notify_waiters\<close>).
\<close>

section \<open>Steps\<close>

text \<open>Where a caller is: before \<open>admit\<close>; after the first load; after \<open>fetch_add\<close>; refused by the second
  load; holding the guard; dropping it; about to notify.\<close>

datatype caller = Outside | Passed | Counted | Refused | Admitted | Dropping | Notifying

text \<open>Where the shutdown is: not called; at the loop's test; after a test that saw calls in flight;
  waiting for a notification; past the loop.\<close>

datatype closer = NotCalled | Testing | SawCalls | Waiting | Drained

text \<open>\<open>gs_closed\<close>: the store of \<open>false\<close> to \<open>accepting\<close> has been made. \<open>gs_counts\<close>: the values of \<open>in_flight\<close>,
  oldest first, each with whether its writer had seen that store. \<open>gs_saw\<close>: the caller has seen it.
  \<open>gs_at\<close>: the place of the caller's last change of the counter. \<open>gs_seen\<close>: the oldest value that the
  shutdown may still read.\<close>

record gate_state =
  gs_closed :: bool
  gs_counts :: "(nat \<times> bool) list"
  gs_callers :: "nat \<Rightarrow> caller"
  gs_saw :: "nat \<Rightarrow> bool"
  gs_at :: "nat \<Rightarrow> nat"
  gs_closer :: closer
  gs_seen :: nat

definition gate_init :: gate_state where
  "gate_init = \<lparr>gs_closed = False, gs_counts = [(0, False)], gs_callers = (\<lambda>_. Outside),
     gs_saw = (\<lambda>_. False), gs_at = (\<lambda>_. 0), gs_closer = NotCalled, gs_seen = 0\<rparr>"

definition in_flight :: "gate_state \<Rightarrow> nat" where
  "in_flight s = fst (last (gs_counts s))"

definition at_caller :: "nat \<Rightarrow> caller \<Rightarrow> gate_state \<Rightarrow> gate_state" where
  "at_caller i c s = s\<lparr>gs_callers := (gs_callers s)(i := c)\<rparr>"

text \<open>The caller has read \<open>false\<close> from \<open>accepting\<close>.\<close>

definition sees_closed :: "nat \<Rightarrow> gate_state \<Rightarrow> gate_state" where
  "sees_closed i s = s\<lparr>gs_saw := (gs_saw s)(i := True)\<rparr>"

text \<open>A change of the counter with \<open>Ordering::AcqRel\<close>.\<close>

definition change_count :: "nat \<Rightarrow> (nat \<Rightarrow> nat) \<Rightarrow> gate_state \<Rightarrow> gate_state" where
  "change_count i f s =
     (let saw = gs_saw s i \<or> snd (last (gs_counts s))
      in s\<lparr>gs_counts := gs_counts s @ [(f (in_flight s), saw)], gs_saw := (gs_saw s)(i := saw),
           gs_at := (gs_at s)(i := length (gs_counts s))\<rparr>)"

text \<open>\<open>fetch_sub\<close>: the caller that takes the counter from one to zero notifies.\<close>

definition leave :: "nat \<Rightarrow> gate_state \<Rightarrow> gate_state" where
  "leave i s = at_caller i (if in_flight s = 1 then Notifying else Outside) (change_count i (\<lambda>n. n - 1) s)"

definition notify_waiters :: "nat \<Rightarrow> gate_state \<Rightarrow> gate_state" where
  "notify_waiters i s =
     (if gs_closer s = Waiting then s\<lparr>gs_closer := Testing, gs_seen := max (gs_seen s) (gs_at s i)\<rparr> else s)"

inductive gate_step :: "gate_state \<Rightarrow> gate_state \<Rightarrow> bool" where
  admit_load: "gs_callers s i = Outside \<Longrightarrow> \<not> gs_saw s i \<Longrightarrow> gate_step s (at_caller i Passed s)"
| admit_closed: "gs_callers s i = Outside \<Longrightarrow> gs_closed s \<Longrightarrow> gate_step s (sees_closed i s)"
| admit_add: "gs_callers s i = Passed \<Longrightarrow> gate_step s (at_caller i Counted (change_count i Suc s))"
| admit_reload: "gs_callers s i = Counted \<Longrightarrow> \<not> gs_saw s i \<Longrightarrow> gate_step s (at_caller i Admitted s)"
| admit_refused: "gs_callers s i = Counted \<Longrightarrow> gs_closed s
    \<Longrightarrow> gate_step s (at_caller i Refused (sees_closed i s))"
| refused_sub: "gs_callers s i = Refused \<Longrightarrow> gate_step s (leave i s)"
| call_ends: "gs_callers s i = Admitted \<Longrightarrow> gate_step s (at_caller i Dropping s)"
| drop_sub: "gs_callers s i = Dropping \<Longrightarrow> gate_step s (leave i s)"
| notify: "gs_callers s i = Notifying \<Longrightarrow> gate_step s (at_caller i Outside (notify_waiters i s))"
| close: "gs_closer s = NotCalled \<Longrightarrow> gate_step s (s\<lparr>gs_closed := True, gs_closer := Testing\<rparr>)"
| test: "gs_closer s = Testing \<Longrightarrow> gs_seen s \<le> k \<Longrightarrow> k < length (gs_counts s)
    \<Longrightarrow> gate_step s (s\<lparr>gs_seen := k, gs_closer := (if fst (gs_counts s ! k) = 0 then Drained else SawCalls)\<rparr>)"
| wait: "gs_closer s = SawCalls \<Longrightarrow> gate_step s (s\<lparr>gs_closer := Waiting\<rparr>)"

inductive gate_reach :: "gate_state \<Rightarrow> gate_state \<Rightarrow> bool" for s where
  reach_refl: "gate_reach s s"
| reach_step: "gate_reach s t \<Longrightarrow> gate_step t u \<Longrightarrow> gate_reach s u"

inductive_cases gate_stepE: "gate_step s t"

lemma gate_reach_first: "gate_step s t \<Longrightarrow> gate_reach t u \<Longrightarrow> gate_reach s u"
  by (rotate_tac, induction rule: gate_reach.induct) (auto intro: gate_reach.intros)

section \<open>The invariant\<close>

text \<open>The callers the counter counts.\<close>

definition counted :: "caller \<Rightarrow> bool" where
  "counted c = (c \<in> {Counted, Refused, Admitted, Dropping})"

definition counted_callers :: "gate_state \<Rightarrow> nat set" where
  "counted_callers s = {i. counted (gs_callers s i)}"

text \<open>Those whose last change of the counter is not after place \<open>k\<close>.\<close>

definition entered_by :: "nat \<Rightarrow> gate_state \<Rightarrow> nat set" where
  "entered_by k s = {i \<in> counted_callers s. gs_at s i \<le> k}"

text \<open>Each value counts at least the callers that entered by then and are still counted; the newest is exact.\<close>

definition counts_ok :: "gate_state \<Rightarrow> bool" where
  "counts_ok s \<longleftrightarrow> gs_counts s \<noteq> [] \<and> finite (counted_callers s) \<and> in_flight s = card (counted_callers s)
     \<and> (\<forall>k < length (gs_counts s). card (entered_by k s) \<le> fst (gs_counts s ! k))"

text \<open>What a change of the counter has seen, all later ones have; a caller that runs has not seen the
  closing, nor had the changes up to its own.\<close>

definition views_ok :: "gate_state \<Rightarrow> bool" where
  "views_ok s \<longleftrightarrow> (\<forall>i. counted (gs_callers s i) \<longrightarrow> gs_at s i < length (gs_counts s)
       \<and> (snd (gs_counts s ! gs_at s i) \<longrightarrow> gs_saw s i))
     \<and> (\<forall>i. gs_callers s i = Notifying \<longrightarrow> gs_at s i < length (gs_counts s))
     \<and> (\<forall>k < length (gs_counts s). \<forall>j \<le> k. snd (gs_counts s ! j) \<longrightarrow> snd (gs_counts s ! k))
     \<and> (\<forall>i. gs_callers s i \<in> {Admitted, Dropping} \<longrightarrow> \<not> gs_saw s i)"

definition closer_ok :: "gate_state \<Rightarrow> bool" where
  "closer_ok s \<longleftrightarrow> gs_seen s < length (gs_counts s)
     \<and> (gs_closer s = Drained \<longrightarrow> fst (gs_counts s ! gs_seen s) = 0)"

lemma at_caller_simps [simp]:
  "gs_callers (at_caller i c s) = (gs_callers s)(i := c)" "gs_closed (at_caller i c s) = gs_closed s"
  "gs_counts (at_caller i c s) = gs_counts s" "gs_saw (at_caller i c s) = gs_saw s" "gs_at (at_caller i c s) = gs_at s"
  "gs_closer (at_caller i c s) = gs_closer s" "gs_seen (at_caller i c s) = gs_seen s"
  "in_flight (at_caller i c s) = in_flight s"
  by (simp_all add: at_caller_def in_flight_def)

lemma sees_closed_simps [simp]:
  "gs_callers (sees_closed i s) = gs_callers s" "gs_counts (sees_closed i s) = gs_counts s"
  "gs_saw (sees_closed i s) = (gs_saw s)(i := True)" "gs_at (sees_closed i s) = gs_at s"
  "gs_closer (sees_closed i s) = gs_closer s" "gs_seen (sees_closed i s) = gs_seen s"
  "in_flight (sees_closed i s) = in_flight s"
  by (simp_all add: sees_closed_def in_flight_def)

lemma change_count_simps [simp]:
  "gs_callers (change_count i f s) = gs_callers s" "gs_closer (change_count i f s) = gs_closer s"
  "gs_counts (change_count i f s) = gs_counts s @ [(f (in_flight s), gs_saw s i \<or> snd (last (gs_counts s)))]"
  "gs_saw (change_count i f s) = (gs_saw s)(i := gs_saw s i \<or> snd (last (gs_counts s)))"
  "gs_at (change_count i f s) = (gs_at s)(i := length (gs_counts s))" "gs_seen (change_count i f s) = gs_seen s"
  "in_flight (change_count i f s) = f (in_flight s)"
  by (simp_all add: change_count_def Let_def in_flight_def)

lemma notify_waiters_simps [simp]:
  "gs_callers (notify_waiters i s) = gs_callers s" "gs_counts (notify_waiters i s) = gs_counts s"
  "gs_saw (notify_waiters i s) = gs_saw s" "gs_at (notify_waiters i s) = gs_at s"
  "in_flight (notify_waiters i s) = in_flight s"
  by (simp_all add: notify_waiters_def in_flight_def)

lemma mem_counted: "i \<in> counted_callers s \<longleftrightarrow> counted (gs_callers s i)"
  by (simp add: counted_callers_def)

text \<open>The counter is as it was when neither the callers counted nor its values change.\<close>

lemma counts_same:
  assumes "counts_ok s" "gs_counts t = gs_counts s" "gs_at t = gs_at s"
    and "\<And>i. counted (gs_callers t i) = counted (gs_callers s i)"
  shows "counts_ok t"
  using assms by (simp add: counts_ok_def counted_callers_def entered_by_def in_flight_def)

lemma counts_changed:
  assumes "counts_ok s" "counts' = gs_counts s @ [(n, b)]" "at' = (gs_at s)(i := length (gs_counts s))"
    and "counted_callers t - {i} = counted_callers s - {i}" "gs_counts t = counts'" "gs_at t = at'"
    and "n = card (counted_callers t)"
  shows "counts_ok t"
proof -
  have fin: "finite (counted_callers s)" using assms(1) by (simp add: counts_ok_def)
  then have "finite (counted_callers t - {i})" unfolding assms(4) by simp
  then have fin': "finite (counted_callers t)" by simp
  have "card (entered_by k t) \<le> fst (gs_counts t ! k)" if k: "k < length (gs_counts t)" for k
  proof (cases "k = length (gs_counts s)")
    case True
    have "entered_by k t \<subseteq> counted_callers t" by (auto simp: entered_by_def)
    then show ?thesis using True fin' assms(2,5,7) by (simp add: card_mono)
  next
    case False
    then have old: "k < length (gs_counts s)" using k assms(2,5) by simp
    then have "entered_by k t \<subseteq> entered_by k s" using assms(3,4,6) by (auto simp: entered_by_def split: if_splits)
    moreover have "finite (entered_by k s)" using fin by (simp add: entered_by_def)
    ultimately have "card (entered_by k t) \<le> card (entered_by k s)" by (rule card_mono [rotated])
    then show ?thesis using assms(1,2,5) old by (auto simp: counts_ok_def nth_append intro: order_trans)
  qed
  then show ?thesis using fin' assms(2,5,7) by (simp add: counts_ok_def in_flight_def)
qed

lemma counts_leave:
  assumes "counts_ok s" "counted (gs_callers s i)"
  shows "counts_ok (leave i s)"
proof (rule counts_changed [OF assms(1) refl refl])
  have minus: "counted_callers (leave i s) = counted_callers s - {i}"
    by (auto simp: leave_def counted_callers_def counted_def)
  then show "counted_callers (leave i s) - {i} = counted_callers s - {i}" by simp
  have "i \<in> counted_callers s" using assms(2) by (simp add: mem_counted)
  then show "in_flight s - 1 = card (counted_callers (leave i s))"
    using assms(1) minus by (simp add: counts_ok_def)
qed (simp_all add: leave_def)

lemma gate_step_counts: "gate_step s t \<Longrightarrow> counts_ok s \<Longrightarrow> counts_ok t"
proof (induction rule: gate_step.induct)
  case (admit_add s i)
  let ?t = "at_caller i Counted (change_count i Suc s)"
  have plus: "counted_callers ?t = insert i (counted_callers s)" "i \<notin> counted_callers s"
    using admit_add(1) by (auto simp: counted_callers_def counted_def)
  then have "Suc (in_flight s) = card (counted_callers ?t)" using admit_add(2) by (simp add: counts_ok_def)
  with plus show ?case by (intro counts_changed [OF admit_add(2) refl refl]) auto
next
  case (refused_sub s i)
  then show ?case by (simp add: counts_leave counted_def)
next
  case (drop_sub s i)
  then show ?case by (simp add: counts_leave counted_def)
qed (erule counts_same; simp add: counted_def)+

lemma views_appended:
  assumes "views_ok s" "gs_counts s \<noteq> []"
    and "c \<noteq> Admitted" "c \<noteq> Dropping"
  shows "views_ok (at_caller i c (change_count i f s))"
proof -
  let ?n = "length (gs_counts s)" and ?t = "at_caller i c (change_count i f s)"
  have last: "last (gs_counts s) = gs_counts s ! (?n - 1)" using assms(2) by (simp add: last_conv_nth)
  have "snd (gs_counts ?t ! j) \<longrightarrow> snd (gs_counts ?t ! k)" if "k < length (gs_counts ?t)" "j \<le> k" for j k
  proof (cases "k = ?n")
    case True
    have "j = ?n \<or> j < ?n" using that True by auto
    moreover have "snd (gs_counts s ! j) \<longrightarrow> snd (gs_counts s ! (?n - 1))" if "j < ?n"
    proof -
      have "?n - 1 < ?n" "j \<le> ?n - 1" using that by auto
      then show ?thesis using assms(1) unfolding views_ok_def by blast
    qed
    ultimately show ?thesis using True last by (auto simp: nth_append)
  next
    case False
    then show ?thesis using that assms(1) by (auto simp: views_ok_def nth_append)
  qed
  then show ?thesis
    using assms by (auto simp: views_ok_def nth_append less_Suc_eq)
qed

lemma gate_step_views: "gate_step s t \<Longrightarrow> counts_ok s \<Longrightarrow> views_ok s \<Longrightarrow> views_ok t"
proof (induction rule: gate_step.induct)
  case (admit_add s i)
  then show ?case by (intro views_appended) (simp_all add: counts_ok_def)
next
  case (refused_sub s i)
  then show ?case unfolding leave_def by (intro views_appended) (auto simp: counts_ok_def)
next
  case (drop_sub s i)
  then show ?case unfolding leave_def by (intro views_appended) (auto simp: counts_ok_def)
qed (auto simp: views_ok_def counted_def)

lemma gate_step_closer: "gate_step s t \<Longrightarrow> views_ok s \<Longrightarrow> closer_ok s \<Longrightarrow> closer_ok t"
  by (induction rule: gate_step.induct)
    (auto simp: closer_ok_def nth_append leave_def notify_waiters_def views_ok_def max_def)

definition gate_inv :: "gate_state \<Rightarrow> bool" where
  "gate_inv s \<longleftrightarrow> counts_ok s \<and> views_ok s \<and> closer_ok s"

lemma gate_reach_inv: "gate_reach gate_init s \<Longrightarrow> gate_inv s"
proof (induction rule: gate_reach.induct)
  case reach_refl
  show ?case
    by (simp add: gate_inv_def counts_ok_def views_ok_def closer_ok_def gate_init_def in_flight_def counted_callers_def
        counted_def entered_by_def)
next
  case (reach_step t u)
  then show ?case using gate_step_counts gate_step_views gate_step_closer unfolding gate_inv_def by blast
qed

section \<open>Properties\<close>

text \<open>C23: in every interleaving, and with the memory orderings of the code, the newest value of the counter is
  the number of callers between \<open>fetch_add\<close> and \<open>fetch_sub\<close>. Once the shutdown is past its loop it has
  read a zero, and a call that still runs entered the counter after that zero, without having seen that
  the facade stopped accepting, and so had every change of the counter up to its own: the calls counted
  up to the value that was read have ended, and after one caller that saw the closing has touched the
  counter no later one is admitted. (Calls can run after the shutdown: \<open>late_admission\<close>.)\<close>

theorem drained_is_quiet:
  assumes "gate_reach gate_init s"
  shows "in_flight s = card (counted_callers s) \<and>
    (gs_closer s = Drained \<longrightarrow> fst (gs_counts s ! gs_seen s) = 0 \<and>
      (\<forall>i. gs_callers s i \<in> {Admitted, Dropping} \<longrightarrow>
        gs_seen s < gs_at s i \<and> \<not> gs_saw s i \<and> (\<forall>k \<le> gs_at s i. \<not> snd (gs_counts s ! k))))"
proof (intro conjI impI allI)
  note inv = gate_reach_inv [OF assms]
  then show "in_flight s = card (counted_callers s)" by (simp add: gate_inv_def counts_ok_def)
  assume drained: "gs_closer s = Drained"
  then show zero: "fst (gs_counts s ! gs_seen s) = 0" using inv by (simp add: gate_inv_def closer_ok_def)
  fix i assume running: "gs_callers s i \<in> {Admitted, Dropping}"
  then have i: "i \<in> counted_callers s" by (auto simp: counted_callers_def counted_def)
  have seen: "gs_seen s < length (gs_counts s)" using inv by (simp add: gate_inv_def closer_ok_def)
  have "finite (entered_by (gs_seen s) s)" using inv by (simp add: gate_inv_def counts_ok_def entered_by_def)
  moreover have "card (entered_by (gs_seen s) s) = 0" using inv seen zero by (force simp: gate_inv_def counts_ok_def)
  ultimately have "i \<notin> entered_by (gs_seen s) s" by simp
  then show "gs_seen s < gs_at s i" using i by (auto simp: entered_by_def)
  show saw: "\<not> gs_saw s i" using inv running by (auto simp: gate_inv_def views_ok_def)
  fix k assume "k \<le> gs_at s i"
  then show "\<not> snd (gs_counts s ! k)"
    using inv saw i by (auto simp: gate_inv_def views_ok_def mem_counted)
qed

text \<open>A call passes the first load before the closing and enters the counter; the shutdown closes and reads
  the counter's first value, the zero that the caller's entry has overwritten; the caller's second load
  still gives \<open>true\<close>.\<close>

definition late :: gate_state where
  "late = \<lparr>gs_closed = True, gs_counts = [(0, False), (1, False)], gs_callers = (\<lambda>_. Outside)(0 := Admitted),
     gs_saw = (\<lambda>_. False), gs_at = (\<lambda>_. 0)(0 := 1), gs_closer = Drained, gs_seen = 0\<rparr>"

lemma late_reachable: "gate_reach gate_init late"
proof -
  define g where "g counts c pos closed k =
    \<lparr>gs_closed = closed, gs_counts = counts, gs_callers = (\<lambda>_. Outside)(0 := c), gs_saw = (\<lambda>_. False),
     gs_at = (\<lambda>_. 0)(0 := pos), gs_closer = k, gs_seen = 0\<rparr>" for counts c pos closed k
  let ?z = "[(0, False)]" and ?o = "[(0, False), (1, False)]"
  have g0: "gate_init = g ?z Outside 0 False NotCalled" by (auto simp: g_def gate_init_def)
  have g1: "gate_step (g ?z Outside 0 False NotCalled) (g ?z Passed 0 False NotCalled)"
    using gate_step.admit_load [of "g ?z Outside 0 False NotCalled" 0] by (simp add: g_def at_caller_def)
  have g2: "gate_step (g ?z Passed 0 False NotCalled) (g ?o Counted 1 False NotCalled)"
    using gate_step.admit_add [of "g ?z Passed 0 False NotCalled" 0]
    by (simp add: g_def at_caller_def change_count_def in_flight_def fun_upd_def cong: if_cong)
  have g3: "gate_step (g ?o Counted 1 False NotCalled) (g ?o Counted 1 True Testing)"
    using gate_step.close [of "g ?o Counted 1 False NotCalled"] by (simp add: g_def)
  have g4: "gate_step (g ?o Counted 1 True Testing) (g ?o Counted 1 True Drained)"
    using gate_step.test [of "g ?o Counted 1 True Testing" 0] by (simp add: g_def)
  have g5: "gate_step (g ?o Counted 1 True Drained) (g ?o Admitted 1 True Drained)"
    using gate_step.admit_reload [of "g ?o Counted 1 True Drained" 0] by (simp add: g_def at_caller_def)
  have "late = g ?o Admitted 1 True Drained" by (simp add: g_def late_def)
  then show ?thesis
    unfolding g0
    using gate_reach_first [OF g1 gate_reach_first [OF g2 gate_reach_first [OF g3 gate_reach_first [OF g4
      gate_reach_first [OF g5 reach_refl]]]]] by simp
qed

theorem drained_is_quiet_witness:
  "gs_closer late = Drained \<and> gs_callers late 0 = Admitted \<and> in_flight late = card (counted_callers late)
   \<and> gs_seen late < gs_at late 0"
proof -
  have "gs_closer late = Drained" "gs_callers late 0 = Admitted" by (simp_all add: late_def)
  with drained_is_quiet [OF late_reachable] show ?thesis by simp
qed

text \<open>So the runtimes can be closed while an admitted call runs.\<close>

theorem late_admission:
  "\<exists>s. gate_reach gate_init s \<and> gs_closer s = Drained \<and> gs_callers s 0 = Admitted"
  using late_reachable by (intro exI [of _ late]) (simp add: late_def)

text \<open>The last call leaves between the test of the loop and the wait: its notification is lost, and nothing
  but a new call can move the shutdown again.\<close>

lemma lost_notification:
  assumes "gs_closer s = Waiting" "\<And>i. gs_callers s i = Outside" "gate_step s t"
  shows "gs_closer t = Waiting \<and> gs_counts t = gs_counts s
    \<and> ((\<forall>i. gs_callers t i = Outside) \<or> (\<exists>i. \<not> gs_saw s i \<and> gs_callers t i = Passed))"
  using assms(3,1,2) by (cases rule: gate_step.cases) auto

end
