(* ===== verification/Watch_Stream.thy ===== *)
theory Watch_Stream
  imports Facade
begin

text \<open>
  Change notification, crates/context-db-core/src/watch.rs, and the tenant's view of it in
  src/src/facade.rs: the hub that numbers and retains events, the store decorator that announces
  mutations, the stream that merges retained history with the live channel. The channel itself
  (tokio's broadcast) is not part of the repository: a stream is run on the sequence of what its
  receiver yields, together with the retained history at the moment of a lag. An emission is three
  steps (number, retain, send); emissions of different tasks can overlap (\<open>emit_step\<close>). The store
  behind the decorator is any store (\<open>repo\<close>).
\<close>

section \<open>Events\<close>

datatype change_kind = ChangeWrite | ChangeDelete | ChangeRename

record change_event =
  ce_checkpoint :: u64
  ce_kind :: change_kind
  ce_uri :: context_uri
  ce_to_uri :: "context_uri option"
  ce_version :: "mvcc_version option"
  ce_tenant :: string
  ce_agent :: "string option"
  ce_path :: string
  ce_occurred_at :: datetime

fun agent_segment :: "string list \<Rightarrow> string option" where
  "agent_segment (a # b # rest) = (if a = ''agent'' then Some b else agent_segment (b # rest))"
| "agent_segment _ = None"

definition change_event_new ::
    "u64 \<Rightarrow> change_kind \<Rightarrow> context_uri \<Rightarrow> context_uri option \<Rightarrow> mvcc_version option \<Rightarrow> datetime
     \<Rightarrow> change_event" where
  "change_event_new checkpoint kind uri to_uri version now =
     \<lparr>ce_checkpoint = checkpoint, ce_kind = kind, ce_uri = uri, ce_to_uri = to_uri,
      ce_version = version, ce_tenant = u_tenant uri, ce_agent = agent_segment (u_path uri),
      ce_path = u_canonical uri, ce_occurred_at = now\<rparr>"

record watch_options =
  wo_prefix :: "string option"
  wo_from_checkpoint :: "u64 option"
  wo_include_current :: bool

section \<open>The hub\<close>

text \<open>\<open>wh_sent\<close> is what was sent on the channel, oldest first.\<close>

record watch_hub =
  wh_next :: u64
  wh_history :: "change_event list"
  wh_history_capacity :: nat
  wh_sent :: "change_event list"

definition hub_new :: "nat \<Rightarrow> watch_hub" where
  "hub_new buffer = \<lparr>wh_next = 1, wh_history = [], wh_history_capacity = max buffer 1, wh_sent = []\<rparr>"

text \<open>\<open>while history.len() > capacity { pop_front }\<close>\<close>

definition trim_history :: "nat \<Rightarrow> 'a list \<Rightarrow> 'a list" where
  "trim_history capacity h = drop (length h - capacity) h"

text \<open>The steps of an emission: take a number, retain the event under the lock, send it after the lock is
  released.\<close>

definition take_checkpoint :: "watch_hub \<Rightarrow> u64 \<times> watch_hub" where
  "take_checkpoint hub = (wh_next hub, hub\<lparr>wh_next := wh_next hub + 1\<rparr>)"

definition retain_event :: "change_event \<Rightarrow> watch_hub \<Rightarrow> watch_hub" where
  "retain_event e hub =
     hub\<lparr>wh_history := trim_history (wh_history_capacity hub) (wh_history hub @ [e])\<rparr>"

definition send_event :: "change_event \<Rightarrow> watch_hub \<Rightarrow> watch_hub" where
  "send_event e hub = hub\<lparr>wh_sent := wh_sent hub @ [e]\<rparr>"

text \<open>An emission that no other one overlaps.\<close>

definition emit ::
    "change_kind \<Rightarrow> context_uri \<Rightarrow> context_uri option \<Rightarrow> mvcc_version option \<Rightarrow> datetime \<Rightarrow> watch_hub
     \<Rightarrow> watch_hub" where
  "emit kind uri to_uri version now hub =
     (let (n, hub1) = take_checkpoint hub; e = change_event_new n kind uri to_uri version now
      in send_event e (retain_event e hub1))"

text \<open>Emissions that overlap: each is at its own step.\<close>

datatype emission_stage = Numbered change_event | Retained change_event

type_synonym emitting = "watch_hub \<times> (nat \<Rightarrow> emission_stage option)"

inductive emit_step :: "emitting \<Rightarrow> emitting \<Rightarrow> bool" where
  number_step: "p i = None \<Longrightarrow> take_checkpoint hub = (n, hub1)
    \<Longrightarrow> emit_step (hub, p) (hub1, p(i \<mapsto> Numbered (change_event_new n kind uri to_uri version now)))"
| retain_step: "p i = Some (Numbered e) \<Longrightarrow> emit_step (hub, p) (retain_event e hub, p(i \<mapsto> Retained e))"
| send_step: "p i = Some (Retained e) \<Longrightarrow> emit_step (hub, p) (send_event e hub, p(i := None))"

definition current_checkpoint :: "watch_hub \<Rightarrow> u64" where
  "current_checkpoint hub = (if wh_next hub = 0 then 0 else wh_next hub - 1)"

record watch_stream =
  ws_backlog :: "change_event list"
  ws_last_checkpoint :: u64
  ws_prefix :: "string option"

definition open_watch :: "watch_options \<Rightarrow> watch_hub \<Rightarrow> watch_stream" where
  "open_watch opts hub =
     (let from_cp = (case wo_from_checkpoint opts of Some c \<Rightarrow> c | None \<Rightarrow> 0)
      in \<lparr>ws_backlog = (if wo_include_current opts \<or> wo_from_checkpoint opts \<noteq> None
                        then filter (\<lambda>e. ce_checkpoint e > from_cp) (wh_history hub) else []),
          ws_last_checkpoint = from_cp, ws_prefix = wo_prefix opts\<rparr>)"

section \<open>The stream\<close>

definition event_matches :: "string option \<Rightarrow> change_event \<Rightarrow> bool" where
  "event_matches prefix e =
     (case prefix of
        None \<Rightarrow> True
      | Some p \<Rightarrow> starts_with (u_canonical (ce_uri e)) p
          \<or> (case ce_to_uri e of Some u \<Rightarrow> starts_with (u_canonical u) p | None \<Rightarrow> False))"

text \<open>What the receiver yields; a lag comes with the history retained when it is handled.\<close>

datatype received = Received change_event | Lagged nat "change_event list" | ChannelClosed

definition saturating_succ :: "u64 \<Rightarrow> u64" where
  "saturating_succ n = (if n = - 1 then n else n + 1)"

definition recover_lag :: "nat \<Rightarrow> change_event list \<Rightarrow> watch_stream \<Rightarrow> context_error + watch_stream" where
  "recover_lag skipped history st =
     (let expected = saturating_succ (ws_last_checkpoint st)
      in case history of
           [] \<Rightarrow> Inl (Storage (''watch stream lagged by '' @ show_nat skipped
                         @ '' events and retained history is empty''))
         | front # _ \<Rightarrow>
             (if expected < ce_checkpoint front
              then Inl (Storage (''watch checkpoint '' @ show_nat (unat expected)
                     @ '' is outside retained history starting at ''
                     @ show_nat (unat (ce_checkpoint front))))
              else Inr (st\<lparr>ws_backlog :=
                     ws_backlog st @ filter (\<lambda>e. ce_checkpoint e \<ge> expected) history\<rparr>)))"

text \<open>The loop of \<open>recv\<close>. \<open>None\<close>: it still waits when the channel has nothing more.\<close>

function recv ::
    "watch_stream \<Rightarrow> received list
     \<Rightarrow> (context_error + change_event) option \<times> watch_stream \<times> received list" where
  "recv st rx =
     (case ws_backlog st of
        e # backlog \<Rightarrow>
          (let st1 = st\<lparr>ws_backlog := backlog, ws_last_checkpoint := ce_checkpoint e\<rparr>
           in if event_matches (ws_prefix st) e then (Some (Inr e), st1, rx) else recv st1 rx)
      | [] \<Rightarrow>
          (case rx of
             [] \<Rightarrow> (None, st, [])
           | Received e # rx1 \<Rightarrow>
               (if ce_checkpoint e \<le> ws_last_checkpoint st then recv st rx1
                else
                  let st1 = st\<lparr>ws_last_checkpoint := ce_checkpoint e\<rparr>
                  in if event_matches (ws_prefix st) e then (Some (Inr e), st1, rx1) else recv st1 rx1)
           | Lagged n h # rx1 \<Rightarrow>
               (case recover_lag n h st of
                  Inl err \<Rightarrow> (Some (Inl err), st, rx1)
                | Inr st1 \<Rightarrow> recv st1 rx1)
           | ChannelClosed # rx1 \<Rightarrow> (Some (Inl (Storage ''watch stream closed'')), st, rx1)))"
  by pat_completeness auto
termination
  by (relation "measures [\<lambda>(st, rx). length rx, \<lambda>(st, rx). length (ws_backlog st)]") auto

declare recv.simps [simp del]

section \<open>The decorator\<close>

text \<open>The inner store, with its own state.\<close>

record 's repo =
  rp_write :: "datetime \<Rightarrow> context_entry \<Rightarrow> 's \<Rightarrow> (context_error + mvcc_version) \<times> 's"
  rp_delete :: "context_uri \<Rightarrow> 's \<Rightarrow> (context_error + unit) \<times> 's"
  rp_rename :: "context_uri \<Rightarrow> context_uri \<Rightarrow> 's \<Rightarrow> (context_error + unit) \<times> 's"
  rp_batch_write :: "(datetime \<times> context_entry) list \<Rightarrow> 's \<Rightarrow> (context_error + mvcc_version list) \<times> 's"

type_synonym 's watched = "'s \<times> watch_hub"

text \<open>The operator \<open>?\<close> after the inner call, then what is emitted.\<close>

definition announce ::
    "(context_error + 'a) \<times> 's \<Rightarrow> ('a \<Rightarrow> watch_hub \<Rightarrow> watch_hub) \<Rightarrow> watch_hub
     \<Rightarrow> (context_error + 'a) \<times> 's watched" where
  "announce out f hub =
     (case out of (Inl err, s) \<Rightarrow> (Inl err, s, hub) | (Inr x, s) \<Rightarrow> (Inr x, s, f x hub))"

definition watched_write ::
    "'s repo \<Rightarrow> datetime \<Rightarrow> context_entry \<Rightarrow> 's watched \<Rightarrow> (context_error + mvcc_version) \<times> 's watched" where
  "watched_write repo now e = (\<lambda>(s, hub).
     announce (rp_write repo now e s) (\<lambda>v. emit ChangeWrite (e_uri e) None (Some v) now) hub)"

definition watched_delete ::
    "'s repo \<Rightarrow> datetime \<Rightarrow> context_uri \<Rightarrow> 's watched \<Rightarrow> (context_error + unit) \<times> 's watched" where
  "watched_delete repo now uri = (\<lambda>(s, hub).
     announce (rp_delete repo uri s) (\<lambda>_. emit ChangeDelete uri None None now) hub)"

definition watched_rename ::
    "'s repo \<Rightarrow> datetime \<Rightarrow> context_uri \<Rightarrow> context_uri \<Rightarrow> 's watched
     \<Rightarrow> (context_error + unit) \<times> 's watched" where
  "watched_rename repo now from to = (\<lambda>(s, hub).
     announce (rp_rename repo from to s) (\<lambda>_. emit ChangeRename from (Some to) None now) hub)"

text \<open>A batch announces its writes after the inner store's batch has succeeded.\<close>

definition watched_batch_write ::
    "'s repo \<Rightarrow> datetime \<Rightarrow> (datetime \<times> context_entry) list \<Rightarrow> 's watched
     \<Rightarrow> (context_error + mvcc_version list) \<times> 's watched" where
  "watched_batch_write repo now es = (\<lambda>(s, hub).
     announce (rp_batch_write repo es s)
       (\<lambda>vs. fold (\<lambda>((_, e), v). emit ChangeWrite (e_uri e) None (Some v) now) (zip es vs)) hub)"

section \<open>The tenant's watch\<close>

definition tenant_root :: "request_context \<Rightarrow> string" where
  "tenant_root ctx = ''uwu://'' @ rc_tenant_name ctx @ ''/''"

definition facade_watch ::
    "request_context \<Rightarrow> moment \<Rightarrow> watch_options \<Rightarrow> watch_hub \<Rightarrow> facade_error + watch_stream" where
  "facade_watch ctx m opts hub =
     (case remaining ctx m of
        Inl e \<Rightarrow> Inl e
      | Inr _ \<Rightarrow>
          (case wo_prefix opts of
             Some p \<Rightarrow>
               (if \<not> starts_with p (tenant_root ctx) then Inl (TenantViolation p)
                else Inr (open_watch opts hub))
           | None \<Rightarrow> Inr (open_watch (opts\<lparr>wo_prefix := Some (tenant_root ctx)\<rparr>) hub)))"

text \<open>\<open>TenantWatch::recv\<close>: a stream that still waits runs into the deadline.\<close>

definition tenant_recv ::
    "request_context \<Rightarrow> moment \<Rightarrow> watch_stream \<Rightarrow> received list
     \<Rightarrow> (facade_error + change_event) \<times> watch_stream \<times> received list" where
  "tenant_recv ctx m st rx =
     (case remaining ctx m of
        Inl e \<Rightarrow> (Inl e, st, rx)
      | Inr left \<Rightarrow>
          (case recv st rx of
             (None, st1, rx1) \<Rightarrow> (Inl (FacadeTimeout left), st1, rx1)
           | (Some (Inl err), st1, rx1) \<Rightarrow> (Inl (FacadeContext err), st1, rx1)
           | (Some (Inr e), st1, rx1) \<Rightarrow>
               (if ce_tenant e \<noteq> rc_tenant_name ctx
                then (Inl (TenantViolation (u_canonical (ce_uri e))), st1, rx1)
                else (Inr e, st1, rx1))))"

end
