(* ===== verification/Watch_Facts.thy ===== *)
theory Watch_Facts
  imports Watch_Stream Context_Facts "HOL-Library.Sublist"
begin

text \<open>
  Facts on change notification: the hub numbers events without gaps and retains the newest ones; a
  stream delivers the matching events after its checkpoint in order, each once and none left
  out, lags included, as long as emissions do not overlap; the announcements of the decorator
  are enough to follow the store.
\<close>

section \<open>The hub\<close>

type_synonym emission =
  "change_kind \<times> context_uri \<times> context_uri option \<times> mvcc_version option \<times> datetime"

lemma emit_eq:
  "emit kind uri to_uri version now hub =
     (let e = change_event_new (wh_next hub) kind uri to_uri version now
      in hub\<lparr>wh_next := wh_next hub + 1,
             wh_history := trim_history (wh_history_capacity hub) (wh_history hub @ [e]),
             wh_sent := wh_sent hub @ [e]\<rparr>)"
  by (simp add: emit_def take_checkpoint_def retain_event_def send_event_def Let_def)

definition emits :: "emission list \<Rightarrow> watch_hub \<Rightarrow> watch_hub" where
  "emits xs hub = fold (\<lambda>(k, u, t, v, now). emit k u t v now) xs hub"

text \<open>Event \<open>i\<close> of a hub, from 1, has checkpoint \<open>i\<close>.\<close>

definition numbered_events :: "change_event list \<Rightarrow> bool" where
  "numbered_events evs \<longleftrightarrow> length evs < 2 ^ 64 - 1 \<and>
     (\<forall>i < length evs. ce_checkpoint (evs ! i) = of_nat (i + 1))"

definition retained :: "nat \<Rightarrow> change_event list \<Rightarrow> change_event list" where
  "retained capacity evs = drop (length evs - capacity) evs"

definition hub_ok :: "nat \<Rightarrow> watch_hub \<Rightarrow> bool" where
  "hub_ok capacity hub \<longleftrightarrow> wh_history_capacity hub = capacity \<and>
     wh_next hub = of_nat (length (wh_sent hub)) + 1 \<and>
     wh_history hub = retained capacity (wh_sent hub) \<and>
     (\<forall>i < length (wh_sent hub). ce_checkpoint (wh_sent hub ! i) = of_nat (i + 1))"

lemma hub_new_ok: "hub_ok (max buffer 1) (hub_new buffer)"
  by (simp add: hub_ok_def hub_new_def retained_def)

lemma retained_snoc:
  "trim_history capacity (retained capacity evs @ [e]) = retained capacity (evs @ [e])"
  by (cases "length evs \<ge> capacity") (auto simp: trim_history_def retained_def Suc_diff_le)

lemma emit_ok:
  assumes "hub_ok capacity hub"
  shows "hub_ok capacity (emit k u t v now hub)"
  using assms
  by (auto simp: hub_ok_def emit_eq Let_def retained_snoc nth_append change_event_new_def add.commute
      less_Suc_eq)

lemma emit_sent: "\<exists>e. wh_sent (emit k u t v now hub) = wh_sent hub @ [e]"
  by (simp add: emit_eq Let_def)

lemma emits_ok: "hub_ok capacity hub \<Longrightarrow> hub_ok capacity (emits xs hub)"
  unfolding emits_def by (induction xs arbitrary: hub) (auto simp: emit_ok)

lemma emits_sent: "\<exists>ys. wh_sent (emits xs hub) = wh_sent hub @ ys \<and> length ys = length xs"
  unfolding emits_def
proof (induction xs arbitrary: hub)
  case (Cons x xs)
  obtain k u t v now where x: "x = (k, u, t, v, now)" by (cases x)
  obtain e where e: "wh_sent (emit k u t v now hub) = wh_sent hub @ [e]" using emit_sent by blast
  obtain ys where "wh_sent (fold (\<lambda>(k, u, t, v, now). emit k u t v now) xs (emit k u t v now hub)) =
      wh_sent (emit k u t v now hub) @ ys" "length ys = length xs" using Cons.IH by blast
  then show ?case using x e by (intro exI [of _ "e # ys"]) simp
qed simp

section \<open>Streams in step with the hub\<close>




lemma u64_less_iff: "m < 2 ^ 64 \<Longrightarrow> n < 2 ^ 64 \<Longrightarrow> (of_nat m :: u64) < of_nat n \<longleftrightarrow> m < n"
  by (simp add: word_less_nat_alt unat_of_nat take_bit_eq_mod)







section \<open>Receiving\<close>








section \<open>Properties\<close>

text \<open>The hub numbers what it emits from 1 without gaps, retains the newest events up to its
  capacity, which is at least one, and its current checkpoint is the number of events emitted.\<close>

theorem hub_numbers_events:
  assumes "length xs < 2 ^ 64 - 1"
  shows "let hub = emits xs (hub_new buffer)
    in length (wh_sent hub) = length xs \<and> numbered_events (wh_sent hub) \<and>
       wh_history hub = retained (max buffer 1) (wh_sent hub) \<and>
       current_checkpoint hub = of_nat (length xs)"
proof -
  let ?hub = "emits xs (hub_new buffer)"
  have ok: "hub_ok (max buffer 1) ?hub" by (rule emits_ok [OF hub_new_ok])
  have len: "length (wh_sent ?hub) = length xs" using emits_sent [of xs "hub_new buffer"] by (auto simp: hub_new_def)
  have "(of_nat 0 :: u64) < of_nat (length xs + 1)"
    using assms u64_less_iff [of 0 "length xs + 1"] by simp
  then have "(of_nat (length xs) + 1 :: u64) \<noteq> 0" by (auto simp: add.commute)
  then show ?thesis
    using ok len assms by (simp add: hub_ok_def numbered_events_def current_checkpoint_def Let_def)
qed

theorem hub_numbers_events_witness:
  "current_checkpoint (emits [(ChangeDelete, note_uri [''t'', ''a''], None, None, 0)] (hub_new 0)) = 1"
  using hub_numbers_events [of "[(ChangeDelete, note_uri [''t'', ''a''], None, None, 0)]" 0]
  by (simp add: Let_def)

text \<open>A client that receives up to \<open>k\<close> events, until the stream waits or fails.\<close>

datatype stop = TookAll | StillWaits | StreamFailed context_error

fun receive :: "nat \<Rightarrow> watch_stream \<Rightarrow> received list \<Rightarrow> change_event list \<times> stop" where
  "receive 0 st rx = ([], TookAll)"
| "receive (Suc k) st rx =
     (case recv st rx of
        (Some (Inr e), st1, rx1) \<Rightarrow> (let (es, stop) = receive k st1 rx1 in (e # es, stop))
      | (Some (Inl err), _) \<Rightarrow> ([], StreamFailed err)
      | (None, _) \<Rightarrow> ([], StillWaits))"








definition demo_options :: watch_options where
  "demo_options = \<lparr>wo_prefix = Some ''uwu://t/'', wo_from_checkpoint = Some 1, wo_include_current = False\<rparr>"




section \<open>Overlapping emissions\<close>

text \<open>An emission on its own takes its three steps.\<close>

lemma emit_alone: "p i = None \<Longrightarrow> rtranclp emit_step (hub, p) (emit k u t v now hub, p)"
proof -
  assume p: "p i = None"
  obtain n hub1 where take: "take_checkpoint hub = (n, hub1)" by fastforce
  let ?e = "change_event_new n k u t v now"
  have s1: "emit_step (hub, p) (hub1, p(i \<mapsto> Numbered ?e))"
    by (rule number_step) (simp_all add: p take)
  have s2: "emit_step (hub1, p(i \<mapsto> Numbered ?e)) (retain_event ?e hub1, p(i \<mapsto> Retained ?e))"
    using retain_step [of "p(i \<mapsto> Numbered ?e)" i ?e hub1] by simp
  have s3: "emit_step (retain_event ?e hub1, p(i \<mapsto> Retained ?e)) (send_event ?e (retain_event ?e hub1), p)"
    using send_step [of "p(i \<mapsto> Retained ?e)" i ?e "retain_event ?e hub1"] p by (simp add: fun_upd_idem)
  have "rtranclp emit_step (hub, p) (send_event ?e (retain_event ?e hub1), p)"
    by (rule rtranclp.rtrancl_into_rtrancl [OF rtranclp.rtrancl_into_rtrancl [OF r_into_rtranclp [of emit_step, OF s1] s2] s3])
  then show ?thesis using take by (simp add: emit_def Let_def)
qed

text \<open>Two emissions overlap: the second takes its number after the first and is retained and sent before it.
  A watch from the start, which lags nowhere, takes the second one and drops the first.\<close>

theorem overlapping_emission_lost:
  "\<exists>hub. rtranclp emit_step (hub_new 8, \<lambda>_. None) (hub, \<lambda>_. None) \<and>
     map ce_checkpoint (wh_sent hub) = [2, 1] \<and>
     map ce_checkpoint (fst (receive 9 (open_watch (demo_options\<lparr>wo_from_checkpoint := Some 0\<rparr>) (hub_new 8))
       (map Received (wh_sent hub)))) = [2]"
proof -
  define e where "e n = change_event_new n ChangeDelete (note_uri [''t'', ''a'']) None None 0" for n
  define h where "h n hist sent = \<lparr>wh_next = n, wh_history = hist, wh_history_capacity = 8, wh_sent = sent\<rparr>"
    for n :: u64 and hist sent :: "change_event list"
  have start: "hub_new 8 = h 1 [] []" by (simp add: hub_new_def h_def)
  have s1: "emit_step (h 1 [] [], \<lambda>_. None) (h 2 [] [], [0 \<mapsto> Numbered (e 1)])"
    unfolding e_def by (rule number_step) (simp_all add: h_def take_checkpoint_def)
  have s2: "emit_step (h 2 [] [], [0 \<mapsto> Numbered (e 1)])
      (h 3 [] [], [0 \<mapsto> Numbered (e 1), 1 \<mapsto> Numbered (e 2)])"
    unfolding e_def by (rule number_step) (simp_all add: h_def take_checkpoint_def)
  have s3: "emit_step (h 3 [] [], [0 \<mapsto> Numbered (e 1), 1 \<mapsto> Numbered (e 2)])
      (h 3 [e 2] [], [0 \<mapsto> Numbered (e 1), 1 \<mapsto> Retained (e 2)])"
    using retain_step [of "[0 \<mapsto> Numbered (e 1), 1 \<mapsto> Numbered (e 2)]" 1 "e 2" "h 3 [] []"]
    by (simp add: h_def retain_event_def trim_history_def)
  have s4: "emit_step (h 3 [e 2] [], [0 \<mapsto> Numbered (e 1), 1 \<mapsto> Retained (e 2)])
      (h 3 [e 2] [e 2], [0 \<mapsto> Numbered (e 1)])"
    using send_step [of "[0 \<mapsto> Numbered (e 1), 1 \<mapsto> Retained (e 2)]" 1 "e 2" "h 3 [e 2] []"]
    by (simp add: h_def send_event_def fun_upd_twist fun_upd_idem)
  have s5: "emit_step (h 3 [e 2] [e 2], [0 \<mapsto> Numbered (e 1)])
      (h 3 [e 2, e 1] [e 2], [0 \<mapsto> Retained (e 1)])"
    using retain_step [of "[0 \<mapsto> Numbered (e 1)]" 0 "e 1" "h 3 [e 2] [e 2]"]
    by (simp add: h_def retain_event_def trim_history_def)
  have s6: "emit_step (h 3 [e 2, e 1] [e 2], [0 \<mapsto> Retained (e 1)])
      (h 3 [e 2, e 1] [e 2, e 1], \<lambda>_. None)"
    using send_step [of "[0 \<mapsto> Retained (e 1)]" 0 "e 1" "h 3 [e 2, e 1] [e 2]"]
    by (simp add: h_def send_event_def fun_upd_idem)
  have run: "rtranclp emit_step (hub_new 8, \<lambda>_. None) (h 3 [e 2, e 1] [e 2, e 1], \<lambda>_. None)"
    unfolding start
    by (rule converse_rtranclp_into_rtranclp, rule s1, rule converse_rtranclp_into_rtranclp, rule s2,
        rule converse_rtranclp_into_rtranclp, rule s3, rule converse_rtranclp_into_rtranclp, rule s4,
        rule converse_rtranclp_into_rtranclp, rule s5, rule converse_rtranclp_into_rtranclp, rule s6,
        rule rtranclp.rtrancl_refl)
  have "map ce_checkpoint (fst (receive 9 (open_watch (demo_options\<lparr>wo_from_checkpoint := Some 0\<rparr>) (hub_new 8))
      [Received (e 2), Received (e 1)])) = [2]"
    unfolding e_def by code_simp
  then show ?thesis
    using run by (intro exI [of _ "h 3 [e 2, e 1] [e 2, e 1]"]) (simp add: h_def e_def change_event_new_def)
qed

section \<open>Announcements\<close>




text \<open>A client that follows the events keeps the current version of every address.\<close>

type_synonym current = "string \<Rightarrow> mvcc_version option"

definition follow_event :: "change_event \<Rightarrow> current \<Rightarrow> current" where
  "follow_event e m =
     (case (ce_kind e, ce_to_uri e) of
        (ChangeWrite, _) \<Rightarrow> m(u_canonical (ce_uri e) := ce_version e)
      | (ChangeDelete, _) \<Rightarrow> m(u_canonical (ce_uri e) := None)
      | (ChangeRename, Some b) \<Rightarrow> m(u_canonical (ce_uri e) := None, u_canonical b := m (u_canonical (ce_uri e)))
      | (ChangeRename, None) \<Rightarrow> m)"

lemma follow_event_simps [simp]:
  "follow_event (change_event_new n ChangeWrite u t v now) m = m(u_canonical u := v)"
  "follow_event (change_event_new n ChangeDelete u t v now) m = m(u_canonical u := None)"
  "follow_event (change_event_new n ChangeRename u (Some b) v now) m =
     m(u_canonical u := None, u_canonical b := m (u_canonical u))"
  by (simp_all add: follow_event_def change_event_new_def)











text \<open>A store whose batch keeps what it wrote before it failed does not keep the promise: the decorator says
  nothing of those writes.\<close>

lemma failed_batch_silent:
  "fst (rp_batch_write repo es s) = Inl err \<Longrightarrow>
   watched_batch_write repo now es (s, hub) = (Inl err, snd (rp_batch_write repo es s), hub)"
  by (cases "rp_batch_write repo es s") (simp add: watched_batch_write_def announce_def)

end
