(* ===== verification/Utf8_Text.thy ===== *)
theory Utf8_Text
  imports Facade
begin

text \<open>
  Cutting text at character boundaries: \<open>String::pop\<close> on well-formed UTF-8 and the loop of
  src/src/facade.rs that shortens an audit detail.
\<close>

section \<open>Characters\<close>

text \<open>A character: a first byte and its continuation bytes, which any text may follow.\<close>

definition utf8_char :: "string \<Rightarrow> bool" where
  "utf8_char c \<longleftrightarrow> (\<exists>a k. c = a # k \<and> \<not> cont a \<and> list_all cont k) \<and>
     (\<forall>t. utf8_valid (c @ t) = utf8_valid t)"

lemma utf8_first_char:
  assumes "utf8_valid (a # s)"
  shows "\<exists>k t. s = k @ t \<and> utf8_char (a # k) \<and> utf8_valid t"
proof -
  consider "byte a < 128" | "194 \<le> byte a" "byte a \<le> 223" | "224 \<le> byte a" "byte a \<le> 239"
    | "240 \<le> byte a" "byte a \<le> 244"
    using assms by (auto split: if_splits)
  then show ?thesis
  proof cases
    case 1
    then have "utf8_char (a # [])" by (simp add: utf8_char_def cont_def)
    then show ?thesis using 1 assms by (intro exI [of _ "[]"] exI [of _ s]) simp
  next
    case 2
    then obtain b t where s: "s = b # t" "cont b" "utf8_valid t"
      using assms by (auto split: list.splits)
    have "utf8_char (a # [b])" using 2 s by (auto simp: utf8_char_def cont_def)
    then show ?thesis using s by (intro exI [of _ "[b]"] exI [of _ t]) simp
  next
    case 3
    then obtain b c t where s: "s = b # c # t" "cont b" "cont c" "utf8_valid t"
      "byte a = 224 \<longrightarrow> 160 \<le> byte b" "byte a = 237 \<longrightarrow> byte b < 160"
      using assms by (auto split: list.splits)
    have "utf8_char (a # [b, c])" using 3 s by (auto simp: utf8_char_def cont_def)
    then show ?thesis using s by (intro exI [of _ "[b, c]"] exI [of _ t]) simp
  next
    case 4
    then obtain b c d t where s: "s = b # c # d # t" "cont b" "cont c" "cont d" "utf8_valid t"
      "byte a = 240 \<longrightarrow> 144 \<le> byte b" "byte a = 244 \<longrightarrow> byte b < 144"
      using assms by (auto split: list.splits)
    have "utf8_char (a # [b, c, d])" using 4 s by (auto simp: utf8_char_def cont_def)
    then show ?thesis using s by (intro exI [of _ "[b, c, d]"] exI [of _ t]) simp
  qed
qed

lemma utf8_chars: "utf8_valid s \<Longrightarrow> \<exists>cs. s = concat cs \<and> list_all utf8_char cs"
proof (induction "length s" arbitrary: s rule: less_induct)
  case less
  show ?case
  proof (cases s)
    case Nil
    then show ?thesis by (intro exI [of _ "[]"]) simp
  next
    case (Cons a r)
    then obtain k t where t: "r = k @ t" "utf8_char (a # k)" "utf8_valid t"
      using utf8_first_char less.prems by blast
    then obtain cs where "t = concat cs" "list_all utf8_char cs" using less.hyps [of t] Cons by auto
    then show ?thesis using t Cons by (intro exI [of _ "(a # k) # cs"]) simp
  qed
qed

lemma concat_valid: "list_all utf8_char cs \<Longrightarrow> utf8_valid (concat cs @ t) = utf8_valid t"
  by (induction cs) (auto simp: utf8_char_def)

lemma valid_append: "utf8_valid p \<Longrightarrow> utf8_valid (p @ t) = utf8_valid t"
  using utf8_chars [of p] concat_valid by blast

lemma utf8_last_char:
  assumes "utf8_valid s" "s \<noteq> []"
  shows "\<exists>p a k. s = p @ a # k \<and> utf8_valid p \<and> \<not> cont a \<and> list_all cont k"
proof -
  obtain cs where cs: "s = concat cs" "list_all utf8_char cs" using utf8_chars [OF assms(1)] by blast
  then have "cs \<noteq> []" using assms(2) by auto
  then obtain ds c where ds: "cs = ds @ [c]" by (metis rev_exhaust)
  then have "utf8_char c" "list_all utf8_char ds" using cs by simp_all
  then obtain a k where "c = a # k" "\<not> cont a" "list_all cont k" by (auto simp: utf8_char_def)
  moreover have "utf8_valid (concat ds)" using concat_valid [of ds "[]"] \<open>list_all utf8_char ds\<close> by simp
  ultimately show ?thesis using cs ds by (intro exI [of _ "concat ds"] exI [of _ a] exI [of _ k]) simp
qed

definition tail_len :: "char \<Rightarrow> nat" where
  "tail_len a = (if byte a < 128 then 0 else if byte a \<le> 223 then 1 else if byte a \<le> 239 then 2 else 3)"

lemma conts_invalid: "list_all cont k \<Longrightarrow> utf8_valid k \<Longrightarrow> k = []"
  by (cases k) (auto simp: cont_def split: if_splits)

lemma char_length: "utf8_valid (a # k) \<Longrightarrow> list_all cont k \<Longrightarrow> length k = tail_len a"
  by (auto simp: tail_len_def split: if_splits list.splits dest: conts_invalid)

section \<open>Popping\<close>

lemma pop_rev_cont: "list_all cont p \<Longrightarrow> \<not> cont c \<Longrightarrow> pop_rev (p @ c # q) = q"
  by (induction p) auto

lemma pop_char_last: "list_all cont k \<Longrightarrow> \<not> cont a \<Longrightarrow> pop_char (p @ a # k) = p"
  using pop_rev_cont [of "rev k" a "rev p"] by (simp add: pop_char_def)

lemma proper_prefix_of_char:
  assumes "utf8_valid p" "utf8_valid (p @ a # k)" "list_all cont k" "\<not> cont a"
    and "utf8_valid q" "q @ r = p @ a # k" "r \<noteq> []"
  shows "length q \<le> length p"
proof (rule ccontr)
  assume long: "\<not> length q \<le> length p"
  then obtain x where x: "q = p @ x" "x @ r = a # k"
    using assms(6) by (auto simp: append_eq_append_conv2)
  then obtain k' where k': "x = a # k'" "k' @ r = k" using long by (cases x) auto
  then have "utf8_valid (a # k')" "list_all cont k'"
    using assms(1,3,5) x valid_append [of p "a # k'"] by auto
  moreover have "utf8_valid (a # k)" using assms(1,2) valid_append by blast
  ultimately have "length k' = length k" using char_length assms(3) by metis
  then show False using k'(2) assms(7) by auto
qed

section \<open>Truncation\<close>

text \<open>The audit detail is cut at a character boundary and no further than needed: from well-formed
  UTF-8 the loop makes its longest well-formed prefix that fits the limit.\<close>

theorem truncate_is_longest_prefix:
  assumes "utf8_valid s"
  shows "let t = truncate_detail limit s in
    (\<exists>r. s = t @ r) \<and> utf8_valid t \<and> length t \<le> limit \<and>
    (\<forall>q r. s = q @ r \<longrightarrow> utf8_valid q \<longrightarrow> length q \<le> limit \<longrightarrow> length q \<le> length t)"
  using assms
proof (induction limit s rule: truncate_detail.induct)
  case (1 limit s)
  show ?case
  proof (cases "limit < length s")
    case False
    then have "truncate_detail limit s = s" by (subst truncate_detail.simps) simp
    then show ?thesis using 1(2) False by (auto simp: Let_def)
  next
    case True
    then have "s \<noteq> []" by auto
    then obtain p a k where s: "s = p @ a # k" "utf8_valid p" "\<not> cont a" "list_all cont k"
      using utf8_last_char 1(2) by blast
    then have pop: "pop_char s = p" by (simp add: pop_char_last)
    have t: "truncate_detail limit s = truncate_detail limit p"
      using True pop by (subst truncate_detail.simps) simp
    have IH: "let t = truncate_detail limit p in
      (\<exists>r. p = t @ r) \<and> utf8_valid t \<and> length t \<le> limit \<and>
      (\<forall>q r. p = q @ r \<longrightarrow> utf8_valid q \<longrightarrow> length q \<le> limit \<longrightarrow> length q \<le> length t)"
      using 1(1) [OF True] s(2) pop by simp
    have "length q \<le> length (truncate_detail limit p)"
      if q: "s = q @ r" "utf8_valid q" "length q \<le> limit" for q r
    proof -
      have "r \<noteq> []" using q True by auto
      then have "length q \<le> length p"
        using proper_prefix_of_char [of p a k q r] s q 1(2) by simp
      then have "\<exists>r'. p = q @ r'" using q(1) s(1) by (auto simp: append_eq_append_conv2)
      then show ?thesis using IH q by (auto simp: Let_def)
    qed
    moreover have "\<exists>r. s = truncate_detail limit p @ r"
      using IH s(1) by (metis append.assoc)
    ultimately show ?thesis unfolding t Let_def using IH [unfolded Let_def] by blast
  qed
qed

theorem truncate_is_longest_prefix_witness:
  "length (truncate_detail 3 [CHR ''a'', CHR 0xC3, CHR 0xA9, CHR 0xC3, CHR 0xA9]) = 3"
proof -
  let ?s = "[CHR ''a'', CHR 0xC3, CHR 0xA9, CHR 0xC3, CHR 0xA9]"
  have valid: "utf8_valid ?s" "utf8_valid [CHR ''a'', CHR 0xC3, CHR 0xA9]" by code_simp+
  let ?t = "truncate_detail 3 ?s"
  note T = truncate_is_longest_prefix [OF valid(1), of 3, unfolded Let_def]
  have "length ?t \<le> 3" using T by blast
  moreover have "\<forall>q r. ?s = q @ r \<longrightarrow> utf8_valid q \<longrightarrow> length q \<le> 3 \<longrightarrow> length q \<le> length ?t"
    using T by blast
  from this [rule_format, of "[CHR ''a'', CHR 0xC3, CHR 0xA9]" "[CHR 0xC3, CHR 0xA9]"] valid(2)
  have "3 \<le> length ?t" by (simp del: utf8_valid.simps)
  ultimately show ?thesis by simp
qed

end
