(* ===== verification/Index_Outbox.thy ===== *)
theory Index_Outbox
  imports Content_Model
begin

text \<open>
  The transactional outbox between the SQL content stores and the vector index,
  crates/context-db-storage/src/outbox.rs with \<open>IndexPoint\<close> of crates/context-db-core/src/vector.rs:
  the points made of entries, the queued mutations, the statement that claims them, in the form for
  SQLite and in the form for PostgreSQL, the worker's batch and its retries. A table is the list of
  its rows in the order of insertion. A comparison with NULL selects no row. The timestamps, texts in
  the SQLite table whose order is the order of time, are instants here. The serde conversion of a JSON
  value to a vector of floats is the parameter \<open>ov\<close>.
\<close>

section \<open>Index points\<close>

record index_point =
  pt_uri :: context_uri
  pt_vector :: "f32_bits list"
  pt_model_id :: "string option"
  pt_dim :: "nat option"
  pt_version :: "nat option"
  pt_payload :: json

datatype index_mutation =
    Upsert string index_point
  | Delete string context_uri
  | Rename string context_uri "index_point option"

definition DEFAULT_COLLECTION :: string where
  "DEFAULT_COLLECTION = ''context''"

definition VECTOR_KEY :: string where
  "VECTOR_KEY = ''embedding_vector''"

text \<open>\<open>Value::get\<close>, \<open>Value::as_str\<close>, \<open>Value::as_u64\<close>.\<close>

definition json_get :: "string \<Rightarrow> json \<Rightarrow> json option" where
  "json_get key v = (case v of JObject obj \<Rightarrow> hget obj key | _ \<Rightarrow> None)"

definition json_str :: "json \<Rightarrow> string option" where
  "json_str v = (case v of JString s \<Rightarrow> Some s | _ \<Rightarrow> None)"

definition json_u64 :: "json \<Rightarrow> nat option" where
  "json_u64 v = (case v of JNumber s \<Rightarrow> parse_usize s | _ \<Rightarrow> None)"

definition finite_bits :: "f32_bits \<Rightarrow> bool" where
  "finite_bits b \<longleftrightarrow> take_bit 8 (drop_bit 23 b) \<noteq> 255"

definition collection_from_entry :: "context_entry \<Rightarrow> string" where
  "collection_from_entry e =
     (case Option.bind (json_get ''vector_collection'' (m_custom (e_metadata e))) json_str of
        Some c \<Rightarrow> c
      | None \<Rightarrow> DEFAULT_COLLECTION)"

definition version_number :: "mvcc_version \<Rightarrow> nat" where
  "version_number v = (case v of MvccVersion n \<Rightarrow> unat n)"

definition point_payload :: "context_entry \<Rightarrow> json" where
  "point_payload e =
     JObject
       [(''collection'', JString (collection_from_entry e)),
        (''content_type'', case m_content_type (e_metadata e) of
           Some ct \<Rightarrow> JString (as_path_segment ct) | None \<Rightarrow> JNull),
        (''mvcc_version'', JNumber (show_nat (version_number (e_mvcc_version e))))]"

definition point_from_entry ::
    "(json \<Rightarrow> context_error + f32_bits list) \<Rightarrow> context_entry \<Rightarrow> context_error + index_point option" where
  "point_from_entry ov e =
     (let custom = m_custom (e_metadata e) in
      case json_get VECTOR_KEY custom of
        None \<Rightarrow> Inr None
      | Some value \<Rightarrow>
          (case ov value of
             Inl err \<Rightarrow> Inl err
           | Inr vector \<Rightarrow>
               (if vector = [] \<or> \<not> list_all finite_bits vector
                then Inl (Storage ''embedding_vector must contain finite values'')
                else Inr (Some
                  \<lparr>pt_uri = e_uri e, pt_vector = vector,
                   pt_model_id = Option.bind (json_get ''embedding_model_id'' custom) json_str,
                   pt_dim = Some (length vector),
                   pt_version = Option.bind (json_get ''embedding_version'' custom) json_u64,
                   pt_payload = point_payload e\<rparr>))))"

definition upsert_mutation ::
    "(json \<Rightarrow> context_error + f32_bits list) \<Rightarrow> context_entry \<Rightarrow> mvcc_version
     \<Rightarrow> context_error + index_mutation option" where
  "upsert_mutation ov entry version =
     (let e = entry\<lparr>e_mvcc_version := version\<rparr>
      in case point_from_entry ov e of
           Inl err \<Rightarrow> Inl err
         | Inr p \<Rightarrow> Inr (map_option (Upsert (collection_from_entry e)) p))"

text \<open>The address a mutation is queued under and its version as an SQL integer: a deletion has
  none, nor has a version that does not fit 64 signed bits.\<close>

definition point_order :: "index_point \<Rightarrow> nat option" where
  "point_order p =
     Option.bind (Option.bind (json_get ''mvcc_version'' (pt_payload p)) json_u64)
       (\<lambda>v. if v < 2 ^ 63 then Some v else None)"

definition mutation_order :: "index_mutation \<Rightarrow> string \<times> nat option" where
  "mutation_order m =
     (case m of
        Upsert _ p \<Rightarrow> (u_canonical (pt_uri p), point_order p)
      | Delete _ uri \<Rightarrow> (u_canonical uri, None)
      | Rename _ from p \<Rightarrow>
          (case p of Some q \<Rightarrow> u_canonical (pt_uri q) | None \<Rightarrow> u_canonical from,
           Option.bind p point_order))"

section \<open>The table\<close>

datatype job_status = Pending | Processing | Done | Failed | Dead

record outbox_job =
  ob_id :: uuid
  ob_mutation :: index_mutation
  ob_uri :: string
  ob_version :: "nat option"
  ob_status :: job_status
  ob_attempts :: nat
  ob_available_at :: datetime
  ob_lease_until :: "datetime option"
  ob_last_error :: "string option"
  ob_created_at :: datetime
  ob_updated_at :: datetime
  ob_finished_at :: "datetime option"

definition new_job :: "uuid \<Rightarrow> datetime \<Rightarrow> index_mutation \<Rightarrow> outbox_job" where
  "new_job fresh now m =
     (let (uri, version) = mutation_order m
      in \<lparr>ob_id = fresh, ob_mutation = m, ob_uri = uri, ob_version = version, ob_status = Pending,
          ob_attempts = 0, ob_available_at = now, ob_lease_until = None, ob_last_error = None,
          ob_created_at = now, ob_updated_at = now, ob_finished_at = None\<rparr>)"

definition enqueue :: "uuid \<Rightarrow> datetime \<Rightarrow> index_mutation \<Rightarrow> outbox_job list \<Rightarrow> outbox_job list" where
  "enqueue fresh now m jobs = jobs @ [new_job fresh now m]"

record outbox_config =
  oc_lease :: nat \<comment> \<open>nanoseconds\<close>
  oc_max_attempts :: nat
  oc_batch_size :: nat

definition default_outbox_config :: outbox_config where
  "default_outbox_config = \<lparr>oc_lease = 30 * 10 ^ 9, oc_max_attempts = 8, oc_batch_size = 64\<rparr>"

section \<open>Claiming\<close>

definition sql_less :: "nat option \<Rightarrow> nat option \<Rightarrow> bool" where
  "sql_less a b = (case (a, b) of (Some x, Some y) \<Rightarrow> x < y | _ \<Rightarrow> False)"

definition sql_eq :: "nat option \<Rightarrow> nat option \<Rightarrow> bool" where
  "sql_eq a b = (case (a, b) of (Some x, Some y) \<Rightarrow> x = y | _ \<Rightarrow> False)"

definition finished :: "outbox_job \<Rightarrow> bool" where
  "finished j \<longleftrightarrow> ob_status j \<in> {Done, Dead}"

text \<open>What the subquery selects: an unfinished job of the address that is older.\<close>

definition older_job :: "outbox_job \<Rightarrow> outbox_job \<Rightarrow> bool" where
  "older_job older j \<longleftrightarrow> ob_uri older = ob_uri j \<and> \<not> finished older \<and>
     (sql_less (ob_version older) (ob_version j) \<or>
      sql_eq (ob_version older) (ob_version j) \<and> ob_created_at older < ob_created_at j)"

definition blocked :: "outbox_job list \<Rightarrow> outbox_job \<Rightarrow> bool" where
  "blocked jobs j \<longleftrightarrow> (\<exists>older\<in>set jobs. older_job older j)"

definition due :: "datetime \<Rightarrow> outbox_job \<Rightarrow> bool" where
  "due now j \<longleftrightarrow> ob_status j \<in> {Pending, Failed} \<and> ob_available_at j \<le> now"

definition lease_expired :: "datetime \<Rightarrow> outbox_job \<Rightarrow> bool" where
  "lease_expired now j \<longleftrightarrow> ob_status j = Processing \<and>
     (case ob_lease_until j of Some t \<Rightarrow> t < now | None \<Rightarrow> False)"

definition claimable_sqlite :: "datetime \<Rightarrow> outbox_job list \<Rightarrow> outbox_job \<Rightarrow> bool" where
  "claimable_sqlite now jobs j \<longleftrightarrow> (due now j \<or> lease_expired now j) \<and> \<not> blocked jobs j"

text \<open>The PostgreSQL statement has no brackets around the alternative: AND binds tighter.\<close>

definition claimable_pg :: "datetime \<Rightarrow> outbox_job list \<Rightarrow> outbox_job \<Rightarrow> bool" where
  "claimable_pg now jobs j \<longleftrightarrow> due now j \<or> lease_expired now j \<and> \<not> blocked jobs j"

text \<open>\<open>ORDER BY created_at LIMIT\<close>; rows of the same instant come in table order.\<close>

definition picked :: "(outbox_job \<Rightarrow> bool) \<Rightarrow> nat \<Rightarrow> outbox_job list \<Rightarrow> outbox_job list" where
  "picked claimable limit jobs = take limit (sort_key ob_created_at (filter claimable jobs))"

definition lease_end :: "outbox_config \<Rightarrow> datetime \<Rightarrow> datetime" where
  "lease_end cfg now = now + int (oc_lease cfg div 10 ^ 9) * 10 ^ 9"

definition mark_claimed :: "outbox_config \<Rightarrow> datetime \<Rightarrow> outbox_job \<Rightarrow> outbox_job" where
  "mark_claimed cfg now j =
     j\<lparr>ob_status := Processing, ob_lease_until := Some (lease_end cfg now),
       ob_attempts := ob_attempts j + 1, ob_updated_at := now\<rparr>"

type_synonym claimed = "uuid \<times> index_mutation \<times> nat"

definition claim_by ::
    "(datetime \<Rightarrow> outbox_job list \<Rightarrow> outbox_job \<Rightarrow> bool) \<Rightarrow> outbox_config \<Rightarrow> datetime
     \<Rightarrow> outbox_job list \<Rightarrow> claimed list \<times> outbox_job list" where
  "claim_by claimable cfg now jobs =
     (let ids = map ob_id (picked (claimable now jobs) (oc_batch_size cfg) jobs);
          jobs' = map (\<lambda>j. if ob_id j \<in> set ids then mark_claimed cfg now j else j) jobs
      in (map (\<lambda>j. (ob_id j, ob_mutation j, ob_attempts j)) (filter (\<lambda>j. ob_id j \<in> set ids) jobs'), jobs'))"

section \<open>Applying and finishing\<close>

text \<open>The vector index is a port: \<open>ups\<close> and \<open>del\<close> take it to a result and the next index.\<close>

definition apply_mutation ::
    "(string \<Rightarrow> index_point \<Rightarrow> 'i \<Rightarrow> (context_error + unit) \<times> 'i)
     \<Rightarrow> (string \<Rightarrow> context_uri \<Rightarrow> 'i \<Rightarrow> (context_error + unit) \<times> 'i)
     \<Rightarrow> index_mutation \<Rightarrow> 'i \<Rightarrow> (context_error + unit) \<times> 'i" where
  "apply_mutation ups del m idx =
     (case m of
        Upsert c p \<Rightarrow> ups c p idx
      | Delete c uri \<Rightarrow> del c uri idx
      | Rename c from p \<Rightarrow>
          (case del c from idx of
             (Inl e, idx1) \<Rightarrow> (Inl e, idx1)
           | (Inr _, idx1) \<Rightarrow> (case p of Some q \<Rightarrow> ups c q idx1 | None \<Rightarrow> (Inr (), idx1))))"

text \<open>Seconds until the next attempt: \<open>2^min(attempts, 16)\<close>, at most an hour.\<close>

definition retry_delay :: "nat \<Rightarrow> nat" where
  "retry_delay attempts = min (2 ^ min attempts 16) 3600"

definition finish_status :: "nat \<Rightarrow> nat \<Rightarrow> context_error option \<Rightarrow> job_status" where
  "finish_status attempts max_attempts err =
     (if err = None then Done else if max_attempts \<le> attempts then Dead else Failed)"

definition finish_job ::
    "datetime \<Rightarrow> uuid \<Rightarrow> nat \<Rightarrow> nat \<Rightarrow> context_error option \<Rightarrow> outbox_job list \<Rightarrow> outbox_job list" where
  "finish_job now i attempts max_attempts err jobs =
     (let status = finish_status attempts max_attempts err
      in map (\<lambda>j. if ob_id j = i
               then j\<lparr>ob_status := status, ob_last_error := map_option context_error_display err,
                      ob_available_at := now + int (retry_delay attempts) * 10 ^ 9,
                      ob_lease_until := None, ob_updated_at := now,
                      ob_finished_at := (if status \<in> {Done, Dead} then Some now else None)\<rparr>
               else j) jobs)"

text \<open>The jobs of a batch one after the other; a clock reading for each.\<close>

fun process_claimed ::
    "(string \<Rightarrow> index_point \<Rightarrow> 'i \<Rightarrow> (context_error + unit) \<times> 'i)
     \<Rightarrow> (string \<Rightarrow> context_uri \<Rightarrow> 'i \<Rightarrow> (context_error + unit) \<times> 'i) \<Rightarrow> outbox_config
     \<Rightarrow> (datetime \<times> claimed) list \<Rightarrow> outbox_job list \<times> 'i \<Rightarrow> outbox_job list \<times> 'i" where
  "process_claimed ups del cfg [] st = st"
| "process_claimed ups del cfg ((now, i, m, attempts) # rest) (jobs, idx) =
     (let (r, idx1) = apply_mutation ups del m idx;
          err = (case r of Inl e \<Rightarrow> Some e | Inr _ \<Rightarrow> None)
      in process_claimed ups del cfg rest
           (finish_job now i attempts (oc_max_attempts cfg) err jobs, idx1))"

text \<open>The database returns the claimed rows in any order: \<open>arrange\<close> gives it, with the clock
  readings of the batch.\<close>

definition process_batch ::
    "(string \<Rightarrow> index_point \<Rightarrow> 'i \<Rightarrow> (context_error + unit) \<times> 'i)
     \<Rightarrow> (string \<Rightarrow> context_uri \<Rightarrow> 'i \<Rightarrow> (context_error + unit) \<times> 'i)
     \<Rightarrow> (datetime \<Rightarrow> outbox_job list \<Rightarrow> outbox_job \<Rightarrow> bool) \<Rightarrow> outbox_config \<Rightarrow> datetime
     \<Rightarrow> (claimed list \<Rightarrow> (datetime \<times> claimed) list) \<Rightarrow> outbox_job list \<times> 'i \<Rightarrow> outbox_job list \<times> 'i" where
  "process_batch ups del claimable cfg now arrange = (\<lambda>(jobs, idx).
     let (cs, jobs1) = claim_by claimable cfg now jobs
     in process_claimed ups del cfg (arrange cs) (jobs1, idx))"

text \<open>Reconciliation queues an upsert for each entry with a vector, in the order of addresses; an
  entry whose vector is not valid stops it, and the transaction with it.\<close>

fun reconcile_entries ::
    "(json \<Rightarrow> context_error + f32_bits list) \<Rightarrow> (uuid \<times> datetime \<times> context_entry) list
     \<Rightarrow> outbox_job list \<Rightarrow> context_error + outbox_job list" where
  "reconcile_entries ov [] jobs = Inr jobs"
| "reconcile_entries ov ((fresh, now, e) # es) jobs =
     (case point_from_entry ov e of
        Inl err \<Rightarrow> Inl err
      | Inr None \<Rightarrow> reconcile_entries ov es jobs
      | Inr (Some p) \<Rightarrow>
          reconcile_entries ov es (enqueue fresh now (Upsert (collection_from_entry e) p) jobs))"

definition reconcile_all ::
    "(json \<Rightarrow> context_error + f32_bits list) \<Rightarrow> (uuid \<times> datetime \<times> context_entry) list
     \<Rightarrow> outbox_job list \<Rightarrow> (context_error + unit) \<times> outbox_job list" where
  "reconcile_all ov es jobs =
     (case reconcile_entries ov es jobs of Inl err \<Rightarrow> (Inl err, jobs) | Inr jobs' \<Rightarrow> (Inr (), jobs'))"

section \<open>An index in memory\<close>

text \<open>The index of the tests, which fails the first upserts it is asked for.\<close>

record test_index =
  ti_points :: "(string \<times> context_uri, index_point) hmap"
  ti_deletes :: "(string \<times> context_uri) list"
  ti_failures :: nat
  ti_calls :: nat

definition test_index_failing :: "nat \<Rightarrow> test_index" where
  "test_index_failing n = \<lparr>ti_points = [], ti_deletes = [], ti_failures = n, ti_calls = 0\<rparr>"

definition test_upsert :: "string \<Rightarrow> index_point \<Rightarrow> test_index \<Rightarrow> (context_error + unit) \<times> test_index" where
  "test_upsert c p idx =
     (let idx1 = idx\<lparr>ti_calls := ti_calls idx + 1\<rparr>
      in if 0 < ti_failures idx
         then (Inl (Storage ''injected index failure''), idx1\<lparr>ti_failures := ti_failures idx - 1\<rparr>)
         else (Inr (), idx1\<lparr>ti_points := hput (c, pt_uri p) p (ti_points idx)\<rparr>))"

definition test_delete :: "string \<Rightarrow> context_uri \<Rightarrow> test_index \<Rightarrow> (context_error + unit) \<times> test_index" where
  "test_delete c uri idx =
     (Inr (), idx\<lparr>ti_calls := ti_calls idx + 1, ti_points := hdel (c, uri) (ti_points idx),
                  ti_deletes := ti_deletes idx @ [(c, uri)]\<rparr>)"

definition test_lookup :: "test_index \<Rightarrow> string \<times> context_uri \<Rightarrow> index_point option" where
  "test_lookup idx k = hget (ti_points idx) k"

end
