(* ===== verification/Outbox_History.thy ===== *)
theory Outbox_History
  imports Outbox_Facts "HOL-Library.Code_Target_Nat"
begin

text \<open>
  Histories of the index outbox: writers queue points, a worker claims and runs batches which may
  crash anywhere. The invariant of Outbox_Facts is carried over all of them, a late batch makes
  progress, and the two properties of the outbox rest on it: the index converges and no job is
  stuck.
\<close>

section \<open>Histories of the outbox\<close>

text \<open>Writers queue points of growing versions, at growing times, under fresh identities; one worker
  runs batches, which may crash.\<close>

datatype outbox_op =
    QueuePoint uuid datetime string index_point
  | RunBatch datetime "claimed list \<Rightarrow> (datetime \<times> claimed) list" nat bool

fun outbox_step ::
    "(string \<Rightarrow> index_point \<Rightarrow> 'i \<Rightarrow> (context_error + unit) \<times> 'i)
     \<Rightarrow> (string \<Rightarrow> context_uri \<Rightarrow> 'i \<Rightarrow> (context_error + unit) \<times> 'i) \<Rightarrow> outbox_config
     \<Rightarrow> outbox_op \<Rightarrow> outbox_job list \<times> 'i \<Rightarrow> outbox_job list \<times> 'i" where
  "outbox_step ups del cfg (QueuePoint i now c p) st = (enqueue i now (Upsert c p) (fst st), snd st)"
| "outbox_step ups del cfg (RunBatch now arrange n half) st = crashing_batch ups del cfg now arrange n half st"

fun outbox_ok :: "outbox_op \<Rightarrow> outbox_job list \<times> 'i \<Rightarrow> bool" where
  "outbox_ok (QueuePoint i now c p) st \<longleftrightarrow>
     (\<exists>v. point_order p = Some v \<and>
       (\<forall>j\<in>set (fst st). ob_id j \<noteq> i \<and>
          (ob_uri j = u_canonical (pt_uri p) \<longrightarrow>
             ob_created_at j < now \<and> (\<exists>w. ob_version j = Some w \<and> w \<le> v))))"
| "outbox_ok (RunBatch now arrange n half) st \<longleftrightarrow> rearranges arrange"

lemma new_job_simps [simp]:
  "ob_id (new_job i now (Upsert c p)) = i" "ob_status (new_job i now m) = Pending"
  "ob_created_at (new_job i now m) = now" "ob_uri (new_job i now (Upsert c p)) = u_canonical (pt_uri p)"
  "ob_version (new_job i now (Upsert c p)) = point_order p" "ob_mutation (new_job i now m) = m"
  by (simp_all add: new_job_def mutation_order_def split: prod.split)

lemma enqueue_queued:
  "queued jobs \<Longrightarrow> outbox_ok (QueuePoint i now c p) (jobs, idx) \<Longrightarrow> queued (enqueue i now (Upsert c p) jobs)"
  by (auto simp: queued_def enqueue_def sorted_wrt_append in_turn_def upsert_job_def new_job_def
      mutation_order_def leased_def split: option.splits)

lemma enqueue_tracks: "tracks base l jobs \<Longrightarrow> tracks base l (enqueue i now m jobs)"
  by (simp add: tracks_def enqueue_def possible_append) (simp add: outcome_def)

context vector_index
begin

definition outbox_inv ::
    "(string \<times> context_uri \<Rightarrow> index_point option) \<Rightarrow> outbox_job list \<times> 'i \<Rightarrow> bool" where
  "outbox_inv base st \<longleftrightarrow> queued (fst st) \<and> tracks base (look (snd st)) (fst st)"

lemma outbox_step_inv:
  assumes "outbox_inv base st" "outbox_ok x st"
  shows "outbox_inv base (outbox_step ups del cfg x st)"
proof (cases x)
  case (QueuePoint i now c p)
  then show ?thesis
    using assms enqueue_queued [of "fst st" i now c p "snd st"] by (simp add: outbox_inv_def enqueue_tracks)
next
  case (RunBatch now arrange n half)
  then show ?thesis
    using batch_tracks [of "fst st" base "snd st" arrange cfg now n half] assms
    by (simp add: outbox_inv_def split: prod.splits)
qed

sublocale outbox: op_system "outbox_step ups del cfg" "outbox_inv base" outbox_ok for cfg base
  by unfold_locales (rule outbox_step_inv)

lemma outbox_reached:
  assumes "outbox.ok_run cfg ops ([], idx)" "outbox.run cfg ops ([], idx) = (jobs, idx')"
  shows "outbox_inv (look idx) (jobs, idx')"
proof -
  have "outbox_inv (look idx) ([], idx)"
    by (simp add: outbox_inv_def queued_def tracks_def possible_def)
  then show ?thesis using outbox.run_inv [of "look idx" "([], idx)" cfg ops] assms by simp
qed

lemma outbox_settled:
  assumes "outbox.ok_run cfg ops ([], idx)" "outbox.run cfg ops ([], idx) = (jobs, idx')"
    and "\<forall>j\<in>set jobs. ob_status j = Done"
  shows "look idx' k = newest k jobs (look idx k)"
proof -
  have "outbox_inv (look idx) (jobs, idx')" by (rule outbox_reached [OF assms(1,2)])
  then have "look idx' k \<in> possible k jobs (look idx k)"
    by (simp add: outbox_inv_def tracksD)
  then show ?thesis using possible_done [OF assms(3)] by simp
qed

end

section \<open>Draining\<close>

text \<open>A time at which every retry is due and every lease has expired.\<close>

definition late_time :: "outbox_job list \<Rightarrow> datetime" where
  "late_time jobs = foldr (\<lambda>j t. max t (max (ob_available_at j)
     (case ob_lease_until j of Some l \<Rightarrow> l + 1 | None \<Rightarrow> 0))) jobs 0"

definition late_batch ::
    "(string \<Rightarrow> index_point \<Rightarrow> 'i \<Rightarrow> (context_error + unit) \<times> 'i)
     \<Rightarrow> (string \<Rightarrow> context_uri \<Rightarrow> 'i \<Rightarrow> (context_error + unit) \<times> 'i) \<Rightarrow> outbox_config
     \<Rightarrow> outbox_job list \<times> 'i \<Rightarrow> outbox_job list \<times> 'i" where
  "late_batch ups del cfg st =
     (let t = late_time (fst st) in process_batch ups del claimable_sqlite cfg t (map (Pair t)) st)"

lemma late_time_ge:
  "j \<in> set jobs \<Longrightarrow> ob_available_at j \<le> late_time jobs"
  "j \<in> set jobs \<Longrightarrow> ob_lease_until j = Some t \<Longrightarrow> t < late_time jobs"
  by (induction jobs) (auto simp: late_time_def)

lemma not_older_later:
  assumes "in_turn j y" shows "\<not> older_job y j"
  using assms by (auto simp: in_turn_def older_job_def sql_less_def sql_eq_def)

lemma something_claimable:
  assumes q: "queued jobs" and "x \<in> set jobs" "\<not> finished x"
  shows "\<exists>j\<in>set jobs. claimable_sqlite (late_time jobs) jobs j"
proof -
  have "\<exists>x\<in>set jobs. \<not> finished x" using assms(2,3) by blast
  then obtain xs j ys where split: "jobs = xs @ j # ys" "\<not> finished j" "\<forall>y\<in>set xs. finished y"
    by (auto elim!: split_list_first_propE)
  have "\<not> older_job y j" if y: "y \<in> set jobs" for y
  proof -
    consider "y \<in> set xs" | "y = j" | "y \<in> set ys" using y split(1) by auto
    then show ?thesis
    proof cases
      case 3
      then have "in_turn j y" using q split(1) by (auto simp: queued_def sorted_wrt_append)
      then show ?thesis by (rule not_older_later)
    qed (use split(3) in \<open>auto simp: older_job_def sql_less_def split: option.splits\<close>)
  qed
  moreover have "due (late_time jobs) j \<or> lease_expired (late_time jobs) j"
    using q split(1,2) late_time_ge [of j jobs]
    by (cases "ob_status j")
      (auto simp: due_def lease_expired_def finished_def queued_def leased_def)
  ultimately have "claimable_sqlite (late_time jobs) jobs j"
    by (auto simp: claimable_sqlite_def blocked_def)
  then show ?thesis using split(1) by auto
qed

lemma picked_nonempty:
  assumes "0 < n" "j \<in> set jobs" "P j"
  shows "picked P n jobs \<noteq> []"
proof -
  have "filter P jobs \<noteq> []" using assms(2,3) by (auto simp: filter_empty_conv)
  then have "0 < length (filter P jobs)" by blast
  then have "0 < length (picked P n jobs)" using assms(1) by (simp only: picked_def length_take length_sort min_less_iff_conj)
  then show ?thesis by blast
qed

definition unfinished :: "outbox_job list \<Rightarrow> nat" where
  "unfinished jobs = length (filter (\<lambda>j. \<not> finished j) jobs)"

text \<open>What a batch does to a table when no call fails.\<close>

definition settled :: "uuid set \<Rightarrow> outbox_job list \<Rightarrow> outbox_job list \<Rightarrow> bool" where
  "settled ids jobs jobs' \<longleftrightarrow>
     list_all2 (\<lambda>j j'. ob_id j' = ob_id j \<and> job_key j' = job_key j \<and> job_point j' = job_point j \<and>
       ob_status j' = (if ob_id j \<in> ids then Done else ob_status j)) jobs jobs'"

lemma settled_refl: "settled {} jobs jobs"
  by (simp add: settled_def list_all2_same)

lemma settled_trans:
  assumes "settled A xs ys" "settled B ys zs"
  shows "settled (A \<union> B) xs zs"
  using list_all2_trans [OF _ assms(1) [unfolded settled_def] assms(2) [unfolded settled_def]]
  by (auto simp: settled_def)

lemma settled_finish: "settled {i} jobs (map (finish_mark now i a m None) jobs)"
  by (auto simp: settled_def list_all2_conv_all_nth finish_status_cases)

lemma settled_claim:
  "ids = ob_id ` set (picked (claimable_sqlite now jobs) (oc_batch_size cfg) jobs) \<Longrightarrow>
   settled ids (map (claim_mark cfg now jobs) jobs) jobs' \<Longrightarrow> settled ids jobs jobs'"
  unfolding settled_def list_all2_map1 by (erule list_all2_mono) (auto simp: claim_mark_def)

lemma newest_settled: "settled ids jobs jobs' \<Longrightarrow> newest k jobs' x = newest k jobs x"
proof -
  have "settled ids jobs jobs' \<Longrightarrow> newest k jobs' x = newest k jobs x" for x
    unfolding settled_def
    by (induction arbitrary: x rule: list_all2_induct) (simp_all add: newest_def)
  then show "settled ids jobs jobs' \<Longrightarrow> ?thesis" .
qed

lemma settled_unfinished:
  assumes "settled ids jobs jobs'"
  shows "unfinished jobs' = length (filter (\<lambda>j. ob_id j \<notin> ids) (filter (\<lambda>j. \<not> finished j) jobs))"
  using assms unfolding settled_def unfinished_def
  by (induction rule: list_all2_induct) (auto simp: finished_def)

lemma settled_alive:
  "settled ids jobs jobs' \<Longrightarrow> \<forall>j\<in>set jobs. ob_status j \<noteq> Dead \<Longrightarrow> \<forall>j\<in>set jobs'. ob_status j \<noteq> Dead"
  unfolding settled_def by (induction rule: list_all2_induct) auto

context vector_index
begin

lemma process_healthy:
  assumes "queued jobs" "\<forall>(t, c)\<in>set work. held jobs c" "distinct (map (fst \<circ> snd) work)"
    and healthy: "\<And>i c p. i \<in> H \<Longrightarrow> fst (ups c p i) = Inr () \<and> snd (ups c p i) \<in> H" and "idx \<in> H"
  shows "let (jobs', idx') = process_claimed ups del cfg work (jobs, idx)
    in settled (fst ` snd ` set work) jobs jobs' \<and> idx' \<in> H"
  using assms(1,2,3,5)
proof (induction work arbitrary: jobs idx)
  case Nil
  then show ?case by (simp add: settled_refl)
next
  case (Cons w work)
  obtain now i m a where w: "w = (now, i, m, a)" by (cases w) auto
  then have h: "held jobs (i, m, a)" using Cons.prems(2) by simp
  obtain c p where m: "m = Upsert c p" by (rule held_upsert [OF Cons.prems(1) h])
  let ?jobs = "map (finish_mark now i a (oc_max_attempts cfg) None) jobs"
  have "\<forall>(t, c)\<in>set work. held ?jobs c"
  proof safe
    fix t i' m' a' assume x: "(t, i', m', a') \<in> set work"
    then have "i' \<noteq> i" using Cons.prems(3) w by force
    then show "held ?jobs (i', m', a')" using finish_held Cons.prems(2) x by fastforce
  qed
  then have IH: "let (jobs', idx') = process_claimed ups del cfg work (?jobs, snd (ups c p idx))
      in settled (fst ` snd ` set work) ?jobs jobs' \<and> idx' \<in> H"
    using Cons.prems(3) healthy [OF Cons.prems(4)]
    by (intro Cons.IH finish_queued [OF Cons.prems(1) h]) (simp_all add: comp_def)
  have u: "ups c p idx = (Inr (), snd (ups c p idx))"
    using healthy [OF Cons.prems(4), of c p] by (metis prod.collapse)
  have "process_claimed ups del cfg (w # work) (jobs, idx) = process_claimed ups del cfg work (?jobs, snd (ups c p idx))"
    by (subst w) (simp add: m apply_mutation_def finish_table, subst u, simp)
  moreover have "settled (fst ` snd ` set (w # work)) jobs jobs'"
    if "settled (fst ` snd ` set work) ?jobs jobs'" for jobs'
    using settled_trans [OF settled_finish [of i jobs now a "oc_max_attempts cfg"] that] w by simp
  ultimately show ?case using IH by (auto split: prod.splits)
qed

lemma late_batch_progress:
  assumes inv: "outbox_inv base (jobs, idx)" and batch: "0 < oc_batch_size cfg" and "idx \<in> H"
    and healthy: "\<And>i c p. i \<in> H \<Longrightarrow> fst (ups c p i) = Inr () \<and> snd (ups c p i) \<in> H"
    and dead: "\<forall>j\<in>set jobs. ob_status j \<noteq> Dead"
  shows "let (jobs', idx') = late_batch ups del cfg (jobs, idx)
    in outbox_inv base (jobs', idx') \<and> idx' \<in> H \<and> (\<forall>j\<in>set jobs'. ob_status j \<noteq> Dead) \<and>
       (\<forall>k x. newest k jobs' x = newest k jobs x) \<and>
       (unfinished jobs' < unfinished jobs \<or> unfinished jobs = 0 \<and> unfinished jobs' = 0)"
proof -
  let ?t = "late_time jobs"
  have q: "queued jobs" using inv by (simp add: outbox_inv_def)
  obtain cs jobs1 where cl: "claim_by claimable_sqlite cfg ?t jobs = (cs, jobs1)" by fastforce
  then have jobs1: "jobs1 = map (claim_mark cfg ?t jobs) jobs" using claim_table [of cfg ?t jobs] by simp
  let ?work = "map (Pair ?t) cs"
  let ?ids = "ob_id ` set (picked (claimable_sqlite ?t jobs) (oc_batch_size cfg) jobs)"
  obtain jobs' idx' where pc: "process_claimed ups del cfg ?work (jobs1, idx) = (jobs', idx')" by fastforce
  have late: "late_batch ups del cfg (jobs, idx) = (jobs', idx')"
    using cl pc by (simp add: late_batch_def process_batch_def)
  have "late_batch ups del cfg (jobs, idx) = crashing_batch ups del cfg ?t (map (Pair ?t)) (length cs) False (jobs, idx)"
    using cl by (simp add: late_batch_def whole_batch Let_def)
  then have crash: "crashing_batch ups del cfg ?t (map (Pair ?t)) (length cs) False (jobs, idx) = (jobs', idx')"
    using late by (rule trans [OF sym])
  have "rearranges (map (Pair ?t))" by (simp add: rearranges_def comp_def)
  then have "let (jobs', idx') = crashing_batch ups del cfg ?t (map (Pair ?t)) (length cs) False (jobs, idx)
      in queued jobs' \<and> tracks base (look idx') jobs'"
    using inv by (intro batch_tracks) (simp_all add: outbox_inv_def)
  then have inv': "outbox_inv base (jobs', idx')"
    unfolding crash by (simp add: outbox_inv_def)
  have ids: "fst ` set cs = ?ids"
    using claimed_ids [of cfg ?t jobs] cl by simp
  have "settled (fst ` snd ` set ?work) jobs1 jobs' \<and> idx' \<in> H"
    using process_healthy [of jobs1 ?work H idx cfg] healthy \<open>idx \<in> H\<close> pc claim_queued [OF q] jobs1
      claimed_held [OF q, of _ cfg ?t] claimed_distinct [OF q, of cfg ?t] cl
    by (simp add: comp_def)
  then have st: "settled ?ids jobs jobs'" "idx' \<in> H"
    using settled_claim [OF refl, of ?t jobs cfg jobs'] jobs1 ids by (simp_all add: image_image)
  have less: "unfinished jobs' < unfinished jobs" if nz: "unfinished jobs \<noteq> 0"
  proof -
    obtain x where "x \<in> set jobs" "\<not> finished x" using nz by (auto simp: unfinished_def filter_empty_conv)
    then obtain j where j: "j \<in> set jobs" "claimable_sqlite ?t jobs j" using something_claimable [OF q] by blast
    have "picked (claimable_sqlite ?t jobs) (oc_batch_size cfg) jobs \<noteq> []" by (rule picked_nonempty [where P = "claimable_sqlite ?t jobs" and j = j, OF batch j])
    then obtain y where y: "y \<in> set (picked (claimable_sqlite ?t jobs) (oc_batch_size cfg) jobs)"
      by (meson list.set_sel(1))
    then have "y \<in> set (filter (\<lambda>j. \<not> finished j) jobs)"
      using picked_subset [of "claimable_sqlite ?t jobs" "oc_batch_size cfg" jobs] claimable_finished by fastforce
    then show ?thesis
      using length_filter_less [of y "filter (\<lambda>j. \<not> finished j) jobs" "\<lambda>j. ob_id j \<notin> ?ids"] y
      unfolding settled_unfinished [OF st(1)] by (simp only: unfinished_def) blast
  qed
  have dead': "\<forall>j\<in>set jobs'. ob_status j \<noteq> Dead"
    using settled_alive [OF st(1)] dead by blast
  have "unfinished jobs' = 0" if "unfinished jobs = 0"
    using that settled_unfinished [OF st(1)] by (simp add: unfinished_def)
  then show ?thesis
    using late inv' st less dead' newest_settled [OF st(1)] by auto
qed

lemma drained:
  assumes "outbox_inv base st" "0 < oc_batch_size cfg" "snd st \<in> H"
    and healthy: "\<And>i c p. i \<in> H \<Longrightarrow> fst (ups c p i) = Inr () \<and> snd (ups c p i) \<in> H"
    and "\<forall>j\<in>set (fst st). ob_status j \<noteq> Dead" "unfinished (fst st) \<le> n"
  shows "let st' = (late_batch ups del cfg ^^ n) st
    in (\<forall>j\<in>set (fst st'). ob_status j = Done) \<and> (\<forall>k. look (snd st') k = newest k (fst st) (base k))"
  using assms(1,3,5,6)
proof (induction n arbitrary: st)
  case 0
  then have done_all: "\<forall>j\<in>set (fst st). ob_status j = Done"
    by (auto simp: unfinished_def filter_empty_conv finished_def)
  have "look (snd st) k = newest k (fst st) (base k)" for k
    using tracksD [of base "look (snd st)" "fst st" k] 0(1) possible_done [OF done_all, of k "base k"]
    by (simp add: outbox_inv_def)
  then show ?case using done_all by simp
next
  case (Suc n)
  obtain jobs idx where st: "st = (jobs, idx)" by fastforce
  obtain jobs' idx' where lb: "late_batch ups del cfg (jobs, idx) = (jobs', idx')" by fastforce
  have step: "outbox_inv base (jobs', idx')" "idx' \<in> H" "\<forall>j\<in>set jobs'. ob_status j \<noteq> Dead"
    "\<forall>k x. newest k jobs' x = newest k jobs x" "unfinished jobs' \<le> n"
    using late_batch_progress [of base jobs idx cfg H] Suc.prems st lb assms(2) healthy by auto
  then show ?case
    using Suc.IH [of "(jobs', idx')"] st lb by (simp add: funpow_Suc_right del: funpow.simps)
qed

end

section \<open>A history\<close>

definition example_point :: "string \<Rightarrow> index_point" where
  "example_point v =
     \<lparr>pt_uri = note_uri [''a'', ''x''], pt_vector = [0x3F800000], pt_model_id = None, pt_dim = Some 1,
      pt_version = None, pt_payload = JObject [(''mvcc_version'', JNumber v)]\<rparr>"

definition example_ops :: "outbox_op list" where
  "example_ops =
     [QueuePoint 1 1 ''c'' (example_point ''1''), RunBatch 2 (map (Pair 2)) 9 False,
      QueuePoint 2 3 ''c'' (example_point ''2''), RunBatch (10 ^ 11) (map (Pair (10 ^ 11))) 0 True]"

text \<open>The first upsert fails; the worker then crashes in the middle of the retry.\<close>

definition example_state :: "outbox_job list \<times> test_index" where
  "example_state = fold (outbox_step test_upsert test_delete default_outbox_config) example_ops
     ([], test_index_failing 1)"

lemma rearranges_pair [simp]: "rearranges (map (Pair t))"
  by (simp add: rearranges_def comp_def)

lemma queue_ok_code:
  "outbox_ok (QueuePoint i now c p) st \<longleftrightarrow>
     (case point_order p of
        None \<Rightarrow> False
      | Some v \<Rightarrow> list_all (\<lambda>j. ob_id j \<noteq> i \<and> (ob_uri j = u_canonical (pt_uri p) \<longrightarrow>
          ob_created_at j < now \<and> (case ob_version j of Some w \<Rightarrow> w \<le> v | None \<Rightarrow> False))) (fst st))"
  by (auto simp: list_all_iff split: option.splits)

lemma example_ok: "mem.outbox.ok_run default_outbox_config example_ops ([], test_index_failing 1)"
  unfolding example_ops_def mem.outbox.ok_run.simps outbox_ok.simps(2) queue_ok_code
  by (simp only: rearranges_pair simp_thms) code_simp

lemma example_run:
  "mem.outbox.run default_outbox_config example_ops ([], test_index_failing 1) = example_state"
  by (simp add: example_state_def example_ops_def del: outbox_step.simps)

text \<open>The job of the first version is in the middle of its second attempt.\<close>

lemma example_jobs:
  "map ob_status (fst example_state) = [Processing, Pending]"
  "map ob_attempts (fst example_state) = [2, 0]"
  "ti_failures (snd example_state) = 0"
  by code_simp+

text \<open>Two more batches, late enough for the lease to expire.\<close>

definition example_tail :: "outbox_op list" where
  "example_tail = example_ops @ [RunBatch (10 ^ 12) (map (Pair (10 ^ 12))) 9 False,
     RunBatch (2 * 10 ^ 12) (map (Pair (2 * 10 ^ 12))) 9 False]"

definition example_final :: "outbox_job list \<times> test_index" where
  "example_final = fold (outbox_step test_upsert test_delete default_outbox_config) example_tail
     ([], test_index_failing 1)"

lemma example_tail_ok: "mem.outbox.ok_run default_outbox_config example_tail ([], test_index_failing 1)"
  unfolding example_tail_def example_ops_def append.simps mem.outbox.ok_run.simps outbox_ok.simps(2) queue_ok_code
  by (simp only: rearranges_pair simp_thms) code_simp

lemma example_tail_run:
  "mem.outbox.run default_outbox_config example_tail ([], test_index_failing 1) = example_final"
  by (simp add: example_final_def example_tail_def example_ops_def del: outbox_step.simps)

lemma example_done:
  "map ob_status (fst example_final) = [Done, Done]"
  "map job_point (filter (\<lambda>j. job_key j = (''c'', note_uri [''a'', ''x''])) (fst example_final)) =
     [example_point ''1'', example_point ''2'']"
  by code_simp+

section \<open>Properties\<close>

lemma newest_last:
  "newest k jobs x =
     (let js = filter (\<lambda>j. job_key j = k) jobs in if js = [] then x else Some (job_point (last js)))"
  by (induction jobs rule: rev_induct) (auto simp: newest_def Let_def)

lemma turn_versions:
  assumes "queued jobs" "js = filter (\<lambda>j. job_key j = k) jobs" "j \<in> set js"
  shows "\<exists>v w. ob_version j = Some v \<and> ob_version (last js) = Some w \<and> v \<le> w \<or> j = last js"
proof (cases "j = last js")
  case False
  have "sorted_wrt in_turn js" using assms(1,2) by (simp add: queued_def sorted_wrt_filter)
  moreover obtain xs ys where js: "js = xs @ j # ys" using assms(3) by (meson split_list)
  ultimately have "\<forall>y\<in>set ys. in_turn j y" by (simp add: sorted_wrt_append)
  moreover have "ys \<noteq> []" "last js = last ys" using js False by auto
  ultimately have turn: "in_turn j (last js)" by simp
  have "last js \<in> set js" using assms(3) by (cases js) auto
  then have "job_key (last js) = job_key j" "upsert_job (last js)" "upsert_job j"
    using assms by (simp_all add: queued_def list_all_iff)
  then have "ob_uri (last js) = ob_uri j" using same_key_same_uri by blast
  then show ?thesis using turn unfolding in_turn_def by simp
qed simp

text \<open>C24: the index converges, in histories of one worker in which upserts of single points that carry a
  version are queued under new job numbers and, for each address, at growing times and with versions
  that do not fall. Whatever calls fail, with or without
  effect, and wherever the worker crashes, once every job is done the index holds at each address the
  point of the last, that is the highest, version queued, and where nothing was queued what it held
  before. The index is any that has the effect it reports. (With deletions among the jobs it need not
  converge: \<open>delete_resurrects\<close>.)\<close>

theorem outbox_converges:
  assumes "vector_index ups del look"
    and "op_system.ok_run (outbox_step ups del cfg) outbox_ok ops ([], idx)"
    and "op_system.run (outbox_step ups del cfg) ops ([], idx) = (jobs, idx')"
    and "\<forall>j\<in>set jobs. ob_status j = Done"
  shows "let js = filter (\<lambda>j. job_key j = k) jobs
    in look idx' k = (if js = [] then look idx k else Some (job_point (last js))) \<and>
       (\<forall>j\<in>set js. the (ob_version j) \<le> the (ob_version (last js)))"
proof -
  have "vector_index.outbox_inv look (look idx) (jobs, idx')"
    by (rule vector_index.outbox_reached [OF assms(1-3)])
  then have "queued jobs" by (simp add: vector_index.outbox_inv_def [OF assms(1)])
  then show ?thesis
    using vector_index.outbox_settled [OF assms, of k] turn_versions [of jobs _ k]
    by (fastforce simp: newest_last Let_def)
qed

theorem outbox_converges_witness:
  "let (jobs, idx) = mem.outbox.run default_outbox_config example_tail ([], test_index_failing 1)
   in map ob_status jobs = [Done, Done] \<and>
      test_lookup idx (''c'', note_uri [''a'', ''x'']) = Some (example_point ''2'')"
proof -
  obtain jobs idx where run:
    "mem.outbox.run default_outbox_config example_tail ([], test_index_failing 1) = (jobs, idx)" by fastforce
  have "example_final = (jobs, idx)" by (rule trans [OF example_tail_run [symmetric] run])
  then have st: "fst example_final = jobs" by (rule arg_cong [of _ "(jobs, idx)" fst, simplified])
  have all: "map ob_status jobs = [Done, Done]" using example_done(1) st by simp
  then have "\<forall>j\<in>set jobs. ob_status j = Done" by (auto simp: map_eq_Cons_conv)
  moreover have "map job_point (filter (\<lambda>j. job_key j = (''c'', note_uri [''a'', ''x''])) jobs) =
      [example_point ''1'', example_point ''2'']"
    using example_done(2) st by simp
  ultimately show ?thesis
    using outbox_converges [OF mem.vector_index_axioms example_tail_ok run, of "(''c'', note_uri [''a'', ''x''])"]
      run all by (auto simp: Let_def map_eq_Cons_conv)
qed

text \<open>C25: no job is stuck. From any state of such a history (one worker, upserts of points, for each address
  at growing times and with versions that do not fall; after failures and crashes too) in which no job has been given up, as many batches as there
  are jobs, each run when retries and leases are due, do every job and leave the newest points,
  provided the index no longer fails.\<close>

theorem outbox_drains:
  assumes "vector_index ups del look"
    and "op_system.ok_run (outbox_step ups del cfg) outbox_ok ops ([], idx)"
    and "op_system.run (outbox_step ups del cfg) ops ([], idx) = (jobs, idx1)"
    and "\<forall>j\<in>set jobs. ob_status j \<noteq> Dead" "0 < oc_batch_size cfg" "length jobs \<le> n"
    and "idx1 \<in> H" "\<And>i c p. i \<in> H \<Longrightarrow> fst (ups c p i) = Inr () \<and> snd (ups c p i) \<in> H"
  shows "let (jobs', idx') = (late_batch ups del cfg ^^ n) (jobs, idx1)
    in (\<forall>j\<in>set jobs'. ob_status j = Done) \<and> (\<forall>k. look idx' k = newest k jobs (look idx k))"
proof -
  have "vector_index.outbox_inv look (look idx) (jobs, idx1)"
    by (rule vector_index.outbox_reached [OF assms(1-3)])
  moreover have "unfinished jobs \<le> n"
    unfolding unfinished_def by (rule order_trans [OF length_filter_le assms(6)])
  ultimately show ?thesis
    using vector_index.drained [OF assms(1), of "look idx" "(jobs, idx1)" cfg H n] assms(4,5,7,8)
    by (auto simp: Let_def split: prod.splits)
qed

theorem outbox_drains_witness:
  "let (jobs, idx) = (late_batch test_upsert test_delete default_outbox_config ^^ 2) example_state
   in list_all (\<lambda>j. ob_status j = Done) jobs \<and>
      test_lookup idx (''c'', note_uri [''a'', ''x'']) = Some (example_point ''2'')"
proof -
  obtain jobs idx1 where st: "example_state = (jobs, idx1)" by fastforce
  obtain jobs2 idx2 where st2:
    "(late_batch test_upsert test_delete default_outbox_config ^^ 2) (jobs, idx1) = (jobs2, idx2)" by fastforce
  have alive: "\<forall>j\<in>set jobs. ob_status j \<noteq> Dead"
  proof -
    have "map ob_status jobs = [Processing, Pending]" by (rule example_jobs(1) [unfolded st fst_conv])
    then show ?thesis by (auto simp: map_eq_Cons_conv)
  qed
  have len: "length jobs \<le> 2" using arg_cong [OF example_jobs(1) [unfolded st fst_conv], of length] by simp
  have batch: "0 < oc_batch_size default_outbox_config" by (simp add: default_outbox_config_def)
  have "newest (''c'', note_uri [''a'', ''x'']) (fst example_state) None = Some (example_point ''2'')"
    by code_simp
  moreover have "let (jobs2, idx2) = (late_batch test_upsert test_delete default_outbox_config ^^ 2) (jobs, idx1)
    in (\<forall>j\<in>set jobs2. ob_status j = Done) \<and>
       (\<forall>k. test_lookup idx2 k = newest k jobs (test_lookup (test_index_failing 1) k))"
    by (rule outbox_drains [OF mem.vector_index_axioms example_ok
          trans [OF example_run st] alive batch len, of "{i. ti_failures i = 0}"])
      (use example_jobs(3) [unfolded st snd_conv] in \<open>simp_all add: test_upsert_def\<close>)
  moreover have "test_lookup (test_index_failing 1) k = None" for k
    by (simp add: test_lookup_def test_index_failing_def hm_simps)
  ultimately show ?thesis unfolding st st2 fst_conv by (auto simp: list_all_iff)
qed

section \<open>What the histories leave out\<close>

text \<open>A deletion is queued without a version, so it waits for no upsert and none waits for it: an
  upsert that failed is tried again after the deletion and brings the point back.\<close>

lemma delete_resurrects:
  "let k = (''c'', note_uri [''a'', ''x'']);
       run = (\<lambda>t. process_batch test_upsert test_delete claimable_sqlite default_outbox_config t (map (Pair t)));
       (jobs1, idx1) = run 2 (enqueue 1 1 (Upsert ''c'' (example_point ''1'')) [], test_index_failing 1);
       (jobs2, idx2) = run 4 (enqueue 2 3 (Delete ''c'' (snd k)) jobs1, idx1);
       (jobs3, idx3) = run (10 ^ 11) (jobs2, idx2)
   in map ob_status jobs3 = [Done, Done] \<and> test_lookup idx2 k = None \<and>
      test_lookup idx3 k = Some (example_point ''1'')"
  by code_simp

text \<open>The PostgreSQL statement guards only the jobs whose lease has expired: a failed upsert is tried
  again after that of a later version and overwrites it.\<close>

lemma pg_overwrites:
  "let k = (''c'', note_uri [''a'', ''x'']);
       run = (\<lambda>t. process_batch test_upsert test_delete claimable_pg default_outbox_config t (map (Pair t)));
       (jobs1, idx1) = run 2 (enqueue 1 1 (Upsert ''c'' (example_point ''1'')) [], test_index_failing 1);
       (jobs2, idx2) = run 4 (enqueue 2 3 (Upsert ''c'' (example_point ''2'')) jobs1, idx1);
       (jobs3, idx3) = run (10 ^ 11) (jobs2, idx2)
   in map ob_status jobs3 = [Done, Done] \<and> test_lookup idx2 k = Some (example_point ''2'') \<and>
      test_lookup idx3 k = Some (example_point ''1'')"
  by code_simp

end
