(* ===== verification/Sqlite_Tables.thy ===== *)
theory Sqlite_Tables
  imports Context_Store Index_Outbox
begin

text \<open>
  The SQLite content store, crates/context-db-storage/src/sqlite.rs, with the batch preparation of
  crates/context-db-storage/src/graph.rs: the tables and the transactions that change them. A table is
  a map from its primary key to the other columns. A transaction body returns an error or a value and
  the next database; an error leaves the database as it was. The JSON text of an entry stands as the
  entry itself. The parameters of a database are collected in a record: the uuid crate's text forms,
  the JSON printer, the conversion to vectors, the length of the JSON text of an entry, the
  database's own error messages and SQLite's function \<open>json\<close> on a text.
\<close>

section \<open>Tables\<close>

record sql_env =
  se_uuid_parse :: "string \<Rightarrow> uuid option"
  se_uuid_display :: "uuid \<Rightarrow> string"
  se_js :: "json \<Rightarrow> string"
  se_vec :: "json \<Rightarrow> context_error + f32_bits list"
  se_size :: "context_entry \<Rightarrow> nat"
  se_error :: "string \<Rightarrow> string"
  se_json :: "string \<Rightarrow> string option"

record entry_row =
  er_tenant :: string
  er_l0 :: string
  er_l1 :: "string option"
  er_l2 :: string
  er_content_type :: string
  er_state_scope :: "string option"
  er_tags :: string
  er_custom :: string
  er_entry :: context_entry
  er_version :: nat
  er_created_at :: datetime
  er_updated_at :: datetime

record version_row =
  hv_l0 :: string
  hv_entry :: context_entry
  hv_created_at :: datetime

record mutation_row =
  gm_operation :: string
  gm_from :: "string option"
  gm_to :: "string option"
  gm_created_at :: datetime

record blob_row =
  bl_data :: string
  bl_mime_type :: string
  bl_size :: nat
  bl_created_at :: datetime

record sqlite_db =
  db_entries :: "(string, entry_row) hmap"
  db_versions :: "(string \<times> nat, version_row) hmap"
  db_relations :: "(string \<times> string \<times> graph_relation, datetime) hmap"
  db_revisions :: "(string, nat) hmap"
  db_mutations :: "(string \<times> nat, mutation_row) hmap"
  db_jobs :: "outbox_job list"
  db_blobs :: "(string, blob_row) hmap"

definition sqlite_empty :: sqlite_db where
  "sqlite_empty = \<lparr>db_entries = [], db_versions = [], db_relations = [], db_revisions = [],
     db_mutations = [], db_jobs = [], db_blobs = []\<rparr>"

type_synonym 'a tx = "sqlite_db \<Rightarrow> context_error + 'a \<times> sqlite_db"

definition in_transaction :: "'a tx \<Rightarrow> sqlite_db \<Rightarrow> (context_error + 'a) \<times> sqlite_db" where
  "in_transaction body db =
     (case body db of Inl e \<Rightarrow> (Inl e, db) | Inr (x, db') \<Rightarrow> (Inr x, db'))"

text \<open>The largest SQLite integer; a sum beyond it is no integer any more.\<close>

definition SQL_MAX :: nat where
  "SQL_MAX = 9223372036854775807"

definition storage_err :: "sql_env \<Rightarrow> string \<Rightarrow> context_error" where
  "storage_err env op = Storage (op @ '' failed: '' @ se_error env op)"

definition version_to_sql :: "mvcc_version \<Rightarrow> context_error + nat" where
  "version_to_sql v =
     (let n = version_number v
      in if n \<le> SQL_MAX then Inr n
         else Inl (VersionConflict (''version '' @ show_nat n @ '' exceeds the SQLite INTEGER range'')))"

definition version_from_sql :: "nat \<Rightarrow> mvcc_version" where
  "version_from_sql n = MvccVersion (of_nat n)"

fun state_scope_name :: "state_scope \<Rightarrow> string" where
  "state_scope_name ScopeShort = ''short''"
| "state_scope_name ScopeMid = ''mid''"
| "state_scope_name ScopeLong = ''long''"

definition payload_levels :: "sql_env \<Rightarrow> content_payload \<Rightarrow> string \<times> string option \<times> string" where
  "payload_levels env p = (let q = index_projection (se_js env) p in (ip_l0 q, ip_l1 q, ip_l2 q))"

definition content_type_column :: "context_entry \<Rightarrow> string" where
  "content_type_column e =
     as_path_segment (case m_content_type (e_metadata e) of Some c \<Rightarrow> c | None \<Rightarrow> CT_Evidence)"

definition tags_column :: "sql_env \<Rightarrow> context_entry \<Rightarrow> string" where
  "tags_column env e = se_js env (JArray (map JString (m_tags (e_metadata e))))"

definition scope_column :: "context_entry \<Rightarrow> string option" where
  "scope_column e = map_option state_scope_name (m_state_scope (e_metadata e))"

section \<open>Writing\<close>

definition insert_version :: "sql_env \<Rightarrow> string \<Rightarrow> string \<Rightarrow> nat \<Rightarrow> version_row \<Rightarrow> unit tx" where
  "insert_version env op uri v row db =
     (if hhas (db_versions db) (uri, v) then Inl (storage_err env op)
      else Inr ((), db\<lparr>db_versions := hput (uri, v) row (db_versions db)\<rparr>))"

text \<open>The row under an address after an upsert: the version counts on, the creation stays.\<close>

definition write_in_tx :: "sql_env \<Rightarrow> datetime \<Rightarrow> context_entry \<Rightarrow> mvcc_version tx" where
  "write_in_tx env now e db =
     (case validate_tenant_binding (se_uuid_parse env) (se_uuid_display env) e of
        Inl err \<Rightarrow> Inl err
      | Inr _ \<Rightarrow>
     (case sanitize_entry_for_write e of
        Inl err \<Rightarrow> Inl err
      | Inr e1 \<Rightarrow>
          (let uri = u_canonical (e_uri e1);
               (l0, l1, l2) = payload_levels env (e_payload e1);
               old = hget (db_entries db) uri;
               v = (case old of Some r \<Rightarrow> er_version r + 1 | None \<Rightarrow> 1);
               entry = e1\<lparr>e_updated_at := now, e_mvcc_version := version_from_sql v\<rparr>;
               row = \<lparr>er_tenant = se_uuid_display env (tenant_uuid (e_tenant e1)),
                      er_l0 = l0, er_l1 = l1, er_l2 = l2,
                      er_content_type = content_type_column e1, er_state_scope = scope_column e1,
                      er_tags = tags_column env e1, er_custom = se_js env (m_custom (e_metadata e1)),
                      er_entry = entry, er_version = v,
                      er_created_at = (case old of Some r \<Rightarrow> er_created_at r | None \<Rightarrow> e_created_at e1),
                      er_updated_at = now\<rparr>
           in if SQL_MAX < v then Inl (storage_err env ''write entry'')
              else case insert_version env ''write version'' uri v
                          \<lparr>hv_l0 = l0, hv_entry = entry, hv_created_at = now\<rparr>
                          (db\<lparr>db_entries := hput uri row (db_entries db)\<rparr>) of
                     Inl err \<Rightarrow> Inl err
                   | Inr (_, db') \<Rightarrow> Inr (version_from_sql v, db'))))"

definition enqueue_sqlite :: "uuid \<Rightarrow> datetime \<Rightarrow> index_mutation \<Rightarrow> sqlite_db \<Rightarrow> sqlite_db" where
  "enqueue_sqlite fresh now m db = db\<lparr>db_jobs := enqueue fresh now m (db_jobs db)\<rparr>"

text \<open>\<open>write\<close> queues the point of the entry as it came; \<open>now\<close> and \<open>queued\<close> are the clock
  readings of the two statements.\<close>

definition queue_upsert ::
    "sql_env \<Rightarrow> uuid \<Rightarrow> datetime \<Rightarrow> context_entry \<Rightarrow> mvcc_version \<Rightarrow> unit tx" where
  "queue_upsert env fresh queued e v db =
     (case upsert_mutation (se_vec env) e v of
        Inl err \<Rightarrow> Inl err
      | Inr None \<Rightarrow> Inr ((), db)
      | Inr (Some m) \<Rightarrow> Inr ((), enqueue_sqlite fresh queued m db))"

definition sql_write_body ::
    "sql_env \<Rightarrow> datetime \<Rightarrow> uuid \<Rightarrow> datetime \<Rightarrow> context_entry \<Rightarrow> mvcc_version tx" where
  "sql_write_body env now fresh queued e db =
     (case write_in_tx env now e db of
        Inl err \<Rightarrow> Inl err
      | Inr (v, db1) \<Rightarrow>
          (case queue_upsert env fresh queued e v db1 of
             Inl err \<Rightarrow> Inl err
           | Inr (_, db2) \<Rightarrow> Inr (v, db2)))"

definition sql_write ::
    "sql_env \<Rightarrow> datetime \<Rightarrow> uuid \<Rightarrow> datetime \<Rightarrow> context_entry \<Rightarrow> sqlite_db
     \<Rightarrow> (context_error + mvcc_version) \<times> sqlite_db" where
  "sql_write env now fresh queued e = in_transaction (sql_write_body env now fresh queued e)"

section \<open>Deleting\<close>

definition bump_graph_revision ::
    "sql_env \<Rightarrow> datetime \<Rightarrow> string \<Rightarrow> string \<Rightarrow> string option \<Rightarrow> string option \<Rightarrow> nat tx" where
  "bump_graph_revision env now scope operation from to db =
     (let revision = (case hget (db_revisions db) scope of Some n \<Rightarrow> n + 1 | None \<Rightarrow> 1)
      in if SQL_MAX < revision then Inl (storage_err env ''bump graph revision'')
         else if hhas (db_mutations db) (scope, revision) then Inl (storage_err env ''log graph mutation'')
         else Inr (revision, db\<lparr>db_revisions := hput scope revision (db_revisions db),
           db_mutations := hput (scope, revision)
             \<lparr>gm_operation = operation, gm_from = from, gm_to = to, gm_created_at = now\<rparr>
             (db_mutations db)\<rparr>))"

definition bump_if ::
    "sql_env \<Rightarrow> bool \<Rightarrow> datetime \<Rightarrow> string \<Rightarrow> string \<Rightarrow> string option \<Rightarrow> string option \<Rightarrow> unit tx" where
  "bump_if env changed now scope operation from to db =
     (if changed
      then (case bump_graph_revision env now scope operation from to db of
              Inl err \<Rightarrow> Inl err
            | Inr (_, db') \<Rightarrow> Inr ((), db'))
      else Inr ((), db))"

text \<open>The rows of \<open>context_versions\<close> under an address, by version.\<close>

definition versions_under :: "sqlite_db \<Rightarrow> string \<Rightarrow> (nat \<times> version_row) list" where
  "versions_under db uri =
     sort_key fst (map (\<lambda>((u, v), row). (v, row)) (filter (\<lambda>((u, v), row). u = uri) (db_versions db)))"

definition newest_version :: "sqlite_db \<Rightarrow> string \<Rightarrow> version_row option" where
  "newest_version db uri =
     (let vs = versions_under db uri in if vs = [] then None else Some (snd (last vs)))"

definition touches :: "string \<Rightarrow> (string \<times> string \<times> graph_relation) \<times> datetime \<Rightarrow> bool" where
  "touches uri = (\<lambda>((f, t, k), created). f = uri \<or> t = uri)"

definition sql_delete_body :: "sql_env \<Rightarrow> uuid \<Rightarrow> datetime \<Rightarrow> datetime \<Rightarrow> context_uri \<Rightarrow> unit tx" where
  "sql_delete_body env fresh queued now uri db =
     (let key = u_canonical uri
      in if \<not> hhas (db_entries db) key then Inl (NotFound key)
         else
           let collection = (case newest_version db key of
                 Some row \<Rightarrow> collection_from_entry (hv_entry row) | None \<Rightarrow> DEFAULT_COLLECTION);
               db1 = enqueue_sqlite fresh queued (Delete collection uri)
                 (db\<lparr>db_entries := hdel key (db_entries db)\<rparr>);
               db2 = db1\<lparr>db_versions := filter (\<lambda>((u, v), row). u \<noteq> key) (db_versions db1)\<rparr>;
               changed = (\<exists>r\<in>set (db_relations db2). touches key r);
               db3 = db2\<lparr>db_relations := filter (\<lambda>r. \<not> touches key r) (db_relations db2)\<rparr>
           in bump_if env changed now (u_tenant uri) ''delete'' (Some key) None db3)"

definition sql_delete ::
    "sql_env \<Rightarrow> uuid \<Rightarrow> datetime \<Rightarrow> datetime \<Rightarrow> context_uri \<Rightarrow> sqlite_db \<Rightarrow> (context_error + unit) \<times> sqlite_db" where
  "sql_delete env fresh queued now uri = in_transaction (sql_delete_body env fresh queued now uri)"

section \<open>Renaming\<close>

text \<open>\<open>UPDATE .. SET uri = ?\<close> fails on a row that has the new key already.\<close>

definition rename_entry_row ::
    "sql_env \<Rightarrow> string \<Rightarrow> string \<Rightarrow> (entry_row \<Rightarrow> entry_row) \<Rightarrow> unit tx" where
  "rename_entry_row env from to f db =
     (case hget (db_entries db) from of
        None \<Rightarrow> Inr ((), db)
      | Some row \<Rightarrow>
          (if to \<noteq> from \<and> hhas (db_entries db) to then Inl (storage_err env ''rename'')
           else Inr ((), db\<lparr>db_entries := hput to (f row) (hdel from (db_entries db))\<rparr>)))"

fun rename_versions ::
    "sql_env \<Rightarrow> string \<Rightarrow> context_uri \<Rightarrow> (nat \<times> version_row) list \<Rightarrow> unit tx" where
  "rename_versions env from to [] db = Inr ((), db)"
| "rename_versions env from to ((v, row) # rest) db =
     (let key = u_canonical to
      in if key \<noteq> from \<and> hhas (db_versions db) (key, v) then Inl (storage_err env ''rename version'')
         else rename_versions env from to rest
           (db\<lparr>db_versions := hput (key, v) (row\<lparr>hv_entry := (hv_entry row)\<lparr>e_uri := to\<rparr>\<rparr>)
              (hdel (from, v) (db_versions db))\<rparr>))"

definition moved :: "string \<Rightarrow> string \<Rightarrow> string \<Rightarrow> string" where
  "moved from to x = (if x = from then to else x)"

text \<open>\<open>INSERT OR IGNORE\<close>.\<close>

definition insert_relation ::
    "(string \<times> string \<times> graph_relation) \<times> datetime
     \<Rightarrow> (string \<times> string \<times> graph_relation, datetime) hmap
     \<Rightarrow> (string \<times> string \<times> graph_relation, datetime) hmap" where
  "insert_relation r rels = (if hhas rels (fst r) then rels else hput (fst r) (snd r) rels)"

definition rename_relations :: "string \<Rightarrow> string \<Rightarrow> sqlite_db \<Rightarrow> sqlite_db" where
  "rename_relations from to db =
     (let touched = filter (touches from) (db_relations db);
          kept = filter (\<lambda>r. \<not> touches from r) (db_relations db)
      in db\<lparr>db_relations :=
           fold (\<lambda>((f, t, k), created). insert_relation ((moved from to f, moved from to t, k), created))
             touched kept\<rparr>)"

definition cross_tenant :: "context_uri \<Rightarrow> context_uri \<Rightarrow> context_error" where
  "cross_tenant from to =
     PermissionDenied (''cross-tenant rename is not allowed: '' @ u_tenant from @ '' -> '' @ u_tenant to)"

definition sql_rename_body ::
    "sql_env \<Rightarrow> datetime \<Rightarrow> datetime \<Rightarrow> uuid \<Rightarrow> datetime \<Rightarrow> context_uri \<Rightarrow> context_uri \<Rightarrow> unit tx" where
  "sql_rename_body env now bumped fresh queued from to db =
     (let f = u_canonical from; t = u_canonical to in
      case hget (db_entries db) f of
        None \<Rightarrow> Inl (NotFound f)
      | Some old \<Rightarrow>
     (let entry = (er_entry old)\<lparr>e_uri := to, e_updated_at := now\<rparr> in
      case rename_entry_row env f t (\<lambda>r. r\<lparr>er_entry := entry, er_updated_at := now\<rparr>) db of
        Inl err \<Rightarrow> Inl err
      | Inr (_, db1) \<Rightarrow>
     (case rename_versions env f to (versions_under db1 f) db1 of
        Inl err \<Rightarrow> Inl err
      | Inr (_, db2) \<Rightarrow>
     (case bump_if env (\<exists>r\<in>set (db_relations db2). touches f r) bumped (u_tenant from) ''rename''
             (Some f) (Some t) (rename_relations f t db2) of
        Inl err \<Rightarrow> Inl err
      | Inr (_, db3) \<Rightarrow>
     (case point_from_entry (se_vec env) entry of
        Inl err \<Rightarrow> Inl err
      | Inr point \<Rightarrow>
          Inr ((), enqueue_sqlite fresh queued (Rename (collection_from_entry entry) from point) db3))))))"

definition sql_rename ::
    "sql_env \<Rightarrow> datetime \<Rightarrow> datetime \<Rightarrow> uuid \<Rightarrow> datetime \<Rightarrow> context_uri \<Rightarrow> context_uri \<Rightarrow> sqlite_db
     \<Rightarrow> (context_error + unit) \<times> sqlite_db" where
  "sql_rename env now bumped fresh queued from to db =
     (if u_tenant from \<noteq> u_tenant to then (Inl (cross_tenant from to), db)
      else in_transaction (sql_rename_body env now bumped fresh queued from to) db)"

section \<open>Rolling back\<close>

definition no_version :: "mvcc_version \<Rightarrow> context_uri \<Rightarrow> context_error" where
  "no_version v uri =
     VersionConflict (''no version '' @ show_nat (version_number v) @ '' for '' @ u_canonical uri)"

definition sql_rollback_body ::
    "sql_env \<Rightarrow> datetime \<Rightarrow> uuid \<Rightarrow> datetime \<Rightarrow> context_uri \<Rightarrow> mvcc_version \<Rightarrow> unit tx" where
  "sql_rollback_body env now fresh queued uri to db =
     (let key = u_canonical uri in
      case version_to_sql to of
        Inl err \<Rightarrow> Inl err
      | Inr v \<Rightarrow>
     (case hget (db_versions db) (key, v) of
        None \<Rightarrow> Inl (no_version to uri)
      | Some row \<Rightarrow>
     (let entry = (hv_entry row)\<lparr>e_uri := uri\<rparr> in
      if \<not> hhas (db_entries db) key then Inl (NotFound key)
      else case sql_write_body env now fresh queued entry db of
             Inl err \<Rightarrow> Inl err
           | Inr (_, db') \<Rightarrow> Inr ((), db'))))"

definition sql_rollback ::
    "sql_env \<Rightarrow> datetime \<Rightarrow> uuid \<Rightarrow> datetime \<Rightarrow> context_uri \<Rightarrow> mvcc_version \<Rightarrow> sqlite_db
     \<Rightarrow> (context_error + unit) \<times> sqlite_db" where
  "sql_rollback env now fresh queued uri to = in_transaction (sql_rollback_body env now fresh queued uri to)"

section \<open>The graph\<close>

definition sql_add_edge ::
    "sql_env \<Rightarrow> datetime \<Rightarrow> datetime \<Rightarrow> context_uri \<Rightarrow> context_uri \<Rightarrow> graph_relation \<Rightarrow> sqlite_db
     \<Rightarrow> (context_error + unit) \<times> sqlite_db" where
  "sql_add_edge env now bumped from to kind =
     in_transaction (\<lambda>db.
       let edge = (u_canonical from, u_canonical to, kind); changed = \<not> hhas (db_relations db) edge
       in bump_if env changed bumped (u_tenant from) ''add'' (Some (u_canonical from)) (Some (u_canonical to))
            (db\<lparr>db_relations := insert_relation (edge, now) (db_relations db)\<rparr>))"

definition sql_remove_edge ::
    "sql_env \<Rightarrow> datetime \<Rightarrow> context_uri \<Rightarrow> context_uri \<Rightarrow> sqlite_db \<Rightarrow> (context_error + unit) \<times> sqlite_db" where
  "sql_remove_edge env bumped from to =
     in_transaction (\<lambda>db.
       let hit = (\<lambda>((f, t, k), created). f = u_canonical from \<and> t = u_canonical to);
           changed = (\<exists>r\<in>set (db_relations db). hit r)
       in bump_if env changed bumped (u_tenant from) ''remove'' (Some (u_canonical from)) (Some (u_canonical to))
            (db\<lparr>db_relations := filter (\<lambda>r. \<not> hit r) (db_relations db)\<rparr>))"

definition sql_graph_revision :: "context_uri \<Rightarrow> sqlite_db \<Rightarrow> nat" where
  "sql_graph_revision scope db = (case hget (db_revisions db) (u_tenant scope) of Some n \<Rightarrow> n | None \<Rightarrow> 0)"

section \<open>Blobs\<close>

text \<open>\<open>blake3\<close> is the hash function of the crate, in hexadecimal.\<close>

definition blob_put ::
    "(string \<Rightarrow> string) \<Rightarrow> datetime \<Rightarrow> string \<Rightarrow> string \<Rightarrow> sqlite_db \<Rightarrow> blob_ref \<times> sqlite_db" where
  "blob_put blake3 now data mime db =
     (let hash = blake3 data
      in (\<lparr>br_hash = ContentHash hash, br_size = length data, br_mime_type = mime\<rparr>,
          if hhas (db_blobs db) hash then db
          else db\<lparr>db_blobs := hput hash \<lparr>bl_data = data, bl_mime_type = mime, bl_size = length data,
                 bl_created_at = now\<rparr> (db_blobs db)\<rparr>))"

definition validate_blob ::
    "(string \<Rightarrow> string) \<Rightarrow> blob_ref \<Rightarrow> string \<Rightarrow> string \<Rightarrow> nat \<Rightarrow> context_error + unit" where
  "validate_blob blake3 r data mime stored_size =
     (if blake3 data \<noteq> show_hash (br_hash r) \<or> stored_size \<noteq> length data \<or> br_size r \<noteq> length data
         \<or> br_mime_type r \<noteq> mime
      then Inl (Storage (''blob integrity mismatch for '' @ show_hash (br_hash r)))
      else Inr ())"

definition blob_get :: "(string \<Rightarrow> string) \<Rightarrow> blob_ref \<Rightarrow> sqlite_db \<Rightarrow> context_error + string" where
  "blob_get blake3 r db =
     (case hget (db_blobs db) (show_hash (br_hash r)) of
        None \<Rightarrow> Inl (NotFound (''blob not found: '' @ show_hash (br_hash r)))
      | Some row \<Rightarrow>
          (case validate_blob blake3 r (bl_data row) (bl_mime_type row) (bl_size row) of
             Inl err \<Rightarrow> Inl err
           | Inr _ \<Rightarrow> Inr (bl_data row)))"

definition dedup_check :: "content_hash \<Rightarrow> sqlite_db \<Rightarrow> bool" where
  "dedup_check h db = hhas (db_blobs db) (show_hash h)"

end
