(* ===== verification/Sql_Like.thy ===== *)
theory Sql_Like
  imports Rust_Strings Rust_Text
begin

text \<open>
  SQLite's LIKE with the escape character backslash, and the patterns that
  crates/context-db-storage/src/sqlite.rs builds for it: \<open>escape_like\<close>, \<open>prefix_pattern\<close> and
  \<open>glob_pattern\<close>. LIKE ignores the case of ASCII letters; an underscore stands for one character
  of UTF-8.
\<close>

section \<open>LIKE\<close>

definition letter_lower :: "char \<Rightarrow> char" where
  "letter_lower c = (if 65 \<le> byte c \<and> byte c \<le> 90 then char_of (byte c + 32) else c)"

lemma ascii_lower_map: "ascii_lower s = map letter_lower s"
  by (simp add: ascii_lower_def letter_lower_def)

definition same_letter :: "char \<Rightarrow> char \<Rightarrow> bool" where
  "same_letter a b \<longleftrightarrow> letter_lower a = letter_lower b"

text \<open>The rest of a text after its first character.\<close>

definition drop_character :: "string \<Rightarrow> string" where
  "drop_character s =
     (case s of [] \<Rightarrow> [] | c # cs \<Rightarrow> if 192 \<le> byte c then dropWhile is_continuation cs else cs)"

lemma drop_character_less [termination_simp]: "length (drop_character (c # cs)) < Suc (length cs)"
  by (simp add: drop_character_def le_imp_less_Suc length_dropWhile_le)

fun like :: "string \<Rightarrow> string \<Rightarrow> bool" where
  "like [] s = (s = [])"
| "like (p # ps) s =
     (if p = CHR ''%'' then like ps s \<or> (case s of [] \<Rightarrow> False | x # xs \<Rightarrow> like (p # ps) (drop_character (x # xs)))
      else case s of
        [] \<Rightarrow> False
      | x # xs \<Rightarrow>
          if p = CHR 0x5C then (case ps of [] \<Rightarrow> False | q # qs \<Rightarrow> same_letter q x \<and> like qs xs)
          else if p = CHR ''_'' then like ps (drop_character (x # xs))
          else same_letter p x \<and> like ps xs)"

section \<open>Patterns\<close>

definition replace_char :: "char \<Rightarrow> string \<Rightarrow> string \<Rightarrow> string" where
  "replace_char c r s = concat (map (\<lambda>x. if x = c then r else [x]) s)"

definition escape_like :: "string \<Rightarrow> string" where
  "escape_like s =
     replace_char CHR ''_'' [CHR 0x5C, CHR ''_'']
       (replace_char CHR ''%'' [CHR 0x5C, CHR ''%''] (replace_char CHR 0x5C [CHR 0x5C, CHR 0x5C] s))"

definition prefix_pattern :: "string \<Rightarrow> string" where
  "prefix_pattern p = escape_like p @ ''%''"

definition glob_pattern :: "string \<Rightarrow> string" where
  "glob_pattern g =
     concat (map (\<lambda>c. if c = CHR ''*'' then ''%'' else if c = CHR ''?'' then ''_''
       else if c \<in> {CHR 0x5C, CHR ''%'', CHR ''_''} then [CHR 0x5C, c] else [c]) g)"

section \<open>What the patterns match\<close>

definition escaped :: "char \<Rightarrow> string" where
  "escaped c = (if c \<in> {CHR 0x5C, CHR ''%'', CHR ''_''} then [CHR 0x5C, c] else [c])"

lemma escape_like_concat: "escape_like s = concat (map escaped s)"
  by (induction s) (auto simp: escape_like_def replace_char_def escaped_def)

lemma like_escaped:
  "like (escaped c @ ps) s = (case s of [] \<Rightarrow> False | x # xs \<Rightarrow> same_letter c x \<and> like ps xs)"
  by (auto simp: escaped_def split: list.split)

lemma like_any: "like ''%'' s"
proof (induction "length s" arbitrary: s rule: less_induct)
  case less
  show ?case
  proof (cases s)
    case (Cons x xs)
    then have "like ''%'' (drop_character (x # xs))"
      by (intro less) (simp add: drop_character_less)
    then show ?thesis using Cons by simp
  qed simp
qed

text \<open>The pattern of a prefix selects what starts with it, but for the case of ASCII letters.\<close>

lemma like_prefix: "like (prefix_pattern p) s \<longleftrightarrow> starts_with (ascii_lower s) (ascii_lower p)"
proof (induction p arbitrary: s)
  case Nil
  show ?case by (simp add: prefix_pattern_def escape_like_concat like_any ascii_lower_def del: like.simps)
next
  case (Cons c p)
  have "prefix_pattern (c # p) = escaped c @ prefix_pattern p"
    by (simp add: prefix_pattern_def escape_like_concat)
  then show ?case
    using Cons by (cases s) (auto simp: like_escaped same_letter_def ascii_lower_map starts_with_iff)
qed

text \<open>The public glob syntax: a star stands for any characters, a question mark for one.\<close>

fun glob :: "string \<Rightarrow> string \<Rightarrow> bool" where
  "glob [] s = (s = [])"
| "glob (g # gs) s =
     (if g = CHR ''*'' then glob gs s \<or> (case s of [] \<Rightarrow> False | x # xs \<Rightarrow> glob (g # gs) (drop_character (x # xs)))
      else case s of
        [] \<Rightarrow> False
      | x # xs \<Rightarrow>
          if g = CHR ''?'' then glob gs (drop_character (x # xs)) else same_letter g x \<and> glob gs xs)"

lemma glob_pattern_Cons:
  "glob_pattern (g # gs) =
     (if g = CHR ''*'' then ''%'' else if g = CHR ''?'' then ''_'' else escaped g) @ glob_pattern gs"
  by (simp add: glob_pattern_def escaped_def)

lemma like_glob: "like (glob_pattern g) s \<longleftrightarrow> glob g s"
proof (induction g s rule: glob.induct)
  case (2 g gs s)
  show ?case
  proof (cases "g = CHR ''*'' \<or> g = CHR ''?''")
    case True
    then show ?thesis using 2 by (auto simp: glob_pattern_Cons split: list.split)
  next
    case False
    then show ?thesis using 2 by (auto simp: glob_pattern_Cons like_escaped split: list.splits)
  qed
qed (simp add: glob_pattern_def)

end
