(* ===== verification/Sqlite_Queries.thy ===== *)
theory Sqlite_Queries
  imports Sqlite_Tables Sql_Like
begin

text \<open>
  The queries of the SQLite store, crates/context-db-storage/src/sqlite.rs: reading, listings, searches,
  histories, scans and the graph. \<open>ORDER BY key LIMIT n + 1\<close> over a table is the sorted list of
  its rows, cut; texts are ordered by their bytes. \<open>pt\<close> parses the time in a query string.
\<close>

section \<open>Pages\<close>

text \<open>\<open>(? IS NULL OR key > ?) ORDER BY key LIMIT limit + 1\<close>.\<close>

definition sql_select :: "('a \<Rightarrow> string) \<Rightarrow> page_request \<Rightarrow> 'a list \<Rightarrow> 'a list" where
  "sql_select key page rows =
     take (effective_limit page + 1)
       (sort_key key (filter (\<lambda>r. case pr_after page of None \<Rightarrow> True | Some after \<Rightarrow> key r > after) rows))"

text \<open>The rows of the page, and whether there are more.\<close>

definition sql_cut :: "page_request \<Rightarrow> 'a list \<Rightarrow> 'a list \<times> bool" where
  "sql_cut page rows = (take (effective_limit page) rows, effective_limit page < length rows)"

definition sql_page :: "('a \<Rightarrow> string) \<Rightarrow> page_request \<Rightarrow> 'a list \<Rightarrow> 'a list \<times> bool" where
  "sql_page key page rows = sql_cut page (sql_select key page rows)"

definition cursor_of :: "('a \<Rightarrow> string) \<Rightarrow> bool \<Rightarrow> 'a list \<Rightarrow> string option" where
  "cursor_of key has_more items = (if has_more \<and> items \<noteq> [] then Some (key (last items)) else None)"

text \<open>\<open>collect::<Result<Vec<_>>>\<close>.\<close>

fun collect_results :: "('a \<Rightarrow> 'e + 'b) \<Rightarrow> 'a list \<Rightarrow> 'e + 'b list" where
  "collect_results f [] = Inr []"
| "collect_results f (x # xs) =
     (case f x of
        Inl e \<Rightarrow> Inl e
      | Inr y \<Rightarrow> (case collect_results f xs of Inl e \<Rightarrow> Inl e | Inr ys \<Rightarrow> Inr (y # ys)))"

section \<open>Reading\<close>

definition load_entry :: "context_uri \<Rightarrow> sqlite_db \<Rightarrow> context_error + context_entry" where
  "load_entry uri db =
     (case hget (db_entries db) (u_canonical uri) of
        None \<Rightarrow> Inl (NotFound (u_canonical uri)) | Some r \<Rightarrow> Inr (er_entry r))"

definition at_level :: "content_level \<Rightarrow> content_payload \<Rightarrow> content_payload" where
  "at_level level p =
     (case (p, level) of
        (Text sparse dense _, L0) \<Rightarrow> Text sparse dense sparse
      | (Text sparse dense _, L1) \<Rightarrow> Text sparse dense dense
      | _ \<Rightarrow> p)"

text \<open>Reading without a cache.\<close>

definition sql_read :: "context_uri \<Rightarrow> content_level \<Rightarrow> sqlite_db \<Rightarrow> context_error + content_payload" where
  "sql_read uri level db =
     (case load_entry uri db of Inl e \<Rightarrow> Inl e | Inr e \<Rightarrow> Inr (at_level level (e_payload e)))"

section \<open>Listing\<close>

definition dir_prefix :: "context_uri \<Rightarrow> string" where
  "dir_prefix dir = trim_end_matches CHR ''/'' (u_canonical dir) @ ''/''"

definition child_name :: "string \<Rightarrow> string" where
  "child_name rest = (case split_once CHR ''/'' rest of Some (d, _) \<Rightarrow> d | None \<Rightarrow> rest)"

text \<open>The SQL aggregate: the largest of the texts, NULL of none.\<close>

definition sql_max :: "string list \<Rightarrow> string option" where
  "sql_max xs = (if xs = [] then None else Some (foldl max (hd xs) (tl xs)))"

record child_row =
  ch_name :: string
  ch_is_dir :: bool
  ch_abstract :: "string option"
  ch_content_type :: "string option"

definition children_of :: "string \<Rightarrow> sqlite_db \<Rightarrow> child_row list" where
  "children_of prefix db =
     (let scoped = map (\<lambda>(uri, r). (drop (length prefix) uri, r))
            (filter (\<lambda>(uri, r). like (prefix_pattern prefix) uri) (db_entries db))
      in map (\<lambda>name.
           let grp = filter (\<lambda>(rest, r). child_name rest = name) scoped;
               leaves = filter (\<lambda>(rest, r). CHR ''/'' \<notin> set rest) grp
           in \<lparr>ch_name = name, ch_is_dir = (\<exists>(rest, r)\<in>set grp. CHR ''/'' \<in> set rest),
               ch_abstract = sql_max (map (\<lambda>(rest, r). er_l0 r) leaves),
               ch_content_type = sql_max (map (\<lambda>(rest, r). er_content_type r) leaves)\<rparr>)
         (remdups (map (\<lambda>(rest, r). child_name rest) scoped)))"

definition child_entry ::
    "(string \<Rightarrow> datetime option) \<Rightarrow> string \<Rightarrow> child_row \<Rightarrow> context_error + dir_entry" where
  "child_entry pt prefix c =
     (case parse pt (prefix @ ch_name c) of
        Inl e \<Rightarrow> Inl e
      | Inr u \<Rightarrow> Inr
          \<lparr>de_uri = u, de_is_dir = ch_is_dir c,
           de_abstract = (case ch_abstract c of Some a \<Rightarrow> a | None \<Rightarrow> []),
           de_content_type = (if ch_is_dir c then None else Option.bind (ch_content_type c) from_path_segment)\<rparr>)"

definition sql_ls ::
    "(string \<Rightarrow> datetime option) \<Rightarrow> context_uri \<Rightarrow> page_request \<Rightarrow> sqlite_db \<Rightarrow> context_error + dir_entry page" where
  "sql_ls pt dir page db =
     (let prefix = dir_prefix dir; (rows, has_more) = sql_page ch_name page (children_of prefix db)
      in case collect_results (child_entry pt prefix) rows of
           Inl e \<Rightarrow> Inl e
         | Inr items \<Rightarrow> Inr
             \<lparr>pg_items = items,
              pg_next_cursor =
                (if has_more \<and> items \<noteq> [] then strip_prefix (u_canonical (de_uri (last items))) prefix else None)\<rparr>)"

text \<open>The addresses of a page of rows selected by address.\<close>

definition uri_page ::
    "(string \<Rightarrow> datetime option) \<Rightarrow> (string \<Rightarrow> entry_row \<Rightarrow> bool) \<Rightarrow> page_request \<Rightarrow> sqlite_db
     \<Rightarrow> context_error + context_uri page" where
  "uri_page pt sel page db =
     (let (rows, has_more) = sql_page (\<lambda>u. u) page (map fst (filter (\<lambda>(uri, r). sel uri r) (db_entries db)))
      in case collect_results (parse pt) rows of
           Inl e \<Rightarrow> Inl e
         | Inr items \<Rightarrow> Inr \<lparr>pg_items = items, pg_next_cursor = cursor_of u_canonical has_more items\<rparr>)"

definition sql_find ::
    "(string \<Rightarrow> datetime option) \<Rightarrow> find_pattern \<Rightarrow> page_request \<Rightarrow> sqlite_db \<Rightarrow> context_error + context_uri page" where
  "sql_find pt pattern page db =
     (let scope = (case fp_scope pattern of Some u \<Rightarrow> u_canonical u | None \<Rightarrow> []);
          named = map_option (\<lambda>g. ''%/'' @ glob_pattern g) (fp_name_glob pattern)
      in uri_page pt (\<lambda>uri r.
           like (prefix_pattern scope) uri \<and>
           (case fp_content_type pattern of Some ct \<Rightarrow> er_content_type r = as_path_segment ct | None \<Rightarrow> True) \<and>
           (case named of Some p \<Rightarrow> like p uri | None \<Rightarrow> True)) page db)"

definition in_scope :: "context_uri \<Rightarrow> string \<Rightarrow> bool" where
  "in_scope scope uri \<longleftrightarrow> uri = u_canonical scope \<or> like (prefix_pattern (dir_prefix scope)) uri"

definition sql_browse_find ::
    "(string \<Rightarrow> datetime option) \<Rightarrow> context_uri \<Rightarrow> string \<Rightarrow> page_request \<Rightarrow> sqlite_db
     \<Rightarrow> context_error + context_uri page" where
  "sql_browse_find pt scope pattern page db =
     uri_page pt (\<lambda>uri r. in_scope scope uri \<and> contains_str uri pattern) page db"

text \<open>\<open>lower\<close> is the Unicode lower case.\<close>

definition sql_grep ::
    "(string \<Rightarrow> string) \<Rightarrow> (string \<Rightarrow> datetime option) \<Rightarrow> string \<Rightarrow> context_uri \<Rightarrow> sqlite_db
     \<Rightarrow> context_error + grep_hit list" where
  "sql_grep lower pt pattern scope db =
     (let rows = sort_key fst (filter (\<lambda>(uri, r). like (prefix_pattern (u_canonical scope)) uri) (db_entries db))
      in map_sum id (List.map_filter id) (collect_results (\<lambda>(uri, r).
           let line =
             (if contains_str (lower (er_l0 r)) (lower pattern) then Some (er_l0 r)
              else case er_l1 r of
                     Some overview \<Rightarrow> if contains_str (lower overview) (lower pattern) then Some overview else None
                   | None \<Rightarrow> None)
           in case parse pt uri of
                Inl e \<Rightarrow> Inl e
              | Inr u \<Rightarrow> Inr (map_option (\<lambda>l. \<lparr>gh_uri = u, gh_line = l, gh_level = L0\<rparr>) line)) rows))"

text \<open>The names come out of a \<open>BTreeSet\<close>.\<close>

definition tree_names :: "string \<Rightarrow> string list \<Rightarrow> string list" where
  "tree_names prefix uris =
     sort (remdups (filter (\<lambda>n. n \<noteq> []) (map child_name (List.map_filter (\<lambda>u. strip_prefix u prefix) uris))))"

function build_tree ::
    "(string \<Rightarrow> datetime option) \<Rightarrow> string \<Rightarrow> string list \<Rightarrow> nat \<Rightarrow> nat \<Rightarrow> tree_node list" where
  "build_tree pt prefix uris d max_depth =
     (if max_depth \<le> d then []
      else List.map_filter (\<lambda>name.
        let child = prefix @ name; is_dir = (\<exists>u\<in>set uris. starts_with u (child @ ''/''))
        in case parse pt child of
             Inl e \<Rightarrow> None
           | Inr u \<Rightarrow> Some (TreeNode u is_dir
               (if is_dir then build_tree pt (child @ ''/'') uris (d + 1) max_depth else [])))
        (tree_names prefix uris))"
  by pat_completeness auto
termination
  by (relation "measure (\<lambda>(pt, prefix, uris, d, max_depth). max_depth - d)") auto

declare build_tree.simps [simp del]

definition sql_tree ::
    "(string \<Rightarrow> datetime option) \<Rightarrow> context_uri \<Rightarrow> nat \<Rightarrow> page_request \<Rightarrow> sqlite_db \<Rightarrow> tree_node page" where
  "sql_tree pt root max_depth page db =
     (let prefix = dir_prefix root;
          (rows, has_more) = sql_page (\<lambda>u. u) page
            (filter (\<lambda>u. like (prefix_pattern prefix) u) (map fst (db_entries db)))
      in \<lparr>pg_items = [TreeNode root True (build_tree pt prefix rows 0 max_depth)],
          pg_next_cursor = cursor_of (\<lambda>u. u) has_more rows\<rparr>)"

section \<open>Scans\<close>

definition entry_page ::
    "(string \<Rightarrow> entry_row \<Rightarrow> bool) \<Rightarrow> page_request \<Rightarrow> sqlite_db \<Rightarrow> context_entry page" where
  "entry_page sel page db =
     (let (rows, has_more) = sql_page fst page (filter (\<lambda>(uri, r). sel uri r) (db_entries db));
          items = map (er_entry \<circ> snd) rows
      in \<lparr>pg_items = items, pg_next_cursor = cursor_of (u_canonical \<circ> e_uri) has_more items\<rparr>)"

definition sql_scan_by_prefix ::
    "(string \<Rightarrow> datetime option) \<Rightarrow> string \<Rightarrow> page_request \<Rightarrow> sqlite_db \<Rightarrow> context_error + context_entry page" where
  "sql_scan_by_prefix pt prefix page db =
     (case parse pt (trim_end_matches CHR ''/'' prefix) of
        Inl e \<Rightarrow> Inl e
      | Inr scope \<Rightarrow> Inr (entry_page (\<lambda>uri r. in_scope scope uri) page db))"

definition sql_scan_by_type ::
    "(string \<Rightarrow> datetime option) \<Rightarrow> string \<Rightarrow> content_type \<Rightarrow> page_request \<Rightarrow> sqlite_db
     \<Rightarrow> context_error + context_entry page" where
  "sql_scan_by_type pt prefix ct page db =
     (case parse pt (trim_end_matches CHR ''/'' prefix) of
        Inl e \<Rightarrow> Inl e
      | Inr scope \<Rightarrow>
          Inr (entry_page (\<lambda>uri r. in_scope scope uri \<and> er_content_type r = as_path_segment ct) page db))"

section \<open>Histories and tenants\<close>

text \<open>\<open>str::parse::<i64>\<close> of a cursor: an optional sign and digits.\<close>

definition parse_i64 :: "string \<Rightarrow> int option" where
  "parse_i64 s =
     (case s of
        c # cs \<Rightarrow>
          if c = CHR ''-''
          then (if cs = [] \<or> hd cs = CHR ''+'' then None
                else Option.bind (parse_usize cs) (\<lambda>n. if n \<le> SQL_MAX + 1 then Some (- int n) else None))
          else Option.bind (parse_usize s) (\<lambda>n. if n \<le> SQL_MAX then Some (int n) else None)
      | [] \<Rightarrow> None)"

text \<open>\<open>bad\<close> is the message of the standard library for a text that is no integer.\<close>

definition sql_version_history ::
    "(string \<Rightarrow> string) \<Rightarrow> context_uri \<Rightarrow> page_request \<Rightarrow> sqlite_db \<Rightarrow> context_error + version_entry page" where
  "sql_version_history bad uri page db =
     (let cut = (\<lambda>after.
            let rows = filter (\<lambda>(v, row). case after of None \<Rightarrow> True | Some a \<Rightarrow> a < int v)
                  (versions_under db (u_canonical uri));
                (sel, has_more) = sql_cut page (take (effective_limit page + 1) rows);
                items = map (\<lambda>(v, row).
                  \<lparr>ve_version = version_from_sql v, ve_message = hv_l0 row, ve_ts = hv_created_at row\<rparr>) sel
            in \<lparr>pg_items = items,
                pg_next_cursor = cursor_of (\<lambda>i. show_nat (version_number (ve_version i))) has_more items\<rparr>)
      in case pr_after page of
           None \<Rightarrow> Inr (cut None)
         | Some c \<Rightarrow>
             (case parse_i64 c of
                None \<Rightarrow> Inl (Storage (''invalid version cursor: '' @ bad c))
              | Some a \<Rightarrow> Inr (cut (Some a))))"

text \<open>The tenant column is the text of a uuid, which the crate parses back.\<close>

definition sql_list_tenants ::
    "sql_env \<Rightarrow> page_request \<Rightarrow> sqlite_db \<Rightarrow> context_error + tenant_id page" where
  "sql_list_tenants env page db =
     (let (rows, has_more) = sql_page (\<lambda>t. t) page (remdups (map (er_tenant \<circ> snd) (db_entries db)))
      in case collect_results (\<lambda>t. case se_uuid_parse env t of
              Some u \<Rightarrow> Inr (TenantId u) | None \<Rightarrow> Inl (storage_err env ''tenant id'')) rows of
           Inl e \<Rightarrow> Inl e
         | Inr items \<Rightarrow> Inr \<lparr>pg_items = items,
             pg_next_cursor = cursor_of (\<lambda>t. se_uuid_display env (tenant_uuid t)) has_more items\<rparr>)"

section \<open>The graph\<close>

definition sql_outgoing ::
    "(string \<Rightarrow> datetime option) \<Rightarrow> context_uri \<Rightarrow> graph_relation option \<Rightarrow> sqlite_db
     \<Rightarrow> context_error + context_uri list" where
  "sql_outgoing pt uri kind db =
     collect_results (parse pt) (sort (remdups (map (\<lambda>((f, t, k), c). t)
       (filter (\<lambda>((f, t, k), c). f = u_canonical uri \<and> of_kind kind k) (db_relations db)))))"

definition sql_incoming ::
    "(string \<Rightarrow> datetime option) \<Rightarrow> context_uri \<Rightarrow> graph_relation option \<Rightarrow> sqlite_db
     \<Rightarrow> context_error + context_uri list" where
  "sql_incoming pt uri kind db =
     collect_results (parse pt) (sort (remdups (map (\<lambda>((f, t, k), c). f)
       (filter (\<lambda>((f, t, k), c). t = u_canonical uri \<and> of_kind kind k) (db_relations db)))))"

text \<open>One source of the frontier: an edge of each kind to each neighbour.\<close>

fun sql_expand ::
    "(string \<Rightarrow> datetime option) \<Rightarrow> context_uri \<Rightarrow> graph_relation list \<Rightarrow> sqlite_db \<Rightarrow> context_error + edge_out list" where
  "sql_expand pt uri [] db = Inr []"
| "sql_expand pt uri (k # ks) db =
     (case sql_outgoing pt uri (Some k) db of
        Inl e \<Rightarrow> Inl e
      | Inr ns \<Rightarrow>
          (case sql_expand pt uri ks db of
             Inl e \<Rightarrow> Inl e | Inr es \<Rightarrow> Inr (map (\<lambda>n. (uri, n, k)) ns @ es)))"

fun sql_sweep ::
    "(string \<Rightarrow> datetime option) \<Rightarrow> graph_relation list \<Rightarrow> sqlite_db \<Rightarrow> context_uri list \<Rightarrow> context_uri list
     \<Rightarrow> context_error + edge_out list \<times> context_uri list" where
  "sql_sweep pt kinds db [] visited = Inr ([], visited)"
| "sql_sweep pt kinds db (u # us) visited =
     (if u \<in> set visited then sql_sweep pt kinds db us visited
      else case sql_expand pt u kinds db of
             Inl e \<Rightarrow> Inl e
           | Inr es \<Rightarrow>
               (case sql_sweep pt kinds db us (u # visited) of
                  Inl e \<Rightarrow> Inl e | Inr (es', visited') \<Rightarrow> Inr (es @ es', visited')))"

fun sql_hops ::
    "(string \<Rightarrow> datetime option) \<Rightarrow> graph_relation list \<Rightarrow> sqlite_db \<Rightarrow> nat \<Rightarrow> context_uri list \<Rightarrow> context_uri list
     \<Rightarrow> context_error + edge_out list" where
  "sql_hops pt kinds db 0 frontier visited = Inr []"
| "sql_hops pt kinds db (Suc n) frontier visited =
     (case sql_sweep pt kinds db frontier visited of
        Inl e \<Rightarrow> Inl e
      | Inr (es, visited') \<Rightarrow>
          (if es = [] then Inr es
           else case sql_hops pt kinds db n (map (\<lambda>(f, t, k). t) es) visited' of
                  Inl e \<Rightarrow> Inl e | Inr es' \<Rightarrow> Inr (es @ es')))"

definition sql_batch_traverse ::
    "(string \<Rightarrow> datetime option) \<Rightarrow> context_uri list \<Rightarrow> graph_relation list \<Rightarrow> nat \<Rightarrow> sqlite_db
     \<Rightarrow> context_error + edge_out list" where
  "sql_batch_traverse pt seeds kinds max_hops db = sql_hops pt kinds db max_hops seeds []"

end
