(* ===== verification/Sqlite_Batch.thy ===== *)
theory Sqlite_Batch
  imports Sqlite_Tables
begin

text \<open>
  The batch write of the SQLite store: \<open>BatchWriteConfig::chunks\<close> and \<open>prepare_batch_chunk\<close> of
  crates/context-db-storage/src/graph.rs and \<open>batch_write\<close> of crates/context-db-storage/src/sqlite.rs,
  which sends each chunk as one JSON text to three statements. Each entry comes with its clock reading
  and the fresh identity of its job.
\<close>

section \<open>Chunks\<close>

record batch_config =
  bc_max_rows :: nat
  bc_max_bytes :: nat

definition default_batch_config :: batch_config where
  "default_batch_config = \<lparr>bc_max_rows = 256, bc_max_bytes = 4 * 1024 * 1024\<rparr>"

definition validate_batch_config :: "batch_config \<Rightarrow> context_error + unit" where
  "validate_batch_config cfg =
     (if bc_max_rows cfg = 0 \<or> bc_max_bytes cfg = 0
      then Inl (Storage ''batch write chunk limits must be greater than zero'')
      else Inr ())"

definition saturating_usize :: "nat \<Rightarrow> nat \<Rightarrow> nat" where
  "saturating_usize a b = min (a + b) 18446744073709551615"

type_synonym stamped = "datetime \<times> uuid \<times> context_entry"

definition stamped_entry :: "stamped \<Rightarrow> context_entry" where
  "stamped_entry x = snd (snd x)"

text \<open>The inner loop: the entries one chunk takes and those that are left.\<close>

fun take_chunk ::
    "sql_env \<Rightarrow> batch_config \<Rightarrow> nat \<Rightarrow> nat \<Rightarrow> stamped list \<Rightarrow> stamped list \<times> stamped list" where
  "take_chunk env cfg taken bytes [] = ([], [])"
| "take_chunk env cfg taken bytes (x # xs) =
     (let size = se_size env (stamped_entry x); total = saturating_usize bytes size
      in if \<not> taken < bc_max_rows cfg then ([], x # xs)
         else if 0 < taken \<and> bc_max_bytes cfg < total then ([], x # xs)
         else if bc_max_bytes cfg \<le> total then ([x], xs)
         else let (c, rest) = take_chunk env cfg (taken + 1) total xs in (x # c, rest))"

lemma take_chunk_append:
  "take_chunk env cfg taken bytes xs = (c, rest) \<Longrightarrow> c @ rest = xs"
  by (induction xs arbitrary: taken bytes c rest) (auto simp: Let_def split: if_splits prod.splits)

lemma take_chunk_first:
  "0 < bc_max_rows cfg \<Longrightarrow> take_chunk env cfg 0 0 (x # xs) = (c, rest) \<Longrightarrow> c \<noteq> []"
  by (auto simp: Let_def split: if_splits prod.splits)

text \<open>The outer loop. A chunk takes at least one entry when there is room for a row, which
  \<open>validate\<close> has checked.\<close>

function chunk_loop :: "sql_env \<Rightarrow> batch_config \<Rightarrow> stamped list \<Rightarrow> stamped list list" where
  "chunk_loop env cfg xs =
     (if xs = [] \<or> bc_max_rows cfg = 0 then []
      else let (c, rest) = take_chunk env cfg 0 0 xs in c # chunk_loop env cfg rest)"
  by pat_completeness auto
termination
proof (relation "measure (\<lambda>(env, cfg, xs). length xs)")
  fix env cfg and xs :: "stamped list" and p c rest
  assume c: "\<not> (xs = [] \<or> bc_max_rows cfg = 0)" "p = take_chunk env cfg 0 0 xs" "(c, rest) = p"
  then have "length c + length rest = length xs"
    using take_chunk_append [of env cfg 0 0 xs c rest] by (metis length_append)
  moreover have "c \<noteq> []"
    using c take_chunk_first [of cfg env "hd xs" "tl xs" c rest] by (metis list.collapse neq0_conv)
  ultimately show "((env, cfg, rest), (env, cfg, xs)) \<in> measure (\<lambda>(env, cfg, xs). length xs)"
    by (cases c) auto
qed simp

declare chunk_loop.simps [simp del]

definition chunks :: "sql_env \<Rightarrow> batch_config \<Rightarrow> stamped list \<Rightarrow> context_error + stamped list list" where
  "chunks env cfg xs =
     (case validate_batch_config cfg of Inl err \<Rightarrow> Inl err | Inr _ \<Rightarrow> Inr (chunk_loop env cfg xs))"

section \<open>Preparing the rows\<close>

record batch_row =
  bw_ordinal :: nat
  bw_uri :: string
  bw_tenant :: string
  bw_l0 :: string
  bw_l1 :: "string option"
  bw_l2 :: string
  bw_content_type :: string
  bw_state_scope :: "string option"
  bw_tags :: string
  bw_custom :: json
  bw_entry :: context_entry
  bw_version :: nat
  bw_created_at :: datetime
  bw_updated_at :: datetime
  bw_is_current :: bool
  bw_outbox_id :: uuid
  bw_mutation :: "index_mutation option"

text \<open>The map from each address to its last ordinal.\<close>

definition last_ordinals :: "stamped list \<Rightarrow> (string, nat) hmap" where
  "last_ordinals xs =
     fold (\<lambda>(i, x). hput (u_canonical (e_uri (stamped_entry x))) i) (enumerate 0 xs) []"

definition batch_row_of ::
    "sql_env \<Rightarrow> (string, nat) hmap \<Rightarrow> nat \<Rightarrow> nat \<Rightarrow> datetime \<Rightarrow> uuid \<Rightarrow> context_entry
     \<Rightarrow> index_mutation option \<Rightarrow> batch_row" where
  "batch_row_of env lasts ordinal version now fresh e m =
     (let (l0, l1, l2) = payload_levels env (e_payload e); uri = u_canonical (e_uri e)
      in \<lparr>bw_ordinal = ordinal, bw_uri = uri, bw_tenant = se_uuid_display env (tenant_uuid (e_tenant e)),
          bw_l0 = l0, bw_l1 = l1, bw_l2 = l2, bw_content_type = content_type_column e,
          bw_state_scope = scope_column e, bw_tags = tags_column env e, bw_custom = m_custom (e_metadata e),
          bw_entry = e, bw_version = version, bw_created_at = e_created_at e, bw_updated_at = now,
          bw_is_current = (hget lasts uri = Some ordinal), bw_outbox_id = fresh, bw_mutation = m\<rparr>)"

text \<open>\<open>next\<close> is the map of the versions given so far.\<close>

fun prepare_rows ::
    "sql_env \<Rightarrow> (string, nat) hmap \<Rightarrow> (string, nat) hmap \<Rightarrow> nat \<Rightarrow> stamped list
     \<Rightarrow> context_error + batch_row list \<times> mvcc_version list" where
  "prepare_rows env lasts next_versions ordinal [] = Inr ([], [])"
| "prepare_rows env lasts next_versions ordinal ((now, fresh, input) # xs) =
     (case validate_tenant_binding (se_uuid_parse env) (se_uuid_display env) input of
        Inl err \<Rightarrow> Inl err
      | Inr _ \<Rightarrow>
     (case sanitize_entry_for_write input of
        Inl err \<Rightarrow> Inl err
      | Inr e1 \<Rightarrow>
     (let uri = u_canonical (e_uri e1);
          version = (case hget next_versions uri of Some n \<Rightarrow> n | None \<Rightarrow> 0) + 1
      in if SQL_MAX < version then Inl (VersionConflict (''MVCC version overflow for '' @ uri))
         else
           let v = version_from_sql version; e = e1\<lparr>e_updated_at := now, e_mvcc_version := v\<rparr>
           in case upsert_mutation (se_vec env) e v of
                Inl err \<Rightarrow> Inl err
              | Inr m \<Rightarrow>
                  (case prepare_rows env lasts (hput uri version next_versions) (ordinal + 1) xs of
                     Inl err \<Rightarrow> Inl err
                   | Inr (rows, versions) \<Rightarrow>
                       Inr (batch_row_of env lasts ordinal version now fresh e m # rows, v # versions)))))"

definition prepare_batch_chunk ::
    "sql_env \<Rightarrow> stamped list \<Rightarrow> (string, nat) hmap \<Rightarrow> context_error + batch_row list \<times> mvcc_version list" where
  "prepare_batch_chunk env xs base = prepare_rows env (last_ordinals xs) base 0 xs"

section \<open>The statements\<close>

text \<open>\<open>SELECT uri, mvcc_version .. WHERE uri IN (..)\<close>.\<close>

definition base_versions :: "stamped list \<Rightarrow> sqlite_db \<Rightarrow> (string, nat) hmap" where
  "base_versions xs db =
     map (\<lambda>(uri, row). (uri, er_version row))
       (filter (\<lambda>(uri, row). uri \<in> set (map (\<lambda>x. u_canonical (e_uri (stamped_entry x))) xs)) (db_entries db))"

text \<open>The column \<open>json(json_extract(value, '$.custom'))\<close>: a JSON null is NULL, which the column
  refuses, a string is taken for a JSON text of its own, true and false are 1 and 0.\<close>

definition custom_column :: "sql_env \<Rightarrow> json \<Rightarrow> string option" where
  "custom_column env j =
     (case j of
        JNull \<Rightarrow> None
      | JBool b \<Rightarrow> Some (if b then ''1'' else ''0'')
      | JNumber n \<Rightarrow> se_json env n
      | JString s \<Rightarrow> se_json env s
      | JArray js \<Rightarrow> Some (se_js env j)
      | JObject obj \<Rightarrow> Some (se_js env j))"

fun insert_current :: "sql_env \<Rightarrow> batch_row list \<Rightarrow> unit tx" where
  "insert_current env [] db = Inr ((), db)"
| "insert_current env (r # rs) db =
     (case custom_column env (bw_custom r) of
        None \<Rightarrow> Inl (storage_err env ''write batch current'')
      | Some custom \<Rightarrow>
          (let row = \<lparr>er_tenant = bw_tenant r, er_l0 = bw_l0 r, er_l1 = bw_l1 r, er_l2 = bw_l2 r,
                 er_content_type = bw_content_type r, er_state_scope = bw_state_scope r,
                 er_tags = bw_tags r, er_custom = custom, er_entry = bw_entry r,
                 er_version = bw_version r,
                 er_created_at = (case hget (db_entries db) (bw_uri r) of
                     Some old \<Rightarrow> er_created_at old | None \<Rightarrow> bw_created_at r),
                 er_updated_at = bw_updated_at r\<rparr>
           in insert_current env rs (db\<lparr>db_entries := hput (bw_uri r) row (db_entries db)\<rparr>)))"

fun insert_history :: "sql_env \<Rightarrow> batch_row list \<Rightarrow> unit tx" where
  "insert_history env [] db = Inr ((), db)"
| "insert_history env (r # rs) db =
     (case insert_version env ''write batch history'' (bw_uri r) (bw_version r)
             \<lparr>hv_l0 = bw_l0 r, hv_entry = bw_entry r, hv_created_at = bw_updated_at r\<rparr> db of
        Inl err \<Rightarrow> Inl err
      | Inr (_, db') \<Rightarrow> insert_history env rs db')"

text \<open>The columns of the job are those \<open>enqueue\<close> would give it.\<close>

definition insert_jobs :: "batch_row list \<Rightarrow> sqlite_db \<Rightarrow> sqlite_db" where
  "insert_jobs rows db =
     fold (\<lambda>r db. case bw_mutation r of
         None \<Rightarrow> db
       | Some m \<Rightarrow>
           db\<lparr>db_jobs := db_jobs db @
             [(new_job (bw_outbox_id r) (bw_updated_at r) m)
                \<lparr>ob_uri := bw_uri r, ob_version := Some (bw_version r)\<rparr>]\<rparr>) rows db"

definition write_chunk :: "sql_env \<Rightarrow> stamped list \<Rightarrow> mvcc_version list tx" where
  "write_chunk env xs db =
     (case prepare_batch_chunk env xs (base_versions xs db) of
        Inl err \<Rightarrow> Inl err
      | Inr (rows, versions) \<Rightarrow>
     (case insert_current env (filter bw_is_current rows) db of
        Inl err \<Rightarrow> Inl err
      | Inr (_, db1) \<Rightarrow>
     (case insert_history env rows db1 of
        Inl err \<Rightarrow> Inl err
      | Inr (_, db2) \<Rightarrow> Inr (versions, insert_jobs rows db2))))"

fun write_chunks :: "sql_env \<Rightarrow> stamped list list \<Rightarrow> mvcc_version list tx" where
  "write_chunks env [] db = Inr ([], db)"
| "write_chunks env (c # cs) db =
     (case write_chunk env c db of
        Inl err \<Rightarrow> Inl err
      | Inr (vs, db1) \<Rightarrow>
          (case write_chunks env cs db1 of
             Inl err \<Rightarrow> Inl err
           | Inr (ws, db2) \<Rightarrow> Inr (vs @ ws, db2)))"

definition sql_batch_write ::
    "sql_env \<Rightarrow> batch_config \<Rightarrow> stamped list \<Rightarrow> sqlite_db \<Rightarrow> (context_error + mvcc_version list) \<times> sqlite_db" where
  "sql_batch_write env cfg xs db =
     (if xs = [] then (Inr [], db)
      else in_transaction (\<lambda>db.
        case chunks env cfg xs of Inl err \<Rightarrow> Inl err | Inr cs \<Rightarrow> write_chunks env cs db) db)"

end
