(* ===== verification/Sqlite_Facts.thy ===== *)
theory Sqlite_Facts
  imports Sqlite_Batch Context_Facts
begin

text \<open>
  Facts about the SQLite store: the integrity of its tables over every sequence of transactions, and
  the batch write, whose chunks of prepared rows come to the same as one write after the other.
\<close>

section \<open>What a write stores\<close>

definition stored_entry :: "datetime \<Rightarrow> nat \<Rightarrow> context_entry \<Rightarrow> context_entry" where
  "stored_entry now n e = e\<lparr>e_updated_at := now, e_mvcc_version := version_from_sql n\<rparr>"

definition next_number :: "sqlite_db \<Rightarrow> string \<Rightarrow> nat" where
  "next_number db uri = (case hget (db_entries db) uri of Some r \<Rightarrow> er_version r + 1 | None \<Rightarrow> 1)"

definition put_entry ::
    "(batch_row \<Rightarrow> string) \<Rightarrow> batch_row \<Rightarrow> (string, entry_row) hmap \<Rightarrow> (string, entry_row) hmap" where
  "put_entry custom r m =
     hput (bw_uri r)
       \<lparr>er_tenant = bw_tenant r, er_l0 = bw_l0 r, er_l1 = bw_l1 r, er_l2 = bw_l2 r,
        er_content_type = bw_content_type r, er_state_scope = bw_state_scope r,
        er_tags = bw_tags r, er_custom = custom r, er_entry = bw_entry r, er_version = bw_version r,
        er_created_at = (case hget m (bw_uri r) of Some old \<Rightarrow> er_created_at old | None \<Rightarrow> bw_created_at r),
        er_updated_at = bw_updated_at r\<rparr> m"

definition put_version :: "batch_row \<Rightarrow> (string \<times> nat, version_row) hmap \<Rightarrow> (string \<times> nat, version_row) hmap"
where
  "put_version r m = hput (bw_uri r, bw_version r)
     \<lparr>hv_l0 = bw_l0 r, hv_entry = bw_entry r, hv_created_at = bw_updated_at r\<rparr> m"

definition queue_job ::
    "uuid \<Rightarrow> datetime \<Rightarrow> index_mutation option \<Rightarrow> outbox_job list \<Rightarrow> outbox_job list" where
  "queue_job fresh now m jobs = (case m of None \<Rightarrow> jobs | Some m' \<Rightarrow> enqueue fresh now m' jobs)"

definition put_job :: "batch_row \<Rightarrow> outbox_job list \<Rightarrow> outbox_job list" where
  "put_job r = queue_job (bw_outbox_id r) (bw_updated_at r) (bw_mutation r)"

definition custom_text :: "sql_env \<Rightarrow> batch_row \<Rightarrow> string" where
  "custom_text env r = se_js env (bw_custom r)"

definition apply_row :: "sql_env \<Rightarrow> batch_row \<Rightarrow> sqlite_db \<Rightarrow> sqlite_db" where
  "apply_row env r db =
     db\<lparr>db_entries := put_entry (custom_text env) r (db_entries db),
        db_versions := put_version r (db_versions db), db_jobs := put_job r (db_jobs db)\<rparr>"

lemma row_fields:
  "bw_uri (batch_row_of env lasts i n now fresh e m) = u_canonical (e_uri e)"
  "bw_version (batch_row_of env lasts i n now fresh e m) = n"
  "bw_ordinal (batch_row_of env lasts i n now fresh e m) = i"
  "bw_entry (batch_row_of env lasts i n now fresh e m) = e"
  "bw_mutation (batch_row_of env lasts i n now fresh e m) = m"
  "bw_custom (batch_row_of env lasts i n now fresh e m) = m_custom (e_metadata e)"
  "bw_is_current (batch_row_of env lasts i n now fresh e m) \<longleftrightarrow> hget lasts (u_canonical (e_uri e)) = Some i"
  "bw_outbox_id (batch_row_of env lasts i n now fresh e m) = fresh"
  "bw_updated_at (batch_row_of env lasts i n now fresh e m) = now"
  by (simp_all add: batch_row_of_def Let_def split: prod.split)

lemma stored_fields [simp]:
  "e_uri (stored_entry now n e) = e_uri e" "e_payload (stored_entry now n e) = e_payload e"
  "e_tenant (stored_entry now n e) = e_tenant e" "e_metadata (stored_entry now n e) = e_metadata e"
  "e_mvcc_version (stored_entry now n e) = version_from_sql n"
  by (simp_all add: stored_entry_def)

text \<open>A mutation does not depend on the clock or on the version the entry came with.\<close>

lemma upsert_stored: "upsert_mutation ov (stored_entry now n e) v = upsert_mutation ov e v"
  by (simp add: upsert_mutation_def point_from_entry_def point_payload_def collection_from_entry_def
      stored_entry_def Let_def cong: option.case_cong sum.case_cong if_cong)

section \<open>One write\<close>

text \<open>The versions kept under an address are those from 1 to the current one.\<close>

definition counted :: "sqlite_db \<Rightarrow> bool" where
  "counted db \<longleftrightarrow> (\<forall>u v. hhas (db_versions db) (u, v) \<longleftrightarrow>
     (\<exists>r. hget (db_entries db) u = Some r \<and> 1 \<le> v \<and> v \<le> er_version r))"

lemma write_in_tx_row:
  assumes "counted db"
  shows "write_in_tx env now e db =
    (case validate_tenant_binding (se_uuid_parse env) (se_uuid_display env) e of
       Inl err \<Rightarrow> Inl err
     | Inr _ \<Rightarrow>
    (case sanitize_entry_for_write e of
       Inl err \<Rightarrow> Inl err
     | Inr e1 \<Rightarrow>
         let n = next_number db (u_canonical (e_uri e1))
         in if SQL_MAX < n then Inl (storage_err env ''write entry'')
            else Inr (version_from_sql n,
              apply_row env (batch_row_of env [] 0 n now 0 (stored_entry now n e1) None) db)))"
proof -
  have new: "\<not> hhas (db_versions db) (u, next_number db u)" for u
    using assms by (auto simp: counted_def next_number_def split: option.splits)
  show ?thesis
    using new
    by (auto simp: write_in_tx_def next_number_def apply_row_def put_entry_def put_version_def put_job_def
        queue_job_def batch_row_of_def insert_version_def stored_entry_def custom_text_def content_type_column_def
        tags_column_def scope_column_def Let_def split: sum.splits prod.splits option.splits)
qed

lemma sanitize_custom:
  assumes "sanitize_entry_for_write e = Inr e1"
  obtains X where "e_metadata e1 = (e_metadata e)\<lparr>m_custom := X\<rparr>"
    "X = m_custom (e_metadata e) \<or> (\<exists>v. X = JObject (hput ''security_redactions'' v
       (case m_custom (e_metadata e) of JObject obj \<Rightarrow> obj | _ \<Rightarrow> [])))"
proof -
  obtain q fs where r: "redact_payload (e_payload e) [] = (q, fs)" by fastforce
  show thesis
  proof (cases "fs = []")
    case True
    then have "e_metadata e1 = (e_metadata e)\<lparr>m_custom := m_custom (e_metadata e)\<rparr>"
      using assms r by (auto simp: sanitize_entry_for_write_def redact_sensitive_entry_def)
    then show thesis by (rule that) simp
  next
    case False
    then have "e_metadata e1 = (e_metadata e)\<lparr>m_custom := JObject (hput ''security_redactions''
        (JArray (findings_to_json fs)) (case m_custom (e_metadata e) of JObject obj \<Rightarrow> obj | _ \<Rightarrow> []))\<rparr>"
      using assms r by (auto simp: sanitize_entry_for_write_def redact_sensitive_entry_def
          set_security_redactions_def set_custom_field_def Let_def)
    then show thesis by (rule that) blast
  qed
qed

lemma recorded_get:
  "key \<noteq> ''security_redactions'' \<Longrightarrow>
   json_get key (JObject (hput ''security_redactions'' v (case j of JObject obj \<Rightarrow> obj | _ \<Rightarrow> []))) = json_get key j"
  by (cases j) (simp_all add: json_get_def hm_simps)

text \<open>The point of the stored entry is that of the entry as it came: redaction leaves alone what
  points are made of.\<close>

lemma point_kept:
  assumes s: "sanitize_entry_for_write e = Inr e1"
  shows "upsert_mutation ov e1 v = upsert_mutation ov e v"
proof -
  obtain X where X: "e_metadata e1 = (e_metadata e)\<lparr>m_custom := X\<rparr>"
    "X = m_custom (e_metadata e) \<or> (\<exists>v. X = JObject (hput ''security_redactions'' v
       (case m_custom (e_metadata e) of JObject obj \<Rightarrow> obj | _ \<Rightarrow> [])))"
    by (rule sanitize_custom [OF s])
  then have "json_get key X = json_get key (m_custom (e_metadata e))" if "key \<noteq> ''security_redactions''" for key
    using recorded_get [OF that] by auto
  then show ?thesis
    using X(1) sanitize_uri [OF s]
    by (simp add: upsert_mutation_def point_from_entry_def point_payload_def collection_from_entry_def VECTOR_KEY_def
        Let_def cong: option.case_cong sum.case_cong if_cong)
qed

lemma write_body_row:
  assumes "counted db"
  shows "sql_write_body env now fresh now e db =
    (case validate_tenant_binding (se_uuid_parse env) (se_uuid_display env) e of
       Inl err \<Rightarrow> Inl err
     | Inr _ \<Rightarrow>
    (case sanitize_entry_for_write e of
       Inl err \<Rightarrow> Inl err
     | Inr e1 \<Rightarrow>
         let n = next_number db (u_canonical (e_uri e1))
         in if SQL_MAX < n then Inl (storage_err env ''write entry'')
            else case upsert_mutation (se_vec env) (stored_entry now n e1) (version_from_sql n) of
                   Inl err \<Rightarrow> Inl err
                 | Inr m \<Rightarrow> Inr (version_from_sql n,
                     apply_row env (batch_row_of env lasts i n now fresh (stored_entry now n e1) m) db)))"
proof -
  have job: "queue_upsert env fresh now e v db1 =
      (case upsert_mutation (se_vec env) e v of
         Inl err \<Rightarrow> Inl err
       | Inr m \<Rightarrow> Inr ((), db1\<lparr>db_jobs := queue_job fresh now m (db_jobs db1)\<rparr>))" for v db1
    by (simp add: queue_upsert_def queue_job_def enqueue_sqlite_def split: sum.split option.split)
  have row: "(apply_row env (batch_row_of env [] 0 n now 0 e1 None) db)
       \<lparr>db_jobs := queue_job fresh now m (db_jobs (apply_row env (batch_row_of env [] 0 n now 0 e1 None) db))\<rparr> =
      apply_row env (batch_row_of env lasts i n now fresh e1 m) db" for n e1 m
    by (simp add: apply_row_def put_entry_def put_version_def batch_row_of_def custom_text_def put_job_def
        queue_job_def Let_def split: prod.split cong: option.case_cong)
  show ?thesis
    using point_kept [of e] unfolding sql_write_body_def write_in_tx_row [OF assms]
    by (auto simp: Let_def upsert_stored row job split: sum.split)
qed

section \<open>A batch is one write after the other\<close>

text \<open>The reference: the bodies of single writes in one transaction.\<close>

fun write_each :: "sql_env \<Rightarrow> stamped list \<Rightarrow> mvcc_version list tx" where
  "write_each env [] db = Inr ([], db)"
| "write_each env ((now, fresh, e) # xs) db =
     (case sql_write_body env now fresh now e db of
        Inl err \<Rightarrow> Inl err
      | Inr (v, db1) \<Rightarrow>
          (case write_each env xs db1 of
             Inl err \<Rightarrow> Inl err
           | Inr (vs, db2) \<Rightarrow> Inr (v # vs, db2)))"

definition row_key :: "stamped \<Rightarrow> string" where
  "row_key x = u_canonical (e_uri (stamped_entry x))"

lemma apply_row_entries:
  "hget (db_entries (apply_row env r db)) u =
     (if u = bw_uri r then hget (put_entry (custom_text env) r (db_entries db)) u else hget (db_entries db) u)"
  by (simp add: apply_row_def put_entry_def hm_simps)

lemma apply_row_number:
  "map_option er_version (hget (db_entries (apply_row env r db)) u) =
     (if u = bw_uri r then Some (bw_version r) else map_option er_version (hget (db_entries db) u))"
  by (simp add: apply_row_def put_entry_def hm_simps)

lemma counted_apply:
  assumes "counted db" "bw_version r = next_number db (bw_uri r)"
  shows "counted (apply_row env r db)"
proof -
  have "hhas (db_versions (apply_row env r db)) (u, v) \<longleftrightarrow>
      hhas (db_versions db) (u, v) \<or> (u, v) = (bw_uri r, bw_version r)" for u v
    by (cases "(u, v) = (bw_uri r, bw_version r)") (auto simp: apply_row_def put_version_def hhas_def hm_simps)
  moreover have "(\<exists>r'. hget (db_entries (apply_row env r db)) u = Some r' \<and> 1 \<le> v \<and> v \<le> er_version r') \<longleftrightarrow>
      (case map_option er_version (hget (db_entries (apply_row env r db)) u) of
         Some n \<Rightarrow> 1 \<le> v \<and> v \<le> n | None \<Rightarrow> False)" for u v
    by (cases "hget (db_entries (apply_row env r db)) u") auto
  ultimately show ?thesis
    using assms unfolding counted_def apply_row_number
    by (auto simp: next_number_def le_Suc_eq split: option.splits)
qed

text \<open>An overflow of the version is reported by the batch as a conflict and by the single write as
  an error of the database; all other errors are the same.\<close>

definition same_error :: "sql_env \<Rightarrow> context_error \<Rightarrow> context_error \<Rightarrow> bool" where
  "same_error env e e' \<longleftrightarrow> e = e' \<or>
     (\<exists>uri. e = VersionConflict (''MVCC version overflow for '' @ uri)) \<and> e' = storage_err env ''write entry''"

lemma prepare_step:
  "hget nxt (u_canonical (e_uri e)) = map_option er_version (hget (db_entries db) (u_canonical (e_uri e))) \<Longrightarrow>
   prepare_rows env lasts nxt i ((now, fresh, e) # xs) =
    (case validate_tenant_binding (se_uuid_parse env) (se_uuid_display env) e of
       Inl err \<Rightarrow> Inl err
     | Inr _ \<Rightarrow>
    (case sanitize_entry_for_write e of
       Inl err \<Rightarrow> Inl err
     | Inr e1 \<Rightarrow>
         let uri = u_canonical (e_uri e1); n = next_number db uri
         in if SQL_MAX < n then Inl (VersionConflict (''MVCC version overflow for '' @ uri))
            else case upsert_mutation (se_vec env) (stored_entry now n e1) (version_from_sql n) of
                   Inl err \<Rightarrow> Inl err
                 | Inr m \<Rightarrow>
                     (case prepare_rows env lasts (hput uri n nxt) (i + 1) xs of
                        Inl err \<Rightarrow> Inl err
                      | Inr (rows, vs) \<Rightarrow>
                          Inr (batch_row_of env lasts i n now fresh (stored_entry now n e1) m # rows,
                               version_from_sql n # vs))))"
  by (cases "hget (db_entries db) (u_canonical (e_uri e))")
    (auto simp: next_number_def stored_entry_def Let_def sanitize_uri split: sum.split prod.split)

lemma prepared_each:
  assumes "counted db"
    and "\<forall>x\<in>set xs. hget nxt (row_key x) = map_option er_version (hget (db_entries db) (row_key x))"
  shows "rel_sum (same_error env) (\<lambda>(rows, vs) (vs', db'). vs' = vs \<and> db' = fold (apply_row env) rows db)
    (prepare_rows env lasts nxt i xs) (write_each env xs db)"
  using assms
proof (induction xs arbitrary: db nxt i)
  case (Cons x xs)
  obtain now fresh e where x: "x = (now, fresh, e)" by (cases x) auto
  have key: "row_key x = u_canonical (e_uri e)" using x by (simp add: row_key_def stamped_entry_def)
  note body = write_body_row [OF Cons.prems(1), of env now fresh e lasts i]
  have given: "hget nxt (u_canonical (e_uri e)) = map_option er_version (hget (db_entries db) (u_canonical (e_uri e)))"
    using Cons.prems(2) key by simp
  note step = prepare_step [OF given, of env lasts i now fresh xs]
  have later: "rel_sum (same_error env)
      (\<lambda>(rows, vs) (vs', db'). vs' = vs \<and> db' = fold (apply_row env) rows (apply_row env r db))
      (prepare_rows env lasts (hput (bw_uri r) (bw_version r) nxt) (i + 1) xs) (write_each env xs (apply_row env r db))"
    if "bw_version r = next_number db (bw_uri r)" for r
    by (rule Cons.IH [OF counted_apply [OF Cons.prems(1) that]])
      (use Cons.prems(2) in \<open>simp add: apply_row_number hm_simps\<close>)
  note start = x step write_each.simps(2) body
  show ?case
  proof (cases "validate_tenant_binding (se_uuid_parse env) (se_uuid_display env) e")
    case valid: (Inr unit)
    obtain e1 where e1: "sanitize_entry_for_write e = Inr e1" using sanitize_cases [of e] by blast
    let ?n = "next_number db (u_canonical (e_uri e1))"
    show ?thesis
    proof (cases "SQL_MAX < ?n")
      case False
      show ?thesis
      proof (cases "upsert_mutation (se_vec env) (stored_entry now ?n e1) (version_from_sql ?n)")
        case (Inr m)
        let ?r = "batch_row_of env lasts i ?n now fresh (stored_entry now ?n e1) m"
        have "sql_write_body env now fresh now e db = Inr (version_from_sql ?n, apply_row env ?r db)"
          using valid e1 False Inr by (simp add: body Let_def)
        moreover have "prepare_rows env lasts nxt i ((now, fresh, e) # xs) =
            (case prepare_rows env lasts (hput (bw_uri ?r) (bw_version ?r) nxt) (i + 1) xs of
               Inl err \<Rightarrow> Inl err
             | Inr (rows, vs) \<Rightarrow> Inr (?r # rows, version_from_sql ?n # vs))"
          unfolding step using valid e1 False Inr by (simp add: Let_def row_fields)
        moreover have "bw_version ?r = next_number db (bw_uri ?r)" by (simp add: row_fields)
        note later [OF this]
        ultimately show ?thesis
          by (cases "prepare_rows env lasts (hput (bw_uri ?r) (bw_version ?r) nxt) (i + 1) xs")
            (auto simp: x rel_sum.simps)
      qed (use valid e1 False in \<open>simp add: start Let_def same_error_def del: prepare_rows.simps\<close>)
    qed (use valid e1 in \<open>simp add: start Let_def same_error_def del: prepare_rows.simps\<close>)
  qed (simp add: start same_error_def del: prepare_rows.simps)
qed simp

subsection \<open>The three statements\<close>

definition column_text :: "sql_env \<Rightarrow> batch_row \<Rightarrow> string" where
  "column_text env r = the (custom_column env (bw_custom r))"

lemma insert_current_fold:
  "\<forall>r\<in>set rows. custom_column env (bw_custom r) \<noteq> None \<Longrightarrow>
   insert_current env rows db =
     Inr ((), db\<lparr>db_entries := fold (put_entry (column_text env)) rows (db_entries db)\<rparr>)"
  by (induction rows arbitrary: db)
    (auto simp: put_entry_def column_text_def Let_def cong: option.case_cong)

lemma insert_current_Inr:
  assumes "insert_current env rows db = Inr (u, db1)"
  shows "db1 = db\<lparr>db_entries := fold (put_entry (column_text env)) rows (db_entries db)\<rparr>"
proof -
  have "\<forall>r\<in>set rows. custom_column env (bw_custom r) \<noteq> None"
    using assms by (induction rows arbitrary: db) (auto simp: Let_def split: option.splits)
  from insert_current_fold [OF this] show ?thesis using assms by simp
qed

lemma insert_history_fold:
  "distinct (map (\<lambda>r. (bw_uri r, bw_version r)) rows) \<Longrightarrow>
   \<forall>r\<in>set rows. \<not> hhas (db_versions db) (bw_uri r, bw_version r) \<Longrightarrow>
   insert_history env rows db = Inr ((), db\<lparr>db_versions := fold put_version rows (db_versions db)\<rparr>)"
proof (induction rows arbitrary: db)
  case (Cons r rows)
  let ?db = "db\<lparr>db_versions := put_version r (db_versions db)\<rparr>"
  have "\<forall>r'\<in>set rows. \<not> hhas (db_versions ?db) (bw_uri r', bw_version r')"
  proof
    fix r' assume r': "r' \<in> set rows"
    then have "(bw_uri r', bw_version r') \<noteq> (bw_uri r, bw_version r)"
      using Cons.prems(1) by (metis (mono_tags, lifting) distinct.simps(2) image_eqI list.set_map list.simps(9))
    moreover have "\<not> hhas (db_versions db) (bw_uri r', bw_version r')" using Cons.prems(2) r' by simp
    ultimately show "\<not> hhas (db_versions ?db) (bw_uri r', bw_version r')"
      by (simp add: put_version_def hhas_def hm_simps del: prod.inject)
  qed
  then have "insert_history env rows ?db = Inr ((), ?db\<lparr>db_versions := fold put_version rows (db_versions ?db)\<rparr>)"
    using Cons.prems(1) by (intro Cons.IH) simp_all
  then show ?case using Cons.prems(2) by (simp add: insert_version_def put_version_def [of r])
qed simp

text \<open>The URI and version columns of a job are those of the row.\<close>

definition job_consistent :: "batch_row \<Rightarrow> bool" where
  "job_consistent r \<longleftrightarrow> (\<forall>m. bw_mutation r = Some m \<longrightarrow> mutation_order m = (bw_uri r, Some (bw_version r)))"

lemma insert_jobs_fold:
  "\<forall>r\<in>set rows. job_consistent r \<Longrightarrow>
   insert_jobs rows db = db\<lparr>db_jobs := fold put_job rows (db_jobs db)\<rparr>"
proof (induction rows arbitrary: db)
  case (Cons r rows)
  have "(new_job i now m)\<lparr>ob_uri := bw_uri r, ob_version := Some (bw_version r)\<rparr> = new_job i now m"
    if "bw_mutation r = Some m" for i now m
    using Cons.prems that by (simp add: job_consistent_def new_job_def)
  then have "insert_jobs (r # rows) db = insert_jobs rows (db\<lparr>db_jobs := put_job r (db_jobs db)\<rparr>)"
    by (simp add: insert_jobs_def put_job_def queue_job_def enqueue_def split: option.split)
  then show ?case using Cons.IH [of "db\<lparr>db_jobs := put_job r (db_jobs db)\<rparr>"] Cons.prems by simp
qed (simp add: insert_jobs_def)

lemma upsert_order:
  assumes "upsert_mutation ov e (version_from_sql n) = Inr (Some m)" "n \<le> SQL_MAX"
  shows "mutation_order m = (u_canonical (e_uri e), Some n)"
proof -
  have n: "n < 2 ^ 63" "n < 2 ^ 64" using assms(2) by (simp_all add: SQL_MAX_def)
  then have "version_number (version_from_sql n) = n"
    by (simp add: version_number_def version_from_sql_def unat_of_nat)
  then show ?thesis
    using assms(1) n parse_show_usize [of n]
    by (auto simp: upsert_mutation_def point_from_entry_def mutation_order_def point_order_def point_payload_def
        json_get_def json_u64_def hget_def Let_def split: option.splits sum.splits if_splits)
qed

lemma fold_apply_row:
  "fold (apply_row env) rows db =
     db\<lparr>db_entries := fold (put_entry (custom_text env)) rows (db_entries db),
        db_versions := fold put_version rows (db_versions db), db_jobs := fold put_job rows (db_jobs db)\<rparr>"
  by (induction rows arbitrary: db) (simp_all add: apply_row_def)

subsection \<open>What the prepared rows are\<close>

definition rows_of ::
    "(string, nat) hmap \<Rightarrow> (string, nat) hmap \<Rightarrow> nat \<Rightarrow> stamped list \<Rightarrow> batch_row list \<Rightarrow> bool" where
  "rows_of lasts nxt i xs rows \<longleftrightarrow>
     map (\<lambda>r. (bw_ordinal r, bw_uri r)) rows = map (\<lambda>(k, x). (k, row_key x)) (enumerate i xs) \<and>
     distinct (map (\<lambda>r. (bw_uri r, bw_version r)) rows) \<and>
     (\<forall>r\<in>set rows. (bw_is_current r \<longleftrightarrow> hget lasts (bw_uri r) = Some (bw_ordinal r)) \<and> job_consistent r \<and>
        (case hget nxt (bw_uri r) of Some n \<Rightarrow> n | None \<Rightarrow> 0) < bw_version r)"

lemma prepared_rows:
  "prepare_rows env lasts nxt i xs = Inr (rows, vs) \<Longrightarrow> rows_of lasts nxt i xs rows"
proof (induction xs arbitrary: nxt i rows vs)
  case (Cons x xs)
  obtain now fresh e where x: "x = (now, fresh, e)" by (cases x) auto
  obtain e1 n m rows' vs' where r: "sanitize_entry_for_write e = Inr e1"
    "n = (case hget nxt (u_canonical (e_uri e1)) of Some n \<Rightarrow> n | None \<Rightarrow> 0) + 1" "n \<le> SQL_MAX"
    "upsert_mutation (se_vec env) (stored_entry now n e1) (version_from_sql n) = Inr m"
    "prepare_rows env lasts (hput (u_canonical (e_uri e1)) n nxt) (i + 1) xs = Inr (rows', vs')"
    "rows = batch_row_of env lasts i n now fresh (stored_entry now n e1) m # rows'"
    using Cons.prems by (auto simp: x Let_def stored_entry_def split: sum.splits if_splits prod.splits)
  have key: "u_canonical (e_uri e1) = row_key x"
    using sanitize_uri [OF r(1)] x by (simp add: row_key_def stamped_entry_def)
  have later: "rows_of lasts (hput (row_key x) n nxt) (i + 1) xs rows'"
    using Cons.IH [OF r(5)] key by simp
  then have above: "\<forall>r\<in>set rows'. (case hget nxt (bw_uri r) of Some n \<Rightarrow> n | None \<Rightarrow> 0) < bw_version r \<and>
      (bw_uri r = row_key x \<longrightarrow> n < bw_version r)"
    using r(2) key by (fastforce simp: rows_of_def hm_simps split: if_splits option.splits)
  have "job_consistent (batch_row_of env lasts i n now fresh (stored_entry now n e1) m)"
    using r(3,4) by (auto simp: job_consistent_def row_fields dest!: upsert_order)
  then show ?case
    using later above r(2) unfolding r(6) rows_of_def by (auto simp: row_fields key)
qed (simp add: rows_of_def)

lemma prepared_customs:
  "prepare_rows env lasts nxt i xs = Inr (rows, vs) \<Longrightarrow>
   map (\<lambda>r. Inr (bw_custom r)) rows =
   map (\<lambda>x. map_sum id (\<lambda>e. m_custom (e_metadata e)) (sanitize_entry_for_write (stamped_entry x))) xs"
  by (induction xs arbitrary: nxt i rows vs)
    (auto simp: Let_def row_fields stamped_entry_def split: sum.splits if_splits prod.splits)

subsection \<open>Databases that agree\<close>

text \<open>The batch inserts only the last row of a new address, whose creation column is then that of
  the last entry and not of the first, and it writes the custom metadata in SQLite's own text;
  nothing reads the two columns.\<close>

definition settled_row :: "entry_row \<Rightarrow> entry_row" where
  "settled_row r = r\<lparr>er_created_at := 0, er_custom := []\<rparr>"

definition agree :: "sqlite_db \<Rightarrow> sqlite_db \<Rightarrow> bool" where
  "agree db db' \<longleftrightarrow>
     (\<forall>u. map_option settled_row (hget (db_entries db) u) = map_option settled_row (hget (db_entries db') u)) \<and>
     hget (db_versions db) = hget (db_versions db') \<and>
     db_relations db = db_relations db' \<and> db_revisions db = db_revisions db' \<and>
     db_mutations db = db_mutations db' \<and> db_jobs db = db_jobs db' \<and> db_blobs db = db_blobs db'"

abbreviation same_outcome ::
    "sql_env \<Rightarrow> context_error + 'a \<times> sqlite_db \<Rightarrow> context_error + 'a \<times> sqlite_db \<Rightarrow> bool" where
  "same_outcome env \<equiv> rel_sum (same_error env) (rel_prod (=) agree)"

lemma agree_refl: "agree db db"
  by (simp add: agree_def)

lemma agree_trans: "agree a b \<Longrightarrow> agree b c \<Longrightarrow> agree a c"
  by (simp add: agree_def)

lemma agree_numbers:
  assumes "agree db db'"
  shows "map_option er_version (hget (db_entries db) u) = map_option er_version (hget (db_entries db') u)"
proof -
  have "map_option settled_row (hget (db_entries db) u) = map_option settled_row (hget (db_entries db') u)"
    using assms by (simp add: agree_def)
  from arg_cong [OF this, of "map_option er_version"] show ?thesis
    by (simp add: option.map_comp comp_def settled_row_def)
qed

lemma counted_numbers:
  "counted db \<longleftrightarrow> (\<forall>u v. hhas (db_versions db) (u, v) \<longleftrightarrow>
     (case map_option er_version (hget (db_entries db) u) of Some n \<Rightarrow> 1 \<le> v \<and> v \<le> n | None \<Rightarrow> False))"
  unfolding counted_def by (intro all_cong1 arg_cong2 [where f = "(\<longleftrightarrow>)"] refl) (auto split: option.split)

lemma agree_counted: "agree db db' \<Longrightarrow> counted db \<Longrightarrow> counted db'"
  unfolding counted_numbers using agree_numbers [of db db'] by (simp add: agree_def hhas_def)

lemma hget_put_entry:
  "map_option settled_row (hget (put_entry custom r m) u) =
     (if u = bw_uri r
      then Some \<lparr>er_tenant = bw_tenant r, er_l0 = bw_l0 r, er_l1 = bw_l1 r, er_l2 = bw_l2 r,
        er_content_type = bw_content_type r, er_state_scope = bw_state_scope r,
        er_tags = bw_tags r, er_custom = [], er_entry = bw_entry r, er_version = bw_version r,
        er_created_at = 0, er_updated_at = bw_updated_at r\<rparr>
      else map_option settled_row (hget m u))"
  by (simp add: put_entry_def hm_simps settled_row_def)

lemma agree_apply: "agree db db' \<Longrightarrow> agree (apply_row env r db) (apply_row env r db')"
  unfolding agree_def apply_row_def
  by (simp add: hget_put_entry put_version_def fun_eq_iff hm_simps)

lemma agree_fold: "agree db db' \<Longrightarrow> agree (fold (apply_row env) rows db) (fold (apply_row env) rows db')"
  by (induction rows arbitrary: db db') (simp_all add: agree_apply)

definition numbers :: "sqlite_db \<Rightarrow> (string, nat) hmap" where
  "numbers db = map (\<lambda>(u, r). (u, er_version r)) (db_entries db)"

lemma hget_map_value: "hget (map (\<lambda>(k, v). (k, f v)) m) k = map_option f (hget m k)"
  by (induction m) (auto simp: hget_def)

lemma hget_numbers: "hget (numbers db) u = map_option er_version (hget (db_entries db) u)"
  by (simp add: numbers_def hget_map_value)

lemma agree_write_body:
  assumes "agree db db'" "counted db"
  shows "rel_sum (=) (rel_prod (=) agree) (sql_write_body env now fresh now e db) (sql_write_body env now fresh now e db')"
proof -
  have n: "next_number db' u = next_number db u" for u
    using agree_numbers [OF assms(1), of u]
    by (cases "hget (db_entries db) u"; cases "hget (db_entries db') u") (auto simp: next_number_def)
  show ?thesis
    unfolding write_body_row [OF assms(2), of _ _ _ _ "[]" 0]
      write_body_row [OF agree_counted [OF assms], of _ _ _ _ "[]" 0]
    using agree_apply [OF assms(1)] by (simp add: n Let_def split: sum.split)
qed

lemma write_body_shape:
  assumes "counted db" "sql_write_body env now fresh now e db = Inr (v, db1)"
  obtains e1 m where "validate_tenant_binding (se_uuid_parse env) (se_uuid_display env) e = Inr ()"
    "sanitize_entry_for_write e = Inr e1"
    "next_number db (u_canonical (e_uri e1)) \<le> SQL_MAX"
    "v = version_from_sql (next_number db (u_canonical (e_uri e1)))"
    "db1 = apply_row env (batch_row_of env [] 0 (next_number db (u_canonical (e_uri e1))) now fresh
       (stored_entry now (next_number db (u_canonical (e_uri e1))) e1) m) db"
  using assms(2) unfolding write_body_row [OF assms(1), of _ _ _ _ "[]" 0]
  by (auto simp: Let_def split: sum.splits if_splits)

lemma write_body_counted:
  assumes "counted db" "sql_write_body env now fresh now e db = Inr (v, db1)"
  shows "counted db1"
  by (rule write_body_shape [OF assms]) (simp add: counted_apply [OF assms(1)] row_fields)

lemma agree_each:
  assumes "agree db db'" "counted db"
  shows "rel_sum (=) (rel_prod (=) agree) (write_each env xs db) (write_each env xs db')"
  using assms
proof (induction xs arbitrary: db db')
  case (Cons x xs)
  obtain now fresh e where x: "x = (now, fresh, e)" by (cases x) auto
  note W = agree_write_body [OF Cons.prems, of env now fresh e]
  show ?case
  proof (cases "sql_write_body env now fresh now e db")
    case (Inl err)
    then show ?thesis using W by (auto simp: x rel_sum.simps)
  next
    case (Inr w)
    obtain v db1 where w: "w = (v, db1)" by fastforce
    obtain db1' where db1': "sql_write_body env now fresh now e db' = Inr (v, db1')" "agree db1 db1'"
      using W Inr w by (auto simp: rel_sum.simps)
    have "counted db1" by (rule write_body_counted [OF Cons.prems(2) Inr [unfolded w]])
    from Cons.IH [OF db1'(2) this] show ?thesis
      using Inr w db1'(1) by (auto simp: x rel_sum.simps)
  qed
qed (simp add: agree_refl)

lemma each_counted: "counted db \<Longrightarrow> write_each env xs db = Inr (vs, db1) \<Longrightarrow> counted db1"
proof (induction xs arbitrary: db vs)
  case (Cons x xs)
  obtain now fresh e where x: "x = (now, fresh, e)" by (cases x) auto
  obtain v db0 ws where w: "sql_write_body env now fresh now e db = Inr (v, db0)" "write_each env xs db0 = Inr (ws, db1)"
    using Cons.prems(2) by (auto simp: x split: sum.splits)
  show ?case by (rule Cons.IH [OF write_body_counted [OF Cons.prems(1) w(1)] w(2)])
qed simp

lemma each_append:
  "write_each env (xs @ ys) db =
     (case write_each env xs db of
        Inl err \<Rightarrow> Inl err
      | Inr (vs, db1) \<Rightarrow>
          (case write_each env ys db1 of Inl err \<Rightarrow> Inl err | Inr (ws, db2) \<Rightarrow> Inr (vs @ ws, db2)))"
  by (induction xs arbitrary: db) (auto split: sum.split)

subsection \<open>One chunk\<close>

lemma find_rev_filter:
  "(\<And>x. find P (rev xs) = Some x \<Longrightarrow> Q x) \<Longrightarrow> find P (rev (filter Q xs)) = find P (rev xs)"
  by (induction xs rule: rev_induct) (auto split: if_splits)

lemma fold_put_entry:
  "map_option settled_row (hget (fold (put_entry custom) rows m) u) =
     (case find (\<lambda>r. bw_uri r = u) (rev rows) of
        None \<Rightarrow> map_option settled_row (hget m u)
      | Some r \<Rightarrow> map_option settled_row (hget (put_entry (\<lambda>_. []) r []) u))"
  by (induction rows rule: rev_induct) (auto simp: hget_put_entry)

lemma hget_fold_last:
  "hget (fold (\<lambda>(i, x). hput (k x) i) ps m) u =
     (case find (\<lambda>(i, x). k x = u) (rev ps) of None \<Rightarrow> hget m u | Some (i, x) \<Rightarrow> Some i)"
  by (induction ps rule: rev_induct) (auto simp: hm_simps)

lemma find_SomeD: "find P xs = Some x \<Longrightarrow> x \<in> set xs \<and> P x"
  by (induction xs) (auto split: if_splits)

lemma find_map: "find P (map f xs) = map_option f (find (P \<circ> f) xs)"
  by (induction xs) auto

lemma last_is_current:
  assumes "rows_of (last_ordinals xs) nxt 0 xs rows" "find (\<lambda>r. bw_uri r = u) (rev rows) = Some r"
  shows "bw_is_current r"
proof -
  let ?ps = "enumerate 0 xs"
  have eq: "map (\<lambda>r. (bw_ordinal r, bw_uri r)) (rev rows) = map (\<lambda>(k, x). (k, row_key x)) (rev ?ps)"
    using assms(1) by (simp add: rows_of_def flip: rev_map)
  have r: "r \<in> set rows" "bw_uri r = u"
    using find_SomeD [OF assms(2)] by simp_all
  have "find (\<lambda>p. snd p = u) (map (\<lambda>r. (bw_ordinal r, bw_uri r)) (rev rows)) = Some (bw_ordinal r, u)"
    using assms(2) r(2) by (simp add: find_map comp_def)
  then have "map_option (\<lambda>(k, x). (k, row_key x)) (find (\<lambda>(k, x). row_key x = u) (rev ?ps)) = Some (bw_ordinal r, u)"
    unfolding eq find_map by (simp add: comp_def case_prod_unfold)
  then have "hget (last_ordinals xs) u = Some (bw_ordinal r)"
    unfolding last_ordinals_def row_key_def [symmetric] hget_fold_last by auto
  then show ?thesis using assms(1) r by (simp add: rows_of_def)
qed

lemma base_versions_numbers:
  assumes "u \<in> set (map row_key xs)"
  shows "hget (base_versions xs db) u = map_option er_version (hget (db_entries db) u)"
proof -
  have "base_versions xs db = map (\<lambda>(u, r). (u, er_version r))
      (filter (\<lambda>(u, r). u \<in> set (map row_key xs)) (db_entries db))"
    by (simp add: base_versions_def row_key_def)
  moreover have "hget (filter (\<lambda>(u, r). u \<in> K) m) u = hget m u" if "u \<in> K" for m :: "(string, entry_row) hmap" and K
    using that by (induction m) (auto simp: hget_def)
  ultimately show ?thesis using assms by (simp add: hget_map_value)
qed

text \<open>The custom metadata, as they are stored, are no JSON null and no text that is not JSON.\<close>

definition customs_accepted :: "sql_env \<Rightarrow> stamped list \<Rightarrow> bool" where
  "customs_accepted env xs \<longleftrightarrow> list_all (\<lambda>x. case sanitize_entry_for_write (stamped_entry x) of
     Inl err \<Rightarrow> True | Inr e1 \<Rightarrow> custom_column env (m_custom (e_metadata e1)) \<noteq> None) xs"

lemma write_chunk_stored:
  assumes c: "counted db" and p: "prepare_batch_chunk env xs (base_versions xs db) = Inr (rows, vs)"
    and cur: "insert_current env (filter bw_is_current rows) db = Inr (u, db1)"
  shows "write_chunk env xs db = Inr (vs, db
      \<lparr>db_entries := fold (put_entry (column_text env)) (filter bw_is_current rows) (db_entries db),
       db_versions := fold put_version rows (db_versions db), db_jobs := fold put_job rows (db_jobs db)\<rparr>)" (is ?chunk)
    and "write_each env xs db = Inr (vs, fold (apply_row env) rows db)" (is ?each)
    and "agree (snd (projr (write_chunk env xs db))) (fold (apply_row env) rows db)"
proof -
  have p: "prepare_rows env (last_ordinals xs) (base_versions xs db) 0 xs = Inr (rows, vs)"
    using p by (simp add: prepare_batch_chunk_def)
  show ?each
    using prepared_each [OF c, of xs "base_versions xs db" env "last_ordinals xs" 0] p
    by (auto simp: base_versions_numbers rel_sum.simps)
  have ok: "rows_of (last_ordinals xs) (base_versions xs db) 0 xs rows" by (rule prepared_rows [OF p])
  have keys: "bw_uri r \<in> set (map row_key xs)" if "r \<in> set rows" for r
  proof -
    have "map bw_uri rows = map row_key xs"
      using arg_cong [of _ _ "map snd", OF ok [unfolded rows_of_def, THEN conjunct1]]
      by (simp add: comp_def case_prod_unfold map_snd_enumerate flip: map_map [of row_key snd, unfolded comp_def])
    then show ?thesis using that by (metis image_eqI list.set_map)
  qed
  have fresh: "\<not> hhas (db_versions db) (bw_uri r, bw_version r)" if "r \<in> set rows" for r
  proof -
    have "(case map_option er_version (hget (db_entries db) (bw_uri r)) of Some n \<Rightarrow> n | None \<Rightarrow> 0) < bw_version r"
      using ok that unfolding base_versions_numbers [OF keys [OF that], symmetric] by (simp add: rows_of_def)
    then show ?thesis using c unfolding counted_numbers
      by (cases "map_option er_version (hget (db_entries db) (bw_uri r))") auto
  qed
  let ?db1 = "db\<lparr>db_entries := fold (put_entry (column_text env)) (filter bw_is_current rows) (db_entries db)\<rparr>"
  have "insert_current env (filter bw_is_current rows) db = Inr ((), ?db1)"
    using cur insert_current_Inr [OF cur] by simp
  moreover have "insert_history env rows ?db1 = Inr ((), ?db1\<lparr>db_versions := fold put_version rows (db_versions ?db1)\<rparr>)"
    by (rule insert_history_fold) (use ok fresh in \<open>simp_all add: rows_of_def\<close>)
  moreover have "insert_jobs rows db2 = db2\<lparr>db_jobs := fold put_job rows (db_jobs db2)\<rparr>" for db2
    by (rule insert_jobs_fold) (use ok in \<open>simp add: rows_of_def\<close>)
  ultimately show chunk: ?chunk
    using p by (simp add: write_chunk_def prepare_batch_chunk_def)
  have "find (\<lambda>r. bw_uri r = u) (rev (filter bw_is_current rows)) = find (\<lambda>r. bw_uri r = u) (rev rows)" for u
    by (rule find_rev_filter) (rule last_is_current [OF ok])
  then show "agree (snd (projr (write_chunk env xs db))) (fold (apply_row env) rows db)"
    unfolding chunk fold_apply_row by (simp add: agree_def fold_put_entry)
qed

lemma write_chunk_each:
  assumes c: "counted db" and s: "customs_accepted env xs"
  shows "same_outcome env (write_chunk env xs db) (write_each env xs db)"
proof (cases "prepare_batch_chunk env xs (base_versions xs db)")
  case (Inl err)
  then show ?thesis
    using prepared_each [OF c, of xs "base_versions xs db" env "last_ordinals xs" 0]
    by (auto simp: write_chunk_def prepare_batch_chunk_def base_versions_numbers rel_sum.simps)
next
  case (Inr rv)
  obtain rows vs where rv: "rv = (rows, vs)" by fastforce
  then have p: "prepare_rows env (last_ordinals xs) (base_versions xs db) 0 xs = Inr (rows, vs)"
    using Inr by (simp add: prepare_batch_chunk_def)
  have customs: "custom_column env (bw_custom r) \<noteq> None" if r: "r \<in> set rows" for r
  proof -
    have "Inr (bw_custom r) \<in> set (map (\<lambda>x. map_sum id (\<lambda>e. m_custom (e_metadata e))
        (sanitize_entry_for_write (stamped_entry x))) xs)"
      unfolding prepared_customs [OF p, symmetric] using r by simp
    then obtain x where "x \<in> set xs" "map_sum id (\<lambda>e. m_custom (e_metadata e))
        (sanitize_entry_for_write (stamped_entry x)) = Inr (bw_custom r)" by auto
    then obtain e1 where "x \<in> set xs" "sanitize_entry_for_write (stamped_entry x) = Inr e1"
      "bw_custom r = m_custom (e_metadata e1)"
      by (cases "sanitize_entry_for_write (stamped_entry x)") auto
    then show ?thesis using s by (auto simp: customs_accepted_def list_all_iff)
  qed
  have "insert_current env (filter bw_is_current rows) db = Inr ((), db\<lparr>db_entries :=
      fold (put_entry (column_text env)) (filter bw_is_current rows) (db_entries db)\<rparr>)"
    by (rule insert_current_fold) (use customs in auto)
  from write_chunk_stored [OF c Inr [unfolded rv] this] show ?thesis by simp
qed

lemma write_chunk_Inr:
  assumes "write_chunk env xs db = Inr (vs, db')" "counted db"
  obtains rows where "prepare_batch_chunk env xs (base_versions xs db) = Inr (rows, vs)"
    "db_entries db' = fold (put_entry (column_text env)) (filter bw_is_current rows) (db_entries db)"
    "db_versions db' = fold put_version rows (db_versions db)" "db_relations db' = db_relations db"
    "write_each env xs db = Inr (vs, fold (apply_row env) rows db)"
    "agree db' (fold (apply_row env) rows db)"
proof -
  obtain rows vs' where p: "prepare_batch_chunk env xs (base_versions xs db) = Inr (rows, vs')"
    using assms(1) by (auto simp: write_chunk_def split: sum.splits)
  obtain u db1 where cur: "insert_current env (filter bw_is_current rows) db = Inr (u, db1)"
    using assms(1) p by (auto simp: write_chunk_def split: sum.splits)
  note st = write_chunk_stored [OF assms(2) p cur]
  have "vs' = vs" "agree db' (fold (apply_row env) rows db)" using assms(1) st(1,3) by auto
  moreover have "db_entries db' = fold (put_entry (column_text env)) (filter bw_is_current rows) (db_entries db)"
    "db_versions db' = fold put_version rows (db_versions db)" "db_relations db' = db_relations db"
    using assms(1) st(1) by auto
  ultimately show thesis using that p st(2) by simp
qed

subsection \<open>The whole batch\<close>

lemma chunk_loop_concat: "0 < bc_max_rows cfg \<Longrightarrow> concat (chunk_loop env cfg xs) = xs"
proof (induction env cfg xs rule: chunk_loop.induct)
  case (1 env cfg xs)
  obtain c rest where c: "take_chunk env cfg 0 0 xs = (c, rest)" by fastforce
  show ?case
  proof (cases "xs = []")
    case False
    then show ?thesis
      using "1.IH" [of "(c, rest)" c rest] "1.prems" c take_chunk_append [OF c]
      by (subst chunk_loop.simps) simp
  qed (simp add: chunk_loop.simps)
qed

lemma chunks_each:
  assumes "counted db" "agree db db'" "list_all (customs_accepted env) cs"
  shows "same_outcome env (write_chunks env cs db) (write_each env (concat cs) db')"
  using assms
proof (induction cs arbitrary: db db')
  case (Cons c cs)
  have one: "same_outcome env (write_chunk env c db) (write_each env c db)"
    using Cons.prems by (intro write_chunk_each) simp_all
  have other: "rel_sum (=) (rel_prod (=) agree) (write_each env c db) (write_each env c db')"
    by (rule agree_each [OF Cons.prems(2,1)])
  show ?case
  proof (cases "write_chunk env c db")
    case (Inl err)
    then show ?thesis using one other by (auto simp: each_append rel_sum.simps)
  next
    case (Inr w)
    obtain vs db1 where w: "w = (vs, db1)" by fastforce
    obtain db2 db2' where d: "write_each env c db = Inr (vs, db2)" "agree db1 db2"
      "write_each env c db' = Inr (vs, db2')" "agree db2 db2'"
      using one other Inr w by (auto simp: rel_sum.simps)
    have turn: "agree b a" if "agree a b" for a b using that by (simp add: agree_def)
    have "counted db1" by (rule agree_counted [OF turn [OF d(2)] each_counted [OF Cons.prems(1) d(1)]])
    from Cons.IH [OF this agree_trans [OF d(2,4)]] Cons.prems(3) show ?thesis
      using Inr w d(3) by (auto simp: each_append rel_sum.simps)
  qed
qed simp

lemma batch_each:
  assumes "counted db" "0 < bc_max_rows cfg" "0 < bc_max_bytes cfg" "customs_accepted env xs"
  shows "rel_prod (rel_sum (same_error env) (=)) agree
    (sql_batch_write env cfg xs db) (in_transaction (write_each env xs) db)"
proof (cases "xs = []")
  case False
  let ?cs = "chunk_loop env cfg xs"
  have "concat ?cs = xs" by (rule chunk_loop_concat [OF assms(2)])
  moreover have "list_all (customs_accepted env) cs" if "customs_accepted env (concat cs)" for cs
    using that by (auto simp: customs_accepted_def list_all_iff)
  ultimately have "list_all (customs_accepted env) ?cs" using assms(4) by simp
  then have "same_outcome env (write_chunks env ?cs db) (write_each env xs db)"
    using chunks_each [OF assms(1) agree_refl, of env ?cs] \<open>concat ?cs = xs\<close> by simp
  moreover have "chunks env cfg xs = Inr ?cs"
    using assms(2,3) by (simp add: chunks_def validate_batch_config_def)
  ultimately show ?thesis
    using False by (auto simp: sql_batch_write_def in_transaction_def agree_refl rel_sum.simps)
qed (simp add: sql_batch_write_def in_transaction_def agree_refl)

end
