(* ===== verification/Sqlite_Integrity.thy ===== *)
theory Sqlite_Integrity
  imports Sqlite_Facts
begin

text \<open>
  The integrity of the tables of the SQLite store: an invariant of every sequence of its
  transactions, whether they succeed or fail. The versions under an address are numbered from 1 to
  the current one; the row of an address and each kept version hold an entry of that address, bound
  to its tenant and free of sensitive data, and the row's columns are those of its entry; the log of
  the graph is numbered by its revisions.
\<close>

section \<open>The invariant\<close>

text \<open>The addresses of the callers are parsed ones, so that the text identifies the address.\<close>

definition parsed_uri :: "(string \<Rightarrow> datetime option) \<Rightarrow> context_uri \<Rightarrow> bool" where
  "parsed_uri pt u \<longleftrightarrow> parse pt (u_canonical u) = Inr u"

lemma parsed_unique: "parsed_uri pt u \<Longrightarrow> parsed_uri pt v \<Longrightarrow> u_canonical u = u_canonical v \<Longrightarrow> u = v"
  by (simp add: parsed_uri_def)

definition bound_entry :: "sql_env \<Rightarrow> (string \<Rightarrow> datetime option) \<Rightarrow> string \<Rightarrow> nat \<Rightarrow> context_entry \<Rightarrow> bool" where
  "bound_entry env pt u n e \<longleftrightarrow>
     u_canonical (e_uri e) = u \<and> parsed_uri pt (e_uri e) \<and> e_mvcc_version e = version_from_sql n \<and>
     validate_tenant_binding (se_uuid_parse env) (se_uuid_display env) e = Inr () \<and>
     scan_sensitive_entry e = []"

definition row_ok :: "sql_env \<Rightarrow> (string \<Rightarrow> datetime option) \<Rightarrow> string \<Rightarrow> entry_row \<Rightarrow> bool" where
  "row_ok env pt u r \<longleftrightarrow>
     (let e = er_entry r
      in bound_entry env pt u (er_version r) e \<and> er_version r \<le> SQL_MAX \<and>
         er_tenant r = se_uuid_display env (tenant_uuid (e_tenant e)) \<and>
         (er_l0 r, er_l1 r, er_l2 r) = payload_levels env (e_payload e) \<and>
         er_content_type r = content_type_column e \<and> er_state_scope r = scope_column e \<and>
         er_tags r = tags_column env e \<and> er_updated_at r = e_updated_at e)"

definition kept_ok :: "sql_env \<Rightarrow> (string \<Rightarrow> datetime option) \<Rightarrow> string \<Rightarrow> nat \<Rightarrow> version_row \<Rightarrow> bool" where
  "kept_ok env pt u n h \<longleftrightarrow>
     bound_entry env pt u n (hv_entry h) \<and> hv_l0 h = fst (payload_levels env (e_payload (hv_entry h)))"

definition rows_ok :: "sql_env \<Rightarrow> (string \<Rightarrow> datetime option) \<Rightarrow> sqlite_db \<Rightarrow> bool" where
  "rows_ok env pt db \<longleftrightarrow>
     (\<forall>u r. hget (db_entries db) u = Some r \<longrightarrow> row_ok env pt u r) \<and>
     (\<forall>u n h. hget (db_versions db) (u, n) = Some h \<longrightarrow> kept_ok env pt u n h)"

text \<open>The row of an address is its newest version; renaming touches the time of the row only.\<close>

definition current_kept :: "sqlite_db \<Rightarrow> bool" where
  "current_kept db \<longleftrightarrow>
     (\<forall>u r. hget (db_entries db) u = Some r \<longrightarrow>
        (\<exists>h. hget (db_versions db) (u, er_version r) = Some h \<and>
             (hv_entry h)\<lparr>e_updated_at := 0\<rparr> = (er_entry r)\<lparr>e_updated_at := 0\<rparr>))"

definition graph_logged :: "sqlite_db \<Rightarrow> bool" where
  "graph_logged db \<longleftrightarrow>
     (\<forall>scope n. hhas (db_mutations db) (scope, n) \<longleftrightarrow>
        1 \<le> n \<and> n \<le> (case hget (db_revisions db) scope of Some k \<Rightarrow> k | None \<Rightarrow> 0))"

definition keys_distinct :: "sqlite_db \<Rightarrow> bool" where
  "keys_distinct db \<longleftrightarrow> hm_wf (db_entries db) \<and> hm_wf (db_versions db) \<and> hm_wf (db_relations db)"

definition db_inv :: "sql_env \<Rightarrow> (string \<Rightarrow> datetime option) \<Rightarrow> sqlite_db \<Rightarrow> bool" where
  "db_inv env pt db \<longleftrightarrow>
     counted db \<and> rows_ok env pt db \<and> current_kept db \<and> graph_logged db \<and> keys_distinct db"

lemma db_inv_empty: "db_inv env pt sqlite_empty"
  by (simp add: db_inv_def sqlite_empty_def counted_def rows_ok_def current_kept_def graph_logged_def
      keys_distinct_def hm_simps hhas_def)

lemma db_inv_jobs [simp]: "db_inv env pt (db\<lparr>db_jobs := js\<rparr>) = db_inv env pt db"
  "db_inv env pt (db\<lparr>db_blobs := bs\<rparr>) = db_inv env pt db"
  by (simp_all add: db_inv_def counted_def rows_ok_def current_kept_def graph_logged_def keys_distinct_def)

section \<open>Writing\<close>

lemma sanitize_clean: "sanitize_entry_for_write e = Inr e1 \<Longrightarrow> scan_sensitive_entry e1 = []"
  using sanitize_cases [of e]
  by (auto simp: scan_sensitive_entry_def redact_payload_again simp flip: scan_payload_is_redact)

lemma sanitize_tenant: "sanitize_entry_for_write e = Inr e1 \<Longrightarrow> e_tenant e1 = e_tenant e"
  using sanitize_cases [of e] by auto

lemma binding_depends:
  "u_tenant (e_uri e) = u_tenant (e_uri e') \<Longrightarrow> e_tenant e = e_tenant e' \<Longrightarrow>
   validate_tenant_binding up ud e = validate_tenant_binding up ud e'"
  by (simp add: validate_tenant_binding_def cong: option.case_cong tenant_id.case_cong if_cong)

lemma stored_bound:
  assumes "validate_tenant_binding (se_uuid_parse env) (se_uuid_display env) e = Inr ()"
    "sanitize_entry_for_write e = Inr e1" "parsed_uri pt (e_uri e)"
  shows "bound_entry env pt (u_canonical (e_uri e1)) n (stored_entry now n e1)"
  using assms sanitize_clean [OF assms(2)] sanitize_uri [OF assms(2)] sanitize_tenant [OF assms(2)]
    binding_depends [of "stored_entry now n e1" e "se_uuid_parse env" "se_uuid_display env"]
  by (simp add: bound_entry_def scan_sensitive_entry_def)

definition good_row :: "sql_env \<Rightarrow> (string \<Rightarrow> datetime option) \<Rightarrow> batch_row \<Rightarrow> bool" where
  "good_row env pt r \<longleftrightarrow>
     (let e = bw_entry r
      in bound_entry env pt (bw_uri r) (bw_version r) e \<and> bw_version r \<le> SQL_MAX \<and>
         bw_tenant r = se_uuid_display env (tenant_uuid (e_tenant e)) \<and>
         (bw_l0 r, bw_l1 r, bw_l2 r) = payload_levels env (e_payload e) \<and>
         bw_content_type r = content_type_column e \<and> bw_state_scope r = scope_column e \<and>
         bw_tags r = tags_column env e \<and> bw_updated_at r = e_updated_at e)"

lemma good_row_of:
  assumes "validate_tenant_binding (se_uuid_parse env) (se_uuid_display env) e = Inr ()"
    "sanitize_entry_for_write e = Inr e1" "parsed_uri pt (e_uri e)" "n \<le> SQL_MAX"
  shows "good_row env pt (batch_row_of env lasts i n now fresh (stored_entry now n e1) m)"
  using stored_bound [OF assms(1-3), of n now] assms(4)
  by (auto simp: good_row_def batch_row_of_def Let_def stored_entry_def [of now n e1] split: prod.split)

lemma rows_ok_apply:
  assumes "rows_ok env pt db" "good_row env pt r"
  shows "rows_ok env pt (apply_row env r db)"
  using assms unfolding rows_ok_def apply_row_def put_entry_def put_version_def
  by (auto simp: hm_simps row_ok_def good_row_def kept_ok_def Let_def split: if_splits)
    (metis fst_conv)+

lemma current_kept_apply:
  assumes "current_kept db" "counted db" "bw_version r = next_number db (bw_uri r)"
  shows "current_kept (apply_row env r db)"
proof -
  have "\<exists>h. hget (db_versions (apply_row env r db)) (u, er_version r') = Some h \<and>
      (hv_entry h)\<lparr>e_updated_at := 0\<rparr> = (er_entry r')\<lparr>e_updated_at := 0\<rparr>"
    if r': "hget (db_entries (apply_row env r db)) u = Some r'" for u r'
  proof (cases "u = bw_uri r")
    case True
    then show ?thesis using r' by (auto simp: apply_row_def put_entry_def put_version_def hm_simps)
  next
    case False
    then have "hget (db_entries db) u = Some r'" using r' by (simp add: apply_row_def put_entry_def hm_simps)
    then show ?thesis using assms(1) False
      by (auto simp: current_kept_def apply_row_def put_version_def hm_simps)
  qed
  then show ?thesis by (simp add: current_kept_def)
qed

lemma apply_row_inv:
  assumes "db_inv env pt db" "good_row env pt r" "bw_version r = next_number db (bw_uri r)"
  shows "db_inv env pt (apply_row env r db)"
proof -
  have "keys_distinct (apply_row env r db)"
    using assms(1) by (simp add: db_inv_def keys_distinct_def apply_row_def put_entry_def put_version_def hm_simps)
  moreover have "graph_logged (apply_row env r db)"
    using assms(1) by (simp add: db_inv_def graph_logged_def apply_row_def)
  ultimately show ?thesis
    using assms counted_apply rows_ok_apply current_kept_apply unfolding db_inv_def by blast
qed

lemma write_in_tx_inv:
  assumes "db_inv env pt db" "parsed_uri pt (e_uri e)" "write_in_tx env now e db = Inr (v, db1)"
  shows "db_inv env pt db1"
proof -
  have c: "counted db" using assms(1) by (simp add: db_inv_def)
  obtain e1 where e1: "validate_tenant_binding (se_uuid_parse env) (se_uuid_display env) e = Inr ()"
    "sanitize_entry_for_write e = Inr e1" "next_number db (u_canonical (e_uri e1)) \<le> SQL_MAX"
    "db1 = apply_row env (batch_row_of env [] 0 (next_number db (u_canonical (e_uri e1))) now 0
       (stored_entry now (next_number db (u_canonical (e_uri e1))) e1) None) db"
    using assms(3) unfolding write_in_tx_row [OF c] by (auto simp: Let_def split: sum.splits if_splits)
  show ?thesis unfolding e1(4)
    by (rule apply_row_inv [OF assms(1) good_row_of [OF e1(1,2) assms(2) e1(3)]]) (simp add: row_fields)
qed

lemma write_body_inv:
  assumes "db_inv env pt db" "parsed_uri pt (e_uri e)" "sql_write_body env now fresh queued e db = Inr (v, db1)"
  shows "db_inv env pt db1"
proof -
  obtain db0 js where "write_in_tx env now e db = Inr (v, db0)" "db1 = db0\<lparr>db_jobs := js\<rparr>"
  proof -
    obtain db0 u where db0: "write_in_tx env now e db = Inr (v, db0)" "queue_upsert env fresh queued e v db0 = Inr (u, db1)"
      using assms(3) by (auto simp: sql_write_body_def split: sum.splits)
    have "\<exists>js. db1 = db0\<lparr>db_jobs := js\<rparr>"
      using db0(2) by (cases db0) (auto simp: queue_upsert_def enqueue_sqlite_def split: sum.splits option.splits)
    then show ?thesis using that db0(1) by blast
  qed
  then show ?thesis using write_in_tx_inv [OF assms(1,2)] by simp
qed

section \<open>Batches\<close>

lemma write_each_inv:
  "db_inv env pt db \<Longrightarrow> \<forall>x\<in>set xs. parsed_uri pt (e_uri (stamped_entry x)) \<Longrightarrow>
   write_each env xs db = Inr (vs, db1) \<Longrightarrow> db_inv env pt db1"
proof (induction xs arbitrary: db vs)
  case (Cons x xs)
  obtain now fresh e where x: "x = (now, fresh, e)" by (cases x) auto
  obtain v db0 ws where w: "sql_write_body env now fresh now e db = Inr (v, db0)" "write_each env xs db0 = Inr (ws, db1)"
    using Cons.prems(3) by (auto simp: x split: sum.splits)
  have "db_inv env pt db0"
    by (rule write_body_inv [OF Cons.prems(1) _ w(1)]) (use Cons.prems(2) x in \<open>simp add: stamped_entry_def\<close>)
  then show ?case using Cons.IH [OF _ _ w(2)] Cons.prems(2) by simp
qed simp

lemma fold_entries_wf: "hm_wf m \<Longrightarrow> hm_wf (fold (put_entry custom) rows m)"
  by (induction rows arbitrary: m) (simp_all add: put_entry_def hm_simps)

lemma fold_versions_wf: "hm_wf m \<Longrightarrow> hm_wf (fold put_version rows m)"
  by (induction rows arbitrary: m) (simp_all add: put_version_def hm_simps)

lemma row_ok_settled: "settled_row r = settled_row r' \<Longrightarrow> row_ok env pt u r = row_ok env pt u r'"
  by (cases r; cases r') (simp add: settled_row_def row_ok_def)

lemma agreed_row:
  assumes "agree db db'" "hget (db_entries db) u = Some r"
  obtains r' where "hget (db_entries db') u = Some r'" "settled_row r = settled_row r'"
proof -
  have "map_option settled_row (hget (db_entries db') u) = Some (settled_row r)"
    using assms by (metis agree_def option.simps(9))
  then show thesis using that by (cases "hget (db_entries db') u") auto
qed

lemma agree_inv:
  assumes "agree db db'" "db_inv env pt db'" "keys_distinct db"
  shows "db_inv env pt db"
proof -
  have turned: "agree db' db" using assms(1) by (simp add: agree_def)
  have same: "hget (db_versions db) = hget (db_versions db')" using assms(1) by (simp add: agree_def)
  have "rows_ok env pt db"
    unfolding rows_ok_def same
  proof (intro conjI allI impI)
    fix u r assume "hget (db_entries db) u = Some r"
    then obtain r' where "hget (db_entries db') u = Some r'" "settled_row r = settled_row r'"
      by (rule agreed_row [OF assms(1)])
    moreover have "row_ok env pt u r'" using calculation(1) assms(2) by (simp add: db_inv_def rows_ok_def)
    ultimately show "row_ok env pt u r" using row_ok_settled by blast
  qed (use assms(2) in \<open>simp add: db_inv_def rows_ok_def\<close>)
  moreover have "current_kept db"
    unfolding current_kept_def same
  proof (intro allI impI)
    fix u r assume "hget (db_entries db) u = Some r"
    then obtain r' where r': "hget (db_entries db') u = Some r'" "settled_row r = settled_row r'"
      by (rule agreed_row [OF assms(1)])
    then have "er_version r = er_version r'" "er_entry r = er_entry r'"
      by (cases r; cases r'; simp add: settled_row_def)+
    then show "\<exists>h. hget (db_versions db') (u, er_version r) = Some h \<and>
        (hv_entry h)\<lparr>e_updated_at := 0\<rparr> = (er_entry r)\<lparr>e_updated_at := 0\<rparr>"
      using r'(1) assms(2) by (simp add: db_inv_def current_kept_def)
  qed
  ultimately show ?thesis
    using assms agree_counted [OF turned] by (auto simp: db_inv_def graph_logged_def agree_def)
qed

lemma write_chunk_inv:
  assumes "db_inv env pt db" "\<forall>x\<in>set xs. parsed_uri pt (e_uri (stamped_entry x))"
    and "write_chunk env xs db = Inr (vs, db1)"
  shows "db_inv env pt db1"
proof -
  have c: "counted db" using assms(1) by (simp add: db_inv_def)
  obtain rows where r: "db_entries db1 = fold (put_entry (column_text env)) (filter bw_is_current rows) (db_entries db)"
    "db_versions db1 = fold put_version rows (db_versions db)" "db_relations db1 = db_relations db"
    "write_each env xs db = Inr (vs, fold (apply_row env) rows db)" "agree db1 (fold (apply_row env) rows db)"
    by (rule write_chunk_Inr [OF assms(3) c])
  have "keys_distinct db1"
    using assms(1) by (simp add: db_inv_def keys_distinct_def r(1-3) fold_entries_wf fold_versions_wf)
  then show ?thesis by (rule agree_inv [OF r(5) write_each_inv [OF assms(1,2) r(4)]])
qed

lemma write_chunks_inv:
  "db_inv env pt db \<Longrightarrow> \<forall>c\<in>set cs. \<forall>x\<in>set c. parsed_uri pt (e_uri (stamped_entry x)) \<Longrightarrow>
   write_chunks env cs db = Inr (vs, db1) \<Longrightarrow> db_inv env pt db1"
proof (induction cs arbitrary: db vs)
  case (Cons c cs)
  obtain v db0 ws where "write_chunk env c db = Inr (v, db0)" "write_chunks env cs db0 = Inr (ws, db1)"
    using Cons.prems(3) by (auto split: sum.splits)
  then show ?case using Cons.IH Cons.prems(1,2) write_chunk_inv by (metis list.set_intros(1,2))
qed simp

section \<open>Deleting and the graph\<close>

lemma bump_inv:
  assumes "db_inv env pt db" "bump_if env changed now scope operation from to db = Inr (u, db1)"
  shows "db_inv env pt db1"
proof (cases changed)
  case True
  let ?n = "case hget (db_revisions db) scope of Some n \<Rightarrow> n + 1 | None \<Rightarrow> 1"
  have db1: "db1 = db\<lparr>db_revisions := hput scope ?n (db_revisions db), db_mutations := hput (scope, ?n)
      \<lparr>gm_operation = operation, gm_from = from, gm_to = to, gm_created_at = now\<rparr> (db_mutations db)\<rparr>"
    using assms(2) True by (auto simp: bump_if_def bump_graph_revision_def Let_def split: sum.splits if_splits)
  have "hhas (db_mutations db1) (s, n) \<longleftrightarrow> hhas (db_mutations db) (s, n) \<or> (s, n) = (scope, ?n)" for s n
    by (cases "(s, n) = (scope, ?n)") (auto simp: db1 hhas_def hm_simps)
  moreover have "graph_logged db" using assms(1) by (simp add: db_inv_def)
  ultimately have "graph_logged db1"
    unfolding graph_logged_def db1 by (auto simp: hm_simps le_Suc_eq split: option.splits)
  then show ?thesis
    using assms(1) by (simp add: db_inv_def db1 counted_def rows_ok_def current_kept_def keys_distinct_def)
qed (use assms in \<open>simp add: bump_if_def\<close>)

lemma relations_inv:
  "db_inv env pt db \<Longrightarrow> hm_wf rels \<Longrightarrow> db_inv env pt (db\<lparr>db_relations := rels\<rparr>)"
  by (simp add: db_inv_def counted_def rows_ok_def current_kept_def graph_logged_def keys_distinct_def)

lemma delete_inv:
  assumes "db_inv env pt db" "sql_delete_body env fresh queued now uri db = Inr (u, db1)"
  shows "db_inv env pt db1"
proof -
  let ?k = "u_canonical uri"
  let ?db = "\<lambda>js. db\<lparr>db_entries := hdel ?k (db_entries db), db_jobs := js,
      db_versions := filter (\<lambda>((u, v), row). u \<noteq> ?k) (db_versions db),
      db_relations := filter (\<lambda>r. \<not> touches ?k r) (db_relations db)\<rparr>"
  have wf: "hm_wf (db_versions db)" "hm_wf (db_entries db)" "hm_wf (db_relations db)"
    using assms(1) by (simp_all add: db_inv_def keys_distinct_def)
  have versions: "hget (db_versions (?db js)) (u, v) = (if u = ?k then None else hget (db_versions db) (u, v))" for u v js
    using hget_filter [OF wf(1), of "\<lambda>((u, v), row). u \<noteq> ?k" "(u, v)"] by (simp split: option.split)
  have "db_inv env pt (?db js)" for js
    using assms(1) wf unfolding db_inv_def counted_def rows_ok_def current_kept_def graph_logged_def keys_distinct_def hhas_def versions
    by (simp add: hm_simps hm_wf_filter)
  moreover obtain js changed where "bump_if env changed now (u_tenant uri) ''delete'' (Some ?k) None (?db js) = Inr (u, db1)"
    using assms(2) by (auto simp: sql_delete_body_def Let_def enqueue_sqlite_def split: if_splits)
  ultimately show ?thesis using bump_inv by blast
qed

lemma insert_relation_wf: "hm_wf m \<Longrightarrow> hm_wf (insert_relation r m)"
  by (simp add: insert_relation_def hm_simps)

lemma in_transaction_inv:
  "P db \<Longrightarrow> (\<And>x db1. body db = Inr (x, db1) \<Longrightarrow> P db1) \<Longrightarrow> P (snd (in_transaction body db))"
  by (simp add: in_transaction_def split: sum.split prod.split)

lemma edge_inv:
  assumes "db_inv env pt db" "hm_wf rels"
    and "bump_if env changed now scope operation from to (db\<lparr>db_relations := rels\<rparr>) = Inr (u, db1)"
  shows "db_inv env pt db1"
  by (rule bump_inv [OF relations_inv [OF assms(1,2)] assms(3)])

lemma relations_wf: "db_inv env pt db \<Longrightarrow> hm_wf (db_relations db)"
  by (simp add: db_inv_def keys_distinct_def)

lemma add_edge_inv:
  assumes "db_inv env pt db"
  shows "db_inv env pt (snd (sql_add_edge env now bumped from to kind db))"
  unfolding sql_add_edge_def Let_def
  by (rule in_transaction_inv [where P = "db_inv env pt", OF assms]) (rule edge_inv [OF assms insert_relation_wf [OF relations_wf [OF assms]]])

lemma remove_edge_inv:
  assumes "db_inv env pt db"
  shows "db_inv env pt (snd (sql_remove_edge env bumped from to db))"
  unfolding sql_remove_edge_def Let_def
  by (rule in_transaction_inv [where P = "db_inv env pt", OF assms]) (rule edge_inv [OF assms hm_wf_filter [OF relations_wf [OF assms]]])

section \<open>Renaming and rolling back\<close>

lemma versions_under_row: "(v, row) \<in> set (versions_under db u) \<longleftrightarrow> ((u, v), row) \<in> set (db_versions db)"
  by (force simp: versions_under_def)

lemma versions_under_distinct:
  assumes "hm_wf (db_versions db)"
  shows "distinct (map fst (versions_under db u))"
proof -
  let ?rows = "map (\<lambda>((u, v), row). (v, row)) (filter (\<lambda>((u', v), row). u' = u) (db_versions db))"
  have "map fst ?rows = map snd (filter (\<lambda>k. fst k = u) (map fst (db_versions db)))"
    by (induction "db_versions db" rule: list.induct) (auto simp: case_prod_unfold filter_map comp_def)
  moreover have "distinct (filter (\<lambda>k. fst k = u) (map fst (db_versions db)))"
    using assms by (simp add: hm_wf_def)
  then have "distinct (map snd (filter (\<lambda>k. fst k = u) (map fst (db_versions db))))"
    by (rule distinct_map [THEN iffD2, OF conjI]) (auto simp: inj_on_def prod_eq_iff)
  ultimately have "distinct (map fst ?rows)" by simp
  then show ?thesis by (simp add: versions_under_def distinct_map inj_on_def)
qed

lemma map_of_versions_under:
  assumes "hm_wf (db_versions db)"
  shows "map_of (versions_under db u) v = hget (db_versions db) (u, v)"
proof -
  have "map_of (versions_under db u) v = Some row \<longleftrightarrow> hget (db_versions db) (u, v) = Some row" for row
    using versions_under_distinct [OF assms, of u]
    by (simp add: versions_under_row hget_eq_Some_iff [OF assms])
  then show ?thesis by (metis not_None_eq)
qed

lemma rename_versions_get:
  assumes "rename_versions env f to vs db = Inr (x, db1)" "distinct (map fst vs)"
  shows "hget (db_versions db1) (u, w) =
      (case map_of vs w of
         Some row \<Rightarrow>
           (if u = u_canonical to then Some (row\<lparr>hv_entry := (hv_entry row)\<lparr>e_uri := to\<rparr>\<rparr>)
            else if u = f then None else hget (db_versions db) (u, w))
       | None \<Rightarrow> hget (db_versions db) (u, w))"
    and "hm_wf (db_versions db) \<Longrightarrow> hm_wf (db_versions db1)"
    and "db1\<lparr>db_versions := []\<rparr> = db\<lparr>db_versions := []\<rparr>"
  using assms
proof (induction env f to vs db rule: rename_versions.induct)
  case (2 env f to v row rest db)
  {
    case 1
    then show ?case
      using "2.IH"(1) map_of_eq_None_iff [of rest v]
      by (auto simp: Let_def hm_simps simp del: map_of_eq_Some_iff split: if_splits option.splits)
  next
    case 2
    then show ?case using "2.IH"(2) by (auto simp: Let_def hm_simps split: if_splits)
  next
    case 3
    then show ?case using "2.IH"(3) by (auto simp: Let_def split: if_splits)
  }
qed simp_all

lemma renamed_bound:
  assumes "bound_entry env pt u n e" "parsed_uri pt from" "u_canonical from = u" "parsed_uri pt to"
    and "u_tenant from = u_tenant to"
  shows "bound_entry env pt (u_canonical to) n (e\<lparr>e_uri := to, e_updated_at := t\<rparr>)"
    and "bound_entry env pt (u_canonical to) n (e\<lparr>e_uri := to\<rparr>)"
proof -
  have "parsed_uri pt (e_uri e)" "u_canonical (e_uri e) = u_canonical from"
    using assms(1,3) by (simp_all add: bound_entry_def)
  then have "e_uri e = from" using assms(2) parsed_unique by blast
  then show "bound_entry env pt (u_canonical to) n (e\<lparr>e_uri := to, e_updated_at := t\<rparr>)"
    "bound_entry env pt (u_canonical to) n (e\<lparr>e_uri := to\<rparr>)"
    using assms binding_depends [of "e\<lparr>e_uri := to, e_updated_at := t\<rparr>" e] binding_depends [of "e\<lparr>e_uri := to\<rparr>" e]
    by (simp_all add: bound_entry_def scan_sensitive_entry_def)
qed

lemma fold_relations_wf: "hm_wf m \<Longrightarrow> hm_wf (fold (\<lambda>((f, t, k), c). insert_relation ((g f, g t, k), c)) rs m)"
  by (induction rs arbitrary: m) (auto simp: insert_relation_wf)

lemma renamed_inv:
  assumes inv: "db_inv env pt db" and uris: "parsed_uri pt from" "parsed_uri pt to" "u_tenant from = u_tenant to"
    and old: "hget (db_entries db) (u_canonical from) = Some old"
    and free: "u_canonical to = u_canonical from \<or> hget (db_entries db) (u_canonical to) = None"
    and entries: "db_entries db2 = hput (u_canonical to)
      (old\<lparr>er_entry := (er_entry old)\<lparr>e_uri := to, e_updated_at := now\<rparr>, er_updated_at := now\<rparr>)
      (hdel (u_canonical from) (db_entries db))"
    and versions: "\<And>u w. hget (db_versions db2) (u, w) =
      (case hget (db_versions db) (u_canonical from, w) of
         Some row \<Rightarrow>
           (if u = u_canonical to then Some (row\<lparr>hv_entry := (hv_entry row)\<lparr>e_uri := to\<rparr>\<rparr>)
            else if u = u_canonical from then None else hget (db_versions db) (u, w))
       | None \<Rightarrow> hget (db_versions db) (u, w))"
    and rest: "hm_wf (db_versions db2)" "db_relations db2 = db_relations db" "db_revisions db2 = db_revisions db"
      "db_mutations db2 = db_mutations db"
  shows "db_inv env pt db2"
proof -
  let ?f = "u_canonical from" and ?t = "u_canonical to"
  let ?row = "old\<lparr>er_entry := (er_entry old)\<lparr>e_uri := to, e_updated_at := now\<rparr>, er_updated_at := now\<rparr>"
  let ?ver = "\<lambda>row. row\<lparr>hv_entry := (hv_entry row)\<lparr>e_uri := to\<rparr>\<rparr>"
  have c: "counted db" using inv by (simp add: db_inv_def)
  have none: "hget (db_versions db) (?t, w) = None" if "?t \<noteq> ?f" for w
  proof -
    have "\<not> hhas (db_versions db) (?t, w)" using c free that by (simp add: counted_def)
    then show ?thesis by (simp add: hhas_def)
  qed
  have V: "hget (db_versions db2) (u, w) =
      (if u = ?t then map_option ?ver (hget (db_versions db) (?f, w))
       else if u = ?f then None else hget (db_versions db) (u, w))" for u w
    using none [of w] by (cases "?t = ?f") (auto simp: versions split: option.split)
  have E: "hget (db_entries db2) u = (if u = ?t then Some ?row else if u = ?f then None else hget (db_entries db) u)" for u
    by (simp add: entries hm_simps)
  have "counted db2"
    using c old unfolding counted_def hhas_def V E by (auto split: if_splits)
  moreover have "rows_ok env pt db2"
  proof -
    have ok: "row_ok env pt ?f old" "\<And>n h. hget (db_versions db) (?f, n) = Some h \<Longrightarrow> kept_ok env pt ?f n h"
      using inv old by (simp_all add: db_inv_def rows_ok_def)
    have "row_ok env pt ?t ?row"
      using ok(1) renamed_bound(1) [OF _ uris(1) refl uris(2,3)]
      by (simp add: row_ok_def Let_def content_type_column_def scope_column_def tags_column_def)
    moreover have "kept_ok env pt ?t n (?ver h)" if "hget (db_versions db) (?f, n) = Some h" for n h
      using ok(2) [OF that] renamed_bound(2) [OF _ uris(1) refl uris(2,3)] by (simp add: kept_ok_def)
    ultimately show ?thesis
      using inv unfolding rows_ok_def V E db_inv_def by auto
  qed
  moreover have "current_kept db2"
  proof -
    obtain h where h: "hget (db_versions db) (?f, er_version old) = Some h"
      "(hv_entry h)\<lparr>e_updated_at := 0\<rparr> = (er_entry old)\<lparr>e_updated_at := 0\<rparr>"
      using inv old by (auto simp: db_inv_def current_kept_def)
    have "(hv_entry (?ver h))\<lparr>e_updated_at := 0\<rparr> = (er_entry ?row)\<lparr>e_updated_at := 0\<rparr>"
      using arg_cong [OF h(2), of "\<lambda>e. e\<lparr>e_uri := to\<rparr>"] by (cases "hv_entry h"; cases "er_entry old") simp
    then show ?thesis
      using inv h(1) unfolding current_kept_def V E db_inv_def by auto
  qed
  moreover have "keys_distinct db2"
    using inv rest(1,2) by (simp add: db_inv_def keys_distinct_def entries hm_simps)
  ultimately show ?thesis
    using inv rest by (simp add: db_inv_def graph_logged_def)
qed

text \<open>The steps of a rename that succeeds: the row, its versions, the relations and the log, the job.\<close>

lemma rename_steps:
  assumes inv: "db_inv env pt db" and ok: "sql_rename_body env now bumped fresh queued from to db = Inr (x, db')"
  obtains old db2 u' changed rels db3 js where
    "hget (db_entries db) (u_canonical from) = Some old"
    "u_canonical to = u_canonical from \<or> hget (db_entries db) (u_canonical to) = None"
    "db_entries db2 = hput (u_canonical to)
      (old\<lparr>er_entry := (er_entry old)\<lparr>e_uri := to, e_updated_at := now\<rparr>, er_updated_at := now\<rparr>)
      (hdel (u_canonical from) (db_entries db))"
    "\<And>u w. hget (db_versions db2) (u, w) =
      (case hget (db_versions db) (u_canonical from, w) of
         Some row \<Rightarrow>
           (if u = u_canonical to then Some (row\<lparr>hv_entry := (hv_entry row)\<lparr>e_uri := to\<rparr>\<rparr>)
            else if u = u_canonical from then None else hget (db_versions db) (u, w))
       | None \<Rightarrow> hget (db_versions db) (u, w))"
    "hm_wf (db_versions db2)" "db_relations db2 = db_relations db" "db_revisions db2 = db_revisions db"
    "db_mutations db2 = db_mutations db" "hm_wf (db_relations db) \<Longrightarrow> hm_wf rels"
    "bump_if env changed bumped (u_tenant from) ''rename'' (Some (u_canonical from)) (Some (u_canonical to))
      (db2\<lparr>db_relations := rels\<rparr>) = Inr (u', db3)"
    "db' = db3\<lparr>db_jobs := js\<rparr>"
proof -
  let ?f = "u_canonical from" and ?t = "u_canonical to"
  obtain old where old: "hget (db_entries db) ?f = Some old"
    using ok by (auto simp: sql_rename_body_def Let_def split: option.splits)
  let ?entry = "(er_entry old)\<lparr>e_uri := to, e_updated_at := now\<rparr>"
  let ?row = "old\<lparr>er_entry := ?entry, er_updated_at := now\<rparr>"
  let ?db1 = "db\<lparr>db_entries := hput ?t ?row (hdel ?f (db_entries db))\<rparr>"
  have free: "?t = ?f \<or> hget (db_entries db) ?t = None"
    using ok old by (auto simp: sql_rename_body_def Let_def rename_entry_row_def hhas_def split: if_splits)
  obtain db2 u where db2: "rename_versions env ?f to (versions_under ?db1 ?f) ?db1 = Inr (u, db2)"
    using ok old free
    by (auto simp: sql_rename_body_def Let_def rename_entry_row_def hhas_def split: if_splits sum.splits)
  have wf: "hm_wf (db_versions ?db1)" using inv by (simp add: db_inv_def keys_distinct_def)
  have rest: "db2\<lparr>db_versions := []\<rparr> = ?db1\<lparr>db_versions := []\<rparr>"
    by (rule rename_versions_get(3) [OF db2 versions_under_distinct [OF wf]])
  have same: "db_entries db2 = db_entries ?db1" "db_relations db2 = db_relations db"
    "db_revisions db2 = db_revisions db" "db_mutations db2 = db_mutations db"
    using arg_cong [OF rest, of db_entries] arg_cong [OF rest, of db_relations]
      arg_cong [OF rest, of db_revisions] arg_cong [OF rest, of db_mutations] by simp_all
  have plain: "db_versions ?db1 = db_versions db" by simp
  have versions: "hget (db_versions db2) (u, w) =
      (case hget (db_versions db) (?f, w) of
         Some row \<Rightarrow>
           (if u = ?t then Some (row\<lparr>hv_entry := (hv_entry row)\<lparr>e_uri := to\<rparr>\<rparr>)
            else if u = ?f then None else hget (db_versions db) (u, w))
       | None \<Rightarrow> hget (db_versions db) (u, w))" for u w
    using rename_versions_get(1) [OF db2 versions_under_distinct [OF wf]]
    unfolding map_of_versions_under [OF wf] plain .
  have wf2: "hm_wf (db_versions db2)" by (rule rename_versions_get(2) [OF db2 versions_under_distinct [OF wf] wf])
  let ?rels = "fold (\<lambda>((f, t, k), c). insert_relation ((moved ?f ?t f, moved ?f ?t t, k), c))
    (filter (touches ?f) (db_relations db2)) (filter (\<lambda>r. \<not> touches ?f r) (db_relations db2))"
  have "hm_wf (db_relations db) \<Longrightarrow> hm_wf ?rels" by (simp add: same fold_relations_wf hm_wf_filter)
  moreover obtain u' changed db3 js where
    "bump_if env changed bumped (u_tenant from) ''rename'' (Some ?f) (Some ?t) (db2\<lparr>db_relations := ?rels\<rparr>) = Inr (u', db3)"
    "db' = db3\<lparr>db_jobs := js\<rparr>"
    using ok old free db2
    by (auto simp: sql_rename_body_def Let_def rename_entry_row_def hhas_def rename_relations_def enqueue_sqlite_def
        split: if_splits sum.splits)
  ultimately show thesis
    using that [OF old free _ versions wf2 same(2-4), where rels = ?rels] same(1) by simp
qed

lemma sql_rename_inv:
  assumes inv: "db_inv env pt db" and uris: "parsed_uri pt from" "parsed_uri pt to" "u_tenant from = u_tenant to"
    and ok: "sql_rename_body env now bumped fresh queued from to db = Inr (x, db')"
  shows "db_inv env pt db'"
proof (rule rename_steps [OF inv ok])
  fix old db2 u' changed rels db3 js
  assume old: "hget (db_entries db) (u_canonical from) = Some old"
    "u_canonical to = u_canonical from \<or> hget (db_entries db) (u_canonical to) = None"
    "db_entries db2 = hput (u_canonical to)
      (old\<lparr>er_entry := (er_entry old)\<lparr>e_uri := to, e_updated_at := now\<rparr>, er_updated_at := now\<rparr>)
      (hdel (u_canonical from) (db_entries db))"
    and versions: "\<And>u w. hget (db_versions db2) (u, w) =
      (case hget (db_versions db) (u_canonical from, w) of
         Some row \<Rightarrow>
           (if u = u_canonical to then Some (row\<lparr>hv_entry := (hv_entry row)\<lparr>e_uri := to\<rparr>\<rparr>)
            else if u = u_canonical from then None else hget (db_versions db) (u, w))
       | None \<Rightarrow> hget (db_versions db) (u, w))"
    and rest: "hm_wf (db_versions db2)" "db_relations db2 = db_relations db" "db_revisions db2 = db_revisions db"
      "db_mutations db2 = db_mutations db"
    and db3: "hm_wf (db_relations db) \<Longrightarrow> hm_wf rels"
      "bump_if env changed bumped (u_tenant from) ''rename'' (Some (u_canonical from)) (Some (u_canonical to))
        (db2\<lparr>db_relations := rels\<rparr>) = Inr (u', db3)"
      "db' = db3\<lparr>db_jobs := js\<rparr>"
  have "db_inv env pt db2" by (rule renamed_inv [OF inv uris old versions rest])
  then have "db_inv env pt db3" by (rule edge_inv [OF _ db3(1) [OF relations_wf [OF inv]] db3(2)])
  then show ?thesis using db3(3) by simp
qed

lemma sql_rollback_inv:
  assumes "db_inv env pt db" "parsed_uri pt uri"
    and "sql_rollback_body env now fresh queued uri to db = Inr (u, db1)"
  shows "db_inv env pt db1"
proof -
  obtain entry v where "sql_write_body env now fresh queued entry db = Inr (v, db1)" "e_uri entry = uri"
    using assms(3) by (auto simp: sql_rollback_body_def Let_def split: sum.splits option.splits if_splits)
  then show ?thesis using write_body_inv [OF assms(1) _] assms(2) by blast
qed

section \<open>Histories of transactions\<close>

datatype sql_op =
    SqlWrite datetime uuid datetime context_entry
  | SqlDelete uuid datetime datetime context_uri
  | SqlRename datetime datetime uuid datetime context_uri context_uri
  | SqlRollback datetime uuid datetime context_uri mvcc_version
  | SqlBatch batch_config "stamped list"
  | SqlAddEdge datetime datetime context_uri context_uri graph_relation
  | SqlRemoveEdge datetime context_uri context_uri
  | SqlPutBlob datetime string string

fun sql_step :: "sql_env \<Rightarrow> (string \<Rightarrow> string) \<Rightarrow> sql_op \<Rightarrow> sqlite_db \<Rightarrow> sqlite_db" where
  "sql_step env blake3 (SqlWrite now fresh queued e) db = snd (sql_write env now fresh queued e db)"
| "sql_step env blake3 (SqlDelete fresh queued now uri) db = snd (sql_delete env fresh queued now uri db)"
| "sql_step env blake3 (SqlRename now bumped fresh queued from to) db =
     snd (sql_rename env now bumped fresh queued from to db)"
| "sql_step env blake3 (SqlRollback now fresh queued uri v) db = snd (sql_rollback env now fresh queued uri v db)"
| "sql_step env blake3 (SqlBatch cfg xs) db = snd (sql_batch_write env cfg xs db)"
| "sql_step env blake3 (SqlAddEdge now bumped from to kind) db = snd (sql_add_edge env now bumped from to kind db)"
| "sql_step env blake3 (SqlRemoveEdge bumped from to) db = snd (sql_remove_edge env bumped from to db)"
| "sql_step env blake3 (SqlPutBlob now data mime) db = snd (blob_put blake3 now data mime db)"

fun sql_op_ok :: "(string \<Rightarrow> datetime option) \<Rightarrow> sql_op \<Rightarrow> sqlite_db \<Rightarrow> bool" where
  "sql_op_ok pt (SqlWrite now fresh queued e) db = parsed_uri pt (e_uri e)"
| "sql_op_ok pt (SqlRename now bumped fresh queued from to) db = (parsed_uri pt from \<and> parsed_uri pt to)"
| "sql_op_ok pt (SqlRollback now fresh queued uri v) db = parsed_uri pt uri"
| "sql_op_ok pt (SqlBatch cfg xs) db = list_all (\<lambda>x. parsed_uri pt (e_uri (stamped_entry x))) xs"
| "sql_op_ok pt _ db = True"

lemma sql_batch_inv:
  assumes inv: "db_inv env pt db" and ok: "list_all (\<lambda>x. parsed_uri pt (e_uri (stamped_entry x))) xs"
  shows "db_inv env pt (snd (sql_batch_write env cfg xs db))"
proof (cases "xs = []")
  case False
  show ?thesis
    unfolding sql_batch_write_def if_not_P [OF False]
  proof (rule in_transaction_inv [where P = "db_inv env pt", OF inv])
    fix vs db1
    assume w: "(case chunks env cfg xs of Inl err \<Rightarrow> Inl err | Inr cs \<Rightarrow> write_chunks env cs db) = Inr (vs, db1)"
    then obtain cs where cs: "chunks env cfg xs = Inr cs" "write_chunks env cs db = Inr (vs, db1)"
      by (auto split: sum.splits)
    then have "concat cs = xs"
      using chunk_loop_concat [of cfg env xs]
      by (auto simp: chunks_def validate_batch_config_def split: sum.splits if_splits)
    then have "\<forall>c\<in>set cs. \<forall>x\<in>set c. parsed_uri pt (e_uri (stamped_entry x))"
      using ok by (auto simp: list_all_iff)
    from write_chunks_inv [OF inv this cs(2)] show "db_inv env pt db1" .
  qed
qed (use inv in \<open>simp add: sql_batch_write_def\<close>)

lemma sql_step_inv:
  assumes inv: "db_inv env pt db" and ok: "sql_op_ok pt x db"
  shows "db_inv env pt (sql_step env blake3 x db)"
proof (cases x)
  case (SqlWrite now fresh queued e)
  then show ?thesis
    using write_body_inv [OF inv] ok by (auto simp: sql_write_def intro!: in_transaction_inv [where P = "db_inv env pt", OF inv])
next
  case (SqlDelete fresh queued now uri)
  then show ?thesis
    using delete_inv [OF inv] by (auto simp: sql_delete_def intro!: in_transaction_inv [where P = "db_inv env pt", OF inv])
next
  case (SqlRename now bumped fresh queued src dest)
  then show ?thesis
    using sql_rename_inv [OF inv] inv ok
    by (auto simp: sql_rename_def intro!: in_transaction_inv [where P = "db_inv env pt", OF inv])
next
  case (SqlRollback now fresh queued uri v)
  then show ?thesis
    using sql_rollback_inv [OF inv] ok by (auto simp: sql_rollback_def intro!: in_transaction_inv [where P = "db_inv env pt", OF inv])
next
  case (SqlBatch cfg xs)
  then show ?thesis using sql_batch_inv [OF inv] ok by simp
next
  case (SqlPutBlob now data mime)
  then show ?thesis using inv by (simp add: blob_put_def Let_def)
qed (use inv add_edge_inv remove_edge_inv in simp_all)

interpretation sql: op_system "sql_step env blake3" "db_inv env pt" "sql_op_ok pt" for env blake3 pt
  by unfold_locales (rule sql_step_inv)

lemma sql_reached:
  "sql.ok_run env blake3 pt ops sqlite_empty \<Longrightarrow> db_inv env pt (sql.run env blake3 ops sqlite_empty)"
  by (rule sql.run_inv [OF db_inv_empty])

end
