(* ===== verification/Sqlite_Properties.thy ===== *)
theory Sqlite_Properties
  imports Sqlite_Integrity "HOL-Library.Code_Target_Nat"
begin

text \<open>
  What the tables of the SQLite store guarantee after any sequence of transactions: numbered versions,
  rows that fit their entries, and batches that are one write after the other; with the cases in which
  batch and single write part, and in which the outbox leaves an old point.
\<close>

section \<open>An example database\<close>

definition demo_env :: sql_env where
  "demo_env = \<lparr>se_uuid_parse = (\<lambda>_. None), se_uuid_display = (\<lambda>u. show_nat (unat u)),
     se_js = (\<lambda>j. case j of JObject _ \<Rightarrow> ''{}'' | JArray _ \<Rightarrow> ''[]'' | _ \<Rightarrow> ''0''),
     se_vec = (\<lambda>_. Inr [0x3F800000]), se_size = (\<lambda>_. 1), se_error = (\<lambda>_. []), se_json = (\<lambda>_. None)\<rparr>"

text \<open>An entry with a vector, told apart by the name of its model.\<close>

definition model_entry :: "string list \<Rightarrow> string \<Rightarrow> context_entry" where
  "model_entry p model =
     (note_entry p model)\<lparr>e_metadata := default_meta\<lparr>m_custom :=
        JObject [(''embedding_vector'', JArray [JNumber ''1'']), (''embedding_model_id'', JString model)]\<rparr>\<rparr>"

definition demo_no_time :: "string \<Rightarrow> datetime option" where
  "demo_no_time = (\<lambda>_. None)"

definition demo_sql :: "sql_op list" where
  "demo_sql =
     [SqlWrite 1 1 2 (model_entry [''t'', ''a''] ''m1''),
      SqlBatch \<lparr>bc_max_rows = 2, bc_max_bytes = 2\<rparr>
        [(3, 2, model_entry [''t'', ''a''] ''m2''), (4, 3, model_entry [''t'', ''b''] ''m3'')],
      SqlAddEdge 5 6 (note_uri [''t'', ''a'']) (note_uri [''t'', ''b'']) DerivedFrom,
      SqlRename 7 8 4 9 (note_uri [''t'', ''a'']) (note_uri [''t'', ''c'']),
      SqlRollback 10 5 11 (note_uri [''t'', ''c'']) (MvccVersion 1)]"

definition demo_db :: sqlite_db where
  "demo_db = fold (sql_step demo_env (\<lambda>s. s)) demo_sql sqlite_empty"

lemma demo_sql_ok: "sql.ok_run demo_env (\<lambda>s. s) demo_no_time demo_sql sqlite_empty"
  unfolding demo_sql_def sql.ok_run.simps sql_op_ok.simps parsed_uri_def by code_simp

lemma demo_sql_run: "sql.run demo_env (\<lambda>s. s) demo_sql sqlite_empty = demo_db"
  by (simp add: demo_db_def demo_sql_def del: sql_step.simps)

lemma demo_db_versions:
  "map (\<lambda>(k, r). (k, er_version r)) (db_entries demo_db) = [(''uwu://t/b'', 1), (''uwu://t/c'', 3)]"
  "map_option (\<lambda>h. e_payload (hv_entry h)) (hget (db_versions demo_db) (''uwu://t/c'', 3)) =
     Some (Text ''m1'' ''m1'' ''m1'')"
  by code_simp+

section \<open>Properties\<close>

text \<open>C28: after any transactions, failed ones among them, the versions kept under an address are exactly
  those from 1 to the version of its row, the row is the newest of them up to its time stamp, and
  the log of graph changes of a tenant is numbered from 1 to the revision.\<close>

theorem sqlite_integrity:
  assumes "sql.ok_run env blake3 pt ops sqlite_empty"
  shows "let db = sql.run env blake3 ops sqlite_empty
    in (\<forall>u n. hhas (db_versions db) (u, n) \<longleftrightarrow>
          (\<exists>r. hget (db_entries db) u = Some r \<and> 1 \<le> n \<and> n \<le> er_version r)) \<and>
       (\<forall>u r. hget (db_entries db) u = Some r \<longrightarrow>
          (\<exists>h. hget (db_versions db) (u, er_version r) = Some h \<and>
               (hv_entry h)\<lparr>e_updated_at := 0\<rparr> = (er_entry r)\<lparr>e_updated_at := 0\<rparr>)) \<and>
       (\<forall>uri n. hhas (db_mutations db) (u_tenant uri, n) \<longleftrightarrow> 1 \<le> n \<and> n \<le> sql_graph_revision uri db)"
  using sql_reached [OF assms]
  by (simp add: Let_def db_inv_def counted_def current_kept_def graph_logged_def sql_graph_revision_def)

theorem sqlite_integrity_witness:
  "hhas (db_versions demo_db) (''uwu://t/c'', 3) \<and> \<not> hhas (db_versions demo_db) (''uwu://t/c'', 4)"
proof -
  have "map_option er_version (hget (db_entries demo_db) ''uwu://t/c'') = Some 3" by code_simp
  then obtain r where "hget (db_entries demo_db) ''uwu://t/c'' = Some r" "er_version r = 3" by auto
  then show ?thesis using sqlite_integrity [OF demo_sql_ok] by (simp add: demo_sql_run Let_def)
qed

text \<open>C29: after any transactions on addresses that the parser gives, failed ones among them, the rows are
  well-formed. Every row and every kept version holds an entry of its own address
  and version, which belongs to the tenant of the address and holds nothing sensitive; and the columns
  of a row, the text of the custom metadata and the time of creation apart, are those of its entry: the
  tenant, the three levels, the content type, the scope, the tags and the time of the update.\<close>

theorem stored_rows_typed:
  assumes "sql.ok_run env blake3 pt ops sqlite_empty"
  shows "let db = sql.run env blake3 ops sqlite_empty
    in (\<forall>u r. hget (db_entries db) u = Some r \<longrightarrow>
          (let e = er_entry r
           in u_canonical (e_uri e) = u \<and> e_mvcc_version e = version_from_sql (er_version r) \<and>
              validate_tenant_binding (se_uuid_parse env) (se_uuid_display env) e = Inr () \<and>
              scan_sensitive_entry e = [] \<and>
              er_tenant r = se_uuid_display env (tenant_uuid (e_tenant e)) \<and>
              (er_l0 r, er_l1 r, er_l2 r) = payload_levels env (e_payload e) \<and>
              er_content_type r = content_type_column e \<and> er_state_scope r = scope_column e \<and>
              er_tags r = tags_column env e \<and> er_updated_at r = e_updated_at e)) \<and>
       (\<forall>u n h. hget (db_versions db) (u, n) = Some h \<longrightarrow>
          u_canonical (e_uri (hv_entry h)) = u \<and> e_mvcc_version (hv_entry h) = version_from_sql n \<and>
          validate_tenant_binding (se_uuid_parse env) (se_uuid_display env) (hv_entry h) = Inr () \<and>
          scan_sensitive_entry (hv_entry h) = [])"
  using sql_reached [OF assms]
  by (simp add: Let_def db_inv_def rows_ok_def row_ok_def kept_ok_def bound_entry_def)

theorem stored_rows_typed_witness:
  "case hget (db_entries demo_db) ''uwu://t/b'' of
     Some r \<Rightarrow> u_canonical (e_uri (er_entry r)) = ''uwu://t/b'' \<and> scan_sensitive_entry (er_entry r) = []
   | None \<Rightarrow> False"
proof -
  have "map_option er_version (hget (db_entries demo_db) ''uwu://t/b'') = Some 1" by code_simp
  then obtain r where "hget (db_entries demo_db) ''uwu://t/b'' = Some r" by auto
  then show ?thesis using stored_rows_typed [OF demo_sql_ok] by (simp add: demo_sql_run Let_def)
qed

text \<open>C30: a batch is one write after the other in one transaction, when the column takes the custom metadata of
  its entries (JSON null, the default, it does not): on any reached database, with any positive limits of
  the chunks, it returns the same
  versions and stores the same rows, versions and jobs, up to the times of creation and the texts of
  the custom metadata, and it fails when one of the writes would, leaving the database as it was.\<close>

theorem batch_is_sequential:
  assumes "sql.ok_run env blake3 pt ops sqlite_empty" "db = sql.run env blake3 ops sqlite_empty"
    and "0 < bc_max_rows cfg" "0 < bc_max_bytes cfg" "customs_accepted env xs"
  shows "rel_prod (rel_sum (same_error env) (=)) agree
    (sql_batch_write env cfg xs db) (in_transaction (write_each env xs) db)"
  using batch_each [OF _ assms(3-5)] sql_reached [OF assms(1)] by (simp add: assms(2) db_inv_def)

theorem batch_is_sequential_witness:
  "rel_prod (rel_sum (same_error demo_env) (=)) agree
     (sql_batch_write demo_env \<lparr>bc_max_rows = 1, bc_max_bytes = 9\<rparr>
        [(20, 8, model_entry [''t'', ''b''] ''x''), (21, 9, model_entry [''t'', ''b''] ''y'')] demo_db)
     (in_transaction (write_each demo_env
        [(20, 8, model_entry [''t'', ''b''] ''x''), (21, 9, model_entry [''t'', ''b''] ''y'')]) demo_db)"
proof -
  have "customs_accepted demo_env
      [(20, 8, model_entry [''t'', ''b''] ''x''), (21, 9, model_entry [''t'', ''b''] ''y'')]"
    by code_simp
  from batch_is_sequential [OF demo_sql_ok demo_sql_run [symmetric] _ _ this] show ?thesis by simp
qed

section \<open>Where the store departs from its contract\<close>

text \<open>An entry whose custom metadata are null, the default, is written by \<open>write\<close> and refused by
  \<open>batch_write\<close>.\<close>

lemma batch_refuses_null:
  "let e = note_entry [''t'', ''a''] ''one''
   in fst (sql_write demo_env 1 1 1 e sqlite_empty) = Inr (MvccVersion 1) \<and>
      fst (sql_batch_write demo_env default_batch_config [(1, 1, e)] sqlite_empty) =
        Inl (Storage ''write batch current failed: '')"
  by code_simp

text \<open>A deletion drops the versions, and those of an entry written anew start at 1 again: the upsert of
  the old second version waits for the new first one and is applied last.\<close>

lemma recreation_leaves_old_point:
  "let ops = [SqlWrite 1 1 1 (model_entry [''t'', ''a''] ''m1''), SqlWrite 2 2 2 (model_entry [''t'', ''a''] ''m2''),
              SqlDelete 3 3 3 (note_uri [''t'', ''a'']), SqlWrite 4 4 4 (model_entry [''t'', ''a''] ''m3'')];
       db = fold (sql_step demo_env (\<lambda>s. s)) ops sqlite_empty;
       run = (\<lambda>t. process_batch test_upsert test_delete claimable_sqlite default_outbox_config t (map (Pair t)));
       (jobs, idx) = fold run [10, 20, 30, 40] (db_jobs db, test_index_failing 0)
   in map ob_status jobs = [Done, Done, Done, Done] \<and>
      map_option pt_model_id (test_lookup idx (''context'', note_uri [''t'', ''a''])) = Some (Some ''m2'') \<and>
      map_option (\<lambda>r. sparse_text (e_payload (er_entry r))) (hget (db_entries db) ''uwu://t/a'') = Some ''m3''"
  by code_simp

text \<open>Renaming onto an address that is taken is an error of the database, not a conflict.\<close>

lemma rename_onto_taken:
  "fst (sql_rename demo_env 1 1 1 1 (note_uri [''t'', ''b'']) (note_uri [''t'', ''c'']) demo_db) =
     Inl (Storage ''rename failed: '')"
  by code_simp

end
