(* ===== verification/Sqlite_Paging.thy ===== *)
theory Sqlite_Paging
  imports Sqlite_Queries Sqlite_Properties "HOL-Library.Multiset"
begin

text \<open>
  The paged queries of the SQLite store are complete: a client that follows the cursors gets every row
  that the query selects, once and in order. The pages of the statements are the keyset pages of the
  in-memory store on the sorted rows, so that its facts on cursors carry over.
\<close>

section \<open>Following cursors\<close>

fun follow_pages :: "nat \<Rightarrow> (page_request \<Rightarrow> 'e + 'a page) \<Rightarrow> page_request \<Rightarrow> 'e + 'a list" where
  "follow_pages 0 query page = Inr []"
| "follow_pages (Suc fuel) query page =
     (case query page of
        Inl e \<Rightarrow> Inl e
      | Inr p \<Rightarrow>
          (case pg_next_cursor p of
             None \<Rightarrow> Inr (pg_items p)
           | Some c \<Rightarrow>
               (case follow_pages fuel query (page_after c page) of
                  Inl e \<Rightarrow> Inl e | Inr rest \<Rightarrow> Inr (pg_items p @ rest))))"

definition map_page :: "('a \<Rightarrow> 'b) \<Rightarrow> 'a page \<Rightarrow> 'b page" where
  "map_page g p = \<lparr>pg_items = map g (pg_items p), pg_next_cursor = pg_next_cursor p\<rparr>"

lemma follow_pages_keyset:
  "(\<And>p. query p = Inr (map_page g (keyset_page rows p key))) \<Longrightarrow>
   follow_pages fuel query page = Inr (map g (follow fuel rows page key))"
  by (induction fuel arbitrary: page) (simp_all add: map_page_def Let_def split: option.split)

lemma follow_all:
  assumes "\<And>p. query p = Inr (map_page g (keyset_page rows p key))"
    and "sorted_wrt (<) (map key rows)" "pr_after page = None" "length rows < fuel"
  shows "follow_pages fuel query page = Inr (map g rows)"
proof -
  have "beyond page key rows = rows" using assms(3) by simp
  then show ?thesis using follow_pages_keyset [OF assms(1)] follow_beyond [of key page rows fuel] assms(2,4) by simp
qed

section \<open>A statement's page is a keyset page\<close>

lemma sql_page_keyset:
  "sql_page key page rows =
     (let p = keyset_page (sort_key key rows) page key in (pg_items p, pg_next_cursor p \<noteq> None))"
proof -
  let ?b = "beyond page key (sort_key key rows)" and ?n = "effective_limit page"
  have b: "sort_key key (filter (\<lambda>r. case pr_after page of None \<Rightarrow> True | Some after \<Rightarrow> key r > after) rows) = ?b"
    by (rule filter_sort [symmetric])
  show ?thesis
  proof (cases "length ?b \<le> ?n")
    case True
    then show ?thesis by (simp add: sql_page_def sql_select_def sql_cut_def b keyset_page_short Let_def)
  next
    case False
    then show ?thesis by (simp add: sql_page_def sql_select_def sql_cut_def b keyset_page_long Let_def min_def)
  qed
qed

lemma keyset_cursor:
  "cursor_of key (pg_next_cursor (keyset_page rows page key) \<noteq> None) (pg_items (keyset_page rows page key)) =
     pg_next_cursor (keyset_page rows page key)"
proof (cases "length (beyond page key rows) \<le> effective_limit page")
  case True
  then show ?thesis by (simp add: keyset_page_short cursor_of_def)
next
  case False
  then show ?thesis
    using limit_pos [of page] by (auto simp: keyset_page_long cursor_of_def last_take)
qed

lemma sorted_keys: "distinct (map key rows) \<Longrightarrow> sorted_wrt (<) (map key (sort_key key rows))"
  by (simp add: strict_sorted_iff distinct_map)

lemma keyset_items: "set (pg_items (keyset_page rows page key)) \<subseteq> set rows"
proof (cases "length (beyond page key rows) \<le> effective_limit page")
  case True
  then show ?thesis by (auto simp: keyset_page_short)
next
  case False
  then show ?thesis by (auto simp: keyset_page_long dest: in_set_takeD)
qed

section \<open>Pages over a reachable database\<close>

lemma entry_rows:
  assumes "db_inv env pt db" "(u, r) \<in> set (db_entries db)"
  shows "u_canonical (e_uri (er_entry r)) = u" "parse pt u = Inr (e_uri (er_entry r))"
proof -
  have "hget (db_entries db) u = Some r"
    using assms by (simp add: db_inv_def keys_distinct_def hget_eq_Some_iff)
  then have "bound_entry env pt u (er_version r) (er_entry r)"
    using assms(1) by (simp add: db_inv_def rows_ok_def row_ok_def Let_def)
  then show "u_canonical (e_uri (er_entry r)) = u" "parse pt u = Inr (e_uri (er_entry r))"
    by (auto simp: bound_entry_def parsed_uri_def)
qed

lemma distinct_entries: "db_inv env pt db \<Longrightarrow> distinct (map fst (filter P (db_entries db)))"
  by (simp add: db_inv_def keys_distinct_def hm_wf_def distinct_map_filter)

abbreviation selected :: "(string \<Rightarrow> entry_row \<Rightarrow> bool) \<Rightarrow> sqlite_db \<Rightarrow> (string \<times> entry_row) list" where
  "selected sel db \<equiv> sort_key fst (filter (\<lambda>(u, r). sel u r) (db_entries db))"

lemma selected_row: "x \<in> set (pg_items (keyset_page (selected sel db) page fst)) \<Longrightarrow> (fst x, snd x) \<in> set (db_entries db)"
  using keyset_items [of "selected sel db" page fst] by auto

lemma cursor_of_map:
  "(\<And>x. x \<in> set xs \<Longrightarrow> f (g x) = key x) \<Longrightarrow> cursor_of f b (map g xs) = cursor_of key b xs"
  by (simp add: cursor_of_def last_map)

lemma entry_page_keyset:
  assumes "db_inv env pt db"
  shows "entry_page sel page db = map_page (er_entry \<circ> snd) (keyset_page (selected sel db) page fst)"
proof -
  let ?p = "keyset_page (selected sel db) page fst"
  have "cursor_of (u_canonical \<circ> e_uri) (pg_next_cursor ?p \<noteq> None) (map (er_entry \<circ> snd) (pg_items ?p)) =
      cursor_of fst (pg_next_cursor ?p \<noteq> None) (pg_items ?p)"
    using entry_rows(1) [OF assms selected_row] by (intro cursor_of_map) simp
  also have "\<dots> = pg_next_cursor ?p" by (rule keyset_cursor)
  finally show ?thesis by (simp add: entry_page_def sql_page_keyset map_page_def Let_def)
qed

lemma collect_results_Inr:
  "(\<And>x. x \<in> set xs \<Longrightarrow> f x = Inr (g x)) \<Longrightarrow> collect_results f xs = Inr (map g xs)"
  by (induction xs) auto

lemma keyset_page_map: "keyset_page (map f rows) page key = map_page f (keyset_page rows page (key \<circ> f))"
proof -
  have b: "beyond page key (map f rows) = map f (beyond page (key \<circ> f) rows)"
    by (simp add: filter_map o_def cong: option.case_cong)
  show ?thesis
  proof (cases "length (beyond page (key \<circ> f) rows) \<le> effective_limit page")
    case True
    then show ?thesis unfolding map_page_def by (simp add: keyset_page_short b)
  next
    case False
    then show ?thesis unfolding map_page_def
      using limit_pos [of page] by (simp add: keyset_page_long b take_map)
  qed
qed

lemma sort_keys: "sort (map fst xs) = map fst (sort_key fst xs)"
  by (rule properties_for_sort) auto

lemma collect_map: "collect_results f (map g xs) = collect_results (f \<circ> g) xs"
  by (induction xs) (simp_all cong: sum.case_cong)

lemma uri_page_keyset:
  assumes "db_inv env pt db"
  shows "uri_page pt sel page db =
    Inr (map_page (e_uri \<circ> er_entry \<circ> snd) (keyset_page (selected sel db) page fst))"
proof -
  let ?p = "keyset_page (selected sel db) page fst" and ?addr = "e_uri \<circ> er_entry \<circ> snd"
  have rows: "parse pt (fst x) = Inr (?addr x)" "u_canonical (?addr x) = fst x" if "x \<in> set (pg_items ?p)" for x
    using entry_rows [OF assms, of "fst x" "snd x"] selected_row [OF that] by simp_all
  have "collect_results (parse pt \<circ> fst) (pg_items ?p) = Inr (map ?addr (pg_items ?p))"
    by (rule collect_results_Inr) (simp only: comp_apply rows(1))
  then have parsed: "collect_results (parse pt) (map fst (pg_items ?p)) = Inr (map ?addr (pg_items ?p))"
    by (simp add: collect_map)
  have "cursor_of u_canonical (pg_next_cursor ?p \<noteq> None) (map ?addr (pg_items ?p)) =
      cursor_of fst (pg_next_cursor ?p \<noteq> None) (pg_items ?p)"
    by (rule cursor_of_map) (rule rows(2))
  also have "\<dots> = pg_next_cursor ?p" by (rule keyset_cursor)
  finally have cursor: "cursor_of u_canonical (pg_next_cursor ?p \<noteq> None) (map ?addr (pg_items ?p)) = pg_next_cursor ?p" .
  have "sort_key (\<lambda>u. u) (map fst (filter (\<lambda>(u, r). sel u r) (db_entries db))) = map fst (selected sel db)"
    by (rule sort_keys)
  moreover have "(\<lambda>u. u) \<circ> fst = (fst :: string \<times> entry_row \<Rightarrow> string)" by (simp add: o_def)
  ultimately have "sql_page (\<lambda>u. u) page (map fst (filter (\<lambda>(u, r). sel u r) (db_entries db))) =
      (map fst (pg_items ?p), pg_next_cursor ?p \<noteq> None)"
    unfolding sql_page_keyset Let_def by (simp only: keyset_page_map map_page_def page.simps)
  then show ?thesis
    unfolding uri_page_def Let_def by (simp only: prod.case parsed sum.case cursor map_page_def)
qed

section \<open>Properties\<close>

lemma follow_selected:
  assumes "db_inv env pt db" "pr_after page = None"
    and "\<And>p. query p = Inr (map_page g (keyset_page (selected sel db) p fst))"
  shows "follow_pages (length (db_entries db) + 1) query page = Inr (map g (selected sel db))"
proof (rule follow_all [OF assms(3) sorted_keys assms(2)])
  show "distinct (map fst (filter (\<lambda>(u, r). sel u r) (db_entries db)))"
    by (rule distinct_entries [OF assms(1)])
  show "length (selected sel db) < length (db_entries db) + 1" by (simp add: le_imp_less_Suc)
qed

text \<open>C33: on any reached database, a scan of a prefix that parses, its cursors followed from the first page, yields the entries of exactly the rows
  whose address is the prefix, or is below it when the case of ASCII letters is ignored, each once and
  in the order of the addresses, whatever the page size. (So a scan can yield rows of a tenant whose
  name differs in case only: \<open>scan_ignores_case\<close>.)\<close>

theorem scans_complete:
  assumes "sql.ok_run env blake3 pt ops sqlite_empty" "db = sql.run env blake3 ops sqlite_empty"
    and "parse pt (trim_end_matches CHR ''/'' prefix) = Inr scope" "pr_after page = None"
  shows "follow_pages (length (db_entries db) + 1) (\<lambda>p. sql_scan_by_prefix pt prefix p db) page =
    Inr (map (er_entry \<circ> snd) (sort_key fst
      (filter (\<lambda>(u, r). u = u_canonical scope \<or>
         starts_with (ascii_lower u) (ascii_lower (dir_prefix scope))) (db_entries db))))"
proof -
  have "db_inv env pt db" using sql_reached [OF assms(1)] by (simp add: assms(2))
  from follow_selected [OF this assms(4), where query = "\<lambda>p. sql_scan_by_prefix pt prefix p db"
      and g = "er_entry \<circ> snd" and sel = "\<lambda>u r. in_scope scope u"]
  show ?thesis
    by (simp add: sql_scan_by_prefix_def assms(3) entry_page_keyset [OF \<open>db_inv env pt db\<close>] in_scope_def like_prefix)
qed

lemma demo_rows:
  "\<exists>b c. db_entries demo_db = [(''uwu://t/b'', b), (''uwu://t/c'', c)]"
  using demo_db_versions(1) by (auto simp: map_eq_Cons_conv)

theorem scans_complete_witness:
  "map_sum id (map (u_canonical \<circ> e_uri)) (follow_pages (length (db_entries demo_db) + 1)
     (\<lambda>p. sql_scan_by_prefix demo_no_time ''uwu://T/'' p demo_db) (page_request_new 1)) =
   Inr [''uwu://t/b'', ''uwu://t/c'']"
proof -
  obtain scope where scope: "parse demo_no_time (trim_end_matches CHR ''/'' ''uwu://T/'') = Inr scope"
    "u_canonical scope = ''uwu://T''"
  proof -
    have "map_sum id u_canonical (parse demo_no_time (trim_end_matches CHR ''/'' ''uwu://T/'')) = Inr ''uwu://T''"
      by code_simp
    then show ?thesis using that by (cases "parse demo_no_time (trim_end_matches CHR ''/'' ''uwu://T/'')") auto
  qed
  obtain b c where rows: "db_entries demo_db = [(''uwu://t/b'', b), (''uwu://t/c'', c)]"
    using demo_rows by blast
  have inv: "db_inv demo_env demo_no_time demo_db"
    using sql_reached [OF demo_sql_ok] by (simp add: demo_sql_run)
  have b: "u_canonical (e_uri (er_entry b)) = ''uwu://t/b''" and c: "u_canonical (e_uri (er_entry c)) = ''uwu://t/c''"
    using entry_rows(1) [OF inv] rows by auto
  have below: "starts_with (ascii_lower ''uwu://t/b'') (ascii_lower (dir_prefix scope))"
    "starts_with (ascii_lower ''uwu://t/c'') (ascii_lower (dir_prefix scope))"
    unfolding dir_prefix_def scope(2) by code_simp+
  have order: "sort_key fst [(''uwu://t/b'', b), (''uwu://t/c'', c)] = [(''uwu://t/b'', b), (''uwu://t/c'', c)]"
    by (simp add: less_le)
  have "pr_after (page_request_new 1) = None" by (simp add: page_request_new_def)
  from scans_complete [OF demo_sql_ok demo_sql_run [symmetric] scope(1) this] show ?thesis
    by (simp only: rows filter.simps prod.case below disj_comms simp_thms if_True order list.map map_sum.simps comp_def snd_conv b c)
qed

text \<open>A search by name and type, its cursors followed from the first page, yields the addresses of
  exactly the rows whose text begins with the scope, whose last part matches the glob and whose type
  is the one asked for, in order; a star of the glob stands for any characters, a question mark for
  one, and letters match without case.\<close>

theorem finds_complete:
  assumes "sql.ok_run env blake3 pt ops sqlite_empty" "db = sql.run env blake3 ops sqlite_empty"
    and "pr_after page = None"
  shows "map_sum id (map u_canonical)
      (follow_pages (length (db_entries db) + 1) (\<lambda>p. sql_find pt pattern p db) page) =
    Inr (sort (map fst (filter (\<lambda>(u, r).
      starts_with (ascii_lower u)
        (ascii_lower (case fp_scope pattern of Some s \<Rightarrow> u_canonical s | None \<Rightarrow> [])) \<and>
      (case fp_content_type pattern of Some ct \<Rightarrow> er_content_type r = as_path_segment ct | None \<Rightarrow> True) \<and>
      (case fp_name_glob pattern of Some g \<Rightarrow> glob (''*/'' @ g) u | None \<Rightarrow> True)) (db_entries db))))"
proof -
  let ?sel = "\<lambda>u r. starts_with (ascii_lower u)
        (ascii_lower (case fp_scope pattern of Some s \<Rightarrow> u_canonical s | None \<Rightarrow> [])) \<and>
      (case fp_content_type pattern of Some ct \<Rightarrow> er_content_type r = as_path_segment ct | None \<Rightarrow> True) \<and>
      (case fp_name_glob pattern of Some g \<Rightarrow> glob (''*/'' @ g) u | None \<Rightarrow> True)"
  have inv: "db_inv env pt db" using sql_reached [OF assms(1)] by (simp add: assms(2))
  have named: "''%/'' @ glob_pattern g = glob_pattern (''*/'' @ g)" for g by (simp add: glob_pattern_def)
  have query: "sql_find pt pattern p db = uri_page pt ?sel p db" for p
    unfolding sql_find_def Let_def
    by (cases "fp_name_glob pattern") (simp_all add: like_prefix named like_glob del: append_Cons append_Nil)
  have "follow_pages (length (db_entries db) + 1) (\<lambda>p. sql_find pt pattern p db) page =
      Inr (map (e_uri \<circ> er_entry \<circ> snd) (selected ?sel db))"
    by (rule follow_selected [OF inv assms(3)]) (simp only: query uri_page_keyset [OF inv])
  moreover have "map u_canonical (map (e_uri \<circ> er_entry \<circ> snd) (selected ?sel db)) = map fst (selected ?sel db)"
    using entry_rows(1) [OF inv] by auto
  ultimately show ?thesis by (simp only: sort_keys map_sum.simps)
qed

theorem finds_complete_witness:
  "map_sum id (map u_canonical) (follow_pages (length (db_entries demo_db) + 1)
     (\<lambda>p. sql_find demo_no_time \<lparr>fp_scope = None, fp_name_glob = Some ''?'', fp_content_type = None,
        fp_max_depth = None\<rparr> p demo_db) (page_request_new 1)) =
   Inr [''uwu://t/b'', ''uwu://t/c'']"
proof -
  obtain b c where rows: "db_entries demo_db = [(''uwu://t/b'', b), (''uwu://t/c'', c)]"
    using demo_rows by blast
  have match: "glob (''*/'' @ ''?'') ''uwu://t/b''" "glob (''*/'' @ ''?'') ''uwu://t/c''" by code_simp+
  have any: "starts_with (ascii_lower ''uwu://t/b'') (ascii_lower [])"
    "starts_with (ascii_lower ''uwu://t/c'') (ascii_lower [])" by code_simp+
  have order: "sort [''uwu://t/b'', ''uwu://t/c''] = [''uwu://t/b'', ''uwu://t/c'']" by code_simp
  have "pr_after (page_request_new 1) = None" by (simp add: page_request_new_def)
  from finds_complete [OF demo_sql_ok demo_sql_run [symmetric] this] show ?thesis
    by (simp only: rows filter.simps prod.case match any order find_pattern.select_convs option.case simp_thms
        if_True list.map fst_conv)
qed

text \<open>Letters match without case: a scan of one tenant returns the entries of a tenant whose name differs
  in case only.\<close>

lemma scan_ignores_case:
  "let db = fold (sql_step demo_env (\<lambda>s. s))
         [SqlWrite 1 1 1 (model_entry [''acme'', ''a''] ''m''), SqlWrite 2 2 2 (model_entry [''ACME'', ''b''] ''m'')]
         sqlite_empty
   in map_sum id (\<lambda>p. map (u_tenant \<circ> e_uri) (pg_items p))
        (sql_scan_by_prefix demo_no_time ''uwu://acme/'' (page_request_new 10) db) = Inr [''ACME'', ''acme'']"
  by code_simp

end
