(* ===== verification/Read_Cache.thy ===== *)
theory Read_Cache
  imports Sqlite_Queries
begin

text \<open>
  The read cache, crates/context-db-core/src/read_cache.rs: payloads and known absences by address and
  level, with a time to live that is spread by a tenth. The cache itself is moka's, a library: its
  operations are a parameter, and \<open>moka_laws\<close> states what its documentation promises, that a lookup
  finds at most what was last inserted, before its time is over, and nothing that was invalidated; it
  may have evicted anything. Times are in nanoseconds.
\<close>

section \<open>The cache behind the port\<close>

record cached_payload =
  cp_payload :: "content_payload option"
  cp_ttl :: nat

record 'c moka =
  mk_get :: "datetime \<Rightarrow> string \<Rightarrow> 'c \<Rightarrow> cached_payload option"
  mk_insert :: "datetime \<Rightarrow> string \<Rightarrow> cached_payload \<Rightarrow> 'c \<Rightarrow> 'c"
  mk_invalidate :: "string \<Rightarrow> 'c \<Rightarrow> 'c"

definition moka_laws :: "'c moka \<Rightarrow> bool" where
  "moka_laws m \<longleftrightarrow>
     (\<forall>t k t' k' v c x. mk_get m t' k' (mk_insert m t k v c) = Some x \<longrightarrow>
        (if k' = k then x = v \<and> t' < t + int (cp_ttl v) else mk_get m t' k' c = Some x)) \<and>
     (\<forall>k t' k' c x. mk_get m t' k' (mk_invalidate m k c) = Some x \<longrightarrow> k' \<noteq> k \<and> mk_get m t' k' c = Some x)"

record 'c read_cache =
  rc_moka :: "'c moka"
  rc_default_ttl :: nat
  rc_negative_ttl :: nat

section \<open>Keys and times\<close>

definition cache_key :: "context_uri \<Rightarrow> content_level \<Rightarrow> string" where
  "cache_key uri level = u_canonical uri @ '':'' @ content_level_as_str level"

definition SECOND :: nat where
  "SECOND = 1000000000"

definition memory_read_cache :: "'c moka \<Rightarrow> nat \<Rightarrow> 'c read_cache" where
  "memory_read_cache m ttl = \<lparr>rc_moka = m, rc_default_ttl = ttl, rc_negative_ttl = 30 * SECOND\<rparr>"

definition with_negative_ttl :: "nat \<Rightarrow> 'c read_cache \<Rightarrow> 'c read_cache" where
  "with_negative_ttl ttl rc = rc\<lparr>rc_negative_ttl := ttl\<rparr>"

definition as_millis :: "nat \<Rightarrow> nat" where
  "as_millis ttl = ttl div 1000000"

text \<open>\<open>now\<close> is the nanosecond part of the system time. The sum is one of 64 bits.\<close>

definition jittered :: "nat \<Rightarrow> nat \<Rightarrow> nat" where
  "jittered now ttl =
     (let jitter_bound = unat (of_nat (max (as_millis ttl) 1) :: u64) div 10
      in if jitter_bound = 0 then ttl
         else
           let signed_offset = of_nat (now mod (2 * jitter_bound + 1)) - of_nat jitter_bound :: u64;
               base_ms = of_nat (as_millis ttl) :: u64
           in nat (max (sint (base_ms + signed_offset)) 1) * 1000000)"

section \<open>The operations of the port\<close>

definition cache_get ::
    "'c read_cache \<Rightarrow> datetime \<Rightarrow> context_uri \<Rightarrow> content_level \<Rightarrow> 'c \<Rightarrow> content_payload option option" where
  "cache_get rc now uri level c = map_option cp_payload (mk_get (rc_moka rc) now (cache_key uri level) c)"

text \<open>\<open>ns\<close> is the nanosecond part of the reading that spreads the time to live.\<close>

definition cache_put ::
    "'c read_cache \<Rightarrow> datetime \<Rightarrow> nat \<Rightarrow> context_uri \<Rightarrow> content_level \<Rightarrow> content_payload \<Rightarrow> nat \<Rightarrow> 'c \<Rightarrow> 'c" where
  "cache_put rc now ns uri level p ttl c =
     (let effective = (if ttl = 0 then rc_default_ttl rc else ttl)
      in mk_insert (rc_moka rc) now (cache_key uri level)
           \<lparr>cp_payload = Some p, cp_ttl = jittered ns effective\<rparr> c)"

definition cache_put_negative ::
    "'c read_cache \<Rightarrow> datetime \<Rightarrow> nat \<Rightarrow> context_uri \<Rightarrow> content_level \<Rightarrow> 'c \<Rightarrow> 'c" where
  "cache_put_negative rc now ns uri level c =
     mk_insert (rc_moka rc) now (cache_key uri level)
       \<lparr>cp_payload = None, cp_ttl = jittered ns (rc_negative_ttl rc)\<rparr> c"

definition cache_invalidate :: "'c read_cache \<Rightarrow> context_uri \<Rightarrow> 'c \<Rightarrow> 'c" where
  "cache_invalidate rc uri c =
     fold (\<lambda>level. mk_invalidate (rc_moka rc) (cache_key uri level)) [L0, L1, L2] c"

section \<open>Facts\<close>

lemma cache_key_inj: "cache_key u l = cache_key v k \<longleftrightarrow> u_canonical u = u_canonical v \<and> l = k"
proof -
  have len: "length (content_level_as_str l) = length (content_level_as_str k)" by (cases l; cases k) auto
  have "content_level_as_str l = content_level_as_str k \<longleftrightarrow> l = k" by (cases l; cases k) auto
  then show ?thesis using len by (auto simp: cache_key_def)
qed

lemma moka_insert:
  assumes "moka_laws m" "mk_get m t' k' (mk_insert m t k v c) = Some x"
  shows "if k' = k then x = v \<and> t' < t + int (cp_ttl v) else mk_get m t' k' c = Some x"
  using assms(2) assms(1) [unfolded moka_laws_def, THEN conjunct1, rule_format] by blast

lemma moka_invalidate:
  assumes "moka_laws m" "mk_get m t' k' (mk_invalidate m k c) = Some x"
  shows "k' \<noteq> k \<and> mk_get m t' k' c = Some x"
  using assms(2) assms(1) [unfolded moka_laws_def, THEN conjunct2, rule_format] by blast

lemma get_invalidated:
  assumes "moka_laws (rc_moka rc)" "cache_get rc now u l (cache_invalidate rc v c) = Some x"
  shows "u_canonical u \<noteq> u_canonical v \<and> cache_get rc now u l c = Some x"
proof -
  let ?c0 = "mk_invalidate (rc_moka rc) (cache_key v L0) c"
  let ?c1 = "mk_invalidate (rc_moka rc) (cache_key v L1) ?c0"
  obtain y where y: "mk_get (rc_moka rc) now (cache_key u l) (mk_invalidate (rc_moka rc) (cache_key v L2) ?c1) = Some y"
    "cp_payload y = x"
    using assms(2) by (auto simp: cache_get_def cache_invalidate_def)
  note s2 = moka_invalidate [OF assms(1) y(1)]
  note s1 = moka_invalidate [OF assms(1) s2 [THEN conjunct2]]
  note s0 = moka_invalidate [OF assms(1) s1 [THEN conjunct2]]
  have "u_canonical u \<noteq> u_canonical v"
    using s0 s1 s2 cache_key_inj [of u l v] by (cases l) auto
  then show ?thesis using s0 y(2) by (simp add: cache_get_def)
qed

lemma get_put:
  assumes "moka_laws (rc_moka rc)" "cache_get rc t u l (cache_put rc now ns v k p ttl c) = Some x"
  shows "if u_canonical u = u_canonical v \<and> l = k then x = Some p else cache_get rc t u l c = Some x"
proof -
  obtain y where y: "mk_get (rc_moka rc) t (cache_key u l) (cache_put rc now ns v k p ttl c) = Some y" "cp_payload y = x"
    using assms(2) by (auto simp: cache_get_def)
  from moka_insert [OF assms(1) y(1) [unfolded cache_put_def Let_def]] show ?thesis
    using y(2) by (auto simp: cache_key_inj cache_get_def split: if_splits)
qed

lemma get_put_negative:
  assumes "moka_laws (rc_moka rc)" "cache_get rc t u l (cache_put_negative rc now ns v k c) = Some x"
  shows "if u_canonical u = u_canonical v \<and> l = k then x = None else cache_get rc t u l c = Some x"
proof -
  obtain y where y: "mk_get (rc_moka rc) t (cache_key u l) (cache_put_negative rc now ns v k c) = Some y" "cp_payload y = x"
    using assms(2) by (auto simp: cache_get_def)
  from moka_insert [OF assms(1) y(1) [unfolded cache_put_negative_def]] show ?thesis
    using y(2) by (auto simp: cache_key_inj cache_get_def split: if_splits)
qed

section \<open>The spread of the times\<close>

lemma sint_of_nat: "n < 2 ^ 63 \<Longrightarrow> sint (of_nat n :: u64) = int n"
  by (simp add: signed_of_nat signed_take_bit_int_eq_self)

lemma jittered_exact:
  assumes "as_millis ttl < 2 ^ 62" "10 \<le> as_millis ttl"
  defines "ms \<equiv> as_millis ttl"
  shows "jittered now ttl = (ms + now mod (2 * (ms div 10) + 1) - ms div 10) * 1000000"
proof -
  let ?j = "ms div 10" and ?r = "now mod (2 * (ms div 10) + 1)"
  have r: "?r \<le> 2 * ?j" by (simp add: less_Suc_eq_le [symmetric])
  have ms: "ms < 2 ^ 62" "10 \<le> ms" using assms by auto
  have "unat (of_nat ms :: u64) = ms" using ms(1) by (simp add: unat_of_nat take_bit_eq_mod)
  then have bound: "unat (of_nat (max ms 1) :: u64) div 10 = ?j" using ms(2) by (simp add: max_def)
  have "(of_nat ms :: u64) + (of_nat ?r - of_nat ?j) = of_nat (ms + ?r - ?j)"
    by (simp add: of_nat_diff trans_le_add1)
  moreover have "ms + ?r - ?j < 2 ^ 63"
  proof -
    have "ms + ?r - ?j \<le> ms + ?j" using r by linarith
    moreover have "?j \<le> ms" by simp
    ultimately have "ms + ?r - ?j \<le> 2 * ms" by linarith
    then show ?thesis using ms(1) by (simp add: le_less_trans)
  qed
  ultimately have "sint ((of_nat ms :: u64) + (of_nat ?r - of_nat ?j)) = int (ms + ?r - ?j)"
    by (simp only: sint_of_nat)
  note exact = this
  have "nat (max (int n) 1) = n" if "1 \<le> n" for n :: nat using that by simp
  from this [of "ms + ?r - ?j"] have "nat (max (int (ms + ?r - ?j)) 1) = ms + ?r - ?j" using ms(2) by linarith
  moreover have "ms div 10 \<noteq> 0" using ms(2) by simp
  ultimately show ?thesis
    using ms(2) unfolding jittered_def Let_def ms_def [symmetric] bound exact by simp
qed

text \<open>The spread of a time to live stays within a tenth of it: for times of less than 2^62
  milliseconds the entry lives between nine and eleven tenths of the time asked for; a time of less
  than ten milliseconds is kept.\<close>

theorem jitter_within_a_tenth:
  assumes "as_millis ttl < 2 ^ 62"
  shows "if as_millis ttl < 10 then jittered now ttl = ttl
    else 9 * as_millis ttl \<le> 10 * as_millis (jittered now ttl) \<and>
         10 * as_millis (jittered now ttl) \<le> 11 * as_millis ttl"
proof (cases "as_millis ttl < 10")
  case True
  have "unat (of_nat (max (as_millis ttl) 1) :: u64) = max (as_millis ttl) 1"
    using True by (simp add: unat_of_nat take_bit_eq_mod)
  then show ?thesis using True by (simp add: jittered_def Let_def)
next
  case False
  let ?m = "as_millis ttl" and ?r = "now mod (2 * (as_millis ttl div 10) + 1)"
  have "as_millis (jittered now ttl) = ?m + ?r - ?m div 10"
    using jittered_exact [OF assms] False by (simp add: as_millis_def)
  moreover have "?r \<le> 2 * (?m div 10)" by (simp add: less_Suc_eq_le [symmetric])
  moreover have "10 * (?m div 10) \<le> ?m" by simp
  ultimately show ?thesis using False by (simp only: if_False) linarith
qed

theorem jitter_within_a_tenth_witness:
  "9 * 300000 \<le> 10 * as_millis (jittered 123456789 (300 * SECOND)) \<and>
   10 * as_millis (jittered 123456789 (300 * SECOND)) \<le> 11 * 300000"
proof -
  have ms: "as_millis (300 * SECOND) = 300000" by (simp add: as_millis_def SECOND_def)
  have "as_millis (300 * SECOND) < 2 ^ 62" unfolding ms by simp
  from jitter_within_a_tenth [OF this, of 123456789] show ?thesis unfolding ms by simp
qed

end
