(* ===== verification/Sqlite_Cached.thy ===== *)
theory Sqlite_Cached
  imports Read_Cache Sqlite_Properties
begin

text \<open>
  The SQLite store with its read cache (\<open>with_cache\<close> of crates/context-db-storage/src/sqlite.rs): reading
  asks the cache for the levels L0 and L1, and every transaction that changes entries invalidates their
  addresses after its commit. In a sequential history reading is as without a cache; a reader that loaded
  its entry before a commit can put the old payload back afterwards.
\<close>

section \<open>Reading\<close>

text \<open>A read without a hit has two steps, between which other calls may run: it loads the entry, and it
  fills the cache. \<open>t\<close> and \<open>ns\<close> are the clock readings of the insertion.\<close>

definition read_fill ::
    "'c read_cache \<Rightarrow> datetime \<Rightarrow> nat \<Rightarrow> context_uri \<Rightarrow> content_level \<Rightarrow> context_error + context_entry \<Rightarrow> 'c
     \<Rightarrow> (context_error + content_payload) \<times> 'c" where
  "read_fill rc t ns uri level loaded c =
     (let c1 = (case loaded of Inl (NotFound x) \<Rightarrow> cache_put_negative rc t ns uri level c | _ \<Rightarrow> c)
      in case loaded of
           Inl e \<Rightarrow> (Inl e, c1)
         | Inr entry \<Rightarrow>
             (let p = at_level level (e_payload entry)
              in (Inr p, if level \<noteq> L2 then cache_put rc t ns uri level p (300 * SECOND) c1 else c1)))"

definition cached_read ::
    "'c read_cache \<Rightarrow> datetime \<Rightarrow> nat \<Rightarrow> context_uri \<Rightarrow> content_level \<Rightarrow> sqlite_db \<times> 'c
     \<Rightarrow> (context_error + content_payload) \<times> sqlite_db \<times> 'c" where
  "cached_read rc t ns uri level s =
     (case (if level \<noteq> L2 then cache_get rc t uri level (snd s) else None) of
        Some (Some p) \<Rightarrow> (Inr p, s)
      | Some None \<Rightarrow> (Inl (NotFound (u_canonical uri)), s)
      | None \<Rightarrow>
          (let (r, c) = read_fill rc t ns uri level (load_entry uri (fst s)) (snd s) in (r, fst s, c)))"

section \<open>Changing\<close>

definition after_commit ::
    "'c read_cache \<Rightarrow> context_uri list \<Rightarrow> (context_error + 'a) \<times> sqlite_db \<Rightarrow> 'c
     \<Rightarrow> (context_error + 'a) \<times> sqlite_db \<times> 'c" where
  "after_commit rc uris res c =
     (case res of
        (Inl e, db) \<Rightarrow> (Inl e, db, c)
      | (Inr x, db) \<Rightarrow> (Inr x, db, fold (cache_invalidate rc) uris c))"

definition cached_write ::
    "'c read_cache \<Rightarrow> sql_env \<Rightarrow> datetime \<Rightarrow> uuid \<Rightarrow> datetime \<Rightarrow> context_entry \<Rightarrow> sqlite_db \<times> 'c
     \<Rightarrow> (context_error + mvcc_version) \<times> sqlite_db \<times> 'c" where
  "cached_write rc env now fresh queued e s =
     after_commit rc [e_uri e] (sql_write env now fresh queued e (fst s)) (snd s)"

definition cached_delete ::
    "'c read_cache \<Rightarrow> sql_env \<Rightarrow> uuid \<Rightarrow> datetime \<Rightarrow> datetime \<Rightarrow> context_uri \<Rightarrow> sqlite_db \<times> 'c
     \<Rightarrow> (context_error + unit) \<times> sqlite_db \<times> 'c" where
  "cached_delete rc env fresh queued now uri s =
     after_commit rc [uri] (sql_delete env fresh queued now uri (fst s)) (snd s)"

definition cached_rename ::
    "'c read_cache \<Rightarrow> sql_env \<Rightarrow> datetime \<Rightarrow> datetime \<Rightarrow> uuid \<Rightarrow> datetime \<Rightarrow> context_uri \<Rightarrow> context_uri
     \<Rightarrow> sqlite_db \<times> 'c \<Rightarrow> (context_error + unit) \<times> sqlite_db \<times> 'c" where
  "cached_rename rc env now bumped fresh queued from to s =
     after_commit rc [from, to] (sql_rename env now bumped fresh queued from to (fst s)) (snd s)"

definition cached_rollback ::
    "'c read_cache \<Rightarrow> sql_env \<Rightarrow> datetime \<Rightarrow> uuid \<Rightarrow> datetime \<Rightarrow> context_uri \<Rightarrow> mvcc_version \<Rightarrow> sqlite_db \<times> 'c
     \<Rightarrow> (context_error + unit) \<times> sqlite_db \<times> 'c" where
  "cached_rollback rc env now fresh queued uri v s =
     after_commit rc [uri] (sql_rollback env now fresh queued uri v (fst s)) (snd s)"

definition cached_batch ::
    "'c read_cache \<Rightarrow> sql_env \<Rightarrow> batch_config \<Rightarrow> stamped list \<Rightarrow> sqlite_db \<times> 'c
     \<Rightarrow> (context_error + mvcc_version list) \<times> sqlite_db \<times> 'c" where
  "cached_batch rc env cfg xs s =
     after_commit rc (map (e_uri \<circ> stamped_entry) xs) (sql_batch_write env cfg xs (fst s)) (snd s)"

section \<open>Sequential histories\<close>

text \<open>The cache may lose entries at any time.\<close>

datatype 'c cached_op =
    CachedCall sql_op
  | CachedRead datetime nat context_uri content_level
  | CacheLoses 'c

fun cached_step ::
    "sql_env \<Rightarrow> (string \<Rightarrow> string) \<Rightarrow> 'c read_cache \<Rightarrow> 'c cached_op \<Rightarrow> sqlite_db \<times> 'c \<Rightarrow> sqlite_db \<times> 'c" where
  "cached_step env blake3 rc (CachedCall (SqlWrite now fresh queued e)) s = snd (cached_write rc env now fresh queued e s)"
| "cached_step env blake3 rc (CachedCall (SqlDelete fresh queued now uri)) s =
     snd (cached_delete rc env fresh queued now uri s)"
| "cached_step env blake3 rc (CachedCall (SqlRename now bumped fresh queued from to)) s =
     snd (cached_rename rc env now bumped fresh queued from to s)"
| "cached_step env blake3 rc (CachedCall (SqlRollback now fresh queued uri v)) s =
     snd (cached_rollback rc env now fresh queued uri v s)"
| "cached_step env blake3 rc (CachedCall (SqlBatch cfg xs)) s = snd (cached_batch rc env cfg xs s)"
| "cached_step env blake3 rc (CachedCall x) s = (sql_step env blake3 x (fst s), snd s)"
| "cached_step env blake3 rc (CachedRead t ns uri level) s = snd (cached_read rc t ns uri level s)"
| "cached_step env blake3 rc (CacheLoses c) s = (fst s, c)"

definition loses :: "'c read_cache \<Rightarrow> 'c \<Rightarrow> 'c \<Rightarrow> bool" where
  "loses rc c c' \<longleftrightarrow> (\<forall>t u l x. cache_get rc t u l c' = Some x \<longrightarrow> cache_get rc t u l c = Some x)"

fun cached_ok :: "'c read_cache \<Rightarrow> 'c cached_op \<Rightarrow> sqlite_db \<times> 'c \<Rightarrow> bool" where
  "cached_ok rc (CacheLoses c) s = loses rc (snd s) c"
| "cached_ok rc x s = True"

text \<open>What is cached for an address is what its row holds.\<close>

definition stored_at :: "sqlite_db \<Rightarrow> string \<Rightarrow> content_level \<Rightarrow> content_payload option" where
  "stored_at db key level = map_option (\<lambda>r. at_level level (e_payload (er_entry r))) (hget (db_entries db) key)"

definition coherent :: "'c read_cache \<Rightarrow> sqlite_db \<times> 'c \<Rightarrow> bool" where
  "coherent rc s \<longleftrightarrow> moka_laws (rc_moka rc) \<and>
     (\<forall>t u l x. l \<noteq> L2 \<longrightarrow> cache_get rc t u l (snd s) = Some x \<longrightarrow> x = stored_at (fst s) (u_canonical u) l)"

lemma coherentD:
  "coherent rc s \<Longrightarrow> l \<noteq> L2 \<Longrightarrow> cache_get rc t u l (snd s) = Some x \<Longrightarrow> x = stored_at (fst s) (u_canonical u) l"
  by (simp add: coherent_def)

lemma loaded_stored: "stored_at db (u_canonical u) l = (case load_entry u db of Inl e \<Rightarrow> None | Inr e \<Rightarrow> Some (at_level l (e_payload e)))"
  by (simp add: stored_at_def load_entry_def split: option.split)

lemma read_uncached:
  assumes "coherent rc s"
  shows "fst (cached_read rc t ns uri level s) = sql_read uri level (fst s)"
proof (cases "level = L2 \<or> cache_get rc t uri level (snd s) = None")
  case True
  then show ?thesis
    by (auto simp: cached_read_def read_fill_def sql_read_def Let_def split: sum.split prod.split)
next
  case False
  then obtain x where x: "cache_get rc t uri level (snd s) = Some x" "level \<noteq> L2" by auto
  then have "x = stored_at (fst s) (u_canonical uri) level" using coherentD [OF assms] by blast
  then show ?thesis using x
    by (auto simp: cached_read_def sql_read_def loaded_stored load_entry_def split: sum.splits option.splits)
qed

section \<open>A transaction changes the rows of its addresses only\<close>

lemma bump_entries: "bump_if env b now scope oper f t db = Inr (u, db') \<Longrightarrow> db_entries db' = db_entries db"
  by (auto simp: bump_if_def bump_graph_revision_def Let_def split: sum.splits if_splits)

lemma rename_versions_entries:
  "rename_versions env f to rows db = Inr (u, db') \<Longrightarrow> db_entries db' = db_entries db"
  by (induction env f to rows db rule: rename_versions.induct) (auto simp: Let_def split: if_splits)

lemma queue_entries: "queue_upsert env fresh q e v db = Inr (u, db') \<Longrightarrow> db_entries db' = db_entries db"
  by (auto simp: queue_upsert_def enqueue_sqlite_def split: sum.splits option.splits)

lemma write_in_tx_frame:
  assumes "write_in_tx env now e db = Inr (v, db')" "k \<noteq> u_canonical (e_uri e)"
  shows "hget (db_entries db') k = hget (db_entries db) k"
  using assms
  by (auto simp: write_in_tx_def insert_version_def Let_def sanitize_uri hm_simps split: sum.splits if_splits prod.splits)

lemma write_frame:
  assumes "sql_write_body env now fresh q e db = Inr (v, db')" "k \<noteq> u_canonical (e_uri e)"
  shows "hget (db_entries db') k = hget (db_entries db) k"
proof -
  obtain v' db0 u where "write_in_tx env now e db = Inr (v', db0)" "queue_upsert env fresh q e v' db0 = Inr (u, db')"
    using assms(1) by (auto simp: sql_write_body_def split: sum.splits)
  then show ?thesis using write_in_tx_frame [OF _ assms(2)] queue_entries by metis
qed

lemma delete_frame:
  assumes "sql_delete_body env fresh q now uri db = Inr (v, db')" "k \<noteq> u_canonical uri"
  shows "hget (db_entries db') k = hget (db_entries db) k"
  using assms
  by (auto simp: sql_delete_body_def Let_def enqueue_sqlite_def hm_simps split: if_splits dest!: bump_entries)

lemma rename_frame:
  assumes "sql_rename_body env now bumped fresh q src dest db = Inr (v, db')"
    "k \<noteq> u_canonical src" "k \<noteq> u_canonical dest"
  shows "hget (db_entries db') k = hget (db_entries db) k"
  using assms
  by (auto simp: sql_rename_body_def rename_entry_row_def rename_relations_def enqueue_sqlite_def Let_def hm_simps
      split: option.splits sum.splits if_splits dest!: bump_entries rename_versions_entries)

lemma rollback_frame:
  assumes "sql_rollback_body env now fresh q uri n db = Inr (v, db')" "k \<noteq> u_canonical uri"
  shows "hget (db_entries db') k = hget (db_entries db) k"
  using assms write_frame
  by (fastforce simp: sql_rollback_body_def Let_def split: option.splits sum.splits if_splits)

lemma insert_current_frame:
  "insert_current env rows db = Inr (u, db') \<Longrightarrow> k \<notin> bw_uri ` set rows \<Longrightarrow>
   hget (db_entries db') k = hget (db_entries db) k"
  by (induction env rows db rule: insert_current.induct) (auto simp: hm_simps Let_def split: option.splits)

lemma insert_history_entries: "insert_history env rows db = Inr (u, db') \<Longrightarrow> db_entries db' = db_entries db"
  by (induction env rows db rule: insert_history.induct) (auto simp: insert_version_def split: sum.splits if_splits)

lemma insert_jobs_entries: "db_entries (insert_jobs rows db) = db_entries db"
  by (induction rows arbitrary: db) (auto simp: insert_jobs_def split: option.split)

lemma prepared_uris:
  "prepare_rows env lasts nexts i xs = Inr (rows, vs) \<Longrightarrow>
   bw_uri ` set rows \<subseteq> (\<lambda>x. u_canonical (e_uri (stamped_entry x))) ` set xs"
proof (induction xs arbitrary: nexts i rows vs)
  case (Cons x xs)
  obtain now fresh e where x: "x = (now, fresh, e)" by (cases x) auto
  obtain e1 n m rows' vs' where r: "sanitize_entry_for_write e = Inr e1"
    "prepare_rows env lasts (hput (u_canonical (e_uri e1)) n nexts) (i + 1) xs = Inr (rows', vs')"
    "rows = batch_row_of env lasts i n now fresh
       (e1\<lparr>e_updated_at := now, e_mvcc_version := version_from_sql n\<rparr>) m # rows'"
    using Cons.prems unfolding x prepare_rows.simps Let_def by (auto split: sum.splits if_splits)
  then show ?case
    using Cons.IH [OF r(2)] sanitize_uri [OF r(1)] by (auto simp: row_fields x stamped_entry_def)
qed auto

lemma write_chunk_frame:
  assumes "write_chunk env xs db = Inr (vs, db')" "k \<notin> (\<lambda>x. u_canonical (e_uri (stamped_entry x))) ` set xs"
  shows "hget (db_entries db') k = hget (db_entries db) k"
proof -
  obtain rows db1 db2 u u' where r: "prepare_rows env (last_ordinals xs) (base_versions xs db) 0 xs = Inr (rows, vs)"
    "insert_current env (filter bw_is_current rows) db = Inr (u, db1)" "insert_history env rows db1 = Inr (u', db2)"
    "db' = insert_jobs rows db2"
    using assms(1) by (auto simp: write_chunk_def prepare_batch_chunk_def split: sum.splits)
  have "k \<notin> bw_uri ` set (filter bw_is_current rows)" using prepared_uris [OF r(1)] assms(2) by auto
  from insert_current_frame [OF r(2) this] show ?thesis
    by (simp add: r(4) insert_jobs_entries insert_history_entries [OF r(3)])
qed

lemma write_chunks_frame:
  "write_chunks env cs db = Inr (vs, db') \<Longrightarrow>
   k \<notin> (\<lambda>x. u_canonical (e_uri (stamped_entry x))) ` set (concat cs) \<Longrightarrow>
   hget (db_entries db') k = hget (db_entries db) k"
proof (induction env cs db arbitrary: vs rule: write_chunks.induct)
  case (2 env c cs db)
  obtain ws vs' db1 where c: "write_chunk env c db = Inr (ws, db1)" "write_chunks env cs db1 = Inr (vs', db')"
    using 2(2) by (auto split: sum.splits)
  have k: "k \<notin> (\<lambda>x. u_canonical (e_uri (stamped_entry x))) ` set c"
    "k \<notin> (\<lambda>x. u_canonical (e_uri (stamped_entry x))) ` set (concat cs)"
    using 2(3) by auto
  show ?case using 2(1) [OF c(1) _ c(2) k(2)] write_chunk_frame [OF c(1) k(1)] by simp
qed auto

lemma batch_frame:
  assumes "sql_batch_write env cfg xs db = (Inr vs, db')" "k \<notin> (\<lambda>x. u_canonical (e_uri (stamped_entry x))) ` set xs"
  shows "hget (db_entries db') k = hget (db_entries db) k"
proof (cases "xs = []")
  case False
  then obtain cs where cs: "chunks env cfg xs = Inr cs" "write_chunks env cs db = Inr (vs, db')"
    using assms(1) by (auto simp: sql_batch_write_def in_transaction_def split: sum.splits)
  then have "concat cs = xs"
    using chunk_loop_concat [of cfg env xs]
    by (auto simp: chunks_def validate_batch_config_def split: sum.splits if_splits)
  then show ?thesis using write_chunks_frame [OF cs(2)] assms(2) by simp
qed (use assms(1) in \<open>simp add: sql_batch_write_def\<close>)

section \<open>Coherence\<close>

lemma get_fold_invalidated:
  assumes "moka_laws (rc_moka rc)"
  shows "cache_get rc t u l (fold (cache_invalidate rc) uris c) = Some x \<Longrightarrow>
    u_canonical u \<notin> u_canonical ` set uris \<and> cache_get rc t u l c = Some x"
proof (induction uris arbitrary: c)
  case (Cons v uris)
  from Cons.IH [OF Cons.prems [unfolded fold.simps comp_apply]]
  have "u_canonical u \<notin> u_canonical ` set uris \<and> cache_get rc t u l (cache_invalidate rc v c) = Some x" .
  moreover from this get_invalidated [OF assms, of t u l v c x]
  have "u_canonical u \<noteq> u_canonical v \<and> cache_get rc t u l c = Some x" by blast
  ultimately show ?case by simp
qed simp

lemma after_commit_coherent:
  assumes "coherent rc (db, c)"
    and "\<And>x db' k. res = (Inr x, db') \<Longrightarrow> k \<notin> u_canonical ` set uris \<Longrightarrow>
      hget (db_entries db') k = hget (db_entries db) k"
    and "\<And>e db'. res = (Inl e, db') \<Longrightarrow> db' = db"
  shows "coherent rc (snd (after_commit rc uris res c))"
proof (cases "fst res")
  case (Inl e)
  then show ?thesis using assms(1,3) by (cases res) (auto simp: after_commit_def)
next
  case (Inr x)
  then obtain db' where res: "res = (Inr x, db')" by (cases res) auto
  have m: "moka_laws (rc_moka rc)" using assms(1) by (simp add: coherent_def)
  have "y = stored_at db' (u_canonical u) l"
    if y: "l \<noteq> L2" "cache_get rc t u l (fold (cache_invalidate rc) uris c) = Some y" for t u l y
  proof -
    note g = get_fold_invalidated [OF m y(2)]
    have "y = stored_at db (u_canonical u) l"
      using coherentD [OF assms(1) y(1), unfolded fst_conv snd_conv, OF g [THEN conjunct2]] .
    then show ?thesis using assms(2) [OF res] g by (simp add: stored_at_def)
  qed
  then show ?thesis using m by (simp add: res after_commit_def coherent_def)
qed

lemma tx_coherent:
  assumes "coherent rc (db, c)"
    and "\<And>x db' k. body db = Inr (x, db') \<Longrightarrow> k \<notin> u_canonical ` set uris \<Longrightarrow>
      hget (db_entries db') k = hget (db_entries db) k"
  shows "coherent rc (snd (after_commit rc uris (in_transaction body db) c))"
  by (rule after_commit_coherent [OF assms(1)])
    (auto simp: in_transaction_def intro: assms(2) split: sum.splits prod.splits)

lemma fill_coherent:
  assumes "coherent rc (db, c)"
  shows "coherent rc (db, snd (read_fill rc t ns uri level (load_entry uri db) c))"
proof -
  have m: "moka_laws (rc_moka rc)" using assms by (simp add: coherent_def)
  have "x = stored_at db (u_canonical u) l"
    if x: "l \<noteq> L2" "cache_get rc t' u l (snd (read_fill rc t ns uri level (load_entry uri db) c)) = Some x" for t' u l x
  proof (cases "hget (db_entries db) (u_canonical uri)")
    case None
    then have "cache_get rc t' u l (cache_put_negative rc t ns uri level c) = Some x"
      using x(2) by (simp add: read_fill_def load_entry_def)
    from get_put_negative [OF m this] show ?thesis
      using None coherentD [OF assms x(1)] by (auto simp: stored_at_def split: if_splits)
  next
    case (Some r)
    let ?p = "at_level level (e_payload (er_entry r))"
    have "snd (read_fill rc t ns uri level (load_entry uri db) c) =
        (if level \<noteq> L2 then cache_put rc t ns uri level ?p (300 * SECOND) c else c)"
      using Some by (simp add: read_fill_def load_entry_def Let_def)
    then have "(if u_canonical u = u_canonical uri \<and> l = level then x = Some ?p else cache_get rc t' u l c = Some x)"
      using x get_put [OF m] by (metis (full_types))
    then show ?thesis using Some coherentD [OF assms x(1)] by (auto simp: stored_at_def split: if_splits)
  qed
  then show ?thesis using m by (simp add: coherent_def)
qed

lemma read_coherent: "coherent rc s \<Longrightarrow> coherent rc (snd (cached_read rc t ns uri level s))"
  using fill_coherent [of rc "fst s" "snd s" t ns uri level]
  by (auto simp: cached_read_def split: option.split prod.split)

lemma other_coherent:
  "coherent rc s \<Longrightarrow> db_entries db' = db_entries (fst s) \<Longrightarrow> coherent rc (db', snd s)"
  by (simp add: coherent_def stored_at_def)

lemma edge_entries:
  "db_entries (snd (sql_add_edge env now bumped src dest kind db)) = db_entries db"
  "db_entries (snd (sql_remove_edge env bumped src dest db)) = db_entries db"
  by (auto simp: sql_add_edge_def sql_remove_edge_def in_transaction_def Let_def split: sum.split dest: bump_entries)

lemma cached_step_coherent:
  assumes "coherent rc s" "cached_ok rc x s"
  shows "coherent rc (cached_step env blake3 rc x s)"
proof -
  have c: "coherent rc (fst s, snd s)" using assms(1) by simp
  note tx = tx_coherent [OF c]
  show ?thesis
  proof (cases x)
    case (CachedCall y)
    show ?thesis
    proof (cases y)
      case (SqlWrite now fresh queued e)
      then show ?thesis using write_frame CachedCall by (auto simp: cached_write_def sql_write_def intro!: tx)
    next
      case (SqlDelete fresh queued now uri)
      then show ?thesis using delete_frame CachedCall by (auto simp: cached_delete_def sql_delete_def intro!: tx)
    next
      case (SqlRename now bumped fresh queued src dest)
      show ?thesis
      proof (cases "u_tenant src = u_tenant dest")
        case True
        then show ?thesis using rename_frame CachedCall SqlRename
          by (auto simp: cached_rename_def sql_rename_def intro!: tx)
      next
        case False
        then show ?thesis using CachedCall SqlRename assms(1)
          by (simp add: cached_rename_def sql_rename_def after_commit_def)
      qed
    next
      case (SqlRollback now fresh queued uri v)
      then show ?thesis using rollback_frame CachedCall by (auto simp: cached_rollback_def sql_rollback_def intro!: tx)
    next
      case (SqlBatch cfg xs)
      have "coherent rc (snd (cached_batch rc env cfg xs s))"
        unfolding cached_batch_def
      proof (rule after_commit_coherent [OF c])
        fix vs db' k
        assume "sql_batch_write env cfg xs (fst s) = (Inr vs, db')" "k \<notin> u_canonical ` set (map (e_uri \<circ> stamped_entry) xs)"
        then show "hget (db_entries db') k = hget (db_entries (fst s)) k"
          by (intro batch_frame) auto
      qed (auto simp: sql_batch_write_def in_transaction_def split: sum.splits prod.splits if_splits)
      then show ?thesis using CachedCall SqlBatch by simp
    next
      case (SqlPutBlob now data mime)
      then show ?thesis using CachedCall other_coherent [OF assms(1)] by (simp add: blob_put_def Let_def)
    qed (use CachedCall other_coherent [OF assms(1)] in \<open>simp_all add: edge_entries\<close>)
  next
    case (CachedRead t ns uri level)
    then show ?thesis using read_coherent [OF assms(1)] by simp
  next
    case (CacheLoses c')
    have "y = stored_at (fst s) (u_canonical u) l" if "l \<noteq> L2" "cache_get rc t u l c' = Some y" for t u l y
    proof -
      have "cache_get rc t u l (snd s) = Some y"
        using assms(2) [unfolded CacheLoses cached_ok.simps loses_def] that(2) by blast
      from coherentD [OF assms(1) that(1) this] show ?thesis .
    qed
    moreover have "moka_laws (rc_moka rc)" using assms(1) by (simp add: coherent_def)
    ultimately show ?thesis using CacheLoses by (simp add: coherent_def)
  qed
qed

interpretation cached: op_system "cached_step env blake3 rc" "coherent rc" "cached_ok rc" for env blake3 rc
  by unfold_locales (rule cached_step_coherent)

section \<open>Properties\<close>

fun calls :: "'c cached_op list \<Rightarrow> sql_op list" where
  "calls [] = []"
| "calls (CachedCall x # ops) = x # calls ops"
| "calls (y # ops) = calls ops"

lemma after_commit_db: "fst (snd (after_commit rc uris res c)) = snd res"
  by (auto simp: after_commit_def split: prod.split sum.split)

lemma cached_call_db: "fst (cached_step env blake3 rc (CachedCall x) s) = sql_step env blake3 x (fst s)"
  by (cases x) (simp_all add: cached_write_def cached_delete_def cached_rename_def cached_rollback_def
      cached_batch_def after_commit_db)

lemma cached_read_db: "fst (snd (cached_read rc t ns uri level s)) = fst s"
  by (auto simp: cached_read_def split: option.split prod.split)

lemma cached_run_db:
  "fst (cached.run env blake3 rc ops s) = sql.run env blake3 (calls ops) (fst s)"
proof (induction ops arbitrary: s)
  case (Cons y ops)
  then show ?case
    by (cases y) (simp_all add: cached_call_db cached_read_db del: cached_step.simps(1-8))
qed simp

definition empty_cache :: "'c read_cache \<Rightarrow> 'c \<Rightarrow> bool" where
  "empty_cache rc c \<longleftrightarrow> (\<forall>t u l. cache_get rc t u l c = None)"

text \<open>C32: the cache does not show. After any transactions and reads in sequence, with a cache that keeps
  moka's promises and loses entries at any time, the database is the one without a cache, and a read
  at any time and level returns what a read of the database returns, absences included.\<close>

theorem cached_reads_agree:
  assumes "moka_laws (rc_moka rc)" "empty_cache rc c0"
    and "cached.ok_run env blake3 rc ops (sqlite_empty, c0)"
  shows "let s = cached.run env blake3 rc ops (sqlite_empty, c0)
    in fst s = sql.run env blake3 (calls ops) sqlite_empty \<and>
       fst (cached_read rc t ns uri level s) = sql_read uri level (fst s)"
proof -
  have "coherent rc (sqlite_empty, c0)" using assms(1,2) by (simp add: coherent_def empty_cache_def)
  from read_uncached [OF cached.run_inv [OF this assms(3)]] show ?thesis
    unfolding Let_def by (simp only: cached_run_db fst_conv simp_thms)
qed

text \<open>A cache that keeps the laws.\<close>

definition listed_moka :: "(string, cached_payload \<times> datetime) hmap moka" where
  "listed_moka =
     \<lparr>mk_get = (\<lambda>t k c. case hget c k of Some (v, until) \<Rightarrow> if t < until then Some v else None | None \<Rightarrow> None),
      mk_insert = (\<lambda>t k v c. hput k (v, t + int (cp_ttl v)) c),
      mk_invalidate = hdel\<rparr>"

lemma listed_moka_laws: "moka_laws listed_moka"
  unfolding moka_laws_def
  by (intro conjI allI impI) (auto simp: listed_moka_def hm_simps split: option.splits if_splits)

definition demo_cache :: "(string, cached_payload \<times> datetime) hmap read_cache" where
  "demo_cache = memory_read_cache listed_moka (60 * SECOND)"

lemma demo_cache_ok: "moka_laws (rc_moka demo_cache)" "empty_cache demo_cache []"
  using listed_moka_laws
  by (simp_all add: demo_cache_def memory_read_cache_def empty_cache_def cache_get_def)
    (simp add: listed_moka_def)

theorem cached_reads_agree_witness:
  "let s = cached.run demo_env (\<lambda>s. s) demo_cache
       [CachedCall (SqlWrite 1 1 1 (model_entry [''t'', ''a''] ''m1'')), CachedRead 2 5 (note_uri [''t'', ''a'']) L0,
        CachedCall (SqlWrite 3 2 3 (model_entry [''t'', ''a''] ''m2''))] (sqlite_empty, [])
   in fst (cached_read demo_cache 4 6 (note_uri [''t'', ''a'']) L0 s) = sql_read (note_uri [''t'', ''a'']) L0 (fst s)"
proof -
  let ?ops = "[CachedCall (SqlWrite 1 1 1 (model_entry [''t'', ''a''] ''m1'')), CachedRead 2 5 (note_uri [''t'', ''a'']) L0,
        CachedCall (SqlWrite 3 2 3 (model_entry [''t'', ''a''] ''m2''))]"
  have "cached.ok_run demo_env (\<lambda>s. s) demo_cache ?ops (sqlite_empty, [])"
    by (simp only: cached.ok_run.simps cached_ok.simps simp_thms)
  from cached_reads_agree [OF demo_cache_ok this] show ?thesis unfolding Let_def by blast
qed

text \<open>Between the two steps of a reader another call may commit and invalidate: the payload loaded before
  is put into the cache afterwards, and later reads return it.\<close>

lemma late_fill_is_stale:
  "let a = note_uri [''t'', ''a''];
       db1 = snd (sql_write demo_env 1 1 1 (model_entry [''t'', ''a''] ''m1'') sqlite_empty);
       loaded = load_entry a db1;
       (r, db2, c) = cached_write demo_cache demo_env 2 2 2 (model_entry [''t'', ''a''] ''m2'') (db1, []);
       c' = snd (read_fill demo_cache 3 0 a L0 loaded c)
   in map_sum id sparse_text (fst (cached_read demo_cache (250 * 1000000000) 0 a L0 (db2, c'))) = Inr ''m1'' \<and>
      map_sum id sparse_text (sql_read a L0 db2) = Inr ''m2''"
  by code_simp

end
