(* ===== verification/Store_Histories.thy ===== *)
theory Store_Histories
  imports Sqlite_Properties Sqlite_Queries
begin

text \<open>
  The contract of content stores that the in-memory store (crates/context-db-testkit/src/lib.rs) and the
  SQLite store (crates/context-db-storage/src/sqlite.rs) share: under each address a history of snapshots,
  which a write extends, a deletion empties, a rename moves and a rollback extends by a copy. Both
  stores refine it, so that the same calls give the same histories.
\<close>

section \<open>The specification\<close>

type_synonym entry_snapshot = "tenant_id \<times> content_payload \<times> context_meta"

definition snapshot :: "context_entry \<Rightarrow> entry_snapshot" where
  "snapshot e = (e_tenant e, e_payload e, e_metadata e)"

type_synonym histories = "string \<Rightarrow> entry_snapshot list"

datatype hist_call =
    HPut context_entry
  | HDrop string
  | HMove string string
  | HBack string nat

definition hist_add :: "string \<Rightarrow> entry_snapshot \<Rightarrow> histories \<Rightarrow> histories" where
  "hist_add k x h = h(k := h k @ [x])"

fun hist_step :: "hist_call \<Rightarrow> histories \<Rightarrow> histories" where
  "hist_step (HPut e) h =
     (case sanitize_entry_for_write e of Inl _ \<Rightarrow> h | Inr c \<Rightarrow> hist_add (u_canonical (e_uri e)) (snapshot c) h)"
| "hist_step (HDrop k) h = h(k := [])"
| "hist_step (HMove a b) h = (if h a = [] \<or> a = b then h else h(b := h a, a := []))"
| "hist_step (HBack k n) h = (if 1 \<le> n \<and> n \<le> length (h k) then hist_add k (h k ! (n - 1)) h else h)"

text \<open>A store refines the specification when each of its operations does the calls it stands for.\<close>

locale history_model = op_system step inv ok
  for step :: "'o \<Rightarrow> 's \<Rightarrow> 's" and inv :: "'s \<Rightarrow> bool" and ok :: "'o \<Rightarrow> 's \<Rightarrow> bool" +
  fixes hist :: "'s \<Rightarrow> 'h" and hcalls :: "'o \<Rightarrow> 'c list" and hstep :: "'c \<Rightarrow> 'h \<Rightarrow> 'h"
  assumes hist_sim: "inv s \<Longrightarrow> ok x s \<Longrightarrow> hist (step x s) = fold hstep (hcalls x) (hist s)"
begin

lemma run_hist: "inv s \<Longrightarrow> ok_run xs s \<Longrightarrow> hist (run xs s) = fold hstep (concat (map hcalls xs)) (hist s)"
  by (induction xs arbitrary: s) (simp_all add: step_inv hist_sim)

end

text \<open>Two stores, the second of which sees to the conditions of the first.\<close>

locale history_pair =
  fst_store: history_model step1 inv1 ok1 hist1 hcalls1 hstep + snd_store: history_model step2 inv2 ok2 hist2 hcalls2 hstep
  for step1 :: "'o \<Rightarrow> 's \<Rightarrow> 's" and inv1 ok1 and hist1 :: "'s \<Rightarrow> 'h" and hcalls1 :: "'o \<Rightarrow> 'c list"
    and step2 :: "'p \<Rightarrow> 't \<Rightarrow> 't" and inv2 ok2 and hist2 :: "'t \<Rightarrow> 'h" and hcalls2 :: "'p \<Rightarrow> 'c list" and hstep +
  assumes fits: "inv1 s \<Longrightarrow> inv2 t \<Longrightarrow> hist1 s = hist2 t \<Longrightarrow> ok2 y t \<Longrightarrow> hcalls1 x = hcalls2 y \<Longrightarrow> ok1 x s"
begin

lemma runs_agree:
  "list_all2 (\<lambda>x y. hcalls1 x = hcalls2 y) xs ys \<Longrightarrow> inv1 s \<Longrightarrow> inv2 t \<Longrightarrow> hist1 s = hist2 t \<Longrightarrow>
   snd_store.ok_run ys t \<Longrightarrow>
   hist1 (fst_store.run xs s) = hist2 (snd_store.run ys t) \<and> inv1 (fst_store.run xs s) \<and> inv2 (snd_store.run ys t)"
proof (induction xs ys arbitrary: s t rule: list_all2_induct)
  case (Cons x xs y ys)
  have ok: "ok2 y t" "snd_store.ok_run ys (step2 y t)" using Cons.prems by simp_all
  have ok1: "ok1 x s" by (rule fits [OF Cons.prems(1-3) ok(1) Cons.hyps(1)])
  have "hist1 (step1 x s) = hist2 (step2 y t)"
    using fst_store.hist_sim [OF Cons.prems(1) ok1] snd_store.hist_sim [OF Cons.prems(2) ok(1)] Cons.hyps(1) Cons.prems(3)
    by simp
  from Cons.IH [OF fst_store.step_inv [OF Cons.prems(1) ok1] snd_store.step_inv [OF Cons.prems(2) ok(1)] this ok(2)]
  show ?case by simp
qed simp

end

section \<open>The in-memory store\<close>

definition mem_hist :: "cstore \<Rightarrow> histories" where
  "mem_hist s k = map snapshot (versions_of s k)"

fun mem_calls :: "cop \<Rightarrow> hist_call list" where
  "mem_calls (CWrite now e) = [HPut e]"
| "mem_calls (CBatch es) = map (HPut \<circ> snd) es"
| "mem_calls (CDelete u) = [HDrop (u_canonical u)]"
| "mem_calls (CRename a b) = [HMove (u_canonical a) (u_canonical b)]"
| "mem_calls (CRollback u v) = [HBack (u_canonical u) (version_number v)]"
| "mem_calls _ = []"

definition mem_fits :: "cop \<Rightarrow> cstore \<Rightarrow> bool" where
  "mem_fits x s \<longleftrightarrow> (\<forall>k. length (versions_of s k) \<le> SQL_MAX)"

lemma sanitize_total: obtains e' where "sanitize_entry_for_write e = Inr e'" "e_uri e' = e_uri e"
  using sanitize_cases [of e] by auto

lemma snapshot_upd [simp]: "snapshot (e\<lparr>e_mvcc_version := v\<rparr>) = snapshot e"
  "snapshot (e\<lparr>e_updated_at := t\<rparr>) = snapshot e" "snapshot (e\<lparr>e_uri := u\<rparr>) = snapshot e"
  by (simp_all add: snapshot_def)

lemma mem_write: "mem_hist (snd (write_entry now e s)) = hist_step (HPut e) (mem_hist s)"
proof -
  obtain c where c: "sanitize_entry_for_write e = Inr c" "e_uri c = e_uri e" by (rule sanitize_total)
  show ?thesis
    by (rule ext) (auto simp: mem_hist_def write_entry_def c Let_def hist_add_def versions_of_def hm_simps)
qed

lemma mem_batch: "mem_hist (snd (batch_write es s)) = fold hist_step (map (HPut \<circ> snd) es) (mem_hist s)"
proof (induction es s rule: batch_write.induct)
  case (2 now e es s)
  obtain c where c: "sanitize_entry_for_write e = Inr c" by (rule sanitize_total)
  obtain v s1 where w: "write_entry now e s = (Inr v, s1)" by (auto simp: write_entry_def c Let_def)
  have "snd (batch_write ((now, e) # es) s) = snd (batch_write es s1)"
    by (auto simp: w split: prod.split sum.split)
  moreover have "mem_hist (snd (batch_write es s1)) = fold hist_step (map (HPut \<circ> snd) es) (mem_hist s1)"
    using "2.IH" [OF w [symmetric] refl] .
  moreover have "mem_hist s1 = hist_step (HPut e) (mem_hist s)" using mem_write [of now e s] by (simp add: w)
  ultimately show ?case by (simp add: comp_def del: hist_step.simps batch_write.simps)
qed simp

lemma mem_rename:
  "cs_inv s \<Longrightarrow> mem_hist (snd (rename_entry a b s)) = hist_step (HMove (u_canonical a) (u_canonical b)) (mem_hist s)"
  by (rule ext) (auto simp: mem_hist_def rename_entry_def versions_of_def hm_simps split: option.split dest: cs_inv_get)

lemma mem_rollback:
  assumes "cs_inv s" "length (versions_of s (u_canonical u)) \<le> SQL_MAX"
  shows "mem_hist (snd (rollback u v s)) = hist_step (HBack (u_canonical u) (version_number v)) (mem_hist s)"
proof (cases "hget (entries s) (u_canonical u)")
  case None
  then show ?thesis by (auto simp: rollback_def mem_hist_def versions_of_def)
next
  case (Some l)
  obtain w where v: "v = MvccVersion w" by (cases v)
  have l: "numbered l" "length l < 2 ^ 64" using cs_inv_get [OF assms(1) Some] assms(2) Some
    by (simp_all add: versions_of_def SQL_MAX_def)
  show ?thesis
  proof (cases "1 \<le> unat w \<and> unat w \<le> length l")
    case True
    have w: "w = of_nat (unat w - 1) + 1"
    proof -
      have "of_nat (unat w - 1 + 1) = (of_nat (unat w) :: u64)" using True by simp
      then show ?thesis by (simp add: add.commute)
    qed
    have "find (\<lambda>e. e_mvcc_version e = v) l = Some (l ! (unat w - 1))"
    proof -
      have "unat w - 1 < length l" using True by linarith
      from find_numbered [OF l this] show ?thesis unfolding v w [symmetric] .
    qed
    then show ?thesis
      using True Some
      by (intro ext) (auto simp: rollback_def mem_hist_def versions_of_def hm_simps v version_number_def hist_add_def)
  next
    case False
    have "find (\<lambda>e. e_mvcc_version e = v) l = None"
      unfolding find_None_iff
    proof
      assume "\<exists>e. e \<in> set l \<and> e_mvcc_version e = v"
      then obtain i where "i < length l" "e_mvcc_version (l ! i) = v" by (auto simp: in_set_conv_nth)
      then have w: "w = of_nat (i + 1)" "i + 1 \<le> length l" using numbered_nth [OF l(1)] by (auto simp: v)
      have "unat (of_nat (i + 1) :: u64) = i + 1"
        using w(2) l(2) by (simp only: unat_of_nat take_bit_eq_mod) simp
      then show False using False w by simp
    qed
    then show ?thesis
      using False Some by (auto simp: rollback_def mem_hist_def versions_of_def v version_number_def)
  qed
qed

lemma mem_sim: "cs_inv s \<Longrightarrow> mem_fits x s \<Longrightarrow> mem_hist (cstep x s) = fold hist_step (mem_calls x) (mem_hist s)"
  by (cases x)
    (auto simp: mem_write mem_batch mem_rename mem_rollback mem_fits_def mem_hist_def delete_entry_def versions_of_def
      hm_simps put_l2_blob_def add_edge_def remove_edge_def bump_revision_def Let_def fun_eq_iff
      simp del: hist_step.simps(1,3,4) split: option.split)

interpretation mem: history_model cstep cs_inv mem_fits mem_hist mem_calls hist_step
  by unfold_locales (auto intro: cstep_inv mem_sim)

section \<open>The SQLite store\<close>

definition sql_hist :: "sqlite_db \<Rightarrow> histories" where
  "sql_hist db k = map (\<lambda>n. snapshot (hv_entry (the (hget (db_versions db) (k, n))))) [1..<next_number db k]"

fun sql_calls :: "sql_op \<Rightarrow> hist_call list" where
  "sql_calls (SqlWrite now fresh queued e) = [HPut e]"
| "sql_calls (SqlBatch cfg xs) = map (HPut \<circ> stamped_entry) xs"
| "sql_calls (SqlDelete fresh queued now u) = [HDrop (u_canonical u)]"
| "sql_calls (SqlRename now bumped fresh queued a b) = [HMove (u_canonical a) (u_canonical b)]"
| "sql_calls (SqlRollback now fresh queued u v) = [HBack (u_canonical u) (version_number v)]"
| "sql_calls _ = []"

text \<open>The calls that succeed.\<close>

fun sql_succeeds :: "sql_env \<Rightarrow> sql_op \<Rightarrow> sqlite_db \<Rightarrow> bool" where
  "sql_succeeds env (SqlWrite now fresh queued e) db = (\<not> isl (fst (sql_write env now fresh queued e db)))"
| "sql_succeeds env (SqlBatch cfg xs) db = (\<not> isl (fst (sql_batch_write env cfg xs db)) \<and> customs_accepted env xs)"
| "sql_succeeds env (SqlDelete fresh queued now u) db = (\<not> isl (fst (sql_delete env fresh queued now u db)))"
| "sql_succeeds env (SqlRename now bumped fresh queued a b) db =
     (\<not> isl (fst (sql_rename env now bumped fresh queued a b db)))"
| "sql_succeeds env (SqlRollback now fresh queued u v) db = (\<not> isl (fst (sql_rollback env now fresh queued u v db)))"
| "sql_succeeds env _ db = True"

lemma in_transaction_done:
  "\<not> isl (fst (in_transaction body db)) \<Longrightarrow> \<exists>x. body db = Inr (x, snd (in_transaction body db))"
  by (auto simp: in_transaction_def split: sum.splits prod.splits)

lemma sql_hist_cong:
  assumes "\<And>n. hget (db_versions db') (k, n) = hget (db_versions db) (k, n)"
    "map_option er_version (hget (db_entries db') k) = map_option er_version (hget (db_entries db) k)"
  shows "sql_hist db' k = sql_hist db k"
proof -
  have "next_number db' k = next_number db k"
    using assms(2) by (auto simp: next_number_def split: option.splits)
  then show ?thesis by (simp add: sql_hist_def assms(1))
qed

lemma sql_hist_apply:
  assumes "bw_version r = next_number db (bw_uri r)"
  shows "sql_hist (apply_row env r db) = hist_add (bw_uri r) (snapshot (bw_entry r)) (sql_hist db)"
proof
  fix k
  have n: "next_number (apply_row env r db) k = (if k = bw_uri r then bw_version r + 1 else next_number db k)"
    using apply_row_number [of env r db k] by (auto simp: next_number_def split: option.splits if_splits)
  have V: "hget (db_versions (apply_row env r db)) (k, m) =
      (if k = bw_uri r \<and> m = bw_version r
       then Some \<lparr>hv_l0 = bw_l0 r, hv_entry = bw_entry r, hv_created_at = bw_updated_at r\<rparr>
       else hget (db_versions db) (k, m))" for m
    by (simp add: apply_row_def put_version_def hm_simps)
  have "1 \<le> next_number db (bw_uri r)" by (simp add: next_number_def split: option.split)
  then show "sql_hist (apply_row env r db) k = hist_add (bw_uri r) (snapshot (bw_entry r)) (sql_hist db) k"
    unfolding sql_hist_def n V hist_add_def using assms by auto
qed

lemma sql_hist_write:
  assumes "counted db" "sql_write_body env now fresh queued e db = Inr (v, db')"
  shows "sql_hist db' = hist_step (HPut e) (sql_hist db)"
proof -
  obtain c where c: "sanitize_entry_for_write e = Inr c" "e_uri c = e_uri e" by (rule sanitize_total)
  obtain v' db0 u where w: "write_in_tx env now e db = Inr (v', db0)" "queue_upsert env fresh queued e v' db0 = Inr (u, db')"
    using assms(2) by (auto simp: sql_write_body_def split: sum.splits)
  have "sql_hist db' = sql_hist db0"
    using w(2) by (intro ext sql_hist_cong) (auto simp: queue_upsert_def enqueue_sqlite_def split: sum.splits option.splits)
  moreover obtain n where "n = next_number db (u_canonical (e_uri e))"
    "db0 = apply_row env (batch_row_of env [] 0 n now 0 (stored_entry now n c) None) db"
    using w(1) unfolding write_in_tx_row [OF assms(1)] by (auto simp: c Let_def split: sum.splits if_splits)
  ultimately show ?thesis
    using sql_hist_apply [of "batch_row_of env [] 0 n now 0 (stored_entry now n c) None" db env] c
    by (simp add: row_fields stored_entry_def snapshot_def)
qed

lemma sql_hist_each:
  "counted db \<Longrightarrow> write_each env xs db = Inr (vs, db') \<Longrightarrow>
   sql_hist db' = fold hist_step (map (HPut \<circ> stamped_entry) xs) (sql_hist db)"
proof (induction xs arbitrary: db vs)
  case (Cons x xs)
  obtain now fresh e where x: "x = (now, fresh, e)" by (cases x) auto
  obtain v db0 ws where w: "sql_write_body env now fresh now e db = Inr (v, db0)" "write_each env xs db0 = Inr (ws, db')"
    using Cons.prems(2) by (auto simp: x split: sum.splits)
  have "sql_hist db0 = hist_step (HPut e) (sql_hist db)" by (rule sql_hist_write [OF Cons.prems(1) w(1)])
  moreover have "sql_hist db' = fold hist_step (map (HPut \<circ> stamped_entry) xs) (sql_hist db0)"
    by (rule Cons.IH [OF write_body_counted [OF Cons.prems(1) w(1)] w(2)])
  ultimately show ?case by (simp add: x stamped_entry_def comp_def del: hist_step.simps)
qed simp

lemma sql_hist_agree: "agree db db' \<Longrightarrow> sql_hist db' = sql_hist db"
  using agree_numbers [of db db'] by (intro ext sql_hist_cong) (simp_all add: agree_def)

lemma sql_hist_batch:
  assumes "counted db" "\<not> isl (fst (sql_batch_write env cfg xs db))" "customs_accepted env xs"
  shows "sql_hist (snd (sql_batch_write env cfg xs db)) = fold hist_step (map (HPut \<circ> stamped_entry) xs) (sql_hist db)"
proof (cases "xs = []")
  case False
  then have "validate_batch_config cfg = Inr ()"
    using assms(2) by (auto simp: sql_batch_write_def in_transaction_def chunks_def split: sum.splits)
  then have cfg: "0 < bc_max_rows cfg" "0 < bc_max_bytes cfg"
    by (auto simp: validate_batch_config_def split: if_splits)
  note rel = batch_each [OF assms(1) cfg assms(3)]
  then have ok: "\<not> isl (fst (in_transaction (write_each env xs) db))"
    using assms(2) by (cases "sql_batch_write env cfg xs db"; cases "in_transaction (write_each env xs) db")
      (auto simp: rel_sum.simps)
  obtain vs db1 where each: "write_each env xs db = Inr (vs, db1)" "snd (in_transaction (write_each env xs) db) = db1"
    using in_transaction_done [OF ok] by blast
  have "agree (snd (sql_batch_write env cfg xs db)) db1"
    using rel each(2) by (cases "sql_batch_write env cfg xs db"; cases "in_transaction (write_each env xs) db") auto
  then show ?thesis using sql_hist_each [OF assms(1) each(1)] sql_hist_agree by metis
qed (simp add: sql_batch_write_def)

lemma bump_tables:
  "bump_if env b now scope oper f t db = Inr (u, db') \<Longrightarrow>
   db_entries db' = db_entries db \<and> db_versions db' = db_versions db"
  by (auto simp: bump_if_def bump_graph_revision_def Let_def split: sum.splits if_splits)

lemma sql_hist_delete:
  assumes "db_inv env pt db" "sql_delete_body env fresh queued now uri db = Inr (u, db')"
  shows "sql_hist db' = hist_step (HDrop (u_canonical uri)) (sql_hist db)"
proof
  fix k
  have wf: "hm_wf (db_versions db)" using assms(1) by (simp add: db_inv_def keys_distinct_def)
  have db': "db_entries db' = hdel (u_canonical uri) (db_entries db)"
    "db_versions db' = filter (\<lambda>((u, v), row). u \<noteq> u_canonical uri) (db_versions db)"
    using assms(2) by (auto simp: sql_delete_body_def Let_def enqueue_sqlite_def split: if_splits dest!: bump_tables)
  show "sql_hist db' k = hist_step (HDrop (u_canonical uri)) (sql_hist db) k"
  proof (cases "k = u_canonical uri")
    case True
    then show ?thesis by (simp add: sql_hist_def next_number_def db'(1) hm_simps)
  next
    case False
    have "hget (db_versions db') (k, n) = hget (db_versions db) (k, n)" for n
      unfolding db'(2) hget_filter [OF wf] using False by (simp split: option.split)
    then have "sql_hist db' k = sql_hist db k"
      using False by (intro sql_hist_cong) (simp_all add: db'(1) hm_simps)
    then show ?thesis using False by simp
  qed
qed

lemma current_row:
  assumes "db_inv env pt db" "hget (db_entries db) k = Some r"
  shows "1 \<le> er_version r" "er_version r \<le> SQL_MAX" "next_number db k = er_version r + 1"
    "\<And>n. 1 \<le> n \<Longrightarrow> n \<le> er_version r \<Longrightarrow> \<exists>h. hget (db_versions db) (k, n) = Some h"
proof -
  have c: "counted db" "current_kept db" "rows_ok env pt db" using assms(1) by (simp_all add: db_inv_def)
  then obtain h where "hget (db_versions db) (k, er_version r) = Some h" using assms(2) by (auto simp: current_kept_def)
  then have "hhas (db_versions db) (k, er_version r)" by (simp add: hhas_def)
  then show "1 \<le> er_version r" using c(1) by (auto simp: counted_def)
  show "er_version r \<le> SQL_MAX" using c(3) assms(2) by (auto simp: rows_ok_def row_ok_def Let_def)
  show "next_number db k = er_version r + 1" using assms(2) by (simp add: next_number_def)
  show "\<exists>h. hget (db_versions db) (k, n) = Some h" if "1 \<le> n" "n \<le> er_version r" for n
    using c(1) that assms(2) unfolding counted_def hhas_def by blast
qed

lemma sql_hist_rename:
  assumes inv: "db_inv env pt db" and ok: "sql_rename_body env now bumped fresh queued a b db = Inr (x, db')"
  shows "sql_hist db' = hist_step (HMove (u_canonical a) (u_canonical b)) (sql_hist db)"
proof (rule rename_steps [OF inv ok])
  fix old db2 u' changed rels db3 js
  let ?a = "u_canonical a" and ?b = "u_canonical b"
  assume old: "hget (db_entries db) ?a = Some old" and free: "?b = ?a \<or> hget (db_entries db) ?b = None"
    and entries: "db_entries db2 = hput ?b
      (old\<lparr>er_entry := (er_entry old)\<lparr>e_uri := b, e_updated_at := now\<rparr>, er_updated_at := now\<rparr>)
      (hdel ?a (db_entries db))"
    and versions: "\<And>u w. hget (db_versions db2) (u, w) =
      (case hget (db_versions db) (?a, w) of
         Some row \<Rightarrow>
           (if u = ?b then Some (row\<lparr>hv_entry := (hv_entry row)\<lparr>e_uri := b\<rparr>\<rparr>)
            else if u = ?a then None else hget (db_versions db) (u, w))
       | None \<Rightarrow> hget (db_versions db) (u, w))"
    and db3: "bump_if env changed bumped (u_tenant a) ''rename'' (Some ?a) (Some ?b)
        (db2\<lparr>db_relations := rels\<rparr>) = Inr (u', db3)" "db' = db3\<lparr>db_jobs := js\<rparr>"
  have db': "db_entries db' = db_entries db2" "db_versions db' = db_versions db2"
    using bump_tables [OF db3(1)] db3(2) by simp_all
  note cur = current_row [OF inv old]
  have kept: "snapshot (hv_entry (the (hget (db_versions db') (?b, n)))) =
      snapshot (hv_entry (the (hget (db_versions db) (?a, n))))" if "n \<in> set [1..<er_version old + 1]" for n
    using cur(4) [of n] that unfolding db' versions by auto
  have moved: "sql_hist db' ?b = sql_hist db ?a"
    unfolding sql_hist_def cur(3) using kept
    by (simp add: next_number_def db' entries hm_simps cong: map_cong)
  have gone: "sql_hist db' ?a = []" if "?a \<noteq> ?b"
    using that by (simp add: sql_hist_def next_number_def db' entries hm_simps)
  have other: "sql_hist db' k = sql_hist db k" if "k \<noteq> ?a" "k \<noteq> ?b" for k
  proof (rule sql_hist_cong)
    show "hget (db_versions db') (k, n) = hget (db_versions db) (k, n)" for n
      unfolding db' versions using that by (simp split: option.split)
    show "map_option er_version (hget (db_entries db') k) = map_option er_version (hget (db_entries db) k)"
      using that by (simp add: db' entries hm_simps)
  qed
  have "sql_hist db ?a \<noteq> []" using cur(1,3) by (simp add: sql_hist_def)
  then show ?thesis
    using moved gone other by (intro ext) (auto simp: fun_upd_def)
qed

text \<open>Rolling back sanitizes again, which changes nothing in what was stored.\<close>

definition clean_hist :: "histories \<Rightarrow> bool" where
  "clean_hist h \<longleftrightarrow> (\<forall>k. \<forall>(t, p, m)\<in>set (h k). fst (redact_payload p []) = p)"

lemma clean_hist_step:
  assumes "clean_hist h"
  shows "clean_hist (hist_step x h)"
proof (cases x)
  case (HPut e)
  obtain m where "sanitize_entry_for_write e =
      Inr (e\<lparr>e_payload := fst (redact_payload (e_payload e) []), e_metadata := m\<rparr>)"
    using sanitize_cases [of e] by blast
  then show ?thesis
    using assms HPut by (auto simp: clean_hist_def hist_add_def snapshot_def redact_payload_again)
next
  case (HBack k n)
  show ?thesis
  proof (cases "1 \<le> n \<and> n \<le> length (h k)")
    case True
    then have "h k ! (n - 1) \<in> set (h k)" by (intro nth_mem) linarith
    then show ?thesis using assms HBack True by (auto simp: clean_hist_def hist_add_def)
  qed (use assms HBack in auto)
qed (use assms in \<open>auto simp: clean_hist_def\<close>)

lemma clean_hist_fold: "clean_hist h \<Longrightarrow> clean_hist (fold hist_step xs h)"
  by (induction xs arbitrary: h) (auto simp: clean_hist_step simp del: hist_step.simps)

lemma sql_hist_rollback:
  assumes inv: "db_inv env pt db" and clean: "clean_hist (sql_hist db)"
    and ok: "sql_rollback_body env now fresh queued uri to db = Inr (u, db')"
  shows "sql_hist db' = hist_step (HBack (u_canonical uri) (version_number to)) (sql_hist db)"
proof -
  let ?k = "u_canonical uri" and ?n = "version_number to"
  obtain row v r where row: "hget (db_versions db) (?k, ?n) = Some row" "hget (db_entries db) ?k = Some r"
    "sql_write_body env now fresh queued ((hv_entry row)\<lparr>e_uri := uri\<rparr>) db = Inr (v, db')"
    using ok by (auto simp: sql_rollback_body_def version_to_sql_def Let_def hhas_def split: sum.splits option.splits if_splits)
  have c: "counted db" "rows_ok env pt db" using inv by (simp_all add: db_inv_def)
  then have "\<exists>r. hget (db_entries db) ?k = Some r \<and> 1 \<le> ?n \<and> ?n \<le> er_version r"
    using row(1) unfolding counted_def hhas_def by blast
  then have n: "1 \<le> ?n" "?n \<le> er_version r" using row(2) by auto
  note cur = current_row [OF inv row(2)]
  have len: "length (sql_hist db ?k) = er_version r" by (simp add: sql_hist_def cur(3))
  have nth: "sql_hist db ?k ! (?n - 1) = snapshot (hv_entry row)"
  proof -
    have "[1..<er_version r + 1] ! (?n - 1) = ?n" using n by (subst nth_upt) auto
    then show ?thesis using n row(1) by (simp add: sql_hist_def cur(3) del: upt_Suc)
  qed
  then have "snapshot (hv_entry row) \<in> set (sql_hist db ?k)"
    using n len by (metis diff_less less_le_trans less_one linorder_not_less nth_mem order_refl)
  then have payload: "fst (redact_payload (e_payload (hv_entry row)) []) = e_payload (hv_entry row)"
    using clean by (force simp: clean_hist_def snapshot_def)
  have "kept_ok env pt ?k ?n row" using c(2) row(1) by (simp add: rows_ok_def)
  then have "scan_sensitive_entry ((hv_entry row)\<lparr>e_uri := uri\<rparr>) = []"
    by (simp add: kept_ok_def bound_entry_def scan_sensitive_entry_def)
  then have "sanitize_entry_for_write ((hv_entry row)\<lparr>e_uri := uri\<rparr>) = Inr ((hv_entry row)\<lparr>e_uri := uri\<rparr>)"
    using sanitize_cases [of "(hv_entry row)\<lparr>e_uri := uri\<rparr>"] payload by auto
  then have "sql_hist db' = hist_add ?k (snapshot (hv_entry row)) (sql_hist db)"
    using sql_hist_write [OF c(1) row(3)] by simp
  then show ?thesis using n len nth by simp
qed

definition sql_clean :: "sql_env \<Rightarrow> (string \<Rightarrow> datetime option) \<Rightarrow> sqlite_db \<Rightarrow> bool" where
  "sql_clean env pt db \<longleftrightarrow> db_inv env pt db \<and> clean_hist (sql_hist db)"

definition sql_done :: "sql_env \<Rightarrow> (string \<Rightarrow> datetime option) \<Rightarrow> sql_op \<Rightarrow> sqlite_db \<Rightarrow> bool" where
  "sql_done env pt x db \<longleftrightarrow> sql_op_ok pt x db \<and> sql_succeeds env x db"

lemma sql_hist_other:
  "sql_hist (snd (sql_add_edge env now bumped a b kind db)) = sql_hist db"
  "sql_hist (snd (sql_remove_edge env bumped a b db)) = sql_hist db"
  "sql_hist (snd (blob_put blake3 now data mime db)) = sql_hist db"
  by (auto simp: sql_add_edge_def sql_remove_edge_def blob_put_def in_transaction_def Let_def
      intro!: ext sql_hist_cong split: sum.split dest!: bump_tables)

lemma sql_sim:
  assumes "sql_clean env pt db" "sql_done env pt x db"
  shows "sql_hist (sql_step env blake3 x db) = fold hist_step (sql_calls x) (sql_hist db)"
proof -
  have inv: "db_inv env pt db" "clean_hist (sql_hist db)" "counted db"
    using assms(1) by (simp_all add: sql_clean_def db_inv_def)
  have ok: "sql_succeeds env x db" using assms(2) by (simp add: sql_done_def)
  show ?thesis
  proof (cases x)
    case (SqlWrite now fresh queued e)
    then obtain v where "sql_write_body env now fresh queued e db = Inr (v, sql_step env blake3 x db)"
      using ok by (auto simp: sql_write_def dest!: in_transaction_done)
    from sql_hist_write [OF inv(3) this] show ?thesis using SqlWrite by simp
  next
    case (SqlDelete fresh queued now u)
    then obtain v where "sql_delete_body env fresh queued now u db = Inr (v, sql_step env blake3 x db)"
      using ok by (auto simp: sql_delete_def dest!: in_transaction_done)
    from sql_hist_delete [OF inv(1) this] show ?thesis using SqlDelete by simp
  next
    case (SqlRename now bumped fresh queued a b)
    then have same: "u_tenant a = u_tenant b" using ok by (auto simp: sql_rename_def split: if_splits)
    obtain v where "sql_rename_body env now bumped fresh queued a b db = Inr (v, sql_step env blake3 x db)"
      using ok SqlRename same by (auto simp: sql_rename_def dest!: in_transaction_done)
    from sql_hist_rename [OF inv(1) this] show ?thesis using SqlRename by simp
  next
    case (SqlRollback now fresh queued u v)
    then obtain w where "sql_rollback_body env now fresh queued u v db = Inr (w, sql_step env blake3 x db)"
      using ok by (auto simp: sql_rollback_def dest!: in_transaction_done)
    from sql_hist_rollback [OF inv(1,2) this] show ?thesis using SqlRollback by simp
  next
    case (SqlBatch cfg xs)
    then show ?thesis using ok sql_hist_batch [OF inv(3)] by simp
  qed (simp_all add: sql_hist_other)
qed

lemma sql_clean_step: "sql_clean env pt db \<Longrightarrow> sql_done env pt x db \<Longrightarrow> sql_clean env pt (sql_step env blake3 x db)"
  using sql_sim [of env pt db x blake3] clean_hist_fold [of "sql_hist db" "sql_calls x"] sql_step_inv
  by (simp add: sql_clean_def sql_done_def)

interpretation hsql: history_model "sql_step env blake3" "sql_clean env pt" "sql_done env pt" sql_hist sql_calls hist_step
  for env blake3 pt
  by unfold_locales (auto intro: sql_clean_step sql_sim)

section \<open>Both stores\<close>

lemma stores_fit:
  assumes "sql_clean env pt db" "mem_hist s = sql_hist db"
  shows "mem_fits x s"
  unfolding mem_fits_def
proof
  fix k
  have "length (versions_of s k) = length (sql_hist db k)"
    using assms(2) by (metis length_map mem_hist_def)
  also have "\<dots> \<le> SQL_MAX"
  proof (cases "hget (db_entries db) k")
    case (Some r)
    have "db_inv env pt db" using assms(1) by (simp add: sql_clean_def)
    from current_row [OF this Some] show ?thesis by (simp add: sql_hist_def)
  qed (simp add: sql_hist_def next_number_def)
  finally show "length (versions_of s k) \<le> SQL_MAX" .
qed

interpretation stores: history_pair cstep cs_inv mem_fits mem_hist mem_calls
    "sql_step env blake3" "sql_clean env pt" "sql_done env pt" sql_hist sql_calls hist_step
  for env blake3 pt
  by unfold_locales (rule stores_fit)

text \<open>C31: the in-memory store and the SQLite store agree on tenant, payload and metadata. After the same writes,
  batches (of entries whose custom metadata the column takes), deletions, renames and rollbacks, on
  addresses that the parser gives and all of which succeed in SQLite, both hold under every address the same number of versions with, one by one,
  the same tenant, payload and metadata, and the same tenant, payload and metadata as the current entry.
  The addresses inside the entries can differ after a rename, and so can the times.\<close>

theorem stores_agree:
  assumes "list_all2 (\<lambda>x y. mem_calls x = sql_calls y) mem_ops sql_ops"
    and "hsql.ok_run env blake3 pt sql_ops sqlite_empty"
  shows "let s = mem.run mem_ops cstore_new; db = hsql.run env blake3 sql_ops sqlite_empty
    in map snapshot (versions_of s k) = sql_hist db k \<and>
       map_option snapshot (latest s k) = map_option (snapshot \<circ> er_entry) (hget (db_entries db) k)"
proof -
  let ?s = "mem.run mem_ops cstore_new" and ?db = "hsql.run env blake3 sql_ops sqlite_empty"
  have "sql_clean env pt sqlite_empty" "mem_hist cstore_new = sql_hist sqlite_empty"
    using db_inv_empty [of env pt]
    by (auto simp: sql_clean_def clean_hist_def sql_hist_def next_number_def mem_hist_def versions_of_def
        cstore_new_def sqlite_empty_def)
  from stores.runs_agree [OF assms(1) cs_inv_new this assms(2)]
  have hist: "mem_hist ?s = sql_hist ?db" and inv: "cs_inv ?s" "sql_clean env pt ?db" by simp_all
  have same: "map snapshot (versions_of ?s k) = sql_hist ?db k" using fun_cong [OF hist, of k] by (simp add: mem_hist_def)
  have "map_option snapshot (latest ?s k) = map_option (snapshot \<circ> er_entry) (hget (db_entries ?db) k)"
  proof (cases "hget (db_entries ?db) k")
    case None
    then have "versions_of ?s k = []" using same by (simp add: sql_hist_def next_number_def)
    then have "hget (entries ?s) k = None" using cs_inv_get [OF inv(1)] by (auto simp: versions_of_def split: option.splits)
    then show ?thesis using None by (simp add: latest_def)
  next
    case (Some r)
    have db: "db_inv env pt ?db" using inv(2) by (simp add: sql_clean_def)
    note cur = current_row [OF db Some]
    obtain h where h: "hget (db_versions ?db) (k, er_version r) = Some h"
      "(hv_entry h)\<lparr>e_updated_at := 0\<rparr> = (er_entry r)\<lparr>e_updated_at := 0\<rparr>"
      using db Some by (auto simp: db_inv_def current_kept_def)
    have "last (sql_hist ?db k) = snapshot (hv_entry h)" "sql_hist ?db k \<noteq> []"
      using cur(1,3) h(1) by (simp_all add: sql_hist_def last_map)
    moreover have "snapshot (hv_entry h) = snapshot (er_entry r)" using arg_cong [OF h(2), of snapshot] by simp
    moreover have "versions_of ?s k \<noteq> []" using same calculation(2) by auto
    then obtain l where "hget (entries ?s) k = Some l" "versions_of ?s k = l" "l \<noteq> []"
      by (auto simp: versions_of_def split: option.splits)
    moreover have "last (map snapshot l) = snapshot (last l)" using \<open>l \<noteq> []\<close> by (rule last_map)
    ultimately show ?thesis using same Some by (simp add: latest_def last_entry_def)
  qed
  with same show ?thesis by (simp add: Let_def)
qed

definition demo_mem :: "cop list" where
  "demo_mem =
     [CWrite 1 (model_entry [''t'', ''a''] ''m1''),
      CBatch [(3, model_entry [''t'', ''a''] ''m2''), (4, model_entry [''t'', ''b''] ''m3'')],
      CAddEdge (note_uri [''t'', ''a'']) (note_uri [''t'', ''b'']) DerivedFrom,
      CRename (note_uri [''t'', ''a'']) (note_uri [''t'', ''c'']),
      CRollback (note_uri [''t'', ''c'']) (MvccVersion 1)]"

lemma demo_sql_done: "hsql.ok_run demo_env (\<lambda>s. s) demo_no_time demo_sql sqlite_empty"
  unfolding demo_sql_def hsql.ok_run.simps sql_done_def sql_op_ok.simps parsed_uri_def by code_simp

theorem stores_agree_witness:
  "map snapshot (versions_of (fold cstep demo_mem cstore_new) ''uwu://t/c'') = sql_hist demo_db ''uwu://t/c'' \<and>
   length (sql_hist demo_db ''uwu://t/c'') = 3"
proof -
  have "list_all2 (\<lambda>x y. mem_calls x = sql_calls y) demo_mem demo_sql"
    by (simp add: demo_mem_def demo_sql_def stamped_entry_def version_number_def)
  from stores_agree [OF this demo_sql_done, of "''uwu://t/c''"]
  have "map snapshot (versions_of (fold cstep demo_mem cstore_new) ''uwu://t/c'') = sql_hist demo_db ''uwu://t/c''"
    unfolding demo_sql_run Let_def demo_mem_def by (simp del: cstep.simps)
  moreover have "map_option er_version (hget (db_entries demo_db) ''uwu://t/c'') = Some 3" by code_simp
  then have "next_number demo_db ''uwu://t/c'' = 4" by (auto simp: next_number_def split: option.splits)
  ultimately show ?thesis by (simp add: sql_hist_def)
qed

section \<open>Where the stores differ\<close>

text \<open>SQLite refuses what the in-memory store accepts: deleting an address without an entry, and renaming
  onto an address that is taken, whose entries the in-memory store overwrites. At the level L1 SQLite
  gives the dense text and the in-memory store the sparse one.\<close>

lemma stores_differ:
  "let a = note_uri [''t'', ''a'']; b = note_uri [''t'', ''b''];
       e = (note_entry [''t'', ''a''] ''x'')\<lparr>e_payload := Text ''s'' ''d'' ''f''\<rparr>;
       s = fold cstep [CWrite 1 e, CWrite 2 (note_entry [''t'', ''b''] ''y'')] cstore_new;
       db = fold (sql_step demo_env (\<lambda>s. s))
         [SqlWrite 1 1 1 e, SqlWrite 2 2 2 (note_entry [''t'', ''b''] ''y'')] sqlite_empty
   in fst (delete_entry (note_uri [''t'', ''z'']) s) = Inr () \<and>
      fst (sql_delete demo_env 3 3 3 (note_uri [''t'', ''z'']) db) = Inl (NotFound ''uwu://t/z'') \<and>
      fst (rename_entry a b s) = Inr () \<and>
      fst (sql_rename demo_env 4 4 4 4 a b db) = Inl (Storage ''rename failed: '') \<and>
      read_entry a L1 s = Inr (Text ''s'' ''d'' ''s'') \<and> sql_read a L1 db = Inr (Text ''s'' ''d'' ''d'')"
  by code_simp

end
