(* ===== verification/Sqlite_Commits.thy ===== *)
theory Sqlite_Commits
  imports Version_Merge Conflict_Sessions
begin

text \<open>
  The SQLite commit store, crates/context-db-storage/src/sqlite_version.rs, on the version tables of
  crates/context-db-storage/src/sqlite.rs: rows, the change rows of a commit and the snapshots
  rebuilt from them through both cache levels, committing, branches, tags, history and reading.
  A commit stores only its changes; a snapshot is the replay of the changes along the line of
  first parents. A transaction body returns an error or a value with the next database; an error
  leaves the database as it was. JSON columns hold the value their text stands for.
\<close>

section \<open>Tables\<close>

record delta_row =
  dr_uri :: string
  dr_op :: string
  dr_entry :: "json option"
  dr_rename_from :: "string option"

record commit_row =
  cr_scope :: string
  cr_tree_hash :: string
  cr_author :: author
  cr_message :: string
  cr_timestamp :: datetime
  cr_metadata :: commit_meta

record parent_row =
  pr_commit :: commit_id
  pr_parent :: commit_id
  pr_ordinal :: nat

record branch_row =
  br_head :: commit_id
  br_type :: string
  br_lifecycle :: branch_lifecycle
  br_created_from :: commit_id
  br_created_at :: datetime

record tag_row =
  tr_target :: commit_id
  tr_type :: string
  tr_message :: "string option"
  tr_timestamp :: datetime
  tr_condition :: "string option"

record head_row =
  hr_commit :: commit_id
  hr_attached :: "string option"

record checkpoint_row =
  cp_snapshot :: snapshot
  cp_created_at :: datetime
  cp_accessed_at :: datetime
  cp_access_count :: nat

record session_row =
  sn_scope :: string
  sn_session :: conflict_session
  sn_status :: string

text \<open>Tables are maps from their primary key; the parents have two keys and are a list of rows.\<close>

record version_db =
  vd_commits :: "(commit_id, commit_row) hmap"
  vd_parents :: "parent_row list"
  vd_branches :: "(string \<times> string, branch_row) hmap"
  vd_tags :: "(string \<times> string, tag_row) hmap"
  vd_deltas :: "(commit_id \<times> string, delta_row) hmap"
  vd_heads :: "(string, head_row) hmap"
  vd_checkpoints :: "(commit_id, checkpoint_row) hmap"
  vd_sessions :: "(conflict_session_id, session_row) hmap"

definition version_db_empty :: version_db where
  "version_db_empty = \<lparr>vd_commits = [], vd_parents = [], vd_branches = [], vd_tags = [],
     vd_deltas = [], vd_heads = [], vd_checkpoints = [], vd_sessions = []\<rparr>"

text \<open>What the store takes from serde, serde_json and the database beside the parameters of
  the in-memory store: the value of an entry, the text of a value and back, payloads from and to
  text, the order in which a query without ORDER BY yields the changes of a commit, and the
  database's error texts.\<close>

record sqlite_env = version_env +
  entry_value :: "context_entry \<Rightarrow> string + json"
  value_text :: "json \<Rightarrow> string"
  value_of_text :: "string \<Rightarrow> json option"
  payload_of_text :: "string \<Rightarrow> content_payload option"
  payload_text :: "content_payload \<Rightarrow> string + string"
  scan_rows :: "delta_row list \<Rightarrow> delta_row list"
  sql_error :: "string \<Rightarrow> string"

definition sql_failure :: "('x) sqlite_env_scheme \<Rightarrow> string \<Rightarrow> version_error" where
  "sql_failure env what = VStorage (sql_error env what)"

text \<open>The store beside its database: the settings and what the injected cache holds, if there is one.\<close>

record version_settings =
  vs_threshold :: nat
  vs_max_rows :: nat
  vs_hot_rows :: nat
  vs_persistence :: session_persistence
  vs_analysis :: version_analysis_config

record version_sql =
  vq_db :: version_db
  vq_cache :: "(string, snapshot) hmap option"

definition sqlite_version_new :: "version_analysis_config \<Rightarrow> version_error + version_settings" where
  "sqlite_version_new config =
     (case validate_analysis_config config of
        Inl e \<Rightarrow> Inl e
      | Inr _ \<Rightarrow> Inr \<lparr>vs_threshold = 32, vs_max_rows = 4096, vs_hot_rows = 256,
                    vs_persistence = SessionDisabled, vs_analysis = config\<rparr>)"

definition with_checkpoint_threshold :: "nat \<Rightarrow> version_settings \<Rightarrow> version_settings" where
  "with_checkpoint_threshold n cfg = cfg\<lparr>vs_threshold := n\<rparr>"

definition with_checkpoint_policy :: "nat \<Rightarrow> nat \<Rightarrow> version_settings \<Rightarrow> version_settings" where
  "with_checkpoint_policy max_rows hot_rows cfg =
     cfg\<lparr>vs_max_rows := max_rows, vs_hot_rows := min hot_rows max_rows\<rparr>"

definition with_conflict_session_persistence ::
    "session_persistence \<Rightarrow> version_settings \<Rightarrow> version_settings" where
  "with_conflict_session_persistence p cfg = cfg\<lparr>vs_persistence := p\<rparr>"

definition should_persist_session :: "version_settings \<Rightarrow> session_persistence \<Rightarrow> bool" where
  "should_persist_session cfg requested =
     (requested = SessionEnabled \<or> vs_persistence cfg = SessionEnabled)"

section \<open>Reading commits\<close>

definition load_parents :: "version_db \<Rightarrow> commit_id \<Rightarrow> commit_id list" where
  "load_parents db c = map pr_parent (sort_key pr_ordinal (filter (\<lambda>r. pr_commit r = c) (vd_parents db)))"

definition first_parent_row :: "version_db \<Rightarrow> commit_id \<Rightarrow> commit_id option" where
  "first_parent_row db c = (case load_parents db c of p # _ \<Rightarrow> Some p | [] \<Rightarrow> None)"

definition load_commit :: "version_db \<Rightarrow> commit_id \<Rightarrow> commit option" where
  "load_commit db c =
     (case hget (vd_commits db) c of
        None \<Rightarrow> None
      | Some r \<Rightarrow> Some \<lparr>c_id = c, c_parents = load_parents db c,
                      c_tree_hash = ContentHash (cr_tree_hash r), c_author = cr_author r,
                      c_message = cr_message r, c_timestamp = cr_timestamp r,
                      c_metadata = cr_metadata r\<rparr>)"

definition load_deltas :: "('x) sqlite_env_scheme \<Rightarrow> version_db \<Rightarrow> commit_id \<Rightarrow> delta_row list" where
  "load_deltas env db c = scan_rows env (map snd (filter (\<lambda>((c', _), _). c' = c) (vd_deltas db)))"

definition require_commit_scope ::
    "('x) sqlite_env_scheme \<Rightarrow> commit_id \<Rightarrow> string \<Rightarrow> version_db \<Rightarrow> version_error + unit" where
  "require_commit_scope env c skey db =
     (case hget (vd_commits db) c of
        Some r \<Rightarrow>
          (if cr_scope r = skey then Inr ()
           else Inl (VNotFound (''commit '' @ uuid_display env (uuid_of c) @ '' in scope '' @ skey)))
      | None \<Rightarrow> Inl (VNotFound (''commit '' @ uuid_display env (uuid_of c))))"

section \<open>Snapshots\<close>

definition apply_delta ::
    "('x) sqlite_env_scheme \<Rightarrow> delta_row \<Rightarrow> snapshot \<Rightarrow> version_error + snapshot" where
  "apply_delta env d snap =
     (if dr_op d = ''add'' \<or> dr_op d = ''update''
      then (case dr_entry d of
              None \<Rightarrow> Inl (VStorage (dr_op d @ '' delta for '' @ dr_uri d @ '' has no entry_json''))
            | Some v \<Rightarrow> Inr (hput (dr_uri d) (value_text env v) snap))
      else if dr_op d = ''delete'' then Inr (hdel (dr_uri d) snap)
      else if dr_op d = ''rename''
      then Inr (case dr_rename_from d of
                  None \<Rightarrow> snap
                | Some from_uri \<Rightarrow>
                    (case hget snap from_uri of
                       None \<Rightarrow> snap
                     | Some v \<Rightarrow> hput (dr_uri d) v (hdel from_uri snap)))
      else Inl (VStorage (''unknown delta op '' @ dr_op d)))"

fun apply_deltas ::
    "('x) sqlite_env_scheme \<Rightarrow> delta_row list \<Rightarrow> snapshot \<Rightarrow> version_error + snapshot" where
  "apply_deltas env [] snap = Inr snap"
| "apply_deltas env (d # ds) snap =
     (case apply_delta env d snap of Inl e \<Rightarrow> Inl e | Inr snap' \<Rightarrow> apply_deltas env ds snap')"

fun replay ::
    "('x) sqlite_env_scheme \<Rightarrow> version_db \<Rightarrow> commit_id list \<Rightarrow> snapshot \<Rightarrow> version_error + snapshot" where
  "replay env db [] snap = Inr snap"
| "replay env db (c # cs) snap =
     (case apply_deltas env (load_deltas env db c) snap of
        Inl e \<Rightarrow> Inl e | Inr snap' \<Rightarrow> replay env db cs snap')"

definition snapshot_cache_key :: "('x) sqlite_env_scheme \<Rightarrow> commit_id \<Rightarrow> string" where
  "snapshot_cache_key env c = ''snap:'' @ uuid_display env (uuid_of c)"

definition cache_get_snapshot ::
    "('x) sqlite_env_scheme \<Rightarrow> commit_id \<Rightarrow> version_sql \<Rightarrow> snapshot option" where
  "cache_get_snapshot env c s =
     (case vq_cache s of None \<Rightarrow> None | Some m \<Rightarrow> hget m (snapshot_cache_key env c))"

definition cache_put_snapshot ::
    "('x) sqlite_env_scheme \<Rightarrow> commit_id \<Rightarrow> snapshot \<Rightarrow> version_sql \<Rightarrow> version_sql" where
  "cache_put_snapshot env c snap s =
     s\<lparr>vq_cache := map_option (hput (snapshot_cache_key env c) snap) (vq_cache s)\<rparr>"

definition cache_del_snapshot ::
    "('x) sqlite_env_scheme \<Rightarrow> commit_id \<Rightarrow> version_sql \<Rightarrow> version_sql" where
  "cache_del_snapshot env c s =
     s\<lparr>vq_cache := map_option (hdel (snapshot_cache_key env c)) (vq_cache s)\<rparr>"

definition checkpoint_touch :: "datetime \<Rightarrow> commit_id \<Rightarrow> version_sql \<Rightarrow> version_sql" where
  "checkpoint_touch now c s =
     (let db = vq_db s
      in case hget (vd_checkpoints db) c of
           None \<Rightarrow> s
         | Some r \<Rightarrow>
             s\<lparr>vq_db := db\<lparr>vd_checkpoints :=
                 hput c (r\<lparr>cp_accessed_at := now, cp_access_count := cp_access_count r + 1\<rparr>)
                   (vd_checkpoints db)\<rparr>\<rparr>)"

definition checkpoint_get ::
    "datetime \<Rightarrow> commit_id \<Rightarrow> version_sql \<Rightarrow> snapshot option \<times> version_sql" where
  "checkpoint_get now c s =
     (case hget (vd_checkpoints (vq_db s)) c of
        None \<Rightarrow> (None, s)
      | Some r \<Rightarrow> (Some (cp_snapshot r), checkpoint_touch now c s))"

text \<open>The INSERT of a checkpoint: \<open>created\<close> is the value given for the column \<open>created_at\<close>, which
  is NOT NULL and has no default. A conflict on the key updates the row.\<close>

definition insert_checkpoint ::
    "datetime option \<Rightarrow> datetime \<Rightarrow> commit_id \<Rightarrow> snapshot \<Rightarrow> version_db \<Rightarrow> version_db option" where
  "insert_checkpoint created now c snap db =
     (case created of
        None \<Rightarrow> None
      | Some t \<Rightarrow>
          (if \<not> hhas (vd_commits db) c then None
           else
             let row = (case hget (vd_checkpoints db) c of
                          None \<Rightarrow> \<lparr>cp_snapshot = snap, cp_created_at = t, cp_accessed_at = now,
                                   cp_access_count = 1\<rparr>
                        | Some r \<Rightarrow> r\<lparr>cp_snapshot := snap, cp_accessed_at := now,
                                     cp_access_count := cp_access_count r + 1\<rparr>)
             in Some (db\<lparr>vd_checkpoints := hput c row (vd_checkpoints db)\<rparr>)))"

text \<open>The statement of the code names no value for \<open>created_at\<close>. The pruning after a successful
  insertion is a statement in another dialect (DELETE with USING), which SQLite refuses; the
  refusal is logged.\<close>

definition checkpoint_put ::
    "version_settings \<Rightarrow> datetime \<Rightarrow> commit_id \<Rightarrow> snapshot \<Rightarrow> version_sql \<Rightarrow> version_sql" where
  "checkpoint_put cfg now c snap s =
     (if vs_max_rows cfg = 0 then s
      else case insert_checkpoint None now c snap (vq_db s) of
             None \<Rightarrow> s
           | Some db \<Rightarrow> s\<lparr>vq_db := db\<rparr>)"

lemma checkpoint_touch_frame [simp]:
  "vd_parents (vq_db (checkpoint_touch now c s)) = vd_parents (vq_db s)"
  by (simp add: checkpoint_touch_def Let_def split: option.split)

lemma cache_put_frame [simp]: "vq_db (cache_put_snapshot env c snap s) = vq_db s"
  by (simp add: cache_put_snapshot_def)

lemma checkpoint_get_miss: "checkpoint_get now c s = (None, s') \<Longrightarrow> s' = s"
  by (simp add: checkpoint_get_def split: option.splits)

lemma load_parents_rows:
  "p \<in> set (load_parents db c) \<longleftrightarrow> (\<exists>r\<in>set (vd_parents db). pr_commit r = c \<and> pr_parent r = p)"
  by (auto simp: load_parents_def)

lemma first_parent_row_loads: "first_parent_row db c = Some p \<Longrightarrow> p \<in> set (load_parents db c)"
  by (simp add: first_parent_row_def split: list.splits)

lemma first_parent_row_listed:
  "first_parent_row db c = Some p \<Longrightarrow> p \<in> pr_parent ` set (vd_parents db)"
  using first_parent_row_loads load_parents_rows by fastforce

text \<open>The walk up the line of first parents, until a cache level knows a snapshot.\<close>

function walk_line ::
    "('x) sqlite_env_scheme \<Rightarrow> datetime \<Rightarrow> commit_id list \<Rightarrow> commit_id \<Rightarrow> version_sql
     \<Rightarrow> commit_id list \<times> snapshot option \<times> version_sql" where
  "walk_line env now chain cur s =
     (case first_parent_row (vq_db s) cur of
        None \<Rightarrow> (chain, None, s)
      | Some p \<Rightarrow>
          (if p \<in> set chain then (chain, None, s)
           else case cache_get_snapshot env p s of
                  Some snap \<Rightarrow> (chain, Some snap, s)
                | None \<Rightarrow>
                    (case checkpoint_get now p s of
                       (Some snap, s1) \<Rightarrow> (chain, Some snap, cache_put_snapshot env p snap s1)
                     | (None, s1) \<Rightarrow> walk_line env now (chain @ [p]) p s1)))"
  by pat_completeness auto
termination
proof (relation "measure (\<lambda>(env, now, chain, cur, s).
    card (pr_parent ` set (vd_parents (vq_db s)) - set chain))", goal_cases)
  case (2 env now chain cur s p x s1)
  then have "s1 = s" using checkpoint_get_miss by metis
  moreover have "pr_parent ` set (vd_parents (vq_db s)) - set (chain @ [p])
      \<subset> pr_parent ` set (vd_parents (vq_db s)) - set chain"
    using 2 first_parent_row_listed [of "vq_db s" cur p] by auto
  ultimately show ?case by (simp add: psubset_card_mono)
qed simp

declare walk_line.simps [simp del]

definition reconstruct_snapshot ::
    "('x) sqlite_env_scheme \<Rightarrow> version_settings \<Rightarrow> datetime \<Rightarrow> commit_id \<Rightarrow> version_sql
     \<Rightarrow> (version_error + snapshot) \<times> version_sql" where
  "reconstruct_snapshot env cfg now c s =
     (case cache_get_snapshot env c s of
        Some snap \<Rightarrow> (Inr snap, s)
      | None \<Rightarrow>
          (case checkpoint_get now c s of
             (Some snap, s1) \<Rightarrow> (Inr snap, cache_put_snapshot env c snap s1)
           | (None, s1) \<Rightarrow>
               (let (chain, seeded, s2) = walk_line env now [c] c s1;
                    start = (case seeded of Some snap \<Rightarrow> snap | None \<Rightarrow> [])
                in case replay env (vq_db s2) (rev chain) start of
                     Inl e \<Rightarrow> (Inl e, s2)
                   | Inr snap \<Rightarrow>
                       (let s3 = cache_put_snapshot env c snap s2
                        in (Inr snap,
                            if 0 < vs_threshold cfg \<and> vs_threshold cfg \<le> length chain
                            then checkpoint_put cfg now c snap s3 else s3)))))"

definition diff_snapshots ::
    "('x) sqlite_env_scheme \<Rightarrow> snapshot \<Rightarrow> snapshot \<Rightarrow> delta_row list" where
  "diff_snapshots env src dst =
     concat (map (\<lambda>(uri, dv).
       case hget src uri of
         None \<Rightarrow> [\<lparr>dr_uri = uri, dr_op = ''add'', dr_entry = value_of_text env dv, dr_rename_from = None\<rparr>]
       | Some sv \<Rightarrow>
           (if sv \<noteq> dv
            then [\<lparr>dr_uri = uri, dr_op = ''update'', dr_entry = value_of_text env dv,
                   dr_rename_from = None\<rparr>]
            else [])) dst)
     @ concat (map (\<lambda>uri.
         if hhas dst uri then []
         else [\<lparr>dr_uri = uri, dr_op = ''delete'', dr_entry = None, dr_rename_from = None\<rparr>]) (hkeys src))"

section \<open>Transactions\<close>

type_synonym 'a vtx = "version_db \<Rightarrow> version_error + 'a \<times> version_db"

definition tx_then :: "'a vtx \<Rightarrow> ('a \<Rightarrow> 'b vtx) \<Rightarrow> 'b vtx" where
  "tx_then m f db = (case m db of Inl e \<Rightarrow> Inl e | Inr (x, db') \<Rightarrow> f x db')"

definition version_tx :: "'a vtx \<Rightarrow> version_db \<Rightarrow> (version_error + 'a) \<times> version_db" where
  "version_tx body db = (case body db of Inl e \<Rightarrow> (Inl e, db) | Inr (x, db') \<Rightarrow> (Inr x, db'))"

fun insert_parents :: "('x) sqlite_env_scheme \<Rightarrow> commit_id \<Rightarrow> nat \<Rightarrow> commit_id list \<Rightarrow> unit vtx" where
  "insert_parents env c i [] db = Inr ((), db)"
| "insert_parents env c i (p # ps) db =
     (if p = c \<or> \<not> hhas (vd_commits db) p
         \<or> list_ex (\<lambda>r. pr_commit r = c \<and> (pr_parent r = p \<or> pr_ordinal r = i)) (vd_parents db)
      then Inl (sql_failure env ''insert parent'')
      else insert_parents env c (Suc i) ps
             (db\<lparr>vd_parents := vd_parents db @ [\<lparr>pr_commit = c, pr_parent = p, pr_ordinal = i\<rparr>]\<rparr>))"

definition insert_commit_row :: "('x) sqlite_env_scheme \<Rightarrow> commit \<Rightarrow> string \<Rightarrow> unit vtx" where
  "insert_commit_row env c skey db =
     (if hhas (vd_commits db) (c_id c) then Inl (sql_failure env ''insert commit'')
      else
        let row = \<lparr>cr_scope = skey, cr_tree_hash = show_hash (c_tree_hash c), cr_author = c_author c,
                   cr_message = c_message c, cr_timestamp = c_timestamp c, cr_metadata = c_metadata c\<rparr>
        in insert_parents env (c_id c) 0 (c_parents c)
             (db\<lparr>vd_commits := hput (c_id c) row (vd_commits db)\<rparr>))"

fun insert_deltas :: "('x) sqlite_env_scheme \<Rightarrow> commit_id \<Rightarrow> delta_row list \<Rightarrow> unit vtx" where
  "insert_deltas env c [] db = Inr ((), db)"
| "insert_deltas env c (d # ds) db =
     (if \<not> hhas (vd_commits db) c then Inl (sql_failure env ''insert delta'')
      else insert_deltas env c ds (db\<lparr>vd_deltas := hput (c, dr_uri d) d (vd_deltas db)\<rparr>))"

definition insert_with_rows ::
    "('x) sqlite_env_scheme \<Rightarrow> string \<Rightarrow> commit \<Rightarrow> delta_row list \<Rightarrow> unit vtx" where
  "insert_with_rows env skey c rows =
     tx_then (insert_commit_row env c skey) (\<lambda>_. insert_deltas env (c_id c) rows)"

definition sql_get_head :: "version_db \<Rightarrow> string \<Rightarrow> commit_id option" where
  "sql_get_head db skey = map_option hr_commit (hget (vd_heads db) skey)"

text \<open>\<open>UPDATE version_heads .. WHERE scope = .. AND commit_id = ..\<close>: whether a row matched. The new
  commit has to exist.\<close>

definition advance_head_if_matches ::
    "('x) sqlite_env_scheme \<Rightarrow> string \<Rightarrow> commit_id \<Rightarrow> commit_id \<Rightarrow> bool vtx" where
  "advance_head_if_matches env skey expected c db =
     (case hget (vd_heads db) skey of
        Some r \<Rightarrow>
          (if hr_commit r = expected
           then if hhas (vd_commits db) c
                then Inr (True, db\<lparr>vd_heads := hput skey (r\<lparr>hr_commit := c\<rparr>) (vd_heads db)\<rparr>)
                else Inl (sql_failure env ''update head'')
           else Inr (False, db))
      | None \<Rightarrow> Inr (False, db))"

definition update_head_in_tx ::
    "('x) sqlite_env_scheme \<Rightarrow> string \<Rightarrow> commit_id \<Rightarrow> commit_id \<Rightarrow> unit vtx" where
  "update_head_in_tx env skey expected c =
     tx_then (advance_head_if_matches env skey expected c)
       (\<lambda>moved db. if moved then Inr ((), db)
                   else Inl (VStorage (''HEAD for '' @ skey @ '' changed concurrently'')))"

definition move_branch_row ::
    "string \<Rightarrow> string \<Rightarrow> commit_id \<Rightarrow> commit_id \<Rightarrow> version_db \<Rightarrow> version_db option" where
  "move_branch_row skey name expected c db =
     (case hget (vd_branches db) (skey, name) of
        Some r \<Rightarrow>
          (if br_head r = expected
           then Some (db\<lparr>vd_branches := hput (skey, name) (r\<lparr>br_head := c\<rparr>) (vd_branches db)\<rparr>)
           else None)
      | None \<Rightarrow> None)"

definition update_branch_head :: "string \<Rightarrow> branch_name \<Rightarrow> commit_id \<Rightarrow> commit_id \<Rightarrow> unit vtx" where
  "update_branch_head skey name expected c db =
     (case move_branch_row skey (branch_str name) expected c db of
        Some db' \<Rightarrow> Inr ((), db')
      | None \<Rightarrow> Inl (VStorage (''branch '' @ branch_str name @ '' changed concurrently'')))"

section \<open>Committing\<close>

fun add_rows :: "('x) sqlite_env_scheme \<Rightarrow> context_entry list \<Rightarrow> version_error + delta_row list" where
  "add_rows env [] = Inr []"
| "add_rows env (e # es) =
     (case entry_value env e of
        Inl err \<Rightarrow> Inl (VStorage (''serialize added entry: '' @ err))
      | Inr v \<Rightarrow>
          (case add_rows env es of
             Inl err \<Rightarrow> Inl err
           | Inr rows \<Rightarrow> Inr (\<lparr>dr_uri = u_canonical (e_uri e), dr_op = ''add'', dr_entry = Some v,
                              dr_rename_from = None\<rparr> # rows)))"

fun update_rows :: "('x) sqlite_env_scheme \<Rightarrow> uri_change list \<Rightarrow> version_error + delta_row list" where
  "update_rows env [] = Inr []"
| "update_rows env (upd # us) =
     (if e_uri (uc_entry upd) \<noteq> uc_uri upd
      then Inl (VStorage (''update URI '' @ u_canonical (uc_uri upd)
                 @ '' does not match entry URI '' @ u_canonical (e_uri (uc_entry upd))))
      else case entry_value env (uc_entry upd) of
             Inl err \<Rightarrow> Inl (VStorage (''serialize updated entry: '' @ err))
           | Inr v \<Rightarrow>
               (case update_rows env us of
                  Inl err \<Rightarrow> Inl err
                | Inr rows \<Rightarrow> Inr (\<lparr>dr_uri = u_canonical (uc_uri upd), dr_op = ''update'',
                                   dr_entry = Some v, dr_rename_from = None\<rparr> # rows)))"

definition delete_rows :: "context_uri list \<Rightarrow> delta_row list" where
  "delete_rows us =
     map (\<lambda>u. \<lparr>dr_uri = u_canonical u, dr_op = ''delete'', dr_entry = None, dr_rename_from = None\<rparr>) us"

definition rename_rows :: "rename_op list \<Rightarrow> delta_row list" where
  "rename_rows rs =
     map (\<lambda>r. \<lparr>dr_uri = u_canonical (rn_to r), dr_op = ''rename'', dr_entry = None,
                dr_rename_from = Some (u_canonical (rn_from r))\<rparr>) rs"

definition change_rows :: "('x) sqlite_env_scheme \<Rightarrow> change_set \<Rightarrow> version_error + delta_row list" where
  "change_rows env ch =
     (case add_rows env (cs_adds ch) of
        Inl e \<Rightarrow> Inl e
      | Inr adds \<Rightarrow>
          (case update_rows env (cs_updates ch) of
             Inl e \<Rightarrow> Inl e
           | Inr upds \<Rightarrow>
               Inr (adds @ upds @ delete_rows (cs_deletes ch) @ rename_rows (cs_renames ch))))"

definition sql_commit_record ::
    "('x) sqlite_env_scheme \<Rightarrow> commit_id \<Rightarrow> commit_id list \<Rightarrow> string \<Rightarrow> datetime \<Rightarrow> commit_meta \<Rightarrow> commit"
where
  "sql_commit_record env c ps message now meta =
     \<lparr>c_id = c, c_parents = ps, c_tree_hash = ContentHash (''tree-'' @ uuid_display env (uuid_of c)),
      c_author = system_author True, c_message = message, c_timestamp = now, c_metadata = meta\<rparr>"

text \<open>The branch that is checked out moves first.\<close>

definition move_attached ::
    "('x) sqlite_env_scheme \<Rightarrow> string \<Rightarrow> string option \<Rightarrow> commit_id \<Rightarrow> commit_id \<Rightarrow> unit vtx" where
  "move_attached env skey attached expected c db =
     (case attached of
        None \<Rightarrow> Inr ((), db)
      | Some name \<Rightarrow>
          (case move_branch_row skey name expected c db of
             Some db' \<Rightarrow> Inr ((), db')
           | None \<Rightarrow> Inl (VStorage (''attached branch '' @ name @ '' changed concurrently''))))"

definition point_head ::
    "('x) sqlite_env_scheme \<Rightarrow> string \<Rightarrow> commit_id option \<Rightarrow> string option \<Rightarrow> commit_id \<Rightarrow> unit vtx" where
  "point_head env skey par attached c =
     (case par of
        Some expected \<Rightarrow>
          tx_then (move_attached env skey attached expected c)
            (\<lambda>_. update_head_in_tx env skey expected c)
      | None \<Rightarrow> (\<lambda>db. Inr ((), db\<lparr>vd_heads :=
                  hput skey \<lparr>hr_commit = c, hr_attached = None\<rparr> (vd_heads db)\<rparr>)))"

definition commit_body ::
    "('x) sqlite_env_scheme \<Rightarrow> string \<Rightarrow> commit_id option \<Rightarrow> commit \<Rightarrow> delta_row list \<Rightarrow> commit_id vtx"
where
  "commit_body env skey par c rows db =
     (let row = hget (vd_heads db) skey
      in if map_option hr_commit row \<noteq> par
         then Inl (VStorage (''HEAD for '' @ skey @ '' changed concurrently''))
         else
           tx_then (insert_with_rows env skey c rows) (\<lambda>_.
           tx_then (point_head env skey par (Option.bind row hr_attached) (c_id c)) (\<lambda>_.
           \<lambda>db'. Inr (c_id c, db'))) db)"

text \<open>What a commit reads before its transaction, and the transaction.\<close>

definition commit_parent :: "context_uri \<Rightarrow> version_db \<Rightarrow> commit_id option" where
  "commit_parent scope db = sql_get_head db (scope_key scope)"

definition commit_on ::
    "('x) sqlite_env_scheme \<Rightarrow> uuid \<Rightarrow> datetime \<Rightarrow> context_uri \<Rightarrow> change_set \<Rightarrow> commit_meta
     \<Rightarrow> commit_id option \<Rightarrow> version_db \<Rightarrow> (version_error + commit_id) \<times> version_db" where
  "commit_on env fresh now scope ch meta par db =
     (case change_rows env ch of
        Inl e \<Rightarrow> (Inl e, db)
      | Inr rows \<Rightarrow>
          version_tx (commit_body env (scope_key scope) par
            (sql_commit_record env (CommitId fresh) (case par of Some p \<Rightarrow> [p] | None \<Rightarrow> []) [] now meta)
            rows) db)"

definition sql_commit ::
    "('x) sqlite_env_scheme \<Rightarrow> uuid \<Rightarrow> datetime \<Rightarrow> context_uri \<Rightarrow> change_set \<Rightarrow> commit_meta
     \<Rightarrow> version_db \<Rightarrow> (version_error + commit_id) \<times> version_db" where
  "sql_commit env fresh now scope ch meta db =
     commit_on env fresh now scope ch meta (commit_parent scope db) db"

section \<open>Branches and tags\<close>

fun parse_branch_type :: "string \<Rightarrow> branch_type" where
  "parse_branch_type s =
     (if s = ''StateFork'' then StateFork else if s = ''Experiment'' then Experiment
      else if s = ''Collaboration'' then Collaboration else if s = ''Staging'' then Staging else Main)"

fun branch_type_str :: "branch_type \<Rightarrow> string" where
  "branch_type_str Main = ''Main''"
| "branch_type_str StateFork = ''StateFork''"
| "branch_type_str Experiment = ''Experiment''"
| "branch_type_str Collaboration = ''Collaboration''"
| "branch_type_str Staging = ''Staging''"

definition branch_from_row :: "string \<Rightarrow> branch_row \<Rightarrow> version_error + branch" where
  "branch_from_row name r =
     (case branch_name_parse name of
        Inl e \<Rightarrow> Inl (VStorage (''invalid persisted branch name: '' @ version_error_display e))
      | Inr n \<Rightarrow> Inr \<lparr>b_name = n, b_head = br_head r, b_created_from = br_created_from r,
                     b_created_at = br_created_at r, b_branch_type = parse_branch_type (br_type r),
                     b_lifecycle = br_lifecycle r\<rparr>)"

definition get_branch :: "string \<Rightarrow> branch_name \<Rightarrow> version_db \<Rightarrow> version_error + branch option" where
  "get_branch skey name db =
     (case hget (vd_branches db) (skey, branch_str name) of
        None \<Rightarrow> Inr None
      | Some r \<Rightarrow> map_sum id Some (branch_from_row (branch_str name) r))"

text \<open>\<open>get_branch(..)?.ok_or_else(..)?.head\<close>.\<close>

definition branch_head_row :: "string \<Rightarrow> branch_name \<Rightarrow> version_db \<Rightarrow> version_error + commit_id" where
  "branch_head_row skey name db =
     (case get_branch skey name db of
        Inl e \<Rightarrow> Inl e
      | Inr None \<Rightarrow> Inl (VNotFound (''branch '' @ branch_str name))
      | Inr (Some b) \<Rightarrow> Inr (b_head b))"

definition sql_create_branch ::
    "('x) sqlite_env_scheme \<Rightarrow> datetime \<Rightarrow> context_uri \<Rightarrow> branch_name \<Rightarrow> commit_id \<Rightarrow> branch_type
     \<Rightarrow> version_db \<Rightarrow> (version_error + branch) \<times> version_db" where
  "sql_create_branch env now scope name c bt db =
     (let skey = scope_key scope
      in case get_branch skey name db of
           Inl e \<Rightarrow> (Inl e, db)
         | Inr (Some _) \<Rightarrow> (Inl (BranchExists (branch_str name)), db)
         | Inr None \<Rightarrow>
             (case require_commit_scope env c skey db of
                Inl e \<Rightarrow> (Inl e, db)
              | Inr _ \<Rightarrow>
                  (Inr \<lparr>b_name = name, b_head = c, b_created_from = c, b_created_at = now,
                        b_branch_type = bt, b_lifecycle = Active\<rparr>,
                   db\<lparr>vd_branches := hput (skey, branch_str name)
                        \<lparr>br_head = c, br_type = branch_type_str bt, br_lifecycle = Active,
                         br_created_from = c, br_created_at = now\<rparr> (vd_branches db)\<rparr>)))"

fun branches_from_rows :: "(string \<times> branch_row) list \<Rightarrow> version_error + branch list" where
  "branches_from_rows [] = Inr []"
| "branches_from_rows ((n, r) # rows) =
     (case branch_from_row n r of
        Inl e \<Rightarrow> Inl e
      | Inr b \<Rightarrow> map_sum id (Cons b) (branches_from_rows rows))"

definition sql_list_branches :: "context_uri \<Rightarrow> version_db \<Rightarrow> version_error + branch list" where
  "sql_list_branches scope db =
     branches_from_rows (sort_key (\<lambda>(_, r). br_created_at r)
       (map (\<lambda>((_, n), r). (n, r)) (filter (\<lambda>((sc, _), _). sc = scope_key scope) (vd_branches db))))"

text \<open>The head of a scope references the branch it is attached to, ON DELETE RESTRICT.\<close>

definition sql_delete_branch ::
    "('x) sqlite_env_scheme \<Rightarrow> context_uri \<Rightarrow> branch_name \<Rightarrow> version_db
     \<Rightarrow> (version_error + unit) \<times> version_db" where
  "sql_delete_branch env scope name db =
     (let skey = scope_key scope; key = (skey, branch_str name)
      in if hhas (vd_branches db) key
            \<and> Option.bind (hget (vd_heads db) skey) hr_attached = Some (branch_str name)
         then (Inl (sql_failure env ''delete branch''), db)
         else (Inr (), db\<lparr>vd_branches := hdel key (vd_branches db)\<rparr>))"

text \<open>The UPDATE changes nothing when the scope has no head yet.\<close>

definition sql_switch_head ::
    "('x) sqlite_env_scheme \<Rightarrow> context_uri \<Rightarrow> branch_name \<Rightarrow> version_db
     \<Rightarrow> (version_error + unit) \<times> version_db" where
  "sql_switch_head env scope name db =
     (let skey = scope_key scope
      in case branch_head_row skey name db of
           Inl e \<Rightarrow> (Inl e, db)
         | Inr h \<Rightarrow>
             (if \<not> hhas (vd_heads db) skey then (Inr (), db)
              else if \<not> hhas (vd_commits db) h then (Inl (sql_failure env ''switch head''), db)
              else (Inr (), db\<lparr>vd_heads :=
                     hput skey \<lparr>hr_commit = h, hr_attached = Some (branch_str name)\<rparr> (vd_heads db)\<rparr>)))"

fun tag_columns :: "tag_type \<Rightarrow> string \<times> string option" where
  "tag_columns Immutable = (''Immutable'', None)"
| "tag_columns Mutable = (''Mutable'', None)"
| "tag_columns (Semantic c) = (''Semantic'', Some (sc_expr c))"

text \<open>On a conflict the columns listed in DO UPDATE change; the timestamp stays.\<close>

definition sql_create_tag ::
    "('x) sqlite_env_scheme \<Rightarrow> context_uri \<Rightarrow> tag \<Rightarrow> version_db \<Rightarrow> (version_error + unit) \<times> version_db"
where
  "sql_create_tag env scope t db =
     (let skey = scope_key scope; key = (skey, tag_str (t_name t))
      in case require_commit_scope env (t_target t) skey db of
           Inl e \<Rightarrow> (Inl e, db)
         | Inr _ \<Rightarrow>
             (let (ty, cond) = tag_columns (t_tag_type t);
                  stamp = (case hget (vd_tags db) key of Some r \<Rightarrow> tr_timestamp r | None \<Rightarrow> t_created_at t)
              in (Inr (), db\<lparr>vd_tags := hput key
                    \<lparr>tr_target = t_target t, tr_type = ty, tr_message = Some (t_message t),
                     tr_timestamp = stamp, tr_condition = cond\<rparr> (vd_tags db)\<rparr>)))"

definition tag_type_from_row :: "tag_row \<Rightarrow> tag_type" where
  "tag_type_from_row r =
     (if tr_type r = ''Immutable'' then Immutable
      else if tr_type r = ''Semantic''
      then Semantic \<lparr>sc_expr = (case tr_condition r of Some e \<Rightarrow> e | None \<Rightarrow> [])\<rparr>
      else Mutable)"

fun tags_from_rows :: "(string \<times> tag_row) list \<Rightarrow> version_error + tag list" where
  "tags_from_rows [] = Inr []"
| "tags_from_rows ((n, r) # rows) =
     (case tag_name_parse n of
        Inl e \<Rightarrow> Inl (VStorage (''invalid persisted tag name: '' @ version_error_display e))
      | Inr name \<Rightarrow>
          map_sum id (Cons \<lparr>t_name = name, t_target = tr_target r, t_tag_type = tag_type_from_row r,
                            t_message = (case tr_message r of Some m \<Rightarrow> m | None \<Rightarrow> []),
                            t_created_by = system_author True, t_created_at = tr_timestamp r\<rparr>)
            (tags_from_rows rows))"

definition sql_list_tags :: "context_uri \<Rightarrow> version_db \<Rightarrow> version_error + tag list" where
  "sql_list_tags scope db =
     tags_from_rows (map (\<lambda>((_, n), r). (n, r)) (filter (\<lambda>((sc, _), _). sc = scope_key scope) (vd_tags db)))"

section \<open>History and reading\<close>

definition rows_parents :: "version_db \<Rightarrow> commit_id \<Rightarrow> commit_id list" where
  "rows_parents db c = (case load_commit db c of Some k \<Rightarrow> c_parents k | None \<Rightarrow> [])"

interpretation rowgraph: finite_graph "rows_parents db" "hkeys (vd_commits db)" for db
  by unfold_locales (auto simp: rows_parents_def load_commit_def set_hkeys split: option.splits)

interpretation parentgraph: finite_graph "load_parents db" "map pr_commit (vd_parents db)" for db
proof unfold_locales
  fix c assume "c \<notin> set (map pr_commit (vd_parents db))"
  then have "filter (\<lambda>r. pr_commit r = c) (vd_parents db) = []" by (auto simp: filter_empty_conv)
  then show "load_parents db c = []" by (simp add: load_parents_def)
qed

text \<open>The stack has its top first. The limit is checked after a commit was taken.\<close>

function sql_log_loop ::
    "version_db \<Rightarrow> nat option \<Rightarrow> commit list \<Rightarrow> commit_id list \<Rightarrow> commit_id list \<Rightarrow> commit list" where
  "sql_log_loop db limit out visited [] = out"
| "sql_log_loop db limit out visited (c # stack) =
     (if c \<in> set visited then sql_log_loop db limit out visited stack
      else
        let out' = (case load_commit db c of Some k \<Rightarrow> out @ [k] | None \<Rightarrow> out)
        in if (case limit of Some n \<Rightarrow> n \<le> length out' | None \<Rightarrow> False) then out'
           else sql_log_loop db limit out' (c # visited) (rev (rows_parents db c) @ stack))"
  by pat_completeness auto
termination
proof (relation "measures
    [\<lambda>(db, limit, out, visited, stack). card (set (hkeys (vd_commits db)) - set visited),
     \<lambda>(db, limit, out, visited, stack). length stack]", goal_cases)
  case (3 db limit out visited c stack x)
  then show ?case using rowgraph.visit_decreases [of c "set visited" db] by auto
qed auto

definition sql_log :: "context_uri \<Rightarrow> log_opts \<Rightarrow> version_db \<Rightarrow> version_error + commit list" where
  "sql_log scope opts db =
     (let skey = scope_key scope;
          start = (case lo_branch opts of
                     Some name \<Rightarrow> map_sum id (map_option b_head) (get_branch skey name db)
                   | None \<Rightarrow> Inr (sql_get_head db skey))
      in case start of
           Inl e \<Rightarrow> Inl e
         | Inr None \<Rightarrow> Inr []
         | Inr (Some h) \<Rightarrow>
             Inr (sort_key (\<lambda>c. - c_timestamp c) (sql_log_loop db (lo_max_count opts) [] [] [h])))"

definition payload_from_json :: "('x) sqlite_env_scheme \<Rightarrow> string \<Rightarrow> content_payload" where
  "payload_from_json env txt =
     (case entry_of_json env txt of
        Inr e \<Rightarrow> e_payload e
      | Inl _ \<Rightarrow> (case payload_of_text env txt of Some p \<Rightarrow> p | None \<Rightarrow> Text txt [] txt))"

text \<open>A reference is looked up under the address that is read, not under the scope of its commits.\<close>

definition resolve_ref :: "string \<Rightarrow> version_ref \<Rightarrow> version_db \<Rightarrow> version_error + commit_id" where
  "resolve_ref skey r db =
     (case r of
        RefCommit c \<Rightarrow> Inr c
      | RefBranch name \<Rightarrow> branch_head_row skey name db
      | RefTag name \<Rightarrow>
          (case hget (vd_tags db) (skey, tag_str name) of
             Some t \<Rightarrow> Inr (tr_target t)
           | None \<Rightarrow> Inl (VNotFound (''tag '' @ tag_str name)))
      | RefHead \<Rightarrow>
          (case sql_get_head db skey of
             Some c \<Rightarrow> Inr c | None \<Rightarrow> Inl (VNotFound (''HEAD of '' @ skey))))"

definition sql_read_at ::
    "('x) sqlite_env_scheme \<Rightarrow> version_settings \<Rightarrow> datetime \<Rightarrow> context_uri \<Rightarrow> version_ref \<Rightarrow> version_sql
     \<Rightarrow> (version_error + content_payload) \<times> version_sql" where
  "sql_read_at env cfg now uri r s =
     (case resolve_ref (scope_key uri) r (vq_db s) of
        Inl e \<Rightarrow> (Inl e, s)
      | Inr c \<Rightarrow>
          (case reconstruct_snapshot env cfg now c s of
             (Inl e, s1) \<Rightarrow> (Inl e, s1)
           | (Inr snap, s1) \<Rightarrow>
               (case hget snap (u_canonical uri) of
                  None \<Rightarrow> (Inl (VNotFound (u_canonical uri)), s1)
                | Some txt \<Rightarrow> (Inr (payload_from_json env txt), s1))))"

text \<open>The latest commit of the scope at or before an instant.\<close>

definition latest_before :: "string \<Rightarrow> datetime \<Rightarrow> version_db \<Rightarrow> commit_id option" where
  "latest_before skey ts db =
     (case sort_key (\<lambda>(_, r). - cr_timestamp r)
             (filter (\<lambda>(_, r). cr_scope r = skey \<and> cr_timestamp r \<le> ts) (vd_commits db)) of
        [] \<Rightarrow> None | (c, _) # _ \<Rightarrow> Some c)"

definition sql_asof_read ::
    "('x) sqlite_env_scheme \<Rightarrow> version_settings \<Rightarrow> datetime \<Rightarrow> context_uri \<Rightarrow> as_of_point \<Rightarrow> version_sql
     \<Rightarrow> (version_error + content_payload) \<times> version_sql" where
  "sql_asof_read env cfg now uri at s =
     (case at of
        AtCommit c \<Rightarrow> sql_read_at env cfg now uri (RefCommit c) s
      | AtTimestamp ts \<Rightarrow>
          (case latest_before (scope_key uri) ts (vq_db s) of
             Some c \<Rightarrow> sql_read_at env cfg now uri (RefCommit c) s
           | None \<Rightarrow> (Inl (VNotFound (''no commit before '' @ datetime_display env ts)), s)))"

end
