(* ===== verification/Sqlite_Snapshots.thy ===== *)
theory Sqlite_Snapshots
  imports Sqlite_Commits
begin

text \<open>
  Snapshots of the SQLite commit store. The tree of a commit is the replay of the change rows along
  its line of first parents, on maps; rebuilding a snapshot yields exactly that tree whatever the
  two cache levels hold, as long as they agree with the trees, and keeps them agreeing. The
  difference of two snapshots, applied to the first, gives the second.
\<close>

section \<open>Change rows on maps\<close>

type_synonym row_tree = "string \<Rightarrow> string option"

definition tree_row :: "('x) sqlite_env_scheme \<Rightarrow> delta_row \<Rightarrow> row_tree \<Rightarrow> version_error + row_tree" where
  "tree_row env d t =
     (if dr_op d = ''add'' \<or> dr_op d = ''update''
      then (case dr_entry d of
              None \<Rightarrow> Inl (VStorage (dr_op d @ '' delta for '' @ dr_uri d @ '' has no entry_json''))
            | Some v \<Rightarrow> Inr (t(dr_uri d := Some (value_text env v))))
      else if dr_op d = ''delete'' then Inr (t(dr_uri d := None))
      else if dr_op d = ''rename''
      then Inr (case dr_rename_from d of
                  None \<Rightarrow> t
                | Some f \<Rightarrow> (case t f of None \<Rightarrow> t | Some v \<Rightarrow> t(f := None, dr_uri d := Some v)))
      else Inl (VStorage (''unknown delta op '' @ dr_op d)))"

fun tree_rows :: "('x) sqlite_env_scheme \<Rightarrow> delta_row list \<Rightarrow> row_tree \<Rightarrow> version_error + row_tree" where
  "tree_rows env [] t = Inr t"
| "tree_rows env (d # ds) t =
     (case tree_row env d t of Inl e \<Rightarrow> Inl e | Inr t' \<Rightarrow> tree_rows env ds t')"

fun replay_rows ::
    "('x) sqlite_env_scheme \<Rightarrow> version_db \<Rightarrow> commit_id list \<Rightarrow> row_tree \<Rightarrow> version_error + row_tree" where
  "replay_rows env db [] t = Inr t"
| "replay_rows env db (c # cs) t =
     (case tree_rows env (load_deltas env db c) t of Inl e \<Rightarrow> Inl e | Inr t' \<Rightarrow> replay_rows env db cs t')"

fun tree_of :: "version_error + snapshot \<Rightarrow> version_error + row_tree" where
  "tree_of (Inl e) = Inl e"
| "tree_of (Inr snap) = Inr (hget snap)"

lemma hget_Nil_fun: "hget [] = Map.empty"
  by (rule ext) simp

lemma apply_delta_tree: "tree_of (apply_delta env d snap) = tree_row env d (hget snap)"
  by (simp add: apply_delta_def tree_row_def hget_hput_fun hget_hdel_fun split: option.split)

lemma apply_deltas_tree: "tree_of (apply_deltas env ds snap) = tree_rows env ds (hget snap)"
proof (induction ds arbitrary: snap)
  case (Cons d ds)
  show ?case using Cons apply_delta_tree [of env d snap] by (auto split: sum.split)
qed simp

lemma replay_tree: "tree_of (replay env db cs snap) = replay_rows env db cs (hget snap)"
proof (induction cs arbitrary: snap)
  case (Cons c cs)
  show ?case
    using Cons apply_deltas_tree [of env "load_deltas env db c" snap] by (auto split: sum.split)
qed simp

lemma tree_rows_append:
  "tree_rows env (xs @ ys) t = (case tree_rows env xs t of Inl e \<Rightarrow> Inl e | Inr t' \<Rightarrow> tree_rows env ys t')"
  by (induction xs arbitrary: t) (auto split: sum.split)

lemma replay_rows_append:
  "replay_rows env db (xs @ ys) t =
     (case replay_rows env db xs t of Inl e \<Rightarrow> Inl e | Inr t' \<Rightarrow> replay_rows env db ys t')"
  by (induction xs arbitrary: t) (auto split: sum.split)

lemma replay_rows_one: "replay_rows env db [c] t = tree_rows env (load_deltas env db c) t"
  by (simp split: sum.split)

lemma replay_snoc:
  "tree_of (replay env db (cs @ [c]) snap) =
     (case tree_of (replay env db cs snap) of
        Inl e \<Rightarrow> Inl e | Inr t \<Rightarrow> tree_rows env (load_deltas env db c) t)"
  by (simp add: replay_tree replay_rows_append replay_rows_one cong: sum.case_cong
      del: replay_rows.simps)

section \<open>The line of first parents\<close>

function first_line :: "version_db \<Rightarrow> commit_id list \<Rightarrow> commit_id \<Rightarrow> commit_id list" where
  "first_line db chain cur =
     (case first_parent_row db cur of
        None \<Rightarrow> chain
      | Some p \<Rightarrow> (if p \<in> set chain then chain else first_line db (chain @ [p]) p))"
  by pat_completeness auto
termination
proof (relation "measure (\<lambda>(db, chain, cur). card (pr_parent ` set (vd_parents db) - set chain))",
    goal_cases)
  case (2 db chain cur p)
  then have "pr_parent ` set (vd_parents db) - set (chain @ [p]) \<subset> pr_parent ` set (vd_parents db) - set chain"
    using first_parent_row_listed [of db cur p] by auto
  then show ?case by (simp add: psubset_card_mono)
qed simp

declare first_line.simps [simp del]

text \<open>The tree of a commit.\<close>

definition tree_at :: "('x) sqlite_env_scheme \<Rightarrow> version_db \<Rightarrow> commit_id \<Rightarrow> version_error + row_tree" where
  "tree_at env db c = replay_rows env db (rev (first_line db [c] c)) Map.empty"

abbreviation parent_edges :: "version_db \<Rightarrow> (commit_id \<times> commit_id) set" where
  "parent_edges db \<equiv> finite_graph.edges (load_parents db)"

lemma first_parent_edge: "first_parent_row db c = Some p \<Longrightarrow> (c, p) \<in> parent_edges db"
  using first_parent_row_loads by (simp add: parentgraph.edges_def)

lemma no_back_edge:
  assumes "acyclic (parent_edges db)" "first_parent_row db cur = Some p"
    and "\<forall>x\<in>set chain. (x, cur) \<in> (parent_edges db)\<^sup>*"
  shows "p \<notin> set chain" "\<forall>x\<in>set (chain @ [p]). (x, p) \<in> (parent_edges db)\<^sup>*"
proof -
  note edge = first_parent_edge [OF assms(2)]
  show "p \<notin> set chain"
  proof
    assume "p \<in> set chain"
    with assms(3) edge have "(p, p) \<in> (parent_edges db)\<^sup>+" by (meson rtrancl_into_trancl1)
    with assms(1) show False by (simp add: acyclic_def)
  qed
  show "\<forall>x\<in>set (chain @ [p]). (x, p) \<in> (parent_edges db)\<^sup>*"
    using assms(3) edge by (auto intro: rtrancl_into_rtrancl)
qed

lemma first_line_prefix:
  assumes "acyclic (parent_edges db)" "\<forall>x\<in>set (pre @ chain). (x, cur) \<in> (parent_edges db)\<^sup>*"
  shows "first_line db (pre @ chain) cur = pre @ first_line db chain cur"
  using assms
proof (induction db chain cur rule: first_line.induct)
  case (1 db chain cur)
  show ?case
  proof (cases "first_parent_row db cur")
    case None
    then show ?thesis by (simp add: first_line.simps [of db _ cur])
  next
    case (Some p)
    note far = no_back_edge [OF 1(2) Some 1(3)]
    then have "p \<notin> set chain" by simp
    with Some far 1(1) [OF Some] 1(2) show ?thesis
      by (simp add: first_line.simps [of db _ cur])
  qed
qed

lemma first_line_step:
  assumes "acyclic (parent_edges db)" "first_parent_row db c = Some p"
  shows "first_line db [c] c = c # first_line db [p] p"
proof -
  note far = no_back_edge [OF assms, of "[c]", simplified]
  have "first_line db [c] c = first_line db ([c] @ [p]) p"
    using assms(2) far by (simp add: first_line.simps [of db _ c])
  also have "\<dots> = [c] @ first_line db [p] p"
    using far by (intro first_line_prefix [OF assms(1)]) simp
  finally show ?thesis by simp
qed

lemma tree_at_root:
  "first_parent_row db c = None \<Longrightarrow> tree_at env db c = tree_rows env (load_deltas env db c) Map.empty"
  by (simp add: tree_at_def first_line.simps [of db _ c] replay_rows_one del: replay_rows.simps)

lemma tree_at_step:
  assumes "acyclic (parent_edges db)" "first_parent_row db c = Some p"
  shows "tree_at env db c =
    (case tree_at env db p of Inl e \<Rightarrow> Inl e | Inr t \<Rightarrow> tree_rows env (load_deltas env db c) t)"
  unfolding tree_at_def first_line_step [OF assms]
  by (simp add: replay_rows_append replay_rows_one cong: sum.case_cong del: replay_rows.simps)

section \<open>Agreement of the caches\<close>

text \<open>The part of a database that trees depend on, and the rules every stored parent row obeys.\<close>

definition parents_ok :: "version_db \<Rightarrow> bool" where
  "parents_ok db \<longleftrightarrow> acyclic (parent_edges db)
     \<and> (\<forall>r\<in>set (vd_parents db). hhas (vd_commits db) (pr_commit r) \<and> hhas (vd_commits db) (pr_parent r))"

definition caches_agree :: "('x) sqlite_env_scheme \<Rightarrow> version_sql \<Rightarrow> bool" where
  "caches_agree env s \<longleftrightarrow> (\<forall>c. hhas (vd_commits (vq_db s)) c \<longrightarrow>
     (\<forall>snap. cache_get_snapshot env c s = Some snap \<longrightarrow> tree_at env (vq_db s) c = Inr (hget snap))
     \<and> (\<forall>r. hget (vd_checkpoints (vq_db s)) c = Some r
          \<longrightarrow> tree_at env (vq_db s) c = Inr (hget (cp_snapshot r))))"

definition same_commits :: "version_db \<Rightarrow> version_db \<Rightarrow> bool" where
  "same_commits db db' \<longleftrightarrow> (\<exists>cps. db' = db\<lparr>vd_checkpoints := cps\<rparr>)"

lemma caches_agreeD:
  assumes "caches_agree env s" "hhas (vd_commits (vq_db s)) c"
  shows "cache_get_snapshot env c s = Some snap \<Longrightarrow> tree_at env (vq_db s) c = Inr (hget snap)"
    and "hget (vd_checkpoints (vq_db s)) c = Some r \<Longrightarrow> tree_at env (vq_db s) c = Inr (hget (cp_snapshot r))"
  using assms by (auto simp: caches_agree_def)

lemma first_parent_known: "parents_ok db \<Longrightarrow> first_parent_row db c = Some p \<Longrightarrow> hhas (vd_commits db) p"
  using first_parent_row_listed by (fastforce simp: parents_ok_def)

lemma load_deltas_frame [simp]: "load_deltas env (db\<lparr>vd_checkpoints := x\<rparr>) c = load_deltas env db c"
  by (simp add: load_deltas_def)

lemma load_parents_frame [simp]: "load_parents (db\<lparr>vd_checkpoints := x\<rparr>) = load_parents db"
  by (rule ext) (simp add: load_parents_def)

lemma first_parent_frame [simp]: "first_parent_row (db\<lparr>vd_checkpoints := x\<rparr>) = first_parent_row db"
  by (rule ext) (simp add: first_parent_row_def)

lemma replay_rows_frame [simp]: "replay_rows env (db\<lparr>vd_checkpoints := x\<rparr>) cs t = replay_rows env db cs t"
  by (induction cs arbitrary: t) (auto split: sum.split)

lemma first_line_frame [simp]: "first_line (db\<lparr>vd_checkpoints := x\<rparr>) chain c = first_line db chain c"
proof (induction db chain c rule: first_line.induct)
  case (1 db chain cur)
  then show ?case
    by (simp add: first_line.simps [of "db\<lparr>vd_checkpoints := x\<rparr>"] first_line.simps [of db] split: option.split)
qed

lemma tree_at_frame [simp]: "tree_at env (db\<lparr>vd_checkpoints := x\<rparr>) c = tree_at env db c"
  by (simp add: tree_at_def)

lemma parents_ok_frame [simp]: "parents_ok (db\<lparr>vd_checkpoints := x\<rparr>) = parents_ok db"
  by (simp add: parents_ok_def parentgraph.edges_def)

lemma same_commitsD:
  assumes "same_commits db db'"
  shows "tree_at env db' = tree_at env db" "parents_ok db' = parents_ok db"
    "vd_commits db' = vd_commits db" "first_parent_row db' = first_parent_row db"
    "load_deltas env db' = load_deltas env db"
  using assms by (auto simp: same_commits_def fun_eq_iff)

lemma same_commits_refl [simp]: "same_commits db db"
  unfolding same_commits_def by (metis version_db.surjective version_db.update_convs(7))

lemma same_commits_trans: "same_commits a b \<Longrightarrow> same_commits b c \<Longrightarrow> same_commits a c"
  by (auto simp: same_commits_def)

lemma cache_get_put:
  assumes "inj (uuid_display env)"
  shows "cache_get_snapshot env c' (cache_put_snapshot env c snap s) =
    (if c' = c \<and> vq_cache s \<noteq> None then Some snap else cache_get_snapshot env c' s)"
proof -
  have "snapshot_cache_key env c' = snapshot_cache_key env c \<longleftrightarrow> c' = c"
    using assms by (cases c; cases c') (auto simp: snapshot_cache_key_def inj_def)
  then show ?thesis
    by (auto simp: cache_get_snapshot_def cache_put_snapshot_def hm_simps split: option.split)
qed

lemma cache_put_agree:
  assumes "inj (uuid_display env)" "caches_agree env s" "tree_at env (vq_db s) c = Inr (hget snap)"
  shows "caches_agree env (cache_put_snapshot env c snap s)"
  using assms(2,3) by (auto simp: caches_agree_def cache_get_put [OF assms(1)] split: if_splits)

lemma checkpoint_touch_agree: "caches_agree env s \<Longrightarrow> caches_agree env (checkpoint_touch now c s)"
  by (auto simp: caches_agree_def checkpoint_touch_def Let_def cache_get_snapshot_def hm_simps
      split: option.split if_splits)

lemma checkpoint_touch_same: "same_commits (vq_db s) (vq_db (checkpoint_touch now c s))"
  by (auto simp: checkpoint_touch_def Let_def same_commits_def
      intro: same_commits_refl [unfolded same_commits_def] split: option.split)

lemma checkpoint_put_none: "checkpoint_put cfg now c snap s = s"
  by (simp add: checkpoint_put_def insert_checkpoint_def)

section \<open>Rebuilding a snapshot\<close>

lemma walk_line_tree:
  assumes "inj (uuid_display env)"
    and "parents_ok (vq_db s)" "caches_agree env s"
    and "\<forall>x\<in>set chain. (x, cur) \<in> (parent_edges (vq_db s))\<^sup>*"
    and "walk_line env now chain cur s = (chain', seeded, s')"
  shows "\<exists>more. chain' = chain @ more
    \<and> tree_of (replay env (vq_db s) (rev (cur # more)) (case seeded of Some snap \<Rightarrow> snap | None \<Rightarrow> []))
        = tree_at env (vq_db s) cur
    \<and> caches_agree env s' \<and> same_commits (vq_db s) (vq_db s')"
  using assms
proof (induction env now chain cur s arbitrary: chain' seeded s' rule: walk_line.induct)
  case (1 env now chain cur s)
  note inj = 1(2) and ok = 1(3) and agree = 1(4) and far0 = 1(5) and walk = 1(6)
  note acyc = ok [unfolded parents_ok_def, THEN conjunct1]
  note [simp] = replay_tree replay_rows_one hget_Nil_fun
  note [simp del] = replay_rows.simps replay.simps
  show ?case
  proof (cases "first_parent_row (vq_db s) cur")
    case None
    with 1 show ?thesis by (auto simp: walk_line.simps [of env] tree_at_root)
  next
    case (Some p)
    note far = no_back_edge [OF acyc Some far0]
    have known: "hhas (vd_commits (vq_db s)) p" using first_parent_known [OF ok Some] .
    note step = tree_at_step [OF acyc Some, of env]
    consider snap where "cache_get_snapshot env p s = Some snap"
      | r where "cache_get_snapshot env p s = None" "hget (vd_checkpoints (vq_db s)) p = Some r"
      | "cache_get_snapshot env p s = None" "hget (vd_checkpoints (vq_db s)) p = None"
      by (cases "cache_get_snapshot env p s"; cases "hget (vd_checkpoints (vq_db s)) p") auto
    then show ?thesis
    proof cases
      case (1 snap)
      with caches_agreeD(1) [OF agree known] have "tree_at env (vq_db s) p = Inr (hget snap)" by simp
      with 1 Some far(1) step walk agree show ?thesis
        by (auto simp: walk_line.simps [of env] split: option.splits)
    next
      case (2 r)
      let ?s = "checkpoint_touch now p s"
      have agreed: "tree_at env (vq_db s) p = Inr (hget (cp_snapshot r))"
        using caches_agreeD(2) [OF agree known 2(2)] .
      have "caches_agree env (cache_put_snapshot env p (cp_snapshot r) ?s)"
        using cache_put_agree [OF inj checkpoint_touch_agree [OF agree]]
          agreed same_commitsD(1) [OF checkpoint_touch_same, of env] by metis
      with 2 Some far(1) step agreed walk show ?thesis
        by (auto simp: walk_line.simps [of env] checkpoint_get_def checkpoint_touch_same)
    next
      case 3
      with Some far(1) walk
      have rest: "walk_line env now (chain @ [p]) p s = (chain', seeded, s')"
        by (auto simp: walk_line.simps [of env _ _ cur] checkpoint_get_def)
      have miss: "(None, s) = checkpoint_get now p s" using 3(2) by (simp add: checkpoint_get_def)
      obtain more where more: "chain' = (chain @ [p]) @ more" "caches_agree env s'"
          "same_commits (vq_db s) (vq_db s')"
          "tree_of (replay env (vq_db s) (rev (p # more)) (case seeded of Some snap \<Rightarrow> snap | None \<Rightarrow> []))
             = tree_at env (vq_db s) p"
        using 1(1) [OF Some far(1) 3(1) miss refl inj ok agree far(2) rest] by auto
      then show ?thesis
        using step replay_snoc [of env "vq_db s" "rev (p # more)" cur]
        by (intro exI [of _ "p # more"]) (simp del: replay_tree)
    qed
  qed
qed

lemma reconstruct_tree:
  assumes "inj (uuid_display env)" "parents_ok (vq_db s)" "caches_agree env s"
    and "hhas (vd_commits (vq_db s)) c"
  shows "tree_of (fst (reconstruct_snapshot env cfg now c s)) = tree_at env (vq_db s) c
    \<and> caches_agree env (snd (reconstruct_snapshot env cfg now c s))
    \<and> same_commits (vq_db s) (vq_db (snd (reconstruct_snapshot env cfg now c s)))"
proof -
  consider snap where "cache_get_snapshot env c s = Some snap"
    | r where "cache_get_snapshot env c s = None" "hget (vd_checkpoints (vq_db s)) c = Some r"
    | "cache_get_snapshot env c s = None" "hget (vd_checkpoints (vq_db s)) c = None"
    by (cases "cache_get_snapshot env c s"; cases "hget (vd_checkpoints (vq_db s)) c") auto
  then show ?thesis
  proof cases
    case (1 snap)
    with caches_agreeD(1) [OF assms(3,4)] assms(3) show ?thesis by (simp add: reconstruct_snapshot_def)
  next
    case (2 r)
    note agreed = caches_agreeD(2) [OF assms(3,4) 2(2)]
    have "caches_agree env (cache_put_snapshot env c (cp_snapshot r) (checkpoint_touch now c s))"
      using cache_put_agree [OF assms(1) checkpoint_touch_agree [OF assms(3)]]
        agreed same_commitsD(1) [OF checkpoint_touch_same, of env] by metis
    with 2 agreed show ?thesis
      by (simp add: reconstruct_snapshot_def checkpoint_get_def checkpoint_touch_same)
  next
    case 3
    obtain chain seeded s2 where walk: "walk_line env now [c] c s = (chain, seeded, s2)"
      by (metis prod_cases3)
    let ?start = "case seeded of Some snap \<Rightarrow> snap | None \<Rightarrow> []"
    obtain more where more: "chain = [c] @ more" "caches_agree env s2" "same_commits (vq_db s) (vq_db s2)"
      "tree_of (replay env (vq_db s) (rev (c # more)) ?start) = tree_at env (vq_db s) c"
      using walk_line_tree [OF assms(1-3) _ walk] by auto
    have same: "replay env (vq_db s2) cs x = replay env (vq_db s) cs x" for cs x
      by (induction cs arbitrary: x) (simp_all add: same_commitsD(5) [OF more(3), of env] cong: sum.case_cong)
    show ?thesis
    proof (cases "replay env (vq_db s) (rev (c # more)) ?start")
      case (Inl e)
      with 3 walk more show ?thesis
        by (simp add: reconstruct_snapshot_def checkpoint_get_def same)
    next
      case (Inr snap)
      then have "tree_at env (vq_db s2) c = Inr (hget snap)"
        using more(4) same_commitsD(1) [OF more(3), of env] by simp
      note put = cache_put_agree [OF assms(1) more(2) this]
      with Inr 3 walk more show ?thesis
        by (simp add: reconstruct_snapshot_def checkpoint_get_def same checkpoint_put_none Let_def)
    qed
  qed
qed

text \<open>C8: Rebuilding the snapshot of a stored commit yields the replay of the change rows along its
  line of first parents, whatever the injected cache and the checkpoint table hold as long as what they
  hold are such replays, and leaves both that way; the error of a malformed change row is the same
  too. Only checkpoints differ in the database afterwards.\<close>

theorem snapshots_exact:
  assumes "inj (uuid_display env)" "parents_ok (vq_db s)" "caches_agree env s"
    and "hhas (vd_commits (vq_db s)) c"
  shows "(case reconstruct_snapshot env cfg now c s of (r, s') \<Rightarrow>
      tree_of r = tree_at env (vq_db s) c
      \<and> caches_agree env s' \<and> parents_ok (vq_db s') \<and> same_commits (vq_db s) (vq_db s'))"
  using reconstruct_tree [OF assms, of cfg now] assms(2) same_commitsD(2)
  by (auto split: prod.split)

text \<open>A small database: commit 2 on commit 1, the tree of commit 1 in the injected cache.\<close>

definition sample_env :: sqlite_env where
  "sample_env =
     \<lparr>uuid_display = (\<lambda>u. replicate (unat u) CHR ''x''), datetime_display = (\<lambda>_. ''t''),
      trigger_debug = (\<lambda>_. ''m''), entry_to_json = (\<lambda>e. Inr (l0_text e)),
      entry_of_json = (\<lambda>_. Inl ''json''), parse_datetime = (\<lambda>_. None),
      entry_value = (\<lambda>e. Inr (JString (l0_text e))),
      value_text = (\<lambda>v. case v of JString t \<Rightarrow> t | _ \<Rightarrow> ''null''),
      value_of_text = (\<lambda>t. Some (JString t)), payload_of_text = (\<lambda>_. None),
      payload_text = (\<lambda>_. Inl ''payload''), scan_rows = rev, sql_error = (\<lambda>what. what)\<rparr>"

definition sample_settings :: version_settings where
  "sample_settings = \<lparr>vs_threshold = 2, vs_max_rows = 8, vs_hot_rows = 4,
     vs_persistence = SessionDisabled, vs_analysis = \<lparr>max_commits = 100\<rparr>\<rparr>"

definition sample_row :: "string \<Rightarrow> string \<Rightarrow> delta_row" where
  "sample_row uri txt = \<lparr>dr_uri = uri, dr_op = ''add'', dr_entry = Some (JString txt), dr_rename_from = None\<rparr>"

definition sample_commit_row :: "string \<Rightarrow> commit_row" where
  "sample_commit_row hash = \<lparr>cr_scope = ''t'', cr_tree_hash = hash, cr_author = system_author True,
     cr_message = [], cr_timestamp = 0, cr_metadata = default_commit_meta\<rparr>"

definition sample_sql :: version_sql where
  "sample_sql =
     \<lparr>vq_db = version_db_empty
        \<lparr>vd_commits := [(CommitId 1, sample_commit_row ''a''), (CommitId 2, sample_commit_row ''b'')],
         vd_parents := [\<lparr>pr_commit = CommitId 2, pr_parent = CommitId 1, pr_ordinal = 0\<rparr>],
         vd_deltas := [((CommitId 1, ''u''), sample_row ''u'' ''x''),
                       ((CommitId 2, ''v''), sample_row ''v'' ''y'')]\<rparr>,
      vq_cache = Some [(''snap:x'', [(''u'', ''x'')])]\<rparr>"

lemma sample_inj: "inj (uuid_display sample_env)"
  by (rule injI) (simp add: sample_env_def replicate_eq_replicate unsigned_word_eqI)

lemma sample_key: "snapshot_cache_key sample_env c = ''snap:x'' \<longleftrightarrow> c = CommitId 1"
proof -
  obtain u where c: "c = CommitId u" by (cases c)
  have "snapshot_cache_key sample_env c = ''snap:x'' \<longleftrightarrow> uuid_display sample_env u = uuid_display sample_env 1"
    by (simp add: snapshot_cache_key_def sample_env_def c)
  also have "\<dots> \<longleftrightarrow> u = 1" using sample_inj by (auto dest: injD)
  finally show ?thesis by (simp add: c)
qed

lemma sample_parents: "parents_ok (vq_db sample_sql)"
proof -
  have "parent_edges (vq_db sample_sql) = {(CommitId 2, CommitId 1)}"
    by (auto simp: parentgraph.edges_def load_parents_def sample_sql_def split: if_splits)
  then show ?thesis
    by (simp add: parents_ok_def sample_sql_def hhas_def hget_def acyclic_def trancl_insert)
qed

theorem snapshots_exact_witness:
  "case reconstruct_snapshot sample_env sample_settings 9 (CommitId 2) sample_sql of (r, s') \<Rightarrow>
     tree_of r = tree_at sample_env (vq_db sample_sql) (CommitId 2)
     \<and> caches_agree sample_env s' \<and> parents_ok (vq_db s') \<and> same_commits (vq_db sample_sql) (vq_db s')"
proof -
  have "tree_at sample_env (vq_db sample_sql) (CommitId 1) = Inr [''u'' \<mapsto> ''x'']"
    by (subst tree_at_root)
      (simp_all add: first_parent_row_def load_parents_def load_deltas_def tree_row_def sample_sql_def
        sample_row_def sample_env_def version_db_empty_def)
  then have "caches_agree sample_env sample_sql"
    by (simp add: caches_agree_def cache_get_snapshot_def sample_sql_def hget_def sample_key version_db_empty_def
        fun_eq_iff)
  moreover have "hhas (vd_commits (vq_db sample_sql)) (CommitId 2)"
    by (simp add: sample_sql_def hhas_def hget_def)
  ultimately show ?thesis
    by (intro snapshots_exact sample_inj sample_parents)
qed

end
