(* ===== verification/Sqlite_Deltas.thy ===== *)
theory Sqlite_Deltas
  imports Sqlite_Snapshots "HOL-Library.Multiset"
begin

text \<open>
  The change rows of a commit. Rows that touch different addresses can be applied in any order,
  which matters because the rows of a commit are read without an order; the rows of a difference
  of snapshots are of this kind. The rows of a change set, applied in the order of the change set,
  do what the in-memory store does.
\<close>

section \<open>Rows that touch different addresses\<close>

definition row_touches :: "delta_row \<Rightarrow> string list" where
  "row_touches d = dr_uri d # (case dr_rename_from d of Some f \<Rightarrow> [f] | None \<Rightarrow> [])"

definition apart :: "delta_row list \<Rightarrow> bool" where
  "apart rows = distinct (concat (map row_touches rows))"

definition well_formed_row :: "delta_row \<Rightarrow> bool" where
  "well_formed_row d =
     (((dr_op d = ''add'' \<or> dr_op d = ''update'') \<and> dr_entry d \<noteq> None \<and> dr_rename_from d = None)
      \<or> (dr_op d = ''delete'' \<and> dr_rename_from d = None)
      \<or> (dr_op d = ''rename'' \<and> dr_rename_from d \<noteq> None))"

text \<open>What a row makes of an address it row_touches.\<close>

definition row_effect :: "('x) sqlite_env_scheme \<Rightarrow> delta_row \<Rightarrow> row_tree \<Rightarrow> string \<Rightarrow> string option" where
  "row_effect env d t k =
     (if dr_op d = ''add'' \<or> dr_op d = ''update'' then map_option (value_text env) (dr_entry d)
      else if dr_op d = ''delete'' then None
      else case dr_rename_from d of
             None \<Rightarrow> t k
           | Some f \<Rightarrow> (case t f of None \<Rightarrow> t k | Some v \<Rightarrow> if k = dr_uri d then Some v else None))"

lemma tree_row_effect:
  assumes "well_formed_row d"
  shows "tree_row env d t = Inr (\<lambda>k. if k \<in> set (row_touches d) then row_effect env d t k else t k)"
  using assms
  by (auto simp: well_formed_row_def tree_row_def row_effect_def row_touches_def fun_eq_iff
      split: option.split)

lemma row_effect_local:
  "(\<And>x. x \<in> set (row_touches d) \<Longrightarrow> t x = t' x) \<Longrightarrow> k \<in> set (row_touches d) \<Longrightarrow>
   row_effect env d t k = row_effect env d t' k"
  by (auto simp: row_effect_def row_touches_def split: option.split)

lemma apply_apart:
  assumes "apart rows" "list_all well_formed_row rows"
  shows "tree_rows env rows t = Inr (\<lambda>k. case find (\<lambda>d. k \<in> set (row_touches d)) rows of
           None \<Rightarrow> t k | Some d \<Rightarrow> row_effect env d t k)"
  using assms
proof (induction rows arbitrary: t)
  case (Cons d rows)
  let ?t = "\<lambda>k. if k \<in> set (row_touches d) then row_effect env d t k else t k"
  have rest: "apart rows" and away: "\<And>e. e \<in> set rows \<Longrightarrow> set (row_touches d) \<inter> set (row_touches e) = {}"
    using Cons(2) by (auto simp: apart_def)
  have "row_effect env e ?t k = row_effect env e t k"
    if "find (\<lambda>d. k \<in> set (row_touches d)) rows = Some e" for e k
  proof -
    from that have "e \<in> set rows" "k \<in> set (row_touches e)"
      by (auto simp: find_Some_iff)
    then show ?thesis using away by (intro row_effect_local) auto
  qed
  moreover have "find (\<lambda>d. k \<in> set (row_touches d)) rows = None" if "k \<in> set (row_touches d)" for k
    using that away by (auto simp: find_None_iff)
  ultimately show ?case
    using Cons rest
    by (auto simp: tree_row_effect fun_eq_iff split: option.split)
qed (simp add: fun_eq_iff)

lemma find_toucher:
  assumes "apart rows"
  shows "find (\<lambda>d. k \<in> set (row_touches d)) rows = Some d \<longleftrightarrow> d \<in> set rows \<and> k \<in> set (row_touches d)"
  using assms
proof (induction rows)
  case (Cons e rows)
  then show ?case by (auto simp: apart_def)
qed simp

lemma concat_map_perm:
  assumes "mset xs = mset ys"
  shows "mset (concat (map f xs)) = mset (concat (map f ys))"
proof -
  have "mset (concat (map f zs)) = \<Sum>\<^sub># (image_mset (\<lambda>z. mset (f z)) (mset zs))" for zs
    by (induction zs) auto
  with assms show ?thesis by simp
qed

lemma apart_perm: "mset xs = mset ys \<Longrightarrow> apart xs = apart ys"
  unfolding apart_def by (rule mset_eq_imp_distinct_iff [OF concat_map_perm])

text \<open>The order of such rows does not matter.\<close>

lemma tree_rows_perm:
  assumes "mset rows' = mset rows" "apart rows" "list_all well_formed_row rows"
  shows "tree_rows env rows' t = tree_rows env rows t"
proof -
  have sets: "set rows' = set rows" using assms(1) by (rule mset_eq_setD)
  have "apart rows'" using apart_perm [OF assms(1)] assms(2) by simp
  moreover have "list_all well_formed_row rows'" using assms(3) sets by (simp add: list_all_iff)
  moreover have "find (\<lambda>d. k \<in> set (row_touches d)) rows' = find (\<lambda>d. k \<in> set (row_touches d)) rows" for k
  proof -
    have "find (\<lambda>d. k \<in> set (row_touches d)) rows' = Some d \<longleftrightarrow>
        find (\<lambda>d. k \<in> set (row_touches d)) rows = Some d" for d
      using find_toucher [OF \<open>apart rows'\<close>] find_toucher [OF assms(2)] sets by metis
    then show ?thesis by (metis option.exhaust)
  qed
  ultimately show ?thesis using assms by (simp add: apply_apart)
qed

section \<open>Differences of snapshots\<close>

text \<open>The text of a snapshot after a round through the JSON column.\<close>

definition canonical :: "('x) sqlite_env_scheme \<Rightarrow> string \<Rightarrow> string" where
  "canonical env txt = (case value_of_text env txt of Some v \<Rightarrow> value_text env v | None \<Rightarrow> txt)"

definition changed_rows :: "('x) sqlite_env_scheme \<Rightarrow> snapshot \<Rightarrow> snapshot \<Rightarrow> delta_row list" where
  "changed_rows env src dst =
     map (\<lambda>(uri, dv). \<lparr>dr_uri = uri, dr_op = (if hhas src uri then ''update'' else ''add''),
                       dr_entry = value_of_text env dv, dr_rename_from = None\<rparr>)
       (filter (\<lambda>(uri, dv). hget src uri \<noteq> Some dv) dst)"

definition deleted_rows :: "snapshot \<Rightarrow> snapshot \<Rightarrow> delta_row list" where
  "deleted_rows src dst =
     map (\<lambda>uri. \<lparr>dr_uri = uri, dr_op = ''delete'', dr_entry = None, dr_rename_from = None\<rparr>)
       (filter (\<lambda>uri. \<not> hhas dst uri) (hkeys src))"

lemma diff_snapshots_split: "diff_snapshots env src dst = changed_rows env src dst @ deleted_rows src dst"
proof -
  have "concat (map (\<lambda>(uri, dv). case hget src uri of
           None \<Rightarrow> [\<lparr>dr_uri = uri, dr_op = ''add'', dr_entry = value_of_text env dv, dr_rename_from = None\<rparr>]
         | Some sv \<Rightarrow> (if sv \<noteq> dv
            then [\<lparr>dr_uri = uri, dr_op = ''update'', dr_entry = value_of_text env dv, dr_rename_from = None\<rparr>]
            else [])) xs) =
     map (\<lambda>(uri, dv). \<lparr>dr_uri = uri, dr_op = (if hhas src uri then ''update'' else ''add''),
                       dr_entry = value_of_text env dv, dr_rename_from = None\<rparr>)
       (filter (\<lambda>(uri, dv). hget src uri \<noteq> Some dv) xs)" for xs
    by (induction xs) (auto simp: hhas_def split: option.split)
  moreover have "concat (map (\<lambda>uri. if hhas dst uri then []
         else [\<lparr>dr_uri = uri, dr_op = ''delete'', dr_entry = None, dr_rename_from = None\<rparr>]) xs) =
      map (\<lambda>uri. \<lparr>dr_uri = uri, dr_op = ''delete'', dr_entry = None, dr_rename_from = None\<rparr>)
        (filter (\<lambda>uri. \<not> hhas dst uri) xs)" for xs
    by (induction xs) auto
  ultimately show ?thesis by (simp add: diff_snapshots_def changed_rows_def deleted_rows_def)
qed

lemma diff_addresses:
  "map dr_uri (diff_snapshots env src dst) =
     map fst (filter (\<lambda>(uri, dv). hget src uri \<noteq> Some dv) dst) @ filter (\<lambda>uri. \<not> hhas dst uri) (hkeys src)"
  by (simp add: diff_snapshots_split changed_rows_def deleted_rows_def case_prod_unfold comp_def)

lemma no_rename_apart:
  assumes "list_all (\<lambda>d. dr_rename_from d = None) rows"
  shows "apart rows = distinct (map dr_uri rows)"
proof -
  from assms have "concat (map row_touches rows) = map dr_uri rows"
    by (induction rows) (auto simp: row_touches_def)
  then show ?thesis by (simp add: apart_def)
qed

lemma diff_no_renames: "list_all (\<lambda>d. dr_rename_from d = None) (diff_snapshots env src dst)"
  by (auto simp: diff_snapshots_split changed_rows_def deleted_rows_def list_all_iff)

lemma diff_apart:
  assumes "hm_wf src" "hm_wf dst"
  shows "apart (diff_snapshots env src dst)"
proof -
  have "distinct (map fst (filter P dst))" for P
    using hm_wf_filter [OF assms(2)] by (simp add: hm_wf_def)
  moreover have "distinct (hkeys src)" using assms(1) by (simp add: hm_wf_def hkeys_def)
  moreover have "hhas dst u" if "(u, v) \<in> set dst" for u v
    using that assms(2) by (force simp: hhas_def hget_eq_Some_iff)
  ultimately show ?thesis
    by (auto simp: no_rename_apart [OF diff_no_renames] diff_addresses)
qed

lemma diff_well_formed:
  assumes "hm_wf dst" "\<forall>k v. hget dst k = Some v \<longrightarrow> value_of_text env v \<noteq> None"
  shows "list_all well_formed_row (diff_snapshots env src dst)"
proof -
  have "value_of_text env v \<noteq> None" if "(u, v) \<in> set dst" for u v
    using that assms by (metis hget_eq_Some_iff)
  then have "list_all well_formed_row (changed_rows env src dst)"
    by (auto simp: changed_rows_def list_all_iff well_formed_row_def)
  moreover have "list_all well_formed_row (deleted_rows src dst)"
    by (auto simp: deleted_rows_def list_all_iff well_formed_row_def)
  ultimately show ?thesis by (simp add: diff_snapshots_split)
qed

definition diff_row :: "('x) sqlite_env_scheme \<Rightarrow> snapshot \<Rightarrow> snapshot \<Rightarrow> string \<Rightarrow> delta_row" where
  "diff_row env src dst k =
     (case hget dst k of
        Some dv \<Rightarrow> \<lparr>dr_uri = k, dr_op = (if hhas src k then ''update'' else ''add''),
                    dr_entry = value_of_text env dv, dr_rename_from = None\<rparr>
      | None \<Rightarrow> \<lparr>dr_uri = k, dr_op = ''delete'', dr_entry = None, dr_rename_from = None\<rparr>)"

lemma diff_row_uri [simp]: "dr_uri (diff_row env src dst k) = k"
  by (simp add: diff_row_def split: option.split)

lemma diff_rows:
  assumes "hm_wf dst"
  shows "d \<in> set (diff_snapshots env src dst) \<longleftrightarrow>
    (\<exists>k. hget dst k \<noteq> hget src k \<and> d = diff_row env src dst k)"
proof -
  have "d \<in> set (changed_rows env src dst) \<longleftrightarrow>
      (\<exists>k dv. (k, dv) \<in> set dst \<and> hget src k \<noteq> Some dv
        \<and> d = \<lparr>dr_uri = k, dr_op = (if hhas src k then ''update'' else ''add''),
               dr_entry = value_of_text env dv, dr_rename_from = None\<rparr>)"
    by (auto simp: changed_rows_def image_iff split del: if_split)
  also have "\<dots> \<longleftrightarrow> (\<exists>k dv. hget dst k = Some dv \<and> hget src k \<noteq> Some dv \<and> d = diff_row env src dst k)"
    using assms by (simp add: hget_eq_Some_iff [symmetric] diff_row_def cong: conj_cong)
  finally have "d \<in> set (changed_rows env src dst) \<longleftrightarrow>
      (\<exists>k. hget dst k \<noteq> None \<and> hget dst k \<noteq> hget src k \<and> d = diff_row env src dst k)"
    by (metis option.exhaust option.simps(3))
  moreover have "d \<in> set (deleted_rows src dst) \<longleftrightarrow>
      (\<exists>k. hget dst k = None \<and> hget dst k \<noteq> hget src k \<and> d = diff_row env src dst k)"
  proof -
    have "d \<in> set (deleted_rows src dst) \<longleftrightarrow> (\<exists>k. hget src k \<noteq> None \<and> hget dst k = None
        \<and> d = \<lparr>dr_uri = k, dr_op = ''delete'', dr_entry = None, dr_rename_from = None\<rparr>)"
      by (auto simp: deleted_rows_def hhas_def hm_simps)
    then show ?thesis by (simp add: diff_row_def eq_commute cong: conj_cong) auto
  qed
  ultimately show ?thesis unfolding diff_snapshots_split set_append Un_iff by blast
qed

lemma diff_applies:
  assumes "hm_wf src" "hm_wf dst" "\<forall>k v. hget dst k = Some v \<longrightarrow> value_of_text env v \<noteq> None"
    and "mset rows = mset (diff_snapshots env src dst)"
  shows "tree_of (apply_deltas env rows src) =
    Inr (\<lambda>k. if hget dst k = hget src k then hget src k else map_option (canonical env) (hget dst k))"
proof -
  let ?diff = "diff_snapshots env src dst"
  note ap = diff_apart [OF assms(1,2), of env]
  note wf = diff_well_formed [OF assms(2,3), of src]
  have touch: "k \<in> set (row_touches d) \<longleftrightarrow> dr_uri d = k" if "d \<in> set ?diff" for d k
    using that diff_no_renames [of env src dst] by (auto simp: list_all_iff row_touches_def)
  have "find (\<lambda>d. k \<in> set (row_touches d)) ?diff =
      (if hget dst k = hget src k then None else Some (diff_row env src dst k))" for k
  proof (cases "hget dst k = hget src k")
    case True
    then have "k \<notin> set (row_touches d)" if "d \<in> set ?diff" for d
    proof -
      from that obtain k' where "hget dst k' \<noteq> hget src k'" "d = diff_row env src dst k'"
        using diff_rows [OF assms(2)] by blast
      with True touch [OF that] show ?thesis by auto
    qed
    with True show ?thesis by (simp add: find_None_iff)
  next
    case False
    then have "diff_row env src dst k \<in> set ?diff" using diff_rows [OF assms(2)] by blast
    with False show ?thesis using touch by (simp add: find_toucher [OF ap])
  qed
  moreover have "row_effect env (diff_row env src dst k) t k = map_option (canonical env) (hget dst k)" for k t
    using assms(3) by (cases "hget dst k")
      (fastforce simp: diff_row_def row_effect_def canonical_def)+
  ultimately show ?thesis
    unfolding apply_deltas_tree tree_rows_perm [OF assms(4) ap wf] apply_apart [OF ap wf]
    by (auto simp: fun_eq_iff)
qed

text \<open>C27: The rows that lead from one snapshot to another, applied to the first one in whatever order
  the database yields them, give the second, in the text form of the JSON column.\<close>

theorem diff_then_apply:
  assumes "hm_wf src" "hm_wf dst" "\<forall>k v. hget dst k = Some v \<longrightarrow> value_of_text env v \<noteq> None"
    and "mset rows = mset (diff_snapshots env src dst)"
  shows "tree_of (apply_deltas env rows src) =
    Inr (\<lambda>k. if hget dst k = hget src k then hget src k else map_option (canonical env) (hget dst k))"
  by (rule diff_applies [OF assms])

theorem diff_then_apply_witness:
  "tree_of (apply_deltas sample_env
     (rev (diff_snapshots sample_env [(''a'', ''x''), (''b'', ''y'')] [(''a'', ''z''), (''c'', ''w'')]))
     [(''a'', ''x''), (''b'', ''y'')]) = Inr [''a'' \<mapsto> ''z'', ''c'' \<mapsto> ''w'']"
proof -
  have "tree_of (apply_deltas sample_env
     (rev (diff_snapshots sample_env [(''a'', ''x''), (''b'', ''y'')] [(''a'', ''z''), (''c'', ''w'')]))
     [(''a'', ''x''), (''b'', ''y'')]) = Inr (\<lambda>k.
       if hget [(''a'', ''z''), (''c'', ''w'')] k = hget [(''a'', ''x''), (''b'', ''y'')] k
       then hget [(''a'', ''x''), (''b'', ''y'')] k
       else map_option (canonical sample_env) (hget [(''a'', ''z''), (''c'', ''w'')] k))"
    by (rule diff_then_apply) (simp_all add: hm_wf_def sample_env_def)
  also have "\<dots> = Inr [''a'' \<mapsto> ''z'', ''c'' \<mapsto> ''w'']"
    by (auto simp: fun_eq_iff canonical_def sample_env_def hget_def)
  finally show ?thesis .
qed

section \<open>Change sets\<close>

text \<open>serde writes the same JSON for an entry and for the value it converts it to.\<close>

definition codec_ok :: "('x) sqlite_env_scheme \<Rightarrow> bool" where
  "codec_ok env \<longleftrightarrow> (\<forall>e. map_sum id (value_text env) (entry_value env e)
                        = map_sum id (canonical env) (entry_to_json env e))"

definition canonical_tree :: "('x) sqlite_env_scheme \<Rightarrow> snapshot \<Rightarrow> row_tree" where
  "canonical_tree env snap k = map_option (canonical env) (hget snap k)"

lemma canonical_put: "canonical_tree env (hput k v snap) = (canonical_tree env snap)(k := Some (canonical env v))"
  by (rule ext) (simp add: canonical_tree_def hm_simps)

lemma canonical_del: "canonical_tree env (hdel k snap) = (canonical_tree env snap)(k := None)"
  by (rule ext) (simp add: canonical_tree_def hm_simps)

abbreviation plain_env :: "('x) sqlite_env_scheme \<Rightarrow> version_env" where
  "plain_env env \<equiv> version_env.truncate env"

lemma plain_env_json [simp]: "entry_to_json (plain_env env) = entry_to_json env"
  by (simp add: version_env.truncate_def)

text \<open>Both stores turn a result into a tree.\<close>

fun canonical_result :: "('x) sqlite_env_scheme \<Rightarrow> version_error + snapshot \<Rightarrow> version_error + row_tree" where
  "canonical_result env (Inl e) = Inl e"
| "canonical_result env (Inr snap) = Inr (canonical_tree env snap)"

lemma codec_split:
  assumes "codec_ok env"
  shows "(\<exists>x. entry_value env e = Inl x \<and> entry_to_json env e = Inl x)
    \<or> (\<exists>v t. entry_value env e = Inr v \<and> entry_to_json env e = Inr t \<and> canonical env t = value_text env v)"
proof -
  have "map_sum id (value_text env) (entry_value env e) = map_sum id (canonical env) (entry_to_json env e)"
    using assms by (simp add: codec_ok_def)
  then show ?thesis by (cases "entry_value env e"; cases "entry_to_json env e") auto
qed

lemma adds_match:
  assumes "codec_ok env"
  shows "canonical_result env (apply_adds (plain_env env) es snap) =
    (case add_rows env es of Inl x \<Rightarrow> Inl x | Inr rows \<Rightarrow> tree_rows env rows (canonical_tree env snap))"
proof (induction es arbitrary: snap)
  case (Cons e es)
  show ?case
    using codec_split [OF assms, of e]
  proof (elim disjE exE conjE)
    fix v t assume e: "entry_value env e = Inr v" "entry_to_json env e = Inr t" "canonical env t = value_text env v"
    then show ?thesis
      using Cons [of "hput (u_canonical (e_uri e)) t snap"]
      by (auto simp: canonical_put tree_row_def fun_upd_def split: sum.splits)
  qed simp
qed simp

lemma adds_serialize:
  assumes "codec_ok env" "add_rows env es = Inr rows"
  shows "\<exists>snap'. apply_adds (plain_env env) es snap = Inr snap'"
  using assms(2)
proof (induction es arbitrary: rows snap)
  case (Cons e es)
  with codec_split [OF assms(1), of e] show ?case by (fastforce split: sum.splits)
qed simp

lemma updates_match:
  assumes "codec_ok env"
  shows "canonical_result env (apply_updates (plain_env env) us snap) =
    (case update_rows env us of Inl x \<Rightarrow> Inl x | Inr rows \<Rightarrow> tree_rows env rows (canonical_tree env snap))"
proof (induction us arbitrary: snap)
  case (Cons u us)
  show ?case
  proof (cases "e_uri (uc_entry u) = uc_uri u")
    case True
    from codec_split [OF assms, of "uc_entry u"] show ?thesis
    proof (elim disjE exE conjE)
      fix v t assume "entry_value env (uc_entry u) = Inr v" "entry_to_json env (uc_entry u) = Inr t"
        "canonical env t = value_text env v"
      then show ?thesis
        using True Cons [of "hput (u_canonical (uc_uri u)) t snap"]
        by (auto simp: canonical_put tree_row_def fun_upd_def split: sum.splits)
    qed (use True in simp)
  qed simp
qed simp

lemma deletes_match:
  "tree_rows env (delete_rows us) (canonical_tree env snap) = Inr (canonical_tree env (apply_deletes us snap))"
  unfolding delete_rows_def apply_deletes_def
  by (induction us arbitrary: snap) (auto simp: tree_row_def canonical_del [symmetric])

lemma renames_match:
  "tree_rows env (rename_rows rs) (canonical_tree env snap) = Inr (canonical_tree env (fold apply_rename rs snap))"
  unfolding rename_rows_def
proof (induction rs arbitrary: snap)
  case (Cons r rs)
  have "tree_row env \<lparr>dr_uri = u_canonical (rn_to r), dr_op = ''rename'', dr_entry = None,
      dr_rename_from = Some (u_canonical (rn_from r))\<rparr> (canonical_tree env snap) =
    Inr (canonical_tree env (apply_rename r snap))"
    by (cases "hget snap (u_canonical (rn_from r))")
      (simp_all add: tree_row_def apply_rename_def canonical_put canonical_del canonical_tree_def [of env snap])
  with Cons show ?case by simp
qed simp

text \<open>The rows of a change set, in the order of the change set, do what the in-memory store does.\<close>

lemma change_rows_match:
  assumes "codec_ok env"
  shows "canonical_result env (apply_changes (plain_env env) ch snap) =
    (case change_rows env ch of Inl x \<Rightarrow> Inl x | Inr rows \<Rightarrow> tree_rows env rows (canonical_tree env snap))"
proof (cases "add_rows env (cs_adds ch)")
  case (Inl x)
  with adds_match [OF assms, of "cs_adds ch" snap] show ?thesis
    by (cases "apply_adds (plain_env env) (cs_adds ch) snap") (auto simp: apply_changes_def change_rows_def)
next
  case adds: (Inr adds)
  show ?thesis
  proof (cases "apply_adds (plain_env env) (cs_adds ch) snap")
    case (Inl x)
    with adds_serialize [OF assms adds, of snap] show ?thesis by simp
  next
    case (Inr snap1)
    with adds adds_match [OF assms, of "cs_adds ch" snap]
      updates_match [OF assms, of "cs_updates ch" snap1]
    show ?thesis
      by (auto simp: apply_changes_def change_rows_def tree_rows_append deletes_match renames_match
          split: sum.splits)
  qed
qed

end
