(* ===== verification/Sqlite_Rewrites.thy ===== *)
theory Sqlite_Rewrites
  imports Sqlite_Commits
begin

text \<open>
  The rewriting half of crates/context-db-storage/src/sqlite_version.rs: ancestry, merging, differences
  of commits, squash and garbage collection. Each operation reads first, partly through the caches, and writes in one transaction
  that compares the heads it read.
\<close>

section \<open>Operations on the store\<close>

type_synonym 'a vstore_op = "version_sql \<Rightarrow> (version_error + 'a) \<times> version_sql"

definition sql_then :: "'a vstore_op \<Rightarrow> ('a \<Rightarrow> 'b vstore_op) \<Rightarrow> 'b vstore_op" where
  "sql_then m f s = (case m s of (Inl e, s') \<Rightarrow> (Inl e, s') | (Inr x, s') \<Rightarrow> f x s')"

definition sql_give :: "version_error + 'a \<Rightarrow> 'a vstore_op" where
  "sql_give r s = (r, s)"

definition sql_ask :: "(version_db \<Rightarrow> version_error + 'a) \<Rightarrow> 'a vstore_op" where
  "sql_ask f s = (f (vq_db s), s)"

definition sql_run :: "'a vtx \<Rightarrow> 'a vstore_op" where
  "sql_run body s = (let (r, db) = version_tx body (vq_db s) in (r, s\<lparr>vq_db := db\<rparr>))"

text \<open>The empty snapshot where there is no commit.\<close>

definition snapshot_or_empty ::
    "('x) sqlite_env_scheme \<Rightarrow> version_settings \<Rightarrow> datetime \<Rightarrow> commit_id option \<Rightarrow> snapshot vstore_op" where
  "snapshot_or_empty env cfg now c =
     (case c of None \<Rightarrow> sql_give (Inr []) | Some c' \<Rightarrow> reconstruct_snapshot env cfg now c')"

section \<open>Ancestry\<close>

function row_ancestor_loop :: "version_db \<Rightarrow> commit_id \<Rightarrow> commit_id list \<Rightarrow> commit_id list \<Rightarrow> bool" where
  "row_ancestor_loop db anc visited [] = False"
| "row_ancestor_loop db anc visited (x # stack) =
     (if x \<in> set visited then row_ancestor_loop db anc visited stack
      else if x = anc then True
      else row_ancestor_loop db anc (x # visited) (rev (load_parents db x) @ stack))"
  by pat_completeness auto
termination
proof (relation "measures
    [\<lambda>(db, anc, visited, stack). card (set (map pr_commit (vd_parents db)) - set visited),
     \<lambda>(db, anc, visited, stack). length stack]", goal_cases)
  case (3 db anc visited x stack)
  then show ?case using parentgraph.visit_decreases [of x "set visited" db] by auto
qed auto

definition row_ancestor :: "version_db \<Rightarrow> commit_id \<Rightarrow> commit_id \<Rightarrow> bool" where
  "row_ancestor db ancestor candidate =
     (if ancestor = candidate then True else row_ancestor_loop db ancestor [] [candidate])"

function row_ancestors :: "version_db \<Rightarrow> commit_id list \<Rightarrow> commit_id list \<Rightarrow> commit_id list" where
  "row_ancestors db visited [] = visited"
| "row_ancestors db visited (x # stack) =
     (if x \<in> set visited then row_ancestors db visited stack
      else row_ancestors db (x # visited) (rev (load_parents db x) @ stack))"
  by pat_completeness auto
termination
proof (relation "measures
    [\<lambda>(db, visited, stack). card (set (map pr_commit (vd_parents db)) - set visited),
     \<lambda>(db, visited, stack). length stack]", goal_cases)
  case (3 db visited x stack)
  then show ?case using parentgraph.visit_decreases [of x "set visited" db] by auto
qed auto

function row_first_common ::
    "version_db \<Rightarrow> commit_id list \<Rightarrow> commit_id list \<Rightarrow> commit_id list \<Rightarrow> commit_id option" where
  "row_first_common db ancs seen [] = None"
| "row_first_common db ancs seen (x # queue) =
     (if x \<in> set seen then row_first_common db ancs seen queue
      else if x \<in> set ancs then Some x
      else row_first_common db ancs (x # seen) (queue @ load_parents db x))"
  by pat_completeness auto
termination
proof (relation "measures
    [\<lambda>(db, ancs, seen, queue). card (set (map pr_commit (vd_parents db)) - set seen),
     \<lambda>(db, ancs, seen, queue). length queue]", goal_cases)
  case (3 db ancs seen x queue)
  then show ?case using parentgraph.visit_decreases [of x "set seen" db] by auto
qed auto

definition row_merge_base :: "version_db \<Rightarrow> commit_id \<Rightarrow> commit_id \<Rightarrow> commit_id option" where
  "row_merge_base db a b = row_first_common db (row_ancestors db [] [a]) [] [b]"

text \<open>The commits of a branch that its new base does not have, oldest first. Along a cycle of first
  parents the loop does not end.\<close>

partial_function (option) commits_to_rebase ::
    "version_db \<Rightarrow> commit_id \<Rightarrow> commit_id list \<Rightarrow> commit_id \<Rightarrow> commit_id list option" where
  "commits_to_rebase db onto_head own cur =
     (if row_ancestor db cur onto_head then Some own
      else case first_parent_row db cur of
             None \<Rightarrow> Some (cur # own)
           | Some p \<Rightarrow> commits_to_rebase db onto_head (cur # own) p)"

declare commits_to_rebase.simps [code]

section \<open>Publishing a commit\<close>

text \<open>The branch has to be where it was read, and so has the head of the scope.\<close>

definition move_branch_and_head ::
    "('x) sqlite_env_scheme \<Rightarrow> string \<Rightarrow> string \<Rightarrow> branch_name \<Rightarrow> commit_id \<Rightarrow> commit_id \<Rightarrow> unit vtx"
where
  "move_branch_and_head env what skey name expected c =
     tx_then (update_branch_head skey name expected c) (\<lambda>_.
     tx_then (advance_head_if_matches env skey expected c) (\<lambda>moved db.
       if moved then Inr ((), db)
       else Inl (VStorage (''HEAD changed concurrently during '' @ what))))"

section \<open>Merging\<close>

text \<open>Fast-forward, when branches have diverged, takes the other side like \<open>Theirs\<close>.\<close>

fun merge_rows_loop ::
    "('x) sqlite_env_scheme \<Rightarrow> merge_strategy \<Rightarrow> snapshot \<Rightarrow> snapshot \<Rightarrow> snapshot \<Rightarrow> string list
     \<Rightarrow> snapshot \<Rightarrow> context_uri list \<Rightarrow> version_error + snapshot \<times> context_uri list" where
  "merge_rows_loop env strategy base into from [] merged conflicts = Inr (merged, conflicts)"
| "merge_rows_loop env strategy base into from (uri # keys) merged conflicts =
     (let b = hget base uri; ours = hget into uri; theirs = hget from uri
      in if theirs = b then merge_rows_loop env strategy base into from keys merged conflicts
         else if ours = b \<or> ours = theirs
         then merge_rows_loop env strategy base into from keys (put_opt uri theirs merged) conflicts
         else case strategy of
                Ours \<Rightarrow> merge_rows_loop env strategy base into from keys merged conflicts
              | ThreeWay \<Rightarrow>
                  (case parse (parse_datetime env) uri of
                     Inl e \<Rightarrow> Inl (VStorage (context_error_display e))
                   | Inr u \<Rightarrow>
                       merge_rows_loop env strategy base into from keys merged (conflicts @ [u]))
              | _ \<Rightarrow> merge_rows_loop env strategy base into from keys (put_opt uri theirs merged) conflicts)"

definition merge_message :: "string \<Rightarrow> branch_name \<Rightarrow> branch_name \<Rightarrow> nat \<Rightarrow> string" where
  "merge_message what into from n =
     what @ branch_str into @ '' <- '' @ branch_str from @ '' conflicts='' @ show_nat n"

definition sql_merge_diverged ::
    "('x) sqlite_env_scheme \<Rightarrow> version_settings \<Rightarrow> uuid \<Rightarrow> datetime \<Rightarrow> string \<Rightarrow> branch_name \<Rightarrow> branch_name
     \<Rightarrow> merge_strategy \<Rightarrow> commit_id \<Rightarrow> commit_id \<Rightarrow> merge_result vstore_op" where
  "sql_merge_diverged env cfg fresh now skey from into strategy from_head into_head =
     sql_then (sql_ask (\<lambda>db. Inr (row_merge_base db from_head into_head))) (\<lambda>base.
     sql_then (snapshot_or_empty env cfg now base) (\<lambda>base_snap.
     sql_then (reconstruct_snapshot env cfg now from_head) (\<lambda>from_snap.
     sql_then (reconstruct_snapshot env cfg now into_head) (\<lambda>into_snap.
     sql_then (sql_give (merge_rows_loop env strategy base_snap into_snap from_snap
                 (merge_keys base_snap from_snap into_snap) into_snap [])) (\<lambda>(merged, conflicts).
       let c = sql_commit_record env (CommitId fresh) [into_head, from_head]
                 (merge_message ''merge '' into from (length conflicts)) now default_commit_meta
       in sql_run
            (tx_then (insert_with_rows env skey c (diff_snapshots env into_snap merged)) (\<lambda>_.
             tx_then (move_branch_and_head env ''merge'' skey into into_head (CommitId fresh))
               (\<lambda>_ db. Inr (\<lparr>mr_commit = CommitId fresh, mr_conflicts = conflicts\<rparr>, db)))))))))"

definition sql_merge ::
    "('x) sqlite_env_scheme \<Rightarrow> version_settings \<Rightarrow> uuid \<Rightarrow> datetime \<Rightarrow> context_uri \<Rightarrow> branch_name
     \<Rightarrow> branch_name \<Rightarrow> merge_strategy \<Rightarrow> merge_result vstore_op" where
  "sql_merge env cfg fresh now scope from into strategy =
     (let skey = scope_key scope
      in sql_then (sql_ask (branch_head_row skey from)) (\<lambda>from_head.
         sql_then (sql_ask (branch_head_row skey into)) (\<lambda>into_head.
         sql_then (sql_ask (\<lambda>db. Inr (row_ancestor db into_head from_head))) (\<lambda>forward.
           if forward
           then sql_run (tx_then (move_branch_and_head env ''merge'' skey into into_head from_head)
                  (\<lambda>_ db. Inr (\<lparr>mr_commit = from_head, mr_conflicts = []\<rparr>, db)))
           else sql_merge_diverged env cfg fresh now skey from into strategy from_head into_head))))"

section \<open>Differences of commits\<close>

definition sql_diff_commits ::
    "('x) sqlite_env_scheme \<Rightarrow> version_settings \<Rightarrow> datetime \<Rightarrow> context_uri \<Rightarrow> commit_id \<Rightarrow> commit_id
     \<Rightarrow> tree_diff vstore_op" where
  "sql_diff_commits env cfg now scope a b =
     (let skey = scope_key scope
      in sql_then (sql_ask (require_commit_scope env a skey)) (\<lambda>_.
         sql_then (sql_ask (require_commit_scope env b skey)) (\<lambda>_.
         sql_then (reconstruct_snapshot env cfg now a) (\<lambda>sa.
         sql_then (reconstruct_snapshot env cfg now b) (\<lambda>sb.
           sql_give (Inr
             \<lparr>td_adds = parsed_uris (version_env.truncate env) (filter (\<lambda>k. \<not> hhas sa k) (hkeys sb)),
              td_updates = parsed_uris (version_env.truncate env)
                (filter (\<lambda>k. hhas sa k \<and> hget sa k \<noteq> hget sb k) (hkeys sb)),
              td_deletes = parsed_uris (version_env.truncate env)
                (filter (\<lambda>k. \<not> hhas sb k) (hkeys sa))\<rparr>))))))"

section \<open>Squash\<close>

fun require_scopes ::
    "('x) sqlite_env_scheme \<Rightarrow> commit_id list \<Rightarrow> string \<Rightarrow> version_db \<Rightarrow> version_error + unit" where
  "require_scopes env [] skey db = Inr ()"
| "require_scopes env (c # cs) skey db =
     (case require_commit_scope env c skey db of
        Inl e \<Rightarrow> Inl e | Inr _ \<Rightarrow> require_scopes env cs skey db)"

fun consecutive_rows :: "version_db \<Rightarrow> commit_id list \<Rightarrow> bool" where
  "consecutive_rows db (a # b # rest) =
     (first_parent_row db b = Some a \<and> consecutive_rows db (b # rest))"
| "consecutive_rows db _ = True"

text \<open>Every branch of the scope at the old tip, and its head, move to the new commit.\<close>

definition retarget_rows ::
    "string \<Rightarrow> commit_id \<Rightarrow> commit_id \<Rightarrow> (string \<times> string, branch_row) hmap \<Rightarrow> (string \<times> string, branch_row) hmap"
where
  "retarget_rows skey old new bs =
     map (\<lambda>((sc, n), r). ((sc, n), if sc = skey \<and> br_head r = old then r\<lparr>br_head := new\<rparr> else r)) bs"

definition squash_body ::
    "('x) sqlite_env_scheme \<Rightarrow> string \<Rightarrow> commit \<Rightarrow> delta_row list \<Rightarrow> commit_id \<Rightarrow> unit vtx" where
  "squash_body env skey c rows newest =
     tx_then (insert_with_rows env skey c rows) (\<lambda>_ db.
       if \<not> list_ex (\<lambda>((sc, _), r). sc = skey \<and> br_head r = newest) (vd_branches db)
          \<and> sql_get_head db skey \<noteq> Some newest
       then Inl (VStorage ''squash tip is not referenced by a branch or HEAD'')
       else
         tx_then (advance_head_if_matches env skey newest (c_id c)) (\<lambda>_ db'. Inr ((), db'))
           (db\<lparr>vd_branches := retarget_rows skey newest (c_id c) (vd_branches db)\<rparr>))"

definition sql_squash ::
    "('x) sqlite_env_scheme \<Rightarrow> version_settings \<Rightarrow> uuid \<Rightarrow> datetime \<Rightarrow> context_uri \<Rightarrow> commit_id list
     \<Rightarrow> string \<Rightarrow> squash_result vstore_op" where
  "sql_squash env cfg fresh now scope ids message =
     (if length ids < 2 then sql_give (Inl (VStorage ''squash needs >= 2 commits''))
      else
        let skey = scope_key scope; newest = last ids; oldest = hd ids
        in sql_then (sql_ask (require_scopes env ids skey)) (\<lambda>_.
           sql_then (sql_ask (\<lambda>db.
             if consecutive_rows db ids then Inr ()
             else Inl (VStorage (''squash commits must be a consecutive first-parent range ''
                    @ ''ordered oldest to newest'')))) (\<lambda>_.
           sql_then (sql_ask (\<lambda>db. Inr (first_parent_row db oldest))) (\<lambda>par.
           sql_then (snapshot_or_empty env cfg now par) (\<lambda>base_snap.
           sql_then (reconstruct_snapshot env cfg now newest) (\<lambda>tip_snap.
             let c = sql_commit_record env (CommitId fresh) (case par of Some p \<Rightarrow> [p] | None \<Rightarrow> [])
                       message now default_commit_meta
             in sql_run
                  (tx_then (squash_body env skey c (diff_snapshots env base_snap tip_snap) newest)
                    (\<lambda>_ db. Inr (\<lparr>sq_new_commit = CommitId fresh, sq_squashed_count = length ids\<rparr>, db)))))))))"

section \<open>Garbage collection\<close>

text \<open>Deleting a commit deletes its parent rows, change rows and checkpoint; a commit that is a parent
  or a head cannot be deleted.\<close>

definition delete_commit_row :: "('x) sqlite_env_scheme \<Rightarrow> string \<Rightarrow> commit_id \<Rightarrow> unit vtx" where
  "delete_commit_row env skey c db =
     (case hget (vd_commits db) c of
        None \<Rightarrow> Inr ((), db)
      | Some r \<Rightarrow>
          (if cr_scope r \<noteq> skey then Inr ((), db)
           else if list_ex (\<lambda>p. pr_parent p = c) (vd_parents db)
                   \<or> list_ex (\<lambda>(_, h). hr_commit h = c) (vd_heads db)
           then Inl (sql_failure env ''delete commit'')
           else Inr ((), db\<lparr>vd_commits := hdel c (vd_commits db),
                            vd_parents := filter (\<lambda>p. pr_commit p \<noteq> c) (vd_parents db),
                            vd_deltas := filter (\<lambda>((c', _), _). c' \<noteq> c) (vd_deltas db),
                            vd_checkpoints := hdel c (vd_checkpoints db)\<rparr>)))"

fun delete_commit_rows :: "('x) sqlite_env_scheme \<Rightarrow> string \<Rightarrow> commit_id list \<Rightarrow> unit vtx" where
  "delete_commit_rows env skey [] db = Inr ((), db)"
| "delete_commit_rows env skey (c # cs) db =
     tx_then (delete_commit_row env skey c) (\<lambda>_. delete_commit_rows env skey cs) db"

definition protected_refs :: "string \<Rightarrow> version_db \<Rightarrow> commit_id list" where
  "protected_refs skey db =
     (case sql_get_head db skey of Some h \<Rightarrow> [h] | None \<Rightarrow> [])
     @ map (\<lambda>(_, r). br_head r) (filter (\<lambda>((sc, _), _). sc = skey) (vd_branches db))
     @ map (\<lambda>(_, r). tr_target r) (filter (\<lambda>((sc, _), _). sc = skey) (vd_tags db))"

text \<open>\<open>keep_recent as i64\<close>: a negative LIMIT means no limit.\<close>

definition recent_commits :: "string \<Rightarrow> nat \<Rightarrow> version_db \<Rightarrow> commit_id list" where
  "recent_commits skey keep db =
     (let all = map fst (sort_key (\<lambda>(_, r). - cr_timestamp r)
                  (filter (\<lambda>(_, r). cr_scope r = skey) (vd_commits db)));
          limit = (word_of_nat keep :: u64)
      in if sint limit < 0 then all else take (unat limit) all)"

definition collectable :: "string \<Rightarrow> nat \<Rightarrow> datetime \<Rightarrow> version_db \<Rightarrow> commit_id list" where
  "collectable skey keep cutoff db =
     (let kept = row_ancestors db [] (protected_refs skey db); recent = recent_commits skey keep db
      in map fst (sort_key (\<lambda>(_, r). cr_timestamp r)
           (filter (\<lambda>(c, r). cr_scope r = skey \<and> cr_timestamp r < cutoff
                            \<and> c \<notin> set kept \<and> c \<notin> set recent) (vd_commits db))))"

definition days_ns :: "int \<Rightarrow> int" where
  "days_ns d = d * 86400000000000"

definition sql_gc ::
    "('x) sqlite_env_scheme \<Rightarrow> datetime \<Rightarrow> context_uri \<Rightarrow> gc_policy \<Rightarrow> gc_report vstore_op" where
  "sql_gc env now scope policy =
     (let skey = scope_key scope; cutoff = now - days_ns (gp_max_age_days policy)
      in sql_then (sql_ask (\<lambda>db. Inr (collectable skey (gp_keep_recent policy) cutoff db))) (\<lambda>ids.
         sql_then (sql_run (delete_commit_rows env skey ids)) (\<lambda>_ s.
           (Inr \<lparr>gr_removed_commits = length ids, gr_freed_snapshots = length ids\<rparr>,
            fold (cache_del_snapshot env) ids s))))"

end
