(* ===== verification/Sqlite_Sessions.thy ===== *)
theory Sqlite_Sessions
  imports Sqlite_Rewrites
begin

text \<open>
  Cherry-pick, rebase and conflict sessions of crates/context-db-storage/src/sqlite_version.rs, and
  the analyses. A session carries the part of a cherry-pick that applies cleanly, as payloads, and
  the conflicts to resolve; a persisted session is open, completed or aborted.
\<close>

section \<open>Payloads of a snapshot\<close>

definition snapshot_to_payload_entries ::
    "('x) sqlite_env_scheme \<Rightarrow> snapshot \<Rightarrow> (string \<times> content_payload) list" where
  "snapshot_to_payload_entries env snap =
     sort_key fst (concat (map (\<lambda>(uri, txt).
       case payload_of_text env txt of Some p \<Rightarrow> [(uri, p)] | None \<Rightarrow> []) snap))"

definition payload_entries_to_snapshot ::
    "('x) sqlite_env_scheme \<Rightarrow> (string \<times> content_payload) list \<Rightarrow> snapshot" where
  "payload_entries_to_snapshot env es =
     fold (\<lambda>(uri, p) snap. case payload_text env p of Inr t \<Rightarrow> hput uri t snap | Inl _ \<Rightarrow> snap) es []"

definition put_payload ::
    "('x) sqlite_env_scheme \<Rightarrow> string \<Rightarrow> content_payload option \<Rightarrow> snapshot \<Rightarrow> version_error + snapshot"
where
  "put_payload env uri p snap =
     (case p of
        None \<Rightarrow> Inr (hdel uri snap)
      | Some p' \<Rightarrow>
          (case payload_text env p' of Inl e \<Rightarrow> Inl (VStorage e) | Inr t \<Rightarrow> Inr (hput uri t snap)))"

fun resolved_value :: "conflict_item \<Rightarrow> conflict_resolution \<Rightarrow> content_payload option" where
  "resolved_value c ResolveOurs = ci_ours c"
| "resolved_value c ResolveTheirs = ci_theirs c"
| "resolved_value c ResolveDelete = None"
| "resolved_value c (ResolveManual p) = Some p"

fun apply_resolutions ::
    "('x) sqlite_env_scheme \<Rightarrow> conflict_resolution_set \<Rightarrow> conflict_item list \<Rightarrow> snapshot
     \<Rightarrow> version_error + snapshot" where
  "apply_resolutions env res [] snap = Inr snap"
| "apply_resolutions env res (c # cs) snap =
     (case hget res (u_canonical (ci_uri c)) of
        None \<Rightarrow> Inl (ConflictSessionIncomplete (u_canonical (ci_uri c)))
      | Some r \<Rightarrow>
          (case put_payload env (u_canonical (ci_uri c)) (resolved_value c r) snap of
             Inl e \<Rightarrow> Inl e
           | Inr snap' \<Rightarrow> apply_resolutions env res cs snap'))"

definition apply_session_resolutions ::
    "('x) sqlite_env_scheme \<Rightarrow> conflict_session \<Rightarrow> conflict_resolution_set \<Rightarrow> version_error + snapshot"
where
  "apply_session_resolutions env session res =
     apply_resolutions env res (cs_conflicts session)
       (payload_entries_to_snapshot env (cs_clean_snapshot session))"

section \<open>Cherry-pick\<close>

text \<open>A change is in conflict when the target has another value than before and after the picked
  commit. A conflict at an address that does not parse is dropped.\<close>

definition picked_cleanly :: "snapshot \<Rightarrow> snapshot \<Rightarrow> snapshot \<Rightarrow> delta_row \<Rightarrow> bool" where
  "picked_cleanly base picked target d =
     (hget target (dr_uri d) = hget base (dr_uri d) \<or> hget target (dr_uri d) = hget picked (dr_uri d))"

definition pick_conflict ::
    "('x) sqlite_env_scheme \<Rightarrow> snapshot \<Rightarrow> snapshot \<Rightarrow> snapshot \<Rightarrow> delta_row \<Rightarrow> conflict_item list" where
  "pick_conflict env base picked target d =
     (if picked_cleanly base picked target d then []
      else case parse (parse_datetime env) (dr_uri d) of
             Inl _ \<Rightarrow> []
           | Inr uri \<Rightarrow>
               [\<lparr>ci_uri = uri,
                 ci_base = Option.bind (hget base (dr_uri d)) (payload_of_text env),
                 ci_ours = Option.bind (hget target (dr_uri d)) (payload_of_text env),
                 ci_theirs = Option.bind (hget picked (dr_uri d)) (payload_of_text env),
                 ci_op = (if hhas picked (dr_uri d) then OpSet else OpRemove)\<rparr>])"

definition build_cherry_pick_session ::
    "('x) sqlite_env_scheme \<Rightarrow> version_settings \<Rightarrow> datetime \<Rightarrow> conflict_session_id \<Rightarrow> context_uri
     \<Rightarrow> commit_id \<Rightarrow> commit_id \<Rightarrow> branch_name \<Rightarrow> conflict_session vstore_op" where
  "build_cherry_pick_session env cfg now sid scope c target onto =
     (let skey = scope_key scope
      in sql_then (sql_ask (require_commit_scope env c skey)) (\<lambda>_.
         sql_then (sql_ask (require_commit_scope env target skey)) (\<lambda>_.
         sql_then (sql_ask (\<lambda>db. Inr (first_parent_row db c))) (\<lambda>par.
         sql_then (snapshot_or_empty env cfg now par) (\<lambda>base_snap.
         sql_then (reconstruct_snapshot env cfg now c) (\<lambda>picked.
         sql_then (reconstruct_snapshot env cfg now target) (\<lambda>target_snap.
           let rows = diff_snapshots env base_snap picked;
               conflicts = concat (map (pick_conflict env base_snap picked target_snap) rows)
           in sql_then (sql_give (apply_deltas env
                  (filter (picked_cleanly base_snap picked target_snap) rows) target_snap)) (\<lambda>clean.
              sql_give (Inr
                \<lparr>cs_id = sid, cs_scope = scope, cs_operation = InteractiveCherryPick c onto,
                 cs_base = par, cs_target = target, cs_commits = [c], cs_conflicts = conflicts,
                 cs_clean_snapshot = snapshot_to_payload_entries env clean\<rparr>)))))))))"

definition pick_message :: "('x) sqlite_env_scheme \<Rightarrow> commit_id \<Rightarrow> commit_id \<Rightarrow> branch_name option \<Rightarrow> string"
where
  "pick_message env c target onto =
     ''cherry-pick '' @ uuid_display env (uuid_of c) @ '' onto ''
     @ (case onto of Some b \<Rightarrow> branch_str b | None \<Rightarrow> uuid_display env (uuid_of target))"

text \<open>The head follows when it is attached to the branch and where the branch was.\<close>

definition follow_attached ::
    "('x) sqlite_env_scheme \<Rightarrow> string \<Rightarrow> branch_name \<Rightarrow> commit_id \<Rightarrow> commit_id \<Rightarrow> unit vtx" where
  "follow_attached env skey name expected c db =
     (case hget (vd_heads db) skey of
        Some r \<Rightarrow>
          (if hr_commit r = expected \<and> hr_attached r = Some (branch_str name)
           then if hhas (vd_commits db) c
                then Inr ((), db\<lparr>vd_heads := hput skey (r\<lparr>hr_commit := c\<rparr>) (vd_heads db)\<rparr>)
                else Inl (sql_failure env ''update head'')
           else Inr ((), db))
      | None \<Rightarrow> Inr ((), db))"

definition pick_body ::
    "('x) sqlite_env_scheme \<Rightarrow> string \<Rightarrow> commit \<Rightarrow> delta_row list \<Rightarrow> branch_name option \<Rightarrow> commit_id
     \<Rightarrow> commit_id vtx" where
  "pick_body env skey k rows onto target =
     tx_then (insert_with_rows env skey k rows) (\<lambda>_.
     tx_then (case onto of
                None \<Rightarrow> (\<lambda>db. Inr ((), db))
              | Some b \<Rightarrow>
                  tx_then (update_branch_head skey b target (c_id k)) (\<lambda>_.
                    follow_attached env skey b target (c_id k)))
       (\<lambda>_ db. Inr (c_id k, db)))"

definition commit_cherry_pick_snapshot ::
    "('x) sqlite_env_scheme \<Rightarrow> version_settings \<Rightarrow> uuid \<Rightarrow> datetime \<Rightarrow> context_uri \<Rightarrow> commit_id
     \<Rightarrow> commit_id \<Rightarrow> branch_name option \<Rightarrow> snapshot \<Rightarrow> commit_id vstore_op" where
  "commit_cherry_pick_snapshot env cfg fresh now scope c target onto final =
     sql_then (reconstruct_snapshot env cfg now target) (\<lambda>before.
     sql_then (sql_ask (\<lambda>db. Inr (load_commit db c))) (\<lambda>src.
       let k = (sql_commit_record env (CommitId fresh) [target] (pick_message env c target onto) now
                  default_commit_meta)
                 \<lparr>c_author := (case src of Some x \<Rightarrow> c_author x | None \<Rightarrow> system_author True)\<rparr>
       in sql_run (pick_body env (scope_key scope) k (diff_snapshots env before final) onto target)))"

definition pick_resolution :: "conflict_strategy \<Rightarrow> conflict_resolution" where
  "pick_resolution strategy = (if strategy = CTheirs then ResolveTheirs else ResolveOurs)"

definition cherry_pick_at_branch ::
    "('x) sqlite_env_scheme \<Rightarrow> version_settings \<Rightarrow> uuid \<Rightarrow> conflict_session_id \<Rightarrow> datetime \<Rightarrow> context_uri
     \<Rightarrow> commit_id \<Rightarrow> commit_id \<Rightarrow> branch_name option \<Rightarrow> conflict_strategy \<Rightarrow> commit_id vstore_op" where
  "cherry_pick_at_branch env cfg fresh sid now scope c target onto strategy =
     sql_then (sql_give (case onto of
                 Some b \<Rightarrow> Inr b | None \<Rightarrow> branch_name_parse (uuid_display env (uuid_of target)))) (\<lambda>name.
     sql_then (build_cherry_pick_session env cfg now sid scope c target name) (\<lambda>session.
       let uris = map (\<lambda>k. u_canonical (ci_uri k)) (cs_conflicts session)
       in if strategy = CFail \<and> cs_conflicts session \<noteq> []
          then sql_give (Inl (MergeConflict (''cherry-pick '' @ uuid_display env (uuid_of c) @ '' onto ''
                 @ uuid_display env (uuid_of target) @ '': '' @ show_nat (length uris)
                 @ '' URI(s) conflicted: '' @ join '', '' uris)))
          else
            sql_then (sql_give (apply_session_resolutions env session
                (map (\<lambda>u. (u, pick_resolution strategy)) uris))) (\<lambda>final.
            commit_cherry_pick_snapshot env cfg fresh now scope c target onto final)))"

definition sql_cherry_pick ::
    "('x) sqlite_env_scheme \<Rightarrow> version_settings \<Rightarrow> uuid \<Rightarrow> conflict_session_id \<Rightarrow> datetime \<Rightarrow> context_uri
     \<Rightarrow> commit_id \<Rightarrow> branch_name \<Rightarrow> conflict_strategy \<Rightarrow> commit_id vstore_op" where
  "sql_cherry_pick env cfg fresh sid now scope c onto strategy =
     sql_then (sql_ask (branch_head_row (scope_key scope) onto)) (\<lambda>target.
     cherry_pick_at_branch env cfg fresh sid now scope c target (Some onto) strategy)"

section \<open>Rebase\<close>

fun halted_at :: "('x) sqlite_env_scheme \<Rightarrow> commit_id \<Rightarrow> version_error \<Rightarrow> version_error" where
  "halted_at env c (MergeConflict msg) =
     MergeConflict (''rebase halted at '' @ uuid_display env (uuid_of c) @ '': '' @ msg)"
| "halted_at env c e = e"

text \<open>The commits are picked one after the other; what was applied stays when one fails. \<open>fresh\<close> gives the
  identities drawn.\<close>

fun pick_all ::
    "('x) sqlite_env_scheme \<Rightarrow> version_settings \<Rightarrow> (nat \<Rightarrow> uuid) \<Rightarrow> (nat \<Rightarrow> conflict_session_id) \<Rightarrow> datetime
     \<Rightarrow> context_uri \<Rightarrow> conflict_strategy \<Rightarrow> nat \<Rightarrow> commit_id list \<Rightarrow> commit_id list \<Rightarrow> commit_id
     \<Rightarrow> (commit_id list \<times> commit_id) vstore_op" where
  "pick_all env cfg fresh sids now scope strategy i [] applied target s = (Inr (applied, target), s)"
| "pick_all env cfg fresh sids now scope strategy i (c # cs) applied target s =
     (case cherry_pick_at_branch env cfg (fresh i) (sids i) now scope c target None strategy s of
        (Inl e, s') \<Rightarrow> (Inl (halted_at env c e), s')
      | (Inr k, s') \<Rightarrow> pick_all env cfg fresh sids now scope strategy (Suc i) cs (applied @ [k]) k s')"

definition sql_rebase ::
    "('x) sqlite_env_scheme \<Rightarrow> version_settings \<Rightarrow> (nat \<Rightarrow> uuid) \<Rightarrow> (nat \<Rightarrow> conflict_session_id) \<Rightarrow> datetime
     \<Rightarrow> context_uri \<Rightarrow> branch_name \<Rightarrow> branch_name \<Rightarrow> conflict_strategy \<Rightarrow> version_sql
     \<Rightarrow> ((version_error + commit_id list) \<times> version_sql) option" where
  "sql_rebase env cfg fresh sids now scope name onto strategy s =
     (let skey = scope_key scope
      in case branch_head_row skey name (vq_db s) of
           Inl e \<Rightarrow> Some (Inl e, s)
         | Inr branch_head \<Rightarrow>
             (case branch_head_row skey onto (vq_db s) of
                Inl e \<Rightarrow> Some (Inl e, s)
              | Inr onto_head \<Rightarrow>
                  map_option (\<lambda>own.
                    sql_then (pick_all env cfg fresh sids now scope strategy 0 own [] onto_head)
                      (\<lambda>(applied, target).
                        sql_run (tx_then (update_branch_head skey name branch_head target)
                          (\<lambda>_ db. Inr (applied, db)))) s)
                    (commits_to_rebase (vq_db s) onto_head [] branch_head)))"

section \<open>Conflict sessions\<close>

definition persist_conflict_session :: "conflict_session \<Rightarrow> version_db \<Rightarrow> version_db" where
  "persist_conflict_session session db =
     db\<lparr>vd_sessions := hput (cs_id session)
          \<lparr>sn_scope = u_canonical (cs_scope session), sn_session = session, sn_status = ''open''\<rparr>
          (vd_sessions db)\<rparr>"

definition persist_if ::
    "version_settings \<Rightarrow> session_persistence \<Rightarrow> conflict_session \<Rightarrow> conflict_session vstore_op" where
  "persist_if cfg p session s =
     (Inr session,
      if should_persist_session cfg p
      then s\<lparr>vq_db := persist_conflict_session session (vq_db s)\<rparr> else s)"

definition show_session_id :: "('x) sqlite_env_scheme \<Rightarrow> conflict_session_id \<Rightarrow> string" where
  "show_session_id env sid = (case sid of ConflictSessionId u \<Rightarrow> uuid_display env u)"

definition mark_conflict_session_status ::
    "('x) sqlite_env_scheme \<Rightarrow> conflict_session_id \<Rightarrow> string \<Rightarrow> unit vstore_op" where
  "mark_conflict_session_status env sid status s =
     (case hget (vd_sessions (vq_db s)) sid of
        Some r \<Rightarrow>
          (if sn_status r = ''open''
           then (Inr (), s\<lparr>vq_db := (vq_db s)\<lparr>vd_sessions :=
                   hput sid (r\<lparr>sn_status := status\<rparr>) (vd_sessions (vq_db s))\<rparr>\<rparr>)
           else (Inl (ConflictSessionUnavailable (show_session_id env sid)), s))
      | None \<Rightarrow> (Inl (ConflictSessionUnavailable (show_session_id env sid)), s))"

definition begin_cherry_pick ::
    "('x) sqlite_env_scheme \<Rightarrow> version_settings \<Rightarrow> conflict_session_id \<Rightarrow> datetime \<Rightarrow> context_uri
     \<Rightarrow> commit_id \<Rightarrow> branch_name \<Rightarrow> session_persistence \<Rightarrow> conflict_session vstore_op" where
  "begin_cherry_pick env cfg sid now scope c onto p =
     sql_then (sql_ask (branch_head_row (scope_key scope) onto)) (\<lambda>target.
     sql_then (build_cherry_pick_session env cfg now sid scope c target onto) (persist_if cfg p))"

definition begin_rebase ::
    "('x) sqlite_env_scheme \<Rightarrow> version_settings \<Rightarrow> conflict_session_id \<Rightarrow> datetime \<Rightarrow> context_uri
     \<Rightarrow> branch_name \<Rightarrow> branch_name \<Rightarrow> session_persistence \<Rightarrow> version_sql
     \<Rightarrow> ((version_error + conflict_session) \<times> version_sql) option" where
  "begin_rebase env cfg sid now scope name onto p s =
     (let skey = scope_key scope
      in case branch_head_row skey name (vq_db s) of
           Inl e \<Rightarrow> Some (Inl e, s)
         | Inr source_head \<Rightarrow>
             (case branch_head_row skey onto (vq_db s) of
                Inl e \<Rightarrow> Some (Inl e, s)
              | Inr target_head \<Rightarrow>
                  map_option (\<lambda>own.
                    case own of
                      [] \<Rightarrow> (Inr \<lparr>cs_id = sid, cs_scope = scope, cs_operation = InteractiveRebase name onto,
                                 cs_base = Some target_head, cs_target = target_head, cs_commits = [],
                                 cs_conflicts = [], cs_clean_snapshot = []\<rparr>, s)
                    | c # _ \<Rightarrow>
                        sql_then (build_cherry_pick_session env cfg now sid scope c target_head name)
                          (\<lambda>session. persist_if cfg p
                             (session\<lparr>cs_operation := InteractiveRebase name onto, cs_commits := own\<rparr>)) s)
                    (commits_to_rebase (vq_db s) target_head [] source_head)))"

definition continue_conflict_session ::
    "('x) sqlite_env_scheme \<Rightarrow> version_settings \<Rightarrow> (nat \<Rightarrow> uuid) \<Rightarrow> (nat \<Rightarrow> conflict_session_id) \<Rightarrow> datetime
     \<Rightarrow> conflict_session \<Rightarrow> conflict_resolution_set \<Rightarrow> commit_id list vstore_op" where
  "continue_conflict_session env cfg fresh sids now session res =
     sql_then (sql_give (apply_session_resolutions env session res)) (\<lambda>final.
       case cs_operation session of
         InteractiveCherryPick c onto \<Rightarrow>
           sql_then (commit_cherry_pick_snapshot env cfg (fresh 0) now (cs_scope session) c
               (cs_target session) (Some onto) final)
             (\<lambda>k. sql_give (Inr [k]))
       | InteractiveRebase name _ \<Rightarrow>
           (case cs_commits session of
              [] \<Rightarrow> sql_give (Inl (ConflictSessionUnavailable (show_session_id env (cs_id session))))
            | c # rest \<Rightarrow>
                sql_then (commit_cherry_pick_snapshot env cfg (fresh 0) now (cs_scope session) c
                    (cs_target session) None final) (\<lambda>k.
                sql_then (pick_all env cfg fresh sids now (cs_scope session) CFail 1 rest [k] k)
                  (\<lambda>(applied, target).
                    sql_run (tx_then (update_branch_head (scope_key (cs_scope session)) name
                          (cs_target session) target)
                      (\<lambda>_ db. Inr (applied, db)))))))"

definition load_conflict_session ::
    "('x) sqlite_env_scheme \<Rightarrow> conflict_session_id \<Rightarrow> version_db \<Rightarrow> version_error + conflict_session" where
  "load_conflict_session env sid db =
     (case hget (vd_sessions db) sid of
        Some r \<Rightarrow>
          (if sn_status r = ''open'' then Inr (sn_session r)
           else Inl (ConflictSessionUnavailable (show_session_id env sid)))
      | None \<Rightarrow> Inl (ConflictSessionUnavailable (show_session_id env sid)))"

definition continue_conflict_session_by_id ::
    "('x) sqlite_env_scheme \<Rightarrow> version_settings \<Rightarrow> (nat \<Rightarrow> uuid) \<Rightarrow> (nat \<Rightarrow> conflict_session_id) \<Rightarrow> datetime
     \<Rightarrow> conflict_session_id \<Rightarrow> conflict_resolution_set \<Rightarrow> commit_id list vstore_op" where
  "continue_conflict_session_by_id env cfg fresh sids now sid res =
     sql_then (sql_ask (load_conflict_session env sid)) (\<lambda>session.
     sql_then (continue_conflict_session env cfg fresh sids now session res) (\<lambda>result.
     sql_then (mark_conflict_session_status env sid ''completed'') (\<lambda>_. sql_give (Inr result))))"

definition abort_conflict_session ::
    "('x) sqlite_env_scheme \<Rightarrow> conflict_session_id \<Rightarrow> unit vstore_op" where
  "abort_conflict_session env sid = mark_conflict_session_status env sid ''aborted''"

section \<open>Analyses\<close>

text \<open>The changes to an address with their commits, in the order of a query that joins both tables.\<close>

definition changes_of :: "string \<Rightarrow> version_db \<Rightarrow> (commit_id \<times> commit_row) list" where
  "changes_of uri db =
     concat (map (\<lambda>((c, u), _).
       if u = uri then (case hget (vd_commits db) c of Some r \<Rightarrow> [(c, r)] | None \<Rightarrow> []) else [])
       (vd_deltas db))"

definition sql_provenance :: "context_uri \<Rightarrow> version_db \<Rightarrow> provenance_graph" where
  "sql_provenance uri db =
     (let rows = sort_key (\<lambda>(_, r). - cr_timestamp r) (changes_of (u_canonical uri) db)
      in \<lparr>pg_root_uri = uri,
          pg_nodes = concat (map (\<lambda>(_, r). cm_provenance (cr_metadata r)) rows),
          pg_depth = length rows\<rparr>)"

definition sql_evolution :: "('x) sqlite_env_scheme \<Rightarrow> context_uri \<Rightarrow> version_db \<Rightarrow> temporal_version list" where
  "sql_evolution env uri db =
     map (\<lambda>(c, r). \<lparr>tv_commit_id = c, tv_timestamp = cr_timestamp r,
                     tv_content_hash = ContentHash (''hash-'' @ uuid_display env (uuid_of c)),
                     tv_valid_from = cr_timestamp r, tv_valid_until = None\<rparr>)
       (sort_key (\<lambda>(_, r). cr_timestamp r) (changes_of (u_canonical uri) db))"

fun parse_branch_rows :: "string list \<Rightarrow> version_error + branch_name list" where
  "parse_branch_rows [] = Inr []"
| "parse_branch_rows (n # ns) =
     (case branch_name_parse n of
        Inl e \<Rightarrow> Inl (VStorage (''invalid persisted branch name: '' @ version_error_display e))
      | Inr b \<Rightarrow> map_sum id (Cons b) (parse_branch_rows ns))"

definition sql_impact ::
    "('x) sqlite_env_scheme \<Rightarrow> commit_id \<Rightarrow> version_db \<Rightarrow> version_error + impact_analysis" where
  "sql_impact env c db =
     (let uris = remdups (map (\<lambda>((_, u), _). u) (filter (\<lambda>((c', _), _). c' = c) (vd_deltas db)));
          names = map (\<lambda>((_, n), _). n) (filter (\<lambda>(_, r). br_head r = c) (vd_branches db))
      in case parse_branch_rows names of
           Inl e \<Rightarrow> Inl e
         | Inr bs \<Rightarrow> Inr \<lparr>ia_commit = c, ia_downstream_uris = parsed_uris (version_env.truncate env) uris,
                         ia_affected_branches = bs\<rparr>)"

end
