(* ===== verification/Sqlite_History.thy ===== *)
theory Sqlite_History
  imports Sqlite_Deltas Sqlite_Sessions
begin

text \<open>
  What a new commit does to the version tables: the rows it adds, the references it needs, and that
  the trees of all older commits stay what they were.
\<close>

section \<open>The rows of a new commit\<close>

fun parent_rows :: "commit_id \<Rightarrow> nat \<Rightarrow> commit_id list \<Rightarrow> parent_row list" where
  "parent_rows c i [] = []"
| "parent_rows c i (p # ps) = \<lparr>pr_commit = c, pr_parent = p, pr_ordinal = i\<rparr> # parent_rows c (Suc i) ps"

definition commit_row_of :: "string \<Rightarrow> commit \<Rightarrow> commit_row" where
  "commit_row_of skey k =
     \<lparr>cr_scope = skey, cr_tree_hash = show_hash (c_tree_hash k), cr_author = c_author k,
      cr_message = c_message k, cr_timestamp = c_timestamp k, cr_metadata = c_metadata k\<rparr>"

definition with_commit :: "string \<Rightarrow> commit \<Rightarrow> delta_row list \<Rightarrow> version_db \<Rightarrow> version_db" where
  "with_commit skey k rows db =
     db\<lparr>vd_commits := hput (c_id k) (commit_row_of skey k) (vd_commits db),
        vd_parents := vd_parents db @ parent_rows (c_id k) 0 (c_parents k),
        vd_deltas := fold (\<lambda>d. hput (c_id k, dr_uri d) d) rows (vd_deltas db)\<rparr>"

lemma insert_parents_result:
  "insert_parents env c i ps db = Inr (u, db') \<Longrightarrow>
   db' = db\<lparr>vd_parents := vd_parents db @ parent_rows c i ps\<rparr>
   \<and> (\<forall>p\<in>set ps. p \<noteq> c \<and> hhas (vd_commits db) p)"
proof (induction env c i ps db rule: insert_parents.induct)
  case (2 env c i p ps db)
  from 2(2) have ok: "\<not> (p = c \<or> \<not> hhas (vd_commits db) p
      \<or> list_ex (\<lambda>r. pr_commit r = c \<and> (pr_parent r = p \<or> pr_ordinal r = i)) (vd_parents db))"
    by (simp split: if_splits)
  with 2(2) have "insert_parents env c (Suc i) ps
       (db\<lparr>vd_parents := vd_parents db @ [\<lparr>pr_commit = c, pr_parent = p, pr_ordinal = i\<rparr>]\<rparr>) = Inr (u, db')"
    by simp
  from 2(1) [OF ok this] ok show ?case by simp
qed simp

lemma insert_deltas_result:
  "insert_deltas env c rows db = Inr (u, db') \<Longrightarrow>
   db' = db\<lparr>vd_deltas := fold (\<lambda>d. hput (c, dr_uri d) d) rows (vd_deltas db)\<rparr>"
proof (induction env c rows db rule: insert_deltas.induct)
  case (2 env c d ds db)
  from 2(2) have ok: "\<not> \<not> hhas (vd_commits db) c" by (simp split: if_splits)
  with 2(2) have "insert_deltas env c ds (db\<lparr>vd_deltas := hput (c, dr_uri d) d (vd_deltas db)\<rparr>) = Inr (u, db')"
    by simp
  from 2(1) [OF ok this] show ?case by simp
qed simp

lemma insert_with_rows_result:
  assumes "insert_with_rows env skey k rows db = Inr (u, db')"
  shows "db' = with_commit skey k rows db" "\<not> hhas (vd_commits db) (c_id k)"
    "\<forall>p\<in>set (c_parents k). p \<noteq> c_id k \<and> hhas (vd_commits db) p"
proof -
  let ?db = "db\<lparr>vd_commits := hput (c_id k) (commit_row_of skey k) (vd_commits db)\<rparr>"
  from assms obtain db1 where new: "\<not> hhas (vd_commits db) (c_id k)"
      and parents: "insert_parents env (c_id k) 0 (c_parents k) ?db = Inr ((), db1)"
      and deltas: "insert_deltas env (c_id k) rows db1 = Inr ((), db')"
    by (auto simp: insert_with_rows_def tx_then_def insert_commit_row_def commit_row_of_def Let_def
        split: if_splits sum.splits)
  note p = insert_parents_result [OF parents]
  then have "db1 = ?db\<lparr>vd_parents := vd_parents db @ parent_rows (c_id k) 0 (c_parents k)\<rparr>" by simp
  with insert_deltas_result [OF deltas] show "db' = with_commit skey k rows db"
    by (simp add: with_commit_def)
  from new show "\<not> hhas (vd_commits db) (c_id k)" .
  from p show "\<forall>p\<in>set (c_parents k). p \<noteq> c_id k \<and> hhas (vd_commits db) p"
    by (auto simp: hhas_def hm_simps)
qed

lemma parent_rows_commit: "r \<in> set (parent_rows c i ps) \<Longrightarrow> pr_commit r = c \<and> pr_parent r \<in> set ps"
  by (induction c i ps rule: parent_rows.induct) auto

lemma parent_rows_sorted:
  "sort_key pr_ordinal (parent_rows c i ps) = parent_rows c i ps
   \<and> (\<forall>r\<in>set (parent_rows c i ps). i \<le> pr_ordinal r)"
proof (induction c i ps rule: parent_rows.induct)
  case (2 c i p ps)
  then have "\<forall>r\<in>set (parent_rows c (Suc i) ps). i \<le> pr_ordinal r" by auto
  with 2 show ?case by (simp add: insort_is_Cons)
qed simp

lemma map_parent_rows: "map pr_parent (parent_rows c i ps) = ps"
  by (induction c i ps rule: parent_rows.induct) auto

section \<open>Older commits are untouched\<close>

text \<open>What the references of the tables guarantee.\<close>

definition deltas_ok :: "version_db \<Rightarrow> bool" where
  "deltas_ok db \<longleftrightarrow> hm_wf (vd_deltas db)
     \<and> (\<forall>c u d. hget (vd_deltas db) (c, u) = Some d \<longrightarrow> hhas (vd_commits db) c \<and> dr_uri d = u)"

text \<open>A commit that can be added: its identity is new, its parents are stored.\<close>

definition addable :: "version_db \<Rightarrow> commit \<Rightarrow> bool" where
  "addable db k \<longleftrightarrow> parents_ok db \<and> deltas_ok db \<and> \<not> hhas (vd_commits db) (c_id k)
     \<and> (\<forall>p\<in>set (c_parents k). hhas (vd_commits db) p)"

lemma commits_with: "hhas (vd_commits (with_commit skey k rows db)) x \<longleftrightarrow> x = c_id k \<or> hhas (vd_commits db) x"
  by (auto simp: with_commit_def hhas_def hm_simps)

lemma no_old_rows: "addable db k \<Longrightarrow> filter (\<lambda>r. pr_commit r = c_id k) (vd_parents db) = []"
  by (auto simp: addable_def parents_ok_def filter_empty_conv)

lemma load_parents_with:
  assumes "addable db k"
  shows "load_parents (with_commit skey k rows db) x = (if x = c_id k then c_parents k else load_parents db x)"
proof (cases "x = c_id k")
  case True
  have "filter (\<lambda>r. pr_commit r = c_id k) (parent_rows (c_id k) 0 ps) = parent_rows (c_id k) 0 ps" for ps
    using parent_rows_commit by (auto simp: filter_id_conv)
  with True show ?thesis
    by (simp add: load_parents_def with_commit_def no_old_rows [OF assms] parent_rows_sorted map_parent_rows)
next
  case False
  then have "filter (\<lambda>r. pr_commit r = x) (parent_rows (c_id k) 0 ps) = []" for ps
    using parent_rows_commit by (force simp: filter_empty_conv)
  with False show ?thesis by (simp add: load_parents_def with_commit_def)
qed

lemma first_parent_with:
  "addable db k \<Longrightarrow> first_parent_row (with_commit skey k rows db) x =
     (if x = c_id k then (case c_parents k of p # _ \<Rightarrow> Some p | [] \<Rightarrow> None) else first_parent_row db x)"
  by (simp add: first_parent_row_def load_parents_with)

lemma edges_with:
  assumes "addable db k"
  shows "parent_edges (with_commit skey k rows db) = parent_edges db \<union> {c_id k} \<times> set (c_parents k)"
proof -
  have "load_parents db (c_id k) = []" using no_old_rows [OF assms] by (simp add: load_parents_def)
  then show ?thesis
    by (auto simp: parentgraph.edges_def load_parents_with [OF assms] split: if_splits)
qed

lemma no_edge_in:
  assumes "addable db k"
  shows "(x, c_id k) \<notin> parent_edges (with_commit skey k rows db)"
proof -
  have "(x, c_id k) \<notin> parent_edges db"
    using assms load_parents_rows by (fastforce simp: parentgraph.edges_def parents_ok_def addable_def)
  with assms show ?thesis by (auto simp: edges_with addable_def)
qed

lemma old_paths:
  assumes "addable db k" "(a, b) \<in> (parent_edges (with_commit skey k rows db))\<^sup>+" "a \<noteq> c_id k"
  shows "(a, b) \<in> (parent_edges db)\<^sup>+"
  using assms(2)
proof (induction rule: trancl_induct)
  case (base y)
  then show ?case using assms by (auto simp: edges_with)
next
  case (step y z)
  have "y \<noteq> c_id k" using step(1) by (metis tranclE no_edge_in [OF assms(1)])
  with step assms(1) show ?case by (auto simp: edges_with intro: trancl_into_trancl)
qed

lemma parents_ok_with:
  assumes "addable db k"
  shows "parents_ok (with_commit skey k rows db)"
proof -
  let ?db = "with_commit skey k rows db"
  have "acyclic (parent_edges ?db)"
  proof (rule acyclicI, rule allI, rule notI)
    fix x assume loop: "(x, x) \<in> (parent_edges ?db)\<^sup>+"
    then have "x \<noteq> c_id k" by (metis tranclE no_edge_in [OF assms])
    with old_paths [OF assms loop] assms show False by (simp add: addable_def parents_ok_def acyclic_def)
  qed
  moreover have "hhas (vd_commits ?db) (pr_commit r) \<and> hhas (vd_commits ?db) (pr_parent r)"
    if "r \<in> set (vd_parents ?db)" for r
  proof -
    from that have "r \<in> set (vd_parents db) \<or> r \<in> set (parent_rows (c_id k) 0 (c_parents k))"
      by (simp add: with_commit_def)
    then show ?thesis
      using assms parent_rows_commit [of r "c_id k" 0 "c_parents k"]
      unfolding commits_with addable_def parents_ok_def by blast
  qed
  ultimately show ?thesis by (simp add: parents_ok_def)
qed

lemma filter_hput_other:
  "c \<noteq> x \<Longrightarrow> filter (\<lambda>((c', _), _). c' = x) (hput (c, u) d m) = filter (\<lambda>((c', _), _). c' = x) m"
  by (induction m) (auto simp: hput_def)

lemma deltas_old:
  assumes "x \<noteq> c_id k"
  shows "load_deltas env (with_commit skey k rows db) x = load_deltas env db x"
proof -
  from assms have "filter (\<lambda>((c', _), _). c' = x) (fold (\<lambda>d. hput (c_id k, dr_uri d) d) ds m) =
      filter (\<lambda>((c', _), _). c' = x) m" for ds :: "delta_row list" and m
    by (induction ds arbitrary: m) (simp_all add: filter_hput_other)
  then show ?thesis by (simp add: load_deltas_def with_commit_def)
qed

lemma first_line_old:
  "addable db k \<Longrightarrow> hhas (vd_commits db) cur \<Longrightarrow>
    first_line (with_commit skey k rows db) chain cur = first_line db chain cur"
proof (induction db chain cur rule: first_line.induct)
  case (1 db chain cur)
  have old: "cur \<noteq> c_id k" using 1(2,3) by (auto simp: addable_def)
  show ?case
  proof (cases "first_parent_row db cur")
    case None
    with old 1(2) show ?thesis by (simp add: first_line.simps [of _ chain cur] first_parent_with)
  next
    case (Some p)
    have "hhas (vd_commits db) p"
      using first_parent_known [OF _ Some] 1(2) by (simp add: addable_def)
    with Some old 1 show ?thesis
      by (simp add: first_line.simps [of _ chain cur] first_parent_with)
  qed
qed

lemma first_line_known:
  "parents_ok db \<Longrightarrow> hhas (vd_commits db) cur \<Longrightarrow> \<forall>x\<in>set chain. hhas (vd_commits db) x \<Longrightarrow>
   \<forall>x\<in>set (first_line db chain cur). hhas (vd_commits db) x"
proof (induction db chain cur rule: first_line.induct)
  case (1 db chain cur)
  show ?case
  proof (cases "first_parent_row db cur")
    case (Some p)
    with 1 first_parent_known [OF 1(2) Some] show ?thesis by (simp add: first_line.simps [of _ chain cur])
  qed (use 1 in \<open>simp add: first_line.simps [of _ chain cur]\<close>)
qed

lemma replay_rows_old:
  "\<forall>x\<in>set cs. x \<noteq> c_id k \<Longrightarrow> replay_rows env (with_commit skey k rows db) cs t = replay_rows env db cs t"
  by (induction cs arbitrary: t) (auto simp: deltas_old split: sum.split)

text \<open>The trees of all older commits stay.\<close>

lemma tree_at_old:
  assumes "addable db k" "hhas (vd_commits db) c"
  shows "tree_at env (with_commit skey k rows db) c = tree_at env db c"
proof -
  have "\<forall>x\<in>set (first_line db [c] c). hhas (vd_commits db) x"
    using assms by (intro first_line_known) (auto simp: addable_def)
  then have "\<forall>x\<in>set (rev (first_line db [c] c)). x \<noteq> c_id k"
    using assms(1) by (auto simp: addable_def)
  then show ?thesis by (simp add: tree_at_def first_line_old [OF assms] replay_rows_old)
qed

section \<open>The tree of the new commit\<close>

lemma filter_hput_new:
  "hget m (c, u) = None \<Longrightarrow>
   filter (\<lambda>((c', _), _). c' = c) (hput (c, u) d m) = filter (\<lambda>((c', _), _). c' = c) m @ [((c, u), d)]"
  by (simp add: hput_new)

lemma filter_fold_new:
  fixes ds :: "delta_row list"
  assumes "distinct (map dr_uri ds)" "\<forall>d\<in>set ds. hget m (c, dr_uri d) = None"
  shows "map snd (filter (\<lambda>((c', _), _). c' = c) (fold (\<lambda>d. hput (c, dr_uri d) d) ds m)) =
    map snd (filter (\<lambda>((c', _), _). c' = c) m) @ ds"
  using assms
proof (induction ds arbitrary: m)
  case (Cons d ds)
  have "\<forall>e\<in>set ds. hget (hput (c, dr_uri d) d m) (c, dr_uri e) = None"
  proof
    fix e assume "e \<in> set ds"
    moreover from Cons(2) have "dr_uri d \<notin> dr_uri ` set ds" by simp
    ultimately have "dr_uri e \<noteq> dr_uri d" by (metis imageI)
    with \<open>e \<in> set ds\<close> Cons(3) show "hget (hput (c, dr_uri d) d m) (c, dr_uri e) = None"
      by (simp add: hm_simps)
  qed
  with Cons show ?case by (simp add: filter_hput_new)
qed simp

lemma deltas_new:
  assumes "addable db k" "distinct (map dr_uri rows)"
  shows "load_deltas env (with_commit skey k rows db) (c_id k) = scan_rows env rows"
proof -
  have none: "hget (vd_deltas db) (c_id k, u) = None" for u
    using assms(1) by (cases "hget (vd_deltas db) (c_id k, u)") (auto simp: addable_def deltas_ok_def)
  have "filter (\<lambda>((c', _), _). c' = c_id k) (vd_deltas db) = []"
  proof (rule filter_False, clarify)
    fix u d assume "((c_id k, u), d) \<in> set (vd_deltas db)"
    with none [of u] assms(1) show False
      by (auto simp: addable_def deltas_ok_def hget_eq_Some_iff [symmetric])
  qed
  with filter_fold_new [OF assms(2), of "vd_deltas db" "c_id k"] none show ?thesis
    by (simp add: load_deltas_def with_commit_def)
qed

lemma tree_at_new:
  assumes "addable db k" "distinct (map dr_uri rows)"
  shows "tree_at env (with_commit skey k rows db) (c_id k) =
    (case c_parents k of
       [] \<Rightarrow> tree_rows env (scan_rows env rows) Map.empty
     | p # _ \<Rightarrow> (case tree_at env db p of Inl e \<Rightarrow> Inl e | Inr t \<Rightarrow> tree_rows env (scan_rows env rows) t))"
proof (cases "c_parents k")
  case Nil
  then show ?thesis
    using tree_at_root [of "with_commit skey k rows db" "c_id k" env]
    by (simp add: first_parent_with [OF assms(1)] deltas_new [OF assms])
next
  case (Cons p ps)
  have acyc: "acyclic (parent_edges (with_commit skey k rows db))"
    using parents_ok_with [OF assms(1)] by (simp add: parents_ok_def)
  have first: "first_parent_row (with_commit skey k rows db) (c_id k) = Some p"
    by (simp add: first_parent_with [OF assms(1)] Cons)
  have "hhas (vd_commits db) p" using assms(1) Cons by (simp add: addable_def)
  then show ?thesis
    by (simp add: tree_at_step [OF acyc first] tree_at_old [OF assms(1)] Cons deltas_new [OF assms]
        cong: sum.case_cong)
qed

lemma fold_put_rows:
  fixes ds :: "delta_row list"
  shows "hget (fold (\<lambda>d. hput (c, dr_uri d) d) ds m) (c', u) = Some d \<Longrightarrow>
    hget m (c', u) = Some d \<or> (c' = c \<and> dr_uri d = u)"
proof (induction ds arbitrary: m)
  case (Cons e ds)
  from Cons(1) [of "hput (c, dr_uri e) e m"] Cons(2) show ?case
    by (auto simp: hm_simps split: if_splits)
qed simp

lemma fold_put_wf:
  fixes ds :: "delta_row list"
  shows "hm_wf m \<Longrightarrow> hm_wf (fold (\<lambda>d. hput (c, dr_uri d) d) ds m)"
  by (induction ds arbitrary: m) (simp_all add: hm_simps)

lemma deltas_ok_with:
  assumes "deltas_ok db"
  shows "deltas_ok (with_commit skey k rows db)"
proof -
  have "vd_deltas (with_commit skey k rows db) = fold (\<lambda>d. hput (c_id k, dr_uri d) d) rows (vd_deltas db)"
    by (simp add: with_commit_def)
  with assms fold_put_wf [of "vd_deltas db" "c_id k" rows]
    fold_put_rows [of "c_id k" rows "vd_deltas db"]
  show ?thesis unfolding deltas_ok_def commits_with by (metis (no_types, lifting))
qed

end
