(* ===== verification/Sqlite_Refs.thy ===== *)
theory Sqlite_Refs
  imports Sqlite_History
begin

text \<open>
  References between the version tables: parents, change rows, heads, branches and tags name stored
  commits, of their own scope, and heads are attached to existing branches. Each statement that
  writes keeps this, then each transaction body.
\<close>

section \<open>The invariant\<close>

definition commit_in_scope :: "version_db \<Rightarrow> string \<Rightarrow> commit_id \<Rightarrow> bool" where
  "commit_in_scope db skey c \<longleftrightarrow> (\<exists>r. hget (vd_commits db) c = Some r \<and> cr_scope r = skey)"

definition heads_ok :: "version_db \<Rightarrow> bool" where
  "heads_ok db \<longleftrightarrow> (\<forall>skey r. hget (vd_heads db) skey = Some r \<longrightarrow>
     commit_in_scope db skey (hr_commit r)
     \<and> (\<forall>n. hr_attached r = Some n \<longrightarrow> hhas (vd_branches db) (skey, n)))"

definition branches_ok :: "version_db \<Rightarrow> bool" where
  "branches_ok db \<longleftrightarrow>
     (\<forall>skey n r. hget (vd_branches db) (skey, n) = Some r \<longrightarrow> commit_in_scope db skey (br_head r))"

definition tags_ok :: "version_db \<Rightarrow> bool" where
  "tags_ok db \<longleftrightarrow>
     (\<forall>skey n r. hget (vd_tags db) (skey, n) = Some r \<longrightarrow> commit_in_scope db skey (tr_target r))"

definition version_ok :: "version_db \<Rightarrow> bool" where
  "version_ok db \<longleftrightarrow> parents_ok db \<and> deltas_ok db \<and> heads_ok db \<and> branches_ok db \<and> tags_ok db
     \<and> hm_wf (vd_commits db) \<and> hm_wf (vd_branches db) \<and> hm_wf (vd_tags db) \<and> hm_wf (vd_heads db)"

lemma commit_in_scope_known: "commit_in_scope db skey c \<Longrightarrow> hhas (vd_commits db) c"
  by (auto simp: commit_in_scope_def hhas_def)

lemma head_in_scope:
  "version_ok db \<Longrightarrow> sql_get_head db skey = Some c \<Longrightarrow> commit_in_scope db skey c"
  by (auto simp: version_ok_def heads_ok_def sql_get_head_def)

lemma branch_in_scope:
  "version_ok db \<Longrightarrow> branch_head_row skey name db = Inr c \<Longrightarrow> commit_in_scope db skey c"
  by (auto simp: version_ok_def branches_ok_def branch_head_row_def get_branch_def branch_from_row_def
      split: option.splits sum.splits)

lemma scope_required: "require_commit_scope env c skey db = Inr u \<longleftrightarrow> commit_in_scope db skey c"
  by (auto simp: require_commit_scope_def commit_in_scope_def split: option.splits if_splits)

text \<open>Trees and parents depend on the parent and change rows only.\<close>

lemma first_parent_cong: "vd_parents db' = vd_parents db \<Longrightarrow> first_parent_row db' = first_parent_row db"
  by (rule ext) (simp add: first_parent_row_def load_parents_def)

lemma load_deltas_cong: "vd_deltas db' = vd_deltas db \<Longrightarrow> load_deltas env db' = load_deltas env db"
  by (rule ext) (simp add: load_deltas_def)

lemma first_line_cong:
  "vd_parents db' = vd_parents db \<Longrightarrow> first_line db' chain cur = first_line db chain cur"
proof (induction db chain cur rule: first_line.induct)
  case (1 db chain cur)
  note same = first_parent_cong [OF 1(2)]
  show ?case
  proof (cases "first_parent_row db cur")
    case (Some p)
    with 1 show ?thesis by (simp add: first_line.simps [of _ chain cur] same)
  qed (simp add: first_line.simps [of _ chain cur] same)
qed

lemma replay_rows_cong:
  assumes "vd_deltas db' = vd_deltas db"
  shows "replay_rows env db' cs t = replay_rows env db cs t"
  by (induction cs arbitrary: t) (simp_all add: load_deltas_cong [OF assms] cong: sum.case_cong)

lemma tree_at_cong:
  assumes "vd_parents db' = vd_parents db" "vd_deltas db' = vd_deltas db"
  shows "tree_at env db' = tree_at env db"
  by (rule ext) (simp add: tree_at_def first_line_cong [OF assms(1)] replay_rows_cong [OF assms(2)])

lemma parents_ok_cong:
  assumes "vd_parents db' = vd_parents db" "vd_commits db' = vd_commits db"
  shows "parents_ok db' = parents_ok db"
proof -
  have "load_parents db' = load_parents db" using assms(1) by (intro ext) (simp add: load_parents_def)
  with assms show ?thesis by (simp add: parents_ok_def)
qed

lemma deltas_ok_cong:
  "vd_deltas db' = vd_deltas db \<Longrightarrow> vd_commits db' = vd_commits db \<Longrightarrow> deltas_ok db' = deltas_ok db"
  by (simp add: deltas_ok_def)

lemma commit_in_scope_cong: "vd_commits db' = vd_commits db \<Longrightarrow> commit_in_scope db' = commit_in_scope db"
  by (intro ext) (simp add: commit_in_scope_def)

lemmas version_ok_defs = version_ok_def heads_ok_def branches_ok_def tags_ok_def

lemma version_ok_frame:
  assumes "vd_parents db' = vd_parents db" "vd_commits db' = vd_commits db" "vd_deltas db' = vd_deltas db"
  shows "version_ok db' \<longleftrightarrow> parents_ok db \<and> deltas_ok db \<and> heads_ok db' \<and> branches_ok db' \<and> tags_ok db'
     \<and> hm_wf (vd_commits db) \<and> hm_wf (vd_branches db') \<and> hm_wf (vd_tags db') \<and> hm_wf (vd_heads db')"
  unfolding version_ok_def parents_ok_cong [OF assms(1,2)] deltas_ok_cong [OF assms(3,2)] assms(2) ..

lemma version_ok_same:
  assumes "same_commits db db'"
  shows "version_ok db' = version_ok db"
proof -
  obtain cps where db': "db' = db\<lparr>vd_checkpoints := cps\<rparr>" using assms by (auto simp: same_commits_def)
  have "commit_in_scope db' = commit_in_scope db" by (rule commit_in_scope_cong) (simp add: db')
  then have "heads_ok db' = heads_ok db" "branches_ok db' = branches_ok db" "tags_ok db' = tags_ok db"
    by (simp_all add: heads_ok_def branches_ok_def tags_ok_def) (simp_all add: db')
  with version_ok_frame [of db' db] show ?thesis by (simp add: db' version_ok_def)
qed

section \<open>Statements\<close>

lemma with_commit_frame [simp]:
  "vd_heads (with_commit skey k rows db) = vd_heads db"
  "vd_branches (with_commit skey k rows db) = vd_branches db"
  "vd_tags (with_commit skey k rows db) = vd_tags db"
  "vd_checkpoints (with_commit skey k rows db) = vd_checkpoints db"
  "vd_sessions (with_commit skey k rows db) = vd_sessions db"
  by (simp_all add: with_commit_def)

lemma commit_in_scope_with:
  "\<not> hhas (vd_commits db) (c_id k) \<Longrightarrow>
   commit_in_scope (with_commit skey k rows db) sk c \<longleftrightarrow> (c = c_id k \<and> sk = skey) \<or> commit_in_scope db sk c"
  by (auto simp: commit_in_scope_def with_commit_def hm_simps commit_row_of_def hhas_def)

lemma version_addable:
  assumes "version_ok db" "insert_with_rows env skey k rows db = Inr (u, db')"
  shows "addable db k"
  using assms insert_with_rows_result [OF assms(2)] by (auto simp: addable_def version_ok_def)

lemma insert_keeps:
  assumes "version_ok db" "insert_with_rows env skey k rows db = Inr (u, db')"
  shows "version_ok db'" "commit_in_scope db' skey (c_id k)" "commit_in_scope db sk c \<Longrightarrow> commit_in_scope db' sk c"
proof -
  note add = version_addable [OF assms]
  note db' = insert_with_rows_result(1) [OF assms(2)]
  have new: "\<not> hhas (vd_commits db) (c_id k)" using add by (simp add: addable_def)
  note scope = commit_in_scope_with [OF new, of skey rows]
  show "commit_in_scope db' skey (c_id k)" by (simp add: db' scope)
  show "commit_in_scope db sk c \<Longrightarrow> commit_in_scope db' sk c" by (simp add: db' scope)
  have "hm_wf (vd_commits db')" using assms(1) by (simp add: db' with_commit_def version_ok_def hm_simps)
  then show "version_ok db'"
    using assms(1) parents_ok_with [OF add] deltas_ok_with
    by (auto simp: version_ok_def db' heads_ok_def branches_ok_def tags_ok_def scope)
qed

lemma put_branch_keeps:
  assumes "version_ok db" "commit_in_scope db skey (br_head r)"
  shows "version_ok (db\<lparr>vd_branches := hput (skey, n) r (vd_branches db)\<rparr>)"
proof -
  let ?db = "db\<lparr>vd_branches := hput (skey, n) r (vd_branches db)\<rparr>"
  have scope: "commit_in_scope ?db = commit_in_scope db" by (rule commit_in_scope_cong) simp
  have "heads_ok ?db" "branches_ok ?db" "tags_ok ?db"
    using assms by (auto simp: version_ok_defs scope hm_simps hhas_def split: if_splits)
  then show ?thesis
    using version_ok_frame [of ?db db] assms(1) by (simp add: version_ok_def hm_simps)
qed

lemma put_head_keeps:
  assumes "version_ok db" "commit_in_scope db skey (hr_commit r)"
    and "\<forall>n. hr_attached r = Some n \<longrightarrow> hhas (vd_branches db) (skey, n)"
  shows "version_ok (db\<lparr>vd_heads := hput skey r (vd_heads db)\<rparr>)"
proof -
  let ?db = "db\<lparr>vd_heads := hput skey r (vd_heads db)\<rparr>"
  have scope: "commit_in_scope ?db = commit_in_scope db" by (rule commit_in_scope_cong) simp
  have "heads_ok ?db" "branches_ok ?db" "tags_ok ?db"
    using assms by (auto simp: version_ok_defs scope hm_simps split: if_splits)
  then show ?thesis
    using version_ok_frame [of ?db db] assms(1) by (simp add: version_ok_def hm_simps)
qed

lemma put_tag_keeps:
  assumes "version_ok db" "commit_in_scope db skey (tr_target r)"
  shows "version_ok (db\<lparr>vd_tags := hput (skey, n) r (vd_tags db)\<rparr>)"
proof -
  let ?db = "db\<lparr>vd_tags := hput (skey, n) r (vd_tags db)\<rparr>"
  have scope: "commit_in_scope ?db = commit_in_scope db" by (rule commit_in_scope_cong) simp
  have "heads_ok ?db" "branches_ok ?db" "tags_ok ?db"
    using assms by (auto simp: version_ok_defs scope hm_simps split: if_splits)
  then show ?thesis
    using version_ok_frame [of ?db db] assms(1) by (simp add: version_ok_def hm_simps)
qed

lemma drop_branch_keeps:
  assumes "version_ok db" "Option.bind (hget (vd_heads db) skey) hr_attached \<noteq> Some n"
  shows "version_ok (db\<lparr>vd_branches := hdel (skey, n) (vd_branches db)\<rparr>)"
proof -
  let ?db = "db\<lparr>vd_branches := hdel (skey, n) (vd_branches db)\<rparr>"
  have scope: "commit_in_scope ?db = commit_in_scope db" by (rule commit_in_scope_cong) simp
  have "heads_ok ?db" "branches_ok ?db" "tags_ok ?db"
    using assms by (auto simp: version_ok_defs scope hm_simps hhas_def split: if_splits)
  then show ?thesis
    using version_ok_frame [of ?db db] assms(1) by (simp add: version_ok_def hm_simps)
qed

lemma sessions_keep: "version_ok (db\<lparr>vd_sessions := x\<rparr>) = version_ok db"
proof -
  let ?db = "db\<lparr>vd_sessions := x\<rparr>"
  have scope: "commit_in_scope ?db = commit_in_scope db" by (rule commit_in_scope_cong) simp
  have "heads_ok ?db = heads_ok db" "branches_ok ?db = branches_ok db" "tags_ok ?db = tags_ok db"
    by (simp_all add: heads_ok_def branches_ok_def tags_ok_def scope)
  then show ?thesis using version_ok_frame [of ?db db] by (simp add: version_ok_def)
qed

section \<open>Moving branches and heads\<close>

lemma move_branch_row_keeps:
  assumes "version_ok db" "commit_in_scope db skey c" "move_branch_row skey n expected c db = Some db'"
  shows "version_ok db'" "vd_commits db' = vd_commits db" "vd_heads db' = vd_heads db"
    "hhas (vd_branches db') k = hhas (vd_branches db) k"
  using assms put_branch_keeps [OF assms(1), of skey]
  by (auto simp: move_branch_row_def hhas_def hm_simps split: option.splits if_splits)

lemma update_branch_head_keeps:
  assumes "version_ok db" "commit_in_scope db skey c" "update_branch_head skey name expected c db = Inr (u, db')"
  shows "version_ok db'" "vd_commits db' = vd_commits db" "vd_heads db' = vd_heads db"
    "hhas (vd_branches db') k = hhas (vd_branches db) k"
  using assms move_branch_row_keeps [OF assms(1,2)]
  by (auto simp: update_branch_head_def split: option.splits)

lemma advance_head_keeps:
  assumes "version_ok db" "commit_in_scope db skey c" "advance_head_if_matches env skey expected c db = Inr (m, db')"
  shows "version_ok db'"
proof -
  from assms(3) consider "db' = db"
    | r where "hget (vd_heads db) skey = Some r"
        "db' = db\<lparr>vd_heads := hput skey (r\<lparr>hr_commit := c\<rparr>) (vd_heads db)\<rparr>"
    by (auto simp: advance_head_if_matches_def split: option.splits if_splits)
  then show ?thesis
  proof cases
    case (2 r)
    with assms put_head_keeps [OF assms(1), of skey "r\<lparr>hr_commit := c\<rparr>"] show ?thesis
      by (simp add: version_ok_def heads_ok_def)
  qed (use assms in simp)
qed

end
