(* ===== verification/Sqlite_Operations.thy ===== *)
theory Sqlite_Operations
  imports Sqlite_Refs
begin

text \<open>
  Every operation of the SQLite commit store keeps the references between its tables: rules for
  the steps an operation is composed of, each operation by these rules, and all histories.
\<close>

section \<open>Reading changes no commits\<close>

lemma cache_put_same [simp]: "same_commits (vq_db s) (vq_db (cache_put_snapshot env c snap s))"
  by simp

lemma walk_line_same:
  "walk_line env now chain cur s = (chain', seeded, s') \<Longrightarrow> same_commits (vq_db s) (vq_db s')"
proof (induction env now chain cur s arbitrary: chain' seeded s' rule: walk_line.induct)
  case (1 env now chain cur s)
  show ?case
  proof (cases "first_parent_row (vq_db s) cur")
    case None
    with 1(2) show ?thesis by (simp add: walk_line.simps [of env])
  next
    case (Some p)
    consider "p \<in> set chain" | snap where "p \<notin> set chain" "cache_get_snapshot env p s = Some snap"
      | r where "p \<notin> set chain" "cache_get_snapshot env p s = None" "hget (vd_checkpoints (vq_db s)) p = Some r"
      | "p \<notin> set chain" "cache_get_snapshot env p s = None" "hget (vd_checkpoints (vq_db s)) p = None"
      by (cases "cache_get_snapshot env p s"; cases "hget (vd_checkpoints (vq_db s)) p") auto
    then show ?thesis
    proof cases
      case 1
      with Some \<open>walk_line _ _ _ _ _ = _\<close> show ?thesis by (simp add: walk_line.simps [of env])
    next
      case (2 snap)
      with Some \<open>walk_line _ _ _ _ _ = _\<close> show ?thesis by (simp add: walk_line.simps [of env])
    next
      case (3 r)
      with Some \<open>walk_line _ _ _ _ _ = _\<close> show ?thesis
        by (auto simp: walk_line.simps [of env] checkpoint_get_def checkpoint_touch_same)
    next
      case 4
      then have miss: "(None, s) = checkpoint_get now p s" by (simp add: checkpoint_get_def)
      have "walk_line env now (chain @ [p]) p s = (chain', seeded, s')"
        using 4 Some \<open>walk_line _ _ _ _ _ = _\<close>
        by (simp add: walk_line.simps [of env _ _ cur] checkpoint_get_def)
      from 1(1) [OF Some 4(1,2) miss refl this] show ?thesis .
    qed
  qed
qed

lemma reconstruct_same: "same_commits (vq_db s) (vq_db (snd (reconstruct_snapshot env cfg now c s)))"
proof -
  consider snap where "cache_get_snapshot env c s = Some snap"
    | r where "cache_get_snapshot env c s = None" "hget (vd_checkpoints (vq_db s)) c = Some r"
    | "cache_get_snapshot env c s = None" "hget (vd_checkpoints (vq_db s)) c = None"
    by (cases "cache_get_snapshot env c s"; cases "hget (vd_checkpoints (vq_db s)) c") auto
  then show ?thesis
  proof cases
    case 3
    obtain chain seeded s2 where walk: "walk_line env now [c] c s = (chain, seeded, s2)"
      by (metis prod_cases3)
    with 3 walk_line_same [OF walk] show ?thesis
      by (simp add: reconstruct_snapshot_def checkpoint_get_def checkpoint_put_none Let_def split: sum.split)
  qed (simp_all add: reconstruct_snapshot_def checkpoint_get_def checkpoint_touch_same)
qed

section \<open>Rules for operations\<close>

definition vspec ::
    "(version_db \<Rightarrow> bool) \<Rightarrow> 'a vstore_op \<Rightarrow> ('a \<Rightarrow> version_db \<Rightarrow> bool) \<Rightarrow> bool" where
  "vspec P m Q \<longleftrightarrow> (\<forall>s r s'. version_ok (vq_db s) \<longrightarrow> P (vq_db s) \<longrightarrow> m s = (r, s') \<longrightarrow>
     version_ok (vq_db s') \<and> (\<forall>x. r = Inr x \<longrightarrow> Q x (vq_db s')))"

definition stable :: "(version_db \<Rightarrow> bool) \<Rightarrow> bool" where
  "stable P \<longleftrightarrow> (\<forall>db db'. same_commits db db' \<longrightarrow> P db' = P db)"

named_theorems vspec_rules \<open>rules for the steps of an operation\<close>

lemma vspecI:
  "(\<And>s r s'. version_ok (vq_db s) \<Longrightarrow> P (vq_db s) \<Longrightarrow> m s = (r, s') \<Longrightarrow>
     version_ok (vq_db s') \<and> (\<forall>x. r = Inr x \<longrightarrow> Q x (vq_db s'))) \<Longrightarrow> vspec P m Q"
  by (simp add: vspec_def)

lemma vspecD:
  "vspec P m Q \<Longrightarrow> version_ok (vq_db s) \<Longrightarrow> P (vq_db s) \<Longrightarrow> m s = (r, s') \<Longrightarrow>
     version_ok (vq_db s') \<and> (\<forall>x. r = Inr x \<longrightarrow> Q x (vq_db s'))"
  by (simp add: vspec_def)

lemma vspec_then:
  assumes "vspec P m R" "\<And>x. vspec (R x) (f x) Q"
  shows "vspec P (sql_then m f) Q"
proof (rule vspecI)
  fix s r s' assume ok: "version_ok (vq_db s)" "P (vq_db s)" and run: "sql_then m f s = (r, s')"
  obtain r1 s1 where m: "m s = (r1, s1)" by force
  note first = vspecD [OF assms(1) ok m]
  show "version_ok (vq_db s') \<and> (\<forall>x. r = Inr x \<longrightarrow> Q x (vq_db s'))"
  proof (cases r1)
    case (Inl e)
    with run m first show ?thesis by (auto simp: sql_then_def)
  next
    case (Inr x)
    with run m have "f x s1 = (r, s')" by (simp add: sql_then_def)
    with Inr first vspecD [OF assms(2) [of x]] show ?thesis by blast
  qed
qed

lemma vspec_ask:
  "(\<And>db x. version_ok db \<Longrightarrow> P db \<Longrightarrow> f db = Inr x \<Longrightarrow> Q x db) \<Longrightarrow> vspec P (sql_ask f) Q"
  by (auto simp: vspec_def sql_ask_def)

lemma vspec_give:
  "(\<And>db x. P db \<Longrightarrow> r = Inr x \<Longrightarrow> Q x db) \<Longrightarrow> vspec P (sql_give r) Q"
  by (auto simp: vspec_def sql_give_def)

lemma vspec_run:
  assumes "\<And>db x db'. version_ok db \<Longrightarrow> P db \<Longrightarrow> body db = Inr (x, db') \<Longrightarrow> version_ok db' \<and> Q x db'"
  shows "vspec P (sql_run body) Q"
proof (rule vspecI)
  fix s r s' assume ok: "version_ok (vq_db s)" "P (vq_db s)" and run: "sql_run body s = (r, s')"
  show "version_ok (vq_db s') \<and> (\<forall>x. r = Inr x \<longrightarrow> Q x (vq_db s'))"
  proof (cases "body (vq_db s)")
    case (Inl e)
    with run ok show ?thesis by (auto simp: sql_run_def version_tx_def)
  next
    case (Inr y)
    obtain x db' where y: "y = (x, db')" by force
    with Inr assms [OF ok] run show ?thesis by (auto simp: sql_run_def version_tx_def)
  qed
qed

lemma vspec_weaken:
  "vspec P m R \<Longrightarrow> (\<And>db. P' db \<Longrightarrow> P db) \<Longrightarrow> (\<And>x db. R x db \<Longrightarrow> Q x db) \<Longrightarrow> vspec P' m Q"
  by (fastforce simp: vspec_def)

lemma vspec_snapshot:
  assumes "stable P"
  shows "vspec P (reconstruct_snapshot env cfg now c) (\<lambda>_. P)"
proof (rule vspecI)
  fix s r s' assume ok: "version_ok (vq_db s)" "P (vq_db s)"
    and run: "reconstruct_snapshot env cfg now c s = (r, s')"
  have "same_commits (vq_db s) (vq_db s')" using reconstruct_same [of s env cfg now c] run by simp
  with ok assms version_ok_same show "version_ok (vq_db s') \<and> (\<forall>x. r = Inr x \<longrightarrow> P (vq_db s'))"
    by (auto simp: stable_def)
qed

lemma vspec_snapshot_or_empty:
  "stable P \<Longrightarrow> vspec P (snapshot_or_empty env cfg now c) (\<lambda>_. P)"
  by (cases c) (auto simp: snapshot_or_empty_def intro: vspec_snapshot vspec_give)

text \<open>Commits known in a scope stay known while nothing but checkpoints changes.\<close>

definition knows :: "string \<Rightarrow> commit_id list \<Rightarrow> version_db \<Rightarrow> bool" where
  "knows skey cs db \<longleftrightarrow> (\<forall>c\<in>set cs. commit_in_scope db skey c)"

lemma stable_knows: "stable (knows skey cs)"
  by (auto simp: stable_def knows_def same_commits_def commit_in_scope_def)

lemma knows_Nil [simp]: "knows skey [] db"
  by (simp add: knows_def)

lemmas vspec_reads = vspec_snapshot [OF stable_knows] vspec_snapshot_or_empty [OF stable_knows]

section \<open>Transaction bodies\<close>

lemma tx_then_Inr:
  "tx_then m f db = Inr (x, db') \<longleftrightarrow> (\<exists>y db1. m db = Inr (y, db1) \<and> f y db1 = Inr (x, db'))"
  by (auto simp: tx_then_def split: sum.split)

lemma update_branch_head_scope:
  assumes "version_ok db" "commit_in_scope db skey c" "update_branch_head skey name expected c db = Inr (u, db')"
  shows "version_ok db' \<and> commit_in_scope db' skey c"
  using update_branch_head_keeps [OF assms] assms(2) by (simp add: commit_in_scope_def)

lemma move_branch_and_head_keeps:
  assumes "version_ok db" "commit_in_scope db skey c"
    and "move_branch_and_head env what skey name expected c db = Inr (u, db')"
  shows "version_ok db'"
proof -
  from assms(3) obtain db1 m where branch: "update_branch_head skey name expected c db = Inr ((), db1)"
    and head: "advance_head_if_matches env skey expected c db1 = Inr (m, db')"
    by (auto simp: move_branch_and_head_def tx_then_Inr split: if_splits)
  note one = update_branch_head_scope [OF assms(1,2) branch]
  from advance_head_keeps [OF _ _ head] one show ?thesis by blast
qed

lemma commit_body_keeps:
  assumes "version_ok db" "commit_body env skey par k rows db = Inr (c, db')"
  shows "version_ok db' \<and> c = c_id k"
proof -
  let ?att = "Option.bind (hget (vd_heads db) skey) hr_attached"
  from assms(2) obtain db1 where ins: "insert_with_rows env skey k rows db = Inr ((), db1)"
    and head: "point_head env skey par ?att (c_id k) db1 = Inr ((), db')" and c: "c = c_id k"
    by (auto simp: commit_body_def tx_then_Inr Let_def split: if_splits)
  note k = insert_keeps [OF assms(1) ins]
  have "version_ok db'"
  proof (cases par)
    case None
    with head have "db' = db1\<lparr>vd_heads := hput skey \<lparr>hr_commit = c_id k, hr_attached = None\<rparr> (vd_heads db1)\<rparr>"
      by (simp add: point_head_def)
    with put_head_keeps [OF k(1), of skey "\<lparr>hr_commit = c_id k, hr_attached = None\<rparr>"] k(2)
    show ?thesis by simp
  next
    case (Some p)
    with head obtain db2 m where att: "move_attached env skey ?att p (c_id k) db1 = Inr ((), db2)"
      and adv: "advance_head_if_matches env skey p (c_id k) db2 = Inr (m, db')"
      by (auto simp: point_head_def update_head_in_tx_def tx_then_Inr split: if_splits)
    have "version_ok db2 \<and> commit_in_scope db2 skey (c_id k)"
      using att k move_branch_row_keeps [OF k(1,2)]
      by (auto simp: move_attached_def commit_in_scope_def split: option.splits)
    with advance_head_keeps [OF _ _ adv] show ?thesis by blast
  qed
  with c show ?thesis by simp
qed

lemma hget_retarget_rows:
  "hget (retarget_rows skey old new bs) (sc, n) =
     map_option (\<lambda>r. if sc = skey \<and> br_head r = old then r\<lparr>br_head := new\<rparr> else r) (hget bs (sc, n))"
  by (induction bs) (auto simp: retarget_rows_def hget_def)

lemma retarget_wf: "hm_wf bs \<Longrightarrow> hm_wf (retarget_rows skey old new bs)"
  by (simp add: hm_wf_def retarget_rows_def case_prod_unfold comp_def)

lemma retarget_keeps:
  assumes "version_ok db" "commit_in_scope db skey new"
  shows "version_ok (db\<lparr>vd_branches := retarget_rows skey old new (vd_branches db)\<rparr>)"
proof -
  let ?db = "db\<lparr>vd_branches := retarget_rows skey old new (vd_branches db)\<rparr>"
  have scope: "commit_in_scope ?db = commit_in_scope db" by (rule commit_in_scope_cong) simp
  have "heads_ok ?db" "branches_ok ?db" "tags_ok ?db"
    using assms by (auto simp: version_ok_defs scope hget_retarget_rows hhas_def split: if_splits)
  then show ?thesis
    using version_ok_frame [of ?db db] assms(1) by (simp add: version_ok_def retarget_wf)
qed

lemma squash_body_keeps:
  assumes "version_ok db" "squash_body env skey k rows newest db = Inr (u, db')"
  shows "version_ok db'"
proof -
  from assms(2) obtain db1 m where ins: "insert_with_rows env skey k rows db = Inr ((), db1)"
    and head: "advance_head_if_matches env skey newest (c_id k)
      (db1\<lparr>vd_branches := retarget_rows skey newest (c_id k) (vd_branches db1)\<rparr>) = Inr (m, db')"
    by (auto simp: squash_body_def tx_then_Inr split: if_splits)
  note k = insert_keeps [OF assms(1) ins]
  show ?thesis
    using advance_head_keeps [OF retarget_keeps [OF k(1,2)] _ head] k(2)
    by (simp add: commit_in_scope_def)
qed

lemma follow_attached_keeps:
  assumes "version_ok db" "commit_in_scope db skey c" "follow_attached env skey name expected c db = Inr (u, db')"
  shows "version_ok db' \<and> commit_in_scope db' skey c"
proof -
  from assms(3) consider "db' = db"
    | r where "hget (vd_heads db) skey = Some r" "db' = db\<lparr>vd_heads := hput skey (r\<lparr>hr_commit := c\<rparr>) (vd_heads db)\<rparr>"
    by (auto simp: follow_attached_def split: option.splits if_splits)
  then show ?thesis
  proof cases
    case (2 r)
    with assms put_head_keeps [OF assms(1), of skey "r\<lparr>hr_commit := c\<rparr>"] show ?thesis
      by (simp add: version_ok_def heads_ok_def commit_in_scope_def)
  qed (use assms in simp)
qed

lemma pick_body_keeps:
  assumes "version_ok db" "pick_body env skey k rows onto target db = Inr (c, db')"
  shows "version_ok db' \<and> c = c_id k \<and> commit_in_scope db' skey c"
proof -
  from assms(2) obtain db1 where ins: "insert_with_rows env skey k rows db = Inr ((), db1)" and c: "c = c_id k"
    and move: "(case onto of None \<Rightarrow> (\<lambda>db. Inr ((), db))
      | Some b \<Rightarrow> tx_then (update_branch_head skey b target (c_id k)) (\<lambda>_.
          follow_attached env skey b target (c_id k))) db1 = Inr ((), db')"
    by (auto simp: pick_body_def tx_then_Inr)
  note k = insert_keeps [OF assms(1) ins]
  show ?thesis
  proof (cases onto)
    case None
    with move k c show ?thesis by simp
  next
    case (Some b)
    with move obtain db2 where up: "update_branch_head skey b target (c_id k) db1 = Inr ((), db2)"
      and follow: "follow_attached env skey b target (c_id k) db2 = Inr ((), db')"
      by (auto simp: tx_then_Inr)
    note moved = update_branch_head_scope [OF k(1,2) up]
    from follow_attached_keeps [OF _ _ follow] moved c show ?thesis by blast
  qed
qed

section \<open>Garbage collection\<close>

text \<open>A commit that no branch and no tag of its scope names.\<close>

definition unreferenced :: "string \<Rightarrow> commit_id list \<Rightarrow> version_db \<Rightarrow> bool" where
  "unreferenced skey ids db \<longleftrightarrow> (\<forall>c\<in>set ids.
     (\<forall>n r. hget (vd_branches db) (skey, n) = Some r \<longrightarrow> br_head r \<noteq> c)
     \<and> (\<forall>n r. hget (vd_tags db) (skey, n) = Some r \<longrightarrow> tr_target r \<noteq> c))"

lemma acyclic_fewer_rows:
  assumes "acyclic (parent_edges db)" "set (vd_parents db') \<subseteq> set (vd_parents db)"
  shows "acyclic (parent_edges db')"
proof -
  have "parent_edges db' \<subseteq> parent_edges db"
    using assms(2) by (auto simp: parentgraph.edges_def load_parents_rows)
  with assms(1) show ?thesis by (rule acyclic_subset)
qed

lemma delete_commit_row_keeps:
  assumes "version_ok db" "unreferenced skey [c] db" "delete_commit_row env skey c db = Inr (u, db')"
  shows "version_ok db' \<and> vd_branches db' = vd_branches db \<and> vd_tags db' = vd_tags db
    \<and> vd_heads db' = vd_heads db"
proof (cases "db' = db")
  case False
  from assms(3) False obtain r where r: "hget (vd_commits db) c = Some r" "cr_scope r = skey"
    and free: "\<forall>p\<in>set (vd_parents db). pr_parent p \<noteq> c" "\<forall>(k, h)\<in>set (vd_heads db). hr_commit h \<noteq> c"
    and db': "db' = db\<lparr>vd_commits := hdel c (vd_commits db),
        vd_parents := filter (\<lambda>p. pr_commit p \<noteq> c) (vd_parents db),
        vd_deltas := filter (\<lambda>((c', _), _). c' \<noteq> c) (vd_deltas db),
        vd_checkpoints := hdel c (vd_checkpoints db)\<rparr>"
    by (auto simp: delete_commit_row_def list_ex_iff split: option.splits if_splits)
  have scope: "commit_in_scope db' sk x \<longleftrightarrow> x \<noteq> c \<and> commit_in_scope db sk x" for sk x
    by (auto simp: commit_in_scope_def db' hm_simps)
  have "parents_ok db'"
    using assms(1) free(1) acyclic_fewer_rows [of db db']
    by (auto simp: version_ok_def parents_ok_def db' hhas_def hm_simps)
  moreover have "deltas_ok db'"
  proof -
    have "hget (vd_deltas db') (x, v) = (if x = c then None else hget (vd_deltas db) (x, v))" for x v
      using assms(1) by (auto simp: db' hget_filter version_ok_def deltas_ok_def split: option.split)
    moreover have "hm_wf (vd_deltas db')"
      using assms(1) by (simp add: db' version_ok_def deltas_ok_def hm_simps)
    ultimately show ?thesis
      using assms(1) by (auto simp: version_ok_def deltas_ok_def db' hhas_def hm_simps split: if_splits)
  qed
  moreover have "heads_ok db'"
    using assms(1) free(2) hget_SomeD
    by (fastforce simp: version_ok_def heads_ok_def scope db' [THEN arg_cong, of vd_heads] db' [THEN arg_cong, of vd_branches])
  moreover have other: "commit_in_scope db sk c \<Longrightarrow> sk = skey" for sk
    using r by (auto simp: commit_in_scope_def)
  have "br_head b \<noteq> c" if "hget (vd_branches db) (sk, n) = Some b" for sk n b
  proof
    assume "br_head b = c"
    with that assms(1) have "commit_in_scope db sk c" by (auto simp: version_ok_def branches_ok_def)
    with other that assms(2) \<open>br_head b = c\<close> show False by (auto simp: unreferenced_def)
  qed
  then have "branches_ok db'"
    using assms(1) by (auto simp: version_ok_def branches_ok_def scope db' [THEN arg_cong, of vd_branches])
  moreover have "tr_target t \<noteq> c" if "hget (vd_tags db) (sk, n) = Some t" for sk n t
  proof
    assume "tr_target t = c"
    with that assms(1) have "commit_in_scope db sk c" by (auto simp: version_ok_def tags_ok_def)
    with other that assms(2) \<open>tr_target t = c\<close> show False by (auto simp: unreferenced_def)
  qed
  then have "tags_ok db'"
    using assms(1) by (auto simp: version_ok_def tags_ok_def scope db' [THEN arg_cong, of vd_tags])
  ultimately show ?thesis using assms(1) by (simp add: version_ok_def db' hm_simps)
qed (use assms in simp)

lemma delete_commit_rows_keeps:
  "version_ok db \<Longrightarrow> unreferenced skey ids db \<Longrightarrow> delete_commit_rows env skey ids db = Inr (u, db') \<Longrightarrow>
   version_ok db'"
proof (induction ids arbitrary: db)
  case (Cons c ids)
  then obtain db1 where one: "delete_commit_row env skey c db = Inr ((), db1)"
    and rest: "delete_commit_rows env skey ids db1 = Inr (u, db')"
    by (auto simp: tx_then_Inr)
  have "unreferenced skey [c] db" using Cons(3) by (simp add: unreferenced_def)
  note first = delete_commit_row_keeps [OF Cons(2) this one]
  with Cons(3) have "unreferenced skey ids db1" by (simp add: unreferenced_def)
  with Cons(1) [OF _ _ rest] first show ?case by simp
qed simp

lemma row_ancestors_set:
  "parentgraph.pending db (set vis) (set stk) \<Longrightarrow>
   set (row_ancestors db vis stk) = set vis \<union> (\<Union>x\<in>set stk. parentgraph.reach db x)"
proof (induction db vis stk rule: row_ancestors.induct)
  case (2 db vis x stk)
  show ?case
  proof (cases "x \<in> set vis")
    case True
    have pen: "parentgraph.pending db (set vis) (set stk)"
      using parentgraph.pending_skip [of db "set vis" x "set stk"] "2.prems" True by simp
    have "parentgraph.reach db x \<subseteq> set vis \<union> (\<Union>y\<in>set stk. parentgraph.reach db y)"
      using parentgraph.pending_reach [OF pen True] by blast
    then show ?thesis using "2.IH"(1) pen True by auto
  next
    case False
    have "parentgraph.pending db (insert x (set vis)) (set (load_parents db x) \<union> set stk)"
      using parentgraph.pending_visit [of db "set vis" x "set stk"] "2.prems" by simp
    then show ?thesis using "2.IH"(2) False parentgraph.reach_unfold [of db x] by auto
  qed
qed simp

lemma kept_set:
  "set (row_ancestors db [] refs) = (\<Union>x\<in>set refs. parentgraph.reach db x)"
  by (subst row_ancestors_set) (auto simp: parentgraph.pending_def)

lemma refs_protected:
  "hget (vd_branches db) (skey, n) = Some r \<Longrightarrow> br_head r \<in> set (protected_refs skey db)"
  "hget (vd_tags db) (skey, n) = Some t \<Longrightarrow> tr_target t \<in> set (protected_refs skey db)"
  "sql_get_head db skey = Some h \<Longrightarrow> h \<in> set (protected_refs skey db)"
  by (force simp: protected_refs_def dest: hget_SomeD)+

lemma collectable_unreferenced: "unreferenced skey (collectable skey keep cutoff db) db"
proof -
  have "x \<notin> set (collectable skey keep cutoff db)" if "x \<in> set (protected_refs skey db)" for x
  proof -
    have "x \<in> set (row_ancestors db [] (protected_refs skey db))" using that by (auto simp: kept_set)
    then show ?thesis by (auto simp: collectable_def Let_def)
  qed
  then show ?thesis using refs_protected unfolding unreferenced_def by blast
qed

section \<open>Operations\<close>

abbreviation keeps_ok :: "'a vstore_op \<Rightarrow> bool" where
  "keeps_ok m \<equiv> vspec (\<lambda>_. True) m (\<lambda>_ _. True)"

text \<open>An operation on the database alone.\<close>

definition on_db :: "(version_db \<Rightarrow> (version_error + 'a) \<times> version_db) \<Rightarrow> 'a vstore_op" where
  "on_db f s = (let (r, db) = f (vq_db s) in (r, s\<lparr>vq_db := db\<rparr>))"

lemma on_db_keeps:
  "(\<And>db. version_ok db \<Longrightarrow> version_ok (snd (f db))) \<Longrightarrow> keeps_ok (on_db f)"
  by (auto simp: vspec_def on_db_def Let_def split: prod.splits) (metis snd_conv)

lemma commit_on_keeps: "version_ok db \<Longrightarrow> version_ok (snd (commit_on env fresh now scope ch meta par db))"
  unfolding commit_on_def version_tx_def
  by (auto split: sum.split dest: commit_body_keeps)

lemma create_branch_keeps: "version_ok db \<Longrightarrow> version_ok (snd (sql_create_branch env now scope name c bt db))"
  unfolding sql_create_branch_def Let_def
  by (auto split: sum.split option.split simp: scope_required intro!: put_branch_keeps)

lemma delete_branch_keeps: "version_ok db \<Longrightarrow> version_ok (snd (sql_delete_branch env scope name db))"
proof -
  assume ok: "version_ok db"
  let ?skey = "scope_key scope" and ?n = "branch_str name"
  show ?thesis
  proof (cases "Option.bind (hget (vd_heads db) ?skey) hr_attached = Some ?n")
    case True
    then obtain r where "hget (vd_heads db) ?skey = Some r" "hr_attached r = Some ?n"
      by (auto simp: bind_eq_Some_conv)
    with ok have "hhas (vd_branches db) (?skey, ?n)" by (simp add: version_ok_def heads_ok_def)
    with ok True show ?thesis by (simp add: sql_delete_branch_def Let_def)
  next
    case False
    with ok show ?thesis by (simp add: sql_delete_branch_def Let_def drop_branch_keeps)
  qed
qed

lemma switch_head_keeps: "version_ok db \<Longrightarrow> version_ok (snd (sql_switch_head env scope name db))"
proof -
  assume ok: "version_ok db"
  show ?thesis
  proof (cases "branch_head_row (scope_key scope) name db")
    case (Inr h)
    have "hhas (vd_branches db) (scope_key scope, branch_str name)"
      using Inr by (auto simp: branch_head_row_def get_branch_def hhas_def split: option.splits sum.splits)
    with ok Inr branch_in_scope [OF ok Inr] show ?thesis
      by (auto simp: sql_switch_head_def Let_def intro!: put_head_keeps)
  qed (use ok in \<open>simp add: sql_switch_head_def\<close>)
qed

lemma create_tag_keeps: "version_ok db \<Longrightarrow> version_ok (snd (sql_create_tag env scope t db))"
  unfolding sql_create_tag_def Let_def
  by (auto split: sum.split prod.split simp: scope_required intro!: put_tag_keeps)

lemma publish_keeps:
  assumes "tx_then (insert_with_rows env skey k rows) (\<lambda>_.
      tx_then (move_branch_and_head env what skey name expected c) (\<lambda>_ db. Inr (x, db))) db = Inr (y, db')"
    and "c_id k = c" "version_ok db"
  shows "version_ok db'"
proof -
  from assms(1) obtain db1 where ins: "insert_with_rows env skey k rows db = Inr ((), db1)"
    and move: "move_branch_and_head env what skey name expected c db1 = Inr ((), db')"
    by (auto simp: tx_then_Inr)
  note k = insert_keeps [OF assms(3) ins]
  from move_branch_and_head_keeps [OF k(1) _ move] k(2) assms(2) show ?thesis by simp
qed

lemma sql_commit_record_id [simp]: "c_id (sql_commit_record env c ps msg now meta) = c"
  by (simp add: sql_commit_record_def)

lemma merge_keeps: "keeps_ok (sql_merge env cfg fresh now scope from into strategy)"
proof -
  let ?k = "scope_key scope"
  have forward: "vspec (knows ?k [a]) (sql_run (tx_then (move_branch_and_head env ''merge'' ?k into b a)
      (\<lambda>_ db. Inr (x, db)))) (\<lambda>_ _. True)" for a b x
    by (rule vspec_run) (auto simp: tx_then_Inr knows_def intro: move_branch_and_head_keeps)
  have diverged: "vspec (\<lambda>_. True) (sql_merge_diverged env cfg fresh now ?k from into strategy a b) (\<lambda>_ _. True)"
    for a b
    unfolding sql_merge_diverged_def
  proof (rule vspec_then [where R = "\<lambda>_. knows ?k []"], rule vspec_ask, simp,
      rule vspec_then [OF vspec_reads(2)], rule vspec_then [OF vspec_reads(1)],
      rule vspec_then [OF vspec_reads(1)], rule vspec_then [where R = "\<lambda>_. knows ?k []"],
      rule vspec_give, simp)
    fix base into_snap from_snap :: snapshot and x
    show "vspec (knows ?k []) (case x of (merged, conflicts) \<Rightarrow>
        let c = sql_commit_record env (CommitId fresh) [b, a]
              (merge_message ''merge '' into from (length conflicts)) now default_commit_meta
        in sql_run (tx_then (insert_with_rows env ?k c (diff_snapshots env into_snap merged)) (\<lambda>_.
             tx_then (move_branch_and_head env ''merge'' ?k into b (CommitId fresh))
               (\<lambda>_ db. Inr (\<lparr>mr_commit = CommitId fresh, mr_conflicts = conflicts\<rparr>, db))))) (\<lambda>_ _. True)"
      by (cases x) (auto simp: Let_def intro!: vspec_run dest: publish_keeps)
  qed
  show ?thesis
    unfolding sql_merge_def Let_def
  proof (rule vspec_then [where R = "\<lambda>a. knows ?k [a]"], rule vspec_ask, simp add: knows_def branch_in_scope)
    fix a
    show "vspec (knows ?k [a]) (sql_then (sql_ask (branch_head_row ?k into)) (\<lambda>b.
        sql_then (sql_ask (\<lambda>db. Inr (row_ancestor db b a))) (\<lambda>forward.
          if forward
          then sql_run (tx_then (move_branch_and_head env ''merge'' ?k into b a)
                 (\<lambda>_ db. Inr (\<lparr>mr_commit = a, mr_conflicts = []\<rparr>, db)))
          else sql_merge_diverged env cfg fresh now ?k from into strategy a b))) (\<lambda>_ _. True)"
      by (rule vspec_then [where R = "\<lambda>_. knows ?k [a]"], rule vspec_ask, simp,
          rule vspec_then [where R = "\<lambda>_. knows ?k [a]"], rule vspec_ask, simp)
        (auto intro: forward vspec_weaken [OF diverged])
  qed
qed

lemmas vspec_true = vspec_then [where R = "\<lambda>_ _. True"]

lemma stable_True: "stable (\<lambda>_. True)"
  by (simp add: stable_def)

lemmas vspec_true_reads = vspec_snapshot [OF stable_True] vspec_snapshot_or_empty [OF stable_True]

lemma ask_true: "vspec (\<lambda>_. True) (sql_ask f) (\<lambda>_ _. True)"
  by (rule vspec_ask) simp

lemma give_true: "vspec (\<lambda>_. True) (sql_give r) (\<lambda>_ _. True)"
  by (rule vspec_give) simp

lemma run_true:
  "(\<And>db x db'. version_ok db \<Longrightarrow> body db = Inr (x, db') \<Longrightarrow> version_ok db') \<Longrightarrow>
   vspec (\<lambda>_. True) (sql_run body) (\<lambda>_ _. True)"
  by (rule vspec_run) auto

lemma squash_keeps: "keeps_ok (sql_squash env cfg fresh now scope ids message)"
  unfolding sql_squash_def Let_def
  by (cases "length ids < 2")
    (auto simp: tx_then_Inr intro!: vspec_true ask_true give_true vspec_true_reads run_true
      intro: squash_body_keeps)

lemma diff_commits_keeps: "keeps_ok (sql_diff_commits env cfg now scope a b)"
  unfolding sql_diff_commits_def Let_def
  by (intro vspec_true ask_true give_true vspec_true_reads)

lemma read_at_keeps: "keeps_ok (sql_read_at env cfg now uri r)"
proof (rule vspecI)
  fix s x s' assume ok: "version_ok (vq_db s)" and run: "sql_read_at env cfg now uri r s = (x, s')"
  show "version_ok (vq_db s') \<and> (\<forall>y. x = Inr y \<longrightarrow> True)"
  proof (cases "resolve_ref (scope_key uri) r (vq_db s)")
    case (Inl e)
    with run ok show ?thesis by (simp add: sql_read_at_def)
  next
    case (Inr c)
    obtain q s1 where read: "reconstruct_snapshot env cfg now c s = (q, s1)" by force
    with run Inr have "s' = s1" by (auto simp: sql_read_at_def split: sum.splits option.splits)
    with vspecD [OF vspec_snapshot [OF stable_True] ok _ read] show ?thesis by simp
  qed
qed

lemma asof_read_keeps: "keeps_ok (sql_asof_read env cfg now uri at)"
proof (rule vspecI)
  fix s x s' assume ok: "version_ok (vq_db s)" and run: "sql_asof_read env cfg now uri at s = (x, s')"
  then have "s' = s \<or> (\<exists>c. sql_read_at env cfg now uri (RefCommit c) s = (x, s'))"
    by (auto simp: sql_asof_read_def split: as_of_point.splits option.splits)
  with ok vspecD [OF read_at_keeps ok] show "version_ok (vq_db s') \<and> (\<forall>y. x = Inr y \<longrightarrow> True)"
    by blast
qed

lemma gc_keeps: "keeps_ok (sql_gc env now scope policy)"
proof -
  let ?k = "scope_key scope"
  have evict: "vq_db (fold (cache_del_snapshot env) ids s) = vq_db s" for ids s
    by (induction ids arbitrary: s) (simp_all add: cache_del_snapshot_def)
  show ?thesis
    unfolding sql_gc_def Let_def
  proof (rule vspec_then [where R = "unreferenced ?k"], rule vspec_ask)
    fix db ids assume "Inr (collectable ?k (gp_keep_recent policy) (now - days_ns (gp_max_age_days policy)) db) = Inr ids"
    then show "unreferenced ?k ids db" using collectable_unreferenced by auto
  next
    fix ids
    show "vspec (unreferenced ?k ids) (sql_then (sql_run (delete_commit_rows env ?k ids)) (\<lambda>_ s.
        (Inr \<lparr>gr_removed_commits = length ids, gr_freed_snapshots = length ids\<rparr>,
         fold (cache_del_snapshot env) ids s))) (\<lambda>_ _. True)"
    proof (rule vspec_true, rule vspec_run)
      fix db x db' assume "version_ok db" "unreferenced ?k ids db" "delete_commit_rows env ?k ids db = Inr (x, db')"
      then show "version_ok db' \<and> True" using delete_commit_rows_keeps by blast
    qed (auto simp: vspec_def evict)
  qed
qed

lemma build_reads: "vspec (knows skey cs) (build_cherry_pick_session env cfg now sid scope c target onto) (\<lambda>_. knows skey cs)"
proof -
  have ask: "vspec (knows skey cs) (sql_ask f) (\<lambda>_. knows skey cs)"
    for f :: "version_db \<Rightarrow> version_error + 'z"
    by (rule vspec_ask)
  have give: "vspec (knows skey cs) (sql_give r) (\<lambda>_. knows skey cs)" for r :: "version_error + 'z"
    by (rule vspec_give)
  note chain = vspec_then [where R = "\<lambda>_. knows skey cs"]
  show ?thesis
    unfolding build_cherry_pick_session_def Let_def
    by (intro chain vspec_reads vspec_ask vspec_give)
qed

lemma pick_snapshot_keeps:
  "vspec (\<lambda>_. True) (commit_cherry_pick_snapshot env cfg fresh now scope c target onto final)
     (\<lambda>k db. commit_in_scope db (scope_key scope) k)"
  unfolding commit_cherry_pick_snapshot_def Let_def
  by (intro vspec_true vspec_true_reads ask_true vspec_run) (auto dest: pick_body_keeps)

lemma build_true: "keeps_ok (build_cherry_pick_session env cfg now sid scope c target onto)"
  using build_reads [of undefined "[]"] by (simp add: vspec_def)

lemma pick_at_keeps:
  "vspec (\<lambda>_. True) (cherry_pick_at_branch env cfg fresh sid now scope c target onto strategy)
     (\<lambda>k db. commit_in_scope db (scope_key scope) k)"
proof -
  have fails: "vspec (\<lambda>_. True) (sql_give (Inl e)) Q" for e and Q :: "commit_id \<Rightarrow> version_db \<Rightarrow> bool"
    by (rule vspec_give) simp
  show ?thesis
    unfolding cherry_pick_at_branch_def Let_def
    by (auto intro!: vspec_true give_true build_true fails pick_snapshot_keeps)
qed

lemma weaken_true: "vspec P m Q \<Longrightarrow> P = (\<lambda>_. True) \<Longrightarrow> keeps_ok m"
  by (simp add: vspec_def)

lemma cherry_pick_keeps: "keeps_ok (sql_cherry_pick env cfg fresh sid now scope c onto strategy)"
  unfolding sql_cherry_pick_def
  by (rule vspec_true [OF ask_true]) (rule weaken_true [OF pick_at_keeps refl])

lemma pick_all_keeps:
  "version_ok (vq_db s) \<Longrightarrow> commit_in_scope (vq_db s) (scope_key scope) target \<Longrightarrow>
   pick_all env cfg fresh sids now scope strategy i cs applied target s = (r, s') \<Longrightarrow>
   version_ok (vq_db s') \<and> (\<forall>x. r = Inr x \<longrightarrow> commit_in_scope (vq_db s') (scope_key scope) (snd x))"
proof (induction cs arbitrary: i applied target s)
  case (Cons c cs)
  obtain q s1 where one: "cherry_pick_at_branch env cfg (fresh i) (sids i) now scope c target None strategy s = (q, s1)"
    by force
  note k = vspecD [OF pick_at_keeps Cons(2) _ one]
  show ?case
  proof (cases q)
    case (Inl e)
    with Cons(4) one k show ?thesis by auto
  next
    case (Inr x)
    with Cons(4) one have "pick_all env cfg fresh sids now scope strategy (Suc i) cs (applied @ [x]) x s1 = (r, s')"
      by simp
    with Cons(1) k Inr show ?thesis by blast
  qed
qed auto

lemma move_rebased:
  assumes "version_ok db" "commit_in_scope db skey target"
    and "tx_then (update_branch_head skey name expected target) (\<lambda>_ db. Inr (applied, db)) db = Inr (x, db')"
  shows "version_ok db'"
proof -
  from assms(3) have "update_branch_head skey name expected target db = Inr ((), db')"
    by (auto simp: tx_then_Inr)
  from update_branch_head_scope [OF assms(1,2) this] show ?thesis ..
qed

lemma run_rebased:
  "vspec (\<lambda>db. commit_in_scope db skey target)
     (sql_run (tx_then (update_branch_head skey name h target) (\<lambda>_ db. Inr (applied, db)))) (\<lambda>_ _. True)"
proof (rule vspec_run)
  fix db x db' assume "version_ok db" "commit_in_scope db skey target"
    "tx_then (update_branch_head skey name h target) (\<lambda>_ db. Inr (applied, db)) db = Inr (x, db')"
  from move_rebased [OF this] show "version_ok db' \<and> True" by simp
qed

lemma rebase_keeps:
  assumes "version_ok (vq_db s)"
    and "sql_rebase env cfg fresh sids now scope name onto strategy s = Some (r, s')"
  shows "version_ok (vq_db s')"
proof -
  let ?k = "scope_key scope"
  consider "s' = s" | h onto_head own where "branch_head_row ?k onto (vq_db s) = Inr onto_head"
      "sql_then (pick_all env cfg fresh sids now scope strategy 0 own [] onto_head)
        (\<lambda>(applied, target). sql_run (tx_then (update_branch_head ?k name h target)
          (\<lambda>_ db. Inr (applied, db)))) s = (r, s')"
    using assms(2) by (auto simp: sql_rebase_def Let_def split: sum.splits)
  then show ?thesis
  proof cases
    case (2 h onto_head own)
    obtain q s1 where picked: "pick_all env cfg fresh sids now scope strategy 0 own [] onto_head s = (q, s1)"
      by force
    note k = pick_all_keeps [OF assms(1) branch_in_scope [OF assms(1) 2(1)] picked]
    show ?thesis
    proof (cases q)
      case (Inl e)
      with 2(2) picked k show ?thesis by (simp add: sql_then_def)
    next
      case (Inr x)
      obtain applied target where x: "x = (applied, target)" by force
      from vspecD [OF run_rebased] 2(2) picked k Inr x show ?thesis by (auto simp: sql_then_def)
    qed
  qed (use assms in simp)
qed

section \<open>Sessions\<close>

lemma persist_keeps: "keeps_ok (persist_if cfg p session)"
  by (auto simp: vspec_def persist_if_def persist_conflict_session_def sessions_keep)

lemma mark_keeps: "keeps_ok (mark_conflict_session_status env sid status)"
  by (auto simp: vspec_def mark_conflict_session_status_def sessions_keep split: option.splits if_splits)

lemma begin_pick_keeps: "keeps_ok (begin_cherry_pick env cfg sid now scope c onto p)"
  unfolding begin_cherry_pick_def by (intro vspec_true ask_true build_true persist_keeps)

lemma begin_rebase_cases:
  assumes "begin_rebase env cfg sid now scope name onto p s = Some (r, s')"
  obtains "s' = s" | c h own where "sql_then (build_cherry_pick_session env cfg now sid scope c h name)
      (\<lambda>session. persist_if cfg p
         (session\<lparr>cs_operation := InteractiveRebase name onto, cs_commits := own\<rparr>)) s = (r, s')"
proof -
  obtain a where name: "branch_head_row (scope_key scope) name (vq_db s) = a" by simp
  obtain b where onto: "branch_head_row (scope_key scope) onto (vq_db s) = b" by simp
  show thesis
  proof (cases a; cases b)
    fix h t assume heads: "a = Inr h" "b = Inr t"
    with assms name onto obtain own where own: "commits_to_rebase (vq_db s) t [] h = Some own"
      by (auto simp: begin_rebase_def Let_def)
    with assms name onto heads that show thesis
      by (cases own) (auto simp: begin_rebase_def Let_def)
  qed (use assms name onto that in \<open>auto simp: begin_rebase_def Let_def\<close>)
qed

lemma begin_rebase_keeps:
  assumes "version_ok (vq_db s)" "begin_rebase env cfg sid now scope name onto p s = Some (r, s')"
  shows "version_ok (vq_db s')"
  using assms(2)
proof (cases rule: begin_rebase_cases)
  case (2 c h own)
  have "keeps_ok (sql_then (build_cherry_pick_session env cfg now sid scope c h name)
    (\<lambda>session. persist_if cfg p
       (session\<lparr>cs_operation := InteractiveRebase name onto, cs_commits := own\<rparr>)))"
    by (intro vspec_true build_true persist_keeps)
  from vspecD [OF this assms(1) _ 2] show ?thesis by simp
qed (use assms in simp)

lemma pick_all_vspec:
  "vspec (\<lambda>db. commit_in_scope db (scope_key scope) target)
     (pick_all env cfg fresh sids now scope strategy i cs applied target)
     (\<lambda>x db. commit_in_scope db (scope_key scope) (snd x))"
  by (rule vspecI) (rule pick_all_keeps)

lemma continue_keeps: "keeps_ok (continue_conflict_session env cfg fresh sids now session res)"
  unfolding continue_conflict_session_def
proof (rule vspec_true [OF give_true])
  fix final
  let ?k = "scope_key (cs_scope session)"
  have single: "vspec (\<lambda>_. True) (sql_then (commit_cherry_pick_snapshot env cfg (fresh 0) now (cs_scope session) c
      (cs_target session) onto final) (\<lambda>k. sql_give (Inr [k]))) (\<lambda>_ _. True)" for c onto
    by (rule vspec_then [OF pick_snapshot_keeps]) (rule vspec_give, simp)
  have chain: "vspec (\<lambda>_. True) (sql_then (commit_cherry_pick_snapshot env cfg (fresh 0) now (cs_scope session) c
      (cs_target session) None final) (\<lambda>k.
        sql_then (pick_all env cfg fresh sids now (cs_scope session) CFail (Suc 0) rest [k] k)
          (\<lambda>(applied, target). sql_run (tx_then (update_branch_head ?k name (cs_target session) target)
              (\<lambda>_ db. Inr (applied, db)))))) (\<lambda>_ _. True)" for c rest name
  proof (rule vspec_then [OF pick_snapshot_keeps], rule vspec_then [OF pick_all_vspec])
    fix k x
    show "vspec (\<lambda>db. commit_in_scope db ?k (snd x)) (case x of (applied, target) \<Rightarrow>
        sql_run (tx_then (update_branch_head ?k name (cs_target session) target)
          (\<lambda>_ db. Inr (applied, db)))) (\<lambda>_ _. True)"
      using run_rebased by (cases x) simp
  qed
  show "vspec (\<lambda>_. True) (case cs_operation session of
       InteractiveCherryPick c onto \<Rightarrow>
         sql_then (commit_cherry_pick_snapshot env cfg (fresh 0) now (cs_scope session) c
             (cs_target session) (Some onto) final) (\<lambda>k. sql_give (Inr [k]))
     | InteractiveRebase name _ \<Rightarrow>
         (case cs_commits session of
            [] \<Rightarrow> sql_give (Inl (ConflictSessionUnavailable (show_session_id env (cs_id session))))
          | c # rest \<Rightarrow>
              sql_then (commit_cherry_pick_snapshot env cfg (fresh 0) now (cs_scope session) c
                  (cs_target session) None final) (\<lambda>k.
              sql_then (pick_all env cfg fresh sids now (cs_scope session) CFail 1 rest [k] k)
                (\<lambda>(applied, target).
                  sql_run (tx_then (update_branch_head ?k name (cs_target session) target)
                    (\<lambda>_ db. Inr (applied, db))))))) (\<lambda>_ _. True)"
    by (auto split: interactive_operation.split list.split intro: single chain give_true)
qed

lemma continue_by_id_keeps: "keeps_ok (continue_conflict_session_by_id env cfg fresh sids now sid res)"
  unfolding continue_conflict_session_by_id_def
  by (intro vspec_true ask_true continue_keeps mark_keeps give_true)

section \<open>The rebase loop returns\<close>

lemma finite_parent_edges: "finite (parent_edges db)"
proof -
  have "parent_edges db \<subseteq> (\<lambda>r. (pr_commit r, pr_parent r)) ` set (vd_parents db)"
    by (auto simp: parentgraph.edges_def load_parents_rows)
  then show ?thesis by (rule finite_subset) simp
qed

lemma commits_to_rebase_returns:
  assumes "acyclic (parent_edges db)"
  shows "\<exists>own. commits_to_rebase db onto acc cur = Some own"
proof -
  have "wf ((parent_edges db)\<inverse>)"
    using assms finite_parent_edges by (rule finite_acyclic_wf_converse [rotated])
  then show ?thesis
  proof (induction cur arbitrary: acc rule: wf_induct_rule)
    case (less cur)
    show ?case
    proof (cases "first_parent_row db cur")
      case (Some p)
      from first_parent_edge [OF Some] less obtain own where "commits_to_rebase db onto (cur # acc) p = Some own"
        by blast
      with Some show ?thesis by (subst commits_to_rebase.simps) simp
    qed (subst commits_to_rebase.simps, simp)
  qed
qed

section \<open>Histories\<close>

datatype version_call =
    CallCommit uuid datetime context_uri change_set commit_meta
  | CallCreateBranch datetime context_uri branch_name commit_id branch_type
  | CallDeleteBranch context_uri branch_name
  | CallSwitchHead context_uri branch_name
  | CallCreateTag context_uri tag
  | CallReadAt datetime context_uri version_ref
  | CallAsofRead datetime context_uri as_of_point
  | CallMerge uuid datetime context_uri branch_name branch_name merge_strategy
  | CallDiff datetime context_uri commit_id commit_id
  | CallCherryPick uuid conflict_session_id datetime context_uri commit_id branch_name conflict_strategy
  | CallRebase "nat \<Rightarrow> uuid" "nat \<Rightarrow> conflict_session_id" datetime context_uri branch_name branch_name
      conflict_strategy
  | CallSquash uuid datetime context_uri "commit_id list" string
  | CallGc datetime context_uri gc_policy
  | CallBeginPick conflict_session_id datetime context_uri commit_id branch_name session_persistence
  | CallBeginRebase conflict_session_id datetime context_uri branch_name branch_name session_persistence
  | CallContinue "nat \<Rightarrow> uuid" "nat \<Rightarrow> conflict_session_id" datetime conflict_session conflict_resolution_set
  | CallContinueById "nat \<Rightarrow> uuid" "nat \<Rightarrow> conflict_session_id" datetime conflict_session_id
      conflict_resolution_set
  | CallAbort conflict_session_id

definition outcome_state :: "version_sql \<Rightarrow> ('r \<times> version_sql) option \<Rightarrow> version_sql" where
  "outcome_state s x = (case x of Some (_, s') \<Rightarrow> s' | None \<Rightarrow> s)"

text \<open>The state after a call; a call that does not return leaves the state.\<close>

fun version_call_run ::
    "('x) sqlite_env_scheme \<Rightarrow> version_settings \<Rightarrow> version_call \<Rightarrow> version_sql \<Rightarrow> version_sql" where
  "version_call_run env cfg (CallCommit fresh now scope ch meta) s =
     snd (on_db (sql_commit env fresh now scope ch meta) s)"
| "version_call_run env cfg (CallCreateBranch now scope name c bt) s =
     snd (on_db (sql_create_branch env now scope name c bt) s)"
| "version_call_run env cfg (CallDeleteBranch scope name) s = snd (on_db (sql_delete_branch env scope name) s)"
| "version_call_run env cfg (CallSwitchHead scope name) s = snd (on_db (sql_switch_head env scope name) s)"
| "version_call_run env cfg (CallCreateTag scope t) s = snd (on_db (sql_create_tag env scope t) s)"
| "version_call_run env cfg (CallReadAt now uri r) s = snd (sql_read_at env cfg now uri r s)"
| "version_call_run env cfg (CallAsofRead now uri at) s = snd (sql_asof_read env cfg now uri at s)"
| "version_call_run env cfg (CallMerge fresh now scope from into strategy) s =
     snd (sql_merge env cfg fresh now scope from into strategy s)"
| "version_call_run env cfg (CallDiff now scope a b) s = snd (sql_diff_commits env cfg now scope a b s)"
| "version_call_run env cfg (CallCherryPick fresh sid now scope c onto strategy) s =
     snd (sql_cherry_pick env cfg fresh sid now scope c onto strategy s)"
| "version_call_run env cfg (CallRebase fresh sids now scope name onto strategy) s =
     outcome_state s (sql_rebase env cfg fresh sids now scope name onto strategy s)"
| "version_call_run env cfg (CallSquash fresh now scope ids message) s =
     snd (sql_squash env cfg fresh now scope ids message s)"
| "version_call_run env cfg (CallGc now scope policy) s = snd (sql_gc env now scope policy s)"
| "version_call_run env cfg (CallBeginPick sid now scope c onto p) s =
     snd (begin_cherry_pick env cfg sid now scope c onto p s)"
| "version_call_run env cfg (CallBeginRebase sid now scope name onto p) s =
     outcome_state s (begin_rebase env cfg sid now scope name onto p s)"
| "version_call_run env cfg (CallContinue fresh sids now session res) s =
     snd (continue_conflict_session env cfg fresh sids now session res s)"
| "version_call_run env cfg (CallContinueById fresh sids now sid res) s =
     snd (continue_conflict_session_by_id env cfg fresh sids now sid res s)"
| "version_call_run env cfg (CallAbort sid) s = snd (abort_conflict_session env sid s)"

lemma keeps_snd: "keeps_ok m \<Longrightarrow> version_ok (vq_db s) \<Longrightarrow> version_ok (vq_db (snd (m s)))"
  by (cases "m s") (auto dest: vspecD)

lemma version_call_keeps:
  assumes "version_ok (vq_db s)"
  shows "version_ok (vq_db (version_call_run env cfg call s))"
proof (cases call)
  case (CallCommit fresh now scope ch meta)
  have "keeps_ok (on_db (sql_commit env fresh now scope ch meta))"
    by (rule on_db_keeps) (simp add: sql_commit_def commit_on_keeps)
  from keeps_snd [OF this assms] CallCommit show ?thesis by simp
next
  case (CallRebase fresh sids now scope name onto strategy)
  with assms rebase_keeps [OF assms] show ?thesis
    by (auto simp: outcome_state_def split: option.split)
next
  case (CallBeginRebase sid now scope name onto p)
  with assms begin_rebase_keeps [OF assms] show ?thesis
    by (auto simp: outcome_state_def split: option.split)
qed (simp_all add: assms keeps_snd on_db_keeps create_branch_keeps delete_branch_keeps switch_head_keeps
    create_tag_keeps read_at_keeps asof_read_keeps merge_keeps diff_commits_keeps cherry_pick_keeps
    squash_keeps gc_keeps begin_pick_keeps continue_keeps continue_by_id_keeps mark_keeps
    abort_conflict_session_def)

interpretation versql: op_system "version_call_run env cfg" "\<lambda>s. version_ok (vq_db s)" "\<lambda>_ _. True"
  for env :: sqlite_env and cfg
  by unfold_locales (rule version_call_keeps)

lemma version_empty_ok: "version_ok version_db_empty"
proof -
  have "parent_edges version_db_empty = {}"
    by (simp add: parentgraph.edges_def load_parents_def version_db_empty_def)
  then show ?thesis
    by (simp add: version_ok_defs parents_ok_def deltas_ok_def acyclic_def)
      (simp add: version_db_empty_def)
qed

text \<open>C26: after any calls on an empty SQLite commit store, failed ones among them, the parent links form no
  cycle and name stored commits, every change row belongs to a stored commit, and the heads, branches
  and tags of a scope name stored commits of that scope, heads attached to an existing branch.\<close>

theorem version_tables_sound:
  "version_ok (vq_db (versql.run env cfg calls \<lparr>vq_db = version_db_empty, vq_cache = cache\<rparr>))"
proof -
  have "versql.ok_run env cfg calls s" for s by (induction calls arbitrary: s) simp_all
  with versql.run_inv [of "\<lparr>vq_db = version_db_empty, vq_cache = cache\<rparr>" env cfg calls] version_empty_ok
  show ?thesis by simp
qed

end
