(* ===== verification/Sqlite_Committing.thy ===== *)
theory Sqlite_Committing
  imports Sqlite_Operations
begin

text \<open>
  Committing in the SQLite commit store: the tree of the new commit is what the in-memory store
  records for the same changes, and commits of concurrent callers, each of which reads the head
  before its transaction, are never lost.
\<close>

section \<open>The effect of a commit\<close>

lemma advance_head_effect:
  assumes "advance_head_if_matches env skey expected c db = Inr (True, db')"
  shows "vd_parents db' = vd_parents db" "vd_deltas db' = vd_deltas db" "vd_commits db' = vd_commits db"
    "sql_get_head db' sk = (if sk = skey then Some c else sql_get_head db sk)"
    "sql_get_head db skey = Some expected"
  using assms
  by (auto simp: advance_head_if_matches_def sql_get_head_def hm_simps split: option.splits if_splits)

lemma move_attached_effect:
  assumes "move_attached env skey att expected c db = Inr (u, db')"
  shows "vd_parents db' = vd_parents db" "vd_deltas db' = vd_deltas db" "vd_commits db' = vd_commits db"
    "vd_heads db' = vd_heads db"
  using assms
  by (auto simp: move_attached_def move_branch_row_def split: option.splits if_splits)

lemma point_head_effect:
  assumes "point_head env skey par att c db = Inr (u, db')" "par = sql_get_head db skey"
  shows "vd_parents db' = vd_parents db" "vd_deltas db' = vd_deltas db" "vd_commits db' = vd_commits db"
    "sql_get_head db' sk = (if sk = skey then Some c else sql_get_head db sk)"
proof -
  have "vd_parents db' = vd_parents db \<and> vd_deltas db' = vd_deltas db \<and> vd_commits db' = vd_commits db
    \<and> sql_get_head db' sk = (if sk = skey then Some c else sql_get_head db sk)"
  proof (cases par)
    case None
    with assms(1) show ?thesis by (auto simp: point_head_def sql_get_head_def hm_simps)
  next
    case (Some p)
    with assms(1) obtain db1 where att: "move_attached env skey att p c db = Inr ((), db1)"
      and adv: "advance_head_if_matches env skey p c db1 = Inr (True, db')"
      by (auto simp: point_head_def update_head_in_tx_def tx_then_Inr split: if_splits)
    from move_attached_effect [OF att] advance_head_effect(1-3) [OF adv] advance_head_effect(4) [OF adv, of sk] show ?thesis
      by (auto simp: sql_get_head_def)
  qed
  then show "vd_parents db' = vd_parents db" "vd_deltas db' = vd_deltas db" "vd_commits db' = vd_commits db"
    "sql_get_head db' sk = (if sk = skey then Some c else sql_get_head db sk)"
    by simp_all
qed

lemma commit_body_effect:
  assumes "version_ok db" "commit_body env skey par k rows db = Inr (c, db')"
  shows "c = c_id k" "addable db k" "sql_get_head db skey = par"
    "vd_parents db' = vd_parents (with_commit skey k rows db)"
    "vd_deltas db' = vd_deltas (with_commit skey k rows db)"
    "sql_get_head db' sk = (if sk = skey then Some c else sql_get_head db sk)"
proof -
  let ?att = "Option.bind (hget (vd_heads db) skey) hr_attached"
  from assms(2) obtain db1 where par: "sql_get_head db skey = par"
    and ins: "insert_with_rows env skey k rows db = Inr ((), db1)"
    and head: "point_head env skey par ?att (c_id k) db1 = Inr ((), db')" and c: "c = c_id k"
    by (auto simp: commit_body_def tx_then_Inr Let_def sql_get_head_def split: if_splits)
  note db1 = insert_with_rows_result(1) [OF ins]
  have "sql_get_head db1 sk' = sql_get_head db sk'" for sk' by (simp add: db1 sql_get_head_def)
  note eff = point_head_effect [OF head, unfolded this, OF par [symmetric]]
  show "c = c_id k" "sql_get_head db skey = par" by (fact c, fact par)
  show "addable db k" by (rule version_addable [OF assms(1) ins])
  show "vd_parents db' = vd_parents (with_commit skey k rows db)" using eff(1) db1 by simp
  show "vd_deltas db' = vd_deltas (with_commit skey k rows db)" using eff(2) db1 by simp
  show "sql_get_head db' sk = (if sk = skey then Some c else sql_get_head db sk)" using eff(4) c by simp
qed

lemma commit_on_effect:
  assumes "version_ok db" "commit_on env fresh now scope ch meta par db = (Inr c, db')"
  obtains rows k where "change_rows env ch = Inr rows" "c = c_id k" "addable db k"
    "c_id k = CommitId fresh" "c_parents k = (case par of Some p \<Rightarrow> [p] | None \<Rightarrow> [])"
    "sql_get_head db (scope_key scope) = par"
    "vd_parents db' = vd_parents (with_commit (scope_key scope) k rows db)"
    "vd_deltas db' = vd_deltas (with_commit (scope_key scope) k rows db)"
    "\<And>sk. sql_get_head db' sk = (if sk = scope_key scope then Some c else sql_get_head db sk)"
proof -
  let ?k = "sql_commit_record env (CommitId fresh) (case par of Some p \<Rightarrow> [p] | None \<Rightarrow> []) [] now meta"
  from assms(2) obtain rows where rows: "change_rows env ch = Inr rows"
    and body: "commit_body env (scope_key scope) par ?k rows db = Inr (c, db')"
    by (auto simp: commit_on_def version_tx_def split: sum.splits)
  show thesis
    by (rule that [OF rows, of ?k]; (rule commit_body_effect [OF assms(1) body])?)
      (simp_all add: sql_commit_record_def)
qed

section \<open>Agreement with the in-memory store\<close>

lemma change_rows_well_formed:
  assumes "change_rows env ch = Inr rows"
  shows "list_all well_formed_row rows"
proof -
  have "add_rows env es = Inr rs \<Longrightarrow> list_all well_formed_row rs" for es rs
    by (induction es arbitrary: rs) (auto simp: well_formed_row_def split: sum.splits)
  moreover have "update_rows env us = Inr rs \<Longrightarrow> list_all well_formed_row rs" for us rs
    by (induction us arbitrary: rs) (auto simp: well_formed_row_def split: sum.splits if_splits)
  moreover have "list_all well_formed_row (delete_rows ds)" "list_all well_formed_row (rename_rows rs)" for ds rs
    by (auto simp: delete_rows_def rename_rows_def list_all_iff well_formed_row_def)
  ultimately show ?thesis using assms by (auto simp: change_rows_def split: sum.splits)
qed

lemma apart_distinct: "apart rows \<Longrightarrow> distinct (map dr_uri rows)"
proof (induction rows)
  case (Cons d rows)
  have "apart rows" using Cons(2) by (auto simp: apart_def)
  moreover have "dr_uri d \<notin> set (map dr_uri rows)"
  proof
    assume "dr_uri d \<in> set (map dr_uri rows)"
    then obtain e where "e \<in> set rows" "dr_uri e = dr_uri d" by auto
    then have "dr_uri d \<in> set (row_touches e)" by (simp add: row_touches_def)
    with \<open>e \<in> set rows\<close> Cons(2) show False by (auto simp: apart_def row_touches_def)
  qed
  ultimately show ?case using Cons(1) by simp
qed simp

text \<open>The two stores record the same tree under a commit.\<close>

definition same_tree :: "('x) sqlite_env_scheme \<Rightarrow> version_db \<Rightarrow> vstore \<Rightarrow> commit_id \<Rightarrow> bool" where
  "same_tree env db m c \<longleftrightarrow> tree_at env db c = Inr (canonical_tree env (snapshot_at m c))"

lemma make_commit_snapshot:
  assumes "make_commit env' fresh now scope ch meta m = (Inr c, m')"
  shows "c = CommitId fresh" "apply_changes env' ch (case head_of m (scope_key scope) of
      Some p \<Rightarrow> snapshot_at m p | None \<Rightarrow> []) = Inr (snapshot_at m' c)"
    "head_of m' sk = (if sk = scope_key scope then Some c else head_of m sk)"
proof -
  have attached: "advance_attached skey ps k s = Inr s1 \<Longrightarrow>
      entry_snapshots s1 = entry_snapshots s \<and> heads s1 = heads s" for skey ps k s s1
    by (auto simp: advance_attached_def Let_def split: option.splits if_splits)
  have "c = CommitId fresh \<and> apply_changes env' ch (case head_of m (scope_key scope) of
      Some p \<Rightarrow> snapshot_at m p | None \<Rightarrow> []) = Inr (snapshot_at m' c)
    \<and> head_of m' sk = (if sk = scope_key scope then Some c else head_of m sk)"
    using assms
    by (auto simp: make_commit_def Let_def snapshot_at_def set_head_def store_commit_def commit_record_def
        head_of_def hm_simps dest!: attached split: sum.splits option.splits)
  then show "c = CommitId fresh" "apply_changes env' ch (case head_of m (scope_key scope) of
      Some p \<Rightarrow> snapshot_at m p | None \<Rightarrow> []) = Inr (snapshot_at m' c)"
    "head_of m' sk = (if sk = scope_key scope then Some c else head_of m sk)"
    by blast+
qed

lemma make_commit_others:
  assumes "make_commit env' fresh now scope ch meta m = (Inr c, m')" "x \<noteq> c"
  shows "snapshot_at m' x = snapshot_at m x"
proof -
  have attached: "advance_attached skey ps k s = Inr s1 \<Longrightarrow> entry_snapshots s1 = entry_snapshots s" for skey ps k s s1
    by (auto simp: advance_attached_def Let_def split: option.splits if_splits)
  show ?thesis
    using assms
    by (auto simp: make_commit_def Let_def snapshot_at_def set_head_def store_commit_def commit_record_def
        hm_simps dest!: attached split: sum.splits option.splits)
qed

lemma canonical_empty: "canonical_tree env [] = Map.empty"
  by (rule ext) (simp add: canonical_tree_def)

text \<open>C5: with sound tables and a codec that reads back what it writes, when the SQLite store and the
  in-memory store have the same head and hold the same tree under it, and both accept the same commit whose changes touch pairwise different addresses (\<open>apart\<close>: no address
  is changed twice, and none is both the source of a rename and changed otherwise), they name it alike,
  hold the same tree under it, both move the head there, and still agree on all older commits on which
  they agreed. The order in which SQLite yields the change rows does not matter. Without the condition
  on the addresses the trees can differ, for instance for a chain of renames.\<close>

theorem commit_matches_memory:
  assumes "version_ok db" "codec_ok env" "\<forall>rows. mset (scan_rows env rows) = mset rows"
    and "head_of m (scope_key scope) = sql_get_head db (scope_key scope)"
    and "\<forall>p. sql_get_head db (scope_key scope) = Some p \<longrightarrow> same_tree env db m p"
    and "change_rows env ch = Inr rows" "apart rows"
    and "sql_commit env fresh now scope ch meta db = (Inr c, db')"
    and "make_commit (plain_env env) fresh now scope ch meta m = (Inr c', m')"
  shows "c' = c \<and> same_tree env db' m' c
    \<and> sql_get_head db' (scope_key scope) = Some c \<and> head_of m' (scope_key scope) = Some c
    \<and> (\<forall>x. hhas (vd_commits db) x \<and> same_tree env db m x \<longrightarrow> same_tree env db' m' x)"
proof -
  let ?skey = "scope_key scope" and ?par = "commit_parent scope db"
  from assms(8) have on: "commit_on env fresh now scope ch meta ?par db = (Inr c, db')"
    by (simp add: sql_commit_def)
  obtain k where k: "c = c_id k" "addable db k" "c_id k = CommitId fresh"
      "c_parents k = (case ?par of Some p \<Rightarrow> [p] | None \<Rightarrow> [])"
      "vd_parents db' = vd_parents (with_commit ?skey k rows db)"
      "vd_deltas db' = vd_deltas (with_commit ?skey k rows db)"
      "\<And>sk. sql_get_head db' sk = (if sk = ?skey then Some c else sql_get_head db sk)"
    using commit_on_effect [OF assms(1) on] assms(6) by (metis sum.inject(2))
  have trees: "tree_at env db' = tree_at env (with_commit ?skey k rows db)"
    by (rule tree_at_cong [OF k(5,6)])
  note mem = make_commit_snapshot [OF assms(9)]
  have same: "c' = c" using mem(1) k(1,3) by simp
  let ?base = "case head_of m ?skey of Some p \<Rightarrow> snapshot_at m p | None \<Rightarrow> []"
  have "tree_rows env (scan_rows env rows) t = tree_rows env rows t" for t
    using assms(3,7) change_rows_well_formed [OF assms(6)] by (intro tree_rows_perm) auto
  moreover have "tree_at env db' c = (case ?par of
      None \<Rightarrow> tree_rows env (scan_rows env rows) Map.empty
    | Some p \<Rightarrow> (case tree_at env db p of Inl e \<Rightarrow> Inl e | Inr t \<Rightarrow> tree_rows env (scan_rows env rows) t))"
    unfolding trees k(1) tree_at_new [OF k(2) apart_distinct [OF assms(7)]] k(4)
    by (simp split: option.split)
  moreover have "?par = sql_get_head db ?skey" by (simp add: commit_parent_def)
  ultimately have "tree_at env db' c = tree_rows env rows (canonical_tree env ?base)"
    using assms(4,5) by (auto simp: same_tree_def canonical_empty split: option.split)
  also have "\<dots> = canonical_result env (apply_changes (plain_env env) ch ?base)"
    using change_rows_match [OF assms(2), of ch ?base] assms(6) by simp
  finally have new: "same_tree env db' m' c"
    using mem(2) same by (simp add: same_tree_def)
  moreover have "same_tree env db' m' x" if "hhas (vd_commits db) x" "same_tree env db m x" for x
  proof -
    have "x \<noteq> c'" using that(1) k(1,2) same by (auto simp: addable_def)
    with that show ?thesis
      using trees tree_at_old [OF k(2) that(1), of env "scope_key scope" rows] make_commit_others [OF assms(9)]
      by (simp add: same_tree_def)
  qed
  ultimately show ?thesis using same k(7) mem(3) by simp
qed

definition sample_uri :: "string \<Rightarrow> context_uri" where
  "sample_uri p = \<lparr>u_tenant = ''t'', u_path = [p], u_query = None, u_canonical = ''uwu://t/'' @ p\<rparr>"

definition sample_add :: "string \<Rightarrow> string \<Rightarrow> change_set" where
  "sample_add p txt = default_change_set\<lparr>cs_adds := [new_text 0 (sample_uri p) (TenantId 7) txt]\<rparr>"

definition sample_next :: "uuid \<Rightarrow> change_set \<Rightarrow> version_db \<Rightarrow> version_db" where
  "sample_next fresh ch db = snd (sql_commit sample_env fresh 5 (sample_uri ''s'') ch default_commit_meta db)"

definition sample_store :: vstore where
  "sample_store = \<lparr>commits = [], entry_snapshots = [], branches = [], tags = [], heads = [],
     attached_branches = [], analysis_config = \<lparr>max_commits = 100\<rparr>\<rparr>"

definition sample_stored :: "uuid \<Rightarrow> change_set \<Rightarrow> vstore \<Rightarrow> vstore" where
  "sample_stored fresh ch m =
     snd (make_commit (plain_env sample_env) fresh 5 (sample_uri ''s'') ch default_commit_meta m)"

lemma sample_codec: "codec_ok sample_env"
  by (simp add: codec_ok_def canonical_def sample_env_def)

lemma sample_scan: "mset (scan_rows sample_env rows) = mset rows"
  by (simp add: sample_env_def)

lemma version_ok_next: "version_ok db \<Longrightarrow> version_ok (sample_next fresh ch db)"
  unfolding sample_next_def sql_commit_def by (rule commit_on_keeps)

text \<open>One commit on empty stores, and a second one on its result.\<close>

theorem commit_matches_memory_witness:
  "let db = sample_next 1 (sample_add ''a'' ''x'') version_db_empty;
       m = sample_stored 1 (sample_add ''a'' ''x'') sample_store;
       db' = sample_next 2 (sample_add ''b'' ''y'') db; m' = sample_stored 2 (sample_add ''b'' ''y'') m
   in same_tree sample_env db' m' (CommitId 1) \<and> same_tree sample_env db' m' (CommitId 2)"
proof -
  let ?s = "sample_uri ''s''" and ?a = "sample_add ''a'' ''x''" and ?b = "sample_add ''b'' ''y''"
  let ?db = "sample_next 1 ?a version_db_empty" and ?m = "sample_stored 1 ?a sample_store"
  let ?db' = "sample_next 2 ?b ?db" and ?m' = "sample_stored 2 ?b ?m"
  let ?rows = "\<lambda>ch. case change_rows sample_env ch of Inr rows \<Rightarrow> rows | Inl _ \<Rightarrow> []"
  have c1: "sql_commit sample_env 1 5 ?s ?a default_commit_meta version_db_empty = (Inr (CommitId 1), ?db)"
    "make_commit (plain_env sample_env) 1 5 ?s ?a default_commit_meta sample_store = (Inr (CommitId 1), ?m)"
    unfolding sample_next_def sample_stored_def prod_eq_iff fst_conv snd_conv by (code_simp, code_simp)
  have c2: "sql_commit sample_env 2 5 ?s ?b default_commit_meta ?db = (Inr (CommitId 2), ?db')"
    "make_commit (plain_env sample_env) 2 5 ?s ?b default_commit_meta ?m = (Inr (CommitId 2), ?m')"
    unfolding sample_next_def sample_stored_def prod_eq_iff fst_conv snd_conv by (code_simp, code_simp)
  have rows: "change_rows sample_env ?a = Inr (?rows ?a)" "apart (?rows ?a)"
    "change_rows sample_env ?b = Inr (?rows ?b)" "apart (?rows ?b)" by code_simp+
  have scan: "\<forall>rows. mset (scan_rows sample_env rows) = mset rows" by (simp add: sample_scan)
  have "head_of sample_store (scope_key ?s) = sql_get_head version_db_empty (scope_key ?s)"
    "sql_get_head version_db_empty (scope_key ?s) = None" by code_simp+
  with commit_matches_memory [OF version_empty_ok sample_codec scan _ _ rows(1,2) c1]
  have one: "same_tree sample_env ?db ?m (CommitId 1)" "sql_get_head ?db (scope_key ?s) = Some (CommitId 1)"
    "head_of ?m (scope_key ?s) = Some (CommitId 1)" by simp_all
  have "hhas (vd_commits ?db) (CommitId 1)" by code_simp
  with one commit_matches_memory [OF version_ok_next [OF version_empty_ok] sample_codec scan _ _ rows(3,4) c2]
  show ?thesis by (simp add: Let_def)
qed

section \<open>Concurrent commits\<close>

text \<open>Callers read the head, and later run their transaction with what they read. The log records the
  commits that were acknowledged, with their scope.\<close>

record commit_request =
  rq_scope :: context_uri
  rq_changes :: change_set
  rq_meta :: commit_meta
  rq_parent :: "commit_id option"

record commit_race =
  ra_db :: version_db
  ra_pending :: "(nat, commit_request) hmap"
  ra_acknowledged :: "(string \<times> commit_id) list"

inductive commit_step :: "sqlite_env \<Rightarrow> commit_race \<Rightarrow> commit_race \<Rightarrow> bool" for env where
  commit_reads:
    "hget (ra_pending s) i = None \<Longrightarrow>
     commit_step env s (s\<lparr>ra_pending := hput i \<lparr>rq_scope = scope, rq_changes = ch, rq_meta = meta,
       rq_parent = commit_parent scope (ra_db s)\<rparr> (ra_pending s)\<rparr>)"
| commit_succeeds:
    "hget (ra_pending s) i = Some q \<Longrightarrow>
     commit_on env fresh now (rq_scope q) (rq_changes q) (rq_meta q) (rq_parent q) (ra_db s) = (Inr c, db') \<Longrightarrow>
     commit_step env s (s\<lparr>ra_db := db', ra_pending := hdel i (ra_pending s),
       ra_acknowledged := (scope_key (rq_scope q), c) # ra_acknowledged s\<rparr>)"
| commit_fails:
    "hget (ra_pending s) i = Some q \<Longrightarrow>
     commit_on env fresh now (rq_scope q) (rq_changes q) (rq_meta q) (rq_parent q) (ra_db s) = (Inl e, db') \<Longrightarrow>
     commit_step env s (s\<lparr>ra_db := db', ra_pending := hdel i (ra_pending s)\<rparr>)"

inductive_cases commit_stepE: "commit_step env s s'"

text \<open>Every acknowledged commit is in the history of the head of its scope.\<close>

definition commits_kept :: "commit_race \<Rightarrow> bool" where
  "commits_kept s \<longleftrightarrow> (\<forall>(skey, c)\<in>set (ra_acknowledged s). \<exists>h. sql_get_head (ra_db s) skey = Some h
     \<and> (h, c) \<in> (parent_edges (ra_db s))\<^sup>*)"

lemma parent_edges_cong: "vd_parents db' = vd_parents db \<Longrightarrow> parent_edges db' = parent_edges db"
  by (simp add: parentgraph.edges_def load_parents_def)

lemma commit_on_fails: "commit_on env fresh now scope ch meta par db = (Inl e, db') \<Longrightarrow> db' = db"
  by (auto simp: commit_on_def version_tx_def split: sum.splits)

lemma commit_step_keeps:
  assumes "commit_step env s s'" "version_ok (ra_db s)" "commits_kept s"
  shows "version_ok (ra_db s') \<and> commits_kept s'"
  using assms(1)
proof (cases rule: commit_step.cases)
  case (commit_reads i scope ch meta)
  then show ?thesis using assms(2,3) by (simp add: commits_kept_def)
next
  case (commit_fails i q fresh now e db')
  then show ?thesis using assms(2,3) commit_on_fails by (fastforce simp: commits_kept_def)
next
  case (commit_succeeds i q fresh now c db')
  let ?skey = "scope_key (rq_scope q)"
  from commit_on_effect [OF assms(2) commit_succeeds(3)] obtain rows k where
    k: "c = c_id k" "addable (ra_db s) k" "c_parents k = (case rq_parent q of Some p \<Rightarrow> [p] | None \<Rightarrow> [])"
      "sql_get_head (ra_db s) ?skey = rq_parent q"
      "vd_parents db' = vd_parents (with_commit ?skey k rows (ra_db s))"
      "\<And>sk. sql_get_head db' sk = (if sk = ?skey then Some c else sql_get_head (ra_db s) sk)"
    by metis
  have edges: "parent_edges db' = parent_edges (ra_db s) \<union> {c} \<times> set (c_parents k)"
    using parent_edges_cong [OF k(5)] edges_with [OF k(2)] k(1) by simp
  have "\<exists>h. sql_get_head db' sk = Some h \<and> (h, x) \<in> (parent_edges db')\<^sup>*"
    if old: "(sk, x) \<in> set (ra_acknowledged s)" for sk x
  proof -
    obtain h where h: "sql_get_head (ra_db s) sk = Some h" "(h, x) \<in> (parent_edges (ra_db s))\<^sup>*"
      using assms(3) old by (auto simp: commits_kept_def)
    have "(parent_edges (ra_db s))\<^sup>* \<subseteq> (parent_edges db')\<^sup>*"
      by (rule rtrancl_mono) (simp add: edges)
    with h(2) have path: "(h, x) \<in> (parent_edges db')\<^sup>*" by blast
    show ?thesis
    proof (cases "sk = ?skey")
      case True
      with h(1) k(3,4) have "(c, h) \<in> parent_edges db'" by (simp add: edges)
      with path True k(6) show ?thesis by (auto intro: converse_rtrancl_into_rtrancl)
    next
      case False
      with h(1) path k(6) show ?thesis by simp
    qed
  qed
  moreover have "sql_get_head db' ?skey = Some c" by (simp add: k(6))
  moreover have "version_ok db'"
    using commit_on_keeps [OF assms(2), of env fresh now "rq_scope q" "rq_changes q" "rq_meta q" "rq_parent q"]
      commit_succeeds(3) by simp
  ultimately show ?thesis using commit_succeeds(1) by (auto simp: commits_kept_def)
qed

text \<open>C6: however commits of concurrent callers interleave, each reading the head before its
  transaction, a commit that was acknowledged stays in the history of the head of its scope: a caller
  whose head has moved is refused and changes nothing.\<close>

theorem no_commit_lost:
  assumes "(commit_step env)\<^sup>*\<^sup>* \<lparr>ra_db = db, ra_pending = [], ra_acknowledged = []\<rparr> s" "version_ok db"
    and "(skey, c) \<in> set (ra_acknowledged s)"
  shows "\<exists>h. sql_get_head (ra_db s) skey = Some h \<and> (h, c) \<in> (parent_edges (ra_db s))\<^sup>*"
proof -
  from assms(1) have "version_ok (ra_db s) \<and> commits_kept s"
  proof (induction rule: rtranclp_induct)
    case base
    then show ?case using assms(2) by (simp add: commits_kept_def)
  next
    case (step s1 s2)
    then show ?case using commit_step_keeps by blast
  qed
  with assms(3) show ?thesis by (auto simp: commits_kept_def)
qed

text \<open>Two callers read the same head; the first commits, the second is refused.\<close>

theorem no_commit_lost_witness:
  "let db = sample_next 1 (sample_add ''a'' ''x'') version_db_empty;
       db' = sample_next 2 (sample_add ''b'' ''y'') db
   in \<exists>h. sql_get_head db' ''uwu://t/s'' = Some h \<and> (h, CommitId 2) \<in> (parent_edges db')\<^sup>*"
proof -
  let ?s = "sample_uri ''s''" and ?b = "sample_add ''b'' ''y''"
  let ?db = "sample_next 1 (sample_add ''a'' ''x'') version_db_empty"
  let ?db' = "sample_next 2 ?b ?db"
  define q where "q = \<lparr>rq_scope = ?s, rq_changes = ?b, rq_meta = default_commit_meta, rq_parent = Some (CommitId 1)\<rparr>"
  define race where "race d p l = \<lparr>ra_db = d, ra_pending = p, ra_acknowledged = l\<rparr>"
    for d and p :: "(nat, commit_request) hmap" and l
  have par: "commit_parent ?s ?db = Some (CommitId 1)" by code_simp
  have "commit_step sample_env (race ?db [] []) (race ?db [(0, q)] [])"
    using commit_step.commit_reads [of "race ?db [] []" 0 sample_env ?s ?b default_commit_meta] par
    by (simp add: race_def q_def hput_def)
  moreover have "commit_step sample_env (race ?db [(0, q)] []) (race ?db [(0, q), (1, q)] [])"
    using commit_step.commit_reads [of "race ?db [(0, q)] []" 1 sample_env ?s ?b default_commit_meta] par
    by (simp add: race_def q_def hput_def hget_def)
  moreover have "commit_step sample_env (race ?db [(0, q), (1, q)] [])
      (race ?db' [(1, q)] [(scope_key ?s, CommitId 2)])"
  proof -
    have "fst (commit_on sample_env 2 5 ?s ?b default_commit_meta (commit_parent ?s ?db) ?db) = Inr (CommitId 2)"
      by code_simp
    then have "commit_on sample_env 2 5 ?s ?b default_commit_meta (Some (CommitId 1)) ?db = (Inr (CommitId 2), ?db')"
      using par by (simp add: sample_next_def sql_commit_def prod_eq_iff)
    then show ?thesis
      using commit_step.commit_succeeds [of "race ?db [(0, q), (1, q)] []" 0 q sample_env 2 5]
      by (simp add: race_def q_def hget_def hdel_def)
  qed
  moreover have "commit_step sample_env (race ?db' [(1, q)] [(scope_key ?s, CommitId 2)])
      (race ?db' [] [(scope_key ?s, CommitId 2)])"
  proof -
    have "fst (commit_on sample_env 3 5 ?s ?b default_commit_meta (Some (CommitId 1)) ?db')
        = Inl (VStorage ''HEAD for uwu://t/s changed concurrently'')"
      by code_simp
    then obtain e where "commit_on sample_env 3 5 ?s ?b default_commit_meta (Some (CommitId 1)) ?db' = (Inl e, ?db')"
      using commit_on_fails by (metis prod.collapse)
    then show ?thesis
      using commit_step.commit_fails [of "race ?db' [(1, q)] [(scope_key ?s, CommitId 2)]" 1 q sample_env 3 5]
      by (simp add: race_def q_def hget_def hdel_def)
  qed
  ultimately have run: "(commit_step sample_env)\<^sup>*\<^sup>* (race ?db [] []) (race ?db' [] [(scope_key ?s, CommitId 2)])"
    by (meson rtranclp.rtrancl_refl rtranclp.rtrancl_into_rtrancl)
  have "scope_key ?s = ''uwu://t/s''" by code_simp
  with no_commit_lost [OF run [unfolded race_def] version_ok_next [OF version_empty_ok], of "scope_key ?s" "CommitId 2"]
  show ?thesis by (simp add: Let_def)
qed

end
