(* ===== verification/Sqlite_Collecting.thy ===== *)
theory Sqlite_Collecting
  imports Sqlite_Committing
begin

text \<open>
  Garbage collection in the SQLite commit store: what it removes, and that nothing that a head, a
  branch or a tag of any scope still reaches is lost or changed.
\<close>

section \<open>Deleting a commit\<close>

definition kept_commits :: "('x) sqlite_env_scheme \<Rightarrow> version_db \<Rightarrow> version_db \<Rightarrow> bool" where
  "kept_commits env db db' \<longleftrightarrow> (\<forall>c. hhas (vd_commits db') c \<longrightarrow> hhas (vd_commits db) c
     \<and> load_commit db' c = load_commit db c \<and> tree_at env db' c = tree_at env db c)"

lemma kept_commits_refl: "kept_commits env db db"
  by (simp add: kept_commits_def)

lemma kept_commits_trans: "kept_commits env a b \<Longrightarrow> kept_commits env b c \<Longrightarrow> kept_commits env a c"
  by (simp add: kept_commits_def)

lemma delete_commit_row_cases:
  assumes "delete_commit_row env skey c db = Inr (u, db')"
  obtains (same) "db' = db" "\<not> commit_in_scope db skey c"
    | (gone) "commit_in_scope db skey c" "\<forall>p\<in>set (vd_parents db). pr_parent p \<noteq> c"
        "db' = db\<lparr>vd_commits := hdel c (vd_commits db),
           vd_parents := filter (\<lambda>p. pr_commit p \<noteq> c) (vd_parents db),
           vd_deltas := filter (\<lambda>((c', _), _). c' \<noteq> c) (vd_deltas db),
           vd_checkpoints := hdel c (vd_checkpoints db)\<rparr>"
  using assms
  by (auto simp: delete_commit_row_def commit_in_scope_def list_ex_iff split: option.splits if_splits)

lemma delete_commit_row_parents:
  assumes "delete_commit_row env skey c db = Inr (u, db')" "commit_in_scope db skey c"
  shows "load_parents db' x = (if x = c then [] else load_parents db x)"
    "load_deltas env db' x = (if x = c then scan_rows env [] else load_deltas env db x)"
  using assms(1)
proof (atomize(full), cases rule: delete_commit_row_cases)
  case gone
  have "filter (\<lambda>r. pr_commit r = x) (filter (\<lambda>r. pr_commit r \<noteq> c) (vd_parents db)) =
      (if x = c then [] else filter (\<lambda>r. pr_commit r = x) (vd_parents db))"
    by (auto simp: filter_empty_conv intro!: filter_cong)
  moreover have "filter (\<lambda>((c', _), _). c' = x) (filter (\<lambda>((c', _), _). c' \<noteq> c) (vd_deltas db)) =
      (if x = c then [] else filter (\<lambda>((c', _), _). c' = x) (vd_deltas db))"
    by (auto simp: filter_empty_conv intro!: filter_cong)
  ultimately show "load_parents db' x = (if x = c then [] else load_parents db x) \<and>
      load_deltas env db' x = (if x = c then scan_rows env [] else load_deltas env db x)"
    using gone(3) by (simp add: load_parents_def load_deltas_def)
qed (use assms(2) in blast)

lemma first_line_without:
  assumes "\<forall>x. x \<noteq> c \<longrightarrow> load_parents db' x = load_parents db x" "\<forall>r\<in>set (vd_parents db). pr_parent r \<noteq> c"
    and "cur \<noteq> c" "c \<notin> set chain"
  shows "first_line db' chain cur = first_line db chain cur \<and> c \<notin> set (first_line db chain cur)"
  using assms
proof (induction db chain cur rule: first_line.induct)
  case (1 db chain cur)
  have same: "first_parent_row db' cur = first_parent_row db cur"
    using 1(2,4) by (simp add: first_parent_row_def)
  show ?case
  proof (cases "first_parent_row db cur")
    case None
    with 1(5) same show ?thesis by (simp add: first_line.simps [of _ chain cur])
  next
    case (Some p)
    then have "p \<noteq> c" using first_parent_row_listed [OF Some] 1(3) by auto
    with 1(1) [OF Some] 1(2-5) Some same show ?thesis
      by (auto simp: first_line.simps [of _ chain cur])
  qed
qed

lemma replay_rows_agree:
  "\<forall>c\<in>set cs. load_deltas env db' c = load_deltas env db c \<Longrightarrow>
   replay_rows env db' cs t = replay_rows env db cs t"
  by (induction cs arbitrary: t) (auto split: sum.split)

lemma delete_commit_row_kept:
  assumes "delete_commit_row env skey c db = Inr (u, db')"
  shows "kept_commits env' db db'"
  using assms
proof (cases rule: delete_commit_row_cases)
  case same
  then show ?thesis by (simp add: kept_commits_refl)
next
  case gone
  note rows = delete_commit_row_parents [OF assms gone(1)]
  have deltas: "load_deltas env' db' x = load_deltas env' db x" if "x \<noteq> c" for x
  proof -
    have "filter (\<lambda>((c', _), _). c' = x) (filter (\<lambda>((c', _), _). c' \<noteq> c) (vd_deltas db)) =
        filter (\<lambda>((c', _), _). c' = x) (vd_deltas db)"
      using that by (auto intro!: filter_cong)
    with gone(3) show ?thesis by (simp add: load_deltas_def)
  qed
  show ?thesis
    unfolding kept_commits_def
  proof (intro allI impI)
    fix x assume "hhas (vd_commits db') x"
    then have x: "x \<noteq> c" "hget (vd_commits db') x = hget (vd_commits db) x" "hhas (vd_commits db) x"
      using gone(3) by (auto simp: hhas_def hm_simps split: if_splits)
    have line: "first_line db' [x] x = first_line db [x] x \<and> c \<notin> set (first_line db [x] x)"
      using rows(1) gone(2) x(1) by (intro first_line_without) simp_all
    moreover have "\<forall>y\<in>set (rev (first_line db [x] x)). load_deltas env' db' y = load_deltas env' db y"
    proof
      fix y assume "y \<in> set (rev (first_line db [x] x))"
      with line have "y \<noteq> c" by auto
      then show "load_deltas env' db' y = load_deltas env' db y" by (rule deltas)
    qed
    ultimately have "tree_at env' db' x = tree_at env' db x"
      unfolding tree_at_def by (simp add: replay_rows_agree)
    then show "hhas (vd_commits db) x \<and> load_commit db' x = load_commit db x \<and> tree_at env' db' x = tree_at env' db x"
      using x rows(1) [of x] by (simp add: load_commit_def split: option.split)
  qed
qed

lemma delete_commit_row_gone:
  "delete_commit_row env skey c db = Inr (u, db') \<Longrightarrow>
   commit_in_scope db' skey x \<longleftrightarrow> commit_in_scope db skey x \<and> x \<noteq> c"
  "delete_commit_row env skey c db = Inr (u, db') \<Longrightarrow>
   hhas (vd_commits db') x \<longleftrightarrow> hhas (vd_commits db) x \<and> \<not> (x = c \<and> commit_in_scope db skey c)"
  by (auto elim!: delete_commit_row_cases simp: commit_in_scope_def hhas_def hm_simps split: if_splits)

lemma delete_commit_rows_kept:
  "delete_commit_rows env skey ids db = Inr (u, db') \<Longrightarrow>
   kept_commits env' db db' \<and> vd_heads db' = vd_heads db \<and> vd_branches db' = vd_branches db
   \<and> vd_tags db' = vd_tags db
   \<and> (\<forall>x. hhas (vd_commits db') x \<longleftrightarrow> hhas (vd_commits db) x \<and> \<not> (x \<in> set ids \<and> commit_in_scope db skey x))"
proof (induction ids arbitrary: db)
  case (Cons c ids)
  then obtain db1 where one: "delete_commit_row env skey c db = Inr ((), db1)"
    and rest: "delete_commit_rows env skey ids db1 = Inr (u, db')"
    by (auto simp: tx_then_Inr)
  have "vd_heads db1 = vd_heads db \<and> vd_branches db1 = vd_branches db \<and> vd_tags db1 = vd_tags db"
    using one by (auto elim!: delete_commit_row_cases)
  with Cons(1) [OF rest] kept_commits_trans [OF delete_commit_row_kept [OF one, of env']]
    delete_commit_row_gone [OF one]
  show ?case by auto
qed (simp add: kept_commits_refl)

section \<open>What collection keeps\<close>

lemma collectable_in_scope:
  "hm_wf (vd_commits db) \<Longrightarrow> c \<in> set (collectable skey keep cutoff db) \<Longrightarrow> commit_in_scope db skey c"
  by (auto simp: collectable_def Let_def commit_in_scope_def hget_eq_Some_iff)

lemma protected_known:
  assumes "version_ok db" "h \<in> set (protected_refs skey db)"
  shows "hhas (vd_commits db) h"
proof -
  have "commit_in_scope db skey h"
    using assms
    by (auto simp: protected_refs_def version_ok_def heads_ok_def branches_ok_def tags_ok_def sql_get_head_def
        hget_eq_Some_iff [symmetric] split: option.splits)
  then show ?thesis by (rule commit_in_scope_known)
qed

lemma kept_reachable:
  assumes "version_ok db'" "kept_commits env db db'" "(h, c) \<in> (parent_edges db)\<^sup>*" "hhas (vd_commits db') h"
  shows "hhas (vd_commits db') c"
  using assms(3,4)
proof (induction rule: converse_rtrancl_induct)
  case (step y z)
  have "load_commit db' y = load_commit db y" using assms(2) step(4) by (simp add: kept_commits_def)
  then have "load_parents db' y = load_parents db y"
    using step(4) by (auto simp: load_commit_def hhas_def split: option.splits)
  with step(1) have "z \<in> set (load_parents db' y)" by (simp add: parentgraph.edges_def)
  then have "hhas (vd_commits db') z"
    using assms(1) by (auto simp: load_parents_rows version_ok_def parents_ok_def)
  with step show ?case by simp
qed simp

lemma evict_db: "vq_db (fold (cache_del_snapshot env) ids s) = vq_db s"
  by (induction ids arbitrary: s) (simp_all add: cache_del_snapshot_def)

text \<open>C9: garbage collection in a sound store leaves heads, branches and tags alone; a commit that it
  does not remove keeps its record and its tree, and no commit that a head, a branch or a tag of any
  scope reaches along parents is removed. If it fails it removes nothing, and otherwise exactly the
  commits of the scope past the age limit that are neither reachable nor among the newest.\<close>

theorem gc_keeps_history:
  assumes "version_ok (vq_db s)" "sql_gc env now scope policy s = (r, s')"
  shows "vd_heads (vq_db s') = vd_heads (vq_db s) \<and> vd_branches (vq_db s') = vd_branches (vq_db s)
    \<and> vd_tags (vq_db s') = vd_tags (vq_db s)
    \<and> (\<forall>c. hhas (vd_commits (vq_db s')) c \<longrightarrow> load_commit (vq_db s') c = load_commit (vq_db s) c
         \<and> tree_at env (vq_db s') c = tree_at env (vq_db s) c)
    \<and> (\<forall>skey h c. h \<in> set (protected_refs skey (vq_db s)) \<and> (h, c) \<in> (parent_edges (vq_db s))\<^sup>*
         \<longrightarrow> hhas (vd_commits (vq_db s')) c)
    \<and> (case r of Inl e \<Rightarrow> vq_db s' = vq_db s
       | Inr report \<Rightarrow> {c. hhas (vd_commits (vq_db s)) c \<and> \<not> hhas (vd_commits (vq_db s')) c} =
           set (collectable (scope_key scope) (gp_keep_recent policy)
             (now - days_ns (gp_max_age_days policy)) (vq_db s)))"
proof -
  let ?skey = "scope_key scope" and ?db = "vq_db s"
  let ?ids = "collectable ?skey (gp_keep_recent policy) (now - days_ns (gp_max_age_days policy)) ?db"
  note inv = vspecD [OF gc_keeps assms(1) TrueI assms(2)]
  have parts: "kept_commits env ?db (vq_db s') \<and> vd_heads (vq_db s') = vd_heads ?db
      \<and> vd_branches (vq_db s') = vd_branches ?db \<and> vd_tags (vq_db s') = vd_tags ?db
      \<and> (case r of Inl e \<Rightarrow> vq_db s' = ?db
         | Inr report \<Rightarrow> {c. hhas (vd_commits ?db) c \<and> \<not> hhas (vd_commits (vq_db s')) c} = set ?ids)"
  proof (cases "delete_commit_rows env ?skey ?ids ?db")
    case (Inl e)
    with assms(2) show ?thesis
      by (auto simp: sql_gc_def Let_def sql_then_def sql_ask_def sql_run_def version_tx_def kept_commits_refl)
  next
    case (Inr x)
    then obtain db' where del: "delete_commit_rows env ?skey ?ids ?db = Inr ((), db')" by (cases x) auto
    with assms(2) have r: "vq_db s' = db'" "\<exists>report. r = Inr report"
      by (auto simp: sql_gc_def Let_def sql_then_def sql_ask_def sql_run_def version_tx_def evict_db)
    have "commit_in_scope ?db ?skey c \<and> hhas (vd_commits ?db) c" if "c \<in> set ?ids" for c
      using collectable_in_scope [OF _ that] assms(1) commit_in_scope_known by (auto simp: version_ok_def)
    with delete_commit_rows_kept [OF del, of env] r show ?thesis by auto
  qed
  have "hhas (vd_commits (vq_db s')) c"
    if "h \<in> set (protected_refs skey ?db)" "(h, c) \<in> (parent_edges ?db)\<^sup>*" for skey h c
  proof -
    have "protected_refs skey (vq_db s') = protected_refs skey ?db"
      using parts by (simp add: protected_refs_def sql_get_head_def)
    then have "hhas (vd_commits (vq_db s')) h" using protected_known [of "vq_db s'" h skey] inv that(1) by simp
    with kept_reachable inv parts that(2) show ?thesis by blast
  qed
  with parts show ?thesis by (auto simp: kept_commits_def)
qed

definition sample_left_behind :: version_sql where
  "sample_left_behind =
     (let db = sample_next 2 (sample_add ''b'' ''y'') (sample_next 1 (sample_add ''a'' ''x'') version_db_empty);
          db1 = snd (sql_create_branch sample_env 6 (sample_uri ''s'') (BranchName ''old'') (CommitId 1) Main db)
      in \<lparr>vq_db = snd (sql_switch_head sample_env (sample_uri ''s'') (BranchName ''old'') db1), vq_cache = None\<rparr>)"

lemma left_behind_ok: "version_ok (vq_db sample_left_behind)"
  unfolding sample_left_behind_def Let_def version_sql.simps
  by (intro switch_head_keeps create_branch_keeps version_ok_next version_empty_ok)

text \<open>HEAD went back to commit 1, so that nothing reaches commit 2.\<close>

theorem gc_keeps_history_witness:
  "case sql_gc sample_env (days_ns 2) (sample_uri ''s'') \<lparr>gp_keep_recent = 0, gp_max_age_days = 1\<rparr>
      sample_left_behind of (r, s') \<Rightarrow>
     hhas (vd_commits (vq_db s')) (CommitId 1) \<and> \<not> hhas (vd_commits (vq_db s')) (CommitId 2)
     \<and> tree_at sample_env (vq_db s') (CommitId 1) = tree_at sample_env (vq_db sample_left_behind) (CommitId 1)"
proof -
  let ?policy = "\<lparr>gp_keep_recent = 0, gp_max_age_days = 1\<rparr>" and ?s = sample_left_behind
  obtain r s' where run: "sql_gc sample_env (days_ns 2) (sample_uri ''s'') ?policy ?s = (r, s')" by force
  have "\<exists>report. fst (sql_gc sample_env (days_ns 2) (sample_uri ''s'') ?policy ?s) = Inr report"
    by (rule exI [of _ "\<lparr>gr_removed_commits = 1, gr_freed_snapshots = 1\<rparr>"]) code_simp
  with run obtain report where r: "r = Inr report" by auto
  have ids: "collectable (scope_key (sample_uri ''s'')) 0 (days_ns 2 - days_ns 1) (vq_db ?s) = [CommitId 2]"
    "CommitId 1 \<in> set (protected_refs (scope_key (sample_uri ''s'')) (vq_db ?s))" by code_simp+
  note keeps = gc_keeps_history [OF left_behind_ok run]
  from keeps ids(2) have "hhas (vd_commits (vq_db s')) (CommitId 1)" by blast
  moreover from keeps r ids(1) have "\<not> hhas (vd_commits (vq_db s')) (CommitId 2)" by auto
  ultimately show ?thesis using keeps run by simp
qed

end
