(* ===== verification/Sqlite_Merging.thy ===== *)
theory Sqlite_Merging
  imports Sqlite_Collecting Version_Merging
begin

text \<open>
  Merging in the SQLite commit store: the tree of a merge commit is the three-way merge of the trees
  of the two heads against their merge base.
\<close>

section \<open>Snapshots as hash maps\<close>

text \<open>What the two cache levels hold are hash maps.\<close>

definition snapshots_wf :: "version_sql \<Rightarrow> bool" where
  "snapshots_wf s \<longleftrightarrow> (\<forall>m k snap. vq_cache s = Some m \<and> hget m k = Some snap \<longrightarrow> hm_wf snap)
     \<and> (\<forall>c r. hget (vd_checkpoints (vq_db s)) c = Some r \<longrightarrow> hm_wf (cp_snapshot r))"

lemma apply_delta_wf: "apply_delta env d snap = Inr snap' \<Longrightarrow> hm_wf snap \<Longrightarrow> hm_wf snap'"
  by (auto simp: apply_delta_def hm_simps split: if_splits option.splits)

lemma apply_deltas_wf: "apply_deltas env ds snap = Inr snap' \<Longrightarrow> hm_wf snap \<Longrightarrow> hm_wf snap'"
  by (induction ds arbitrary: snap) (auto split: sum.splits dest: apply_delta_wf)

lemma replay_wf: "replay env db cs snap = Inr snap' \<Longrightarrow> hm_wf snap \<Longrightarrow> hm_wf snap'"
  by (induction cs arbitrary: snap) (auto split: sum.splits dest: apply_deltas_wf)

lemma cached_wf: "snapshots_wf s \<Longrightarrow> cache_get_snapshot env c s = Some snap \<Longrightarrow> hm_wf snap"
  by (auto simp: snapshots_wf_def cache_get_snapshot_def split: option.splits)

lemma cache_put_wf: "snapshots_wf s \<Longrightarrow> hm_wf snap \<Longrightarrow> snapshots_wf (cache_put_snapshot env c snap s)"
  by (auto simp: snapshots_wf_def cache_put_snapshot_def hm_simps split: if_splits)

lemma checkpoint_wf:
  "snapshots_wf s \<Longrightarrow> checkpoint_get now c s = (r, s') \<Longrightarrow> snapshots_wf s' \<and> (\<forall>snap. r = Some snap \<longrightarrow> hm_wf snap)"
  by (auto simp: snapshots_wf_def checkpoint_get_def checkpoint_touch_def Let_def hm_simps
      split: option.splits if_splits)

lemma walk_line_wf:
  "snapshots_wf s \<Longrightarrow> walk_line env now chain cur s = (chain', seeded, s') \<Longrightarrow>
   snapshots_wf s' \<and> (\<forall>snap. seeded = Some snap \<longrightarrow> hm_wf snap)"
proof (induction env now chain cur s arbitrary: chain' seeded s' rule: walk_line.induct)
  case (1 env now chain cur s)
  show ?case
  proof (cases "first_parent_row (vq_db s) cur")
    case None
    with 1(2,3) show ?thesis by (simp add: walk_line.simps [of env now chain cur s])
  next
    case (Some p)
    obtain q s1 where get: "checkpoint_get now p s = (q, s1)" by force
    note s1 = checkpoint_wf [OF 1(2) get]
    show ?thesis
    proof (cases "p \<in> set chain \<or> cache_get_snapshot env p s \<noteq> None \<or> q \<noteq> None")
      case True
      with 1(2,3) Some get s1 show ?thesis
        by (auto simp: walk_line.simps [of env now chain cur s] cached_wf cache_put_wf
            split: if_splits option.splits)
    next
      case False
      then have miss: "p \<notin> set chain" "cache_get_snapshot env p s = None" "q = None" by auto
      have "walk_line env now (chain @ [p]) p s1 = (chain', seeded, s')"
        using 1(3) unfolding walk_line.simps [of env now chain cur s]
        by (simp only: Some miss get option.case prod.case if_False simp_thms)
      with 1(1) [OF Some miss(1,2) get [unfolded miss(3), symmetric] refl] s1 show ?thesis by simp
    qed
  qed
qed

lemma reconstruct_wf:
  assumes "snapshots_wf s" "reconstruct_snapshot env cfg now c s = (r, s')"
  shows "snapshots_wf s' \<and> (\<forall>snap. r = Inr snap \<longrightarrow> hm_wf snap)"
proof -
  obtain q s1 where get: "checkpoint_get now c s = (q, s1)" by force
  note s1 = checkpoint_wf [OF assms(1) get]
  obtain chain seeded s2 where walk: "walk_line env now [c] c s1 = (chain, seeded, s2)"
    by (metis prod_cases3)
  note s2 = walk_line_wf [OF conjunct1 [OF s1] walk]
  then have start: "hm_wf (case seeded of Some snap \<Rightarrow> snap | None \<Rightarrow> [])" by (simp split: option.split)
  show ?thesis
    using assms get s1 s2 walk replay_wf [OF _ start]
    by (auto simp: reconstruct_snapshot_def Let_def checkpoint_put_none cached_wf cache_put_wf
        split: option.splits sum.splits prod.splits if_splits)
qed

section \<open>Exact reads\<close>

definition reads_exactly :: "('x) sqlite_env_scheme \<Rightarrow> version_sql \<Rightarrow> bool" where
  "reads_exactly env s \<longleftrightarrow> version_ok (vq_db s) \<and> caches_agree env s \<and> snapshots_wf s"

lemma reconstruct_exact:
  assumes "inj (uuid_display env)" "reads_exactly env s" "hhas (vd_commits (vq_db s)) c"
    and "reconstruct_snapshot env cfg now c s = (r, s')"
  shows "reads_exactly env s'" "same_commits (vq_db s) (vq_db s')" "tree_of r = tree_at env (vq_db s) c"
    "r = Inr snap \<Longrightarrow> hm_wf snap"
proof -
  have ok: "parents_ok (vq_db s)" "caches_agree env s"
    using assms(2) by (auto simp: reads_exactly_def version_ok_def)
  note tree = reconstruct_tree [OF assms(1) ok assms(3), of cfg now, unfolded assms(4) fst_conv snd_conv]
  note wf = reconstruct_wf [OF _ assms(4)]
  from tree show "same_commits (vq_db s) (vq_db s')" "tree_of r = tree_at env (vq_db s) c" by simp_all
  with tree wf assms(2) show "reads_exactly env s'" by (auto simp: reads_exactly_def version_ok_same)
  from wf assms(2) show "r = Inr snap \<Longrightarrow> hm_wf snap" by (auto simp: reads_exactly_def)
qed

text \<open>Everything in a tree is the text of a value.\<close>

definition texts :: "('x) sqlite_env_scheme \<Rightarrow> row_tree \<Rightarrow> bool" where
  "texts env t \<longleftrightarrow> (\<forall>k v. t k = Some v \<longrightarrow> v \<in> range (value_text env))"

lemma tree_rows_texts: "tree_rows env ds t = Inr t' \<Longrightarrow> texts env t \<Longrightarrow> texts env t'"
proof (induction ds arbitrary: t)
  case (Cons d ds)
  then obtain t1 where one: "tree_row env d t = Inr t1" "tree_rows env ds t1 = Inr t'"
    by (auto split: sum.splits)
  have "texts env t1"
    using one(1) Cons(3) by (auto simp: tree_row_def texts_def split: if_splits option.splits)
  with Cons(1) one(2) show ?case by blast
qed simp

lemma replay_rows_texts: "replay_rows env db cs t = Inr t' \<Longrightarrow> texts env t \<Longrightarrow> texts env t'"
  by (induction cs arbitrary: t) (auto split: sum.splits dest: tree_rows_texts)

lemma tree_at_texts: "tree_at env db c = Inr t \<Longrightarrow> texts env t"
  unfolding tree_at_def by (erule replay_rows_texts) (simp add: texts_def)

section \<open>The loop over the keys\<close>

text \<open>When branches have diverged, fast-forward takes the other side.\<close>

definition plain_strategy :: "merge_strategy \<Rightarrow> merge_strategy" where
  "plain_strategy st = (if st = FastForward then Theirs else st)"

lemma merge_rows_plain:
  "merge_rows_loop env st base into from ks m cs = Inr r \<Longrightarrow>
   merge_loop (plain_env env) (plain_strategy st) base into from ks m cs = Inr r"
proof (induction ks arbitrary: m cs)
  case (Cons x ks)
  then show ?case
    by (cases st) (auto simp: Let_def plain_strategy_def version_env.truncate_def split: if_splits sum.splits)
qed simp

lemma merge_rows_result:
  assumes "merge_rows_loop env st base into from (merge_keys base from into) into [] = Inr (m, cs)"
  shows "hget m = (\<lambda>k. merged_value (plain_strategy st) (hget base k) (hget into k) (hget from k))"
    "set (map u_canonical cs) = (if st = ThreeWay then {k. clash (hget base k) (hget into k) (hget from k)} else {})"
proof -
  note plain = merge_rows_plain [OF assms]
  show "hget m = (\<lambda>k. merged_value (plain_strategy st) (hget base k) (hget into k) (hget from k))"
    by (rule ext) (rule merge_snapshot(1) [OF plain])
  have keys: "k \<in> set (merge_keys base from into)" if "clash (hget base k) (hget into k) (hget from k)" for k
    using merge_keys_all(2) [of k base "from" into] that by (cases "k \<in> set (merge_keys base from into)") (auto simp: clash_def)
  have "reports (plain_strategy st) \<longleftrightarrow> st = ThreeWay"
    by (cases st) (auto simp: reports_def plain_strategy_def)
  with merge_snapshot(2) [OF plain] keys
  show "set (map u_canonical cs) = (if st = ThreeWay then {k. clash (hget base k) (hget into k) (hget from k)} else {})"
    by (auto simp: clashes_def simp del: set_map)
qed

lemma merge_rows_wf:
  "merge_rows_loop env st base into from ks m cs = Inr (m', cs') \<Longrightarrow> hm_wf m \<Longrightarrow> hm_wf m'"
proof (induction ks arbitrary: m cs)
  case (Cons x ks)
  have put: "hm_wf (put_opt x v m)" for v
    using Cons(3) by (simp add: put_opt_def hm_simps split: option.split)
  from Cons put show ?case
    by (cases st) (auto simp: Let_def split: if_splits sum.splits)
qed simp

section \<open>The merge commit\<close>

lemma known_reachable:
  assumes "parents_ok db" "(a, c) \<in> (parent_edges db)\<^sup>*" "hhas (vd_commits db) a"
  shows "hhas (vd_commits db) c"
  using assms(2,3)
proof (induction rule: rtrancl_induct)
  case (step y z)
  from step(2) have "z \<in> set (load_parents db y)" by (simp add: parentgraph.edges_def)
  then show ?case using assms(1) by (auto simp: load_parents_rows parents_ok_def)
qed

lemma row_first_common_ancestor: "row_first_common db ancs seen queue = Some c \<Longrightarrow> c \<in> set ancs"
  by (induction db ancs seen queue rule: row_first_common.induct) (auto split: if_splits)

lemma merge_base_known:
  assumes "version_ok db" "hhas (vd_commits db) a" "row_merge_base db a b = Some c"
  shows "hhas (vd_commits db) c"
proof -
  have "(a, c) \<in> (parent_edges db)\<^sup>*"
    using row_first_common_ancestor [OF assms(3) [unfolded row_merge_base_def]] kept_set [of db "[a]"]
    by (simp only: list.set UN_insert UN_empty Un_empty_right parentgraph.reach_def mem_Collect_eq)
  with known_reachable assms(1,2) show ?thesis by (auto simp: version_ok_def)
qed

definition base_tree :: "('x) sqlite_env_scheme \<Rightarrow> version_db \<Rightarrow> commit_id option \<Rightarrow> version_error + row_tree" where
  "base_tree env db base = (case base of None \<Rightarrow> Inr Map.empty | Some b \<Rightarrow> tree_at env db b)"

lemma read_base_exact:
  assumes "inj (uuid_display env)" "reads_exactly env s" "\<forall>b. base = Some b \<longrightarrow> hhas (vd_commits (vq_db s)) b"
    and "snapshot_or_empty env cfg now base s = (Inr snap, s')"
  shows "reads_exactly env s' \<and> same_commits (vq_db s) (vq_db s') \<and> base_tree env (vq_db s) base = Inr (hget snap)"
proof (cases base)
  case None
  with assms show ?thesis by (simp add: snapshot_or_empty_def sql_give_def base_tree_def hget_Nil_fun)
next
  case (Some b)
  with assms(3,4) have "hhas (vd_commits (vq_db s)) b" "reconstruct_snapshot env cfg now b s = (Inr snap, s')"
    by (simp_all add: snapshot_or_empty_def)
  with reconstruct_exact [OF assms(1,2) this] Some show ?thesis by (simp add: base_tree_def)
qed

lemma publish_effect:
  assumes "version_ok db" "move_branch_and_head env what skey name expected c db = Inr (u, db')"
  shows "vd_parents db' = vd_parents db \<and> vd_deltas db' = vd_deltas db \<and> sql_get_head db skey = Some expected
    \<and> sql_get_head db' skey = Some c \<and> map_option br_head (hget (vd_branches db') (skey, branch_str name)) = Some c"
  using assms
  by (auto simp: move_branch_and_head_def tx_then_Inr update_branch_head_def move_branch_row_def
      advance_head_if_matches_def sql_get_head_def hm_simps split: option.splits if_splits)

lemma sql_then_Inr:
  "sql_then m f s = (Inr y, s') \<longleftrightarrow> (\<exists>x s1. m s = (Inr x, s1) \<and> f x s1 = (Inr y, s'))"
  by (auto simp: sql_then_def split: sum.splits prod.splits)

lemma sql_run_Inr:
  "sql_run body s = (Inr y, s') \<longleftrightarrow> (\<exists>db. body (vq_db s) = Inr (y, db) \<and> s' = s\<lparr>vq_db := db\<rparr>)"
  by (auto simp: sql_run_def version_tx_def Let_def split: sum.splits prod.splits)

lemma merged_texts:
  assumes "\<forall>v. map_option (value_text env) (value_of_text env (value_text env v)) = Some (value_text env v)" "texts env into" "texts env from"
    and "merged_value st b (into k) (from k) = Some v"
  shows "value_of_text env v \<noteq> None \<and> canonical env v = v"
proof -
  have "into k = Some v \<or> from k = Some v" using assms(4) by (auto simp: merged_value_def split: if_splits)
  with assms(2,3) have "v \<in> range (value_text env)" unfolding texts_def by blast
  then obtain j where "v = value_text env j" by blast
  with assms(1) show ?thesis by (auto simp: canonical_def dest: spec [of _ j])
qed

text \<open>The tree that the change rows of a merge give the new commit.\<close>

lemma merge_tree:
  assumes "version_ok db" "insert_with_rows env skey k (diff_snapshots env into merged) db = Inr (u, db')"
    and "\<forall>v. map_option (value_text env) (value_of_text env (value_text env v)) = Some (value_text env v)" "\<forall>rows. mset (scan_rows env rows) = mset rows"
    and "c_parents k = p # ps" "tree_at env db p = Inr (hget into)" "hm_wf into" "hm_wf merged"
    and "\<forall>i v. hget merged i = Some v \<longrightarrow> value_of_text env v \<noteq> None \<and> canonical env v = v"
  shows "tree_at env db' (c_id k) = Inr (hget merged)"
proof -
  let ?rows = "diff_snapshots env into merged"
  note add = version_addable [OF assms(1,2)]
  have "tree_of (apply_deltas env (scan_rows env ?rows) into) =
      Inr (\<lambda>i. if hget merged i = hget into i then hget into i else map_option (canonical env) (hget merged i))"
    using assms(4,7,8,9) by (intro diff_applies) auto
  also have "\<dots> = Inr (hget merged)" using assms(9) by (auto simp: fun_eq_iff intro!: option.map_ident_strong)
  finally have "tree_rows env (scan_rows env ?rows) (hget into) = Inr (hget merged)"
    by (simp add: apply_deltas_tree)
  with tree_at_new [OF add apart_distinct [OF diff_apart [OF assms(7,8)]], of env skey env]
    insert_with_rows_result(1) [OF assms(2)] assms(5,6)
  show ?thesis by simp
qed

lemma merge_reads:
  assumes "inj (uuid_display env)" "reads_exactly env s"
    and "hhas (vd_commits (vq_db s)) theirs" "hhas (vd_commits (vq_db s)) ours"
    and "\<forall>c. base = Some c \<longrightarrow> hhas (vd_commits (vq_db s)) c"
    and rb: "snapshot_or_empty env cfg now base s = (Inr bs, s1)"
    and rt: "reconstruct_snapshot env cfg now theirs s1 = (Inr ts, s2)"
    and ro: "reconstruct_snapshot env cfg now ours s2 = (Inr os, s3)"
  shows "reads_exactly env s3" "same_commits (vq_db s) (vq_db s3)"
    "base_tree env (vq_db s) base = Inr (hget bs)" "tree_at env (vq_db s) theirs = Inr (hget ts)"
    "tree_at env (vq_db s) ours = Inr (hget os)" "hm_wf os"
proof -
  note one = read_base_exact [OF assms(1,2,5) rb]
  then have s1: "reads_exactly env s1" "same_commits (vq_db s) (vq_db s1)" by simp_all
  have "hhas (vd_commits (vq_db s1)) theirs" using assms(3) same_commitsD(3) [OF s1(2)] by simp
  note two = reconstruct_exact [OF assms(1) s1(1) this rt]
  note s2 = same_commits_trans [OF s1(2) two(2)]
  have "hhas (vd_commits (vq_db s2)) ours" using assms(4) same_commitsD(3) [OF s2] by simp
  note three = reconstruct_exact [OF assms(1) two(1) this ro]
  show "reads_exactly env s3" "same_commits (vq_db s) (vq_db s3)" "hm_wf os"
    using three(1) same_commits_trans [OF s2 three(2)] three(4) [OF refl] by simp_all
  show "base_tree env (vq_db s) base = Inr (hget bs)" using one by simp
  show "tree_at env (vq_db s) theirs = Inr (hget ts)"
    using two(3) same_commitsD(1) [OF s1(2), of env] by simp
  show "tree_at env (vq_db s) ours = Inr (hget os)"
    using three(3) same_commitsD(1) [OF s2, of env] by simp
qed

text \<open>C7: when a merge of diverged branches succeeds, the new commit has both heads as parents and its tree
  is, address by address, the three-way merge of their trees against the tree of the merge base, where
  fast-forward acts as taking the other side; the reported conflicts are the addresses changed on both
  sides to different values. It succeeds only with HEAD at the head of the target branch, moves both to
  the new commit, and leaves the trees of all older commits.\<close>

theorem sql_merge_is_three_way:
  assumes "inj (uuid_display env)" "reads_exactly env s"
    and codec: "\<forall>v. map_option (value_text env) (value_of_text env (value_text env v)) = Some (value_text env v)" "\<forall>rows. mset (scan_rows env rows) = mset rows"
    and heads: "branch_head_row (scope_key scope) a (vq_db s) = Inr theirs"
      "branch_head_row (scope_key scope) b (vq_db s) = Inr ours"
    and diverged: "\<not> row_ancestor (vq_db s) ours theirs"
    and run: "sql_merge env cfg fresh now scope a b st s = (Inr r, s')"
  shows "\<exists>tb tt t. base_tree env (vq_db s) (row_merge_base (vq_db s) theirs ours) = Inr tb
    \<and> tree_at env (vq_db s) theirs = Inr tt \<and> tree_at env (vq_db s) ours = Inr t
    \<and> mr_commit r = CommitId fresh
    \<and> load_parents (vq_db s') (CommitId fresh) = [ours, theirs]
    \<and> tree_at env (vq_db s') (CommitId fresh) = Inr (\<lambda>k. merged_value (plain_strategy st) (tb k) (t k) (tt k))
    \<and> set (map u_canonical (mr_conflicts r)) = (if st = ThreeWay then {k. clash (tb k) (t k) (tt k)} else {})
    \<and> sql_get_head (vq_db s) (scope_key scope) = Some ours
    \<and> sql_get_head (vq_db s') (scope_key scope) = Some (CommitId fresh)
    \<and> map_option br_head (hget (vd_branches (vq_db s')) (scope_key scope, branch_str b)) = Some (CommitId fresh)
    \<and> (\<forall>c. hhas (vd_commits (vq_db s)) c \<longrightarrow> tree_at env (vq_db s') c = tree_at env (vq_db s) c)"
proof -
  let ?skey = "scope_key scope" and ?db = "vq_db s"
  let ?base = "row_merge_base ?db theirs ours"
  have ok: "version_ok ?db" using assms(2) by (simp add: reads_exactly_def)
  note known = commit_in_scope_known [OF branch_in_scope [OF ok heads(1)]]
    commit_in_scope_known [OF branch_in_scope [OF ok heads(2)]]
  from run heads diverged
  have "sql_merge_diverged env cfg fresh now ?skey a b st theirs ours s = (Inr r, s')"
    by (simp add: sql_merge_def Let_def sql_then_def sql_ask_def)
  then obtain bs ts os s1 s2 s3 merged conflicts
    where rb: "snapshot_or_empty env cfg now ?base s = (Inr bs, s1)"
    and rt: "reconstruct_snapshot env cfg now theirs s1 = (Inr ts, s2)"
    and ro: "reconstruct_snapshot env cfg now ours s2 = (Inr os, s3)"
    and loop: "merge_rows_loop env st bs os ts (merge_keys bs ts os) os [] = Inr (merged, conflicts)"
    and pub: "sql_run (tx_then (insert_with_rows env ?skey
        (sql_commit_record env (CommitId fresh) [ours, theirs]
           (merge_message ''merge '' b a (length conflicts)) now default_commit_meta) (diff_snapshots env os merged)) (\<lambda>_.
      tx_then (move_branch_and_head env ''merge'' ?skey b ours (CommitId fresh))
        (\<lambda>_ db. Inr (\<lparr>mr_commit = CommitId fresh, mr_conflicts = conflicts\<rparr>, db)))) s3 = (Inr r, s')"
    by (auto simp: sql_merge_diverged_def sql_then_Inr sql_ask_def sql_give_def Let_def)
  let ?k = "sql_commit_record env (CommitId fresh) [ours, theirs]
    (merge_message ''merge '' b a (length conflicts)) now default_commit_meta"
  have "\<forall>c. ?base = Some c \<longrightarrow> hhas (vd_commits ?db) c" using merge_base_known [OF ok known(1)] by blast
  note reads = merge_reads [OF assms(1,2) known this rb rt ro]
  note frame = same_commitsD [OF reads(2)]
  have ok3: "version_ok (vq_db s3)" using reads(1) by (simp add: reads_exactly_def)
  from pub obtain db1 where ins: "insert_with_rows env ?skey ?k (diff_snapshots env os merged) (vq_db s3) = Inr ((), db1)"
    and move: "move_branch_and_head env ''merge'' ?skey b ours (CommitId fresh) db1 = Inr ((), vq_db s')"
    and r: "r = \<lparr>mr_commit = CommitId fresh, mr_conflicts = conflicts\<rparr>"
    by (auto simp: sql_run_Inr tx_then_Inr)
  note result = merge_rows_result [OF loop]
  have vals: "\<forall>i v. hget merged i = Some v \<longrightarrow> value_of_text env v \<noteq> None \<and> canonical env v = v"
    using merged_texts [OF codec(1) tree_at_texts [OF reads(5)] tree_at_texts [OF reads(4)]] result(1) by simp
  have new: "tree_at env db1 (CommitId fresh) = Inr (hget merged)"
    using merge_tree [OF ok3 ins codec _ _ reads(6) merge_rows_wf [OF loop reads(6)] vals] reads(5) frame(1) [of env]
    by (simp add: sql_commit_record_def)
  note add = version_addable [OF ok3 ins] and db1 = insert_with_rows_result(1) [OF ins]
  note moved = publish_effect [OF insert_keeps(1) [OF ok3 ins] move]
  then have trees: "tree_at env (vq_db s') = tree_at env db1" by (intro tree_at_cong) simp_all
  have "tree_at env (vq_db s') c = tree_at env ?db c" if "hhas (vd_commits ?db) c" for c
    using tree_at_old [OF add, of c env ?skey] that frame(1) [of env] frame(3) trees db1 by simp
  moreover have "load_parents (vq_db s') (CommitId fresh) = [ours, theirs]"
    using load_parents_with [OF add, of ?skey] db1 moved by (simp add: load_parents_def sql_commit_record_def)
  moreover have "sql_get_head ?db ?skey = sql_get_head db1 ?skey"
    using reads(2) db1 by (auto simp: same_commits_def sql_get_head_def with_commit_def)
  ultimately show ?thesis using reads(3-5) r new trees result moved by auto
qed

text \<open>Two branches with a commit each after a common one, HEAD on the target.\<close>

definition sample_branches :: version_sql where
  "sample_branches =
     (let branch = (\<lambda>n db. snd (sql_create_branch sample_env 6 (sample_uri ''s'') (BranchName n) (CommitId 1) Main db));
          switch = (\<lambda>n db. snd (sql_switch_head sample_env (sample_uri ''s'') (BranchName n) db))
      in \<lparr>vq_db = switch ''main'' (sample_next 3 (sample_add ''c'' ''z'') (switch ''exp''
            (sample_next 2 (sample_add ''b'' ''y'') (switch ''main'' (branch ''exp'' (branch ''main''
              (sample_next 1 (sample_add ''a'' ''x'') version_db_empty))))))),
          vq_cache = None\<rparr>)"

lemma sample_branches_exact: "reads_exactly sample_env sample_branches"
proof -
  have "version_ok (vq_db sample_branches)"
    unfolding sample_branches_def Let_def version_sql.simps
    by (intro switch_head_keeps create_branch_keeps version_ok_next version_empty_ok)
  moreover have "vq_cache sample_branches = None" "vd_checkpoints (vq_db sample_branches) = []"
    by code_simp+
  ultimately show ?thesis
    by (simp add: reads_exactly_def caches_agree_def snapshots_wf_def cache_get_snapshot_def)
qed

theorem sql_merge_is_three_way_witness:
  "case sql_merge sample_env sample_settings 4 9 (sample_uri ''s'') (BranchName ''exp'') (BranchName ''main'')
      ThreeWay sample_branches of (_, s') \<Rightarrow>
     load_parents (vq_db s') (CommitId 4) = [CommitId 2, CommitId 3]
     \<and> tree_at sample_env (vq_db s') (CommitId 3) = tree_at sample_env (vq_db sample_branches) (CommitId 3)"
proof -
  let ?m = "sql_merge sample_env sample_settings 4 9 (sample_uri ''s'') (BranchName ''exp'') (BranchName ''main'')
      ThreeWay sample_branches"
  have heads: "branch_head_row (scope_key (sample_uri ''s'')) (BranchName ''exp'') (vq_db sample_branches) = Inr (CommitId 3)"
    "branch_head_row (scope_key (sample_uri ''s'')) (BranchName ''main'') (vq_db sample_branches) = Inr (CommitId 2)"
    "\<not> row_ancestor (vq_db sample_branches) (CommitId 2) (CommitId 3)"
    "hhas (vd_commits (vq_db sample_branches)) (CommitId 3)"
    by code_simp+
  have "fst ?m = Inr \<lparr>mr_commit = CommitId 4, mr_conflicts = []\<rparr>" by code_simp
  then obtain r s' where run: "?m = (Inr r, s')" by (cases ?m) auto
  have codec: "\<forall>v. map_option (value_text sample_env) (value_of_text sample_env (value_text sample_env v)) =
      Some (value_text sample_env v)"
    by (simp add: sample_env_def)
  have scan: "\<forall>rows. mset (scan_rows sample_env rows) = mset rows" by (simp add: sample_scan)
  from sql_merge_is_three_way [OF sample_inj sample_branches_exact codec scan heads(1,2,3) run] heads(4) run
  show ?thesis by auto
qed

end
