(* ===== verification/Sqlite_Caching.thy ===== *)
theory Sqlite_Caching
  imports Sqlite_Merging
begin

text \<open>
  The cache levels of the SQLite commit store over all histories. Rules like those of Sqlite_Operations
  carry more than the references between the tables: what the caches hold agrees with the change rows,
  and the tree of a commit stays what it was for as long as the commit is stored. The identities that a
  call draws are taken to be new: not stored, now or at the start, and not cached.
\<close>

section \<open>Changes of the tables\<close>

definition same_history :: "version_db \<Rightarrow> version_db \<Rightarrow> bool" where
  "same_history db db' \<longleftrightarrow> vd_commits db' = vd_commits db \<and> vd_parents db' = vd_parents db
     \<and> vd_deltas db' = vd_deltas db \<and> vd_checkpoints db' = vd_checkpoints db"

text \<open>All commits stay with their trees; new ones are among those given.\<close>

definition grows :: "('x) sqlite_env_scheme \<Rightarrow> commit_id set \<Rightarrow> version_db \<Rightarrow> version_db \<Rightarrow> bool" where
  "grows env new db db' \<longleftrightarrow> vd_checkpoints db' = vd_checkpoints db
     \<and> (\<forall>c. hhas (vd_commits db) c \<longrightarrow> hhas (vd_commits db') c \<and> tree_at env db' c = tree_at env db c)
     \<and> (\<forall>c. hhas (vd_commits db') c \<longrightarrow> hhas (vd_commits db) c \<or> c \<in> new)"

lemma same_history_refl [simp]: "same_history db db"
  by (simp add: same_history_def)

lemma same_history_trans: "same_history a b \<Longrightarrow> same_history b c \<Longrightarrow> same_history a c"
  by (simp add: same_history_def)

lemma grows_same: "same_history db db' \<Longrightarrow> grows env new db db'"
  using tree_at_cong [of db' db env] by (auto simp: grows_def same_history_def)

lemma grows_then: "grows env new a b \<Longrightarrow> same_history b c \<Longrightarrow> grows env new a c"
  using tree_at_cong [of c b env] by (auto simp: grows_def same_history_def)

lemma grows_insert:
  assumes "version_ok db" "insert_with_rows env skey k rows db = Inr (u, db')"
  shows "grows env' {c_id k} db db'"
proof -
  note add = version_addable [OF assms] and db' = insert_with_rows_result(1) [OF assms(2)]
  have "vd_checkpoints db' = vd_checkpoints db" by (simp add: db' with_commit_def)
  then show ?thesis
    unfolding grows_def using tree_at_old [OF add] commits_with [of skey k rows db] by (auto simp: db')
qed

lemma move_branch_row_same: "move_branch_row skey n e c db = Some db' \<Longrightarrow> same_history db db'"
  by (auto simp: move_branch_row_def same_history_def split: option.splits if_splits)

lemma update_branch_same: "update_branch_head skey name e c db = Inr (u, db') \<Longrightarrow> same_history db db'"
  by (auto simp: update_branch_head_def move_branch_row_same split: option.splits)

lemma advance_head_same: "advance_head_if_matches env skey e c db = Inr (m, db') \<Longrightarrow> same_history db db'"
  by (auto simp: advance_head_if_matches_def same_history_def split: option.splits if_splits)

lemma move_both_same: "move_branch_and_head env what skey name e c db = Inr (u, db') \<Longrightarrow> same_history db db'"
  by (auto simp: move_branch_and_head_def tx_then_Inr split: if_splits
      dest!: update_branch_same advance_head_same intro: same_history_trans)

lemma move_attached_same: "move_attached env skey att e c db = Inr (u, db') \<Longrightarrow> same_history db db'"
  by (auto simp: move_attached_def split: option.splits dest: move_branch_row_same)

lemma point_head_same: "point_head env skey par att c db = Inr (u, db') \<Longrightarrow> same_history db db'"
  by (auto simp: point_head_def update_head_in_tx_def tx_then_Inr split: option.splits if_splits
      dest!: move_attached_same advance_head_same intro: same_history_trans)
    (simp add: same_history_def)

lemma follow_attached_same: "follow_attached env skey name e c db = Inr (u, db') \<Longrightarrow> same_history db db'"
  by (auto simp: follow_attached_def same_history_def split: option.splits if_splits)

lemma commit_body_grows:
  assumes "version_ok db" "commit_body env skey par k rows db = Inr (c, db')"
  shows "grows env {c_id k} db db'"
proof -
  from assms(2) obtain db1 where ins: "insert_with_rows env skey k rows db = Inr ((), db1)"
    and "\<exists>att. point_head env skey par att (c_id k) db1 = Inr ((), db')"
    by (auto simp: commit_body_def tx_then_Inr Let_def split: if_splits)
  then show ?thesis using grows_then [OF grows_insert [OF assms(1) ins]] point_head_same by blast
qed

lemma squash_body_grows:
  assumes "version_ok db" "squash_body env skey k rows newest db = Inr (u, db')"
  shows "grows env {c_id k} db db'"
proof -
  from assms(2) obtain db1 m where ins: "insert_with_rows env skey k rows db = Inr ((), db1)"
    and head: "advance_head_if_matches env skey newest (c_id k)
      (db1\<lparr>vd_branches := retarget_rows skey newest (c_id k) (vd_branches db1)\<rparr>) = Inr (m, db')"
    by (auto simp: squash_body_def tx_then_Inr split: if_splits)
  have "same_history db1 db'" using advance_head_same [OF head] by (simp add: same_history_def)
  with grows_then [OF grows_insert [OF assms(1) ins]] show ?thesis by blast
qed

lemma pick_body_grows:
  assumes "version_ok db" "pick_body env skey k rows onto target db = Inr (c, db')"
  shows "grows env {c_id k} db db'"
proof -
  from assms(2) obtain db1 where ins: "insert_with_rows env skey k rows db = Inr ((), db1)"
    and move: "(case onto of None \<Rightarrow> (\<lambda>db. Inr ((), db))
      | Some b \<Rightarrow> tx_then (update_branch_head skey b target (c_id k)) (\<lambda>_.
          follow_attached env skey b target (c_id k))) db1 = Inr ((), db')"
    by (auto simp: pick_body_def tx_then_Inr)
  have "same_history db1 db'"
    using move by (cases onto) (auto simp: tx_then_Inr dest!: update_branch_same follow_attached_same
      intro: same_history_trans)
  with grows_then [OF grows_insert [OF assms(1) ins]] show ?thesis by blast
qed

lemma publish_grows:
  assumes "version_ok db" "tx_then (insert_with_rows env skey k rows) (\<lambda>_.
      tx_then (move_branch_and_head env what skey name expected c) (\<lambda>_ db. Inr (x, db))) db = Inr (y, db')"
  shows "grows env {c_id k} db db'"
proof -
  from assms(2) obtain db1 where ins: "insert_with_rows env skey k rows db = Inr ((), db1)"
    and move: "move_branch_and_head env what skey name expected c db1 = Inr ((), db')"
    by (auto simp: tx_then_Inr)
  show ?thesis by (rule grows_then [OF grows_insert [OF assms(1) ins] move_both_same [OF move]])
qed

section \<open>The invariant\<close>

definition unused :: "('x) sqlite_env_scheme \<Rightarrow> commit_id \<Rightarrow> version_sql \<Rightarrow> bool" where
  "unused env c s \<longleftrightarrow> \<not> hhas (vd_commits (vq_db s)) c \<and> cache_get_snapshot env c s = None
     \<and> hget (vd_checkpoints (vq_db s)) c = None"

text \<open>\<open>db0\<close> are the tables at the start, \<open>fresh\<close> the identities still to be drawn.\<close>

definition tracks :: "('x) sqlite_env_scheme \<Rightarrow> version_db \<Rightarrow> commit_id set \<Rightarrow> version_sql \<Rightarrow> bool" where
  "tracks env db0 fresh s \<longleftrightarrow> reads_exactly env s
     \<and> (\<forall>c. hhas (vd_commits db0) c \<and> hhas (vd_commits (vq_db s)) c
          \<longrightarrow> tree_at env (vq_db s) c = tree_at env db0 c)
     \<and> (\<forall>c\<in>fresh. \<not> hhas (vd_commits db0) c \<and> unused env c s)"

lemma tracks_ok: "tracks env db0 fresh s \<Longrightarrow> version_ok (vq_db s)"
  by (simp add: tracks_def reads_exactly_def)

lemma tracks_less: "tracks env db0 fresh s \<Longrightarrow> fresh' \<subseteq> fresh \<Longrightarrow> tracks env db0 fresh' s"
  by (auto simp: tracks_def)

lemma tracks_grows:
  assumes "tracks env db0 fresh s" "version_ok db'" "grows env new (vq_db s) db'"
    and "new \<subseteq> fresh" "fresh' \<subseteq> fresh - new"
  shows "tracks env db0 fresh' (s\<lparr>vq_db := db'\<rparr>)"
proof -
  have cached: "cache_get_snapshot env c (s\<lparr>vq_db := db'\<rparr>) = cache_get_snapshot env c s" for c
    by (simp add: cache_get_snapshot_def)
  have "snapshots_wf s" using assms(1) by (simp add: tracks_def reads_exactly_def)
  then have "snapshots_wf (s\<lparr>vq_db := db'\<rparr>)" using assms(3) by (auto simp: snapshots_wf_def grows_def)
  moreover have "caches_agree env (s\<lparr>vq_db := db'\<rparr>)"
    unfolding caches_agree_def cached
  proof (intro allI impI, goal_cases)
    case (1 c)
    show ?case
    proof (cases "hhas (vd_commits (vq_db s)) c")
      case True
      with assms(1,3) show ?thesis
        by (auto simp: tracks_def reads_exactly_def caches_agree_def grows_def)
    next
      case False
      with 1 assms(3,4) have "c \<in> fresh" by (auto simp: grows_def)
      with assms(1,3) show ?thesis by (auto simp: tracks_def unused_def grows_def)
    qed
  qed
  moreover have "tree_at env db' c = tree_at env db0 c" if "hhas (vd_commits db0) c" "hhas (vd_commits db') c" for c
  proof -
    have "c \<notin> fresh" using that(1) assms(1) by (auto simp: tracks_def)
    with that(2) assms(3,4) have "hhas (vd_commits (vq_db s)) c" by (auto simp: grows_def)
    with that assms(1,3) show ?thesis by (auto simp: tracks_def grows_def)
  qed
  moreover have "\<not> hhas (vd_commits db0) c \<and> unused env c (s\<lparr>vq_db := db'\<rparr>)" if "c \<in> fresh'" for c
  proof -
    have "c \<in> fresh" "c \<notin> new" using that assms(5) by auto
    with assms(1,3) show ?thesis by (auto simp: tracks_def unused_def grows_def cached)
  qed
  ultimately show ?thesis using assms(2) by (auto simp: tracks_def reads_exactly_def)
qed

section \<open>Reading snapshots\<close>

lemma checkpoint_get_none:
  "checkpoint_get now c s = (r, s') \<Longrightarrow> hget (vd_checkpoints (vq_db s)) x = None \<Longrightarrow>
   hget (vd_checkpoints (vq_db s')) x = None"
  by (auto simp: checkpoint_get_def checkpoint_touch_def Let_def hm_simps split: option.splits)

lemma checkpoint_get_cache: "checkpoint_get now c s = (r, s') \<Longrightarrow> vq_cache s' = vq_cache s"
  by (auto simp: checkpoint_get_def checkpoint_touch_def Let_def split: option.splits)

lemma cache_get_cong: "vq_cache s' = vq_cache s \<Longrightarrow> cache_get_snapshot env c s' = cache_get_snapshot env c s"
  by (simp add: cache_get_snapshot_def)

lemma unused_checkpoint:
  assumes "checkpoint_get now c s = (r, s')" "unused env x s"
  shows "unused env x s'"
proof -
  have "s' = s \<or> s' = checkpoint_touch now c s"
    using assms(1) by (auto simp: checkpoint_get_def split: option.splits)
  then have "vd_commits (vq_db s') = vd_commits (vq_db s)"
    using same_commitsD(3) [OF checkpoint_touch_same, of now c s] by auto
  moreover have "cache_get_snapshot env x s' = cache_get_snapshot env x s"
    by (rule cache_get_cong [OF checkpoint_get_cache [OF assms(1)]])
  ultimately show ?thesis
    using assms(2) checkpoint_get_none [OF assms(1)] by (simp add: unused_def)
qed

lemma unused_put:
  "inj (uuid_display env) \<Longrightarrow> unused env x s \<Longrightarrow> x \<noteq> c \<Longrightarrow> unused env x (cache_put_snapshot env c snap s)"
  by (simp add: unused_def cache_get_put)

lemma walk_line_unused:
  assumes "inj (uuid_display env)" "walk_line env now chain cur s = (chain', seeded, s')"
    and "parents_ok (vq_db s)" "unused env x s"
  shows "unused env x s'"
  using assms
proof (induction env now chain cur s arbitrary: chain' seeded s' rule: walk_line.induct)
  case (1 env now chain cur s)
  show ?case
  proof (cases "first_parent_row (vq_db s) cur")
    case None
    with 1(3,5) show ?thesis by (simp add: walk_line.simps [of env now chain cur s])
  next
    case (Some p)
    then have "x \<noteq> p" using first_parent_known [OF 1(4)] 1(5) by (auto simp: unused_def)
    obtain q s1 where get: "checkpoint_get now p s = (q, s1)" by force
    note s1 = unused_checkpoint [OF get 1(5)]
    show ?thesis
    proof (cases "p \<in> set chain \<or> cache_get_snapshot env p s \<noteq> None \<or> q \<noteq> None")
      case True
      with 1(2,3,5) Some get s1 \<open>x \<noteq> p\<close> show ?thesis
        by (auto simp: walk_line.simps [of env now chain cur s] unused_put split: if_splits option.splits)
    next
      case False
      then have miss: "p \<notin> set chain" "cache_get_snapshot env p s = None" "q = None" by auto
      have "s1 = s" using checkpoint_get_miss get miss(3) by blast
      have "walk_line env now (chain @ [p]) p s1 = (chain', seeded, s')"
        using 1(3) unfolding walk_line.simps [of env now chain cur s]
        by (simp only: Some miss get option.case prod.case if_False simp_thms)
      with 1(1) [OF Some miss(1,2) get [unfolded miss(3), symmetric] refl 1(2)] s1 1(4) \<open>s1 = s\<close>
      show ?thesis by simp
    qed
  qed
qed

lemma reconstruct_unused:
  assumes "inj (uuid_display env)" "reconstruct_snapshot env cfg now c s = (r, s')"
    and "parents_ok (vq_db s)" "unused env x s" "x \<noteq> c"
  shows "unused env x s'"
proof -
  obtain q s1 where get: "checkpoint_get now c s = (q, s1)" by force
  note s1 = unused_checkpoint [OF get assms(4)]
  obtain chain seeded s2 where walk: "walk_line env now [c] c s1 = (chain, seeded, s2)"
    by (metis prod_cases3)
  have "unused env x s2" if "q = None"
    using walk_line_unused [OF assms(1) walk _ s1] assms(3) checkpoint_get_miss [of now c s s1] get that by simp
  with assms s1 get walk show ?thesis
    by (auto simp: reconstruct_snapshot_def Let_def checkpoint_put_none unused_put
        split: option.splits sum.splits prod.splits if_splits)
qed

text \<open>A commit that is not stored has no parents; reading it touches no stored one.\<close>

lemma reconstruct_unknown:
  assumes "inj (uuid_display env)" "reads_exactly env s" "\<not> hhas (vd_commits (vq_db s)) c"
    and "reconstruct_snapshot env cfg now c s = (r, s')"
  shows "reads_exactly env s' \<and> same_commits (vq_db s) (vq_db s')"
proof -
  have ok: "parents_ok (vq_db s)" "caches_agree env s" "snapshots_wf s"
    using assms(2) by (auto simp: reads_exactly_def version_ok_def)
  have root: "first_parent_row (vq_db s) c = None"
    using ok(1) assms(3) load_parents_rows [of _ "vq_db s" c]
    by (cases "load_parents (vq_db s) c") (auto simp: first_parent_row_def parents_ok_def)
  have put: "caches_agree env (cache_put_snapshot env c snap s1)"
    if "caches_agree env s1" "same_commits (vq_db s) (vq_db s1)" for snap s1
    using that(1) assms(3) same_commitsD(3) [OF that(2)] by (auto simp: caches_agree_def cache_get_put [OF assms(1)])
  have same: "same_commits (vq_db s) (vq_db s')"
    using reconstruct_same [of s env cfg now c] assms(4) by simp
  have "caches_agree env s'"
    using assms(4) root put [OF ok(2)] put [OF checkpoint_touch_agree [OF ok(2)] checkpoint_touch_same] ok(2)
    by (auto simp: reconstruct_snapshot_def checkpoint_get_def walk_line.simps [of env now "[c]" c s] Let_def
        checkpoint_put_none split: option.splits sum.splits if_splits)
  with same reconstruct_wf [OF ok(3) assms(4)] assms(2) show ?thesis
    by (auto simp: reads_exactly_def version_ok_same)
qed

lemma tracks_read:
  assumes "inj (uuid_display env)" "tracks env db0 fresh s" "c \<notin> fresh"
    and "reconstruct_snapshot env cfg now c s = (r, s')"
  shows "tracks env db0 fresh s' \<and> same_commits (vq_db s) (vq_db s')"
proof -
  have exact: "reads_exactly env s" and parents: "parents_ok (vq_db s)"
    using assms(2) by (auto simp: tracks_def reads_exactly_def version_ok_def)
  have read: "reads_exactly env s' \<and> same_commits (vq_db s) (vq_db s')"
    using reconstruct_exact(1,2) [OF assms(1) exact _ assms(4)] reconstruct_unknown [OF assms(1) exact _ assms(4)]
    by blast
  then have db: "tree_at env (vq_db s') = tree_at env (vq_db s)" "vd_commits (vq_db s') = vd_commits (vq_db s)"
    using same_commitsD by blast+
  have "unused env x s'" if "x \<in> fresh" for x
    using reconstruct_unused [OF assms(1,4) parents] assms(2,3) that by (auto simp: tracks_def)
  with assms(2) read db show ?thesis by (auto simp: tracks_def)
qed

section \<open>Rules\<close>

definition cspec ::
    "('x) sqlite_env_scheme \<Rightarrow> version_db \<Rightarrow> commit_id set \<Rightarrow> (version_db \<Rightarrow> bool) \<Rightarrow> 'a vstore_op
     \<Rightarrow> commit_id set \<Rightarrow> ('a \<Rightarrow> version_db \<Rightarrow> bool) \<Rightarrow> bool" where
  "cspec env db0 F P m F' Q \<longleftrightarrow> (\<forall>s r s'. tracks env db0 F s \<longrightarrow> P (vq_db s) \<longrightarrow> m s = (r, s') \<longrightarrow>
     tracks env db0 F' s' \<and> (\<forall>x. r = Inr x \<longrightarrow> Q x (vq_db s')))"

lemma cspecI:
  "(\<And>s r s'. tracks env db0 F s \<Longrightarrow> P (vq_db s) \<Longrightarrow> m s = (r, s') \<Longrightarrow>
     tracks env db0 F' s' \<and> (\<forall>x. r = Inr x \<longrightarrow> Q x (vq_db s'))) \<Longrightarrow> cspec env db0 F P m F' Q"
  by (simp add: cspec_def)

lemma cspecD:
  "cspec env db0 F P m F' Q \<Longrightarrow> tracks env db0 F s \<Longrightarrow> P (vq_db s) \<Longrightarrow> m s = (r, s') \<Longrightarrow>
     tracks env db0 F' s' \<and> (\<forall>x. r = Inr x \<longrightarrow> Q x (vq_db s'))"
  by (simp add: cspec_def)

lemma cspec_then:
  assumes "cspec env db0 F P m F1 R" "\<And>x. cspec env db0 F1 (R x) (f x) F2 Q" "F2 \<subseteq> F1"
  shows "cspec env db0 F P (sql_then m f) F2 Q"
proof (rule cspecI)
  fix s r s' assume pre: "tracks env db0 F s" "P (vq_db s)" and run: "sql_then m f s = (r, s')"
  obtain r1 s1 where m: "m s = (r1, s1)" by force
  note first = cspecD [OF assms(1) pre m]
  show "tracks env db0 F2 s' \<and> (\<forall>x. r = Inr x \<longrightarrow> Q x (vq_db s'))"
  proof (cases r1)
    case (Inl e)
    with run m first tracks_less [OF _ assms(3)] show ?thesis by (auto simp: sql_then_def)
  next
    case (Inr x)
    with run m have "f x s1 = (r, s')" by (simp add: sql_then_def)
    with Inr first cspecD [OF assms(2) [of x]] show ?thesis by blast
  qed
qed

lemma cspec_ask:
  "(\<And>db x. version_ok db \<Longrightarrow> P db \<Longrightarrow> f db = Inr x \<Longrightarrow> Q x db) \<Longrightarrow> cspec env db0 F P (sql_ask f) F Q"
  by (auto simp: cspec_def sql_ask_def tracks_ok)

lemma cspec_give:
  "(\<And>db x. P db \<Longrightarrow> r = Inr x \<Longrightarrow> Q x db) \<Longrightarrow> F' \<subseteq> F \<Longrightarrow> cspec env db0 F P (sql_give r) F' Q"
  by (auto simp: cspec_def sql_give_def tracks_less)

lemma cspec_run:
  assumes "\<And>db x db'. version_ok db \<Longrightarrow> P db \<Longrightarrow> body db = Inr (x, db') \<Longrightarrow>
      version_ok db' \<and> grows env N db db' \<and> Q x db'"
    and "N \<subseteq> F" "F' \<subseteq> F - N"
  shows "cspec env db0 F P (sql_run body) F' Q"
proof (rule cspecI)
  fix s r s' assume pre: "tracks env db0 F s" "P (vq_db s)" and run: "sql_run body s = (r, s')"
  show "tracks env db0 F' s' \<and> (\<forall>x. r = Inr x \<longrightarrow> Q x (vq_db s'))"
  proof (cases "body (vq_db s)")
    case (Inl e)
    moreover have "F' \<subseteq> F" using assms(3) by blast
    ultimately show ?thesis using run tracks_less [OF pre(1)] by (auto simp: sql_run_def version_tx_def)
  next
    case (Inr y)
    obtain x db' where y: "y = (x, db')" by force
    with Inr assms(1) [OF tracks_ok [OF pre(1)] pre(2)]
    have body: "version_ok db'" "grows env N (vq_db s) db'" "Q x db'" by auto
    with tracks_grows [OF pre(1) body(1,2) assms(2,3)] Inr y run show ?thesis
      by (auto simp: sql_run_def version_tx_def)
  qed
qed

lemma cspec_weaken:
  "cspec env db0 F P m F' R \<Longrightarrow> (\<And>db. P' db \<Longrightarrow> P db) \<Longrightarrow> (\<And>x db. R x db \<Longrightarrow> Q x db) \<Longrightarrow>
   F'' \<subseteq> F' \<Longrightarrow> cspec env db0 F P' m F'' Q"
  unfolding cspec_def using tracks_less by (metis (no_types, lifting))

lemma tracks_not_stored: "tracks env db0 F s \<Longrightarrow> hhas (vd_commits (vq_db s)) c \<Longrightarrow> c \<notin> F"
  by (auto simp: tracks_def unused_def)

lemma cspec_read_new:
  assumes "inj (uuid_display env)" "stable P" "c \<notin> F"
  shows "cspec env db0 F P (reconstruct_snapshot env cfg now c) F (\<lambda>_. P)"
  using tracks_read [OF assms(1) _ assms(3)] assms(2) by (fastforce simp: cspec_def stable_def)

lemma cspec_read:
  assumes "inj (uuid_display env)" "stable P" "\<And>db. version_ok db \<Longrightarrow> P db \<Longrightarrow> hhas (vd_commits db) c"
  shows "cspec env db0 F P (reconstruct_snapshot env cfg now c) F (\<lambda>_. P)"
proof (rule cspecI)
  fix s r s' assume pre: "tracks env db0 F s" "P (vq_db s)"
    and run: "reconstruct_snapshot env cfg now c s = (r, s')"
  have "c \<notin> F" by (rule tracks_not_stored [OF pre(1) assms(3) [OF tracks_ok [OF pre(1)] pre(2)]])
  from cspecD [OF cspec_read_new [OF assms(1,2) this] pre run]
  show "tracks env db0 F s' \<and> (\<forall>x. r = Inr x \<longrightarrow> P (vq_db s'))" .
qed

lemma cspec_read_base:
  assumes "inj (uuid_display env)" "stable P"
    and "\<And>db c. version_ok db \<Longrightarrow> P db \<Longrightarrow> base = Some c \<Longrightarrow> hhas (vd_commits db) c"
  shows "cspec env db0 F P (snapshot_or_empty env cfg now base) F (\<lambda>_. P)"
  using assms by (cases base) (auto simp: snapshot_or_empty_def intro: cspec_read cspec_give)

lemma cspec_on_db:
  assumes "\<And>db r db'. version_ok db \<Longrightarrow> f db = (r, db') \<Longrightarrow> version_ok db' \<and> grows env N db db'"
    and "N \<subseteq> F" "F' \<subseteq> F - N"
  shows "cspec env db0 F (\<lambda>_. True) (on_db f) F' (\<lambda>_ _. True)"
proof (rule cspecI)
  fix s r s' assume pre: "tracks env db0 F s" and run: "on_db f s = (r, s')"
  obtain r' db' where f: "f (vq_db s) = (r', db')" by force
  from assms(1) [OF tracks_ok [OF pre] f] tracks_grows [OF pre _ _ assms(2,3)] f run
  show "tracks env db0 F' s' \<and> (\<forall>x. r = Inr x \<longrightarrow> True)" by (auto simp: on_db_def)
qed

section \<open>Operations\<close>

lemma cspec_known:
  assumes "c \<notin> F \<Longrightarrow> cspec env db0 F P m F' Q" "\<And>db. version_ok db \<Longrightarrow> P db \<Longrightarrow> hhas (vd_commits db) c"
  shows "cspec env db0 F P m F' Q"
proof (rule cspecI)
  fix s r s' assume pre: "tracks env db0 F s" "P (vq_db s)" and run: "m s = (r, s')"
  have "c \<notin> F" by (rule tracks_not_stored [OF pre(1) assms(2) [OF tracks_ok [OF pre(1)] pre(2)]])
  from cspecD [OF assms(1) [OF this] pre run]
  show "tracks env db0 F' s' \<and> (\<forall>x. r = Inr x \<longrightarrow> Q x (vq_db s'))" .
qed

definition stored :: "commit_id list \<Rightarrow> version_db \<Rightarrow> bool" where
  "stored cs db \<longleftrightarrow> (\<forall>c\<in>set cs. hhas (vd_commits db) c)"

lemma stable_stored: "stable (stored cs)"
  by (auto simp: stable_def stored_def same_commits_def)

lemma stored_Nil [simp]: "stored [] db"
  by (simp add: stored_def)

lemma stored_Cons [simp]: "stored (c # cs) db \<longleftrightarrow> hhas (vd_commits db) c \<and> stored cs db"
  by (simp add: stored_def)

lemma stored_append [simp]: "stored (cs @ ds) db \<longleftrightarrow> stored cs db \<and> stored ds db"
  by (auto simp: stored_def)

abbreviation opt_list :: "'a option \<Rightarrow> 'a list" where
  "opt_list x \<equiv> (case x of None \<Rightarrow> [] | Some y \<Rightarrow> [y])"

lemma scope_stored: "require_commit_scope env c skey db = Inr u \<Longrightarrow> hhas (vd_commits db) c"
  by (auto simp: scope_required commit_in_scope_known)

lemma branch_stored: "version_ok db \<Longrightarrow> branch_head_row skey name db = Inr c \<Longrightarrow> hhas (vd_commits db) c"
  by (rule commit_in_scope_known [OF branch_in_scope])

lemma parent_stored: "version_ok db \<Longrightarrow> stored (opt_list (first_parent_row db c)) db"
  by (auto simp: version_ok_def dest: first_parent_known split: option.split)

lemma scopes_stored: "require_scopes env cs skey db = Inr u \<Longrightarrow> stored cs db"
  by (induction cs) (auto split: sum.splits dest: scope_stored)

lemmas cspec_reads = cspec_read [OF _ stable_stored] cspec_read_base [OF _ stable_stored]

lemma knows_stored: "knows skey cs db \<Longrightarrow> stored cs db"
  by (auto simp: knows_def stored_def commit_in_scope_known)

lemma cspec_chain:
  "cspec env db0 F P m F (\<lambda>_. P) \<Longrightarrow> (\<And>x. cspec env db0 F P (f x) F' Q) \<Longrightarrow> F' \<subseteq> F \<Longrightarrow>
   cspec env db0 F P (sql_then m f) F' Q"
  by (rule cspec_then)

lemma cspec_ask_keep: "cspec env db0 F P (sql_ask f) F (\<lambda>_. P)"
  by (rule cspec_ask)

lemma cspec_give_keep: "cspec env db0 F P (sql_give r) F (\<lambda>_. P)"
  by (rule cspec_give) simp_all

lemma merge_diverged_tracks:
  assumes inj: "inj (uuid_display env)"
  shows "cspec env db0 {CommitId fresh} (stored [a, b])
    (sql_merge_diverged env cfg fresh now skey from into strategy a b) {} (\<lambda>_ _. True)"
  unfolding sql_merge_diverged_def
proof (rule cspec_then [where R = "\<lambda>base. stored (a # b # opt_list base)"], rule cspec_ask)
  fix db x assume "version_ok db" "stored [a, b] db" "Inr (row_merge_base db a b) = Inr x"
  then show "stored (a # b # opt_list x) db"
    using merge_base_known [of db a b] by (auto split: option.split)
next
  fix base and F :: "commit_id set"
  let ?P = "stored (a # b # opt_list base)"
  have publish: "cspec env db0 {CommitId fresh} ?P (case x of (merged, conflicts) \<Rightarrow>
      let c = sql_commit_record env (CommitId fresh) [b, a]
            (merge_message ''merge '' into from (length conflicts)) now default_commit_meta
      in sql_run (tx_then (insert_with_rows env skey c (diff_snapshots env snap merged)) (\<lambda>_.
           tx_then (move_branch_and_head env ''merge'' skey into b (CommitId fresh))
             (\<lambda>_ db. Inr (\<lparr>mr_commit = CommitId fresh, mr_conflicts = conflicts\<rparr>, db))))) {} (\<lambda>_ _. True)"
    for x snap
    by (cases x) (auto simp: Let_def intro!: cspec_run [where N = "{CommitId fresh}"]
      dest: publish_keeps publish_grows)
  show "cspec env db0 {CommitId fresh} ?P (sql_then (snapshot_or_empty env cfg now base) (\<lambda>base_snap.
     sql_then (reconstruct_snapshot env cfg now a) (\<lambda>from_snap.
     sql_then (reconstruct_snapshot env cfg now b) (\<lambda>into_snap.
     sql_then (sql_give (merge_rows_loop env strategy base_snap into_snap from_snap
                 (merge_keys base_snap from_snap into_snap) into_snap [])) (\<lambda>(merged, conflicts).
       let c = sql_commit_record env (CommitId fresh) [b, a]
                 (merge_message ''merge '' into from (length conflicts)) now default_commit_meta
       in sql_run
            (tx_then (insert_with_rows env skey c (diff_snapshots env into_snap merged)) (\<lambda>_.
             tx_then (move_branch_and_head env ''merge'' skey into b (CommitId fresh))
               (\<lambda>_ db. Inr (\<lparr>mr_commit = CommitId fresh, mr_conflicts = conflicts\<rparr>, db))))))))) {} (\<lambda>_ _. True)"
    by (intro cspec_chain cspec_reads [OF inj] cspec_give publish subset_refl) auto
qed simp

lemma merge_tracks:
  assumes inj: "inj (uuid_display env)"
  shows "cspec env db0 {CommitId fresh} (\<lambda>_. True) (sql_merge env cfg fresh now scope from into strategy) {}
    (\<lambda>_ _. True)"
proof -
  let ?k = "scope_key scope" and ?F = "{CommitId fresh}"
  have forward: "cspec env db0 ?F (knows ?k [a, b]) (sql_run (tx_then (move_branch_and_head env ''merge'' ?k into b a)
      (\<lambda>_ db. Inr (x, db)))) {} (\<lambda>_ _. True)" for a b x
    by (rule cspec_run [where N = "{}"])
      (auto simp: tx_then_Inr knows_def dest: move_branch_and_head_keeps intro: grows_same move_both_same)
  have diverged: "cspec env db0 ?F (knows ?k [a, b])
      (sql_merge_diverged env cfg fresh now ?k from into strategy a b) {} (\<lambda>_ _. True)" for a b
    by (rule cspec_weaken [OF merge_diverged_tracks [OF inj]]) (erule knows_stored, simp_all)
  show ?thesis
    unfolding sql_merge_def Let_def
  proof (rule cspec_then [where R = "\<lambda>a. knows ?k [a]"], rule cspec_ask, simp add: knows_def branch_in_scope,
      rule cspec_then [where R = "\<lambda>b. knows ?k [a, b]" for a], rule cspec_ask,
      simp add: knows_def branch_in_scope, rule cspec_chain [OF cspec_ask_keep])
    fix a b forward
    show "cspec env db0 ?F (knows ?k [a, b]) (if forward
        then sql_run (tx_then (move_branch_and_head env ''merge'' ?k into b a)
               (\<lambda>_ db. Inr (\<lparr>mr_commit = a, mr_conflicts = []\<rparr>, db)))
        else sql_merge_diverged env cfg fresh now ?k from into strategy a b) {} (\<lambda>_ _. True)"
      by (simp add: forward diverged)
  qed simp_all
qed

lemma diff_tracks:
  assumes inj: "inj (uuid_display env)"
  shows "cspec env db0 {} (\<lambda>_. True) (sql_diff_commits env cfg now scope a b) {} (\<lambda>_ _. True)"
  unfolding sql_diff_commits_def Let_def
  by (rule cspec_then [where R = "\<lambda>_. stored [a]"], rule cspec_ask, simp add: scope_stored,
      rule cspec_then [where R = "\<lambda>_. stored [a, b]"], rule cspec_ask, simp add: scope_stored)
    (intro cspec_chain cspec_reads [OF inj] cspec_give subset_refl; simp)+

lemma squash_run_tracks:
  assumes "c_id k = CommitId fresh"
  shows "cspec env db0 {CommitId fresh} P (sql_run (tx_then (squash_body env skey k rows newest) (\<lambda>_ db. Inr (x, db))))
    {} (\<lambda>_ _. True)"
  by (rule cspec_run [where N = "{CommitId fresh}"])
    (use assms in \<open>auto simp: tx_then_Inr dest: squash_body_keeps squash_body_grows\<close>)

lemma squash_tracks:
  assumes inj: "inj (uuid_display env)"
  shows "cspec env db0 {CommitId fresh} (\<lambda>_. True) (sql_squash env cfg fresh now scope ids message) {} (\<lambda>_ _. True)"
proof (cases "length ids < 2")
  case True
  then show ?thesis by (simp add: sql_squash_def cspec_give)
next
  case False
  then have "last ids \<in> set ids" by (cases ids) auto
  then have newest: "stored ids db \<Longrightarrow> hhas (vd_commits db) (last ids)" for db by (simp add: stored_def)
  let ?F = "{CommitId fresh}"
  show ?thesis
    unfolding sql_squash_def Let_def if_not_P [OF False]
  proof (rule cspec_then [where R = "\<lambda>_. stored ids"], rule cspec_ask, rule scopes_stored, assumption,
      rule cspec_chain, rule cspec_ask, assumption,
      rule cspec_then [where R = "\<lambda>par. stored (ids @ opt_list par)"], rule cspec_ask)
    fix db par assume "version_ok db" "stored ids db" "Inr (first_parent_row db (hd ids)) = Inr par"
    then show "stored (ids @ opt_list par) db" using parent_stored [of db "hd ids"] by auto
  next
    fix par
    show "cspec env db0 ?F (stored (ids @ opt_list par)) (sql_then (snapshot_or_empty env cfg now par) (\<lambda>base_snap.
           sql_then (reconstruct_snapshot env cfg now (last ids)) (\<lambda>tip_snap.
             sql_run (tx_then (squash_body env (scope_key scope)
                 (sql_commit_record env (CommitId fresh) (case par of None \<Rightarrow> [] | Some p \<Rightarrow> [p])
                       message now default_commit_meta) (diff_snapshots env base_snap tip_snap) (last ids))
                    (\<lambda>_ db. Inr (\<lparr>sq_new_commit = CommitId fresh, sq_squashed_count = length ids\<rparr>, db)))))) {}
         (\<lambda>_ _. True)"
      by (intro cspec_chain cspec_reads [OF inj] squash_run_tracks) (auto simp: newest)
  qed simp_all
qed

section \<open>Picking\<close>

lemma build_tracks:
  assumes inj: "inj (uuid_display env)" and P: "stable P"
  shows "cspec env db0 F P (build_cherry_pick_session env cfg now sid scope c target onto) F (\<lambda>_. stored [target])"
proof -
  let ?P = "\<lambda>par db. stored (c # target # opt_list par) db"
  show ?thesis
    unfolding build_cherry_pick_session_def Let_def
  proof (rule cspec_then [where R = "\<lambda>_. stored [c]"], rule cspec_ask, simp add: scope_stored,
      rule cspec_then [where R = "\<lambda>_. stored [c, target]"], rule cspec_ask, simp add: scope_stored,
      rule cspec_then [where R = ?P], rule cspec_ask)
    fix db par assume "version_ok db" "stored [c, target] db" "Inr (first_parent_row db c) = Inr par"
    then show "?P par db" using parent_stored [of db c] by auto
  qed (intro cspec_chain cspec_reads [OF inj] cspec_give subset_refl; simp split: option.splits)+
qed

lemma pick_snapshot_tracks:
  assumes inj: "inj (uuid_display env)" and P: "stable P" and F: "target \<notin> F" "CommitId fresh \<in> F" "F' \<subseteq> F - {CommitId fresh}"
  shows "cspec env db0 F P (commit_cherry_pick_snapshot env cfg fresh now scope c target onto final) F'
    (\<lambda>k. knows (scope_key scope) [k])"
  unfolding commit_cherry_pick_snapshot_def Let_def
proof (intro cspec_chain [OF cspec_read_new [OF inj P F(1)]] cspec_chain [OF cspec_ask_keep])
  fix before src
  let ?k = "sql_commit_record env (CommitId fresh) [target] (pick_message env c target onto) now default_commit_meta
    \<lparr>c_author := (case src of None \<Rightarrow> system_author True | Some x \<Rightarrow> c_author x)\<rparr>"
  show "cspec env db0 F P (sql_run (pick_body env (scope_key scope) ?k (diff_snapshots env before final) onto target)) F'
      (\<lambda>k. knows (scope_key scope) [k])"
    using F by (intro cspec_run [where N = "{CommitId fresh}"])
      (auto simp: knows_def dest: pick_body_keeps pick_body_grows)
qed (use F in auto)

lemma pick_at_tracks:
  assumes inj: "inj (uuid_display env)" and P: "stable P" and F: "CommitId fresh \<in> F" "F' \<subseteq> F - {CommitId fresh}"
  shows "cspec env db0 F P (cherry_pick_at_branch env cfg fresh sid now scope c target onto strategy) F'
    (\<lambda>k. knows (scope_key scope) [k])"
proof -
  have less: "F' \<subseteq> F" using F(2) by blast
  have fails: "cspec env db0 F P' (sql_give (Inl e)) F' Q" for P' e and Q :: "commit_id \<Rightarrow> version_db \<Rightarrow> bool"
    by (rule cspec_give) (simp_all add: less)
  have pick: "cspec env db0 F (stored [target])
      (commit_cherry_pick_snapshot env cfg fresh now scope c target onto final) F' (\<lambda>k. knows (scope_key scope) [k])" for final
    by (rule cspec_known [OF pick_snapshot_tracks [OF inj stable_stored _ F]]) simp_all
  show ?thesis
    unfolding cherry_pick_at_branch_def Let_def
    by (intro cspec_chain [OF cspec_give_keep] cspec_then [OF build_tracks [OF inj P]] less)
      (auto intro!: cspec_chain [OF cspec_give_keep] fails pick intro: subsetD [OF less])
qed

text \<open>The identities of the draws from \<open>i\<close> on, when at most \<open>n\<close> are made.\<close>

definition draws :: "(nat \<Rightarrow> uuid) \<Rightarrow> nat \<Rightarrow> nat \<Rightarrow> commit_id set" where
  "draws fresh i n = (\<lambda>j. CommitId (fresh j)) ` {i..<n}"

lemma draws_next:
  assumes "inj_on fresh {..<n}" "i < n"
  shows "CommitId (fresh i) \<in> draws fresh i n" "draws fresh (Suc i) n \<subseteq> draws fresh i n - {CommitId (fresh i)}"
  using assms by (fastforce simp: draws_def inj_on_def)+

lemma pick_all_tracks:
  assumes inj: "inj (uuid_display env)" "inj_on fresh {..<n}" and n: "i + length cs \<le> n"
  shows "cspec env db0 (draws fresh i n) (knows (scope_key scope) [target])
     (pick_all env cfg fresh sids now scope strategy i cs applied target) {}
     (\<lambda>x. knows (scope_key scope) [snd x])"
  using n
proof (induction cs arbitrary: i applied target)
  case Nil
  show ?case by (rule cspecI) (auto intro: tracks_less)
next
  case (Cons c cs)
  have "i < n" using Cons.prems by simp
  note one = pick_at_tracks [OF inj(1) stable_knows draws_next, OF inj(2) \<open>i < n\<close> inj(2) \<open>i < n\<close>]
  have rest: "Suc i + length cs \<le> n" using Cons.prems by simp
  show ?case
  proof (rule cspecI)
    fix s r s' assume pre: "tracks env db0 (draws fresh i n) s" "knows (scope_key scope) [target] (vq_db s)"
      and run: "pick_all env cfg fresh sids now scope strategy i (c # cs) applied target s = (r, s')"
    obtain q s1 where step: "cherry_pick_at_branch env cfg (fresh i) (sids i) now scope c target None strategy s = (q, s1)"
      by force
    note first = cspecD [OF one pre step]
    show "tracks env db0 {} s' \<and> (\<forall>x. r = Inr x \<longrightarrow> knows (scope_key scope) [snd x] (vq_db s'))"
    proof (cases q)
      case (Inl e)
      with run step first show ?thesis by (auto intro: tracks_less)
    next
      case (Inr k)
      with run step have "pick_all env cfg fresh sids now scope strategy (Suc i) cs (applied @ [k]) k s1 = (r, s')"
        by simp
      with cspecD [OF Cons.IH [OF rest]] first Inr show ?thesis by blast
    qed
  qed
qed

section \<open>Rebase and sessions\<close>

lemma run_rebased_tracks:
  "cspec env db0 {} (knows skey [target])
     (sql_run (tx_then (update_branch_head skey name h target) (\<lambda>_ db. Inr (applied, db)))) {} (\<lambda>_ _. True)"
  by (rule cspec_run [where N = "{}"])
    (auto simp: tx_then_Inr knows_def dest: update_branch_head_scope intro: grows_same update_branch_same)

lemma pick_then_move_tracks:
  assumes inj: "inj (uuid_display env)" "inj_on fresh {..<n}" and n: "i + length cs \<le> n"
  shows "cspec env db0 (draws fresh i n) (knows (scope_key scope) [target])
     (sql_then (pick_all env cfg fresh sids now scope strategy i cs applied target)
        (\<lambda>(applied, target). sql_run (tx_then (update_branch_head (scope_key scope) name h target)
          (\<lambda>_ db. Inr (applied, db))))) {} (\<lambda>_ _. True)"
  by (rule cspec_then [OF pick_all_tracks [OF inj n]]) (auto split: prod.split intro: run_rebased_tracks)

text \<open>How many identities a rebase draws: one for each commit that it picks.\<close>

definition rebase_draws :: "context_uri \<Rightarrow> branch_name \<Rightarrow> branch_name \<Rightarrow> version_db \<Rightarrow> nat" where
  "rebase_draws scope name onto db =
     (case (branch_head_row (scope_key scope) name db, branch_head_row (scope_key scope) onto db) of
        (Inr h, Inr onto_head) \<Rightarrow>
          (case commits_to_rebase db onto_head [] h of Some own \<Rightarrow> length own | None \<Rightarrow> 0)
      | _ \<Rightarrow> 0)"

lemma rebase_tracks:
  assumes inj: "inj (uuid_display env)" "inj_on fresh {..<rebase_draws scope name onto (vq_db s)}"
    and s: "tracks env db0 (draws fresh 0 (rebase_draws scope name onto (vq_db s))) s"
    and run: "sql_rebase env cfg fresh sids now scope name onto strategy s = Some (r, s')"
  shows "tracks env db0 {} s'"
proof -
  let ?k = "scope_key scope"
  consider "s' = s" | h onto_head own where "branch_head_row ?k onto (vq_db s) = Inr onto_head"
      "0 + length own \<le> rebase_draws scope name onto (vq_db s)"
      "sql_then (pick_all env cfg fresh sids now scope strategy 0 own [] onto_head)
        (\<lambda>(applied, target). sql_run (tx_then (update_branch_head ?k name h target)
          (\<lambda>_ db. Inr (applied, db)))) s = (r, s')"
    using run by (fastforce simp: sql_rebase_def rebase_draws_def Let_def split: sum.splits)
  then show ?thesis
  proof cases
    case (2 h onto_head own)
    have "knows ?k [onto_head] (vq_db s)" using branch_in_scope [OF tracks_ok [OF s] 2(1)] by (simp add: knows_def)
    from cspecD [OF pick_then_move_tracks [OF inj 2(2)] s this 2(3)] show ?thesis by simp
  qed (use s tracks_less in blast)
qed

lemma tracks_same:
  "tracks env db0 F s \<Longrightarrow> version_ok db' \<Longrightarrow> same_history (vq_db s) db' \<Longrightarrow> tracks env db0 F (s\<lparr>vq_db := db'\<rparr>)"
  by (rule tracks_grows [where new = "{}"]) (auto intro: grows_same)

lemma persist_tracks: "cspec env db0 F P (persist_if cfg p session) F (\<lambda>_ _. True)"
  by (auto simp: cspec_def persist_if_def persist_conflict_session_def same_history_def sessions_keep
      intro!: tracks_same intro: tracks_ok)

lemma mark_tracks: "cspec env db0 F P (mark_conflict_session_status env sid status) F (\<lambda>_ _. True)"
  by (auto simp: cspec_def mark_conflict_session_status_def same_history_def sessions_keep
      split: option.splits if_splits intro!: tracks_same intro: tracks_ok)

lemma begin_pick_tracks:
  assumes inj: "inj (uuid_display env)"
  shows "cspec env db0 {} (\<lambda>_. True) (begin_cherry_pick env cfg sid now scope c onto p) {} (\<lambda>_ _. True)"
  unfolding begin_cherry_pick_def
  by (intro cspec_chain [OF cspec_ask_keep] cspec_then [OF build_tracks [OF inj stable_True]] persist_tracks subset_refl)

lemma begin_rebase_tracks:
  assumes inj: "inj (uuid_display env)" and s: "tracks env db0 {} s"
    and run: "begin_rebase env cfg sid now scope name onto p s = Some (r, s')"
  shows "tracks env db0 {} s'"
proof -
  from run consider "s' = s" | c h own where "sql_then (build_cherry_pick_session env cfg now sid scope c h name)
      (\<lambda>session. persist_if cfg p
         (session\<lparr>cs_operation := InteractiveRebase name onto, cs_commits := own\<rparr>)) s = (r, s')"
    by (rule begin_rebase_cases)
  then show ?thesis
  proof cases
    case (2 c h own)
    from cspecD [OF cspec_then [OF build_tracks [OF inj stable_True] persist_tracks subset_refl] s TrueI 2]
    show ?thesis by simp
  qed (use s in simp)
qed

text \<open>Going on with a session draws one identity, or one for each of its commits.\<close>

definition session_draws :: "conflict_session \<Rightarrow> nat" where
  "session_draws session = max 1 (length (cs_commits session))"

lemma continue_tracks:
  assumes inj: "inj (uuid_display env)" "inj_on fresh {..<n}" and target: "cs_target session \<notin> draws fresh 0 n"
    and n: "session_draws session \<le> n"
  shows "cspec env db0 (draws fresh 0 n) (\<lambda>_. True) (continue_conflict_session env cfg fresh sids now session res) {}
    (\<lambda>_ _. True)"
  unfolding continue_conflict_session_def
proof (rule cspec_chain [OF cspec_give_keep])
  fix final
  let ?k = "scope_key (cs_scope session)"
  have "0 < n" using n by (simp add: session_draws_def)
  note draw = draws_next [OF inj(2) \<open>0 < n\<close>]
  have single: "cspec env db0 (draws fresh 0 n) (\<lambda>_. True) (sql_then (commit_cherry_pick_snapshot env cfg (fresh 0) now
      (cs_scope session) c (cs_target session) onto final) (\<lambda>k. sql_give (Inr [k]))) {} (\<lambda>_ _. True)" for c onto
    by (rule cspec_then [OF pick_snapshot_tracks [OF inj(1) stable_True target, where F' = "{}"]])
      (use draw in \<open>auto intro: cspec_give\<close>)
  have chain: "cspec env db0 (draws fresh 0 n) (\<lambda>_. True) (sql_then (commit_cherry_pick_snapshot env cfg (fresh 0) now
      (cs_scope session) c (cs_target session) None final) (\<lambda>k.
        sql_then (pick_all env cfg fresh sids now (cs_scope session) CFail (Suc 0) rest [k] k)
          (\<lambda>(applied, target). sql_run (tx_then (update_branch_head ?k name (cs_target session) target)
              (\<lambda>_ db. Inr (applied, db)))))) {} (\<lambda>_ _. True)"
    if "cs_commits session = c # rest" for c rest name
    using draw that n by (intro cspec_then [OF pick_snapshot_tracks [OF inj(1) stable_True target, where F' = "draws fresh (Suc 0) n"]]
      pick_then_move_tracks [OF inj]) (auto simp: session_draws_def)
  show "cspec env db0 (draws fresh 0 n) (\<lambda>_. True) (case cs_operation session of
       InteractiveCherryPick c onto \<Rightarrow>
         sql_then (commit_cherry_pick_snapshot env cfg (fresh 0) now (cs_scope session) c
             (cs_target session) (Some onto) final) (\<lambda>k. sql_give (Inr [k]))
     | InteractiveRebase name _ \<Rightarrow>
         (case cs_commits session of
            [] \<Rightarrow> sql_give (Inl (ConflictSessionUnavailable (show_session_id env (cs_id session))))
          | c # rest \<Rightarrow>
              sql_then (commit_cherry_pick_snapshot env cfg (fresh 0) now (cs_scope session) c
                  (cs_target session) None final) (\<lambda>k.
              sql_then (pick_all env cfg fresh sids now (cs_scope session) CFail 1 rest [k] k)
                (\<lambda>(applied, target).
                  sql_run (tx_then (update_branch_head ?k name (cs_target session) target)
                    (\<lambda>_ db. Inr (applied, db))))))) {} (\<lambda>_ _. True)"
    by (auto split: interactive_operation.split list.split intro: single chain cspec_give)
qed simp

definition stored_draws :: "conflict_session_id \<Rightarrow> version_db \<Rightarrow> nat" where
  "stored_draws sid db =
     (case hget (vd_sessions db) sid of Some r \<Rightarrow> session_draws (sn_session r) | None \<Rightarrow> 0)"

definition session_targets :: "conflict_session_id \<Rightarrow> version_db \<Rightarrow> commit_id set" where
  "session_targets sid db = {cs_target (sn_session r) | r. hget (vd_sessions db) sid = Some r}"

lemma continue_by_id_tracks:
  assumes inj: "inj (uuid_display env)" "inj_on fresh {..<n}"
  shows "cspec env db0 (draws fresh 0 n)
    (\<lambda>db. stored_draws sid db \<le> n \<and> session_targets sid db \<inter> draws fresh 0 n = {})
    (continue_conflict_session_by_id env cfg fresh sids now sid res) {} (\<lambda>_ _. True)"
  unfolding continue_conflict_session_by_id_def
proof (rule cspec_then [where R = "\<lambda>session _. session_draws session \<le> n \<and> cs_target session \<notin> draws fresh 0 n"],
    rule cspec_ask)
  fix db session assume "stored_draws sid db \<le> n \<and> session_targets sid db \<inter> draws fresh 0 n = {}"
    and "load_conflict_session env sid db = Inr session"
  then show "session_draws session \<le> n \<and> cs_target session \<notin> draws fresh 0 n"
    by (auto simp: stored_draws_def session_targets_def load_conflict_session_def split: option.splits if_splits)
next
  fix session
  show "cspec env db0 (draws fresh 0 n) (\<lambda>_. session_draws session \<le> n \<and> cs_target session \<notin> draws fresh 0 n)
     (sql_then (continue_conflict_session env cfg fresh sids now session res) (\<lambda>result.
      sql_then (mark_conflict_session_status env sid ''completed'') (\<lambda>_. sql_give (Inr result)))) {} (\<lambda>_ _. True)"
  proof (cases "session_draws session \<le> n \<and> cs_target session \<notin> draws fresh 0 n")
    case True
    then show ?thesis
      by (intro cspec_weaken [OF cspec_then [OF continue_tracks [OF inj]
            cspec_then [OF mark_tracks cspec_give_keep subset_refl] subset_refl]]) auto
  qed (auto simp: cspec_def)
qed simp

section \<open>References, reads and collection\<close>

lemma refs_same:
  "same_history db (snd (sql_create_branch env now scope name c bt db))"
  "same_history db (snd (sql_delete_branch env scope name db))"
  "same_history db (snd (sql_switch_head env scope name db))"
  "same_history db (snd (sql_create_tag env scope t db))"
  by (auto simp: sql_create_branch_def sql_delete_branch_def sql_switch_head_def sql_create_tag_def Let_def
      same_history_def split: sum.split option.split prod.split)

lemma refs_tracks:
  assumes "\<And>db. version_ok db \<Longrightarrow> version_ok (snd (f db))" "\<And>db. same_history db (snd (f db))"
  shows "cspec env db0 {} (\<lambda>_. True) (on_db f) {} (\<lambda>_ _. True)"
proof (rule cspec_on_db [where N = "{}"])
  fix db r db' assume "version_ok db" "f db = (r, db')"
  with assms [of db] show "version_ok db' \<and> grows env {} db db'" by (auto intro: grows_same)
qed simp_all

lemma commit_tracks:
  "cspec env db0 {CommitId fresh} (\<lambda>_. True) (on_db (sql_commit env fresh now scope ch meta)) {} (\<lambda>_ _. True)"
proof (rule cspec_on_db [where N = "{CommitId fresh}"])
  fix db r db' assume ok: "version_ok db" and run: "sql_commit env fresh now scope ch meta db = (r, db')"
  have "grows env {CommitId fresh} db db'"
    using run ok grows_same [OF same_history_refl]
    by (auto simp: sql_commit_def commit_on_def version_tx_def split: sum.splits prod.splits
        dest!: commit_body_grows)
  with ok run commit_on_keeps [OF ok] show "version_ok db' \<and> grows env {CommitId fresh} db db'"
    by (metis sql_commit_def snd_conv)
qed simp_all

lemma read_at_tracks:
  assumes inj: "inj (uuid_display env)"
  shows "cspec env db0 {} (\<lambda>_. True) (sql_read_at env cfg now uri r) {} (\<lambda>_ _. True)"
proof (rule cspecI)
  fix s x s' assume s: "tracks env db0 {} s" and run: "sql_read_at env cfg now uri r s = (x, s')"
  then have "s' = s \<or> (\<exists>c q. reconstruct_snapshot env cfg now c s = (q, s'))"
    by (auto simp: sql_read_at_def split: sum.splits option.splits prod.splits)
  with s tracks_read [OF inj s] show "tracks env db0 {} s' \<and> (\<forall>y. x = Inr y \<longrightarrow> True)" by blast
qed

lemma asof_read_tracks:
  assumes inj: "inj (uuid_display env)"
  shows "cspec env db0 {} (\<lambda>_. True) (sql_asof_read env cfg now uri at) {} (\<lambda>_ _. True)"
proof (rule cspecI)
  fix s x s' assume s: "tracks env db0 {} s" and run: "sql_asof_read env cfg now uri at s = (x, s')"
  then have "s' = s \<or> (\<exists>c. sql_read_at env cfg now uri (RefCommit c) s = (x, s'))"
    by (auto simp: sql_asof_read_def split: as_of_point.splits option.splits)
  with s cspecD [OF read_at_tracks [OF inj] s] show "tracks env db0 {} s' \<and> (\<forall>y. x = Inr y \<longrightarrow> True)" by blast
qed

lemma delete_rows_checkpoints:
  "delete_commit_rows env skey ids db = Inr (u, db') \<Longrightarrow> hget (vd_checkpoints db') c = Some r \<Longrightarrow>
   hget (vd_checkpoints db) c = Some r"
proof (induction ids arbitrary: db)
  case (Cons x ids)
  then obtain db1 where one: "delete_commit_row env skey x db = Inr ((), db1)"
    and rest: "delete_commit_rows env skey ids db1 = Inr (u, db')"
    by (auto simp: tx_then_Inr)
  have "hget (vd_checkpoints db1) c = Some r \<Longrightarrow> hget (vd_checkpoints db) c = Some r"
    using one by (auto elim!: delete_commit_row_cases simp: hm_simps split: if_splits)
  with Cons.IH [OF rest Cons.prems(2)] show ?case by blast
qed simp

lemma evict_cache:
  assumes "vq_cache (fold (cache_del_snapshot env) ids s) = Some m'" "hget m' k = Some snap"
  shows "\<exists>m. vq_cache s = Some m \<and> hget m k = Some snap"
  using assms(1)
proof (induction ids arbitrary: s)
  case Nil
  with assms(2) show ?case by simp
next
  case (Cons c ids)
  then obtain m where m: "vq_cache (cache_del_snapshot env c s) = Some m" "hget m k = Some snap"
    by (simp only: fold_simps) blast
  then obtain m0 where "vq_cache s = Some m0" "m = hdel (snapshot_cache_key env c) m0"
    by (auto simp: cache_del_snapshot_def)
  with m(2) show ?case by (simp add: hm_simps split: if_splits)
qed

lemma evict_get:
  assumes "cache_get_snapshot env c (fold (cache_del_snapshot env) ids s) = Some snap"
  shows "cache_get_snapshot env c s = Some snap"
proof -
  obtain cache where cache: "vq_cache (fold (cache_del_snapshot env) ids s) = cache" by simp
  with assms obtain m' where m': "cache = Some m'" "hget m' (snapshot_cache_key env c) = Some snap"
    unfolding cache_get_snapshot_def cache by (auto simp: bind_eq_Some_conv split: option.splits)
  from cache [unfolded m'(1)] obtain m where "vq_cache s = Some m" "hget m (snapshot_cache_key env c) = Some snap"
    using evict_cache m'(2) by blast
  then show ?thesis by (simp add: cache_get_snapshot_def)
qed

lemma gc_tracks:
  assumes "tracks env db0 {} s" "sql_gc env now scope policy s = (r, s')"
  shows "tracks env db0 {} s'"
proof -
  let ?skey = "scope_key scope"
  let ?ids = "collectable ?skey (gp_keep_recent policy) (now - days_ns (gp_max_age_days policy)) (vq_db s)"
  show ?thesis
  proof (cases "delete_commit_rows env ?skey ?ids (vq_db s)")
    case (Inl e)
    with assms show ?thesis
      by (auto simp: sql_gc_def Let_def sql_then_def sql_ask_def sql_run_def version_tx_def)
  next
    case (Inr x)
    then obtain db' where del: "delete_commit_rows env ?skey ?ids (vq_db s) = Inr ((), db')" by (cases x) auto
    with assms(2) have s': "s' = fold (cache_del_snapshot env) ?ids (s\<lparr>vq_db := db'\<rparr>)"
      by (auto simp: sql_gc_def Let_def sql_then_def sql_ask_def sql_run_def version_tx_def)
    then have db: "vq_db s' = db'" by (simp add: evict_db)
    have ok: "version_ok db'" using vspecD [OF gc_keeps tracks_ok [OF assms(1)] TrueI assms(2)] db by simp
    have kept: "hhas (vd_commits (vq_db s)) c \<and> tree_at env db' c = tree_at env (vq_db s) c"
      if "hhas (vd_commits db') c" for c
      using delete_commit_rows_kept [OF del, of env] that by (auto simp: kept_commits_def)
    have cached: "cache_get_snapshot env c s = Some snap" if "cache_get_snapshot env c s' = Some snap" for c snap
      using evict_get [of env c ?ids "s\<lparr>vq_db := db'\<rparr>"] that s' by (simp add: cache_get_snapshot_def)
    note point = delete_rows_checkpoints [OF del]
    have wf: "snapshots_wf s" using assms(1) by (simp add: tracks_def reads_exactly_def)
    have "caches_agree env s'"
      using assms(1) kept cached point unfolding tracks_def reads_exactly_def caches_agree_def db by metis
    moreover have "snapshots_wf s'"
      unfolding snapshots_wf_def db
    proof (intro conjI allI impI, goal_cases)
      case (1 m k snap)
      then have "vq_cache (fold (cache_del_snapshot env) ?ids (s\<lparr>vq_db := db'\<rparr>)) = Some m" using s' by simp
      then obtain m0 where "vq_cache s = Some m0" "hget m0 k = Some snap"
        using evict_cache 1 by fastforce
      with wf show ?case by (auto simp: snapshots_wf_def)
    next
      case (2 c r)
      with wf point [OF 2] show ?case by (auto simp: snapshots_wf_def)
    qed
    ultimately show ?thesis using assms(1) ok kept by (auto simp: tracks_def reads_exactly_def db)
  qed
qed

section \<open>Histories\<close>

text \<open>The identities a call draws, that they differ from each other, and the commits that the session it
  continues names as its target. A call draws finitely many.\<close>

fun drawn_ids :: "version_call \<Rightarrow> version_db \<Rightarrow> commit_id set" where
  "drawn_ids (CallCommit fresh _ _ _ _) db = {CommitId fresh}"
| "drawn_ids (CallMerge fresh _ _ _ _ _) db = {CommitId fresh}"
| "drawn_ids (CallCherryPick fresh _ _ _ _ _ _) db = {CommitId fresh}"
| "drawn_ids (CallSquash fresh _ _ _ _) db = {CommitId fresh}"
| "drawn_ids (CallRebase fresh _ _ scope name onto _) db = draws fresh 0 (rebase_draws scope name onto db)"
| "drawn_ids (CallContinue fresh _ _ session _) db = draws fresh 0 (session_draws session)"
| "drawn_ids (CallContinueById fresh _ _ sid _) db = draws fresh 0 (stored_draws sid db)"
| "drawn_ids _ db = {}"

fun draws_differ :: "version_call \<Rightarrow> version_db \<Rightarrow> bool" where
  "draws_differ (CallRebase fresh _ _ scope name onto _) db = inj_on fresh {..<rebase_draws scope name onto db}"
| "draws_differ (CallContinue fresh _ _ session _) db = inj_on fresh {..<session_draws session}"
| "draws_differ (CallContinueById fresh _ _ sid _) db = inj_on fresh {..<stored_draws sid db}"
| "draws_differ _ db = True"

fun named_targets :: "version_call \<Rightarrow> version_db \<Rightarrow> commit_id set" where
  "named_targets (CallContinue _ _ _ session _) db = {cs_target session}"
| "named_targets (CallContinueById _ _ _ sid _) db = session_targets sid db"
| "named_targets _ db = {}"

text \<open>A call is fresh when what it draws is new: not among the commits of the start, not stored, cached
  or in a checkpoint now, and not the target of its session.\<close>

definition call_fresh ::
    "('x) sqlite_env_scheme \<Rightarrow> version_db \<Rightarrow> version_call \<Rightarrow> version_sql \<Rightarrow> bool" where
  "call_fresh env db0 call s \<longleftrightarrow> draws_differ call (vq_db s)
     \<and> (\<forall>c\<in>drawn_ids call (vq_db s). \<not> hhas (vd_commits db0) c \<and> unused env c s \<and> c \<notin> named_targets call (vq_db s))"

lemma cspec_snd:
  "cspec env db0 F P m {} Q \<Longrightarrow> tracks env db0 F s \<Longrightarrow> P (vq_db s) \<Longrightarrow> tracks env db0 {} (snd (m s))"
  by (cases "m s") (auto dest: cspecD)

lemma pick_tracks:
  assumes "inj (uuid_display env)"
  shows "cspec env db0 {CommitId fresh} (\<lambda>_. True) (sql_cherry_pick env cfg fresh sid now scope c onto strategy) {}
    (\<lambda>_ _. True)"
  unfolding sql_cherry_pick_def
  by (rule cspec_chain [OF cspec_ask_keep], rule cspec_weaken [OF pick_at_tracks [OF assms stable_True]]) simp_all

lemma call_tracks:
  assumes inj: "inj (uuid_display env)" and s: "tracks env db0 {} s" and fresh: "call_fresh env db0 call s"
  shows "tracks env db0 {} (version_call_run env cfg call s)"
proof -
  have s': "tracks env db0 (drawn_ids call (vq_db s)) s"
    using s fresh by (auto simp: tracks_def call_fresh_def)
  note rules = cspec_snd [OF merge_tracks [OF inj]] cspec_snd [OF diff_tracks [OF inj]]
    cspec_snd [OF squash_tracks [OF inj]] cspec_snd [OF pick_tracks [OF inj]] cspec_snd [OF commit_tracks]
    cspec_snd [OF begin_pick_tracks [OF inj]] cspec_snd [OF read_at_tracks [OF inj]]
    cspec_snd [OF asof_read_tracks [OF inj]] cspec_snd [OF refs_tracks] cspec_snd [OF mark_tracks]
  show ?thesis
  proof (cases call)
    case (CallRebase f sids now scope name onto strategy)
    with s s' fresh rebase_tracks [OF inj] show ?thesis
      by (auto simp: outcome_state_def call_fresh_def split: option.split)
  next
    case (CallBeginRebase sid now scope name onto p)
    with s begin_rebase_tracks [OF inj] show ?thesis
      by (auto simp: outcome_state_def split: option.split)
  next
    case (CallGc now scope policy)
    with s gc_tracks show ?thesis by (cases "sql_gc env now scope policy s") auto
  next
    case (CallContinue f sids now session res)
    with s' fresh cspec_snd [OF continue_tracks [OF inj]] show ?thesis by (auto simp: call_fresh_def)
  next
    case (CallContinueById f sids now sid res)
    let ?n = "stored_draws sid (vq_db s)"
    have "inj_on f {..<?n}" "session_targets sid (vq_db s) \<inter> draws f 0 ?n = {}"
      using fresh CallContinueById by (auto simp: call_fresh_def)
    with CallContinueById s' cspec_snd [OF continue_by_id_tracks [OF inj], where s = s] show ?thesis by auto
  qed (use s' in \<open>auto simp: abort_conflict_session_def refs_same create_branch_keeps delete_branch_keeps
      switch_head_keeps create_tag_keeps intro: rules\<close>)
qed

interpretation vercache: op_system "version_call_run env cfg"
    "\<lambda>s. inj (uuid_display env) \<and> tracks env db0 {} s" "call_fresh env db0"
  for env :: sqlite_env and cfg db0
  by unfold_locales (simp add: call_tracks)

lemma tracks_start: "reads_exactly env s \<Longrightarrow> tracks env (vq_db s) {} s"
  by (simp add: tracks_def)

text \<open>So what the theorems on merging and snapshots ask of the store holds in every history with new
  identities that starts from empty tables.\<close>

lemma reads_exactly_always:
  assumes "inj (uuid_display env)" "cache = None \<or> cache = Some []"
    and "vercache.ok_run env cfg version_db_empty calls \<lparr>vq_db = version_db_empty, vq_cache = cache\<rparr>"
  shows "reads_exactly env (versql.run env cfg calls \<lparr>vq_db = version_db_empty, vq_cache = cache\<rparr>)"
proof -
  let ?s = "\<lparr>vq_db = version_db_empty, vq_cache = cache\<rparr>"
  have "hget (vd_checkpoints version_db_empty) c = None" for c by (simp add: version_db_empty_def)
  with assms(2) have "reads_exactly env ?s"
    by (auto simp: reads_exactly_def caches_agree_def snapshots_wf_def cache_get_snapshot_def version_empty_ok)
  from tracks_start [OF this] have "tracks env version_db_empty {} ?s" by simp
  from vercache.run_inv [OF conjI [OF assms(1) this] assms(3)] show ?thesis by (simp add: tracks_def)
qed

lemma read_at_tree:
  assumes "inj (uuid_display env)" "reads_exactly env s" "hhas (vd_commits (vq_db s)) c"
  shows "fst (sql_read_at env cfg now uri (RefCommit c) s) =
    (case tree_at env (vq_db s) c of Inl e \<Rightarrow> Inl e
     | Inr t \<Rightarrow> (case t (u_canonical uri) of
         None \<Rightarrow> Inl (VNotFound (u_canonical uri)) | Some txt \<Rightarrow> Inr (payload_from_json env txt)))"
proof -
  obtain r s' where read: "reconstruct_snapshot env cfg now c s = (r, s')" by force
  from reconstruct_exact(3) [OF assms read, symmetric] show ?thesis
    by (cases r) (auto simp: sql_read_at_def resolve_ref_def read split: option.split)
qed

text \<open>C10: take a SQLite commit store whose caches agree with its rows, printed identities that differ for
  different identities, and any calls, rebases, continued sessions and failed calls among them, in which
  the identities a call draws are new (they differ from each other and are not stored, cached or named
  by the session it continues). Afterwards the caches still agree with the rows; and an address read at
  a commit that was stored before and still is gives what it gave before.\<close>

theorem sql_reads_stable:
  assumes "inj (uuid_display env)" "reads_exactly env s" "vercache.ok_run env cfg (vq_db s) calls s"
  defines "s' \<equiv> versql.run env cfg calls s"
  shows "reads_exactly env s'
    \<and> (\<forall>c uri now now'. hhas (vd_commits (vq_db s)) c \<and> hhas (vd_commits (vq_db s')) c \<longrightarrow>
         fst (sql_read_at env cfg now uri (RefCommit c) s') = fst (sql_read_at env cfg now' uri (RefCommit c) s))"
proof -
  from vercache.run_inv [OF conjI [OF assms(1) tracks_start [OF assms(2)]] assms(3)]
  have "tracks env (vq_db s) {} s'" by (simp add: s'_def)
  then have "reads_exactly env s'" and "\<And>c. hhas (vd_commits (vq_db s)) c \<Longrightarrow> hhas (vd_commits (vq_db s')) c \<Longrightarrow>
      tree_at env (vq_db s') c = tree_at env (vq_db s) c"
    by (auto simp: tracks_def)
  with read_at_tree [OF assms(1)] assms(2) show ?thesis by simp
qed

text \<open>After two branches have diverged: a merge, a read that fills the cache, a rebase that draws two
  identities, a pick whose session is stored and continued, and a collection.\<close>

definition sample_draw :: "nat \<Rightarrow> uuid" where
  "sample_draw i = (if i = 0 then 10 else 11)"

definition sample_calls :: "version_call list" where
  "sample_calls =
     [CallMerge 4 9 (sample_uri ''s'') (BranchName ''exp'') (BranchName ''main'') ThreeWay,
      CallReadAt 10 (sample_uri ''a'') (RefCommit (CommitId 4)),
      CallRebase sample_draw (\<lambda>_. ConflictSessionId 1) 11 (sample_uri ''s'') (BranchName ''main'')
        (BranchName ''exp'') CFail,
      CallBeginPick (ConflictSessionId 2) 12 (sample_uri ''s'') (CommitId 2) (BranchName ''exp'') SessionEnabled,
      CallContinueById (\<lambda>_. 20) (\<lambda>_. ConflictSessionId 3) 13 (ConflictSessionId 2) [],
      CallGc (days_ns 9) (sample_uri ''s'') \<lparr>gp_keep_recent = 0, gp_max_age_days = 1\<rparr>]"

definition sample_cached :: version_sql where
  "sample_cached = sample_branches\<lparr>vq_cache := Some []\<rparr>"

lemma sample_cached_exact: "reads_exactly sample_env sample_cached"
  using sample_branches_exact
  by (simp add: sample_cached_def reads_exactly_def caches_agree_def snapshots_wf_def cache_get_snapshot_def)

lemma version_run_fold: "versql.run env cfg calls s = fold (version_call_run env cfg) calls s"
  by (induction calls arbitrary: s) simp_all

abbreviation sample_after :: "nat \<Rightarrow> version_sql" where
  "sample_after n \<equiv> fold (version_call_run sample_env sample_settings) (take n sample_calls) sample_cached"

lemma draws_two: "draws fresh 0 2 = {CommitId (fresh 0), CommitId (fresh 1)}"
  by (auto simp: draws_def image_iff less_2_cases_iff)

lemma draws_one: "draws fresh 0 (Suc 0) = {CommitId (fresh 0)}"
  by (auto simp: draws_def)

lemma sample_new:
  "\<not> hhas (vd_commits (vq_db sample_cached)) (CommitId 4) \<and> unused sample_env (CommitId 4) sample_cached"
  "list_all (\<lambda>n. \<not> hhas (vd_commits (vq_db sample_cached)) (CommitId n)) [10, 11, 20]"
  by code_simp+

lemma sample_rebase_new:
  "list_all (\<lambda>n. unused sample_env (CommitId n) (sample_after 2)) [10, 11]
   \<and> rebase_draws (sample_uri ''s'') (BranchName ''main'') (BranchName ''exp'') (vq_db (sample_after 2)) = 2"
  by code_simp

lemma sample_continue_new:
  "unused sample_env (CommitId 20) (sample_after 4)
   \<and> stored_draws (ConflictSessionId 2) (vq_db (sample_after 4)) = 1
   \<and> map_option (\<lambda>r. cs_target (sn_session r)) (hget (vd_sessions (vq_db (sample_after 4))) (ConflictSessionId 2))
       = Some (CommitId 3)"
  by code_simp

lemma sample_kept:
  "hhas (vd_commits (vq_db (sample_after 6))) (CommitId 1) \<and> hhas (vd_commits (vq_db sample_cached)) (CommitId 1)"
  by code_simp

lemma sample_fresh:
  "call_fresh sample_env (vq_db sample_cached) (sample_calls ! 2) (sample_after 2)"
  "call_fresh sample_env (vq_db sample_cached) (sample_calls ! 4) (sample_after 4)"
proof -
  have "inj_on sample_draw {..<2}" by (auto simp: inj_on_def sample_draw_def less_2_cases_iff)
  with sample_new(2) sample_rebase_new
  show "call_fresh sample_env (vq_db sample_cached) (sample_calls ! 2) (sample_after 2)"
    by (simp add: sample_calls_def call_fresh_def draws_two sample_draw_def del: version_call_run.simps)
  have "inj_on (\<lambda>_. 20 :: uuid) {..<1::nat}" by (simp add: inj_on_def)
  moreover have "session_targets (ConflictSessionId 2) (vq_db (sample_after 4)) = {CommitId 3}"
    using sample_continue_new by (auto simp: session_targets_def)
  ultimately show "call_fresh sample_env (vq_db sample_cached) (sample_calls ! 4) (sample_after 4)"
    using sample_new(2) sample_continue_new
    by (simp add: sample_calls_def call_fresh_def draws_one del: version_call_run.simps)
qed

theorem sql_reads_stable_witness:
  "let s = sample_cached; s' = versql.run sample_env sample_settings sample_calls s
   in fst (sql_read_at sample_env sample_settings 30 (sample_uri ''a'') (RefCommit (CommitId 1)) s') =
      fst (sql_read_at sample_env sample_settings 8 (sample_uri ''a'') (RefCommit (CommitId 1)) s)"
proof -
  have "vercache.ok_run sample_env sample_settings (vq_db sample_cached) sample_calls sample_cached"
    using sample_new(1) sample_fresh
    by (simp add: sample_calls_def call_fresh_def del: version_call_run.simps)
  from sql_reads_stable [OF sample_inj sample_cached_exact this] sample_kept show ?thesis
    by (simp add: Let_def version_run_fold sample_calls_def)
qed

end
