(* ===== verification/Network_Access.thy ===== *)
theory Network_Access
  imports Content_Model Rust_Text
begin

text \<open>
  Who may query the knowledge network: access grants (access.rs), the quotas and rules of the
  governance engine (governance.rs), the options of a discovery (types.rs) and the topology of a
  federation (topology.rs), all of crates/context-db-knowledge-network/src. The clock is an argument,
  in nanoseconds; an \<open>Instant\<close> is a natural number whose difference saturates at zero. Counters
  stay below limits of their own type, so that their values are natural numbers. Floating point numbers
  are their bits, compared as IEEE 754 prescribes.
\<close>

section \<open>Comparing single precision numbers\<close>

definition f32_magnitude :: "f32_bits \<Rightarrow> nat" where
  "f32_magnitude b = unat (take_bit 31 b)"

definition f32_is_finite :: "f32_bits \<Rightarrow> bool" where
  "f32_is_finite b = (f32_magnitude b < 0x7F800000)"

definition f32_is_nan :: "f32_bits \<Rightarrow> bool" where
  "f32_is_nan b = (0x7F800000 < f32_magnitude b)"

definition f32_value :: "f32_bits \<Rightarrow> int" where
  "f32_value b = (if bit b 31 then - int (f32_magnitude b) else int (f32_magnitude b))"

definition f32_le :: "f32_bits \<Rightarrow> f32_bits \<Rightarrow> bool" where
  "f32_le a b = (\<not> f32_is_nan a \<and> \<not> f32_is_nan b \<and> f32_value a \<le> f32_value b)"

definition f32_less :: "f32_bits \<Rightarrow> f32_bits \<Rightarrow> bool" where
  "f32_less a b = (\<not> f32_is_nan a \<and> \<not> f32_is_nan b \<and> f32_value a < f32_value b)"

section \<open>Types\<close>

datatype agent_id = AgentId string

fun agent_str :: "agent_id \<Rightarrow> string" where
  "agent_str (AgentId s) = s"

datatype network_error =
    PrivacyBudgetExhausted string
  | PolicyDenied string
  | NetworkTransport string
  | NetworkPlanner string

datatype query_intent = FastLookup | HighPrecision | HighRecall | PrivacyCritical
  | CrossDomainSynthesis | TrainingCandidate | CorroborationCheck

datatype return_mode = FastPartial | Balanced | Exhaustive

datatype federation_role = LeafAgent | TrustedPeer | DomainRouter | BridgeNode
  | RegistryMirror | ReputationAnchor

datatype market_entry_type = MarketFact | MarketSkill | MarketProcedure | MarketAntibody
  | MarketErrorPattern

datatype corroboration_level = Unverified | SingleSession | CrossSession | CrossAgent | Established

record discovery_query =
  dq_query_embedding :: "f32_bits list"
  dq_domains :: "string list"
  dq_entry_types :: "market_entry_type list"
  dq_min_quality :: f32_bits
  dq_min_corroboration_level :: corroboration_level
  dq_license_compatible :: bool

record dp_policy =
  dp_enabled :: bool
  dp_query_epsilon :: f32_bits
  dp_response_epsilon :: f32_bits
  dp_relay_epsilon :: f32_bits
  dp_delta :: f32_bits
  dp_clip_norm :: f32_bits
  dp_projected_dims :: nat
  dp_min_k_anonymity :: nat

record mesh_discovery_opts =
  mo_intent :: query_intent
  mo_return_mode :: return_mode
  mo_max_peers :: nat
  mo_probe_peers :: nat
  mo_fetch_peers :: nat
  mo_final_top_k :: nat
  mo_deadline_ms :: nat
  mo_peer_timeout_ms :: nat
  mo_max_concurrency :: nat

definition validate_opts :: "mesh_discovery_opts \<Rightarrow> network_error + unit" where
  "validate_opts opts =
     (if mo_max_peers opts = 0
      then Inl (NetworkPlanner ''max_peers must be greater than zero'')
      else if mo_probe_peers opts = 0 \<or> mo_fetch_peers opts = 0
      then Inl (NetworkPlanner ''probe_peers and fetch_peers must be greater than zero'')
      else if mo_max_peers opts < mo_probe_peers opts \<or> mo_max_peers opts < mo_fetch_peers opts
      then Inl (NetworkPlanner ''probe_peers and fetch_peers must not exceed max_peers'')
      else if mo_final_top_k opts = 0
      then Inl (NetworkPlanner ''final_top_k must be greater than zero'')
      else if mo_deadline_ms opts = 0 \<or> mo_peer_timeout_ms opts = 0
      then Inl (NetworkPlanner ''deadline_ms and peer_timeout_ms must be greater than zero'')
      else if mo_deadline_ms opts < mo_peer_timeout_ms opts
      then Inl (NetworkPlanner ''peer_timeout_ms must not exceed deadline_ms'')
      else if mo_max_concurrency opts = 0 \<or> mo_max_peers opts < mo_max_concurrency opts
      then Inl (NetworkPlanner ''max_concurrency must be between 1 and max_peers'')
      else Inr ())"

definition default_mesh_opts :: mesh_discovery_opts where
  "default_mesh_opts =
     \<lparr>mo_intent = FastLookup, mo_return_mode = FastPartial, mo_max_peers = 16, mo_probe_peers = 12,
      mo_fetch_peers = 6, mo_final_top_k = 20, mo_deadline_ms = 800, mo_peer_timeout_ms = 250,
      mo_max_concurrency = 8\<rparr>"

section \<open>Access grants\<close>

record access_grant =
  ag_id :: uuid
  ag_issuer :: agent_id
  ag_subject :: agent_id
  ag_domains :: "string list"
  ag_max_epsilon :: f32_bits
  ag_expires_at :: datetime

definition access_grant_new ::
    "uuid \<Rightarrow> datetime \<Rightarrow> agent_id \<Rightarrow> agent_id \<Rightarrow> string list \<Rightarrow> f32_bits \<Rightarrow> access_grant" where
  "access_grant_new fresh now issuer subject domains max_epsilon =
     \<lparr>ag_id = fresh, ag_issuer = issuer, ag_subject = subject, ag_domains = domains,
      ag_max_epsilon = max_epsilon, ag_expires_at = now + 3600000000000\<rparr>"

definition grant_allows ::
    "datetime \<Rightarrow> agent_id \<Rightarrow> string list \<Rightarrow> f32_bits \<Rightarrow> access_grant \<Rightarrow> bool" where
  "grant_allows now subject domains epsilon g =
     (ag_domains g \<noteq> [] \<and> domains \<noteq> [] \<and> ag_subject g = subject \<and> now < ag_expires_at g
      \<and> f32_is_finite epsilon \<and> f32_le 0 epsilon \<and> f32_le epsilon (ag_max_epsilon g)
      \<and> list_all (\<lambda>d. d \<in> set (ag_domains g)) domains)"

definition issue_grant ::
    "access_grant \<Rightarrow> (uuid, access_grant) hmap \<Rightarrow> uuid \<times> (uuid, access_grant) hmap" where
  "issue_grant g grants = (ag_id g, hput (ag_id g) g grants)"

definition authorize_access ::
    "datetime \<Rightarrow> agent_id \<Rightarrow> string list \<Rightarrow> f32_bits \<Rightarrow> (uuid, access_grant) hmap
     \<Rightarrow> network_error + unit" where
  "authorize_access now subject domains epsilon grants =
     (if domains = [] then Inl (PolicyDenied ''empty domain scope is not authorized'')
      else if list_ex (\<lambda>(_, g). grant_allows now subject domains epsilon g) grants then Inr ()
      else Inl (PolicyDenied ''no active access grant for requested domains''))"

section \<open>Governance\<close>

record governance_policy =
  gv_min_query_quality :: f32_bits
  gv_require_license_compatibility :: bool
  gv_require_k_anonymity :: bool
  gv_max_fetch_peers :: nat
  gv_allow_training_candidates :: bool
  gv_max_queries_per_window :: nat
  gv_quota_window :: nat
  gv_max_concurrent_queries :: nat
  gv_max_tracked_actors :: nat

definition default_governance :: governance_policy where
  "default_governance =
     \<lparr>gv_min_query_quality = 0, gv_require_license_compatibility = True, gv_require_k_anonymity = True,
      gv_max_fetch_peers = 32, gv_allow_training_candidates = True, gv_max_queries_per_window = 1000,
      gv_quota_window = 60000000000, gv_max_concurrent_queries = 64, gv_max_tracked_actors = 10000\<rparr>"

definition validate_governance :: "governance_policy \<Rightarrow> network_error + unit" where
  "validate_governance p =
     (if gv_max_fetch_peers p = 0 \<or> gv_max_queries_per_window p = 0 \<or> gv_quota_window p = 0
         \<or> gv_max_concurrent_queries p = 0 \<or> gv_max_tracked_actors p = 0
      then Inl (PolicyDenied ''governance quotas and fanout limits must be positive'')
      else Inr ())"

record quota_state =
  qs_window_started :: nat
  qs_accepted :: nat
  qs_in_flight :: nat

type_synonym quotas = "(agent_id, quota_state) hmap"

text \<open>What is left of the quotas at a call: actors with queries in flight or an open window.\<close>

definition retain_quotas :: "governance_policy \<Rightarrow> nat \<Rightarrow> quotas \<Rightarrow> quotas" where
  "retain_quotas p now qs =
     filter (\<lambda>(_, st). 0 < qs_in_flight st \<or> now - qs_window_started st < gv_quota_window p) qs"

definition open_window :: "governance_policy \<Rightarrow> nat \<Rightarrow> agent_id \<Rightarrow> quotas \<Rightarrow> quota_state" where
  "open_window p now actor qs =
     (let st = (case hget qs actor of
                  Some st \<Rightarrow> st
                | None \<Rightarrow> \<lparr>qs_window_started = now, qs_accepted = 0, qs_in_flight = 0\<rparr>)
      in if gv_quota_window p \<le> now - qs_window_started st
         then st\<lparr>qs_window_started := now, qs_accepted := 0\<rparr> else st)"

definition acquire_query ::
    "governance_policy \<Rightarrow> nat \<Rightarrow> agent_id \<Rightarrow> quotas \<Rightarrow> (network_error + unit) \<times> quotas" where
  "acquire_query p now actor quotas =
     (case validate_governance p of
        Inl e \<Rightarrow> (Inl e, quotas)
      | Inr _ \<Rightarrow>
          (let qs = retain_quotas p now quotas
           in if \<not> hhas qs actor \<and> gv_max_tracked_actors p \<le> length qs
              then (Inl (PolicyDenied ''federation actor quota capacity exhausted''), qs)
              else
                let st = open_window p now actor qs
                in if gv_max_queries_per_window p \<le> qs_accepted st
                   then (Inl (PolicyDenied ''federation query rate quota exhausted''), hput actor st qs)
                   else if gv_max_concurrent_queries p \<le> qs_in_flight st
                   then (Inl (PolicyDenied ''federation concurrent query quota exhausted''),
                         hput actor st qs)
                   else (Inr (), hput actor (st\<lparr>qs_accepted := qs_accepted st + 1,
                                               qs_in_flight := qs_in_flight st + 1\<rparr>) qs)))"

text \<open>The drop of a permit.\<close>

definition drop_permit :: "agent_id \<Rightarrow> quotas \<Rightarrow> quotas" where
  "drop_permit actor qs =
     (case hget qs actor of
        Some st \<Rightarrow> hput actor (st\<lparr>qs_in_flight := qs_in_flight st - 1\<rparr>) qs
      | None \<Rightarrow> qs)"

definition authorize_query ::
    "governance_policy \<Rightarrow> agent_id \<Rightarrow> discovery_query \<Rightarrow> query_intent \<Rightarrow> dp_policy
     \<Rightarrow> network_error + unit" where
  "authorize_query p actor query intent dp =
     (if agent_str actor = [] then Inl (PolicyDenied ''anonymous federation actor'')
      else if f32_less (dq_min_quality query) (gv_min_query_quality p)
      then Inl (PolicyDenied ''query quality threshold below governance policy'')
      else if gv_require_license_compatibility p \<and> \<not> dq_license_compatible query
      then Inl (PolicyDenied ''license-compatible discovery required'')
      else if gv_require_k_anonymity p \<and> intent = PrivacyCritical \<and> dp_min_k_anonymity dp < 2
      then Inl (PolicyDenied ''privacy-critical query requires k-anonymity'')
      else if intent = TrainingCandidate \<and> \<not> gv_allow_training_candidates p
      then Inl (PolicyDenied ''training candidate discovery disabled'')
      else Inr ())"

text \<open>Of a plan only the peers to fetch from matter.\<close>

definition authorize_plan :: "governance_policy \<Rightarrow> agent_id list \<Rightarrow> network_error + unit" where
  "authorize_plan p fetch_peers =
     (if gv_max_fetch_peers p < length fetch_peers
      then Inl (PolicyDenied ''fetch peer fanout exceeds governance policy'')
      else Inr ())"

section \<open>Topology\<close>

record federation_node =
  fn_id :: agent_id
  fn_roles :: "federation_role list"
  fn_endpoint :: string
  fn_region :: string
  fn_max_in_flight :: nat

record federation_topology =
  ft_local_node :: agent_id
  ft_nodes :: "federation_node list"
  ft_required_regions :: nat

text \<open>\<open>s.trim().is_empty()\<close>: no word is left.\<close>

definition blank :: "string \<Rightarrow> bool" where
  "blank s = (split_whitespace s = [])"

fun validate_nodes ::
    "federation_node list \<Rightarrow> agent_id list \<Rightarrow> string list \<Rightarrow> string list
     \<Rightarrow> network_error + agent_id list \<times> string list" where
  "validate_nodes [] ids endpoints regions = Inr (ids, regions)"
| "validate_nodes (n # ns) ids endpoints regions =
     (if agent_str (fn_id n) = [] \<or> blank (fn_endpoint n) \<or> blank (fn_region n) \<or> fn_roles n = []
         \<or> fn_max_in_flight n = 0
      then Inl (PolicyDenied ''topology nodes require id, endpoint, region, role, and positive capacity'')
      else if fn_id n \<in> set ids \<or> fn_endpoint n \<in> set endpoints
      then Inl (PolicyDenied ''topology node ids and endpoints must be unique'')
      else validate_nodes ns (fn_id n # ids) (fn_endpoint n # endpoints)
             (List.insert (fn_region n) regions))"

definition validate_topology :: "federation_topology \<Rightarrow> network_error + unit" where
  "validate_topology t =
     (if length (ft_nodes t) < 2
      then Inl (PolicyDenied ''federation topology requires at least two nodes'')
      else case validate_nodes (ft_nodes t) [] [] [] of
             Inl e \<Rightarrow> Inl e
           | Inr (ids, regions) \<Rightarrow>
               (if ft_local_node t \<notin> set ids
                then Inl (PolicyDenied ''local node is absent from federation topology'')
                else if ft_required_regions t = 0 \<or> length regions < ft_required_regions t
                then Inl (PolicyDenied ''federation topology does not satisfy required region diversity'')
                else Inr ()))"

definition capacities :: "federation_topology \<Rightarrow> (agent_id, nat) hmap" where
  "capacities t = fold (\<lambda>n. hput (fn_id n) (fn_max_in_flight n)) (ft_nodes t) []"

lemma validate_nodes_Inr:
  "validate_nodes ns ids endpoints regions = Inr (ids', regions') \<Longrightarrow>
   distinct (map fn_id ns) \<and> distinct (map fn_endpoint ns) \<and> set (map fn_id ns) \<inter> set ids = {}
   \<and> set (map fn_endpoint ns) \<inter> set endpoints = {} \<and> (\<forall>n\<in>set ns. 0 < fn_max_in_flight n)
   \<and> set ids' = set (map fn_id ns) \<union> set ids \<and> set regions' = set (map fn_region ns) \<union> set regions
   \<and> (distinct regions \<longrightarrow> distinct regions')"
proof (induction ns ids endpoints regions rule: validate_nodes.induct)
  case (2 n ns ids endpoints regions)
  from 2(2) have "fn_id n \<notin> set ids" "fn_endpoint n \<notin> set endpoints" "0 < fn_max_in_flight n"
    "validate_nodes ns (fn_id n # ids) (fn_endpoint n # endpoints) (List.insert (fn_region n) regions) = Inr (ids', regions')"
    by (simp_all split: if_splits)
  with 2(1) 2(2) show ?case by (auto split: if_splits)
qed simp

lemma hget_fold_ids:
  "distinct (map fn_id ns) \<Longrightarrow> n \<in> set ns \<Longrightarrow>
   hget (fold (\<lambda>n. hput (fn_id n) (fn_max_in_flight n)) ns m) (fn_id n) = Some (fn_max_in_flight n)"
proof (induction ns arbitrary: m)
  case (Cons x ns)
  have other: "hget (fold (\<lambda>n. hput (fn_id n) (fn_max_in_flight n)) ns m) k = hget m k"
    if "k \<notin> set (map fn_id ns)" for k m
    using that by (induction ns arbitrary: m) (auto simp: hm_simps)
  from Cons show ?case by (auto simp: other hm_simps)
qed simp

text \<open>A topology that passes names each node once and gives each one its positive capacity.\<close>

lemma topology_capacities:
  assumes "validate_topology t = Inr ()"
  shows "distinct (map fn_id (ft_nodes t)) \<and> (\<exists>n\<in>set (ft_nodes t). fn_id n = ft_local_node t)
    \<and> ft_required_regions t \<le> card (set (map fn_region (ft_nodes t)))
    \<and> (\<forall>n\<in>set (ft_nodes t). hget (capacities t) (fn_id n) = Some (fn_max_in_flight n) \<and> 0 < fn_max_in_flight n)"
proof -
  from assms obtain ids regions where nodes: "validate_nodes (ft_nodes t) [] [] [] = Inr (ids, regions)"
    and ok: "ft_local_node t \<in> set ids" "ft_required_regions t \<le> length regions"
    by (auto simp: validate_topology_def split: if_splits sum.splits)
  note valid = validate_nodes_Inr [OF nodes]
  have "length regions = card (set (map fn_region (ft_nodes t)))"
    using valid distinct_card [of regions] by simp
  with valid ok show ?thesis by (auto simp: capacities_def hget_fold_ids)
qed

end
