(* ===== verification/Network_Quotas.thy ===== *)
theory Network_Quotas
  imports Network_Access
begin

text \<open>
  The quotas of the governance engine over all sequences of calls: queries of many actors that are
  admitted, refused and finished in any order. Two instances of \<open>op_system\<close>: the permits in circulation
  are counted exactly, whatever the clock does; and when the clock does not run backwards
  between calls, no actor gets more than twice the quota within the length of a window.
\<close>

section \<open>Sequences of calls\<close>

datatype quota_call = AcquireQuery nat agent_id | DropPermit agent_id

record quota_world =
  qw_quotas :: quotas
  qw_permits :: "agent_id list"
  qw_log :: "(agent_id \<times> nat) list"
  qw_clock :: nat

definition quota_start :: quota_world where
  "quota_start = \<lparr>qw_quotas = [], qw_permits = [], qw_log = [], qw_clock = 0\<rparr>"

text \<open>The permits are those that callers hold, the log has the accepted queries with their times.\<close>

fun quota_call_run :: "governance_policy \<Rightarrow> quota_call \<Rightarrow> quota_world \<Rightarrow> quota_world" where
  "quota_call_run p (AcquireQuery now actor) w =
     (let (r, qs) = acquire_query p now actor (qw_quotas w); w' = w\<lparr>qw_quotas := qs, qw_clock := now\<rparr>
      in case r of
           Inl _ \<Rightarrow> w'
         | Inr _ \<Rightarrow> w'\<lparr>qw_permits := actor # qw_permits w, qw_log := (actor, now) # qw_log w\<rparr>)"
| "quota_call_run p (DropPermit actor) w =
     (if actor \<in> set (qw_permits w)
      then w\<lparr>qw_quotas := drop_permit actor (qw_quotas w), qw_permits := remove1 actor (qw_permits w)\<rparr>
      else w)"

section \<open>Queries in flight\<close>

definition in_flight :: "quotas \<Rightarrow> agent_id \<Rightarrow> nat" where
  "in_flight qs actor = (case hget qs actor of Some st \<Rightarrow> qs_in_flight st | None \<Rightarrow> 0)"

lemma length_hput: "length (hput k v m) = (if hhas m k then length m else Suc (length m))"
  by (induction m) (auto simp: hput_def hhas_def hget_def)

lemma hget_retain:
  "hm_wf qs \<Longrightarrow> hget (retain_quotas p now qs) actor = (case hget qs actor of
     Some st \<Rightarrow> if 0 < qs_in_flight st \<or> now - qs_window_started st < gv_quota_window p then Some st else None
   | None \<Rightarrow> None)"
  unfolding retain_quotas_def by (simp add: hget_filter split: option.split)

lemma in_flight_retain: "hm_wf qs \<Longrightarrow> in_flight (retain_quotas p now qs) actor = in_flight qs actor"
  by (simp add: in_flight_def hget_retain split: option.split)

lemma in_flight_hput: "in_flight (hput a st qs) actor = (if actor = a then qs_in_flight st else in_flight qs actor)"
  by (simp add: in_flight_def hm_simps)

lemma in_flight_open: "qs_in_flight (open_window p now actor qs) = in_flight qs actor"
  by (simp add: open_window_def in_flight_def Let_def split: option.split)

lemma length_retain: "length (retain_quotas p now qs) \<le> length qs"
  by (simp add: retain_quotas_def)

lemma wf_retain: "hm_wf qs \<Longrightarrow> hm_wf (retain_quotas p now qs)"
  by (simp add: retain_quotas_def hm_simps)

text \<open>What a call does: nothing, or after the retention it writes the open window, counted up when the
  query is accepted.\<close>

lemma acquire_cases:
  assumes "acquire_query p now actor qs = (r, qs')"
  obtains (invalid) e where "r = Inl e" "qs' = qs"
    | (full) e where "r = Inl e" "qs' = retain_quotas p now qs" "0 < gv_quota_window p"
    | (refused) e where "r = Inl e" "0 < gv_quota_window p"
        "hhas (retain_quotas p now qs) actor \<or> length (retain_quotas p now qs) < gv_max_tracked_actors p"
        "qs' = hput actor (open_window p now actor (retain_quotas p now qs)) (retain_quotas p now qs)"
    | (accepted) st where "r = Inr ()" "0 < gv_quota_window p"
        "hhas (retain_quotas p now qs) actor \<or> length (retain_quotas p now qs) < gv_max_tracked_actors p"
        "st = open_window p now actor (retain_quotas p now qs)"
        "qs_accepted st < gv_max_queries_per_window p" "qs_in_flight st < gv_max_concurrent_queries p"
        "qs' = hput actor (st\<lparr>qs_accepted := qs_accepted st + 1, qs_in_flight := qs_in_flight st + 1\<rparr>)
           (retain_quotas p now qs)"
proof (cases "validate_governance p")
  case (Inl e)
  with assms show ?thesis by (intro invalid [of e]) (simp_all add: acquire_query_def)
next
  case (Inr u)
  then have window: "0 < gv_quota_window p" by (simp add: validate_governance_def split: if_splits)
  let ?rs = "retain_quotas p now qs"
  let ?st = "open_window p now actor ?rs"
  show ?thesis
  proof (cases "\<not> hhas ?rs actor \<and> gv_max_tracked_actors p \<le> length ?rs")
    case True
    with assms Inr have "r = Inl (PolicyDenied ''federation actor quota capacity exhausted'')" "qs' = ?rs"
      by (simp_all add: acquire_query_def Let_def)
    from full [OF this window] show ?thesis .
  next
    case False
    then have room: "hhas ?rs actor \<or> length ?rs < gv_max_tracked_actors p" by auto
    show ?thesis
    proof (cases "gv_max_queries_per_window p \<le> qs_accepted ?st \<or> gv_max_concurrent_queries p \<le> qs_in_flight ?st")
      case True
      have "\<exists>e. r = Inl e \<and> qs' = hput actor ?st ?rs"
      proof (cases "gv_max_queries_per_window p \<le> qs_accepted ?st")
        case True
        with assms Inr False show ?thesis by (auto simp: acquire_query_def Let_def)
      next
        case slow: False
        with True assms Inr False show ?thesis by (auto simp: acquire_query_def Let_def)
      qed
      then obtain e where "r = Inl e" "qs' = hput actor ?st ?rs" by blast
      from refused [OF this(1) window room this(2)] show ?thesis .
    next
      case free: False
      with assms Inr False have "r = Inr ()"
        "qs' = hput actor (?st\<lparr>qs_accepted := qs_accepted ?st + 1, qs_in_flight := qs_in_flight ?st + 1\<rparr>) ?rs"
        by (simp_all add: acquire_query_def Let_def)
      from accepted [OF this(1) window room refl _ _ this(2)] free show ?thesis by simp
    qed
  qed
qed

definition quotas_exact :: "governance_policy \<Rightarrow> quota_world \<Rightarrow> bool" where
  "quotas_exact p w \<longleftrightarrow> hm_wf (qw_quotas w) \<and> length (qw_quotas w) \<le> gv_max_tracked_actors p
     \<and> (\<forall>a. count_list (qw_permits w) a = in_flight (qw_quotas w) a
            \<and> in_flight (qw_quotas w) a \<le> gv_max_concurrent_queries p)"

lemma count_remove1: "count_list (remove1 x xs) y = (if y = x then count_list xs y - 1 else count_list xs y)"
  by (induction xs) auto

lemma in_flight_drop: "in_flight (drop_permit a qs) actor =
    (if actor = a then in_flight qs actor - 1 else in_flight qs actor)"
  by (simp add: drop_permit_def in_flight_def hm_simps split: option.split)

lemma drop_permit_size: "hm_wf qs \<Longrightarrow> hm_wf (drop_permit a qs) \<and> length (drop_permit a qs) = length qs"
  by (auto simp: drop_permit_def hm_simps length_hput hhas_def split: option.split)

lemma quotas_exact_step: "quotas_exact p w \<Longrightarrow> quotas_exact p (quota_call_run p call w)"
proof (cases call)
  case (AcquireQuery now actor)
  assume inv: "quotas_exact p w"
  obtain r qs' where run: "acquire_query p now actor (qw_quotas w) = (r, qs')" by force
  have wf: "hm_wf (qw_quotas w)" and size: "length (retain_quotas p now (qw_quotas w)) \<le> gv_max_tracked_actors p"
    using inv length_retain [of p now "qw_quotas w"] by (auto simp: quotas_exact_def)
  note facts = wf_retain [OF wf] in_flight_retain [OF wf] in_flight_hput in_flight_open length_hput hm_simps
  from run inv show ?thesis
    unfolding AcquireQuery
    by (cases rule: acquire_cases [OF run]) (use size in \<open>auto simp: quotas_exact_def facts\<close>)
next
  case (DropPermit actor)
  assume "quotas_exact p w"
  then show ?thesis
    using drop_permit_size [of "qw_quotas w" actor]
    by (auto simp: DropPermit quotas_exact_def in_flight_drop count_remove1 intro: diff_le_self order_trans)
qed

interpretation quota: op_system "quota_call_run p" "quotas_exact p" "\<lambda>_ _. True" for p
  by unfold_locales (rule quotas_exact_step)

lemma quotas_exact_start: "quotas_exact p quota_start"
  by (simp add: quotas_exact_def quota_start_def in_flight_def)

lemma quota_any_run: "quota.ok_run p calls w"
  by (induction calls arbitrary: w) simp_all

text \<open>C35: after any calls of any actors, accepted, refused or finished in any order, and with any clock,
  each actor holds exactly as many permits as the engine counts in flight, never more than the
  bound on concurrent queries, and no more actors are tracked than allowed.\<close>

theorem permits_counted:
  "count_list (qw_permits (quota.run p calls quota_start)) actor = in_flight (qw_quotas (quota.run p calls quota_start)) actor
   \<and> count_list (qw_permits (quota.run p calls quota_start)) actor \<le> gv_max_concurrent_queries p
   \<and> length (qw_quotas (quota.run p calls quota_start)) \<le> gv_max_tracked_actors p"
  using quota.run_inv [OF quotas_exact_start quota_any_run, of p calls] by (simp add: quotas_exact_def)

section \<open>The rate\<close>

text \<open>How many of the times lie at or after an instant, and in an interval.\<close>

definition since :: "nat list \<Rightarrow> nat \<Rightarrow> nat" where
  "since L t = length (filter (\<lambda>u. t \<le> u) L)"

definition between :: "nat list \<Rightarrow> nat \<Rightarrow> nat \<Rightarrow> nat" where
  "between L t t' = length (filter (\<lambda>u. t \<le> u \<and> u < t') L)"

lemma between_le_since: "between L t t' \<le> since L t"
  unfolding between_def since_def by (induction L) auto

lemma since_antimono: "t \<le> t' \<Longrightarrow> since L t' \<le> since L t"
  unfolding since_def by (induction L) auto

lemma since_split: "since L t \<le> between L t s + since L s"
  unfolding since_def between_def by (induction L) auto

lemma since_after: "\<forall>u\<in>set L. u < t \<Longrightarrow> since L t = 0"
  unfolding since_def by (auto simp: filter_empty_conv)

text \<open>The times at which queries of one actor were accepted, and its window.\<close>

definition paced :: "governance_policy \<Rightarrow> nat \<Rightarrow> quota_state option \<Rightarrow> nat list \<Rightarrow> bool" where
  "paced p clock sto L \<longleftrightarrow>
     (\<forall>t. between L t (t + gv_quota_window p) \<le> 2 * gv_max_queries_per_window p)
     \<and> (case sto of
          None \<Rightarrow> (\<forall>u\<in>set L. u < clock) \<and> (\<forall>t. clock \<le> t + gv_quota_window p \<longrightarrow> since L t \<le> gv_max_queries_per_window p)
        | Some st \<Rightarrow> qs_window_started st \<le> clock \<and> qs_accepted st = since L (qs_window_started st)
            \<and> qs_accepted st \<le> gv_max_queries_per_window p
            \<and> (\<forall>u\<in>set L. u < qs_window_started st + gv_quota_window p)
            \<and> (\<forall>t. qs_window_started st \<le> t + gv_quota_window p
                 \<longrightarrow> between L t (qs_window_started st) \<le> gv_max_queries_per_window p))"

lemma paced_later: "paced p clock sto L \<Longrightarrow> clock \<le> now \<Longrightarrow> paced p now sto L"
  by (fastforce simp: paced_def split: option.splits)

lemma paced_retired:
  assumes "paced p now (Some st) L" "gv_quota_window p \<le> now - qs_window_started st"
    and "0 < gv_quota_window p"
  shows "paced p now None L"
proof -
  let ?s = "qs_window_started st" and ?w = "gv_quota_window p"
  have old: "?s + ?w \<le> now" using assms(2,3) by simp
  have "since L t \<le> gv_max_queries_per_window p" if "now \<le> t + ?w" for t
  proof -
    have "since L t \<le> since L ?s" using old that by (intro since_antimono) simp
    then show ?thesis using assms(1) by (simp add: paced_def)
  qed
  moreover have "\<forall>u\<in>set L. u < now" using assms(1) old by (auto simp: paced_def)
  ultimately show ?thesis using assms(1) by (simp add: paced_def)
qed

lemma paced_open:
  assumes "paced p now None L" "qs_window_started st = now" "qs_accepted st = 0" "0 < gv_quota_window p"
  shows "paced p now (Some st) L"
proof -
  have "between L t now \<le> gv_max_queries_per_window p" if "now \<le> t + gv_quota_window p" for t
    using assms(1) that between_le_since [of L t now] by (auto simp: paced_def intro: order_trans)
  then show ?thesis using assms since_after [of L now] by (auto simp: paced_def)
qed

lemma paced_accept:
  assumes "paced p now (Some st) L" "qs_accepted st < gv_max_queries_per_window p"
    and "now - qs_window_started st < gv_quota_window p"
    and "qs_window_started st' = qs_window_started st" "qs_accepted st' = qs_accepted st + 1"
  shows "paced p now (Some st') (now # L)"
proof -
  let ?s = "qs_window_started st" and ?w = "gv_quota_window p" and ?m = "gv_max_queries_per_window p"
  have "between (now # L) t (t + ?w) \<le> 2 * ?m" for t
  proof (cases "t \<le> now \<and> now < t + ?w")
    case True
    have "between L t (t + ?w) \<le> since L t" by (rule between_le_since)
    also have "\<dots> \<le> between L t ?s + since L ?s" by (rule since_split)
    also have "\<dots> \<le> ?m + qs_accepted st" using assms(1) True by (auto simp: paced_def)
    finally show ?thesis using assms(2) True by (simp add: between_def)
  next
    case False
    then have "between (now # L) t (t + ?w) = between L t (t + ?w)" by (auto simp: between_def)
    then show ?thesis using assms(1) by (simp add: paced_def)
  qed
  moreover have "between (now # L) t ?s = between L t ?s" for t
    using assms(1) by (auto simp: between_def paced_def)
  ultimately show ?thesis using assms by (auto simp: paced_def since_def)
qed

lemma open_window_paced:
  assumes "paced p now (hget qs actor) L" "0 < gv_quota_window p"
  shows "paced p now (Some (open_window p now actor qs)) L
    \<and> now - qs_window_started (open_window p now actor qs) < gv_quota_window p"
proof (cases "hget qs actor")
  case None
  with assms show ?thesis by (auto simp: open_window_def intro: paced_open)
next
  case (Some st)
  show ?thesis
  proof (cases "gv_quota_window p \<le> now - qs_window_started st")
    case True
    from assms(1) Some have "paced p now (Some st) L" by simp
    from paced_retired [OF this True assms(2)] True Some assms(2) show ?thesis
      by (auto simp: open_window_def intro: paced_open)
  next
    case False
    with Some assms(1) show ?thesis by (simp add: open_window_def)
  qed
qed

definition accepted_times :: "agent_id \<Rightarrow> (agent_id \<times> nat) list \<Rightarrow> nat list" where
  "accepted_times actor log = map snd (filter (\<lambda>(a, _). a = actor) log)"

definition all_paced :: "governance_policy \<Rightarrow> quota_world \<Rightarrow> bool" where
  "all_paced p w \<longleftrightarrow> hm_wf (qw_quotas w)
     \<and> (\<forall>a. paced p (qw_clock w) (hget (qw_quotas w) a) (accepted_times a (qw_log w)))"

lemma retain_paced:
  assumes "hm_wf qs" "paced p now (hget qs a) L" "0 < gv_quota_window p"
  shows "paced p now (hget (retain_quotas p now qs) a) L"
  using assms paced_retired by (auto simp: hget_retain not_less split: option.split)

text \<open>Calls take the lock in the order of the times they read.\<close>

fun in_order :: "quota_call \<Rightarrow> quota_world \<Rightarrow> bool" where
  "in_order (AcquireQuery now actor) w = (qw_clock w \<le> now)"
| "in_order (DropPermit actor) w = True"

lemma all_paced_step:
  assumes "all_paced p w" "in_order call w"
  shows "all_paced p (quota_call_run p call w)"
proof (cases call)
  case (AcquireQuery now actor)
  let ?qs = "qw_quotas w" and ?rs = "retain_quotas p now (qw_quotas w)"
  obtain r qs' where run: "acquire_query p now actor ?qs = (r, qs')" by force
  have wf: "hm_wf ?qs" using assms(1) by (simp add: all_paced_def)
  have now: "paced p now (hget ?qs a) (accepted_times a (qw_log w))" for a
    using assms AcquireQuery by (auto simp: all_paced_def intro: paced_later)
  note kept = retain_paced [OF wf now] and opened = open_window_paced [OF retain_paced [OF wf now]]
  from run show ?thesis
  proof (cases rule: acquire_cases)
    case (invalid e)
    with run wf now AcquireQuery show ?thesis by (simp add: all_paced_def)
  next
    case (full e)
    with run wf_retain [OF wf] kept AcquireQuery show ?thesis by (simp add: all_paced_def)
  next
    case (refused e)
    with run wf_retain [OF wf] kept opened AcquireQuery show ?thesis by (simp add: all_paced_def hm_simps)
  next
    case (accepted st)
    have "paced p now (Some (st\<lparr>qs_accepted := qs_accepted st + 1, qs_in_flight := qs_in_flight st + 1\<rparr>))
        (now # accepted_times actor (qw_log w))"
      using opened [OF accepted(2,2), of actor] accepted(4,5) by (intro paced_accept [of p now st]) auto
    with accepted run wf_retain [OF wf] kept AcquireQuery show ?thesis
      by (simp add: all_paced_def hm_simps accepted_times_def)
  qed
next
  case (DropPermit actor)
  have "paced p clock (map_option (\<lambda>st. st\<lparr>qs_in_flight := n st\<rparr>) sto) L = paced p clock sto L" for clock n sto L
    by (simp add: paced_def split: option.split)
  moreover have "hget (drop_permit actor qs) a = map_option (\<lambda>st. st\<lparr>qs_in_flight :=
      if a = actor then qs_in_flight st - 1 else qs_in_flight st\<rparr>) (hget qs a)" for qs a
    by (cases "hget qs a") (auto simp: drop_permit_def hm_simps split: option.split)
  ultimately show ?thesis
    using assms drop_permit_size [of "qw_quotas w" actor] by (simp add: DropPermit all_paced_def)
qed

interpretation pace: op_system "quota_call_run p" "all_paced p" in_order for p
  by unfold_locales (rule all_paced_step)

lemma all_paced_start: "all_paced p quota_start"
  by (simp add: all_paced_def quota_start_def paced_def accepted_times_def between_def since_def)

text \<open>C36: when calls take the lock in the order of the times they read, no actor has more than twice the
  quota of queries accepted within any interval of the length of a window, although windows open at the
  calls themselves and the windows of idle actors are forgotten.\<close>

theorem rate_bounded:
  assumes "pace.ok_run p calls quota_start"
  shows "between (accepted_times actor (qw_log (pace.run p calls quota_start))) t (t + gv_quota_window p)
    \<le> 2 * gv_max_queries_per_window p"
  using pace.run_inv [OF all_paced_start assms] by (simp add: all_paced_def paced_def)

text \<open>A quota of two: one query opens the window and one comes at its end, two more at once in the next
  window, and a fifth is refused.\<close>

definition sample_policy :: governance_policy where
  "sample_policy =
     \<lparr>gv_min_query_quality = 0, gv_require_license_compatibility = True, gv_require_k_anonymity = True,
      gv_max_fetch_peers = 1, gv_allow_training_candidates = True, gv_max_queries_per_window = 2,
      gv_quota_window = 10, gv_max_concurrent_queries = 4, gv_max_tracked_actors = 1\<rparr>"

definition sample_calls :: "quota_call list" where
  "sample_calls =
     [AcquireQuery 0 (AgentId ''a''), AcquireQuery 9 (AgentId ''a''), DropPermit (AgentId ''a''),
      AcquireQuery 10 (AgentId ''a''), AcquireQuery 11 (AgentId ''a''), AcquireQuery 12 (AgentId ''a'')]"

theorem rate_bounded_witness:
  "between (accepted_times (AgentId ''a'') (qw_log (pace.run sample_policy sample_calls quota_start))) 9 19 \<le> 4
   \<and> accepted_times (AgentId ''a'') (qw_log (pace.run sample_policy sample_calls quota_start)) = [11, 10, 9, 0]"
proof -
  have "pace.ok_run sample_policy sample_calls quota_start"
    unfolding sample_calls_def pace.ok_run.simps by code_simp
  from rate_bounded [OF this, of "AgentId ''a''" 9]
  have "between (accepted_times (AgentId ''a'') (qw_log (pace.run sample_policy sample_calls quota_start))) 9 19 \<le> 4"
    by (simp add: sample_policy_def)
  moreover have "accepted_times (AgentId ''a'') (qw_log (pace.run sample_policy sample_calls quota_start)) = [11, 10, 9, 0]"
    unfolding sample_calls_def pace.run.simps by code_simp
  ultimately show ?thesis by simp
qed

end
