(* ===== verification/Lifecycle_Jobs.thy ===== *)
theory Lifecycle_Jobs
  imports Index_Outbox Context_Store
begin

text \<open>
  Durable execution of destructive lifecycle decisions, crates/context-db-consolidation/src/
  lifecycle_execution.rs: the journal of jobs, the cold store, the executor with its checkpoints, and the
  ports of its tests. The four stores behind the executor are a record of operations on a state of
  their own. Everything that leaves the process, a call of a port or an access to a file, is one tick of a
  schedule of faults: it may fail before or after it has had its effect, fail while writing, or never
  return because the process stops there. A run that stops keeps what the files and stores hold.

  The journal file holds the map of the jobs; a missing file reads as the empty map. The cold store is a
  map from file names to manifests, compared as bytes. serde_json, blake3, the clock and fresh
  uuids are parameters. The counters of attempts and revisions are natural numbers.
\<close>

section \<open>Jobs\<close>

datatype lifecycle_action = AKeep | ADowngrade content_level | AArchive | AConsolidate | ADelete | AFreeze

datatype lifecycle_job_state = LPending | LRunning | LRetryable | LSucceeded | LPermanentlyFailed

datatype lifecycle_operation = LArchive | LDelete | LColdStorage

datatype metacog_tier = Hot | Cold

definition metacog_tier :: "context_entry \<Rightarrow> context_error + metacog_tier" where
  "metacog_tier e =
     (if category (e_uri e) \<noteq> Metacog
      then Inl (InvalidUri (''heat routing is only defined for metacog entries: '' @ u_canonical (e_uri e)))
      else case m_state_scope (e_metadata e) of
             Some ScopeMid \<Rightarrow> Inr Cold
           | Some _ \<Rightarrow> Inr Hot
           | None \<Rightarrow> Inl (Storage (''metacog entry '' @ u_canonical (e_uri e) @ '' has no state scope'')))"

record lifecycle_checkpoint =
  ck_manifest :: bool
  ck_vector :: bool
  ck_graph :: bool
  ck_content :: bool
  ck_blobs :: bool

definition no_checkpoint :: lifecycle_checkpoint where
  "no_checkpoint = \<lparr>ck_manifest = False, ck_vector = False, ck_graph = False, ck_content = False, ck_blobs = False\<rparr>"

record lifecycle_audit =
  la_at :: datetime
  la_state :: lifecycle_job_state
  la_message :: string

record lifecycle_job =
  lj_id :: uuid
  lj_key :: string
  lj_uri :: context_uri
  lj_operation :: lifecycle_operation
  lj_state :: lifecycle_job_state
  lj_attempts :: nat
  lj_max_attempts :: nat
  lj_next_attempt_at :: datetime
  lj_checkpoint :: lifecycle_checkpoint
  lj_last_error :: "string option"
  lj_audit :: "lifecycle_audit list"
  lj_revision :: nat
  lj_lease_owner :: "uuid option"
  lj_lease_until :: "datetime option"
  lj_restore :: lifecycle_checkpoint

type_synonym edge = "context_uri \<times> context_uri \<times> graph_relation"

record archive_manifest =
  am_job_id :: uuid
  am_entry :: context_entry
  am_blobs :: "(blob_ref \<times> string) list"
  am_edges :: "edge list"
  am_vector :: "index_point option"
  am_created_at :: datetime

type_synonym journal = "(string, lifecycle_job) hmap"

section \<open>The world of the executor\<close>

record 'h ports =
  po_scan :: "string \<Rightarrow> page_request \<Rightarrow> 'h \<Rightarrow> (context_error + context_entry page) \<times> 'h"
  po_write :: "context_entry \<Rightarrow> 'h \<Rightarrow> (context_error + mvcc_version) \<times> 'h"
  po_delete :: "context_uri \<Rightarrow> 'h \<Rightarrow> (context_error + unit) \<times> 'h"
  po_edges_for :: "context_uri \<Rightarrow> 'h \<Rightarrow> (context_error + edge list) \<times> 'h"
  po_add_edge :: "context_uri \<Rightarrow> context_uri \<Rightarrow> graph_relation \<Rightarrow> 'h \<Rightarrow> (context_error + unit) \<times> 'h"
  po_remove_edge :: "context_uri \<Rightarrow> context_uri \<Rightarrow> 'h \<Rightarrow> (context_error + unit) \<times> 'h"
  po_get_point :: "string \<Rightarrow> context_uri \<Rightarrow> 'h \<Rightarrow> (context_error + index_point option) \<times> 'h"
  po_upsert_point :: "string \<Rightarrow> index_point \<Rightarrow> 'h \<Rightarrow> (context_error + unit) \<times> 'h"
  po_delete_point :: "string \<Rightarrow> context_uri \<Rightarrow> 'h \<Rightarrow> (context_error + unit) \<times> 'h"
  po_get_blob :: "blob_ref \<Rightarrow> 'h \<Rightarrow> (context_error + string) \<times> 'h"
  po_put_blob :: "string \<Rightarrow> string \<Rightarrow> 'h \<Rightarrow> (context_error + blob_ref) \<times> 'h"
  po_delete_blob :: "blob_ref \<Rightarrow> 'h \<Rightarrow> (context_error + unit) \<times> 'h"

text \<open>What happens to one access: it works, it fails before its effect, while writing, after its
  effect, or the process stops.\<close>

datatype fault = Fine | Fails context_error | FailsWriting context_error | FailsAfter context_error | Stop

record 'h lifecycle_env =
  lx_ports :: "'h ports"
  lx_collection :: string
  lx_fault :: "nat \<Rightarrow> fault"
  lx_now :: "nat \<Rightarrow> datetime"
  lx_file_name :: "string \<Rightarrow> string"
  lx_manifest_bytes :: "archive_manifest \<Rightarrow> context_error + string"
  lx_entry_bytes :: "context_entry \<Rightarrow> context_error + string"

record 'h lworld =
  lw_hot :: 'h
  lw_journal :: journal
  lw_cold :: "(string, archive_manifest) hmap"
  lw_tick :: nat
  lw_reads :: nat \<comment> \<open>readings of the clock\<close>

datatype 'a outcome = Returns 'a | Raises context_error | Stopped

type_synonym ('s, 'a) run = "'s \<Rightarrow> 'a outcome \<times> 's"

definition run_return :: "'a \<Rightarrow> ('s, 'a) run" where
  "run_return x s = (Returns x, s)"

definition run_raise :: "context_error \<Rightarrow> ('s, 'a) run" where
  "run_raise e s = (Raises e, s)"

definition run_then :: "('s, 'a) run \<Rightarrow> ('a \<Rightarrow> ('s, 'b) run) \<Rightarrow> ('s, 'b) run" where
  "run_then m f s =
     (case m s of
        (Returns x, s') \<Rightarrow> f x s'
      | (Raises e, s') \<Rightarrow> (Raises e, s')
      | (Stopped, s') \<Rightarrow> (Stopped, s'))"

definition run_try :: "('s, 'a) run \<Rightarrow> ('s, context_error + 'a) run" where
  "run_try m s =
     (case m s of
        (Returns x, s') \<Rightarrow> (Returns (Inr x), s')
      | (Raises e, s') \<Rightarrow> (Returns (Inl e), s')
      | (Stopped, s') \<Rightarrow> (Stopped, s'))"

fun run_each :: "('a \<Rightarrow> ('s, 'b) run) \<Rightarrow> 'a list \<Rightarrow> ('s, 'b list) run" where
  "run_each f [] = run_return []"
| "run_each f (x # xs) =
     run_then (f x) (\<lambda>y. run_then (run_each f xs) (\<lambda>ys. run_return (y # ys)))"

definition clock :: "'h lifecycle_env \<Rightarrow> ('h lworld, datetime) run" where
  "clock env w = (Returns (lx_now env (lw_reads w)), w\<lparr>lw_reads := Suc (lw_reads w)\<rparr>)"

text \<open>One access: \<open>f\<close> is its effect.\<close>

definition access ::
    "'h lifecycle_env \<Rightarrow> ('h lworld \<Rightarrow> (context_error + 'a) \<times> 'h lworld) \<Rightarrow> ('h lworld, 'a) run" where
  "access env f w =
     (let w1 = w\<lparr>lw_tick := Suc (lw_tick w)\<rparr>
      in case lx_fault env (lw_tick w) of
           Fine \<Rightarrow> (case f w1 of (Inl e, w2) \<Rightarrow> (Raises e, w2) | (Inr x, w2) \<Rightarrow> (Returns x, w2))
         | Fails e \<Rightarrow> (Raises e, w1)
         | FailsWriting e \<Rightarrow> (Raises e, w1)
         | FailsAfter e \<Rightarrow> (Raises e, snd (f w1))
         | Stop \<Rightarrow> (Stopped, w1))"

definition call :: "'h lifecycle_env \<Rightarrow> ('h \<Rightarrow> (context_error + 'a) \<times> 'h) \<Rightarrow> ('h lworld, 'a) run" where
  "call env f = access env (\<lambda>w. let (r, h) = f (lw_hot w) in (r, w\<lparr>lw_hot := h\<rparr>))"

section \<open>The cold store\<close>

definition put_manifest ::
    "'h lifecycle_env \<Rightarrow> string \<Rightarrow> archive_manifest \<Rightarrow> ('h lworld, unit) run" where
  "put_manifest env key m =
     access env (\<lambda>w.
       case lx_manifest_bytes env m of
         Inl e \<Rightarrow> (Inl e, w)
       | Inr bytes \<Rightarrow>
           (case hget (lw_cold w) (lx_file_name env key) of
              Some old \<Rightarrow>
                (if lx_manifest_bytes env old = Inr bytes then (Inr (), w)
                 else (Inl (VersionConflict (''cold manifest key collision: '' @ key)), w))
            | None \<Rightarrow> (Inr (), w\<lparr>lw_cold := hput (lx_file_name env key) m (lw_cold w)\<rparr>)))"

definition get_manifest :: "'h lifecycle_env \<Rightarrow> string \<Rightarrow> ('h lworld, archive_manifest) run" where
  "get_manifest env key =
     access env (\<lambda>w.
       case hget (lw_cold w) (lx_file_name env key) of
         Some m \<Rightarrow> (Inr m, w)
       | None \<Rightarrow> (Inl (Io ''No such file or directory''), w))"

section \<open>The journal\<close>

text \<open>A transaction reads the file, runs \<open>f\<close>, which may change the caller's variable \<open>'x\<close>, and
  replaces the file when \<open>f\<close> succeeds.\<close>

definition transact ::
    "'h lifecycle_env \<Rightarrow> (journal \<Rightarrow> 'x \<Rightarrow> (context_error + 'a \<times> journal) \<times> 'x)
     \<Rightarrow> ('x \<times> 'h lworld, 'a) run" where
  "transact env f s =
     (let x = fst s; w = snd s; w1 = w\<lparr>lw_tick := Suc (lw_tick w)\<rparr>; fault = lx_fault env (lw_tick w)
      in case fault of
           Stop \<Rightarrow> (Stopped, (x, w1))
         | Fails e \<Rightarrow> (Raises e, (x, w1))
         | _ \<Rightarrow>
             (case f (lw_journal w) x of
                (Inl e, x') \<Rightarrow> (Raises e, (x', w1))
              | (Inr (a, jobs), x') \<Rightarrow>
                  (case fault of
                     FailsWriting e \<Rightarrow> (Raises e, (x', w1))
                   | FailsAfter e \<Rightarrow> (Raises e, (x', w1\<lparr>lw_journal := jobs\<rparr>))
                   | _ \<Rightarrow> (Returns a, (x', w1\<lparr>lw_journal := jobs\<rparr>)))))"

definition without_job :: "(unit \<times> 'w, 'a) run \<Rightarrow> ('w, 'a) run" where
  "without_job m w = (case m ((), w) of (r, (_, w')) \<Rightarrow> (r, w'))"

definition load_jobs :: "'h lifecycle_env \<Rightarrow> ('h lworld, journal) run" where
  "load_jobs env = access env (\<lambda>w. (Inr (lw_journal w), w))"

definition upsert_tx :: "lifecycle_job \<Rightarrow> journal \<Rightarrow> unit \<Rightarrow> (context_error + lifecycle_job \<times> journal) \<times> unit"
where
  "upsert_tx job jobs x =
     (case hget jobs (lj_key job) of
        Some existing \<Rightarrow> (Inr (existing, jobs), x)
      | None \<Rightarrow> (Inr (job, hput (lj_key job) job jobs), x))"

text \<open>The jobs are loaded once more for a copy that nothing reads.\<close>

definition journal_upsert :: "'h lifecycle_env \<Rightarrow> lifecycle_job \<Rightarrow> ('h lworld, lifecycle_job) run" where
  "journal_upsert env job =
     run_then (without_job (transact env (upsert_tx job))) (\<lambda>result.
     run_then (load_jobs env) (\<lambda>_. run_return result))"

definition update_tx ::
    "journal \<Rightarrow> lifecycle_job \<Rightarrow> (context_error + unit \<times> journal) \<times> lifecycle_job" where
  "update_tx jobs job =
     (case hget jobs (lj_key job) of
        None \<Rightarrow> (Inl (NotFound (lj_key job)), job)
      | Some current \<Rightarrow>
          (if lj_revision current \<noteq> lj_revision job
           then (Inl (VersionConflict (''stale lifecycle revision for '' @ lj_key job)), job)
           else
             let job' = job\<lparr>lj_revision := lj_revision job + 1\<rparr>
             in (Inr ((), hput (lj_key job) job' jobs), job')))"

text \<open>The operations of the executor run on the job they hold and the world.\<close>

type_synonym ('h, 'a) task = "(lifecycle_job \<times> 'h lworld, 'a) run"

definition journal_update :: "'h lifecycle_env \<Rightarrow> ('h, unit) task" where
  "journal_update env = transact env update_tx"

definition lease_ns :: int where
  "lease_ns = 30 * 1000000000"

definition claim_tx ::
    "string \<Rightarrow> uuid \<Rightarrow> datetime \<Rightarrow> journal \<Rightarrow> unit \<Rightarrow> (context_error + lifecycle_job option \<times> journal) \<times> unit"
where
  "claim_tx key owner now jobs x =
     (case hget jobs key of
        None \<Rightarrow> (Inr (None, jobs), x)
      | Some job \<Rightarrow>
          (if lj_next_attempt_at job > now
              \<or> lj_state job = LSucceeded \<or> lj_state job = LPermanentlyFailed
              \<or> (case lj_lease_until job of None \<Rightarrow> False | Some until \<Rightarrow> until > now)
           then (Inr (None, jobs), x)
           else
             let job' = job\<lparr>lj_lease_owner := Some owner, lj_lease_until := Some (now + lease_ns),
                            lj_revision := lj_revision job + 1\<rparr>
             in (Inr (Some job', hput key job' jobs), x)))"

definition journal_claim ::
    "'h lifecycle_env \<Rightarrow> string \<Rightarrow> uuid \<Rightarrow> datetime \<Rightarrow> ('h lworld, lifecycle_job option) run" where
  "journal_claim env key owner now = without_job (transact env (claim_tx key owner now))"

definition claimable :: "datetime \<Rightarrow> lifecycle_job \<Rightarrow> bool" where
  "claimable now j \<longleftrightarrow>
     (lj_state j = LPending \<or> lj_state j = LRunning \<or> lj_state j = LRetryable)
     \<and> lj_next_attempt_at j \<le> now
     \<and> (case lj_lease_until j of None \<Rightarrow> True | Some until \<Rightarrow> until \<le> now)"

text \<open>The map is a \<open>BTreeMap\<close>: its values come in the order of the keys. A journal that cannot be read
  counts as empty.\<close>

definition recoverable :: "'h lifecycle_env \<Rightarrow> datetime \<Rightarrow> ('h lworld, lifecycle_job list) run" where
  "recoverable env now =
     run_then (run_try (load_jobs env)) (\<lambda>r.
       run_return (filter (claimable now)
         (map snd (sort_key fst (case r of Inl _ \<Rightarrow> [] | Inr jobs \<Rightarrow> jobs)))))"

definition journal_get :: "'h lifecycle_env \<Rightarrow> string \<Rightarrow> ('h lworld, lifecycle_job option) run" where
  "journal_get env key =
     run_then (run_try (load_jobs env)) (\<lambda>r.
       run_return (case r of Inl _ \<Rightarrow> None | Inr jobs \<Rightarrow> hget jobs key))"

section \<open>Submitting\<close>

fun op_debug :: "lifecycle_operation \<Rightarrow> string" where
  "op_debug LArchive = ''Archive''"
| "op_debug LDelete = ''Delete''"
| "op_debug LColdStorage = ''ColdStorage''"

fun operation_of :: "lifecycle_action \<Rightarrow> lifecycle_operation option" where
  "operation_of AArchive = Some LArchive"
| "operation_of ADelete = Some LDelete"
| "operation_of (ADowngrade L0) = Some LColdStorage"
| "operation_of (ADowngrade L1) = Some LColdStorage"
| "operation_of _ = None"

definition job_key :: "context_uri \<Rightarrow> lifecycle_operation \<Rightarrow> string" where
  "job_key uri operation = u_canonical uri @ '':'' @ op_debug operation"

definition new_lifecycle_job :: "uuid \<Rightarrow> datetime \<Rightarrow> context_uri \<Rightarrow> lifecycle_operation \<Rightarrow> lifecycle_job" where
  "new_lifecycle_job fresh now uri operation =
     \<lparr>lj_id = fresh, lj_key = job_key uri operation, lj_uri = uri, lj_operation = operation,
      lj_state = LPending, lj_attempts = 0, lj_max_attempts = 5, lj_next_attempt_at = now,
      lj_checkpoint = no_checkpoint, lj_last_error = None,
      lj_audit = [\<lparr>la_at = now, la_state = LPending, la_message = ''accepted''\<rparr>],
      lj_revision = 0, lj_lease_owner = None, lj_lease_until = None, lj_restore = no_checkpoint\<rparr>"

definition submit ::
    "'h lifecycle_env \<Rightarrow> uuid \<Rightarrow> context_uri \<Rightarrow> lifecycle_action \<Rightarrow> ('h lworld, lifecycle_job) run" where
  "submit env fresh uri action =
     (case operation_of action of
        None \<Rightarrow> run_raise (Unsupported ''lifecycle action has no destructive execution'')
      | Some operation \<Rightarrow>
          run_then (clock env) (\<lambda>now. journal_upsert env (new_lifecycle_job fresh now uri operation)))"

definition route_metacog ::
    "'h lifecycle_env \<Rightarrow> uuid \<Rightarrow> context_entry \<Rightarrow> ('h lworld, lifecycle_job option) run" where
  "route_metacog env fresh e =
     (case metacog_tier e of
        Inl err \<Rightarrow> run_raise err
      | Inr Hot \<Rightarrow> run_return None
      | Inr Cold \<Rightarrow> run_then (submit env fresh (e_uri e) (ADowngrade L1)) (\<lambda>j. run_return (Some j)))"

section \<open>Executing\<close>

definition the_job :: "('h, lifecycle_job) task" where
  "the_job s = (Returns (fst s), s)"

definition set_job :: "(lifecycle_job \<Rightarrow> lifecycle_job) \<Rightarrow> ('h, unit) task" where
  "set_job f s = (Returns (), (f (fst s), snd s))"

definition on_world :: "('h lworld, 'a) run \<Rightarrow> ('h, 'a) task" where
  "on_world m s = (case m (snd s) of (r, w) \<Rightarrow> (r, (fst s, w)))"

definition audit_job :: "'h lifecycle_env \<Rightarrow> string \<Rightarrow> ('h, unit) task" where
  "audit_job env message =
     run_then (on_world (clock env)) (\<lambda>now.
       set_job (\<lambda>j. j\<lparr>lj_audit := lj_audit j @ [\<lparr>la_at = now, la_state = lj_state j, la_message = message\<rparr>]\<rparr>))"

fun payload_blobs :: "content_payload \<Rightarrow> blob_ref list"
  and part_blobs :: "content_part \<Rightarrow> blob_ref list" where
  "payload_blobs (Image _ _ raw) = [raw]"
| "payload_blobs (Audio _ _ raw) = [raw]"
| "payload_blobs (Structured _ sch _) =
     (case sch of None \<Rightarrow> [] | Some s \<Rightarrow> (case sr_blob s of None \<Rightarrow> [] | Some b \<Rightarrow> [b]))"
| "payload_blobs (Composite _ parts) = concat (map part_blobs parts)"
| "payload_blobs (Text _ _ _) = []"
| "part_blobs (PartText p) = payload_blobs p"
| "part_blobs (PartImage p) = payload_blobs p"
| "part_blobs (PartAudio p) = payload_blobs p"
| "part_blobs (PartReference _) = []"

definition read_live :: "'h lifecycle_env \<Rightarrow> context_uri \<Rightarrow> ('h lworld, context_entry) run" where
  "read_live env uri =
     run_then (call env (po_scan (lx_ports env) (u_canonical uri) (page_request_new 1))) (\<lambda>page.
       case find (\<lambda>e. e_uri e = uri) (pg_items page) of
         Some e \<Rightarrow> run_return e
       | None \<Rightarrow> run_raise (NotFound (u_canonical uri)))"

definition checkpoint :: "'h lifecycle_env \<Rightarrow> (lifecycle_checkpoint \<Rightarrow> lifecycle_checkpoint) \<Rightarrow> ('h, unit) task" where
  "checkpoint env f =
     run_then (set_job (\<lambda>j. j\<lparr>lj_checkpoint := f (lj_checkpoint j)\<rparr>)) (\<lambda>_. journal_update env)"

definition phase_manifest :: "'h lifecycle_env \<Rightarrow> ('h, unit) task" where
  "phase_manifest env =
     run_then the_job (\<lambda>job.
       if ck_manifest (lj_checkpoint job) then run_return ()
       else
         run_then (on_world (read_live env (lj_uri job))) (\<lambda>entry.
         run_then (on_world (run_each (\<lambda>b. run_then (call env (po_get_blob (lx_ports env) b))
                     (\<lambda>bytes. run_return (b, bytes))) (payload_blobs (e_payload entry)))) (\<lambda>blobs.
         run_then (on_world (call env (po_edges_for (lx_ports env) (lj_uri job)))) (\<lambda>edges.
         run_then (on_world (call env (po_get_point (lx_ports env) (lx_collection env) (lj_uri job)))) (\<lambda>point.
         run_then (on_world (clock env)) (\<lambda>now.
         run_then (on_world (put_manifest env (lj_key job)
                     \<lparr>am_job_id = lj_id job, am_entry = entry, am_blobs = blobs, am_edges = edges,
                      am_vector = point, am_created_at = now\<rparr>)) (\<lambda>_.
         checkpoint env (\<lambda>c. c\<lparr>ck_manifest := True\<rparr>))))))))"

definition phase_vector :: "'h lifecycle_env \<Rightarrow> ('h, unit) task" where
  "phase_vector env =
     run_then the_job (\<lambda>job.
       if ck_vector (lj_checkpoint job) then run_return ()
       else
         run_then (on_world (call env (po_delete_point (lx_ports env) (lx_collection env) (lj_uri job)))) (\<lambda>_.
         checkpoint env (\<lambda>c. c\<lparr>ck_vector := True\<rparr>)))"

definition phase_graph :: "'h lifecycle_env \<Rightarrow> ('h, unit) task" where
  "phase_graph env =
     run_then the_job (\<lambda>job.
       if ck_graph (lj_checkpoint job) then run_return ()
       else
         run_then (on_world (get_manifest env (lj_key job))) (\<lambda>m.
         run_then (on_world (run_each (\<lambda>(from, to, _). call env (po_remove_edge (lx_ports env) from to))
                     (am_edges m))) (\<lambda>_.
         checkpoint env (\<lambda>c. c\<lparr>ck_graph := True\<rparr>))))"

definition phase_content :: "'h lifecycle_env \<Rightarrow> ('h, unit) task" where
  "phase_content env =
     run_then the_job (\<lambda>job.
       if ck_content (lj_checkpoint job) then run_return ()
       else
         run_then (on_world (call env (po_delete (lx_ports env) (lj_uri job)))) (\<lambda>_.
         checkpoint env (\<lambda>c. c\<lparr>ck_content := True\<rparr>)))"

definition phase_blobs :: "'h lifecycle_env \<Rightarrow> ('h, unit) task" where
  "phase_blobs env =
     run_then the_job (\<lambda>job.
       if ck_blobs (lj_checkpoint job) then run_return ()
       else
         run_then (on_world (get_manifest env (lj_key job))) (\<lambda>m.
         run_then (on_world (run_each (\<lambda>(b, _). call env (po_delete_blob (lx_ports env) b)) (am_blobs m))) (\<lambda>_.
         checkpoint env (\<lambda>c. c\<lparr>ck_blobs := True\<rparr>))))"

definition execute_phases :: "'h lifecycle_env \<Rightarrow> ('h, unit) task" where
  "execute_phases env =
     run_then (phase_manifest env) (\<lambda>_.
     run_then (phase_vector env) (\<lambda>_.
     run_then (phase_graph env) (\<lambda>_.
     run_then (phase_content env) (\<lambda>_. phase_blobs env))))"

definition backoff_ns :: "nat \<Rightarrow> int" where
  "backoff_ns attempts = 2 ^ min attempts 10 * 1000000000"

definition record_result :: "'h lifecycle_env \<Rightarrow> context_error + unit \<Rightarrow> ('h, unit) task" where
  "record_result env r =
     (case r of
        Inr _ \<Rightarrow>
          run_then (set_job (\<lambda>j. j\<lparr>lj_state := LSucceeded, lj_last_error := None\<rparr>)) (\<lambda>_.
          audit_job env ''all references committed'')
      | Inl e \<Rightarrow>
          run_then (set_job (\<lambda>j. j\<lparr>lj_last_error := Some (context_error_display e),
            lj_state := (if lj_attempts j \<ge> lj_max_attempts j then LPermanentlyFailed else LRetryable)\<rparr>)) (\<lambda>_.
          run_then (on_world (clock env)) (\<lambda>now.
          run_then (set_job (\<lambda>j. j\<lparr>lj_next_attempt_at := now + backoff_ns (lj_attempts j)\<rparr>)) (\<lambda>_.
          audit_job env (''execution failed: '' @ context_error_display e)))))"

definition execute_task :: "'h lifecycle_env \<Rightarrow> ('h, unit) task" where
  "execute_task env =
     run_then (set_job (\<lambda>j. j\<lparr>lj_state := LRunning, lj_attempts := lj_attempts j + 1\<rparr>)) (\<lambda>_.
     run_then (audit_job env ''attempt started'') (\<lambda>_.
     run_then (journal_update env) (\<lambda>_.
     run_then (run_try (execute_phases env)) (\<lambda>r.
     run_then (record_result env r) (\<lambda>_.
     run_then (set_job (\<lambda>j. j\<lparr>lj_lease_owner := None, lj_lease_until := None\<rparr>)) (\<lambda>_.
     journal_update env))))))"

definition with_job :: "('h, unit) task \<Rightarrow> lifecycle_job \<Rightarrow> ('h lworld, lifecycle_job) run" where
  "with_job m job w =
     (case run_then m (\<lambda>_. the_job) (job, w) of (r, s) \<Rightarrow> (r, snd s))"

definition execute_job :: "'h lifecycle_env \<Rightarrow> lifecycle_job \<Rightarrow> ('h lworld, lifecycle_job) run" where
  "execute_job env = with_job (execute_task env)"

text \<open>An error of one job ends the pass.\<close>

fun run_jobs ::
    "'h lifecycle_env \<Rightarrow> uuid \<Rightarrow> lifecycle_job list \<Rightarrow> ('h lworld, lifecycle_job list) run" where
  "run_jobs env owner [] = run_return []"
| "run_jobs env owner (j # js) =
     run_then (clock env) (\<lambda>now.
     run_then (journal_claim env (lj_key j) owner now) (\<lambda>claimed.
       case claimed of
         None \<Rightarrow> run_jobs env owner js
       | Some current \<Rightarrow>
           run_then (execute_job env current) (\<lambda>out.
           run_then (run_jobs env owner js) (\<lambda>outs. run_return (out # outs)))))"

definition run_pending :: "'h lifecycle_env \<Rightarrow> uuid \<Rightarrow> ('h lworld, lifecycle_job list) run" where
  "run_pending env owner =
     run_then (clock env) (\<lambda>now.
     run_then (recoverable env now) (\<lambda>js. run_jobs env owner js))"

section \<open>Restoring\<close>

definition restore_checkpoint ::
    "'h lifecycle_env \<Rightarrow> (lifecycle_checkpoint \<Rightarrow> lifecycle_checkpoint) \<Rightarrow> ('h, unit) task" where
  "restore_checkpoint env f =
     run_then (set_job (\<lambda>j. j\<lparr>lj_restore := f (lj_restore j)\<rparr>)) (\<lambda>_. journal_update env)"

definition unless_restored ::
    "(lifecycle_checkpoint \<Rightarrow> bool) \<Rightarrow> ('h, unit) task \<Rightarrow> ('h, unit) task" where
  "unless_restored d m = run_then the_job (\<lambda>job. if d (lj_restore job) then run_return () else m)"

definition restore_blobs :: "'h lifecycle_env \<Rightarrow> archive_manifest \<Rightarrow> ('h, unit) task" where
  "restore_blobs env m =
     unless_restored ck_blobs
       (run_then (on_world (run_each (\<lambda>(r, bytes).
            run_then (call env (po_put_blob (lx_ports env) bytes (br_mime_type r))) (\<lambda>written.
              if br_hash written \<noteq> br_hash r then run_raise (Storage ''restored blob hash mismatch'')
              else run_return ())) (am_blobs m))) (\<lambda>_.
        restore_checkpoint env (\<lambda>c. c\<lparr>ck_blobs := True\<rparr>)))"

definition same_entry_bytes :: "'h lifecycle_env \<Rightarrow> context_entry \<Rightarrow> context_entry \<Rightarrow> context_error + bool" where
  "same_entry_bytes env a b =
     (case lx_entry_bytes env a of
        Inl e \<Rightarrow> Inl e
      | Inr x \<Rightarrow> (case lx_entry_bytes env b of Inl e \<Rightarrow> Inl e | Inr y \<Rightarrow> Inr (x = y)))"

definition restore_content :: "'h lifecycle_env \<Rightarrow> archive_manifest \<Rightarrow> ('h, unit) task" where
  "restore_content env m =
     unless_restored ck_content
       (run_then (run_try (on_world (read_live env (e_uri (am_entry m))))) (\<lambda>r.
        run_then (case r of
             Inr existing \<Rightarrow>
               (case same_entry_bytes env existing (am_entry m) of
                  Inl e \<Rightarrow> run_raise e
                | Inr same \<Rightarrow>
                    (if same then run_return ()
                     else run_raise (VersionConflict (''hot entry changed since cold snapshot: ''
                            @ u_canonical (e_uri (am_entry m))))))
           | Inl (NotFound _) \<Rightarrow>
               run_then (on_world (call env (po_write (lx_ports env) (am_entry m)))) (\<lambda>_. run_return ())
           | Inl e \<Rightarrow> run_raise e) (\<lambda>_.
        restore_checkpoint env (\<lambda>c. c\<lparr>ck_content := True\<rparr>))))"

definition restore_graph :: "'h lifecycle_env \<Rightarrow> archive_manifest \<Rightarrow> ('h, unit) task" where
  "restore_graph env m =
     unless_restored ck_graph
       (run_then (on_world (run_each (\<lambda>(from, to, kind). call env (po_add_edge (lx_ports env) from to kind))
                    (am_edges m))) (\<lambda>_.
        restore_checkpoint env (\<lambda>c. c\<lparr>ck_graph := True\<rparr>)))"

definition restore_vector :: "'h lifecycle_env \<Rightarrow> archive_manifest \<Rightarrow> ('h, unit) task" where
  "restore_vector env m =
     unless_restored ck_vector
       (run_then (case am_vector m of
             Some p \<Rightarrow> on_world (call env (po_upsert_point (lx_ports env) (lx_collection env) p))
           | None \<Rightarrow> run_return ()) (\<lambda>_.
        restore_checkpoint env (\<lambda>c. c\<lparr>ck_vector := True\<rparr>)))"

definition restore_task :: "'h lifecycle_env \<Rightarrow> archive_manifest \<Rightarrow> ('h, unit) task" where
  "restore_task env m =
     run_then (restore_blobs env m) (\<lambda>_.
     run_then (restore_content env m) (\<lambda>_.
     run_then (restore_graph env m) (\<lambda>_. restore_vector env m)))"

text \<open>The journal is read twice: for the state of the job, and for the job.\<close>

definition restore :: "'h lifecycle_env \<Rightarrow> string \<Rightarrow> ('h lworld, unit) run" where
  "restore env key =
     run_then (get_manifest env key) (\<lambda>m.
     run_then (journal_get env key) (\<lambda>seen.
       case seen of
         Some job \<Rightarrow>
           (if lj_state job \<noteq> LSucceeded
            then run_raise (VersionConflict (''cannot restore incomplete lifecycle job '' @ key))
            else
              run_then (journal_get env key) (\<lambda>again.
                case again of
                  None \<Rightarrow> run_raise (NotFound key)
                | Some job' \<Rightarrow> run_then (with_job (restore_task env m) job') (\<lambda>_. run_return ())))
       | None \<Rightarrow>
           run_then (journal_get env key) (\<lambda>again.
             case again of
               None \<Rightarrow> run_raise (NotFound key)
             | Some job' \<Rightarrow> run_then (with_job (restore_task env m) job') (\<lambda>_. run_return ()))))"

definition restore_metacog :: "'h lifecycle_env \<Rightarrow> context_uri \<Rightarrow> ('h lworld, unit) run" where
  "restore_metacog env uri =
     (if category uri \<noteq> Metacog then run_return () else restore env (job_key uri LColdStorage))"

section \<open>The ports of the tests\<close>

record memory_ports =
  mp_entries :: "(string, context_entry) hmap"
  mp_edges :: "edge list"
  mp_vectors :: "(string \<times> string, index_point) hmap"
  mp_blobs :: "(string, blob_ref \<times> string) hmap"
  mp_fail_vector_deletes :: nat

definition mem_scan ::
    "string \<Rightarrow> page_request \<Rightarrow> memory_ports \<Rightarrow> (context_error + context_entry page) \<times> memory_ports" where
  "mem_scan prefix page h =
     (Inr \<lparr>pg_items = take (effective_limit page) (sort_key (\<lambda>e. uri_key (e_uri e))
             (filter (\<lambda>e. starts_with (u_canonical (e_uri e)) prefix) (map snd (mp_entries h)))),
           pg_next_cursor = None\<rparr>, h)"

definition mem_write :: "context_entry \<Rightarrow> memory_ports \<Rightarrow> (context_error + mvcc_version) \<times> memory_ports" where
  "mem_write e h = (Inr (MvccVersion 1), h\<lparr>mp_entries := hput (u_canonical (e_uri e)) e (mp_entries h)\<rparr>)"

definition mem_delete :: "context_uri \<Rightarrow> memory_ports \<Rightarrow> (context_error + unit) \<times> memory_ports" where
  "mem_delete uri h = (Inr (), h\<lparr>mp_entries := hdel (u_canonical uri) (mp_entries h)\<rparr>)"

definition mem_add_edge ::
    "context_uri \<Rightarrow> context_uri \<Rightarrow> graph_relation \<Rightarrow> memory_ports \<Rightarrow> (context_error + unit) \<times> memory_ports" where
  "mem_add_edge from to kind h =
     (Inr (), if (from, to, kind) \<in> set (mp_edges h) then h
              else h\<lparr>mp_edges := mp_edges h @ [(from, to, kind)]\<rparr>)"

definition mem_remove_edge ::
    "context_uri \<Rightarrow> context_uri \<Rightarrow> memory_ports \<Rightarrow> (context_error + unit) \<times> memory_ports" where
  "mem_remove_edge from to h =
     (Inr (), h\<lparr>mp_edges := filter (\<lambda>(f, t, _). f \<noteq> from \<or> t \<noteq> to) (mp_edges h)\<rparr>)"

definition mem_edges_for :: "context_uri \<Rightarrow> memory_ports \<Rightarrow> (context_error + edge list) \<times> memory_ports" where
  "mem_edges_for uri h = (Inr (filter (\<lambda>(f, t, _). f = uri \<or> t = uri) (mp_edges h)), h)"

definition mem_upsert_point :: "string \<Rightarrow> index_point \<Rightarrow> memory_ports \<Rightarrow> (context_error + unit) \<times> memory_ports" where
  "mem_upsert_point c p h = (Inr (), h\<lparr>mp_vectors := hput (c, u_canonical (pt_uri p)) p (mp_vectors h)\<rparr>)"

definition mem_delete_point :: "string \<Rightarrow> context_uri \<Rightarrow> memory_ports \<Rightarrow> (context_error + unit) \<times> memory_ports" where
  "mem_delete_point c uri h =
     (if 0 < mp_fail_vector_deletes h
      then (Inl (Storage ''injected vector failure''), h\<lparr>mp_fail_vector_deletes := mp_fail_vector_deletes h - 1\<rparr>)
      else (Inr (), h\<lparr>mp_vectors := hdel (c, u_canonical uri) (mp_vectors h)\<rparr>))"

definition mem_get_point ::
    "string \<Rightarrow> context_uri \<Rightarrow> memory_ports \<Rightarrow> (context_error + index_point option) \<times> memory_ports" where
  "mem_get_point c uri h = (Inr (hget (mp_vectors h) (c, u_canonical uri)), h)"

text \<open>\<open>hash\<close> is the text of the blake3 hash.\<close>

definition mem_put_blob ::
    "(string \<Rightarrow> string) \<Rightarrow> string \<Rightarrow> string \<Rightarrow> memory_ports \<Rightarrow> (context_error + blob_ref) \<times> memory_ports" where
  "mem_put_blob hash bytes mime h =
     (let b = \<lparr>br_hash = ContentHash (hash bytes), br_size = length bytes, br_mime_type = mime\<rparr>
      in (Inr b, h\<lparr>mp_blobs := hput (hash bytes) (b, bytes) (mp_blobs h)\<rparr>))"

definition mem_get_blob :: "blob_ref \<Rightarrow> memory_ports \<Rightarrow> (context_error + string) \<times> memory_ports" where
  "mem_get_blob b h =
     (case hget (mp_blobs h) (show_hash (br_hash b)) of
        Some (_, bytes) \<Rightarrow> (Inr bytes, h)
      | None \<Rightarrow> (Inl (NotFound (show_hash (br_hash b))), h))"

definition mem_delete_blob :: "blob_ref \<Rightarrow> memory_ports \<Rightarrow> (context_error + unit) \<times> memory_ports" where
  "mem_delete_blob b h = (Inr (), h\<lparr>mp_blobs := hdel (show_hash (br_hash b)) (mp_blobs h)\<rparr>)"

definition memory_port_calls :: "(string \<Rightarrow> string) \<Rightarrow> memory_ports ports" where
  "memory_port_calls hash =
     \<lparr>po_scan = mem_scan, po_write = mem_write, po_delete = mem_delete, po_edges_for = mem_edges_for,
      po_add_edge = mem_add_edge, po_remove_edge = mem_remove_edge, po_get_point = mem_get_point,
      po_upsert_point = mem_upsert_point, po_delete_point = mem_delete_point, po_get_blob = mem_get_blob,
      po_put_blob = mem_put_blob hash, po_delete_blob = mem_delete_blob\<rparr>"

end
