(* ===== verification/Lifecycle_Rules.thy ===== *)
theory Lifecycle_Rules
  imports Lifecycle_Jobs
begin

text \<open>
  Rules for runs of the lifecycle executor, which may fail or stop anywhere, and the interface by which an
  invariant of the stores and of the jobs is carried over all histories of submissions, passes and
  restores (locale \<open>job_system\<close>).
\<close>

section \<open>Rules for runs\<close>

abbreviation always :: "'s \<Rightarrow> bool" where
  "always \<equiv> \<lambda>_. True"

text \<open>\<open>I\<close> holds after a run however it ends, \<open>Q\<close> when it returns.\<close>

definition keeps ::
    "('s \<Rightarrow> bool) \<Rightarrow> ('s \<Rightarrow> bool) \<Rightarrow> ('s, 'a) run \<Rightarrow> ('a \<Rightarrow> 's \<Rightarrow> bool) \<Rightarrow> bool" where
  "keeps I P m Q \<longleftrightarrow> (\<forall>s r s'. I s \<longrightarrow> P s \<longrightarrow> m s = (r, s') \<longrightarrow> I s' \<and> (\<forall>x. r = Returns x \<longrightarrow> Q x s'))"

lemma keepsI:
  "(\<And>s r s'. I s \<Longrightarrow> P s \<Longrightarrow> m s = (r, s') \<Longrightarrow> I s' \<and> (\<forall>x. r = Returns x \<longrightarrow> Q x s')) \<Longrightarrow> keeps I P m Q"
  by (simp add: keeps_def)

lemma keeps_elim:
  "keeps I P m Q \<Longrightarrow> I s \<Longrightarrow> P s \<Longrightarrow> m s = (r, s') \<Longrightarrow> I s' \<and> (\<forall>x. r = Returns x \<longrightarrow> Q x s')"
  by (simp add: keeps_def)

lemma keeps_return: "(\<And>s. I s \<Longrightarrow> P s \<Longrightarrow> Q x s) \<Longrightarrow> keeps I P (run_return x) Q"
  by (simp add: keeps_def run_return_def)

lemma keeps_raise: "keeps I P (run_raise e) Q"
  by (simp add: keeps_def run_raise_def)

lemma keeps_then:
  assumes "keeps I P m R" "\<And>x. keeps I (R x) (f x) Q"
  shows "keeps I P (run_then m f) Q"
proof (rule keepsI)
  fix s r s' assume pre: "I s" "P s" and run: "run_then m f s = (r, s')"
  obtain r1 s1 where m: "m s = (r1, s1)" by force
  note first = keeps_elim [OF assms(1) pre m]
  show "I s' \<and> (\<forall>x. r = Returns x \<longrightarrow> Q x s')"
  proof (cases r1)
    case (Returns x)
    with run m have "f x s1 = (r, s')" by (simp add: run_then_def)
    with Returns first keeps_elim [OF assms(2) [of x]] show ?thesis by blast
  qed (use run m first in \<open>auto simp: run_then_def\<close>)
qed

lemma keeps_try:
  assumes "keeps I P m Q"
  shows "keeps I P (run_try m) (\<lambda>r s. \<forall>x. r = Inr x \<longrightarrow> Q x s)"
proof (rule keepsI)
  fix s r s' assume pre: "I s" "P s" and run: "run_try m s = (r, s')"
  obtain r1 s1 where m: "m s = (r1, s1)" by force
  from keeps_elim [OF assms pre m] run m show "I s' \<and> (\<forall>x. r = Returns x \<longrightarrow> (\<forall>y. x = Inr y \<longrightarrow> Q y s'))"
    by (cases r1) (auto simp: run_try_def)
qed

lemma keeps_weaken:
  "keeps I P m R \<Longrightarrow> (\<And>s. I s \<Longrightarrow> P' s \<Longrightarrow> P s) \<Longrightarrow> (\<And>x s. I s \<Longrightarrow> R x s \<Longrightarrow> Q x s) \<Longrightarrow> keeps I P' m Q"
  by (simp add: keeps_def)

lemma keeps_given: "(C \<Longrightarrow> keeps I always m Q) \<Longrightarrow> keeps I (\<lambda>_. C) m Q"
  by (simp add: keeps_def)

lemma keeps_option:
  "keeps I always m Q \<Longrightarrow> (\<And>x. keeps I (P x) (f x) Q) \<Longrightarrow>
   keeps I (\<lambda>s. \<forall>x. r = Some x \<longrightarrow> P x s) (case r of None \<Rightarrow> m | Some x \<Rightarrow> f x) Q"
  by (cases r) simp_all

lemma keeps_each:
  "(\<And>x. keeps I P (f x) (\<lambda>_. P)) \<Longrightarrow> keeps I P (run_each f xs) (\<lambda>_. P)"
  by (induction xs) (auto intro!: keeps_return keeps_then)

lemmas keeps_chain = keeps_then [where R = "\<lambda>_. P" for P]

section \<open>Histories\<close>

datatype lifecycle_call =
    SubmitJob uuid context_uri lifecycle_action
  | RouteEntry uuid context_entry
  | RunPending uuid
  | RestoreKey string
  | RestoreMetacog context_uri

fun lifecycle_step :: "'h lifecycle_env \<Rightarrow> lifecycle_call \<Rightarrow> 'h lworld \<Rightarrow> 'h lworld" where
  "lifecycle_step env (SubmitJob fresh uri action) w = snd (submit env fresh uri action w)"
| "lifecycle_step env (RouteEntry fresh e) w = snd (route_metacog env fresh e w)"
| "lifecycle_step env (RunPending owner) w = snd (run_pending env owner w)"
| "lifecycle_step env (RestoreKey key) w = snd (restore env key w)"
| "lifecycle_step env (RestoreMetacog uri) w = snd (restore_metacog env uri w)"

lemmas always_then = keeps_then [where P = always and R = "\<lambda>_. always"]

text \<open>Equal bytes come from equal manifests: serde writes every field of a manifest.\<close>

definition bytes_tell :: "'h lifecycle_env \<Rightarrow> bool" where
  "bytes_tell env \<longleftrightarrow>
     (\<forall>m m' b. lx_manifest_bytes env m = Inr b \<longrightarrow> lx_manifest_bytes env m' = Inr b \<longrightarrow> m = m')"

section \<open>Invariants\<close>

text \<open>\<open>W\<close> speaks of the stores, \<open>J\<close> of each job of the journal, which lies under its own key, and \<open>M\<close>
  of each manifest of the cold store.\<close>

definition sys_inv ::
    "('h lworld \<Rightarrow> bool) \<Rightarrow> (lifecycle_job \<Rightarrow> 'h lworld \<Rightarrow> bool) \<Rightarrow> 'h lworld \<Rightarrow> bool" where
  "sys_inv W J w \<longleftrightarrow> W w \<and> (\<forall>k j. hget (lw_journal w) k = Some j \<longrightarrow> lj_key j = k \<and> J j w)"

definition sys_task ::
    "('h lworld \<Rightarrow> bool) \<Rightarrow> (lifecycle_job \<Rightarrow> 'h lworld \<Rightarrow> bool) \<Rightarrow> lifecycle_job \<times> 'h lworld \<Rightarrow> bool" where
  "sys_task W J s \<longleftrightarrow> sys_inv W J (snd s) \<and> J (fst s) (snd s)"

text \<open>Bookkeeping keeps what identifies a job and its checkpoints, and does not declare it done.\<close>

definition bookkeeping :: "(lifecycle_job \<Rightarrow> lifecycle_job) \<Rightarrow> bool" where
  "bookkeeping g \<longleftrightarrow> (\<forall>j. lj_key (g j) = lj_key j \<and> lj_uri (g j) = lj_uri j \<and> lj_checkpoint (g j) = lj_checkpoint j
     \<and> (lj_state (g j) = lj_state j \<or> lj_state (g j) \<noteq> LSucceeded))"

lemma bookkeepingI [intro]:
  "(\<And>j. lj_key (g j) = lj_key j) \<Longrightarrow> (\<And>j. lj_uri (g j) = lj_uri j) \<Longrightarrow> (\<And>j. lj_checkpoint (g j) = lj_checkpoint j) \<Longrightarrow>
   (\<And>j. lj_state (g j) = lj_state j \<or> lj_state (g j) \<noteq> LSucceeded) \<Longrightarrow> bookkeeping g"
  by (simp add: bookkeeping_def)

lemma clock_any: "(\<And>w. I w \<Longrightarrow> I (w\<lparr>lw_reads := Suc (lw_reads w)\<rparr>)) \<Longrightarrow> keeps I P (clock env) (\<lambda>_. always)"
  by (simp add: keeps_def clock_def)

locale job_system =
  fixes env :: "'h lifecycle_env"
    and W :: "'h lworld \<Rightarrow> bool"
    and J :: "lifecycle_job \<Rightarrow> 'h lworld \<Rightarrow> bool"
    and M :: "archive_manifest \<Rightarrow> bool"
  assumes journal_free: "W (w\<lparr>lw_journal := jobs\<rparr>) = W w" "J j (w\<lparr>lw_journal := jobs\<rparr>) = J j w"
    and tick_free: "W (w\<lparr>lw_tick := n\<rparr>) = W w" "J j (w\<lparr>lw_tick := n\<rparr>) = J j w"
    and time_passes: "W w \<Longrightarrow> W (w\<lparr>lw_reads := Suc (lw_reads w)\<rparr>)" "J j (w\<lparr>lw_reads := n\<rparr>) = J j w"
    and new_job: "J (new_lifecycle_job fresh now uri operation) w"
    and booked: "bookkeeping g \<Longrightarrow> J j w \<Longrightarrow> J (g j) w"
    and phases: "keeps (sys_task W J) always (execute_phases env)
      (\<lambda>_ s. \<forall>e. J ((fst s)\<lparr>lj_state := LSucceeded, lj_last_error := e\<rparr>) (snd s))"
    and cold: "W w \<Longrightarrow> hget (lw_cold w) f = Some m \<Longrightarrow> M m"
    and restoring: "M m \<Longrightarrow> keeps (sys_task W J) always (restore_task env m) (\<lambda>_. always)"
begin

abbreviation inv :: "'h lworld \<Rightarrow> bool" where
  "inv \<equiv> sys_inv W J"

abbreviation task :: "lifecycle_job \<times> 'h lworld \<Rightarrow> bool" where
  "task \<equiv> sys_task W J"

lemmas free = journal_free tick_free time_passes

lemma inv_free:
  "inv w \<Longrightarrow> inv (w\<lparr>lw_tick := n\<rparr>)" "inv w \<Longrightarrow> inv (w\<lparr>lw_reads := Suc (lw_reads w)\<rparr>)"
  by (simp_all add: sys_inv_def free)

lemma inv_row:
  assumes "inv w" "lj_key j = k" "J j w"
  shows "inv (w\<lparr>lw_tick := n, lw_journal := hput k j (lw_journal w)\<rparr>)"
proof -
  have "w\<lparr>lw_tick := n, lw_journal := jobs\<rparr> = w\<lparr>lw_tick := n\<rparr>\<lparr>lw_journal := jobs\<rparr>" for jobs by simp
  with assms show ?thesis by (auto simp: sys_inv_def free hm_simps)
qed

text \<open>Steps of a task.\<close>

lemma set_booked: "bookkeeping g \<Longrightarrow> keeps task always (set_job g) (\<lambda>_. always)"
  by (auto simp: keeps_def set_job_def sys_task_def booked)

lemma clock_inv: "keeps inv P (clock env) (\<lambda>_. always)"
  by (rule clock_any) (rule inv_free)

lemma clock_task: "keeps task always (on_world (clock env)) (\<lambda>_. always)"
  by (auto simp: keeps_def on_world_def clock_def sys_task_def inv_free free)

lemma update_task: "keeps task always (journal_update env) (\<lambda>_. always)"
proof (rule keepsI)
  fix s r s' assume pre: "task s" and run: "journal_update env s = (r, s')"
  obtain j w where s: "s = (j, w)" by force
  let ?j = "j\<lparr>lj_revision := lj_revision j + 1\<rparr>"
  have "bookkeeping (\<lambda>j. j\<lparr>lj_revision := lj_revision j + 1\<rparr>)" by auto
  then have j: "J ?j w" using booked [of _ j w] pre s by (simp add: sys_task_def)
  have inv: "inv w" "J j w" using pre s by (simp_all add: sys_task_def)
  from inv_row [OF inv(1) _ j] j inv run show "task s' \<and> (\<forall>x. r = Returns x \<longrightarrow> True)"
    by (auto simp: journal_update_def transact_def Let_def update_tx_def s sys_task_def free inv_free
        split: fault.splits option.splits if_splits)
qed

lemma audit_task: "keeps task always (audit_job env msg) (\<lambda>_. always)"
  unfolding audit_job_def by (intro always_then clock_task set_booked) auto

lemma result_task:
  "keeps task (\<lambda>s. \<forall>x. r = Inr x \<longrightarrow> (\<forall>e. J ((fst s)\<lparr>lj_state := LSucceeded, lj_last_error := e\<rparr>) (snd s)))
     (record_result env r) (\<lambda>_. always)"
proof (cases r)
  case (Inl e)
  have "keeps task always (record_result env r) (\<lambda>_. always)"
    unfolding record_result_def Inl sum.case
    by (intro always_then set_booked clock_task audit_task) (auto simp: bookkeeping_def)
  then show ?thesis by (rule keeps_weaken) simp_all
next
  case (Inr x)
  have "keeps task (\<lambda>s. \<forall>e. J ((fst s)\<lparr>lj_state := LSucceeded, lj_last_error := e\<rparr>) (snd s))
      (set_job (\<lambda>j. j\<lparr>lj_state := LSucceeded, lj_last_error := None\<rparr>)) (\<lambda>_. always)"
    by (simp add: keeps_def set_job_def sys_task_def)
  from keeps_then [OF this audit_task] show ?thesis
    unfolding record_result_def Inr sum.case by (rule keeps_weaken) simp_all
qed

lemma execute_task: "keeps task always (execute_task env) (\<lambda>_. always)"
  unfolding execute_task_def
  by (intro always_then set_booked audit_task update_task keeps_then [OF keeps_try [OF phases]]
      keeps_then [OF result_task]) auto

text \<open>Steps of the world.\<close>

lemma with_job_inv:
  assumes "keeps task P m (\<lambda>_. always)"
  shows "keeps inv (\<lambda>w. J job w \<and> P (job, w)) (with_job m job) (\<lambda>_. always)"
proof (rule keepsI)
  fix w r w' assume pre: "inv w" "J job w \<and> P (job, w)" and run: "with_job m job w = (r, w')"
  then obtain s' where s': "run_then m (\<lambda>_. the_job) (job, w) = (r, s')" "w' = snd s'"
    by (auto simp: with_job_def split: prod.splits)
  have "keeps task always the_job (\<lambda>_. always)" by (simp add: keeps_def the_job_def)
  from keeps_elim [OF keeps_then [OF assms this] _ _ s'(1)] pre s'(2)
  show "inv w' \<and> (\<forall>x. r = Returns x \<longrightarrow> True)" by (auto simp: sys_task_def)
qed

lemma load_inv: "keeps inv P (load_jobs env) (\<lambda>jobs w. \<forall>k j. hget jobs k = Some j \<longrightarrow> J j w)"
  by (auto simp: keeps_def load_jobs_def access_def Let_def sys_inv_def free split: fault.splits)

lemma get_inv: "keeps inv P (journal_get env key) (\<lambda>r w. \<forall>j. r = Some j \<longrightarrow> J j w)"
  unfolding journal_get_def
  by (rule keeps_then [OF keeps_try [OF load_inv]]) (auto intro!: keeps_return split: sum.split)

lemma claim_inv: "keeps inv P (journal_claim env key owner now) (\<lambda>r w. \<forall>j. r = Some j \<longrightarrow> J j w)"
proof (rule keepsI)
  fix w r w' assume inv: "inv w" and run: "journal_claim env key owner now w = (r, w')"
  show "inv w' \<and> (\<forall>x. r = Returns x \<longrightarrow> (\<forall>j. x = Some j \<longrightarrow> J j w'))"
  proof (cases "hget (lw_journal w) key")
    case None
    with run inv show ?thesis
      by (auto simp: journal_claim_def without_job_def transact_def claim_tx_def Let_def inv_free split: fault.splits)
  next
    case (Some job)
    let ?g = "\<lambda>job. job\<lparr>lj_lease_owner := Some owner, lj_lease_until := Some (now + lease_ns),
        lj_revision := lj_revision job + 1\<rparr>"
    have "lj_key job = key" "J job w" using inv Some by (auto simp: sys_inv_def)
    moreover have "bookkeeping ?g" by auto
    ultimately have job: "lj_key (?g job) = key" "J (?g job) w" by (auto intro: booked)
    from inv_row [OF inv job] job(2) run inv Some show ?thesis
      by (auto simp: journal_claim_def without_job_def transact_def claim_tx_def Let_def free inv_free
          split: fault.splits if_splits)
  qed
qed

lemma submit_inv: "keeps inv always (submit env fresh uri action) (\<lambda>_. always)"
proof -
  have upsert: "keeps inv always (journal_upsert env job) (\<lambda>_. always)" if "\<And>w. J job w" for job
    unfolding journal_upsert_def
  proof (rule always_then)
    show "keeps inv always (without_job (transact env (upsert_tx job))) (\<lambda>_. always)"
    proof (rule keepsI)
      fix w r w' assume inv: "inv w" and run: "without_job (transact env (upsert_tx job)) w = (r, w')"
      from inv_row [OF inv refl that] run inv show "inv w' \<and> (\<forall>x. r = Returns x \<longrightarrow> True)"
        by (auto simp: without_job_def transact_def upsert_tx_def Let_def inv_free split: fault.splits option.splits)
    qed
  qed (auto intro!: keeps_return always_then keeps_weaken [OF load_inv])
  show ?thesis
    unfolding submit_def
    by (auto split: option.split intro!: keeps_raise always_then clock_inv upsert new_job)
qed

lemma run_jobs_inv: "keeps inv always (run_jobs env owner js) (\<lambda>_. always)"
proof (induction js)
  case (Cons j js)
  have execute: "keeps inv (\<lambda>w. \<forall>j. c = Some j \<longrightarrow> J j w) (case c of
      None \<Rightarrow> run_jobs env owner js
    | Some current \<Rightarrow> run_then (execute_job env current) (\<lambda>out.
        run_then (run_jobs env owner js) (\<lambda>outs. run_return (out # outs)))) (\<lambda>_. always)" for c
  proof (cases c)
    case None
    with Cons show ?thesis by simp
  next
    case (Some job)
    have "keeps inv (J job) (execute_job env job) (\<lambda>_. always)"
      unfolding execute_job_def using with_job_inv [OF execute_task] by simp
    then have "keeps inv (J job) (run_then (execute_job env job) (\<lambda>out.
        run_then (run_jobs env owner js) (\<lambda>outs. run_return (out # outs)))) (\<lambda>_. always)"
      by (rule keeps_then) (rule always_then [OF Cons], rule keeps_return, simp)
    with Some show ?thesis by simp
  qed
  show ?case
    by (simp only: run_jobs.simps) (intro always_then clock_inv keeps_then [OF claim_inv] execute)
qed (simp add: keeps_return)

lemma pending_inv: "keeps inv always (run_pending env owner) (\<lambda>_. always)"
  unfolding run_pending_def recoverable_def
  by (intro always_then clock_inv run_jobs_inv keeps_return keeps_weaken [OF keeps_try [OF load_inv]]) simp_all

lemma manifest_inv: "keeps inv always (get_manifest env key) (\<lambda>m _. M m)"
  by (auto simp: keeps_def get_manifest_def access_def Let_def inv_free sys_inv_def free
      split: fault.splits option.splits dest: cold)

lemma restore_inv: "keeps inv always (restore env key) (\<lambda>_. always)"
proof -
  have job: "keeps inv (J job) (run_then (with_job (restore_task env m) job) (\<lambda>_. run_return ())) (\<lambda>_. always)"
    if "M m" for m job
  proof -
    have "keeps inv (J job) (with_job (restore_task env m) job) (\<lambda>_. always)"
      using with_job_inv [OF restoring [OF that]] by simp
    then show ?thesis by (rule keeps_then) (simp add: keeps_return)
  qed
  have again: "keeps inv always (run_then (journal_get env key) (\<lambda>again.
      case again of None \<Rightarrow> run_raise (NotFound key)
      | Some job' \<Rightarrow> run_then (with_job (restore_task env m) job') (\<lambda>_. run_return ()))) (\<lambda>_. always)"
    if "M m" for m
    by (rule keeps_then [OF get_inv], rule keeps_option) (simp_all add: keeps_raise job that)
  have seen: "keeps inv always (journal_get env key) (\<lambda>_. always)"
    by (rule keeps_weaken [OF get_inv]) simp_all
  show ?thesis
    unfolding restore_def
    by (rule keeps_then [OF manifest_inv], rule keeps_given, rule always_then [OF seen])
      (auto split: option.split intro: keeps_raise again)
qed

lemma step_inv:
  assumes "inv w"
  shows "inv (lifecycle_step env x w)"
proof -
  have run: "inv (snd (m w))" if "keeps inv always m (\<lambda>_. always)" for m :: "('h lworld, 'z) run"
    using keeps_elim [OF that assms TrueI] by (cases "m w") auto
  have route: "keeps inv always (route_metacog env fresh e) (\<lambda>_. always)" for fresh e
    unfolding route_metacog_def
    by (auto split: sum.split metacog_tier.split intro!: keeps_raise keeps_return always_then submit_inv)
  have metacog: "keeps inv always (restore_metacog env u) (\<lambda>_. always)" for u
    by (auto simp: restore_metacog_def intro: keeps_return restore_inv)
  show ?thesis
    by (cases x) (simp_all add: run submit_inv route pending_inv restore_inv metacog)
qed

text \<open>So the invariant holds over all histories.\<close>

sublocale jobs: op_system "lifecycle_step env" "inv" "\<lambda>_ _. True"
  by unfold_locales (simp add: step_inv)

lemma run_fold: "jobs.run calls w = fold (lifecycle_step env) calls w"
  by (induction calls arbitrary: w) simp_all

lemma histories:
  assumes "inv w"
  shows "inv (fold (lifecycle_step env) calls w)"
proof -
  have "jobs.ok_run calls w" by (induction calls arbitrary: w) simp_all
  with assms have "inv (jobs.run calls w)" by (rule jobs.run_inv)
  then show ?thesis by (simp add: run_fold)
qed

end

section \<open>A small world\<close>

text \<open>One entry, the ports of the tests and a schedule of faults, on which the hypotheses of the theorems hold.\<close>

definition lifecycle_uri :: context_uri where
  "lifecycle_uri = \<lparr>u_tenant = ''t'', u_path = [''a''], u_query = None, u_canonical = ''uwu://t/a''\<rparr>"

definition lifecycle_entry :: context_entry where
  "lifecycle_entry = new_text 0 lifecycle_uri (TenantId 7) ''note''"

definition lifecycle_manifest :: "datetime \<Rightarrow> archive_manifest" where
  "lifecycle_manifest now = \<lparr>am_job_id = 1, am_entry = lifecycle_entry, am_blobs = [], am_edges = [],
     am_vector = None, am_created_at = now\<rparr>"

text \<open>serde is given on the manifests that the run writes.\<close>

definition lifecycle_sample :: "(nat \<Rightarrow> fault) \<Rightarrow> memory_ports lifecycle_env" where
  "lifecycle_sample faults =
     \<lparr>lx_ports = memory_port_calls (\<lambda>bytes. bytes), lx_collection = ''c'', lx_fault = faults,
      lx_now = (\<lambda>n. 20000000000 * int n), lx_file_name = (\<lambda>key. key @ ''.json''),
      lx_manifest_bytes = (\<lambda>m. if m = lifecycle_manifest 80000000000 then Inr ''1''
        else if m = lifecycle_manifest 160000000000 then Inr ''2'' else Inl (Io ''bytes'')),
      lx_entry_bytes = (\<lambda>e. Inr (l0_text e))\<rparr>"

definition lifecycle_world :: "memory_ports lworld" where
  "lifecycle_world = \<lparr>lw_hot = \<lparr>mp_entries = [(''uwu://t/a'', lifecycle_entry)], mp_edges = [], mp_vectors = [],
      mp_blobs = [], mp_fail_vector_deletes = 0\<rparr>, lw_journal = [], lw_cold = [], lw_tick = 0, lw_reads = 0\<rparr>"

lemma sample_bytes_tell: "bytes_tell (lifecycle_sample faults)"
  by (auto simp: bytes_tell_def lifecycle_sample_def split: if_splits)

end
