(* ===== verification/Lifecycle_Recovery.thy ===== *)
theory Lifecycle_Recovery
  imports Lifecycle_Rules
begin

text \<open>
  The journal of lifecycle jobs under concurrent workers, and what an execution records.
\<close>

section \<open>Concurrent workers\<close>

text \<open>The transactions of any workers on one journal; each holds the lock of the file.\<close>

datatype journal_op =
    UpsertJob lifecycle_job
  | ClaimJob string uuid datetime
  | UpdateJob lifecycle_job

definition committed :: "(context_error + 'a \<times> journal) \<times> 'x \<Rightarrow> journal \<Rightarrow> journal" where
  "committed r jobs = (case fst r of Inl _ \<Rightarrow> jobs | Inr (_, jobs') \<Rightarrow> jobs')"

fun journal_step :: "journal_op \<Rightarrow> journal \<Rightarrow> journal" where
  "journal_step (UpsertJob job) jobs = committed (upsert_tx job jobs ()) jobs"
| "journal_step (ClaimJob key owner now) jobs = committed (claim_tx key owner now jobs ()) jobs"
| "journal_step (UpdateJob job) jobs = committed (update_tx jobs job) jobs"

lemma journal_step_row:
  "hget jobs k = Some j \<Longrightarrow>
   \<exists>j'. hget (journal_step x jobs) k = Some j' \<and> (j' = j \<or> lj_revision j < lj_revision j')"
  by (cases x) (auto simp: committed_def upsert_tx_def claim_tx_def update_tx_def Let_def hm_simps
      split: option.splits)

lemma journal_row:
  "hget jobs k = Some j \<Longrightarrow>
   \<exists>j'. hget (fold journal_step ops jobs) k = Some j' \<and> (j' = j \<or> lj_revision j < lj_revision j')"
proof (induction ops arbitrary: jobs j)
  case (Cons x ops)
  obtain j1 where one: "hget (journal_step x jobs) k = Some j1" "j1 = j \<or> lj_revision j < lj_revision j1"
    using journal_step_row [OF Cons.prems, of x] by blast
  from Cons.IH [OF one(1)] one(2) show ?case by fastforce
qed simp

text \<open>C14: a worker that read a job can write it back exactly when no transaction of any worker has touched
  the job since, and then what it wrote is what the journal holds; and as long as nobody has touched it
  and its lease lasts, nobody can claim it.\<close>

theorem holder_fenced:
  fixes ops :: "journal_op list"
  assumes "hget jobs k = Some j" "lj_key held = k" "lj_revision held = lj_revision j"
  defines "jobs' \<equiv> fold journal_step ops jobs"
  shows "(case update_tx jobs' held of
        (Inr (_, jobs''), held') \<Rightarrow> hget jobs' k = Some j \<and> hget jobs'' k = Some held'
      | (Inl _, _) \<Rightarrow> hget jobs' k \<noteq> Some j)
    \<and> (\<forall>owner now t. hget jobs' k = Some j \<and> lj_lease_until j = Some t \<and> now < t \<longrightarrow>
         claim_tx k owner now jobs' () = (Inr (None, jobs'), ()))"
proof -
  obtain j' where j': "hget jobs' k = Some j'" "j' = j \<or> lj_revision j < lj_revision j'"
    using journal_row [OF assms(1)] by (auto simp: jobs'_def)
  with assms(2,3) show ?thesis by (auto simp: update_tx_def claim_tx_def Let_def hm_simps)
qed

text \<open>Another worker claims the job first; the one that read it before cannot write it back.\<close>

lemma holder_fenced_witness:
  "(let job = new_lifecycle_job 1 0 lifecycle_uri LArchive; k = lj_key job;
        jobs' = fold journal_step [ClaimJob k 5 100] [(k, job)]
    in (case update_tx jobs' job of (Inr _, _) \<Rightarrow> False | (Inl _, _) \<Rightarrow> hget jobs' k \<noteq> Some job))"
proof -
  let ?job = "new_lifecycle_job 1 0 lifecycle_uri LArchive"
  have "case update_tx (fold journal_step [ClaimJob (lj_key ?job) 5 100] [(lj_key ?job, ?job)]) ?job of
      (Inr _, _) \<Rightarrow> False | (Inl _, _) \<Rightarrow> True"
    by code_simp
  moreover have "hget [(lj_key ?job, ?job)] (lj_key ?job) = Some ?job" by (simp add: hget_def)
  ultimately show ?thesis
    using holder_fenced [of "[(lj_key ?job, ?job)]" "lj_key ?job" ?job ?job "[ClaimJob (lj_key ?job) 5 100]"]
    by (auto simp: Let_def split: prod.splits sum.splits)
qed

section \<open>What an execution records\<close>

text \<open>A fact \<open>F\<close> about the job that checkpoints and revisions do not affect.\<close>

definition steady :: "(lifecycle_job \<Rightarrow> bool) \<Rightarrow> bool" where
  "steady F \<longleftrightarrow> (\<forall>j c n. F j \<longrightarrow> F (j\<lparr>lj_checkpoint := c\<rparr>) \<and> F (j\<lparr>lj_revision := n\<rparr>))"

abbreviation of_job :: "(lifecycle_job \<Rightarrow> bool) \<Rightarrow> lifecycle_job \<times> 'h lworld \<Rightarrow> bool" where
  "of_job F \<equiv> \<lambda>s. F (fst s)"

lemma world_step:
  "(\<And>x. keeps (of_job F) (of_job P) (f x) Q) \<Longrightarrow> keeps (of_job F) (of_job P) (run_then (on_world m) f) Q"
  by (rule keeps_then [where R = "\<lambda>_. of_job P"]) (auto simp: keeps_def on_world_def split: prod.splits)

lemma update_step:
  assumes "\<And>j n. F j \<Longrightarrow> P j \<Longrightarrow> F (j\<lparr>lj_revision := n\<rparr>) \<and> P (j\<lparr>lj_revision := n\<rparr>)"
  shows "keeps (of_job F) (of_job P) (journal_update env) (\<lambda>_. of_job P)"
  using assms by (auto simp: keeps_def journal_update_def transact_def Let_def update_tx_def
      split: fault.splits option.splits if_splits)

lemma set_step:
  "(\<And>j. F j \<Longrightarrow> P j \<Longrightarrow> F (g j) \<and> Q (g j)) \<Longrightarrow> keeps (of_job F) (of_job P) (set_job g) (\<lambda>_. of_job Q)"
  by (auto simp: keeps_def set_job_def)

abbreviation at :: "(lifecycle_checkpoint \<Rightarrow> bool) \<Rightarrow> lifecycle_job \<times> 'h lworld \<Rightarrow> bool" where
  "at C \<equiv> of_job (\<lambda>j. C (lj_checkpoint j))"

lemma checkpoint_step:
  assumes "steady F" "\<And>c. C c \<Longrightarrow> D (f c)"
  shows "keeps (of_job F) (at C) (checkpoint env f) (\<lambda>_. at D)"
  unfolding checkpoint_def
  by (rule keeps_then, rule set_step [where Q = "\<lambda>j. D (lj_checkpoint j)"], use assms in \<open>simp add: steady_def\<close>,
      rule update_step) (use assms in \<open>simp add: steady_def\<close>)

lemma phase_step:
  assumes "\<And>job. keeps (of_job F) (at C) (m job) (\<lambda>_. at (\<lambda>c. C c \<and> d c))"
  shows "keeps (of_job F) (at C) (run_then the_job (\<lambda>job. if d (lj_checkpoint job) then run_return () else m job))
    (\<lambda>_. at (\<lambda>c. C c \<and> d c))"
proof (rule keepsI)
  fix s r s' assume pre: "F (fst s)" "C (lj_checkpoint (fst s))"
    and run: "run_then the_job (\<lambda>job. if d (lj_checkpoint job) then run_return () else m job) s = (r, s')"
  from keeps_elim [OF assms pre] run pre
  show "F (fst s') \<and> (\<forall>x. r = Returns x \<longrightarrow> C (lj_checkpoint (fst s')) \<and> d (lj_checkpoint (fst s')))"
    by (auto simp: run_then_def the_job_def run_return_def split: if_splits)
qed

definition all_done :: "lifecycle_checkpoint \<Rightarrow> bool" where
  "all_done c \<longleftrightarrow> (((ck_manifest c \<and> ck_vector c) \<and> ck_graph c) \<and> ck_content c) \<and> ck_blobs c"

lemma phases_step:
  assumes F: "steady F"
  shows "keeps (of_job F) (at always) (execute_phases env) (\<lambda>_. at all_done)"
proof -
  have manifest: "keeps (of_job F) (at always) (phase_manifest env) (\<lambda>_. at (\<lambda>c. True \<and> ck_manifest c))"
    unfolding phase_manifest_def by (intro phase_step world_step checkpoint_step F) simp
  have vector: "keeps (of_job F) (at C) (phase_vector env) (\<lambda>_. at (\<lambda>c. C c \<and> ck_vector c))"
    if "\<And>c b. C c \<Longrightarrow> C (c\<lparr>ck_vector := b\<rparr>)" for C
    unfolding phase_vector_def by (intro phase_step world_step checkpoint_step F) (simp add: that)
  have graph: "keeps (of_job F) (at C) (phase_graph env) (\<lambda>_. at (\<lambda>c. C c \<and> ck_graph c))"
    if "\<And>c b. C c \<Longrightarrow> C (c\<lparr>ck_graph := b\<rparr>)" for C
    unfolding phase_graph_def by (intro phase_step world_step checkpoint_step F) (simp add: that)
  have content: "keeps (of_job F) (at C) (phase_content env) (\<lambda>_. at (\<lambda>c. C c \<and> ck_content c))"
    if "\<And>c b. C c \<Longrightarrow> C (c\<lparr>ck_content := b\<rparr>)" for C
    unfolding phase_content_def by (intro phase_step world_step checkpoint_step F) (simp add: that)
  have blobs: "keeps (of_job F) (at C) (phase_blobs env) (\<lambda>_. at (\<lambda>c. C c \<and> ck_blobs c))"
    if "\<And>c b. C c \<Longrightarrow> C (c\<lparr>ck_blobs := b\<rparr>)" for C
    unfolding phase_blobs_def by (intro phase_step world_step checkpoint_step F) (simp add: that)
  have "keeps (of_job F) (at always) (execute_phases env)
      (\<lambda>_. at (\<lambda>c. ((((True \<and> ck_manifest c) \<and> ck_vector c) \<and> ck_graph c) \<and> ck_content c) \<and> ck_blobs c))"
    unfolding execute_phases_def
    by (rule keeps_then [OF manifest], rule keeps_then, rule vector, simp, rule keeps_then, rule graph, simp,
        rule keeps_then, rule content, simp, rule blobs, simp)
  then show ?thesis by (simp add: all_done_def)
qed

definition outcome_recorded :: "lifecycle_job \<Rightarrow> bool" where
  "outcome_recorded j \<longleftrightarrow> lj_state j = LSucceeded \<and> all_done (lj_checkpoint j)
     \<or> lj_state j = LRetryable \<and> lj_attempts j < lj_max_attempts j
     \<or> lj_state j = LPermanentlyFailed \<and> lj_max_attempts j \<le> lj_attempts j"

text \<open>The last update, when it returns, leaves in the journal the job that the caller gets.\<close>

lemma update_writes:
  "journal_update env s = (Returns x, s') \<Longrightarrow>
   hget (lw_journal (snd s')) (lj_key (fst s')) = Some (fst s') \<and> (\<exists>n. fst s' = fst s\<lparr>lj_revision := n\<rparr>)"
  by (auto simp: journal_update_def transact_def Let_def update_tx_def hm_simps
      split: fault.splits option.splits if_splits)

lemma task_step:
  "keeps (of_job F) (of_job P) m (\<lambda>_. of_job R) \<Longrightarrow> (\<And>x. keeps (of_job F) (of_job R) (f x) Q) \<Longrightarrow>
   keeps (of_job F) (of_job P) (run_then m f) Q"
  by (rule keeps_then)

lemma audit_step:
  "(\<And>j a. F j \<Longrightarrow> P j \<Longrightarrow> F (j\<lparr>lj_audit := a\<rparr>) \<and> P (j\<lparr>lj_audit := a\<rparr>)) \<Longrightarrow>
   keeps (of_job F) (of_job P) (audit_job env msg) (\<lambda>_. of_job P)"
  unfolding audit_job_def by (rule world_step, rule set_step) simp

lemma result_step:
  assumes "\<And>j a st e n. F j \<Longrightarrow> F (j\<lparr>lj_audit := a\<rparr>) \<and> F (j\<lparr>lj_state := st, lj_last_error := e\<rparr>)
      \<and> F (j\<lparr>lj_last_error := e, lj_state := st\<rparr>) \<and> F (j\<lparr>lj_next_attempt_at := n\<rparr>)"
  shows "keeps (of_job F) (\<lambda>s. \<forall>x. r = Inr x \<longrightarrow> all_done (lj_checkpoint (fst s))) (record_result env r)
    (\<lambda>_. of_job outcome_recorded)"
proof (cases r)
  case (Inl e)
  have "keeps (of_job F) always (record_result env r) (\<lambda>_. of_job outcome_recorded)"
    unfolding record_result_def Inl sum.case
    by (rule task_step, rule set_step [where Q = outcome_recorded], simp add: assms outcome_recorded_def,
        rule world_step, rule task_step, rule set_step [where Q = outcome_recorded],
        simp add: assms outcome_recorded_def, rule audit_step, simp add: assms outcome_recorded_def)
  then show ?thesis by (rule keeps_weaken) simp_all
next
  case (Inr x)
  have "keeps (of_job F) (at all_done) (record_result env r) (\<lambda>_. of_job outcome_recorded)"
    unfolding record_result_def Inr sum.case
    by (rule task_step, rule set_step [where Q = outcome_recorded], simp add: assms outcome_recorded_def,
        rule audit_step, simp add: assms outcome_recorded_def)
  then show ?thesis by (rule keeps_weaken) (simp_all add: Inr)
qed

lemma try_phases_step:
  assumes "steady F"
  shows "keeps (of_job F) always (run_try (execute_phases env))
    (\<lambda>r s. \<forall>x. r = Inr x \<longrightarrow> all_done (lj_checkpoint (fst s)))"
  by (rule keeps_weaken [OF keeps_try [OF phases_step [OF assms]]]) simp_all

text \<open>C13: an execution that returns has counted one attempt, released the lease, and stored in the
  journal the job it returns: succeeded with every phase done, or failed for good with the attempts used
  up, or to be retried with attempts left.\<close>

theorem execute_accounts:
  fixes w :: "'h lworld"
  assumes "execute_job env j w = (Returns j', w')"
  shows "hget (lw_journal w') (lj_key j) = Some j' \<and> lj_attempts j' = lj_attempts j + 1
    \<and> lj_max_attempts j' = lj_max_attempts j \<and> lj_lease_until j' = None \<and> outcome_recorded j'"
proof -
  define F :: "lifecycle_job \<Rightarrow> bool" where "F = (\<lambda>x. lj_key x = lj_key j \<and> lj_attempts x = lj_attempts j + 1 \<and> lj_max_attempts x = lj_max_attempts j)"
  have F: "steady F" by (simp add: steady_def F_def)
  let ?freed = "\<lambda>x :: lifecycle_job. outcome_recorded x \<and> lj_lease_until x = None"
  let ?stored = "\<lambda>s :: lifecycle_job \<times> 'h lworld. hget (lw_journal (snd s)) (lj_key (fst s)) = Some (fst s) \<and> ?freed (fst s)"
  have final: "keeps (of_job F) (of_job ?freed) (journal_update env) (\<lambda>_. ?stored)"
  proof (rule keepsI)
    fix s r s' assume pre: "F (fst s)" "?freed (fst s)" and run: "journal_update env s = (r, s')"
    have "keeps (of_job F) (of_job ?freed) (journal_update env) (\<lambda>_. of_job ?freed)"
      by (rule update_step) (simp add: F_def outcome_recorded_def)
    from keeps_elim [OF this pre run] update_writes [of env s _ s'] run
    show "F (fst s') \<and> (\<forall>x. r = Returns x \<longrightarrow> ?stored s')" by auto
  qed
  have rest: "keeps (of_job F) always (run_then (audit_job env ''attempt started'') (\<lambda>_.
     run_then (journal_update env) (\<lambda>_.
     run_then (run_try (execute_phases env)) (\<lambda>r.
     run_then (record_result env r) (\<lambda>_.
     run_then (set_job (\<lambda>j. j\<lparr>lj_lease_owner := None, lj_lease_until := None\<rparr>)) (\<lambda>_.
     journal_update env)))))) (\<lambda>_. ?stored)"
    by (rule task_step, rule audit_step, simp add: F_def, rule task_step, rule update_step, simp add: F_def,
        rule keeps_then [OF try_phases_step [OF F]], rule keeps_then, rule result_step, simp add: F_def,
        rule task_step, rule set_step [where Q = ?freed], simp add: F_def outcome_recorded_def, rule final)
  let ?j = "j\<lparr>lj_state := LRunning, lj_attempts := lj_attempts j + 1\<rparr>"
  obtain s where run: "run_then (audit_job env ''attempt started'') (\<lambda>_.
     run_then (journal_update env) (\<lambda>_.
     run_then (run_try (execute_phases env)) (\<lambda>r.
     run_then (record_result env r) (\<lambda>_.
     run_then (set_job (\<lambda>j. j\<lparr>lj_lease_owner := None, lj_lease_until := None\<rparr>)) (\<lambda>_.
     journal_update env))))) (?j, w) = (Returns (), s)" "s = (j', w')"
    using assms by (auto simp: execute_job_def with_job_def execute_task_def run_then_def [of "set_job _"]
        set_job_def run_then_def [of _ "\<lambda>_. the_job"] the_job_def split: prod.splits outcome.splits)
  have "F (fst (?j, w))" by (simp add: F_def)
  from keeps_elim [OF rest this TrueI run(1)] run(2) show ?thesis by (auto simp: F_def)
qed

lemma execute_accounts_witness:
  "(let env = lifecycle_sample (\<lambda>n. if n = 5 then Fails (Io ''disk'') else Fine);
        w = snd (submit env 1 lifecycle_uri AArchive lifecycle_world);
        job = new_lifecycle_job 1 0 lifecycle_uri LArchive
    in \<exists>j'. fst (execute_job env job w) = Returns j' \<and> hget (lw_journal (snd (execute_job env job w))) (lj_key job) = Some j'
       \<and> lj_attempts j' = 1 \<and> lj_state j' = LRetryable \<and> outcome_recorded j')"
proof -
  let ?env = "lifecycle_sample (\<lambda>n. if n = 5 then Fails (Io ''disk'') else Fine)"
    and ?job = "new_lifecycle_job 1 0 lifecycle_uri LArchive"
  let ?w = "snd (submit ?env 1 lifecycle_uri AArchive lifecycle_world)"
  have "case fst (execute_job ?env ?job ?w) of Returns j \<Rightarrow> lj_state j = LRetryable | _ \<Rightarrow> False" by code_simp
  then obtain j' w' where run: "execute_job ?env ?job ?w = (Returns j', w')" "lj_state j' = LRetryable"
    by (cases "execute_job ?env ?job ?w") (auto split: outcome.splits)
  moreover have "lj_attempts ?job = 0" by (simp add: new_lifecycle_job_def)
  ultimately show ?thesis using execute_accounts [OF run(1)] by (simp add: Let_def)
qed

end
