(* ===== verification/Lifecycle_Stranded.thy ===== *)
theory Lifecycle_Stranded
  imports Lifecycle_Rules
begin

text \<open>
  A process that stops between writing the archive manifest and recording that it was written leaves a job
  that no later pass completes: the manifest of every retry carries a new time, and the cold store refuses
  to replace the one it has.
\<close>

text \<open>The file \<open>f\<close> holds a manifest of a time that the clock does not show again.\<close>

definition left_over :: "'h lifecycle_env \<Rightarrow> string \<Rightarrow> archive_manifest \<Rightarrow> 'h lworld \<Rightarrow> bool" where
  "left_over env f m w \<longleftrightarrow> bytes_tell env \<and> hget (lw_cold w) f = Some m
     \<and> (\<forall>n\<ge>lw_reads w. lx_now env n \<noteq> am_created_at m)"

definition unfinished :: "'h lifecycle_env \<Rightarrow> string \<Rightarrow> lifecycle_job \<Rightarrow> 'h lworld \<Rightarrow> bool" where
  "unfinished env f j w \<longleftrightarrow>
     (lx_file_name env (lj_key j) = f \<longrightarrow> \<not> ck_manifest (lj_checkpoint j) \<and> lj_state j \<noteq> LSucceeded)"

abbreviation stuck :: "'h lifecycle_env \<Rightarrow> string \<Rightarrow> archive_manifest \<Rightarrow> 'h lworld \<Rightarrow> bool" where
  "stuck env f m \<equiv> sys_inv (left_over env f m) (unfinished env f)"

abbreviation stuck_task :: "'h lifecycle_env \<Rightarrow> string \<Rightarrow> archive_manifest \<Rightarrow> lifecycle_job \<times> 'h lworld \<Rightarrow> bool" where
  "stuck_task env f m \<equiv> sys_task (left_over env f m) (unfinished env f)"

lemmas stuck_defs = sys_inv_def left_over_def unfinished_def

section \<open>Accesses\<close>

lemma call_stuck: "keeps (stuck env f m) always (call env g) (\<lambda>_. always)"
  by (auto simp: keeps_def call_def access_def Let_def stuck_defs split: fault.splits sum.splits prod.splits)

lemma clock_stuck: "keeps (stuck env f m) always (clock env) (\<lambda>now _. now \<noteq> am_created_at m)"
  by (auto simp: keeps_def clock_def stuck_defs)

lemma get_stuck: "keeps (stuck env f m) always (get_manifest env key) (\<lambda>_. always)"
  by (auto simp: keeps_def get_manifest_def access_def Let_def stuck_defs split: fault.splits option.splits)

lemma put_stuck:
  assumes "am_created_at m' \<noteq> am_created_at m"
  shows "keeps (stuck env f m) always (put_manifest env key m') (\<lambda>_ _. lx_file_name env key \<noteq> f)"
proof (rule keepsI)
  fix w r w' assume inv: "stuck env f m w" and run: "put_manifest env key m' w = (r, w')"
  have W: "bytes_tell env" "hget (lw_cold w) f = Some m" using inv by (auto simp: stuck_defs)
  have fresh: "lx_manifest_bytes env m \<noteq> Inr b" if "lx_manifest_bytes env m' = Inr b" for b
    using W(1) assms that unfolding bytes_tell_def by metis
  show "stuck env f m w' \<and> (\<forall>x. r = Returns x \<longrightarrow> lx_file_name env key \<noteq> f)"
    using run inv W fresh
    by (auto simp: put_manifest_def access_def Let_def stuck_defs hm_simps
        split: fault.splits sum.splits option.splits if_splits)
qed

lemma read_stuck: "keeps (stuck env f m) always (read_live env u) (\<lambda>_. always)"
  unfolding read_live_def
  by (rule always_then [OF call_stuck]) (auto split: option.split intro: keeps_raise keeps_return)

section \<open>The executor\<close>

text \<open>What the executor does besides the job it holds.\<close>

lemma world_stuck:
  assumes "keeps (stuck env f m) always g (\<lambda>x _. Q x)"
  shows "keeps (stuck_task env f m) (\<lambda>s. P (fst s)) (on_world g) (\<lambda>x s. P (fst s) \<and> Q x)"
  using assms by (fastforce simp: keeps_def on_world_def sys_task_def unfinished_def split: prod.splits)

abbreviation elsewhere :: "'h lifecycle_env \<Rightarrow> string \<Rightarrow> lifecycle_job \<Rightarrow> bool" where
  "elsewhere env f j \<equiv> lx_file_name env (lj_key j) \<noteq> f"

lemma update_stuck:
  assumes "\<And>j n. P j \<Longrightarrow> P (j\<lparr>lj_revision := n\<rparr>)"
  shows "keeps (stuck_task env f m) (\<lambda>s. P (fst s)) (journal_update env) (\<lambda>_ s. P (fst s))"
  using assms by (fastforce simp: keeps_def journal_update_def transact_def Let_def update_tx_def sys_task_def
      stuck_defs hm_simps split: fault.splits option.splits if_splits)

lemma checkpoint_stuck:
  "keeps (stuck_task env f m) (\<lambda>s. elsewhere env f (fst s)) (checkpoint env c) (\<lambda>_ s. elsewhere env f (fst s))"
  unfolding checkpoint_def
  by (rule keeps_then [OF _ update_stuck]) (auto simp: keeps_def set_job_def sys_task_def unfinished_def)

lemma task_given:
  "(C \<Longrightarrow> keeps I (\<lambda>s. P s) m Q) \<Longrightarrow> keeps I (\<lambda>s. P s \<and> C) m Q"
  by (simp add: keeps_def)

lemmas same_job = world_stuck [where P = "\<lambda>x. x = job" for job]

lemma world_next:
  assumes "keeps (stuck env f m) always g (\<lambda>_. always)" "\<And>x. keeps (stuck_task env f m) (\<lambda>s. fst s = job) (h x) Q"
  shows "keeps (stuck_task env f m) (\<lambda>s. fst s = job) (run_then (on_world g) h) Q"
  by (rule keeps_then [OF same_job [where Q = "\<lambda>_. True", OF assms(1)]]) (simp add: assms(2))

lemma fetch_stuck:
  "keeps (stuck env f m) always (run_each (\<lambda>b. run_then (call env (po_get_blob (lx_ports env) b))
     (\<lambda>bytes. run_return (b, bytes))) bs) (\<lambda>_. always)"
  by (rule keeps_each, rule always_then [OF call_stuck]) (simp add: keeps_return)

text \<open>The first phase returns only for a job of another file.\<close>

lemma manifest_stuck:
  "keeps (stuck_task env f m) always (phase_manifest env) (\<lambda>_ s. elsewhere env f (fst s))"
  unfolding phase_manifest_def
proof (rule keeps_then [where R = "\<lambda>job s. fst s = job \<and> unfinished env f job (snd s)"])
  show "keeps (stuck_task env f m) always the_job (\<lambda>job s. fst s = job \<and> unfinished env f job (snd s))"
    by (auto simp: keeps_def the_job_def sys_task_def)
next
  fix job
  have stamp: "keeps (stuck_task env f m) (\<lambda>s. fst s = job) (run_then (on_world (clock env)) (\<lambda>now.
         run_then (on_world (put_manifest env (lj_key job)
                     \<lparr>am_job_id = lj_id job, am_entry = entry, am_blobs = blobs, am_edges = edges,
                      am_vector = point, am_created_at = now\<rparr>)) (\<lambda>_.
         checkpoint env (\<lambda>c. c\<lparr>ck_manifest := True\<rparr>)))) (\<lambda>_ s. elsewhere env f (fst s))"
    for entry blobs edges point
    by (rule keeps_then [OF same_job [OF clock_stuck]], rule task_given,
        rule keeps_then [OF same_job [OF put_stuck]], simp, rule keeps_weaken [OF checkpoint_stuck]) auto
  show "keeps (stuck_task env f m) (\<lambda>s. fst s = job \<and> unfinished env f job (snd s))
      (if ck_manifest (lj_checkpoint job) then run_return ()
       else
         run_then (on_world (read_live env (lj_uri job))) (\<lambda>entry.
         run_then (on_world (run_each (\<lambda>b. run_then (call env (po_get_blob (lx_ports env) b))
                     (\<lambda>bytes. run_return (b, bytes))) (payload_blobs (e_payload entry)))) (\<lambda>blobs.
         run_then (on_world (call env (po_edges_for (lx_ports env) (lj_uri job)))) (\<lambda>edges.
         run_then (on_world (call env (po_get_point (lx_ports env) (lx_collection env) (lj_uri job)))) (\<lambda>point.
         run_then (on_world (clock env)) (\<lambda>now.
         run_then (on_world (put_manifest env (lj_key job)
                     \<lparr>am_job_id = lj_id job, am_entry = entry, am_blobs = blobs, am_edges = edges,
                      am_vector = point, am_created_at = now\<rparr>)) (\<lambda>_.
         checkpoint env (\<lambda>c. c\<lparr>ck_manifest := True\<rparr>))))))))
      (\<lambda>_ s. elsewhere env f (fst s))"
  proof (cases "ck_manifest (lj_checkpoint job)")
    case True
    then show ?thesis by (auto simp: keeps_def run_return_def unfinished_def)
  next
    case False
    show ?thesis
      by (rule keeps_weaken [where P = "\<lambda>s. fst s = job"], simp only: False if_False,
          rule world_next [OF read_stuck], rule world_next [OF fetch_stuck], rule world_next [OF call_stuck],
          rule world_next [OF call_stuck], rule stamp) simp_all
  qed
qed

lemma phase_stuck:
  assumes "\<And>job. keeps (stuck_task env f m) (\<lambda>s. elsewhere env f (fst s)) (g job) (\<lambda>_ s. elsewhere env f (fst s))"
  shows "keeps (stuck_task env f m) (\<lambda>s. elsewhere env f (fst s))
    (run_then the_job (\<lambda>job. if d job then run_return () else g job)) (\<lambda>_ s. elsewhere env f (fst s))"
proof (rule keeps_then [where R = "\<lambda>_ s. elsewhere env f (fst s)"])
  show "keeps (stuck_task env f m) (\<lambda>s. elsewhere env f (fst s)) the_job (\<lambda>_ s. elsewhere env f (fst s))"
    by (simp add: keeps_def the_job_def)
qed (simp add: assms keeps_return)

lemma elsewhere_next:
  assumes "keeps (stuck env f m) always g (\<lambda>_. always)"
    "\<And>x. keeps (stuck_task env f m) (\<lambda>s. elsewhere env f (fst s)) (h x) Q"
  shows "keeps (stuck_task env f m) (\<lambda>s. elsewhere env f (fst s)) (run_then (on_world g) h) Q"
  by (rule keeps_then [OF world_stuck [where Q = "\<lambda>_. True" and P = "elsewhere env f", OF assms(1)]])
    (simp add: assms(2))

lemma each_stuck:
  "(\<And>x. keeps (stuck env f m) always (g x) (\<lambda>_. always)) \<Longrightarrow>
   keeps (stuck env f m) always (run_each g xs) (\<lambda>_. always)"
  by (rule keeps_each)

lemma phases_stuck:
  "keeps (stuck_task env f m) always (execute_phases env) (\<lambda>_ s. elsewhere env f (fst s))"
proof -
  have edge: "keeps (stuck env f m) always (case e of (from, to, _) \<Rightarrow> call env (po_remove_edge (lx_ports env) from to))
      (\<lambda>_. always)" for e :: edge
    by (simp add: call_stuck split: prod.split)
  have blob: "keeps (stuck env f m) always (case b of (b, _) \<Rightarrow> call env (po_delete_blob (lx_ports env) b))
      (\<lambda>_. always)" for b :: "blob_ref \<times> string"
    by (simp add: call_stuck split: prod.split)
  show ?thesis
    unfolding execute_phases_def phase_vector_def phase_graph_def phase_content_def phase_blobs_def
    by (intro keeps_then [OF manifest_stuck] keeps_then [where R = "\<lambda>_ s. elsewhere env f (fst s)"] phase_stuck
        elsewhere_next checkpoint_stuck call_stuck get_stuck each_stuck edge blob)
qed

section \<open>Histories\<close>

lemma restored_stuck:
  assumes "keeps (stuck_task env f m) always g (\<lambda>_. always)"
  shows "keeps (stuck_task env f m) always (unless_restored d g) (\<lambda>_. always)"
proof -
  have "keeps (stuck_task env f m) always the_job (\<lambda>_. always)" by (simp add: keeps_def the_job_def)
  then show ?thesis
    unfolding unless_restored_def by (rule always_then) (simp add: assms keeps_return)
qed

lemma world_unaffected:
  "keeps (stuck env f m) always g (\<lambda>_. always) \<Longrightarrow> keeps (stuck_task env f m) always (on_world g) (\<lambda>_. always)"
  using world_stuck [of env f m g "\<lambda>_. True" "\<lambda>_. True"] by simp

lemma restore_stuck: "keeps (stuck_task env f m) always (restore_task env m') (\<lambda>_. always)"
proof -
  have mark: "keeps (stuck_task env f m) always (restore_checkpoint env c) (\<lambda>_. always)" for c
    unfolding restore_checkpoint_def
    by (rule always_then [OF _ update_stuck [where P = "\<lambda>_. True"]])
      (auto simp: keeps_def set_job_def sys_task_def unfinished_def)
  have blob: "keeps (stuck env f m) always (case b of (r, bytes) \<Rightarrow>
      run_then (call env (po_put_blob (lx_ports env) bytes (br_mime_type r))) (\<lambda>written.
        if br_hash written \<noteq> br_hash r then run_raise (Storage ''restored blob hash mismatch'')
        else run_return ())) (\<lambda>_. always)" for b
    by (auto split: prod.split intro!: always_then call_stuck keeps_raise keeps_return)
  have edge: "keeps (stuck env f m) always (case e of (from, to, kind) \<Rightarrow>
      call env (po_add_edge (lx_ports env) from to kind)) (\<lambda>_. always)" for e :: edge
    by (simp add: call_stuck split: prod.split)
  have point: "keeps (stuck_task env f m) always (case v of
             Some p \<Rightarrow> on_world (call env (po_upsert_point (lx_ports env) (lx_collection env) p))
           | None \<Rightarrow> run_return ()) (\<lambda>_. always)" for v
    by (cases v) (auto intro: keeps_return world_unaffected call_stuck)
  have read: "keeps (stuck_task env f m) always (run_try (on_world (read_live env u))) (\<lambda>_. always)" for u
    by (rule keeps_weaken [OF keeps_try [OF world_unaffected [OF read_stuck]]]) simp_all
  have content: "keeps (stuck_task env f m) always (restore_content env m') (\<lambda>_. always)"
    unfolding restore_content_def
    by (intro restored_stuck always_then read mark)
      (auto split: sum.split context_error.split intro!: keeps_raise keeps_return always_then world_unaffected call_stuck)
  show ?thesis
    unfolding restore_task_def restore_blobs_def restore_graph_def restore_vector_def
    by (intro always_then restored_stuck mark content world_unaffected each_stuck blob edge point)
qed

interpretation stranding: job_system env "left_over env f m" "unfinished env f" "\<lambda>_. True" for env f m
proof unfold_locales
  fix g j w
  show "bookkeeping g \<Longrightarrow> unfinished env f j w \<Longrightarrow> unfinished env f (g j) w"
    unfolding bookkeeping_def unfinished_def by metis
next
  show "keeps (stuck_task env f m) always (execute_phases env)
      (\<lambda>_ s. \<forall>e. unfinished env f ((fst s)\<lparr>lj_state := LSucceeded, lj_last_error := e\<rparr>) (snd s))"
    by (rule keeps_weaken [OF phases_stuck]) (simp_all add: unfinished_def)
qed (auto simp: left_over_def unfinished_def new_lifecycle_job_def no_checkpoint_def intro: restore_stuck)

text \<open>C15: when the process stopped after writing the manifest of a job and before recording it, no sequence of
  submissions, passes and restores ever lets a job of that key succeed, whatever fails or works, as long as
  the clock does not show the time of that manifest again.\<close>

theorem crash_strands_job:
  assumes "bytes_tell env" "hget (lw_cold w) (lx_file_name env k) = Some m"
    and "\<And>n. lw_reads w \<le> n \<Longrightarrow> lx_now env n \<noteq> am_created_at m"
    and "\<And>k' j'. hget (lw_journal w) k' = Some j' \<Longrightarrow> lj_key j' = k'"
    and "\<And>k' j'. hget (lw_journal w) k' = Some j' \<Longrightarrow> lx_file_name env k' = lx_file_name env k \<Longrightarrow>
      \<not> ck_manifest (lj_checkpoint j') \<and> lj_state j' \<noteq> LSucceeded"
    and "hget (lw_journal (fold (lifecycle_step env) calls w)) k = Some j"
  shows "lj_state j \<noteq> LSucceeded \<and> \<not> ck_manifest (lj_checkpoint j)"
proof -
  have "stuck env (lx_file_name env k) m w" using assms(1-5) by (auto simp: stuck_defs)
  then have "stuck env (lx_file_name env k) m (fold (lifecycle_step env) calls w)" by (rule stranding.histories)
  with assms(6) show ?thesis by (auto simp: stuck_defs)
qed

text \<open>The process stops after it wrote the manifest; the next pass finds the job and fails.\<close>

lemma crash_strands_job_witness:
  "(let env = lifecycle_sample (\<lambda>n. if n = 9 then Stop else Fine);
        w = fold (lifecycle_step env) [SubmitJob 1 lifecycle_uri AArchive, RunPending 2] lifecycle_world
    in \<exists>j. hget (lw_journal (fold (lifecycle_step env) [RunPending 3] w)) ''uwu://t/a:Archive'' = Some j
       \<and> lj_attempts j = 2 \<and> lj_state j \<noteq> LSucceeded \<and> \<not> ck_manifest (lj_checkpoint j))"
proof -
  let ?env = "lifecycle_sample (\<lambda>n. if n = 9 then Stop else Fine)" and ?k = "''uwu://t/a:Archive''"
  define w where "w = fold (lifecycle_step ?env) [SubmitJob 1 lifecycle_uri AArchive, RunPending 2] lifecycle_world"
  have cold: "hget (lw_cold w) (lx_file_name ?env ?k) = Some (lifecycle_manifest 80000000000)"
    unfolding w_def by code_simp
  have reads: "lw_reads w = 5" unfolding w_def by code_simp
  have jobs: "\<forall>(k, j)\<in>set (lw_journal w). lj_key j = k \<and> \<not> ck_manifest (lj_checkpoint j) \<and> lj_state j \<noteq> LSucceeded"
    unfolding w_def by code_simp
  have "map_option lj_attempts (hget (lw_journal (fold (lifecycle_step ?env) [RunPending 3] w)) ?k) = Some 2"
    unfolding w_def by code_simp
  then obtain j where j: "hget (lw_journal (fold (lifecycle_step ?env) [RunPending 3] w)) ?k = Some j" "lj_attempts j = 2"
    by auto
  have time: "lx_now ?env n \<noteq> am_created_at (lifecycle_manifest 80000000000)" if "lw_reads w \<le> n" for n
    using that reads by (simp add: lifecycle_sample_def lifecycle_manifest_def)
  have "lj_state j \<noteq> LSucceeded \<and> \<not> ck_manifest (lj_checkpoint j)"
    by (rule crash_strands_job [OF sample_bytes_tell cold time _ _ j(1)]) (use jobs in \<open>auto dest: hget_SomeD\<close>)
  with j show ?thesis unfolding Let_def w_def by blast
qed

end
