(* ===== verification/Lifecycle_Facts.thy ===== *)
theory Lifecycle_Facts
  imports Lifecycle_Rules
begin

text \<open>
  The contract of the ports of the lifecycle executor (locale \<open>content_ports\<close>, provided by the ports of the
  tests), and that no entry is lost over all histories of submissions, passes and restores.
\<close>

section \<open>The contract of the ports\<close>

text \<open>\<open>entry_at\<close> is what the content store holds. A scan finds the entry of an address only if it is
  there; a deletion, failed or not, removes nothing else; a write puts nothing but its entry; all other
  calls leave the content alone.\<close>

locale content_ports =
  fixes env :: "'h lifecycle_env"
    and sound :: "'h \<Rightarrow> bool"
    and entry_at :: "'h \<Rightarrow> string \<Rightarrow> context_entry option"
  assumes scan_frame: "sound h \<Longrightarrow> po_scan (lx_ports env) p page h = (rs, h') \<Longrightarrow> sound h' \<and> entry_at h' = entry_at h"
    and scan_finds: "sound h \<Longrightarrow> po_scan (lx_ports env) p page h = (Inr found, h') \<Longrightarrow>
      e \<in> set (pg_items found) \<Longrightarrow> entry_at h (u_canonical (e_uri e)) = Some e"
    and delete_entry: "sound h \<Longrightarrow> po_delete (lx_ports env) u h = (r, h') \<Longrightarrow>
      sound h' \<and> (entry_at h' = entry_at h \<or> entry_at h' = (entry_at h)(u_canonical u := None))"
    and write_entry: "sound h \<Longrightarrow> po_write (lx_ports env) e h = (w, h') \<Longrightarrow>
      sound h' \<and> (entry_at h' = entry_at h \<or> entry_at h' = (entry_at h)(u_canonical (e_uri e) \<mapsto> e))"
    and edges_frame: "sound h \<Longrightarrow> po_edges_for (lx_ports env) u h = (re, h') \<Longrightarrow> sound h' \<and> entry_at h' = entry_at h"
    and add_edge_frame: "sound h \<Longrightarrow> po_add_edge (lx_ports env) u v k h = (r, h') \<Longrightarrow> sound h' \<and> entry_at h' = entry_at h"
    and remove_edge_frame: "sound h \<Longrightarrow> po_remove_edge (lx_ports env) u v h = (r, h') \<Longrightarrow> sound h' \<and> entry_at h' = entry_at h"
    and get_point_frame: "sound h \<Longrightarrow> po_get_point (lx_ports env) c u h = (rp, h') \<Longrightarrow> sound h' \<and> entry_at h' = entry_at h"
    and upsert_frame: "sound h \<Longrightarrow> po_upsert_point (lx_ports env) c pt h = (r, h') \<Longrightarrow> sound h' \<and> entry_at h' = entry_at h"
    and delete_point_frame: "sound h \<Longrightarrow> po_delete_point (lx_ports env) c u h = (r, h') \<Longrightarrow> sound h' \<and> entry_at h' = entry_at h"
    and get_blob_frame: "sound h \<Longrightarrow> po_get_blob (lx_ports env) b h = (rb, h') \<Longrightarrow> sound h' \<and> entry_at h' = entry_at h"
    and put_blob_frame: "sound h \<Longrightarrow> po_put_blob (lx_ports env) bytes mime h = (rr, h') \<Longrightarrow> sound h' \<and> entry_at h' = entry_at h"
    and delete_blob_frame: "sound h \<Longrightarrow> po_delete_blob (lx_ports env) b h = (r, h') \<Longrightarrow> sound h' \<and> entry_at h' = entry_at h"
begin

section \<open>What is never lost\<close>

text \<open>\<open>base\<close> is the content at the start. Every entry of it is where it was or in a manifest, all manifests hold
  such entries, and a job past its first phase has the manifest of its address under its key.\<close>

definition archived :: "lifecycle_job \<Rightarrow> 'h lworld \<Rightarrow> bool" where
  "archived j w \<longleftrightarrow> (ck_manifest (lj_checkpoint j) \<longrightarrow>
     (\<exists>m. hget (lw_cold w) (lx_file_name env (lj_key j)) = Some m \<and> e_uri (am_entry m) = lj_uri j))"

definition filed :: "'h lworld \<Rightarrow> context_entry option \<Rightarrow> bool" where
  "filed w x \<longleftrightarrow> (\<exists>f m. hget (lw_cold w) f = Some m \<and> x = Some (am_entry m))"

definition safe :: "(string \<Rightarrow> context_entry option) \<Rightarrow> 'h lworld \<Rightarrow> string \<Rightarrow> bool" where
  "safe base w u \<longleftrightarrow> entry_at (lw_hot w) u = base u \<or> entry_at (lw_hot w) u = None \<and> filed w (base u)"

definition stores :: "(string \<Rightarrow> context_entry option) \<Rightarrow> 'h lworld \<Rightarrow> bool" where
  "stores base w \<longleftrightarrow> bytes_tell env \<and> sound (lw_hot w)
     \<and> (\<forall>u. safe base w u)
     \<and> (\<forall>f m. hget (lw_cold w) f = Some m \<longrightarrow> base (u_canonical (e_uri (am_entry m))) = Some (am_entry m))"

abbreviation kept :: "(string \<Rightarrow> context_entry option) \<Rightarrow> 'h lworld \<Rightarrow> bool" where
  "kept base \<equiv> sys_inv (stores base) archived"

abbreviation kept_task :: "(string \<Rightarrow> context_entry option) \<Rightarrow> lifecycle_job \<times> 'h lworld \<Rightarrow> bool" where
  "kept_task base \<equiv> sys_task (stores base) archived"

lemmas kept_def = sys_inv_def stores_def
lemmas kept_task_def = sys_task_def

lemma safe_cong:
  "entry_at (lw_hot w') u = entry_at (lw_hot w) u \<Longrightarrow> lw_cold w' = lw_cold w \<Longrightarrow> safe base w' u = safe base w u"
  by (simp add: safe_def filed_def)

lemma safe_hot:
  "safe base (w\<lparr>lw_hot := h\<rparr>) u \<longleftrightarrow> entry_at h u = base u \<or> entry_at h u = None \<and> filed w (base u)"
  by (simp add: safe_def filed_def)

lemma safe_change:
  "safe base w u \<Longrightarrow> entry_at h u = entry_at (lw_hot w) u \<or> entry_at h u = base u
     \<or> entry_at h u = None \<and> filed w (base u) \<Longrightarrow> safe base (w\<lparr>lw_hot := h\<rparr>) u"
  unfolding safe_hot by (auto simp: safe_def)

lemma kept_ticks [simp]:
  "kept base (w\<lparr>lw_tick := n\<rparr>) = kept base w" "archived j (w\<lparr>lw_tick := n\<rparr>) = archived j w"
  "kept base (w\<lparr>lw_reads := n\<rparr>) = kept base w" "archived j (w\<lparr>lw_reads := n\<rparr>) = archived j w"
  by (simp_all add: kept_def archived_def safe_def filed_def)

lemma archived_hot [simp]: "archived j (w\<lparr>lw_hot := h\<rparr>) = archived j w"
  by (simp add: archived_def)

lemma kept_hot:
  "kept base w \<Longrightarrow> sound h \<Longrightarrow> entry_at h = entry_at (lw_hot w) \<Longrightarrow> kept base (w\<lparr>lw_hot := h\<rparr>)"
  by (simp add: kept_def safe_cong [of "w\<lparr>lw_hot := h\<rparr>" _ w])

abbreviation held :: "(string \<Rightarrow> context_entry option) \<Rightarrow> lifecycle_job \<Rightarrow> 'h lworld \<Rightarrow> bool" where
  "held base j w \<equiv> kept base w \<and> archived j w"

lemma access_held:
  assumes "\<And>w r w'. held base j w \<Longrightarrow> P w \<Longrightarrow> f w = (r, w') \<Longrightarrow>
      held base j w' \<and> (\<forall>x. r = Inr x \<longrightarrow> Q x w')"
    and "\<And>w n. P w \<Longrightarrow> P (w\<lparr>lw_tick := n\<rparr>)"
  shows "keeps (held base j) P (access env f) Q"
proof (rule keepsI)
  fix w r w' assume pre: "held base j w" "P w" and run: "access env f w = (r, w')"
  let ?w1 = "w\<lparr>lw_tick := Suc (lw_tick w)\<rparr>"
  obtain q w2 where f: "f ?w1 = (q, w2)" by force
  have "held base j ?w1" "P ?w1" using pre assms(2) by simp_all
  note effect = assms(1) [OF this f]
  show "held base j w' \<and> (\<forall>x. r = Returns x \<longrightarrow> Q x w')"
    using run pre effect f by (auto simp: access_def Let_def split: fault.splits sum.splits)
qed

lemma call_held:
  assumes "\<And>h r h'. sound h \<Longrightarrow> f h = (r, h') \<Longrightarrow> sound h' \<and> entry_at h' = entry_at h"
  shows "keeps (held base j) always (call env f) (\<lambda>_. always)"
  unfolding call_def
proof (rule access_held)
  fix w r w' assume pre: "held base j w" and run: "(let (r, h) = f (lw_hot w) in (r, w\<lparr>lw_hot := h\<rparr>)) = (r, w')"
  obtain q h where f: "f (lw_hot w) = (q, h)" by force
  have "sound (lw_hot w)" using pre by (simp add: kept_def)
  from assms [OF this f] pre run f show "held base j w' \<and> (\<forall>x. r = Inr x \<longrightarrow> True)"
    by (auto intro: kept_hot)
qed simp

lemmas frames = scan_frame edges_frame add_edge_frame remove_edge_frame get_point_frame upsert_frame
  delete_point_frame get_blob_frame put_blob_frame delete_blob_frame

lemmas calls_held = frames [THEN call_held]

lemma clock_held: "keeps (held base j) P (clock env) (\<lambda>_. always)"
  by (auto simp: keeps_def clock_def)

lemma held_entry: "kept base w \<Longrightarrow> entry_at (lw_hot w) u = Some e \<Longrightarrow> base u = Some e"
  unfolding kept_def safe_def by (metis option.distinct(1))

lemma read_live_held:
  "keeps (held base j) always (read_live env u) (\<lambda>e w. e_uri e = u \<and> base (u_canonical u) = Some e)"
  unfolding read_live_def
proof (rule keeps_then [where R = "\<lambda>page w. \<forall>e\<in>set (pg_items page). base (u_canonical (e_uri e)) = Some e"])
  show "keeps (held base j) always
     (call env (po_scan (lx_ports env) (u_canonical u) (page_request_new 1)))
     (\<lambda>page w. \<forall>e\<in>set (pg_items page). base (u_canonical (e_uri e)) = Some e)"
    unfolding call_def
  proof (rule access_held)
    fix w r w' assume pre: "held base j w"
      and run: "(let (r, h) = po_scan (lx_ports env) (u_canonical u) (page_request_new 1) (lw_hot w)
        in (r, w\<lparr>lw_hot := h\<rparr>)) = (r, w')"
    obtain q h where scan: "po_scan (lx_ports env) (u_canonical u) (page_request_new 1) (lw_hot w) = (q, h)" by force
    have sound: "sound (lw_hot w)" using pre by (simp add: kept_def)
    have "held base j w'" using scan_frame [OF sound scan] pre run scan by (auto intro: kept_hot)
    moreover have "base (u_canonical (e_uri e)) = Some e" if "q = Inr page" "e \<in> set (pg_items page)" for page e
      using scan_finds [OF sound] scan that held_entry pre by blast
    ultimately show "held base j w' \<and> (\<forall>page. r = Inr page \<longrightarrow> (\<forall>e\<in>set (pg_items page). base (u_canonical (e_uri e)) = Some e))"
      using run scan by auto
  qed simp
next
  fix page
  show "keeps (held base j) (\<lambda>w. \<forall>e\<in>set (pg_items page). base (u_canonical (e_uri e)) = Some e)
     (case find (\<lambda>e. e_uri e = u) (pg_items page) of
        None \<Rightarrow> run_raise (NotFound (u_canonical u)) | Some e \<Rightarrow> run_return e)
     (\<lambda>e w. e_uri e = u \<and> base (u_canonical u) = Some e)"
    by (auto split: option.split simp: find_Some_iff intro!: keeps_raise keeps_return)
qed

lemma kept_more_cold:
  assumes "held base j w" "hget (lw_cold w) f = None" "base (u_canonical (e_uri (am_entry m))) = Some (am_entry m)"
  shows "held base j (w\<lparr>lw_cold := hput f m (lw_cold w)\<rparr>)"
proof -
  have old: "hget (hput f m (lw_cold w)) g = Some m'" if "hget (lw_cold w) g = Some m'" for g m'
    using that assms(2) by (auto simp: hm_simps)
  then have more: "archived j' (w\<lparr>lw_cold := hput f m (lw_cold w)\<rparr>)" if "archived j' w" for j'
    using that by (fastforce simp: archived_def)
  have "safe base (w\<lparr>lw_cold := hput f m (lw_cold w)\<rparr>) u" if "safe base w u" for u
    using that old by (auto simp: safe_def filed_def)
  with more assms(1,3) show ?thesis by (auto simp: kept_def hm_simps)
qed

lemma put_manifest_held:
  assumes "bytes_tell env"
  shows "keeps (held base j) (\<lambda>w. base (u_canonical (e_uri (am_entry m))) = Some (am_entry m)) (put_manifest env key m)
    (\<lambda>_ w. hget (lw_cold w) (lx_file_name env key) = Some m)"
  unfolding put_manifest_def
proof (rule access_held)
  fix w r w' assume pre: "held base j w" "base (u_canonical (e_uri (am_entry m))) = Some (am_entry m)"
    and run: "(case lx_manifest_bytes env m of
         Inl e \<Rightarrow> (Inl e, w)
       | Inr bytes \<Rightarrow>
           (case hget (lw_cold w) (lx_file_name env key) of
              None \<Rightarrow> (Inr (), w\<lparr>lw_cold := hput (lx_file_name env key) m (lw_cold w)\<rparr>)
            | Some old \<Rightarrow>
                (if lx_manifest_bytes env old = Inr bytes then (Inr (), w)
                 else (Inl (VersionConflict (''cold manifest key collision: '' @ key)), w)))) = (r, w')"
  show "held base j w' \<and> (\<forall>x. r = Inr x \<longrightarrow> hget (lw_cold w') (lx_file_name env key) = Some m)"
    using run pre kept_more_cold [OF pre(1) _ pre(2)] assms
    by (auto simp: hm_simps bytes_tell_def split: sum.splits option.splits if_splits)
qed simp

lemma get_manifest_held:
  "keeps (held base j) always (get_manifest env key) (\<lambda>m w. hget (lw_cold w) (lx_file_name env key) = Some m
     \<and> base (u_canonical (e_uri (am_entry m))) = Some (am_entry m))"
  unfolding get_manifest_def
  by (rule access_held) (auto split: option.splits simp: kept_def)

lemma delete_held:
  "keeps (held base j) (\<lambda>_. ck_manifest (lj_checkpoint j)) (call env (po_delete (lx_ports env) (lj_uri j)))
     (\<lambda>_. always)"
  unfolding call_def
proof (rule access_held)
  fix w r w' assume pre: "held base j w" "ck_manifest (lj_checkpoint j)"
    and run: "(let (r, h) = po_delete (lx_ports env) (lj_uri j) (lw_hot w) in (r, w\<lparr>lw_hot := h\<rparr>)) = (r, w')"
  obtain q h where del: "po_delete (lx_ports env) (lj_uri j) (lw_hot w) = (q, h)" by force
  have "sound (lw_hot w)" using pre by (simp add: kept_def)
  note effect = delete_entry [OF this del]
  obtain m where m: "hget (lw_cold w) (lx_file_name env (lj_key j)) = Some m" "e_uri (am_entry m) = lj_uri j"
    using pre by (auto simp: archived_def)
  with pre have "base (u_canonical (lj_uri j)) = Some (am_entry m)" unfolding kept_def by metis
  with m(1) have "filed w (base (u_canonical (lj_uri j)))" by (auto simp: filed_def)
  with effect pre have "safe base (w\<lparr>lw_hot := h\<rparr>) u" for u
    by (intro safe_change) (auto simp: kept_def split: if_splits)
  with effect pre have "held base j (w\<lparr>lw_hot := h\<rparr>)" by (auto simp: kept_def)
  with run del show "held base j w' \<and> (\<forall>x. r = Inr x \<longrightarrow> True)" by auto
qed simp

lemma write_held:
  "keeps (held base j) (\<lambda>_. base (u_canonical (e_uri e)) = Some e) (call env (po_write (lx_ports env) e)) (\<lambda>_. always)"
  unfolding call_def
proof (rule access_held)
  fix w r w' assume pre: "held base j w" "base (u_canonical (e_uri e)) = Some e"
    and run: "(let (r, h) = po_write (lx_ports env) e (lw_hot w) in (r, w\<lparr>lw_hot := h\<rparr>)) = (r, w')"
  obtain q h where wr: "po_write (lx_ports env) e (lw_hot w) = (q, h)" by force
  have "sound (lw_hot w)" using pre by (simp add: kept_def)
  note effect = write_entry [OF this wr]
  with pre have "safe base (w\<lparr>lw_hot := h\<rparr>) u" for u
    by (intro safe_change) (auto simp: kept_def split: if_splits)
  with effect pre have "held base j (w\<lparr>lw_hot := h\<rparr>)" by (auto simp: kept_def)
  with run wr show "held base j w' \<and> (\<forall>x. r = Inr x \<longrightarrow> True)" by auto
qed simp

section \<open>Phases\<close>

lemma on_world_task:
  assumes "\<And>j. keeps (held base j) (\<lambda>w. P (j, w)) m (\<lambda>x w. Q x (j, w))"
  shows "keeps (kept_task base) P (on_world m) Q"
proof (rule keepsI)
  fix s r s' assume pre: "kept_task base s" "P s" and run: "on_world m s = (r, s')"
  obtain w' where m: "m (snd s) = (r, w')" and s': "s' = (fst s, w')"
    using run by (auto simp: on_world_def split: prod.splits)
  from keeps_elim [OF assms [of "fst s"] _ _ m] pre show "kept_task base s' \<and> (\<forall>x. r = Returns x \<longrightarrow> Q x s')"
    by (simp add: kept_task_def s')
qed

lemma set_job_task:
  "(\<And>s. kept_task base s \<Longrightarrow> P s \<Longrightarrow> archived (g (fst s)) (snd s) \<and> Q () (g (fst s), snd s)) \<Longrightarrow>
   keeps (kept_task base) P (set_job g) Q"
  by (auto simp: keeps_def set_job_def kept_task_def)

lemma the_job_task: "keeps (kept_task base) always the_job (\<lambda>j s. fst s = j)"
  by (auto simp: keeps_def the_job_def)

lemma update_task:
  assumes "\<And>j n. R j \<Longrightarrow> R (j\<lparr>lj_revision := n\<rparr>)"
  shows "keeps (kept_task base) (\<lambda>s. R (fst s)) (journal_update env) (\<lambda>_ s. R (fst s))"
proof (rule keepsI)
  fix s r s' assume pre: "kept_task base s" "R (fst s)" and run: "journal_update env s = (r, s')"
  obtain j w where s: "s = (j, w)" by force
  let ?j = "j\<lparr>lj_revision := lj_revision j + 1\<rparr>" and ?w = "w\<lparr>lw_tick := Suc (lw_tick w)\<rparr>"
  have j: "archived ?j w'" if "archived j w'" for w' using that by (simp add: archived_def)
  have "kept base (?w\<lparr>lw_journal := hput (lj_key j) ?j (lw_journal w)\<rparr>)"
  proof -
    have "archived x (?w\<lparr>lw_journal := jobs\<rparr>) = archived x w"
      "safe base (?w\<lparr>lw_journal := jobs\<rparr>) u = safe base w u" for x jobs u
      by (simp_all add: archived_def safe_def filed_def)
    then show ?thesis using pre s j [of w] by (auto simp: kept_task_def kept_def hm_simps)
  qed
  moreover have "archived ?j (?w\<lparr>lw_journal := jobs\<rparr>) = archived j w" for jobs by (simp add: archived_def)
  ultimately show "kept_task base s' \<and> (\<forall>x. r = Returns x \<longrightarrow> R (fst s'))"
    using run pre assms [of j] j
    by (auto simp: journal_update_def transact_def Let_def update_tx_def s kept_task_def
        split: fault.splits option.splits if_splits)
qed

lemma held_frame: "keeps I P m Q \<Longrightarrow> (C \<Longrightarrow> \<forall>s. P s) \<Longrightarrow> keeps I (\<lambda>_. C) m (\<lambda>x s. C \<and> Q x s)"
  unfolding keeps_def by blast

text \<open>A fact about the job outlasts calls that leave the content alone.\<close>

lemma world_task:
  assumes "\<And>j. keeps (held base j) always m (\<lambda>_. always)"
  shows "keeps (kept_task base) (\<lambda>s. C (fst s)) (on_world m) (\<lambda>_ s. C (fst s))"
  by (rule on_world_task) (rule keeps_weaken [OF held_frame [OF assms]]; simp)

lemmas each_held = keeps_each [where P = always]

lemma keeps_const: "(A \<Longrightarrow> keeps I P m Q) \<Longrightarrow> keeps I (\<lambda>s. P s \<and> A) m Q"
  by (simp add: keeps_def)

lemma job_chain:
  "keeps (kept_task base) (\<lambda>s. C (fst s)) m (\<lambda>_ s. C (fst s)) \<Longrightarrow>
   (\<And>x. keeps (kept_task base) (\<lambda>s. C (fst s)) (f x) Q) \<Longrightarrow>
   keeps (kept_task base) (\<lambda>s. C (fst s)) (run_then m f) Q"
  by (rule keeps_then)

lemma checkpoint_task:
  assumes "\<And>j. C j \<Longrightarrow> ck_manifest (f (lj_checkpoint j)) = ck_manifest (lj_checkpoint j)"
    and "\<And>j. C j \<Longrightarrow> C (j\<lparr>lj_checkpoint := f (lj_checkpoint j)\<rparr>)" "\<And>j n. C j \<Longrightarrow> C (j\<lparr>lj_revision := n\<rparr>)"
  shows "keeps (kept_task base) (\<lambda>s. C (fst s)) (checkpoint env f) (\<lambda>_ s. C (fst s))"
  unfolding checkpoint_def
proof (rule job_chain)
  show "keeps (kept_task base) (\<lambda>s. C (fst s)) (set_job (\<lambda>j. j\<lparr>lj_checkpoint := f (lj_checkpoint j)\<rparr>)) (\<lambda>_ s. C (fst s))"
    by (rule set_job_task) (simp add: assms archived_def kept_task_def)
  show "keeps (kept_task base) (\<lambda>s. C (fst s)) (journal_update env) (\<lambda>_ s. C (fst s))"
    by (rule update_task) (rule assms(3))
qed

lemma manifest_written_task:
  assumes "e_uri (am_entry m) = lj_uri job"
  shows "keeps (kept_task base)
    (\<lambda>s. fst s = job \<and> hget (lw_cold (snd s)) (lx_file_name env (lj_key job)) = Some m)
    (checkpoint env (\<lambda>c. c\<lparr>ck_manifest := True\<rparr>)) (\<lambda>_ s. ck_manifest (lj_checkpoint (fst s)))"
  unfolding checkpoint_def
proof (rule keeps_then [where R = "\<lambda>_ s. ck_manifest (lj_checkpoint (fst s))"])
  show "keeps (kept_task base)
      (\<lambda>s. fst s = job \<and> hget (lw_cold (snd s)) (lx_file_name env (lj_key job)) = Some m)
      (set_job (\<lambda>j. j\<lparr>lj_checkpoint := (lj_checkpoint j)\<lparr>ck_manifest := True\<rparr>\<rparr>))
      (\<lambda>_ s. ck_manifest (lj_checkpoint (fst s)))"
    by (rule set_job_task) (use assms in \<open>simp add: archived_def\<close>)
  show "keeps (kept_task base) (\<lambda>s. ck_manifest (lj_checkpoint (fst s))) (journal_update env)
      (\<lambda>_ s. ck_manifest (lj_checkpoint (fst s)))"
    by (rule update_task) simp
qed

lemma read_task:
  "keeps (kept_task base) (\<lambda>s. fst s = job) (on_world (read_live env u))
     (\<lambda>e s. fst s = job \<and> (e_uri e = u \<and> base (u_canonical u) = Some e))"
  by (rule on_world_task) (rule keeps_weaken [OF held_frame [OF read_live_held]]; simp)

lemma put_task:
  assumes "bytes_tell env" "base (u_canonical (e_uri (am_entry m))) = Some (am_entry m)"
  shows "keeps (kept_task base) (\<lambda>s. fst s = job) (on_world (put_manifest env key m))
    (\<lambda>_ s. fst s = job \<and> hget (lw_cold (snd s)) (lx_file_name env key) = Some m)"
  by (rule on_world_task) (rule keeps_weaken [OF held_frame [OF put_manifest_held [OF assms(1)]]];
    simp add: assms(2))

lemma fetch_held:
  "keeps (held base j) always (run_each (\<lambda>b. run_then (call env (po_get_blob (lx_ports env) b))
     (\<lambda>bytes. run_return (b, bytes))) bs) (\<lambda>_. always)"
  by (rule each_held, rule keeps_then [OF call_held [OF get_blob_frame]]) (auto intro: keeps_return)

lemma manifest_task:
  assumes "bytes_tell env"
  shows "keeps (kept_task base) always (phase_manifest env) (\<lambda>_ s. ck_manifest (lj_checkpoint (fst s)))"
  unfolding phase_manifest_def
proof (rule keeps_then [OF the_job_task])
  fix job
  have put: "keeps (kept_task base) (\<lambda>s. fst s = job)
      (run_then (on_world (put_manifest env (lj_key job) m)) (\<lambda>_. checkpoint env (\<lambda>c. c\<lparr>ck_manifest := True\<rparr>)))
      (\<lambda>_ s. ck_manifest (lj_checkpoint (fst s)))"
    if "e_uri (am_entry m) = lj_uri job" "base (u_canonical (e_uri (am_entry m))) = Some (am_entry m)" for m
    by (rule keeps_then [OF put_task manifest_written_task]) (use assms that in auto)
  note world = world_task [where C = "\<lambda>j. j = job"]
  show "keeps (kept_task base) (\<lambda>s. fst s = job)
      (if ck_manifest (lj_checkpoint job) then run_return ()
       else
         run_then (on_world (read_live env (lj_uri job))) (\<lambda>entry.
         run_then (on_world (run_each (\<lambda>b. run_then (call env (po_get_blob (lx_ports env) b))
                     (\<lambda>bytes. run_return (b, bytes))) (payload_blobs (e_payload entry)))) (\<lambda>blobs.
         run_then (on_world (call env (po_edges_for (lx_ports env) (lj_uri job)))) (\<lambda>edges.
         run_then (on_world (call env (po_get_point (lx_ports env) (lx_collection env) (lj_uri job)))) (\<lambda>point.
         run_then (on_world (clock env)) (\<lambda>now.
         run_then (on_world (put_manifest env (lj_key job)
                     \<lparr>am_job_id = lj_id job, am_entry = entry, am_blobs = blobs, am_edges = edges,
                      am_vector = point, am_created_at = now\<rparr>)) (\<lambda>_.
         checkpoint env (\<lambda>c. c\<lparr>ck_manifest := True\<rparr>))))))))
      (\<lambda>_ s. ck_manifest (lj_checkpoint (fst s)))"
  proof (cases "ck_manifest (lj_checkpoint job)")
    case False
    then show ?thesis
      by (simp only: if_False)
        (intro keeps_then [OF read_task] keeps_const job_chain [where C = "\<lambda>j. j = job"] put world
          fetch_held calls_held clock_held; simp)
  qed (simp add: keeps_def run_return_def)
qed

section \<open>The executor\<close>

abbreviation past_manifest :: "lifecycle_job \<Rightarrow> bool" where
  "past_manifest j \<equiv> ck_manifest (lj_checkpoint j)"

lemma phase_task:
  assumes "\<And>job. past_manifest job \<Longrightarrow> keeps (kept_task base) (\<lambda>s. fst s = job) (m job) (\<lambda>_ s. past_manifest (fst s))"
  shows "keeps (kept_task base) (\<lambda>s. past_manifest (fst s))
    (run_then the_job (\<lambda>job. if d job then run_return () else m job)) (\<lambda>_ s. past_manifest (fst s))"
proof (rule keeps_then [where R = "\<lambda>job s. fst s = job \<and> past_manifest job"])
  show "keeps (kept_task base) (\<lambda>s. past_manifest (fst s)) the_job (\<lambda>job s. fst s = job \<and> past_manifest job)"
    by (auto simp: keeps_def the_job_def)
next
  fix job
  show "keeps (kept_task base) (\<lambda>s. fst s = job \<and> past_manifest job) (if d job then run_return () else m job)
      (\<lambda>_ s. past_manifest (fst s))"
    using assms [of job] by (intro keeps_const) (auto intro: keeps_return)
qed

lemma world_then:
  assumes "\<And>j. keeps (held base j) always m (\<lambda>_. always)"
    and "\<And>x. keeps (kept_task base) (\<lambda>s. fst s = job) (f x) Q"
  shows "keeps (kept_task base) (\<lambda>s. fst s = job) (run_then (on_world m) f) Q"
  by (rule job_chain [where C = "\<lambda>j. j = job"], rule world_task [OF assms(1)]) (rule assms(2))

lemma past_task:
  "past_manifest job \<Longrightarrow> (\<And>c. ck_manifest (f c) = ck_manifest c) \<Longrightarrow>
   keeps (kept_task base) (\<lambda>s. fst s = job) (checkpoint env f) (\<lambda>_ s. past_manifest (fst s))"
  by (rule keeps_weaken [OF checkpoint_task [where C = past_manifest and f = f]]) simp_all

lemma manifest_always: "keeps (held base j) always (get_manifest env key) (\<lambda>_. always)"
  by (rule keeps_weaken [OF get_manifest_held]) simp_all

lemma phases_task:
  assumes "bytes_tell env"
  shows "keeps (kept_task base) always (execute_phases env) (\<lambda>_. always)"
proof -
  have vector: "keeps (kept_task base) (\<lambda>s. past_manifest (fst s)) (phase_vector env) (\<lambda>_ s. past_manifest (fst s))"
    unfolding phase_vector_def
    by (intro phase_task world_then past_task call_held [OF delete_point_frame]) simp_all
  have graph: "keeps (kept_task base) (\<lambda>s. past_manifest (fst s)) (phase_graph env) (\<lambda>_ s. past_manifest (fst s))"
    unfolding phase_graph_def
    by (intro phase_task world_then past_task manifest_always each_held)
      (auto split: prod.split intro: call_held [OF remove_edge_frame])
  have blobs: "keeps (kept_task base) (\<lambda>s. past_manifest (fst s)) (phase_blobs env) (\<lambda>_ s. past_manifest (fst s))"
    unfolding phase_blobs_def
    by (intro phase_task world_then past_task manifest_always each_held)
      (auto split: prod.split intro: call_held [OF delete_blob_frame])
  have del: "keeps (kept_task base) (\<lambda>s. fst s = job) (on_world (call env (po_delete (lx_ports env) (lj_uri job))))
      (\<lambda>_ s. fst s = job)" if "past_manifest job" for job
  proof (rule on_world_task)
    fix j
    show "keeps (held base j) (\<lambda>w. fst (j, w) = job) (call env (po_delete (lx_ports env) (lj_uri job)))
        (\<lambda>x w. fst (j, w) = job)"
    proof (cases "j = job")
      case True
      show ?thesis unfolding True by (rule keeps_weaken [OF delete_held]) (simp_all add: that)
    qed (simp add: keeps_def)
  qed
  have content: "keeps (kept_task base) (\<lambda>s. past_manifest (fst s)) (phase_content env) (\<lambda>_ s. past_manifest (fst s))"
    unfolding phase_content_def
    by (intro phase_task keeps_then [OF del] past_task) simp_all
  show ?thesis
    unfolding execute_phases_def
    by (rule keeps_then [OF manifest_task [OF assms]], rule keeps_then [OF vector], rule keeps_then [OF graph],
        rule keeps_then [OF content], rule keeps_weaken [OF blobs]) simp_all
qed

lemma set_booked_task: "bookkeeping g \<Longrightarrow> keeps (kept_task base) always (set_job g) (\<lambda>_. always)"
  by (rule set_job_task) (auto simp: archived_def kept_task_def bookkeeping_def)

lemma update_always: "keeps (kept_task base) always (journal_update env) (\<lambda>_. always)"
  using update_task [of always base] by simp

section \<open>Restoring\<close>

lemma restored_task:
  assumes "keeps (kept_task base) always m (\<lambda>_. always)"
  shows "keeps (kept_task base) always (unless_restored d m) (\<lambda>_. always)"
  unfolding unless_restored_def
proof (rule always_then)
  show "keeps (kept_task base) always the_job (\<lambda>_. always)" by (rule keeps_weaken [OF the_job_task]) simp_all
qed (simp add: assms keeps_return)

lemma restore_checkpoint_task: "keeps (kept_task base) always (restore_checkpoint env f) (\<lambda>_. always)"
  unfolding restore_checkpoint_def by (intro always_then set_booked_task update_always) auto

lemma world_always:
  "(\<And>j. keeps (held base j) always m (\<lambda>_. always)) \<Longrightarrow> keeps (kept_task base) always (on_world m) (\<lambda>_. always)"
  by (rule on_world_task)

lemma restore_content_task:
  assumes "base (u_canonical (e_uri (am_entry m))) = Some (am_entry m)"
  shows "keeps (kept_task base) always (restore_content env m) (\<lambda>_. always)"
proof -
  have read: "keeps (kept_task base) always (run_try (on_world (read_live env u))) (\<lambda>_. always)" for u
    by (rule keeps_weaken [OF keeps_try [OF world_always]]) (auto intro: keeps_weaken [OF read_live_held])
  have wr: "keeps (kept_task base) always (on_world (call env (po_write (lx_ports env) (am_entry m)))) (\<lambda>_. always)"
    by (rule world_always) (rule keeps_weaken [OF write_held], simp_all add: assms)
  show ?thesis
    unfolding restore_content_def
    by (intro restored_task always_then read restore_checkpoint_task)
      (auto split: sum.split context_error.split intro!: keeps_raise keeps_return always_then wr)
qed

lemma restore_keeps:
  assumes "base (u_canonical (e_uri (am_entry m))) = Some (am_entry m)"
  shows "keeps (kept_task base) always (restore_task env m) (\<lambda>_. always)"
proof -
  have blobs: "keeps (held base j) always (run_each (\<lambda>(r, bytes).
            run_then (call env (po_put_blob (lx_ports env) bytes (br_mime_type r))) (\<lambda>written.
              if br_hash written \<noteq> br_hash r then run_raise (Storage ''restored blob hash mismatch'')
              else run_return ())) xs) (\<lambda>_. always)" for j xs
    by (rule each_held)
      (auto split: prod.split intro!: always_then call_held [OF put_blob_frame] keeps_raise keeps_return)
  have edges: "keeps (held base j) always (run_each (\<lambda>(from, to, kind).
      call env (po_add_edge (lx_ports env) from to kind)) xs) (\<lambda>_. always)" for j xs
    by (rule each_held) (auto split: prod.split intro: call_held [OF add_edge_frame])
  have point: "keeps (kept_task base) always (case v of
             Some p \<Rightarrow> on_world (call env (po_upsert_point (lx_ports env) (lx_collection env) p))
           | None \<Rightarrow> run_return ()) (\<lambda>_. always)" for v
    by (cases v) (auto intro: keeps_return world_always call_held [OF upsert_frame])
  have content: "keeps (kept_task base) always (restore_content env m) (\<lambda>_. always)"
    by (rule restore_content_task) (rule assms)
  show ?thesis
    unfolding restore_task_def restore_blobs_def restore_graph_def restore_vector_def
    by (intro always_then restored_task restore_checkpoint_task content world_always blobs edges point)
qed

section \<open>Histories keep every entry\<close>

sublocale archiving: job_system env "stores base" archived "\<lambda>m. base (u_canonical (e_uri (am_entry m))) = Some (am_entry m)"
  for base
proof unfold_locales
  fix w g j n jobs fresh now uri operation
  show "stores base (w\<lparr>lw_journal := jobs\<rparr>) = stores base w" "stores base (w\<lparr>lw_tick := n\<rparr>) = stores base w"
    by (simp_all add: stores_def safe_def filed_def)
  show "stores base w \<Longrightarrow> stores base (w\<lparr>lw_reads := Suc (lw_reads w)\<rparr>)"
    by (simp add: stores_def safe_def filed_def)
  show "archived (new_lifecycle_job fresh now uri operation) w"
    by (simp add: archived_def new_lifecycle_job_def no_checkpoint_def)
  show "bookkeeping g \<Longrightarrow> archived j w \<Longrightarrow> archived (g j) w"
    by (simp add: archived_def bookkeeping_def)
next
  show "keeps (kept_task base) always (execute_phases env)
      (\<lambda>_ s. \<forall>e. archived ((fst s)\<lparr>lj_state := LSucceeded, lj_last_error := e\<rparr>) (snd s))"
  proof (cases "bytes_tell env")
    case True
    show ?thesis
      by (rule keepsI, frule keeps_elim [OF phases_task [OF True]]) (auto simp: kept_task_def archived_def)
  qed (simp add: keeps_def kept_task_def kept_def)
qed (auto simp: archived_def stores_def intro: restore_keeps)

text \<open>The store of the executor before anything was submitted.\<close>

lemma nothing_lost_from:
  assumes "bytes_tell env" "sound (lw_hot w)" "lw_journal w = []" "lw_cold w = []" "entry_at (lw_hot w) u = Some e"
  shows "(let w' = fold (lifecycle_step env) calls w in
      entry_at (lw_hot w') u = Some e
      \<or> entry_at (lw_hot w') u = None \<and> (\<exists>f m. hget (lw_cold w') f = Some m \<and> am_entry m = e))"
proof -
  have "kept (entry_at (lw_hot w)) w" using assms by (simp add: kept_def safe_def)
  then have "kept (entry_at (lw_hot w)) (fold (lifecycle_step env) calls w)" by (rule archiving.histories)
  then have "safe (entry_at (lw_hot w)) (fold (lifecycle_step env) calls w) u" by (simp add: kept_def)
  with assms(5) show ?thesis by (auto simp: Let_def safe_def filed_def)
qed

end

section \<open>The ports of the tests\<close>

definition ports_sound :: "memory_ports \<Rightarrow> bool" where
  "ports_sound h \<longleftrightarrow> hm_wf (mp_entries h)
     \<and> (\<forall>k e. hget (mp_entries h) k = Some e \<longrightarrow> u_canonical (e_uri e) = k)"

definition mem_entry_at :: "memory_ports \<Rightarrow> string \<Rightarrow> context_entry option" where
  "mem_entry_at h = hget (mp_entries h)"

interpretation mem: content_ports "env\<lparr>lx_ports := memory_port_calls hash\<rparr>" ports_sound mem_entry_at
  for env hash
proof unfold_locales
  show "ports_sound h \<Longrightarrow> po_scan (lx_ports (env\<lparr>lx_ports := memory_port_calls hash\<rparr>)) p page h = (Inr found, h') \<Longrightarrow>
      e \<in> set (pg_items found) \<Longrightarrow> mem_entry_at h (u_canonical (e_uri e)) = Some e" for h p page found h' e
    by (auto simp: memory_port_calls_def mem_scan_def ports_sound_def mem_entry_at_def hget_eq_Some_iff
        dest!: in_set_takeD)
qed (auto simp: memory_port_calls_def mem_scan_def mem_delete_def mem_write_def mem_edges_for_def mem_add_edge_def
    mem_remove_edge_def mem_get_point_def mem_upsert_point_def mem_delete_point_def mem_get_blob_def
    mem_put_blob_def mem_delete_blob_def ports_sound_def mem_entry_at_def hm_simps Let_def hget_hput_fun
    hget_hdel_fun split: option.splits if_splits)

text \<open>C11: whatever accesses fail and wherever the process stops, in any sequence of submissions, passes and
  restores over the memory ports, an entry is either in the content store as it was at the start, or gone
  from it and in an archive manifest, provided nothing else writes meanwhile.\<close>

theorem nothing_lost:
  assumes "bytes_tell env" "lx_ports env = memory_port_calls hash" "ports_sound (lw_hot w)"
    and "lw_journal w = []" "lw_cold w = []" "hget (mp_entries (lw_hot w)) k = Some e"
  shows "(let w' = fold (lifecycle_step env) calls w
    in hget (mp_entries (lw_hot w')) k = Some e
       \<or> hget (mp_entries (lw_hot w')) k = None \<and> (\<exists>f m. hget (lw_cold w') f = Some m \<and> am_entry m = e))"
proof -
  have env: "env\<lparr>lx_ports := memory_port_calls hash\<rparr> = env" using assms(2) by simp
  from mem.nothing_lost_from [of hash env w k e calls] assms show ?thesis by (simp add: env mem_entry_at_def)
qed

text \<open>The process stops after the entry was deleted and before that is recorded.\<close>

lemma nothing_lost_witness:
  "(let w' = fold (lifecycle_step (lifecycle_sample (\<lambda>n. if n = 15 then Stop else Fine)))
      [SubmitJob 1 lifecycle_uri AArchive, RunPending 2] lifecycle_world
    in hget (mp_entries (lw_hot w')) ''uwu://t/a'' = None
       \<and> (\<exists>f m. hget (lw_cold w') f = Some m \<and> am_entry m = lifecycle_entry))"
proof -
  let ?env = "lifecycle_sample (\<lambda>n. if n = 15 then Stop else Fine)"
    and ?calls = "[SubmitJob 1 lifecycle_uri AArchive, RunPending 2]"
  have "hget (mp_entries (lw_hot (fold (lifecycle_step ?env) ?calls lifecycle_world))) ''uwu://t/a'' = None"
    by code_simp
  moreover have "ports_sound (lw_hot lifecycle_world)" "lw_journal lifecycle_world = []" "lw_cold lifecycle_world = []"
    "hget (mp_entries (lw_hot lifecycle_world)) ''uwu://t/a'' = Some lifecycle_entry"
    by (simp_all add: lifecycle_world_def ports_sound_def hm_wf_def hget_def lifecycle_entry_def new_text_def
        lifecycle_uri_def)
  ultimately show ?thesis
    using nothing_lost [OF sample_bytes_tell, of "\<lambda>n. if n = 15 then Stop else Fine" "\<lambda>bytes. bytes" lifecycle_world
        "''uwu://t/a''" lifecycle_entry ?calls]
    by (simp add: Let_def lifecycle_sample_def)
qed

end
