(* ===== verification/Lifecycle_Restoring.thy ===== *)
theory Lifecycle_Restoring
  imports Lifecycle_Facts
begin

text \<open>
  When nothing fails, archiving an entry and restoring it brings back the stores of the tests as they
  were: total rules for runs without faults, and the two ways of an entry through them.
\<close>

section \<open>Runs without faults\<close>

definition yields :: "('s \<Rightarrow> bool) \<Rightarrow> ('s, 'a) run \<Rightarrow> ('a \<Rightarrow> 's \<Rightarrow> bool) \<Rightarrow> bool" where
  "yields P m Q \<longleftrightarrow> (\<forall>s. P s \<longrightarrow> (\<exists>x s'. m s = (Returns x, s') \<and> Q x s'))"

lemma yieldsI: "(\<And>s. P s \<Longrightarrow> \<exists>x s'. m s = (Returns x, s') \<and> Q x s') \<Longrightarrow> yields P m Q"
  by (simp add: yields_def)

lemma yields_elim: "yields P m Q \<Longrightarrow> P s \<Longrightarrow> (\<And>x s'. m s = (Returns x, s') \<Longrightarrow> Q x s' \<Longrightarrow> thesis) \<Longrightarrow> thesis"
  unfolding yields_def by blast

lemma yields_return: "(\<And>s. P s \<Longrightarrow> Q x s) \<Longrightarrow> yields P (run_return x) Q"
  by (simp add: yields_def run_return_def)

lemma yields_then: "yields P m R \<Longrightarrow> (\<And>x. yields (R x) (f x) Q) \<Longrightarrow> yields P (run_then m f) Q"
  by (fastforce simp: yields_def run_then_def)

lemma yields_try: "yields P m Q \<Longrightarrow> yields P (run_try m) (\<lambda>r s. \<exists>x. r = Inr x \<and> Q x s)"
  by (fastforce simp: yields_def run_try_def)

lemma yields_weaken:
  "yields P m R \<Longrightarrow> (\<And>s. P' s \<Longrightarrow> P s) \<Longrightarrow> (\<And>x s. R x s \<Longrightarrow> Q x s) \<Longrightarrow> yields P' m Q"
  unfolding yields_def by blast

lemma yields_given: "(A \<Longrightarrow> yields P m Q) \<Longrightarrow> yields (\<lambda>s. A \<and> P s) m Q"
  by (simp add: yields_def)

lemma yields_some: "(\<And>m. A m \<Longrightarrow> yields (P m) g Q) \<Longrightarrow> yields (\<lambda>s. \<exists>m. A m \<and> P m s) g Q"
  unfolding yields_def by blast

definition fine :: "'h lifecycle_env \<Rightarrow> bool" where
  "fine env \<longleftrightarrow> (\<forall>n. lx_fault env n = Fine)"

text \<open>The stores, the cold store and the journal at rest.\<close>

definition resting :: "'h \<Rightarrow> (string, archive_manifest) hmap \<Rightarrow> journal \<Rightarrow> 'h lworld \<Rightarrow> bool" where
  "resting h c jobs w \<longleftrightarrow> lw_hot w = h \<and> lw_cold w = c \<and> lw_journal w = jobs"

lemma yields_call:
  "fine env \<Longrightarrow> g h = (Inr x, h') \<Longrightarrow>
   yields (resting h c jobs) (call env g) (\<lambda>y w. y = x \<and> resting h' c jobs w)"
  by (auto simp: yields_def call_def access_def fine_def resting_def)

lemma yields_clock: "yields (resting h c jobs) (clock env) (\<lambda>_. resting h c jobs)"
  by (auto simp: yields_def clock_def resting_def)

lemma yields_get:
  "fine env \<Longrightarrow> hget c (lx_file_name env k) = Some m \<Longrightarrow>
   yields (resting h c jobs) (get_manifest env k) (\<lambda>x w. x = m \<and> resting h c jobs w)"
  by (auto simp: yields_def get_manifest_def access_def fine_def resting_def)

lemma yields_put:
  "fine env \<Longrightarrow> hget c (lx_file_name env k) = None \<Longrightarrow> lx_manifest_bytes env m = Inr b \<Longrightarrow>
   yields (resting h c jobs) (put_manifest env k m) (\<lambda>_. resting h (hput (lx_file_name env k) m c) jobs)"
  by (auto simp: yields_def put_manifest_def access_def fine_def resting_def)

lemma yields_every:
  assumes "\<And>a h. a \<in> set xs \<Longrightarrow> yields (resting h c jobs) (g a) (\<lambda>_. resting (step a h) c jobs)"
  shows "yields (resting h c jobs) (run_each g xs) (\<lambda>_. resting (fold step xs h) c jobs)"
  using assms
proof (induction xs arbitrary: h)
  case (Cons a xs)
  note first = yields_then [OF Cons.prems [of a h]] and rest = yields_then [OF Cons.IH [of "step a h"]]
  show ?case
    unfolding run_each.simps by (rule first, simp, rule rest) (auto intro: yields_return Cons.prems)
qed (simp add: yields_return)

lemma yields_each:
  assumes "fine env" "\<And>a h. g a h = (Inr (), step a h)"
  shows "yields (resting h c jobs) (run_each (\<lambda>a. call env (g a)) xs) (\<lambda>_. resting (fold step xs h) c jobs)"
  by (rule yields_every, rule yields_weaken [OF yields_call [OF assms(1) assms(2)]]) simp_all

section \<open>Runs on a job\<close>

text \<open>The journal has the job at the revision that the executor holds.\<close>

definition holding ::
    "'h \<Rightarrow> (string, archive_manifest) hmap \<Rightarrow> (lifecycle_job \<Rightarrow> bool) \<Rightarrow> lifecycle_job \<times> 'h lworld \<Rightarrow> bool" where
  "holding h c F s \<longleftrightarrow> lw_hot (snd s) = h \<and> lw_cold (snd s) = c \<and> F (fst s)
     \<and> (\<exists>j. hget (lw_journal (snd s)) (lj_key (fst s)) = Some j \<and> lj_revision j = lj_revision (fst s))"

lemma yields_world:
  assumes "\<And>jobs. yields (resting h c jobs) m (\<lambda>x w. Q x \<and> resting h' c' jobs w)"
  shows "yields (holding h c F) (on_world m) (\<lambda>x s. Q x \<and> holding h' c' F s)"
proof (rule yieldsI)
  fix s assume s: "holding h c F s"
  then have "resting h c (lw_journal (snd s)) (snd s)" by (simp add: holding_def resting_def)
  with assms obtain x w where "m (snd s) = (Returns x, w)" "Q x" "resting h' c' (lw_journal (snd s)) w"
    by (rule yields_elim) auto
  with s show "\<exists>x s'. on_world m s = (Returns x, s') \<and> Q x \<and> holding h' c' F s'"
    by (simp add: on_world_def holding_def resting_def)
qed

lemmas yields_world' = yields_world [where Q = "\<lambda>_. True", simplified]

lemma yields_set:
  "(\<And>j. F j \<Longrightarrow> F' (g j) \<and> lj_key (g j) = lj_key j \<and> lj_revision (g j) = lj_revision j) \<Longrightarrow>
   yields (holding h c F) (set_job g) (\<lambda>_. holding h c F')"
  by (auto simp: yields_def set_job_def holding_def)

lemma yields_the_job: "yields (holding h c F) the_job (\<lambda>j s. F j \<and> holding h c (\<lambda>x. x = j) s)"
  by (auto simp: yields_def the_job_def holding_def)

lemma yields_update:
  assumes "fine env" "\<And>j n. F j \<Longrightarrow> F (j\<lparr>lj_revision := n\<rparr>)"
  shows "yields (holding h c F) (journal_update env)
    (\<lambda>_ s. hget (lw_journal (snd s)) (lj_key (fst s)) = Some (fst s) \<and> holding h c F s)"
  using assms by (auto simp: yields_def journal_update_def transact_def Let_def fine_def update_tx_def holding_def hm_simps)

lemma yields_audit:
  assumes "\<And>j a. F j \<Longrightarrow> F (j\<lparr>lj_audit := a\<rparr>)"
  shows "yields (holding h c F) (audit_job env msg) (\<lambda>_. holding h c F)"
  unfolding audit_job_def
  by (rule yields_then [OF yields_world' [OF yields_clock]], rule yields_set) (simp add: assms)

text \<open>What the phases look at.\<close>

definition about :: "string \<Rightarrow> context_uri \<Rightarrow> lifecycle_checkpoint \<Rightarrow> lifecycle_checkpoint \<Rightarrow> lifecycle_job \<Rightarrow> bool" where
  "about k u ck rc j \<longleftrightarrow> lj_key j = k \<and> lj_uri j = u \<and> lj_checkpoint j = ck \<and> lj_restore j = rc"

lemma about_revision: "about k u ck rc j \<Longrightarrow> about k u ck rc (j\<lparr>lj_revision := n\<rparr>)"
  by (simp add: about_def)

lemma yields_checkpoint:
  assumes "fine env"
  shows "yields (holding h c (about k u ck rc)) (checkpoint env f) (\<lambda>_. holding h c (about k u (f ck) rc))"
  unfolding checkpoint_def
  by (rule yields_then, rule yields_set [where F' = "about k u (f ck) rc"], simp add: about_def,
      rule yields_weaken [OF yields_update [OF assms]]) (auto simp: about_def)

lemma yields_restored:
  assumes "fine env"
  shows "yields (holding h c (about k u ck rc)) (restore_checkpoint env f) (\<lambda>_. holding h c (about k u ck (f rc)))"
  unfolding restore_checkpoint_def
  by (rule yields_then, rule yields_set [where F' = "about k u ck (f rc)"], simp add: about_def,
      rule yields_weaken [OF yields_update [OF assms]]) (auto simp: about_def)

lemma holding_mono: "holding h c F s \<Longrightarrow> (\<And>j. F j \<Longrightarrow> G j) \<Longrightarrow> holding h c G s"
  by (auto simp: holding_def)

lemma yields_phase:
  assumes "\<And>job. F job \<Longrightarrow> \<not> d job \<and> yields (holding h c (\<lambda>x. x = job)) (g job) Q"
  shows "yields (holding h c F) (run_then the_job (\<lambda>job. if d job then run_return () else g job)) Q"
  by (rule yields_then [OF yields_the_job]) (auto intro!: yields_given simp: assms)

lemma yields_mark:
  assumes "fine env" "about k u ck rc job"
  shows "yields (holding h c (\<lambda>x. x = job)) (checkpoint env f) (\<lambda>_. holding h c (about k u (f ck) rc))"
  by (rule yields_weaken [OF yields_checkpoint [OF assms(1)]]) (auto intro: holding_mono simp: assms(2))

section \<open>The stores of the tests\<close>

text \<open>What archiving needs of the stores: the entry is there and sorts before the addresses that extend
  its own, and the blobs of its payload are stored under their hashes.\<close>

definition archivable :: "(string \<Rightarrow> string) \<Rightarrow> memory_ports \<Rightarrow> context_entry \<Rightarrow> bool" where
  "archivable hash h e \<longleftrightarrow> ports_sound h \<and> mp_fail_vector_deletes h = 0
     \<and> hget (mp_entries h) (u_canonical (e_uri e)) = Some e
     \<and> (\<forall>k e'. hget (mp_entries h) k = Some e' \<longrightarrow> starts_with k (u_canonical (e_uri e)) \<longrightarrow>
          k \<noteq> u_canonical (e_uri e) \<longrightarrow> uri_key (e_uri e) < uri_key (e_uri e'))
     \<and> (\<forall>c k p. hget (mp_vectors h) (c, k) = Some p \<longrightarrow> u_canonical (pt_uri p) = k)
     \<and> (\<forall>b\<in>set (payload_blobs (e_payload e)). \<exists>bytes.
          hget (mp_blobs h) (show_hash (br_hash b)) = Some (b, bytes)
          \<and> br_hash b = ContentHash (hash bytes) \<and> br_size b = length bytes)"

definition blob_bytes :: "memory_ports \<Rightarrow> blob_ref \<Rightarrow> string" where
  "blob_bytes h b = snd (the (hget (mp_blobs h) (show_hash (br_hash b))))"

abbreviation touching :: "context_uri \<Rightarrow> edge \<Rightarrow> bool" where
  "touching u \<equiv> \<lambda>(f, t, _). f = u \<or> t = u"

definition archive_of :: "memory_ports \<Rightarrow> string \<Rightarrow> context_entry \<Rightarrow> archive_manifest \<Rightarrow> bool" where
  "archive_of h coll e m \<longleftrightarrow> am_entry m = e
     \<and> am_blobs m = map (\<lambda>b. (b, blob_bytes h b)) (payload_blobs (e_payload e))
     \<and> am_edges m = filter (touching (e_uri e)) (mp_edges h)
     \<and> am_vector m = hget (mp_vectors h) (coll, u_canonical (e_uri e))"

lemma sort_key_first:
  assumes "e \<in> set xs" "\<And>x. x \<in> set xs \<Longrightarrow> x \<noteq> e \<Longrightarrow> f e < f x"
  shows "take 1 (sort_key f xs) = [e]"
proof (cases "sort_key f xs")
  case (Cons y ys)
  have set: "set (y # ys) = set xs" using arg_cong [OF Cons, of set] by simp
  have "sorted (map f (y # ys))" using sorted_sort_key [of f xs] Cons by simp
  then have "f y \<le> f e" using set assms(1) by auto
  moreover have "y \<in> set xs" using set by auto
  ultimately have "y = e" using assms(2) [of y] by fastforce
  with Cons show ?thesis by simp
next
  case Nil
  with assms(1) set_sort [of f xs] show ?thesis by (metis empty_iff list.set(1))
qed

lemma scan_first:
  assumes "archivable hash h e"
  shows "mem_scan (u_canonical (e_uri e)) (page_request_new 1) h = (Inr \<lparr>pg_items = [e], pg_next_cursor = None\<rparr>, h)"
proof -
  let ?xs = "filter (\<lambda>x. starts_with (u_canonical (e_uri x)) (u_canonical (e_uri e))) (map snd (mp_entries h))"
  have sound: "hm_wf (mp_entries h)" "\<And>k x. hget (mp_entries h) k = Some x \<Longrightarrow> u_canonical (e_uri x) = k"
    using assms by (auto simp: archivable_def ports_sound_def)
  have "take 1 (sort_key (\<lambda>x. uri_key (e_uri x)) ?xs) = [e]"
  proof (rule sort_key_first)
    have "hget (mp_entries h) (u_canonical (e_uri e)) = Some e" using assms by (simp add: archivable_def)
    then have "(u_canonical (e_uri e), e) \<in> set (mp_entries h)" using sound(1) by (simp add: hget_eq_Some_iff)
    then show "e \<in> set ?xs" by (force simp: starts_with_iff)
  next
    fix x assume x: "x \<in> set ?xs" "x \<noteq> e"
    then obtain k where k: "hget (mp_entries h) k = Some x" using sound(1) by (auto simp: hget_eq_Some_iff)
    from sound(2) [OF this] x k assms show "uri_key (e_uri e) < uri_key (e_uri x)"
      unfolding archivable_def by fastforce
  qed
  then show ?thesis by (simp add: mem_scan_def page_request_new_def effective_limit_def MAX_PAGE_SIZE_def)
qed

definition quiet :: "memory_ports lifecycle_env \<Rightarrow> (string \<Rightarrow> string) \<Rightarrow> bool" where
  "quiet env hash \<longleftrightarrow> fine env \<and> lx_ports env = memory_port_calls hash \<and> (\<forall>m. \<exists>b. lx_manifest_bytes env m = Inr b)"

lemma yields_read:
  assumes "quiet env hash" "archivable hash h e"
  shows "yields (resting h c jobs) (read_live env (e_uri e)) (\<lambda>x w. x = e \<and> resting h c jobs w)"
proof -
  have "yields (resting h c jobs) (call env (po_scan (lx_ports env) (u_canonical (e_uri e)) (page_request_new 1)))
      (\<lambda>x w. x = \<lparr>pg_items = [e], pg_next_cursor = None\<rparr> \<and> resting h c jobs w)"
    using assms(1) scan_first [OF assms(2)] by (intro yields_call) (simp_all add: quiet_def memory_port_calls_def)
  then show ?thesis
    unfolding read_live_def by (rule yields_then) (auto intro!: yields_given yields_return)
qed

lemma yields_blobs:
  assumes "quiet env hash" "\<forall>b\<in>set bs. hget (mp_blobs h) (show_hash (br_hash b)) \<noteq> None"
  shows "yields (resting h c jobs) (run_each (\<lambda>b. run_then (call env (po_get_blob (lx_ports env) b))
     (\<lambda>bytes. run_return (b, bytes))) bs) (\<lambda>xs w. xs = map (\<lambda>b. (b, blob_bytes h b)) bs \<and> resting h c jobs w)"
  using assms(2)
proof (induction bs)
  case (Cons b bs)
  have "yields (resting h c jobs) (call env (po_get_blob (lx_ports env) b))
      (\<lambda>x w. x = blob_bytes h b \<and> resting h c jobs w)"
    using assms(1) Cons.prems
    by (intro yields_call) (auto simp: quiet_def memory_port_calls_def mem_get_blob_def blob_bytes_def)
  then have "yields (resting h c jobs) (run_then (call env (po_get_blob (lx_ports env) b))
     (\<lambda>bytes. run_return (b, bytes))) (\<lambda>x w. x = (b, blob_bytes h b) \<and> resting h c jobs w)"
    by (rule yields_then) (auto intro!: yields_given yields_return)
  note first = yields_then [OF this] and rest = yields_then [OF Cons.IH]
  show ?case
    unfolding run_each.simps
    by (rule first, rule yields_given, rule rest) (use Cons.prems in \<open>auto intro!: yields_given yields_return\<close>)
qed (simp add: yields_return)

section \<open>Archiving\<close>

definition drop_point :: "string \<Rightarrow> context_uri \<Rightarrow> memory_ports \<Rightarrow> memory_ports" where
  "drop_point coll u h = h\<lparr>mp_vectors := hdel (coll, u_canonical u) (mp_vectors h)\<rparr>"

definition drop_edge :: "edge \<Rightarrow> memory_ports \<Rightarrow> memory_ports" where
  "drop_edge = (\<lambda>(f, t, _) h. snd (mem_remove_edge f t h))"

definition drop_blob :: "blob_ref \<times> string \<Rightarrow> memory_ports \<Rightarrow> memory_ports" where
  "drop_blob = (\<lambda>(b, _) h. snd (mem_delete_blob b h))"

definition emptied :: "string \<Rightarrow> archive_manifest \<Rightarrow> memory_ports \<Rightarrow> memory_ports" where
  "emptied coll m h = fold drop_blob (am_blobs m)
     (snd (mem_delete (e_uri (am_entry m)) (fold drop_edge (am_edges m) (drop_point coll (e_uri (am_entry m)) h))))"

definition all_checked :: lifecycle_checkpoint where
  "all_checked = \<lparr>ck_manifest = True, ck_vector = True, ck_graph = True, ck_content = True, ck_blobs = True\<rparr>"

lemma yields_manifest:
  assumes env: "quiet env hash" and h: "archivable hash h e" and c: "hget c (lx_file_name env k) = None"
  shows "yields (holding h c (about k (e_uri e) no_checkpoint rc)) (phase_manifest env)
    (\<lambda>_ s. \<exists>m. archive_of h (lx_collection env) e m
       \<and> holding h (hput (lx_file_name env k) m c) (about k (e_uri e) (no_checkpoint\<lparr>ck_manifest := True\<rparr>) rc) s)"
  unfolding phase_manifest_def
proof (rule yields_phase, intro conjI)
  fix job assume job: "about k (e_uri e) no_checkpoint rc job"
  then show "\<not> ck_manifest (lj_checkpoint job)" by (simp add: about_def no_checkpoint_def)
  have key: "lj_key job = k" and uri: "lj_uri job = e_uri e" using job by (simp_all add: about_def)
  have fine: "fine env" using env by (simp add: quiet_def)
  let ?Q = "\<lambda>_ s. \<exists>m. archive_of h (lx_collection env) e m
       \<and> holding h (hput (lx_file_name env k) m c) (about k (e_uri e) (no_checkpoint\<lparr>ck_manifest := True\<rparr>) rc) s"
  have last: "yields (holding h c (\<lambda>x. x = job)) (run_then (on_world (put_manifest env k m)) (\<lambda>_.
      checkpoint env (\<lambda>c. c\<lparr>ck_manifest := True\<rparr>))) ?Q" if "archive_of h (lx_collection env) e m" for m
  proof -
    obtain b where "lx_manifest_bytes env m = Inr b" using env unfolding quiet_def by blast
    note put = yields_world' [OF yields_put [OF fine c this]]
    show ?thesis
      by (rule yields_then [OF put], rule yields_weaken [OF yields_mark [OF fine job]]) (use that in auto)
  qed
  have edges: "yields (resting h c jobs) (call env (po_edges_for (lx_ports env) (e_uri e)))
      (\<lambda>x w. x = filter (touching (e_uri e)) (mp_edges h) \<and> resting h c jobs w)" for jobs
    using env by (intro yields_call) (simp_all add: quiet_def memory_port_calls_def mem_edges_for_def)
  have point: "yields (resting h c jobs) (call env (po_get_point (lx_ports env) (lx_collection env) (e_uri e)))
      (\<lambda>x w. x = hget (mp_vectors h) (lx_collection env, u_canonical (e_uri e)) \<and> resting h c jobs w)" for jobs
    using env by (intro yields_call) (simp_all add: quiet_def memory_port_calls_def mem_get_point_def)
  have blobs: "\<forall>b\<in>set (payload_blobs (e_payload e)). hget (mp_blobs h) (show_hash (br_hash b)) \<noteq> None"
    using h by (fastforce simp: archivable_def)
  show "yields (holding h c (\<lambda>x. x = job))
     (run_then (on_world (read_live env (lj_uri job))) (\<lambda>entry.
         run_then (on_world (run_each (\<lambda>b. run_then (call env (po_get_blob (lx_ports env) b))
                     (\<lambda>bytes. run_return (b, bytes))) (payload_blobs (e_payload entry)))) (\<lambda>blobs.
         run_then (on_world (call env (po_edges_for (lx_ports env) (lj_uri job)))) (\<lambda>edges.
         run_then (on_world (call env (po_get_point (lx_ports env) (lx_collection env) (lj_uri job)))) (\<lambda>point.
         run_then (on_world (clock env)) (\<lambda>now.
         run_then (on_world (put_manifest env (lj_key job)
                     \<lparr>am_job_id = lj_id job, am_entry = entry, am_blobs = blobs, am_edges = edges,
                      am_vector = point, am_created_at = now\<rparr>)) (\<lambda>_.
         checkpoint env (\<lambda>c. c\<lparr>ck_manifest := True\<rparr>)))))))) ?Q"
    unfolding key uri
    by (rule yields_then [OF yields_world [OF yields_read [OF env h]]], rule yields_given, simp only:,
        rule yields_then [OF yields_world [OF yields_blobs [OF env blobs]]], rule yields_given, simp only:,
        rule yields_then [OF yields_world [OF edges]], rule yields_given,
        rule yields_then [OF yields_world [OF point]], rule yields_given,
        rule yields_then [OF yields_world' [OF yields_clock]], rule last) (simp add: archive_of_def)
qed

text \<open>A phase that does one thing, and one that reads the manifest first.\<close>

lemma yields_single:
  assumes "fine env" "\<And>job. about k u ck rc job \<Longrightarrow> \<not> d job"
    and "\<And>job jobs. about k u ck rc job \<Longrightarrow> yields (resting h c jobs) (m job) (\<lambda>_. resting h' c jobs)"
  shows "yields (holding h c (about k u ck rc))
    (run_then the_job (\<lambda>job. if d job then run_return () else run_then (on_world (m job)) (\<lambda>_. checkpoint env f)))
    (\<lambda>_. holding h' c (about k u (f ck) rc))"
proof (rule yields_phase, intro conjI)
  fix job assume job: "about k u ck rc job"
  then show "\<not> d job" by (rule assms(2))
  note effect = yields_world' [OF assms(3) [OF job]]
  show "yields (holding h c (\<lambda>x. x = job)) (run_then (on_world (m job)) (\<lambda>_. checkpoint env f))
      (\<lambda>_. holding h' c (about k u (f ck) rc))"
    by (rule yields_then [OF effect]) (rule yields_mark [OF assms(1) job])
qed

lemma yields_listed:
  assumes "fine env" "hget c (lx_file_name env k) = Some m" "\<And>job. about k u ck rc job \<Longrightarrow> \<not> d job"
    and "\<And>jobs. yields (resting h c jobs) (g m) (\<lambda>_. resting h' c jobs)"
  shows "yields (holding h c (about k u ck rc))
    (run_then the_job (\<lambda>job. if d job then run_return () else
       run_then (on_world (get_manifest env (lj_key job))) (\<lambda>m. run_then (on_world (g m)) (\<lambda>_. checkpoint env f))))
    (\<lambda>_. holding h' c (about k u (f ck) rc))"
proof (rule yields_phase, intro conjI)
  fix job assume job: "about k u ck rc job"
  then show "\<not> d job" by (rule assms(3))
  have key: "lj_key job = k" using job by (simp add: about_def)
  note effect = yields_world' [OF assms(4)]
  show "yields (holding h c (\<lambda>x. x = job)) (run_then (on_world (get_manifest env (lj_key job)))
      (\<lambda>m. run_then (on_world (g m)) (\<lambda>_. checkpoint env f))) (\<lambda>_. holding h' c (about k u (f ck) rc))"
    unfolding key
    by (rule yields_then [OF yields_world [OF yields_get [OF assms(1,2)]]], rule yields_given, simp only:,
        rule yields_then [OF effect]) (rule yields_mark [OF assms(1) job])
qed

lemma yields_archive:
  assumes env: "quiet env hash" and h: "archivable hash h e" and c: "hget c (lx_file_name env k) = None"
  shows "yields (holding h c (about k (e_uri e) no_checkpoint rc)) (execute_phases env)
    (\<lambda>_ s. \<exists>m. archive_of h (lx_collection env) e m
       \<and> holding (emptied (lx_collection env) m h) (hput (lx_file_name env k) m c) (about k (e_uri e) all_checked rc) s)"
  unfolding execute_phases_def
proof (rule yields_then [OF yields_manifest [OF env h c]], rule yields_some)
  fix m assume m: "archive_of h (lx_collection env) e m"
  have fine: "fine env" and ports: "lx_ports env = memory_port_calls hash" using env by (simp_all add: quiet_def)
  let ?c = "hput (lx_file_name env k) m c" and ?u = "e_uri e" and ?coll = "lx_collection env"
  let ?h1 = "drop_point ?coll ?u h"
  let ?h2 = "fold drop_edge (am_edges m) ?h1"
  let ?h3 = "snd (mem_delete ?u ?h2)"
  let ?h4 = "fold drop_blob (am_blobs m) ?h3"
  have stored: "hget ?c (lx_file_name env k) = Some m" by (simp add: hm_simps)
  have counter: "mp_fail_vector_deletes h = 0" using h by (simp add: archivable_def)
  define ck where "ck = no_checkpoint\<lparr>ck_manifest := True\<rparr>"
  note about = about_def ck_def no_checkpoint_def
  have vector: "yields (holding h ?c (about k ?u ck rc)) (phase_vector env)
      (\<lambda>_. holding ?h1 ?c (about k ?u (ck\<lparr>ck_vector := True\<rparr>) rc))"
    unfolding phase_vector_def
    by (rule yields_single [OF fine], simp add: about,
        rule yields_weaken [OF yields_call [OF fine, where x = "()" and h' = ?h1]])
      (use counter in \<open>simp_all add: ports memory_port_calls_def mem_delete_point_def drop_point_def about_def\<close>)
  have edges: "yields (resting ?h1 ?c jobs) (run_each (\<lambda>(from, to, _). call env (po_remove_edge (lx_ports env) from to)) (am_edges m))
      (\<lambda>_. resting ?h2 ?c jobs)" for jobs
    using yields_each [OF fine, where g = "\<lambda>(from, to, _). po_remove_edge (lx_ports env) from to" and step = drop_edge]
    by (simp add: ports memory_port_calls_def drop_edge_def mem_remove_edge_def case_prod_unfold)
  have graph: "yields (holding ?h1 ?c (about k ?u (ck\<lparr>ck_vector := True\<rparr>) rc)) (phase_graph env)
      (\<lambda>_. holding ?h2 ?c (about k ?u (ck\<lparr>ck_vector := True, ck_graph := True\<rparr>) rc))"
    unfolding phase_graph_def
    by (rule yields_listed [OF fine stored], simp add: about, rule edges)
  have content: "yields (holding ?h2 ?c (about k ?u (ck\<lparr>ck_vector := True, ck_graph := True\<rparr>) rc)) (phase_content env)
      (\<lambda>_. holding ?h3 ?c (about k ?u (ck\<lparr>ck_vector := True, ck_graph := True, ck_content := True\<rparr>) rc))"
    unfolding phase_content_def
    by (rule yields_single [OF fine], simp add: about,
        rule yields_weaken [OF yields_call [OF fine, where x = "()" and h' = ?h3]])
      (simp_all add: ports memory_port_calls_def mem_delete_def about)
  have blobs: "yields (resting ?h3 ?c jobs) (run_each (\<lambda>(b, _). call env (po_delete_blob (lx_ports env) b)) (am_blobs m))
      (\<lambda>_. resting ?h4 ?c jobs)" for jobs
    using yields_each [OF fine, where g = "\<lambda>(b, _). po_delete_blob (lx_ports env) b" and step = drop_blob]
    by (simp add: ports memory_port_calls_def drop_blob_def mem_delete_blob_def case_prod_unfold)
  have all: "all_checked = ck\<lparr>ck_vector := True, ck_graph := True, ck_content := True, ck_blobs := True\<rparr>"
    by (simp add: all_checked_def ck_def no_checkpoint_def)
  have last: "yields (holding ?h3 ?c (about k ?u (ck\<lparr>ck_vector := True, ck_graph := True, ck_content := True\<rparr>) rc))
      (phase_blobs env) (\<lambda>_. holding ?h4 ?c (about k ?u all_checked rc))"
    unfolding phase_blobs_def
    unfolding all by (rule yields_listed [OF fine stored], simp add: about, rule blobs)
  have "am_entry m = e" using m by (simp add: archive_of_def)
  then have "?h4 = emptied ?coll m h" by (simp add: emptied_def)
  with m show "yields (holding h ?c (about k ?u (no_checkpoint\<lparr>ck_manifest := True\<rparr>) rc))
      (run_then (phase_vector env) (\<lambda>_. run_then (phase_graph env) (\<lambda>_. run_then (phase_content env) (\<lambda>_. phase_blobs env))))
      (\<lambda>_ s. \<exists>m. archive_of h ?coll e m
        \<and> holding (emptied ?coll m h) (hput (lx_file_name env k) m c) (about k ?u all_checked rc) s)"
    unfolding ck_def [symmetric]
    by (intro yields_then [OF vector] yields_then [OF graph] yields_then [OF content] yields_weaken [OF last]) auto
qed

lemma yields_execute:
  assumes env: "quiet env hash" and h: "archivable hash h e" and c: "hget c (lx_file_name env k) = None"
  shows "yields (holding h c (about k (e_uri e) no_checkpoint rc)) (execute_task env)
    (\<lambda>_ s. \<exists>m. archive_of h (lx_collection env) e m \<and> (hget (lw_journal (snd s)) (lj_key (fst s)) = Some (fst s)
       \<and> holding (emptied (lx_collection env) m h) (hput (lx_file_name env k) m c)
           (\<lambda>j. about k (e_uri e) all_checked rc j \<and> lj_state j = LSucceeded) s))"
    (is "yields _ _ ?Q")
proof -
  have fine: "fine env" using env by (simp add: quiet_def)
  note execute = yields_try [OF yields_archive [OF env h c, of rc]]
  let ?done = "\<lambda>j. about k (e_uri e) all_checked rc j \<and> lj_state j = LSucceeded"
  have finish: "yields (holding h' c' (about k (e_uri e) all_checked rc)) (run_then (record_result env (Inr x)) (\<lambda>_.
      run_then (set_job (\<lambda>j. j\<lparr>lj_lease_owner := None, lj_lease_until := None\<rparr>)) (\<lambda>_. journal_update env)))
      (\<lambda>_ s. hget (lw_journal (snd s)) (lj_key (fst s)) = Some (fst s) \<and> holding h' c' ?done s)" for h' c' x
  proof -
    have "yields (holding h' c' (about k (e_uri e) all_checked rc)) (record_result env (Inr x)) (\<lambda>_. holding h' c' ?done)"
      unfolding record_result_def sum.case
      by (rule yields_then, rule yields_set [where F' = ?done], simp add: about_def, rule yields_audit) (simp add: about_def)
    note result = yields_then [OF this]
    show ?thesis
      by (rule result, rule yields_then, rule yields_set [where F' = ?done], simp add: about_def,
          rule yields_update [OF fine]) (simp add: about_def)
  qed
  have rest: "yields (holding h c (about k (e_uri e) no_checkpoint rc)) (run_then (run_try (execute_phases env)) (\<lambda>r.
     run_then (record_result env r) (\<lambda>_.
     run_then (set_job (\<lambda>j. j\<lparr>lj_lease_owner := None, lj_lease_until := None\<rparr>)) (\<lambda>_.
     journal_update env)))) ?Q"
  proof (rule yields_then [OF execute], rule yieldsI)
    fix r :: "context_error + unit" and s
    assume "\<exists>x. r = Inr x \<and> (\<exists>m. archive_of h (lx_collection env) e m \<and> holding (emptied (lx_collection env) m h)
      (hput (lx_file_name env k) m c) (about k (e_uri e) all_checked rc) s)"
    then obtain x m where r: "r = Inr x" and m: "archive_of h (lx_collection env) e m"
      and s: "holding (emptied (lx_collection env) m h) (hput (lx_file_name env k) m c) (about k (e_uri e) all_checked rc) s"
      by blast
    from finish s show "\<exists>y s'. run_then (record_result env r) (\<lambda>_.
        run_then (set_job (\<lambda>j. j\<lparr>lj_lease_owner := None, lj_lease_until := None\<rparr>)) (\<lambda>_. journal_update env)) s
        = (Returns y, s') \<and> ?Q y s'"
      unfolding r by (rule yields_elim) (use m in blast)
  qed
  have update: "yields (holding h c (about k (e_uri e) no_checkpoint rc)) (journal_update env)
      (\<lambda>_. holding h c (about k (e_uri e) no_checkpoint rc))"
    by (rule yields_weaken [OF yields_update [OF fine]]) (auto simp: about_def)
  show ?thesis
    unfolding execute_task_def
    by (rule yields_then, rule yields_set [where F' = "about k (e_uri e) no_checkpoint rc"], simp add: about_def,
        rule yields_then [OF yields_audit], simp add: about_def, rule yields_then [OF update], rule rest)
qed

section \<open>Restoring\<close>

definition keep_blob :: "(string \<Rightarrow> string) \<Rightarrow> blob_ref \<times> string \<Rightarrow> memory_ports \<Rightarrow> memory_ports" where
  "keep_blob hash = (\<lambda>(b, bytes) h. snd (mem_put_blob hash bytes (br_mime_type b) h))"

definition keep_edge :: "edge \<Rightarrow> memory_ports \<Rightarrow> memory_ports" where
  "keep_edge = (\<lambda>(f, t, k) h. snd (mem_add_edge f t k h))"

definition keep_point :: "string \<Rightarrow> index_point option \<Rightarrow> memory_ports \<Rightarrow> memory_ports" where
  "keep_point coll v h = (case v of None \<Rightarrow> h | Some p \<Rightarrow> snd (mem_upsert_point coll p h))"

definition refilled :: "(string \<Rightarrow> string) \<Rightarrow> string \<Rightarrow> archive_manifest \<Rightarrow> memory_ports \<Rightarrow> memory_ports" where
  "refilled hash coll m h = keep_point coll (am_vector m) (fold keep_edge (am_edges m)
     (snd (mem_write (am_entry m) (fold (keep_blob hash) (am_blobs m) h))))"

lemma on_world_try: "run_try (on_world m) = on_world (run_try m)"
  by (auto simp: run_try_def on_world_def fun_eq_iff split: prod.splits outcome.splits)

lemma yields_missing:
  assumes env: "quiet env hash" and h: "\<And>k e. hget (mp_entries h) k = Some e \<Longrightarrow> u_canonical (e_uri e) = k"
    "hm_wf (mp_entries h)" "hget (mp_entries h) (u_canonical u) = None"
  shows "yields (resting h c jobs) (run_try (read_live env u))
    (\<lambda>r w. r = Inl (NotFound (u_canonical u)) \<and> resting h c jobs w)"
proof -
  obtain found where scan: "mem_scan (u_canonical u) (page_request_new 1) h = (Inr found, h)"
    by (simp add: mem_scan_def)
  then have items: "e \<in> set (map snd (mp_entries h))" if "e \<in> set (pg_items found)" for e
    using that by (auto simp: mem_scan_def dest!: in_set_takeD)
  have "e_uri e \<noteq> u" if item: "e \<in> set (pg_items found)" for e
  proof -
    obtain k where "hget (mp_entries h) k = Some e" using items [OF item] h(2) by (auto simp: hget_eq_Some_iff)
    with h(1) [OF this] h(3) show ?thesis by auto
  qed
  then have none: "find (\<lambda>e. e_uri e = u) (pg_items found) = None" by (simp add: find_None_iff)
  have "yields (resting h c jobs) (call env (po_scan (lx_ports env) (u_canonical u) (page_request_new 1)))
      (\<lambda>x w. x = found \<and> resting h c jobs w)"
    using env scan by (intro yields_call) (simp_all add: quiet_def memory_port_calls_def)
  then show ?thesis
    unfolding read_live_def by (fastforce simp: yields_def run_try_def run_then_def run_raise_def none)
qed

lemma yields_unless:
  assumes "\<not> d rc" "yields (holding h c (about k u ck rc)) m Q"
  shows "yields (holding h c (about k u ck rc)) (unless_restored d m) Q"
  unfolding unless_restored_def
proof (rule yields_then [OF yields_the_job], rule yields_given)
  fix job assume job: "about k u ck rc job"
  have "yields (holding h c (\<lambda>x. x = job)) m Q"
    by (rule yields_weaken [OF assms(2)]) (auto intro: holding_mono simp: job)
  with job assms(1) show "yields (holding h c (\<lambda>x. x = job)) (if d (lj_restore job) then run_return () else m) Q"
    by (simp add: about_def)
qed

lemma yields_restore_step:
  assumes "fine env" "\<not> d rc" "\<And>jobs. yields (resting h c jobs) m (\<lambda>_. resting h' c jobs)"
  shows "yields (holding h c (about k u ck rc))
    (unless_restored d (run_then (on_world m) (\<lambda>_. restore_checkpoint env f))) (\<lambda>_. holding h' c (about k u ck (f rc)))"
  by (rule yields_unless [where d = d, OF assms(2)], rule yields_then [OF yields_world' [OF assms(3)]],
      rule yields_restored [OF assms(1)])

lemma yields_restore_content:
  assumes env: "quiet env hash" and h: "\<And>k e. hget (mp_entries h) k = Some e \<Longrightarrow> u_canonical (e_uri e) = k"
    "hm_wf (mp_entries h)" "hget (mp_entries h) (u_canonical (e_uri (am_entry m))) = None" and rc: "\<not> ck_content rc"
  shows "yields (holding h c (about k u ck rc)) (restore_content env m)
    (\<lambda>_. holding (snd (mem_write (am_entry m) h)) c (about k u ck (rc\<lparr>ck_content := True\<rparr>)))"
proof -
  have fine: "fine env" using env by (simp add: quiet_def)
  have "yields (resting h c jobs) (call env (po_write (lx_ports env) (am_entry m)))
      (\<lambda>x w. True \<and> resting (snd (mem_write (am_entry m) h)) c jobs w)" for jobs
    by (rule yields_weaken [OF yields_call [OF fine, where x = "MvccVersion 1"]])
      (use env in \<open>simp_all add: quiet_def memory_port_calls_def mem_write_def\<close>)
  note wr = yields_world' [OF this [simplified]]
  have miss: "yields (holding h c (about k u ck rc)) (run_try (on_world (read_live env (e_uri (am_entry m)))))
      (\<lambda>r s. r = Inl (NotFound (u_canonical (e_uri (am_entry m)))) \<and> holding h c (about k u ck rc) s)"
    unfolding on_world_try by (rule yields_world [OF yields_missing [OF env h]]) simp_all
  show ?thesis
    unfolding restore_content_def
  proof (rule yields_unless [where d = ck_content, OF rc], rule yields_then [OF miss], rule yields_given)
    fix r :: "context_error + context_entry"
    assume r: "r = Inl (NotFound (u_canonical (e_uri (am_entry m))))"
    show "yields (holding h c (about k u ck rc)) (run_then (case r of
             Inr existing \<Rightarrow>
               (case same_entry_bytes env existing (am_entry m) of
                  Inl e \<Rightarrow> run_raise e
                | Inr same \<Rightarrow>
                    (if same then run_return ()
                     else run_raise (VersionConflict (''hot entry changed since cold snapshot: ''
                            @ u_canonical (e_uri (am_entry m))))))
           | Inl (NotFound _) \<Rightarrow>
               run_then (on_world (call env (po_write (lx_ports env) (am_entry m)))) (\<lambda>_. run_return ())
           | Inl e \<Rightarrow> run_raise e) (\<lambda>_. restore_checkpoint env (\<lambda>c. c\<lparr>ck_content := True\<rparr>)))
       (\<lambda>_. holding (snd (mem_write (am_entry m) h)) c (about k u ck (rc\<lparr>ck_content := True\<rparr>)))"
      unfolding r sum.case context_error.case
      by (rule yields_then [OF yields_then [OF wr yields_return]], assumption, rule yields_restored [OF fine])
  qed
qed

section \<open>What the two ways leave\<close>

lemma fold_drop_edge:
  "mp_entries (fold drop_edge es h) = mp_entries h" "mp_vectors (fold drop_edge es h) = mp_vectors h"
  "mp_blobs (fold drop_edge es h) = mp_blobs h"
  "mp_edges (fold drop_edge es h) = filter (\<lambda>x. \<forall>y\<in>set es. fst x \<noteq> fst y \<or> fst (snd x) \<noteq> fst (snd y)) (mp_edges h)"
  by (induction es arbitrary: h) (auto simp: drop_edge_def mem_remove_edge_def case_prod_unfold intro: filter_cong)

lemma fold_drop_blob:
  "mp_entries (fold drop_blob bs h) = mp_entries h" "mp_vectors (fold drop_blob bs h) = mp_vectors h"
  "mp_edges (fold drop_blob bs h) = mp_edges h"
  "hget (mp_blobs (fold drop_blob bs h)) k
   = (if k \<in> (\<lambda>x. show_hash (br_hash (fst x))) ` set bs then None else hget (mp_blobs h) k)"
  by (induction bs arbitrary: h) (auto simp: drop_blob_def mem_delete_blob_def case_prod_unfold hm_simps)

lemma fold_keep_blob:
  "mp_entries (fold (keep_blob hash) bs h) = mp_entries h" "mp_vectors (fold (keep_blob hash) bs h) = mp_vectors h"
  "mp_edges (fold (keep_blob hash) bs h) = mp_edges h"
  by (induction bs arbitrary: h) (auto simp: keep_blob_def mem_put_blob_def Let_def case_prod_unfold)

lemma fold_keep_blob_get:
  assumes "\<forall>(b, bytes)\<in>set bs. hget g (show_hash (br_hash b)) = Some (b, bytes)
      \<and> br_hash b = ContentHash (hash bytes) \<and> br_size b = length bytes"
  shows "hget (mp_blobs (fold (keep_blob hash) bs h)) k
   = (if k \<in> (\<lambda>x. show_hash (br_hash (fst x))) ` set bs then hget g k else hget (mp_blobs h) k)"
  using assms
proof (induction bs arbitrary: h)
  case (Cons x bs)
  obtain b bytes where x: "x = (b, bytes)" by force
  have b: "hget g (show_hash (br_hash b)) = Some (b, bytes)" "br_hash b = ContentHash (hash bytes)" "br_size b = length bytes"
    using Cons.prems by (auto simp: x)
  have same: "\<lparr>br_hash = ContentHash (hash bytes), br_size = length bytes, br_mime_type = br_mime_type b\<rparr> = b"
    using b(2,3) by (cases b) simp
  have "hget (mp_blobs (keep_blob hash x h)) k = (if k = hash bytes then Some (b, bytes) else hget (mp_blobs h) k)"
    by (simp add: keep_blob_def x mem_put_blob_def Let_def hm_simps same)
  with Cons.IH [of "keep_blob hash x h"] Cons.prems b(1,2) show ?case by (auto simp: x)
qed simp

lemma fold_keep_edge:
  "mp_entries (fold keep_edge es h) = mp_entries h" "mp_vectors (fold keep_edge es h) = mp_vectors h"
  "mp_blobs (fold keep_edge es h) = mp_blobs h" "set (mp_edges (fold keep_edge es h)) = set (mp_edges h) \<union> set es"
  by (induction es arbitrary: h) (auto simp: keep_edge_def mem_add_edge_def case_prod_unfold)

definition same_stores :: "memory_ports \<Rightarrow> memory_ports \<Rightarrow> bool" where
  "same_stores h h' \<longleftrightarrow> (\<forall>k. hget (mp_entries h') k = hget (mp_entries h) k)
     \<and> set (mp_edges h') = set (mp_edges h)
     \<and> (\<forall>k. hget (mp_vectors h') k = hget (mp_vectors h) k)
     \<and> (\<forall>k. hget (mp_blobs h') k = hget (mp_blobs h) k)"

lemma emptied_then_refilled:
  assumes h: "archivable hash h e" and m: "archive_of h coll e m"
  shows "same_stores h (refilled hash coll m (emptied coll m h))"
proof -
  let ?h = "emptied coll m h" and ?ku = "u_canonical (e_uri e)"
  have entry: "am_entry m = e" and edges: "am_edges m = filter (touching (e_uri e)) (mp_edges h)"
    and point: "am_vector m = hget (mp_vectors h) (coll, ?ku)"
    and blobs: "am_blobs m = map (\<lambda>b. (b, blob_bytes h b)) (payload_blobs (e_payload e))"
    using m by (simp_all add: archive_of_def)
  have stored: "\<forall>(b, bytes)\<in>set (am_blobs m). hget (mp_blobs h) (show_hash (br_hash b)) = Some (b, bytes)
      \<and> br_hash b = ContentHash (hash bytes) \<and> br_size b = length bytes"
    using h unfolding blobs archivable_def blob_bytes_def by fastforce
  have "hget (mp_entries (refilled hash coll m ?h)) k = hget (mp_entries h) k" for k
    using h by (simp add: refilled_def keep_point_def emptied_def fold_keep_edge fold_keep_blob fold_drop_blob fold_drop_edge
        mem_upsert_point_def mem_write_def mem_delete_def drop_point_def entry archivable_def hm_simps split: option.split)
  moreover have "set (mp_edges (refilled hash coll m ?h)) = set (mp_edges h)"
    by (auto simp: refilled_def keep_point_def emptied_def fold_keep_edge fold_keep_blob fold_drop_blob fold_drop_edge
        mem_upsert_point_def mem_write_def mem_delete_def drop_point_def edges split: option.split)
  moreover have "hget (mp_vectors (refilled hash coll m ?h)) k = hget (mp_vectors h) k" for k
    using h point by (auto simp: refilled_def keep_point_def emptied_def fold_keep_edge fold_keep_blob fold_drop_blob fold_drop_edge
        mem_upsert_point_def mem_write_def mem_delete_def drop_point_def entry archivable_def hm_simps split: option.split)
  moreover have "hget (mp_blobs (refilled hash coll m ?h)) k = hget (mp_blobs h) k" for k
    by (simp add: refilled_def keep_point_def emptied_def fold_keep_edge fold_keep_blob_get [OF stored] fold_drop_blob fold_drop_edge
        mem_upsert_point_def mem_write_def mem_delete_def drop_point_def split: option.split)
  ultimately show ?thesis by (simp add: same_stores_def)
qed

lemma yields_keep_blob:
  assumes env: "quiet env hash" and b: "br_hash (fst x) = ContentHash (hash (snd x))"
  shows "yields (resting h c jobs) (case x of (r, bytes) \<Rightarrow>
      run_then (call env (po_put_blob (lx_ports env) bytes (br_mime_type r))) (\<lambda>written.
        if br_hash written \<noteq> br_hash r then run_raise (Storage ''restored blob hash mismatch'') else run_return ()))
      (\<lambda>_. resting (keep_blob hash x h) c jobs)"
proof -
  obtain b bytes where x: "x = (b, bytes)" by force
  have "yields (resting h c jobs) (call env (po_put_blob (lx_ports env) bytes (br_mime_type b)))
      (\<lambda>y w. y = \<lparr>br_hash = ContentHash (hash bytes), br_size = length bytes, br_mime_type = br_mime_type b\<rparr>
         \<and> resting (keep_blob hash x h) c jobs w)"
    by (rule yields_call) (use env in \<open>simp_all add: quiet_def memory_port_calls_def mem_put_blob_def keep_blob_def x Let_def\<close>)
  then show ?thesis
    unfolding x case_prod_conv by (rule yields_then) (use b in \<open>auto intro!: yields_given yields_return simp: x\<close>)
qed

lemma yields_keep_point:
  assumes env: "quiet env hash"
  shows "yields (holding h c F) (case v of
             Some p \<Rightarrow> on_world (call env (po_upsert_point (lx_ports env) (lx_collection env) p))
           | None \<Rightarrow> run_return ()) (\<lambda>_. holding (keep_point (lx_collection env) v h) c F)"
proof (cases v)
  case (Some p)
  let ?h = "keep_point (lx_collection env) v h"
  have fine: "fine env" using env by (simp add: quiet_def)
  have "yields (resting h c jobs) (call env (po_upsert_point (lx_ports env) (lx_collection env) p)) (\<lambda>_. resting ?h c jobs)" for jobs
    by (rule yields_weaken [OF yields_call [OF fine, where x = "()" and h' = ?h]])
      (use env in \<open>simp_all add: quiet_def memory_port_calls_def mem_upsert_point_def keep_point_def Some\<close>)
  then show ?thesis unfolding Some option.case by (rule yields_world')
qed (simp add: keep_point_def yields_return)

lemma yields_restore:
  assumes env: "quiet env hash" and h: "archivable hash h e" and m: "archive_of h (lx_collection env) e m"
  shows "yields (holding (emptied (lx_collection env) m h) c (about k u ck no_checkpoint)) (restore_task env m)
    (\<lambda>_. holding (refilled hash (lx_collection env) m (emptied (lx_collection env) m h)) c
       (about k u ck (all_checked\<lparr>ck_manifest := False\<rparr>)))"
proof -
  have fine: "fine env" and ports: "lx_ports env = memory_port_calls hash" using env by (simp_all add: quiet_def)
  let ?coll = "lx_collection env"
  let ?h4 = "emptied ?coll m h"
  let ?h5 = "fold (keep_blob hash) (am_blobs m) ?h4"
  let ?h6 = "snd (mem_write (am_entry m) ?h5)"
  let ?h7 = "fold keep_edge (am_edges m) ?h6"
  let ?h8 = "keep_point ?coll (am_vector m) ?h7"
  define rc where "rc = no_checkpoint"
  note rc = rc_def no_checkpoint_def
  have entry: "am_entry m = e" using m by (simp add: archive_of_def)
  have hashes: "br_hash b = ContentHash (hash bytes)" if "(b, bytes) \<in> set (am_blobs m)" for b bytes
    using that h m by (fastforce simp: archive_of_def archivable_def blob_bytes_def)
  have blobs: "yields (holding ?h4 c (about k u ck rc)) (restore_blobs env m)
      (\<lambda>_. holding ?h5 c (about k u ck (rc\<lparr>ck_blobs := True\<rparr>)))"
    unfolding restore_blobs_def
    by (rule yields_restore_step [OF fine], simp add: rc, rule yields_every,
        rule yields_keep_blob [OF env])
      (simp add: hashes)
  have five: "mp_entries ?h5 = hdel (u_canonical (e_uri (am_entry m))) (mp_entries h)"
    by (simp add: fold_keep_blob emptied_def fold_drop_blob mem_delete_def fold_drop_edge drop_point_def)
  have sound: "ports_sound h" using h by (simp add: archivable_def)
  have left: "u_canonical (e_uri x) = k'" if "hget (mp_entries ?h5) k' = Some x" for k' x
    using that sound unfolding five hget_hdel ports_sound_def by (metis option.distinct(1))
  have wf: "hm_wf (mp_entries ?h5)" using sound unfolding five by (simp add: ports_sound_def hm_wf_hdel)
  have gone: "hget (mp_entries ?h5) (u_canonical (e_uri (am_entry m))) = None" unfolding five by (simp add: hget_hdel)
  have content: "yields (holding ?h5 c (about k u ck (rc\<lparr>ck_blobs := True\<rparr>))) (restore_content env m)
      (\<lambda>_. holding ?h6 c (about k u ck (rc\<lparr>ck_blobs := True, ck_content := True\<rparr>)))"
    by (rule yields_restore_content [OF env left wf gone]) (simp_all add: rc)
  have edges: "yields (resting ?h6 c jobs) (run_each (\<lambda>(from, to, kind). call env (po_add_edge (lx_ports env) from to kind)) (am_edges m))
      (\<lambda>_. resting ?h7 c jobs)" for jobs
    using yields_each [OF fine, where g = "\<lambda>(from, to, kind). po_add_edge (lx_ports env) from to kind" and step = keep_edge]
    by (simp add: ports memory_port_calls_def keep_edge_def mem_add_edge_def case_prod_unfold)
  have graph: "yields (holding ?h6 c (about k u ck (rc\<lparr>ck_blobs := True, ck_content := True\<rparr>))) (restore_graph env m)
      (\<lambda>_. holding ?h7 c (about k u ck (rc\<lparr>ck_blobs := True, ck_content := True, ck_graph := True\<rparr>)))"
    unfolding restore_graph_def by (rule yields_restore_step [OF fine], simp add: rc, rule edges)
  note upsert = yields_then [OF yields_keep_point [OF env] yields_restored [OF fine]]
  have all: "all_checked\<lparr>ck_manifest := False\<rparr>
      = rc\<lparr>ck_blobs := True, ck_content := True, ck_graph := True, ck_vector := True\<rparr>"
    by (simp add: rc all_checked_def)
  have vector: "yields (holding ?h7 c (about k u ck (rc\<lparr>ck_blobs := True, ck_content := True, ck_graph := True\<rparr>)))
      (restore_vector env m) (\<lambda>_. holding ?h8 c (about k u ck (all_checked\<lparr>ck_manifest := False\<rparr>)))"
    unfolding restore_vector_def all by (rule yields_unless [where d = ck_vector], simp add: rc, rule upsert)
  show ?thesis
    unfolding restore_task_def refilled_def rc_def [symmetric]
    by (rule yields_then [OF blobs], rule yields_then [OF content], rule yields_then [OF graph], rule vector)
qed

section \<open>There and back\<close>

lemma executed:
  assumes env: "quiet env hash" and h: "archivable hash (lw_hot w) e" and c: "hget (lw_cold w) (lx_file_name env k) = None"
    and job: "about k (e_uri e) no_checkpoint rc job" "hget (lw_journal w) k = Some job"
  obtains j w' m where "execute_job env job w = (Returns j, w')" "archive_of (lw_hot w) (lx_collection env) e m"
    "lw_hot w' = emptied (lx_collection env) m (lw_hot w)" "lw_cold w' = hput (lx_file_name env k) m (lw_cold w)"
    "hget (lw_journal w') k = Some j" "about k (e_uri e) all_checked rc j" "lj_state j = LSucceeded"
proof -
  have "holding (lw_hot w) (lw_cold w) (about k (e_uri e) no_checkpoint rc) (job, w)"
    using job by (simp add: holding_def about_def)
  with yields_execute [OF env h c] obtain x s m where s: "execute_task env (job, w) = (Returns x, s)"
    "archive_of (lw_hot w) (lx_collection env) e m" "hget (lw_journal (snd s)) (lj_key (fst s)) = Some (fst s)"
    "holding (emptied (lx_collection env) m (lw_hot w)) (hput (lx_file_name env k) m (lw_cold w))
       (\<lambda>j. about k (e_uri e) all_checked rc j \<and> lj_state j = LSucceeded) s"
    by (rule yields_elim) blast
  have "execute_job env job w = (Returns (fst s), snd s)"
    using s(1) by (simp add: execute_job_def with_job_def run_then_def the_job_def)
  with s(2-4) show ?thesis by (intro that) (auto simp: holding_def about_def)
qed

lemma restored:
  assumes env: "quiet env hash" and h: "archivable hash h e" and m: "archive_of h (lx_collection env) e m"
    and w: "lw_hot w = emptied (lx_collection env) m h" "hget (lw_cold w) (lx_file_name env k) = Some m"
    and job: "hget (lw_journal w) k = Some j" "about k u ck no_checkpoint j" "lj_state j = LSucceeded"
  obtains w' where "restore env k w = (Returns (), w')"
    "lw_hot w' = refilled hash (lx_collection env) m (emptied (lx_collection env) m h)"
proof -
  have fine: "\<And>n. lx_fault env n = Fine" using env by (simp add: quiet_def fine_def)
  define w3 where "w3 = w\<lparr>lw_tick := Suc (Suc (Suc (lw_tick w)))\<rparr>"
  have "holding (emptied (lx_collection env) m h) (lw_cold w) (about k u ck no_checkpoint) (j, w3)"
    using w job by (simp add: holding_def about_def w3_def)
  with yields_restore [OF env h m] obtain x s where s: "restore_task env m (j, w3) = (Returns x, s)"
    "lw_hot (snd s) = refilled hash (lx_collection env) m (emptied (lx_collection env) m h)"
    by (rule yields_elim) (auto simp: holding_def)
  have "restore env k w = (Returns (), snd s)"
    using s(1) w(2) job by (simp add: restore_def get_manifest_def journal_get_def load_jobs_def run_then_def run_try_def
        access_def fine run_return_def with_job_def the_job_def w3_def)
  from this s(2) show ?thesis by (rule that)
qed

lemma submitted:
  assumes "fine env" "lw_journal w = []"
  shows "\<exists>w'. submit env fresh u AArchive w = (Returns (new_lifecycle_job fresh (lx_now env (lw_reads w)) u LArchive), w')
    \<and> lw_hot w' = lw_hot w \<and> lw_cold w' = lw_cold w \<and> lw_reads w' = Suc (lw_reads w)
    \<and> lw_journal w' = [(job_key u LArchive, new_lifecycle_job fresh (lx_now env (lw_reads w)) u LArchive)]"
  using assms by (simp add: submit_def run_then_def clock_def journal_upsert_def without_job_def transact_def Let_def
      fine_def upsert_tx_def load_jobs_def access_def run_return_def hput_def new_lifecycle_job_def)

lemma run_single: "run_then (run_return []) (\<lambda>outs. run_return (out # outs)) = run_return [out]"
  by (simp add: run_then_def run_return_def fun_eq_iff)

lemma run_jobs_single:
  "run_jobs env owner [j] = run_then (clock env) (\<lambda>now. run_then (journal_claim env (lj_key j) owner now) (\<lambda>claimed.
     case claimed of None \<Rightarrow> run_return [] | Some job \<Rightarrow> run_then (execute_job env job) (\<lambda>out. run_return [out])))"
  by (simp add: run_single cong: option.case_cong)

lemma claimed:
  assumes "fine env" "lw_journal w = [(lj_key job, job)]" "lj_state job = LPending" "lj_lease_until job = None"
    and "\<And>n. lj_next_attempt_at job \<le> lx_now env (lw_reads w + n)"
  obtains job' w' where "lw_hot w' = lw_hot w" "lw_cold w' = lw_cold w" "lw_journal w' = [(lj_key job, job')]"
    "lj_key job' = lj_key job" "lj_uri job' = lj_uri job" "lj_checkpoint job' = lj_checkpoint job"
    "lj_restore job' = lj_restore job"
    "run_pending env owner w = run_then (execute_job env job') (\<lambda>out. run_return [out]) w'"
proof -
  let ?job = "job\<lparr>lj_lease_owner := Some owner, lj_lease_until := Some (lx_now env (lw_reads w + 1) + lease_ns),
      lj_revision := lj_revision job + 1\<rparr>"
  let ?w = "w\<lparr>lw_reads := Suc (Suc (lw_reads w)), lw_tick := Suc (Suc (lw_tick w)), lw_journal := [(lj_key job, ?job)]\<rparr>"
  have fine: "\<And>n. lx_fault env n = Fine" using assms(1) by (simp add: fine_def)
  have time: "lj_next_attempt_at job \<le> lx_now env (lw_reads w)" "lj_next_attempt_at job \<le> lx_now env (Suc (lw_reads w))"
    using assms(5) [of 0] assms(5) [of 1] by simp_all
  have "recoverable env (lx_now env (lw_reads w)) (w\<lparr>lw_reads := Suc (lw_reads w)\<rparr>)
      = (Returns [job], w\<lparr>lw_reads := Suc (lw_reads w), lw_tick := Suc (lw_tick w)\<rparr>)"
    using time assms(2-4)
    by (simp add: recoverable_def run_then_def run_try_def load_jobs_def access_def fine run_return_def claimable_def)
  moreover have "journal_claim env (lj_key job) owner (lx_now env (Suc (lw_reads w)))
      (w\<lparr>lw_tick := Suc (lw_tick w), lw_reads := Suc (Suc (lw_reads w))\<rparr>) = (Returns (Some ?job), ?w)"
    using time assms(2-4)
    by (simp add: journal_claim_def without_job_def transact_def Let_def fine claim_tx_def hget_def hput_def)
  ultimately have "run_pending env owner w = run_then (execute_job env ?job) (\<lambda>out. run_return [out]) ?w"
    by (simp add: run_pending_def run_then_def clock_def run_jobs_single del: run_jobs.simps)
  then show ?thesis by (intro that [of ?w ?job]) simp_all
qed

lemma emptied_entry:
  assumes "archive_of h coll e m"
  shows "hget (mp_entries (emptied coll m h)) (u_canonical (e_uri e)) = None"
    "hget (mp_vectors (emptied coll m h)) (coll, u_canonical (e_uri e)) = None"
    "x \<in> set (mp_edges (emptied coll m h)) \<Longrightarrow> \<not> touching (e_uri e) x"
proof -
  have entry: "am_entry m = e" and edges: "am_edges m = filter (touching (e_uri e)) (mp_edges h)"
    using assms by (simp_all add: archive_of_def)
  show "hget (mp_entries (emptied coll m h)) (u_canonical (e_uri e)) = None"
    "hget (mp_vectors (emptied coll m h)) (coll, u_canonical (e_uri e)) = None"
    by (simp_all add: emptied_def fold_drop_blob fold_drop_edge mem_delete_def drop_point_def entry hm_simps)
  assume "x \<in> set (mp_edges (emptied coll m h))"
  then have "x \<in> set (mp_edges h)" "\<forall>y\<in>set (am_edges m). fst x \<noteq> fst y \<or> fst (snd x) \<noteq> fst (snd y)"
    by (simp_all add: emptied_def fold_drop_blob fold_drop_edge mem_delete_def drop_point_def)
  then show "\<not> touching (e_uri e) x" unfolding edges by fastforce
qed

text \<open>C12: when no access and no call of a port fails, manifests can be serialized, the clock does not go
  back, the journal is empty and the archive has no manifest of that address yet (its first archiving),
  archiving an entry that the memory ports hold removes the
  entry, its vector and its edges, and restoring it afterwards brings back all four stores as they
  were. (\<open>archivable\<close>: a scan of the prefix finds the entry first, and its blobs are stored under the
  names of their contents.)\<close>

theorem archive_then_restore:
  fixes w :: "memory_ports lworld" and fresh owner :: uuid
  assumes "quiet env hash" "archivable hash (lw_hot w) e" "lw_journal w = []"
    and "hget (lw_cold w) (lx_file_name env (job_key (e_uri e) LArchive)) = None" "mono (lx_now env)"
  defines "w1 \<equiv> fold (lifecycle_step env) [SubmitJob fresh (e_uri e) AArchive, RunPending owner] w"
  shows "hget (mp_entries (lw_hot w1)) (u_canonical (e_uri e)) = None
    \<and> hget (mp_vectors (lw_hot w1)) (lx_collection env, u_canonical (e_uri e)) = None
    \<and> (\<forall>x\<in>set (mp_edges (lw_hot w1)). \<not> touching (e_uri e) x)
    \<and> same_stores (lw_hot w) (lw_hot (lifecycle_step env (RestoreKey (job_key (e_uri e) LArchive)) w1))"
proof -
  let ?k = "job_key (e_uri e) LArchive" and ?coll = "lx_collection env"
  let ?job = "new_lifecycle_job fresh (lx_now env (lw_reads w)) (e_uri e) LArchive"
  have fine: "fine env" using assms(1) by (simp add: quiet_def)
  obtain w0 where w0: "submit env fresh (e_uri e) AArchive w = (Returns ?job, w0)" "lw_hot w0 = lw_hot w" "lw_cold w0 = lw_cold w"
    "lw_reads w0 = Suc (lw_reads w)" "lw_journal w0 = [(?k, ?job)]"
    using submitted [OF fine assms(3)] by blast
  have key: "lj_key ?job = ?k" by (simp add: new_lifecycle_job_def)
  have time: "lj_next_attempt_at ?job \<le> lx_now env (lw_reads w0 + n)" for n
    using monoD [OF assms(5), of "lw_reads w" "lw_reads w0 + n"] w0(4) by (simp add: new_lifecycle_job_def)
  have new: "lj_state ?job = LPending" "lj_lease_until ?job = None" by (simp_all add: new_lifecycle_job_def)
  from claimed [OF fine w0(5) [folded key] new time, of owner] obtain job v where
    "lw_hot v = lw_hot w0" "lw_cold v = lw_cold w0" "lw_journal v = [(lj_key ?job, job)]"
    "lj_key job = lj_key ?job" "lj_uri job = lj_uri ?job" "lj_checkpoint job = lj_checkpoint ?job"
    "lj_restore job = lj_restore ?job"
    and pass: "run_pending env owner w0 = run_then (execute_job env job) (\<lambda>out. run_return [out]) v" .
  then have v: "lw_hot v = lw_hot w" "lw_cold v = lw_cold w" "lw_journal v = [(?k, job)]"
    and job: "about ?k (e_uri e) no_checkpoint no_checkpoint job"
    using w0(2,3) by (simp_all add: new_lifecycle_job_def about_def)
  have "archivable hash (lw_hot v) e" "hget (lw_cold v) (lx_file_name env ?k) = None" "hget (lw_journal v) ?k = Some job"
    using assms(2,4) v by (simp_all add: hget_def)
  from executed [OF assms(1) this(1,2) job this(3)] obtain j w' m where ran: "execute_job env job v = (Returns j, w')"
    "archive_of (lw_hot w) ?coll e m" "lw_hot w' = emptied ?coll m (lw_hot w)"
    "lw_cold w' = hput (lx_file_name env ?k) m (lw_cold w)" "hget (lw_journal w') ?k = Some j"
    "about ?k (e_uri e) all_checked no_checkpoint j" "lj_state j = LSucceeded"
    using v by metis
  have w1: "w1 = w'" using w0(1) pass ran(1) by (simp add: w1_def run_then_def run_return_def)
  have "hget (lw_cold w') (lx_file_name env ?k) = Some m" using ran(4) by (simp add: hm_simps)
  from restored [OF assms(1,2) ran(2,3) this ran(5-7)] obtain w2 where
    "restore env ?k w' = (Returns (), w2)" "lw_hot w2 = refilled hash ?coll m (emptied ?coll m (lw_hot w))" .
  then have "lw_hot (lifecycle_step env (RestoreKey ?k) w1) = refilled hash ?coll m (emptied ?coll m (lw_hot w))"
    by (simp add: w1)
  with emptied_entry [OF ran(2)] emptied_then_refilled [OF assms(2) ran(2)] ran(3) show ?thesis by (simp add: w1)
qed

lemma archive_then_restore_witness:
  "(let env = (lifecycle_sample (\<lambda>_. Fine))\<lparr>lx_manifest_bytes := \<lambda>_. Inr ''m''\<rparr>;
        h = (lw_hot lifecycle_world)\<lparr>mp_edges := [(lifecycle_uri, lifecycle_uri\<lparr>u_path := []\<rparr>, DerivedFrom)]\<rparr>;
        w1 = fold (lifecycle_step env) [SubmitJob 1 lifecycle_uri AArchive, RunPending 2] (lifecycle_world\<lparr>lw_hot := h\<rparr>)
    in mp_edges (lw_hot w1) = []
       \<and> same_stores h (lw_hot (lifecycle_step env (RestoreKey ''uwu://t/a:Archive'') w1)))"
proof -
  let ?env = "(lifecycle_sample (\<lambda>_. Fine))\<lparr>lx_manifest_bytes := \<lambda>_. Inr ''m''\<rparr>"
    and ?h = "(lw_hot lifecycle_world)\<lparr>mp_edges := [(lifecycle_uri, lifecycle_uri\<lparr>u_path := []\<rparr>, DerivedFrom)]\<rparr>"
  let ?w = "lifecycle_world\<lparr>lw_hot := ?h\<rparr>"
  have key: "job_key lifecycle_uri LArchive = ''uwu://t/a:Archive''" "e_uri lifecycle_entry = lifecycle_uri"
    by (simp_all add: job_key_def lifecycle_entry_def new_text_def lifecycle_uri_def)
  have hot: "lw_hot ?w = ?h" by simp
  have quiet: "quiet ?env (\<lambda>bytes. bytes)" by (simp add: quiet_def fine_def lifecycle_sample_def)
  have stored: "archivable (\<lambda>bytes. bytes) (lw_hot ?w) lifecycle_entry"
    by (simp add: archivable_def ports_sound_def lifecycle_world_def hm_wf_def hget_def lifecycle_entry_def new_text_def
        lifecycle_uri_def)
  have start: "lw_journal ?w = []" "hget (lw_cold ?w) (lx_file_name ?env (job_key (e_uri lifecycle_entry) LArchive)) = None"
    by (simp_all add: lifecycle_world_def)
  have time: "mono (lx_now ?env)" by (rule monoI) (simp add: lifecycle_sample_def)
  have "mp_edges (lw_hot (fold (lifecycle_step ?env) [SubmitJob 1 lifecycle_uri AArchive, RunPending 2] ?w)) = []"
    by code_simp
  moreover note conjunct2 [OF conjunct2 [OF conjunct2 [OF archive_then_restore [OF quiet stored start time, of 1 2]]], unfolded key hot]
  ultimately show ?thesis unfolding Let_def by (rule conjI)
qed

end
