(* ===== verification/Spec2Isabelle.thy ===== *)
theory Spec2Isabelle
  imports Context_Facts Version_History Policy_Gate Facade_Refinement Facade_Admission Watch_Facts
    Utf8_Text Outbox_History Sqlite_Paging Sqlite_Cached Store_Histories
    Sqlite_Caching Network_Quotas Lifecycle_Recovery Lifecycle_Stranded Lifecycle_Restoring
begin

text \<open>
  A verification of the core of uwu_context_db, a context database for agents: entries under
  \<open>uwu://\<close> addresses, versioned like a repository, behind a facade that isolates tenants. The
  model follows the Rust sources under src/; this theory imports all others and holds no
  definition of its own.

  \<^bold>\<open>The program and its parts.\<close>
  Callers talk to \<open>ContextDb\<close> (src/src/facade.rs, version_facade.rs). Each call is admitted, checked
  against the caller's tenant, run under a deadline, and audited. Below it are a content store
  (port in context-db-core/src/store.rs) and a commit store (port in context-db-version). Each port
  has two implementations that are modelled here: the in-memory ones of context-db-testkit, and the
  SQLite ones of context-db-storage (sqlite.rs, sqlite_version.rs). Writes redact sensitive text
  first (write_security.rs), announce changes (watch.rs) and queue points for the vector index
  (outbox.rs); reads may go through a cache (read_cache.rs). Executors, models and gateways stand
  behind a policy gate (policy.rs). Federated queries pass access grants and quotas
  (context-db-knowledge-network). Archiving and deletion run as durable jobs over the stores
  (context-db-consolidation/src/lifecycle_execution.rs).

  \<^bold>\<open>Which theory models what.\<close>
  \<^item> Ground: \<open>Prelude\<close> (hash maps as lists of bindings in iteration order, operation systems),
    \<open>Rust_Strings\<close>, \<open>Rust_Text\<close>, \<open>Rust_Slices\<close> (routines of the standard library on UTF-8 bytes and
    sorted slices), \<open>Worklist\<close> (reachability and the invariant of the worklist loops).
  \<^item> Data: \<open>Context_Uri\<close> (uri.rs, error.rs), \<open>Content_Model\<close> (model.rs, multimodal.rs),
    \<open>Write_Security\<close> (write_security.rs), \<open>Version_Model\<close> and \<open>Temporal_Index\<close> (context-db-version/src/model.rs,
    lib.rs).
  \<^item> In-memory stores: \<open>Context_Store\<close> (testkit/src/lib.rs; state \<open>cstore\<close>, one definition an operation),
    \<open>Version_Store\<close> and \<open>Version_Merge\<close> (testkit/src/version.rs; state \<open>vstore\<close>).
  \<^item> SQLite content store: \<open>Sqlite_Tables\<close>, \<open>Sqlite_Batch\<close> (transactions), \<open>Sql_Like\<close>, \<open>Sqlite_Queries\<close>
    (queries), \<open>Read_Cache\<close> and \<open>Sqlite_Cached\<close>. A table is a map from its primary key; a transaction body
    returns an error or a value with the next tables, and an error leaves the tables as they were.
  \<^item> SQLite commit store: \<open>Sqlite_Commits\<close> (tables, change rows, rebuilding of snapshots through both
    cache levels, commits, branches, tags, reads), \<open>Sqlite_Rewrites\<close> (merge, diff, squash, garbage
    collection), \<open>Sqlite_Sessions\<close> (cherry-pick, rebase, conflict sessions, analyses). Operations that
    read and then write are composed by \<open>sql_then\<close>, \<open>sql_ask\<close> and \<open>sql_run\<close>, one transaction each.
  \<^item> Facade: \<open>Facade\<close> and \<open>Facade_Versions\<close> (state \<open>world\<close>: both stores, audit sink, admission counters),
    \<open>Conflict_Sessions\<close> (bindings of sessions), \<open>Facade_Admission\<close> (admission and shutdown as interleaved
    steps in a release/acquire memory), \<open>Watch_Stream\<close> (the hub, whose emissions are three steps each, the
    streams, and the announcing decorator over any inner store), \<open>Policy_Gate\<close>, \<open>Index_Outbox\<close>, \<open>Utf8_Text\<close>.
    A guarded call waits for the future of its port, which completes or is dropped after some of its
    effects (\<open>progress\<close>).
  \<^item> Knowledge network: \<open>Network_Access\<close> (access.rs, governance.rs, topology.rs, types.rs).
  \<^item> Lifecycle jobs: \<open>Lifecycle_Jobs\<close> (lifecycle_execution.rs; state \<open>lworld\<close>: the stores behind the executor,
    the journal file and the cold store). Every call of a store and every access to a file is one tick of
    a schedule of faults: it may fail before, while or after taking effect, or the process stops there.

  \<^bold>\<open>What the lemmas show.\<close>
  \<^item> Commit history. \<open>Version_Safety\<close>: references are sound and history is acyclic after any operations,
    commits are immutable, no commit is refused while the branch is tracked. \<open>Version_Ancestry\<close>: ancestor
    tests and merge bases are exact. \<open>Version_Merging\<close>, \<open>Version_History\<close>: commits, merges, cherry-picks, squash,
    log and diff, address by address.
  \<^item> SQLite commit history. \<open>Sqlite_Snapshots\<close>: a rebuilt snapshot is the replay of the change rows
    along the first parents, whatever the caches hold. \<open>Sqlite_Deltas\<close>: rows of different addresses commute,
    and the rows of a difference lead from one snapshot to the other. \<open>Sqlite_History\<close>, \<open>Sqlite_Refs\<close>,
    \<open>Sqlite_Operations\<close>: every operation keeps the references between the tables. \<open>Sqlite_Committing\<close>: a commit
    records what the in-memory store records, and no acknowledged commit of concurrent callers is lost.
    \<open>Sqlite_Collecting\<close>: garbage collection loses nothing that is reachable. \<open>Sqlite_Merging\<close>: a merge is
    the three-way merge of the trees. \<open>Sqlite_Caching\<close>: over all histories the caches agree with the rows,
    and reading at a stored commit never changes.
  \<^item> Content. \<open>Context_Facts\<close>, \<open>Store_Histories\<close>, \<open>Sqlite_Facts\<close>, \<open>Sqlite_Integrity\<close>, \<open>Sqlite_Properties\<close>, \<open>Sqlite_Paging\<close>:
    numbered versions, typed rows, batches as single writes, complete pages, and agreement of the two
    stores on the histories of all addresses.
  \<^item> Facade. \<open>Facade_Facts\<close> and \<open>Facade_Outcomes\<close>: tenant isolation, what results say about what was committed
    and audited, denied calls execute nothing. \<open>Facade_Refinement\<close>: the guarded version API has on the
    version store the effect of exactly the calls that pass its guards, and returns and audits what they
    give. \<open>Facade_Admission\<close>: which calls can still run when a shutdown is past its wait, and that some can.
    \<open>Conflict_Sessions\<close>: who owns a session, and when a binding never returns.
  \<^item> Delivery. \<open>Watch_Facts\<close>: streams without gaps, the order lost by emissions that overlap, and that the
    events are enough to follow the store. \<open>Outbox_Facts\<close>, \<open>Outbox_History\<close>: the index converges and the
    outbox drains, over crashes and failures.
  \<^item> Quotas. \<open>Network_Quotas\<close>: permits are counted exactly; the rate is bounded.
  \<^item> Lifecycle jobs. \<open>Lifecycle_Rules\<close>: rules for runs that fail or stop anywhere, and how an invariant is carried
    over all histories of submissions, passes and restores. \<open>Lifecycle_Facts\<close>: no entry is lost.
    \<open>Lifecycle_Restoring\<close>: without faults, archiving and restoring bring back all stores.
    \<open>Lifecycle_Recovery\<close>: what executions record, and how workers are kept apart. \<open>Lifecycle_Stranded\<close>: the crash
    after which a job can never succeed.

  \<^bold>\<open>Interfaces.\<close>
  Clients rest on locales, each interpreted on the model's own definitions: \<open>finite_map\<close> (\<open>hm\<close>) for hash
  maps; \<open>op_system\<close> for components with operations and an invariant (\<open>cs\<close>, \<open>vs\<close>, \<open>hist\<close>, \<open>att\<close>, \<open>sql\<close>, \<open>cached\<close>,
  \<open>versql\<close>, \<open>vercache\<close>, \<open>quota\<close>, \<open>pace\<close>, and by \<open>sublocale\<close> the outbox); \<open>finite_graph\<close> for graphs walked with a worklist
  (\<open>adj\<close>, \<open>par\<close>, \<open>chi\<close>, \<open>anc\<close>, \<open>rowgraph\<close>, \<open>parentgraph\<close>); \<open>action_frame\<close> for what a guarded call may change
  (\<open>tenant\<close>, \<open>closed\<close>); \<open>execution_gate\<close> (\<open>rules\<close>); \<open>vector_index\<close> (\<open>mem\<close>); \<open>versioned_repo\<close> for the store behind
  the announcing decorator (\<open>watched_mem\<close>); \<open>content_ports\<close> for
  the stores behind the executor of jobs (\<open>mem\<close>) and \<open>job_system\<close> for its invariants (by \<open>sublocale\<close> for
  all \<open>content_ports\<close>, and \<open>stranding\<close>); \<open>history_model\<close> and \<open>history_pair\<close> for
  the content stores (\<open>mem\<close>, \<open>hsql\<close>, \<open>stores\<close>).

  \<^bold>\<open>Bounds, fuel, termination.\<close>
  No fuel is used. Loops over the commit graph end because the commits not yet visited decrease
  (\<open>finite_graph\<close>); \<open>walk_line\<close> because the parents not yet in the chain decrease; \<open>log_walk\<close> is
  structural in the source's own limit. Two loops may run forever and are partial functions into an
  option: the eviction of session bindings (\<open>session_ownership_exact\<close> says when bindings return: while the sessions are \<open>roomy\<close>) and the collection
  of the commits to rebase (\<open>commits_to_rebase_returns\<close>: always, while parent links are acyclic,
  which every operation keeps). Version numbers, graph revisions and limits passed to SQL are
  64 bit words; other counters are natural numbers, below limits that fit their type.

  \<^bold>\<open>Parameters.\<close>
  What comes from outside the repository is an argument: the text forms of uuids and times, serde_json,
  Unicode lower case, the token counter, hashes, the clock and fresh uuids, the order in which SQLite
  yields rows without ORDER BY, the moka cache with its documented promises, executors, models and other
  injected services. Theorems that need a promise of them name it as a hypothesis, and their witnesses
  show an instance. What a future observes of deadline and cancellation, and how far
  it gets, is an argument of the guarded calls; interleavings are sequences of steps, in \<open>Facade_Admission\<close> of
  single memory accesses under their orderings. Floating point fields are bit patterns;
  they are compared as IEEE 754 prescribes and never computed with.

  \<^bold>\<open>Not modelled.\<close>
  The PostgreSQL stores, whose logic is that of the SQLite ones in another dialect (of its outbox the
  claiming statement is modelled). Semantic tags, which need a CEL interpreter, and the knowledge merge,
  which needs the LWW map of another crate. Retrieval, consolidation (its jobs apart), decision trees, reasoning, trust,
  reputation and privacy accounting: they compute floating point scores or call language models.
  Transports, providers, parsers and sandboxes: glue around external libraries. Threads below the
  granularity of a lock or a transaction, the admission gate and the emissions of the hub apart.
\<close>

end
